(* ===== verification/Prelude.thy ===== *)
theory Prelude
  imports Main "HOL-Library.Word" "HOL-Library.AList"
begin

text \<open>
  Shared vocabulary of the development: bytes and byte strings, Go slices, big-endian integers
  (\<^verbatim>\<open>encoding/binary\<close>), decimal printing (\<^verbatim>\<open>fmt.Sprint\<close>), \<^verbatim>\<open>strings.Split\<close>/\<^verbatim>\<open>Join\<close> and
  \<^verbatim>\<open>path.Join\<close>, Go maps as association lists with distinct keys, the \<^verbatim>\<open>io.ReadFull\<close> /
  \<^verbatim>\<open>io.CopyN\<close> readers, and saturating \<^verbatim>\<open>time.Time.Sub\<close>.  A Go map's iteration order is
  unspecified; an association list fixes one, and the theorems quantify over every well-formed
  list, hence over every order.
\<close>

section \<open>Collections of rules\<close>

named_theorems codec_simps \<open>round-trip and length facts of the byte codecs\<close>
named_theorems alist_simps \<open>lookup after update and delete on association lists\<close>
named_theorems store_laws \<open>what the operations of a store return after one another\<close>

section \<open>Types\<close>

type_synonym byte = "8 word"
type_synonym bytes = "8 word list"
type_synonym u8 = "8 word"
type_synonym u16 = "16 word"
type_synonym u32 = "32 word"
type_synonym u64 = "64 word"
type_synonym i8 = "8 word"
type_synonym ('k, 'v) gomap = "('k \<times> 'v) list"
type_synonym gotime = int
type_synonym duration = int

section \<open>Slices\<close>

text \<open>\<^verbatim>\<open>b[lo:hi]\<close> for \<^verbatim>\<open>lo <= hi <= len(b)\<close>; callers state the bounds where Go would panic.\<close>

definition slice :: "nat \<Rightarrow> nat \<Rightarrow> 'a list \<Rightarrow> 'a list" where
  "slice lo hi xs = take (hi - lo) (drop lo xs)"

lemma length_slice [simp]: "hi \<le> length xs \<Longrightarrow> length (slice lo hi xs) = hi - lo"
  by (simp add: slice_def)

lemma slice_append_mid:
  "length pre = lo \<Longrightarrow> hi = lo + length mid \<Longrightarrow> slice lo hi (pre @ mid @ post) = mid"
  by (simp add: slice_def)

lemma slice_Cons_Suc: "slice (Suc lo) (Suc hi) (x # xs) = slice lo hi xs"
  by (simp add: slice_def)

section \<open>Array writes\<close>

text \<open>\<^verbatim>\<open>copy(dst[i:], bs)\<close> on an array.\<close>

definition copy_at :: "nat \<Rightarrow> bytes \<Rightarrow> bytes \<Rightarrow> bytes" where
  "copy_at i bs dst = take i dst @ take (length dst - i) bs @ drop (i + length bs) dst"

lemma length_copy_at [simp]: "length (copy_at i bs dst) = length dst"
  by (auto simp: copy_at_def)

lemma slice_copy_at_same:
  "i + length bs \<le> length dst \<Longrightarrow> hi = i + length bs \<Longrightarrow> slice i hi (copy_at i bs dst) = bs"
  by (simp add: copy_at_def slice_def)

lemma nth_copy_at:
  "i + length bs \<le> length dst \<Longrightarrow> k < length dst \<Longrightarrow>
   copy_at i bs dst ! k = (if i \<le> k \<and> k < i + length bs then bs ! (k - i) else dst ! k)"
  by (auto simp: copy_at_def nth_append min_def)

lemma slice_nth: "hi \<le> length xs \<Longrightarrow> slice lo hi xs = map ((!) xs) [lo..<hi]"
  by (auto simp: slice_def intro!: nth_equalityI)

lemma slice_copy_at_other:
  assumes "hi \<le> i \<or> i + length bs \<le> lo" and "i + length bs \<le> length dst" and "hi \<le> length dst"
  shows "slice lo hi (copy_at i bs dst) = slice lo hi dst"
  using assms by (auto simp: slice_nth nth_copy_at)

lemmas copy_at_simps = slice_copy_at_same slice_copy_at_other nth_copy_at

section \<open>Big-endian integers\<close>

fun be_bytes :: "nat \<Rightarrow> nat \<Rightarrow> bytes" where
  "be_bytes 0 v = []"
| "be_bytes (Suc n) v = be_bytes n (v div 256) @ [of_nat v]"

definition be_nat :: "bytes \<Rightarrow> nat" where
  "be_nat bs = foldl (\<lambda>a b. a * 256 + unat b) 0 bs"

definition PutUint16 :: "u16 \<Rightarrow> bytes" where "PutUint16 v = be_bytes 2 (unat v)"
definition PutUint32 :: "u32 \<Rightarrow> bytes" where "PutUint32 v = be_bytes 4 (unat v)"
definition PutUint64 :: "u64 \<Rightarrow> bytes" where "PutUint64 v = be_bytes 8 (unat v)"
definition Uint16 :: "bytes \<Rightarrow> u16" where "Uint16 bs = of_nat (be_nat bs)"
definition Uint32 :: "bytes \<Rightarrow> u32" where "Uint32 bs = of_nat (be_nat bs)"
definition Uint64 :: "bytes \<Rightarrow> u64" where "Uint64 bs = of_nat (be_nat bs)"

lemma length_be_bytes [simp]: "length (be_bytes n v) = n"
  by (induction n arbitrary: v) auto

lemma be_nat_snoc: "be_nat (bs @ [b]) = be_nat bs * 256 + unat b"
  by (simp add: be_nat_def)

lemma be_nat_be_bytes: "be_nat (be_bytes n v) = v mod 256 ^ n"
proof (induction n arbitrary: v)
  case 0
  then show ?case by (simp add: be_nat_def)
next
  case (Suc n)
  have "unat (of_nat v :: byte) = v mod 256"
    by (simp add: unat_of_nat)
  with Suc.IH show ?case
    by (simp add: be_nat_snoc mod_mult2_eq)
qed

text \<open>The bytes of a Go string.\<close>

definition str_bytes :: "string \<Rightarrow> bytes" where "str_bytes s = map of_char s"

lemma length_str_bytes [simp]: "length (str_bytes s) = length s"
  by (simp add: str_bytes_def)

lemma of_char_byte_inj: "inj (of_char :: char \<Rightarrow> byte)"
proof (rule injI)
  fix c d :: char assume "(of_char c :: byte) = of_char d"
  then have "unat (of_nat (of_char c) :: byte) = unat (of_nat (of_char d) :: byte)"
    by (simp only: of_nat_of_char)
  moreover have "unat (of_nat (of_char x) :: byte) = of_char x" for x :: char
    by (simp add: unat_of_nat)
  ultimately show "c = d" by (metis of_char_eq_iff)
qed

lemma str_bytes_inject [simp]: "str_bytes s = str_bytes t \<longleftrightarrow> s = t"
  by (simp add: str_bytes_def inj_map_eq_map of_char_byte_inj)

text \<open>
  Codes that can be read back from the front of a longer text: the values of \<open>ok\<close> are told apart
  whatever follows them.
\<close>

locale prefix_code =
  fixes enc :: "'a \<Rightarrow> bytes" and ok :: "'a \<Rightarrow> bool"
  assumes prefix_inject: "ok a \<Longrightarrow> ok b \<Longrightarrow> enc a @ xs = enc b @ ys \<Longrightarrow> a = b \<and> xs = ys"
begin

lemma prefix_eq_iff: "ok a \<Longrightarrow> ok b \<Longrightarrow> enc a @ xs = enc b @ ys \<longleftrightarrow> a = b \<and> xs = ys"
  using prefix_inject by blast

lemma prefix_list:
  "length as = length bs \<Longrightarrow> list_all ok as \<Longrightarrow> list_all ok bs \<Longrightarrow>
   concat (map enc as) @ xs = concat (map enc bs) @ ys \<Longrightarrow> as = bs \<and> xs = ys"
proof (induction as bs rule: list_induct2)
  case (Cons a as b bs)
  have "a = b \<and> concat (map enc as) @ xs = concat (map enc bs) @ ys"
    by (rule prefix_inject) (use Cons.prems in simp_all)
  with Cons show ?case by simp
qed simp

end

text \<open>A codec of fixed width, and what a reader at a known offset gets back from it.\<close>

locale fixed_codec =
  fixes enc :: "'a \<Rightarrow> bytes" and dec :: "bytes \<Rightarrow> 'a" and width :: nat
  assumes enc_length: "length (enc x) = width"
    and dec_enc: "dec (enc x) = x"
begin

lemma dec_at: "length pre = lo \<Longrightarrow> hi = lo + width \<Longrightarrow> dec (slice lo hi (pre @ enc x @ post)) = x"
  by (simp add: slice_append_mid enc_length dec_enc)

lemma dec_prefix: "dec (take width (enc x @ rest)) = x"
  by (simp add: enc_length dec_enc)

lemma drop_prefix: "drop width (enc x @ rest) = rest"
  by (simp add: enc_length)

lemma enc_inject: "enc x = enc y \<longleftrightarrow> x = y"
  by (metis dec_enc)

end

sublocale fixed_codec \<subseteq> prefix_code enc "\<lambda>_. True"
proof
  fix a b xs ys assume "enc a @ xs = enc b @ ys"
  then show "a = b \<and> xs = ys" by (metis append_eq_append_conv enc_inject enc_length)
qed

interpretation u16: fixed_codec PutUint16 Uint16 2
proof
  fix x :: u16
  have "unat x < 2 ^ 16" using unsigned_less [of x] by simp
  then have "unat x < 256 ^ 2" by simp
  then show "Uint16 (PutUint16 x) = x"
    by (simp add: Uint16_def PutUint16_def be_nat_be_bytes del: be_bytes.simps)
qed (simp add: PutUint16_def)

interpretation u32: fixed_codec PutUint32 Uint32 4
proof
  fix x :: u32
  have "unat x < 2 ^ 32" using unsigned_less [of x] by simp
  then have "unat x < 256 ^ 4" by simp
  then show "Uint32 (PutUint32 x) = x"
    by (simp add: Uint32_def PutUint32_def be_nat_be_bytes del: be_bytes.simps)
qed (simp add: PutUint32_def)

interpretation u64: fixed_codec PutUint64 Uint64 8
proof
  fix x :: u64
  have "unat x < 2 ^ 64" using unsigned_less [of x] by simp
  then have "unat x < 256 ^ 8" by simp
  then show "Uint64 (PutUint64 x) = x"
    by (simp add: Uint64_def PutUint64_def be_nat_be_bytes del: be_bytes.simps)
qed (simp add: PutUint64_def)

lemmas put_uint_lengths [simp, codec_simps] = u16.enc_length u32.enc_length u64.enc_length
lemmas uint_put_uint [simp, codec_simps] = u16.dec_enc u32.dec_enc u64.dec_enc

lemma unat_u64: "n < 2 ^ 64 \<Longrightarrow> unat (of_nat n :: u64) = n"
  by (simp add: unat_of_nat)

lemma of_int_u64_inject:
  assumes "- (2 ^ 63) \<le> a" "a < 2 ^ 63" "- (2 ^ 63) \<le> b" "b < 2 ^ 63"
  shows "(of_int a :: u64) = of_int b \<longleftrightarrow> a = b"
proof
  have s: "sint (of_int i :: u64) = i" if "- (2 ^ 63) \<le> i" "i < 2 ^ 63" for i
    using signed_take_bit_int_eq_self [of 63 i] that by (simp add: signed_of_int)
  show "(of_int a :: u64) = of_int b \<Longrightarrow> a = b" using s assms by metis
qed simp

lemma of_nat_u64_inject: "n < 2 ^ 64 \<Longrightarrow> m < 2 ^ 64 \<Longrightarrow> (of_nat n :: u64) = of_nat m \<longleftrightarrow> n = m"
  by (metis unat_u64)

lemma unat_lt_u64: "unat (w :: u64) < 2 ^ 64"
  using unsigned_less [of w] by simp

lemma sint_u64: "n < 2 ^ 63 \<Longrightarrow> sint (of_nat n :: u64) = int n"
proof -
  assume n: "n < 2 ^ 63"
  then have "unat (of_nat n :: u64) = n" by (intro unat_u64) simp
  then have "uint (of_nat n :: u64) = int n" by (simp add: uint_nat)
  with n show ?thesis by (simp add: sint_uint signed_take_bit_int_eq_self)
qed

section \<open>Sequencing with errors\<close>

definition ebind :: "'e + 'a \<Rightarrow> ('a \<Rightarrow> 'e + 'b) \<Rightarrow> 'e + 'b" where
  "ebind m f = (case m of Inl e \<Rightarrow> Inl e | Inr a \<Rightarrow> f a)"

lemma ebind_simps [simp]: "ebind (Inl e) f = Inl e" "ebind (Inr a) f = f a"
  by (simp_all add: ebind_def)

lemma ebind_Inr: "ebind m f = Inr b \<longleftrightarrow> (\<exists>a. m = Inr a \<and> f a = Inr b)"
  by (cases m) auto

lemma ebind_cong [fundef_cong]: "m = m' \<Longrightarrow> (\<And>a. m' = Inr a \<Longrightarrow> f a = f' a) \<Longrightarrow> ebind m f = ebind m' f'"
  by (cases m') auto

section \<open>Go maps as association lists\<close>

text \<open>A missing key of a Go map of maps or slices reads as nil, here the empty list.\<close>

definition inner :: "('k, 'v list) gomap \<Rightarrow> 'k \<Rightarrow> 'v list" where
  "inner m k = (case map_of m k of None \<Rightarrow> [] | Some v \<Rightarrow> v)"

abbreviation distinct_keys :: "('k, 'v) gomap \<Rightarrow> bool" where
  "distinct_keys m \<equiv> distinct (map fst m)"

lemma map_of_update [alist_simps]: "map_of (AList.update k v m) = (map_of m)(k \<mapsto> v)"
  by (rule update_conv')

lemma map_of_delete [alist_simps]: "map_of (AList.delete k m) = (map_of m)(k := None)"
  by (rule delete_conv')

lemma distinct_keys_update: "distinct_keys m \<Longrightarrow> distinct_keys (AList.update k v m)"
  by (rule distinct_update)

lemma distinct_keys_delete: "distinct_keys m \<Longrightarrow> distinct_keys (AList.delete k m)"
  by (rule distinct_delete)

lemma alist_empty_iff: "m = [] \<longleftrightarrow> map_of m = Map.empty"
  by (cases m) (auto simp: fun_eq_iff split: if_splits)

lemma in_keys_iff: "k \<in> fst ` set m \<longleftrightarrow> map_of m k \<noteq> None"
  by (simp add: map_of_eq_None_iff)

section \<open>Strings and paths\<close>

fun split_on :: "'a \<Rightarrow> 'a list \<Rightarrow> 'a list list" where
  "split_on c [] = [[]]"
| "split_on c (x # xs) =
     (if x = c then [] # split_on c xs
      else case split_on c xs of [] \<Rightarrow> [[x]] | y # ys \<Rightarrow> (x # y) # ys)"

fun join_with :: "'a list \<Rightarrow> 'a list list \<Rightarrow> 'a list" where
  "join_with sep [] = []"
| "join_with sep [x] = x"
| "join_with sep (x # y # zs) = x @ sep @ join_with sep (y # zs)"

lemma split_on_nonempty [simp]: "split_on c xs \<noteq> []"
  by (induction xs) (auto split: list.splits)

lemma split_on_no_sep: "p \<in> set (split_on c xs) \<Longrightarrow> c \<notin> set p"
proof (induction xs arbitrary: p)
  case (Cons x xs)
  then show ?case by (cases "split_on c xs") (auto split: if_splits)
qed simp

lemma join_with_Cons: "ys \<noteq> [] \<Longrightarrow> join_with sep (x # ys) = x @ sep @ join_with sep ys"
  by (cases ys) auto

lemma join_with_head: "join_with sep ((x # y) # ys) = x # join_with sep (y # ys)"
  by (cases ys) auto

lemma join_split_on: "join_with [c] (split_on c xs) = xs"
proof (induction xs)
  case (Cons x xs)
  then show ?case
    by (cases "split_on c xs") (auto simp: join_with_Cons join_with_head)
qed simp

lemma split_on_free: "c \<notin> set xs \<Longrightarrow> split_on c xs = [xs]"
  by (induction xs) auto

lemma split_on_append: "c \<notin> set p \<Longrightarrow> split_on c (p @ c # xs) = p # split_on c xs"
  by (induction p) auto

text \<open>
  \<^verbatim>\<open>path.Join\<close> drops empty elements, joins with a slash and cleans the result: no empty or
  dot component, and a dot-dot component removes the one before it when there is one to remove.
  The elements here come from \<^verbatim>\<open>strings.Split(path, "/")\<close>, so none contains a slash and the
  result is a relative path.
\<close>

fun clean_step :: "string list \<Rightarrow> string \<Rightarrow> string list" where
  "clean_step stack p =
     (if p = [] \<or> p = ''.'' then stack
      else if p = ''..'' then
        (case stack of [] \<Rightarrow> [p] | q # qs \<Rightarrow> if q = ''..'' then p # stack else qs)
      else p # stack)"

definition path_Join :: "string list \<Rightarrow> string" where
  "path_Join elems =
     (if \<forall>e \<in> set elems. e = [] then []
      else let comps = rev (foldl clean_step [] elems)
           in if comps = [] then ''.'' else join_with ''/'' comps)"

fun show_nat :: "nat \<Rightarrow> string" where
  "show_nat n = (if n < 10 then [char_of (48 + n)] else show_nat (n div 10) @ [char_of (48 + n mod 10)])"

declare show_nat.simps [simp del]

definition show_int :: "int \<Rightarrow> string" where
  "show_int i = (if i < 0 then CHR ''-'' # show_nat (nat (- i)) else show_nat (nat i))"

section \<open>Readers\<close>

datatype io_error = EOF | ErrUnexpectedEOF

text \<open>\<^verbatim>\<open>io.ReadFull\<close> into a buffer of \<open>n\<close> bytes: the bytes and the rest of the reader.\<close>

definition ReadFull :: "nat \<Rightarrow> bytes \<Rightarrow> io_error + (bytes \<times> bytes)" where
  "ReadFull n r =
     (if n \<le> length r then Inr (take n r, drop n r)
      else if r = [] then Inl EOF else Inl ErrUnexpectedEOF)"

lemma ReadFull_append [simp]: "length xs = n \<Longrightarrow> ReadFull n (xs @ ys) = Inr (xs, ys)"
  by (simp add: ReadFull_def)

lemma ReadFull_Inr_iff: "ReadFull n r = Inr (xs, ys) \<longleftrightarrow> r = xs @ ys \<and> length xs = n"
  by (auto simp: ReadFull_def split: if_splits)

section \<open>Time\<close>

text \<open>
  A \<^verbatim>\<open>time.Time\<close> is its distance in nanoseconds from the zero time, a \<^verbatim>\<open>time.Duration\<close> a signed
  64-bit count of nanoseconds; \<^verbatim>\<open>Sub\<close> saturates.
\<close>

definition time_Sub :: "gotime \<Rightarrow> gotime \<Rightarrow> duration" where
  "time_Sub t u = max (- (2 ^ 63)) (min (2 ^ 63 - 1) (t - u))"

definition go_quot :: "int \<Rightarrow> int \<Rightarrow> int" where
  "go_quot a b = sgn a * sgn b * (\<bar>a\<bar> div \<bar>b\<bar>)"

lemma time_Sub_mono: "t \<le> t' \<Longrightarrow> time_Sub t u \<le> time_Sub t' u"
  by (auto simp: time_Sub_def)

section \<open>Callbacks that can stop an iteration\<close>

text \<open>
  The \<^verbatim>\<open>Range\<close> methods call a function for each element of a snapshot and stop when it
  returns false; the function's captured variables are the accumulator.
\<close>

fun range_go :: "('a \<Rightarrow> 'acc \<Rightarrow> 'acc \<times> bool) \<Rightarrow> 'a list \<Rightarrow> 'acc \<Rightarrow> 'acc" where
  "range_go fn [] acc = acc"
| "range_go fn (x # xs) acc =
     (let (acc', more) = fn x acc in if more then range_go fn xs acc' else acc')"

lemma range_go_fold:
  "(\<And>x acc. snd (fn x acc)) \<Longrightarrow> range_go fn xs acc = fold (\<lambda>x a. fst (fn x a)) xs acc"
  by (induction xs arbitrary: acc) (auto simp: split_beta)

end
