(* ===== verification/Registry_Store.thy ===== *)
theory Registry_Store
  imports Prelude
begin

text \<open>
  \<^verbatim>\<open>pkg/registry/store.go\<close>: digests, manifests and their classification, the references a stored
  manifest holds, the \<^verbatim>\<open>Store\<close> interface as a locale and its in-memory implementation
  \<^verbatim>\<open>memStore\<close>.  The go-containerregistry functions the package calls (hashing, digest syntax,
  media-type predicates, manifest parsers) and the JSON decoding are the fields of the record
  \<open>lib\<close>, an argument of every definition that uses them.
\<close>

section \<open>Data\<close>

datatype hash = Hash (Algorithm: string) (Hex: string)

text \<open>The zero value \<^verbatim>\<open>v1.Hash{}\<close>.\<close>

definition zero_hash :: hash where "zero_hash = Hash [] []"

datatype kind = KindOther | KindManifest | KindIndex

record manifest =
  ContentType :: string
  Kind :: kind
  Blob :: bytes

text \<open>The parts of a \<^verbatim>\<open>v1.Descriptor\<close> the registry reads.\<close>

record v1_descriptor =
  MediaType :: string
  Digest :: hash
  Size :: int

record v1_index =
  Manifests :: "v1_descriptor list"
  IndexSubject :: "v1_descriptor option"

record v1_image =
  Config :: v1_descriptor
  Layers :: "v1_descriptor list"
  ImageSubject :: "v1_descriptor option"

text \<open>The anonymous struct \<^verbatim>\<open>kindOf\<close> decodes into: which of its fields are present.\<close>

record kind_body =
  bodyMediaType :: string
  hasManifests :: bool
  hasConfig :: bool
  hasLayers :: bool

text \<open>The anonymous struct \<^verbatim>\<open>handleReferrers\<close> decodes into.\<close>

record artifact_body =
  artArtifactType :: string
  artConfigMediaType :: string
  artAnnotations :: "(string, string) gomap"

text \<open>The descriptor \<^verbatim>\<open>handleReferrers\<close> lists for each referrer.\<close>

record referrer =
  refContentType :: string
  refSize :: nat
  refDigest :: hash
  refArtifactType :: string
  refAnnotations :: "(string, string) gomap"

record lib =
  NewHash :: "string \<Rightarrow> hash option"
  HashString :: "hash \<Rightarrow> string"
  SHA256 :: "bytes \<Rightarrow> hash"
  Hasher :: "string \<Rightarrow> (bytes \<Rightarrow> string) option"
  IsIndex :: "string \<Rightarrow> bool"
  IsImage :: "string \<Rightarrow> bool"
  IsDistributable :: "string \<Rightarrow> bool"
  ParseIndexManifest :: "bytes \<Rightarrow> string + v1_index"
  ParseManifest :: "bytes \<Rightarrow> string + v1_image"
  UnmarshalKindBody :: "bytes \<Rightarrow> kind_body option"
  UnmarshalSubject :: "bytes \<Rightarrow> hash option"
  UnmarshalArtifact :: "bytes \<Rightarrow> artifact_body"
  MarshalTags :: "string \<Rightarrow> string list \<Rightarrow> bytes"
  MarshalCatalog :: "string list \<Rightarrow> bytes"
  MarshalReferrers :: "referrer list \<Rightarrow> bytes"

section \<open>Classification and references\<close>

definition kindOfMediaType :: "lib \<Rightarrow> string \<Rightarrow> kind" where
  "kindOfMediaType L mediaType =
     (if IsIndex L mediaType then KindIndex
      else if IsImage L mediaType then KindManifest
      else KindOther)"

definition kindOf :: "lib \<Rightarrow> string \<Rightarrow> bytes \<Rightarrow> kind" where
  "kindOf L contentType blob =
     (let fromHeader = kindOfMediaType L contentType in
      case UnmarshalKindBody L blob of
        None \<Rightarrow> fromHeader
      | Some body \<Rightarrow>
          (let k = kindOfMediaType L (bodyMediaType body) in
           if k \<noteq> KindOther then k
           else if hasManifests body then KindIndex
           else if hasConfig body \<or> hasLayers body then KindManifest
           else fromHeader))"

record descriptor =
  digest :: hash
  size :: int

record references =
  refManifests :: "hash list"
  refBlobs :: "descriptor list"
  refSubject :: "hash option"

definition no_references :: references where
  "no_references = \<lparr>refManifests = [], refBlobs = [], refSubject = None\<rparr>"

definition to_descriptor :: "v1_descriptor \<Rightarrow> descriptor" where
  "to_descriptor d = \<lparr>digest = Digest d, size = Size d\<rparr>"

definition is_child :: "lib \<Rightarrow> v1_descriptor \<Rightarrow> bool" where
  "is_child L d \<longleftrightarrow> IsIndex L (MediaType d) \<or> IsImage L (MediaType d)"

definition parseReferences :: "lib \<Rightarrow> manifest \<Rightarrow> references" where
  "parseReferences L m =
     (case Kind m of
        KindIndex \<Rightarrow>
          (case ParseIndexManifest L (Blob m) of
             Inl _ \<Rightarrow> no_references
           | Inr index \<Rightarrow>
               \<lparr>refManifests = map Digest (filter (is_child L) (Manifests index)),
                refBlobs = map to_descriptor (filter (\<lambda>d. \<not> is_child L d) (Manifests index)),
                refSubject = map_option Digest (IndexSubject index)\<rparr>)
      | _ \<Rightarrow>
          (case ParseManifest L (Blob m) of
             Inl _ \<Rightarrow> no_references
           | Inr img \<Rightarrow>
               \<lparr>refManifests = [],
                refBlobs =
                  (if Digest (Config img) \<noteq> zero_hash then [to_descriptor (Config img)] else [])
                  @ map to_descriptor (Layers img),
                refSubject = map_option Digest (ImageSubject img)\<rparr>))"

section \<open>The in-memory store\<close>

record memStore =
  repos :: "(string, (hash, manifest) gomap) gomap"
  tagmap :: "(string, (string, hash) gomap) gomap"

definition NewMemStore :: memStore where
  "NewMemStore = \<lparr>repos = [], tagmap = []\<rparr>"

definition HasRepo :: "memStore \<Rightarrow> string \<Rightarrow> bool" where
  "HasRepo s repo \<longleftrightarrow> length (inner (repos s) repo) > 0 \<or> length (inner (tagmap s) repo) > 0"

definition repoNames :: "memStore \<Rightarrow> string list" where
  "repoNames s =
     map fst (repos s) @ filter (\<lambda>repo. map_of (repos s) repo = None) (map fst (tagmap s))"

definition RangeRepos :: "memStore \<Rightarrow> (string \<Rightarrow> 'acc \<Rightarrow> 'acc \<times> bool) \<Rightarrow> 'acc \<Rightarrow> 'acc" where
  "RangeRepos s fn acc = range_go fn (repoNames s) acc"

definition GetManifest :: "memStore \<Rightarrow> string \<Rightarrow> hash \<Rightarrow> manifest option" where
  "GetManifest s repo d = map_of (inner (repos s) repo) d"

definition PutManifest :: "memStore \<Rightarrow> string \<Rightarrow> hash \<Rightarrow> manifest \<Rightarrow> memStore" where
  "PutManifest s repo d m =
     s\<lparr>repos := AList.update repo (AList.update d m (inner (repos s) repo)) (repos s)\<rparr>"

text \<open>
  \<open>put_inner\<close> is the shared tail of the two deletions: a repository whose map became empty is
  dropped from the outer map.
\<close>

definition put_inner :: "('k, ('a, 'b) gomap) gomap \<Rightarrow> 'k \<Rightarrow> ('a, 'b) gomap \<Rightarrow> ('k, ('a, 'b) gomap) gomap" where
  "put_inner m k v = (if length v = 0 then AList.delete k m else AList.update k v m)"

definition DeleteManifest :: "memStore \<Rightarrow> string \<Rightarrow> hash \<Rightarrow> memStore" where
  "DeleteManifest s repo d =
     s\<lparr>repos := put_inner (repos s) repo (AList.delete d (inner (repos s) repo))\<rparr>"

definition RangeManifests ::
    "memStore \<Rightarrow> string \<Rightarrow> (hash \<times> manifest \<Rightarrow> 'acc \<Rightarrow> 'acc \<times> bool) \<Rightarrow> 'acc \<Rightarrow> 'acc" where
  "RangeManifests s repo fn acc = range_go fn (inner (repos s) repo) acc"

definition ResolveTag :: "memStore \<Rightarrow> string \<Rightarrow> string \<Rightarrow> hash option" where
  "ResolveTag s repo tag = map_of (inner (tagmap s) repo) tag"

definition PutTag :: "memStore \<Rightarrow> string \<Rightarrow> string \<Rightarrow> hash \<Rightarrow> memStore" where
  "PutTag s repo tag d =
     s\<lparr>tagmap := AList.update repo (AList.update tag d (inner (tagmap s) repo)) (tagmap s)\<rparr>"

definition DeleteTag :: "memStore \<Rightarrow> string \<Rightarrow> string \<Rightarrow> memStore" where
  "DeleteTag s repo tag =
     s\<lparr>tagmap := put_inner (tagmap s) repo (AList.delete tag (inner (tagmap s) repo))\<rparr>"

definition RangeTags ::
    "memStore \<Rightarrow> string \<Rightarrow> (string \<times> hash \<Rightarrow> 'acc \<Rightarrow> 'acc \<times> bool) \<Rightarrow> 'acc \<Rightarrow> 'acc" where
  "RangeTags s repo fn acc = range_go fn (inner (tagmap s) repo) acc"

section \<open>Well-formedness\<close>

definition wf_nested :: "('k, ('a, 'b) gomap) gomap \<Rightarrow> bool" where
  "wf_nested m \<longleftrightarrow> distinct_keys m \<and> (\<forall>(k, v) \<in> set m. v \<noteq> [] \<and> distinct_keys v)"

definition wf_store :: "memStore \<Rightarrow> bool" where
  "wf_store s \<longleftrightarrow> wf_nested (repos s) \<and> wf_nested (tagmap s)"

lemma wf_nested_alt:
  "wf_nested m \<longleftrightarrow> distinct_keys m \<and> (\<forall>k v. map_of m k = Some v \<longrightarrow> v \<noteq> [] \<and> distinct_keys v)"
  unfolding wf_nested_def by (cases "distinct_keys m") (fastforce simp: map_of_eq_Some_iff)+

lemma wf_nestedD:
  assumes "wf_nested m"
  shows "distinct_keys m" and "map_of m k = Some v \<Longrightarrow> v \<noteq> [] \<and> distinct_keys v"
    and "distinct_keys (inner m k)" and "map_of m k \<noteq> None \<longleftrightarrow> inner m k \<noteq> []"
  using assms unfolding wf_nested_alt inner_def by (blast, blast, auto split: option.splits)

lemma wf_nested_update:
  "wf_nested m \<Longrightarrow> v \<noteq> [] \<Longrightarrow> distinct_keys v \<Longrightarrow> wf_nested (AList.update k v m)"
  by (simp add: wf_nested_alt distinct_update alist_simps)

lemma wf_nested_delete: "wf_nested m \<Longrightarrow> wf_nested (AList.delete k m)"
  by (simp add: wf_nested_alt distinct_delete alist_simps)

lemma wf_nested_put_inner: "wf_nested m \<Longrightarrow> distinct_keys v \<Longrightarrow> wf_nested (put_inner m k v)"
  by (auto simp: put_inner_def wf_nested_update wf_nested_delete)

lemma inner_update [simp]: "inner (AList.update k v m) k' = (if k' = k then v else inner m k')"
  by (simp add: inner_def alist_simps)

lemma inner_put_inner [simp]: "inner (put_inner m k v) k' = (if k' = k then v else inner m k')"
  by (auto simp: put_inner_def inner_def alist_simps)

lemma update_nonempty [simp]: "AList.update k v m \<noteq> []"
  by (cases m) (auto split: prod.splits)

section \<open>The interface\<close>

text \<open>
  \<^verbatim>\<open>type Store interface\<close>: what the handlers and the collector rely on.  \<open>names\<close>, \<open>manifestsIn\<close>
  and \<open>tagsIn\<close> are the snapshots the three \<^verbatim>\<open>Range\<close> methods walk.
\<close>

locale store_interface =
  fixes getM :: "'s \<Rightarrow> string \<Rightarrow> hash \<Rightarrow> manifest option"
    and putM :: "'s \<Rightarrow> string \<Rightarrow> hash \<Rightarrow> manifest \<Rightarrow> 's"
    and delM :: "'s \<Rightarrow> string \<Rightarrow> hash \<Rightarrow> 's"
    and resolve :: "'s \<Rightarrow> string \<Rightarrow> string \<Rightarrow> hash option"
    and putT :: "'s \<Rightarrow> string \<Rightarrow> string \<Rightarrow> hash \<Rightarrow> 's"
    and delT :: "'s \<Rightarrow> string \<Rightarrow> string \<Rightarrow> 's"
    and hasRepo :: "'s \<Rightarrow> string \<Rightarrow> bool"
    and names :: "'s \<Rightarrow> string list"
    and manifestsIn :: "'s \<Rightarrow> string \<Rightarrow> (hash, manifest) gomap"
    and tagsIn :: "'s \<Rightarrow> string \<Rightarrow> (string, hash) gomap"
    and invar :: "'s \<Rightarrow> bool"
  assumes getM_putM: "getM (putM s r d m) r' d' = (if r' = r \<and> d' = d then Some m else getM s r' d')"
    and getM_delM: "getM (delM s r d) r' d' = (if r' = r \<and> d' = d then None else getM s r' d')"
    and getM_putT: "getM (putT s r t d) = getM s"
    and getM_delT: "getM (delT s r t) = getM s"
    and resolve_putT: "resolve (putT s r t d) r' t' = (if r' = r \<and> t' = t then Some d else resolve s r' t')"
    and resolve_delT: "resolve (delT s r t) r' t' = (if r' = r \<and> t' = t then None else resolve s r' t')"
    and resolve_putM: "resolve (putM s r d m) = resolve s"
    and resolve_delM: "resolve (delM s r d) = resolve s"
    and hasRepo_iff: "hasRepo s r \<longleftrightarrow> (\<exists>d. getM s r d \<noteq> None) \<or> (\<exists>t. resolve s r t \<noteq> None)"
    and names_iff: "invar s \<Longrightarrow> r \<in> set (names s) \<longleftrightarrow> hasRepo s r"
    and distinct_names: "invar s \<Longrightarrow> distinct (names s)"
    and manifestsIn_iff: "invar s \<Longrightarrow> (d, m) \<in> set (manifestsIn s r) \<longleftrightarrow> getM s r d = Some m"
    and tagsIn_iff: "invar s \<Longrightarrow> (t, d) \<in> set (tagsIn s r) \<longleftrightarrow> resolve s r t = Some d"
    and distinct_tagsIn: "invar s \<Longrightarrow> distinct (map fst (tagsIn s r))"
    and invar_putM: "invar s \<Longrightarrow> invar (putM s r d m)"
    and invar_delM: "invar s \<Longrightarrow> invar (delM s r d)"
    and invar_putT: "invar s \<Longrightarrow> invar (putT s r t d)"
    and invar_delT: "invar s \<Longrightarrow> invar (delT s r t)"
begin

lemmas point_laws =
  getM_putM getM_delM getM_putT getM_delT resolve_putT resolve_delT resolve_putM resolve_delM

lemmas invar_laws = invar_putM invar_delM invar_putT invar_delT

lemma fold_delT:
  "resolve (fold (\<lambda>t s. delT s r t) ts s) r' t' =
     (if r' = r \<and> t' \<in> set ts then None else resolve s r' t')"
  by (induction ts arbitrary: s) (auto simp: resolve_delT)

lemma fold_delT_getM: "getM (fold (\<lambda>t s. delT s r t) ts s) = getM s"
  by (induction ts arbitrary: s) (auto simp: getM_delT)

lemma fold_delT_invar: "invar s \<Longrightarrow> invar (fold (\<lambda>t s. delT s r t) ts s)"
  by (induction ts arbitrary: s) (auto simp: invar_delT)

lemma hasRepoI: "getM s r d = Some m \<Longrightarrow> hasRepo s r" "resolve s r t = Some d \<Longrightarrow> hasRepo s r"
  by (auto simp: hasRepo_iff)

end

abbreviation manifestsOf :: "memStore \<Rightarrow> string \<Rightarrow> (hash, manifest) gomap" where
  "manifestsOf s repo \<equiv> inner (repos s) repo"

abbreviation tagsOf :: "memStore \<Rightarrow> string \<Rightarrow> (string, hash) gomap" where
  "tagsOf s repo \<equiv> inner (tagmap s) repo"

lemmas mem_store_defs =
  GetManifest_def PutManifest_def DeleteManifest_def ResolveTag_def PutTag_def DeleteTag_def

lemma HasRepo_alt: "HasRepo s r \<longleftrightarrow> (\<exists>d. GetManifest s r d \<noteq> None) \<or> (\<exists>t. ResolveTag s r t \<noteq> None)"
  by (auto simp: HasRepo_def GetManifest_def ResolveTag_def alist_empty_iff fun_eq_iff)

lemma repoNames_iff: "wf_store s \<Longrightarrow> r \<in> set (repoNames s) \<longleftrightarrow> HasRepo s r"
  using wf_nestedD(4) [of "repos s" r] wf_nestedD(4) [of "tagmap s" r]
  by (auto simp: wf_store_def repoNames_def HasRepo_def in_keys_iff)

lemma distinct_repoNames: "wf_store s \<Longrightarrow> distinct (repoNames s)"
  using wf_nestedD(1) [of "repos s"] wf_nestedD(1) [of "tagmap s"]
  by (auto simp: wf_store_def repoNames_def map_of_eq_None_iff)

interpretation mem: store_interface GetManifest PutManifest DeleteManifest ResolveTag PutTag
  DeleteTag HasRepo repoNames manifestsOf tagsOf wf_store
proof
  fix s :: memStore and r :: string and d m t
  show "wf_store s \<Longrightarrow> wf_store (PutManifest s r d m)"
    by (simp add: wf_store_def PutManifest_def wf_nested_update distinct_update wf_nestedD)
  show "wf_store s \<Longrightarrow> wf_store (DeleteManifest s r d)"
    by (simp add: wf_store_def DeleteManifest_def wf_nested_put_inner distinct_delete wf_nestedD)
  show "wf_store s \<Longrightarrow> wf_store (PutTag s r t d)"
    by (simp add: wf_store_def PutTag_def wf_nested_update distinct_update wf_nestedD)
  show "wf_store s \<Longrightarrow> wf_store (DeleteTag s r t)"
    by (simp add: wf_store_def DeleteTag_def wf_nested_put_inner distinct_delete wf_nestedD)
  show "wf_store s \<Longrightarrow> (d, m) \<in> set (manifestsOf s r) \<longleftrightarrow> GetManifest s r d = Some m"
    by (simp add: wf_store_def GetManifest_def wf_nestedD)
  show "wf_store s \<Longrightarrow> (t, d) \<in> set (tagsOf s r) \<longleftrightarrow> ResolveTag s r t = Some d"
    by (simp add: wf_store_def ResolveTag_def wf_nestedD)
  show "wf_store s \<Longrightarrow> distinct (map fst (tagsOf s r))"
    by (simp add: wf_store_def wf_nestedD)
qed (auto simp: mem_store_defs alist_simps fun_eq_iff HasRepo_alt repoNames_iff distinct_repoNames)

lemmas mem_store_laws [simp, store_laws] = mem.point_laws
lemmas mem_store_invar [simp, intro] = mem.invar_laws

lemma wf_NewMemStore [simp]: "wf_store NewMemStore"
  by (simp add: NewMemStore_def wf_store_def wf_nested_def)

end
