(* ===== verification/Registry_Http.thy ===== *)
theory Registry_Http
  imports Registry_Collector "HOL-Library.Char_ord" "HOL-Library.List_Lexorder"
begin

text \<open>
  What the handlers of \<^verbatim>\<open>pkg/registry\<close> share: requests and responses, \<^verbatim>\<open>error.go\<close>, the verified
  reader of \<^verbatim>\<open>internal/verify\<close>, the blob-handler interfaces of \<^verbatim>\<open>blobs.go\<close> with the in-memory
  implementation, and the state of a running registry.  A handler maps a state to a state and a
  \<open>reply\<close>; an index out of range in Go is the reply \<open>Panic\<close>.
\<close>

section \<open>Requests and replies\<close>

record request =
  Method :: string
  URLHost :: string
  URLPath :: string
  Query :: "string \<Rightarrow> string"
  Header :: "string \<Rightarrow> string"
  Body :: bytes
  ContentLength :: int

record response =
  Status :: nat
  Headers :: "(string \<times> string) list"
  Payload :: bytes

record regError =
  errStatus :: nat
  Code :: string
  Message :: string

datatype reply = Ok response | Err regError | Panic

definition reg_error :: "nat \<Rightarrow> string \<Rightarrow> string \<Rightarrow> regError" where
  "reg_error st cd msg = \<lparr>errStatus = st, Code = cd, Message = msg\<rparr>"

definition regErrInternal :: "string \<Rightarrow> regError" where
  "regErrInternal err = reg_error 500 ''INTERNAL_SERVER_ERROR'' err"

definition regErrBlobUnknown :: regError where
  "regErrBlobUnknown = reg_error 404 ''BLOB_UNKNOWN'' ''Unknown blob''"

definition regErrUnsupported :: regError where
  "regErrUnsupported = reg_error 405 ''UNSUPPORTED'' ''Unsupported operation''"

definition regErrDigestMismatch :: regError where
  "regErrDigestMismatch = reg_error 400 ''DIGEST_INVALID'' ''digest does not match contents''"

definition regErrDigestInvalid :: regError where
  "regErrDigestInvalid = reg_error 400 ''NAME_INVALID'' ''invalid digest''"

definition errNameUnknown :: regError where
  "errNameUnknown = reg_error 404 ''NAME_UNKNOWN'' ''Unknown name''"

definition errManifestUnknown :: regError where
  "errManifestUnknown = reg_error 404 ''MANIFEST_UNKNOWN'' ''Unknown manifest''"

definition not_understood :: string where
  "not_understood = ''We don'' @ [CHR 0x27] @ ''t understand your method + url''"

definition errMethodUnknown :: regError where
  "errMethodUnknown = reg_error 400 ''METHOD_UNKNOWN'' not_understood"

text \<open>\<^verbatim>\<open>strings.Split(path, "/")[1:]\<close>\<close>

definition path_elems :: "string \<Rightarrow> string list" where
  "path_elems p = tl (split_on CHR ''/'' p)"

text \<open>
  \<^verbatim>\<open>strconv.Atoi\<close> on a 64-bit platform: the value and whether there was no error.  A value out of
  range is clipped, a syntax error gives 0.
\<close>

definition is_digit :: "char \<Rightarrow> bool" where
  "is_digit ch \<longleftrightarrow> 48 \<le> (of_char ch :: nat) \<and> (of_char ch :: nat) \<le> 57"

definition digits_value :: "string \<Rightarrow> int" where
  "digits_value ds = foldl (\<lambda>a ch. a * 10 + (of_char ch - 48)) 0 ds"

definition Atoi :: "string \<Rightarrow> int \<times> bool" where
  "Atoi s =
     (let (neg, ds) = (case s of [] \<Rightarrow> (False, []) | ch # cs \<Rightarrow>
            if ch = CHR ''-'' then (True, cs) else if ch = CHR ''+'' then (False, cs) else (False, s))
      in if ds = [] \<or> \<not> list_all is_digit ds then (0, False)
         else let v = (if neg then - digits_value ds else digits_value ds)
              in if v > 2 ^ 63 - 1 then (2 ^ 63 - 1, False)
                 else if v < - (2 ^ 63) then (- (2 ^ 63), False) else (v, True))"

definition Atoi_error :: "string \<Rightarrow> string" where
  "Atoi_error s = ''strconv.Atoi: parsing '' @ [CHR 0x22] @ s @ [CHR 0x22] @
     (if fst (Atoi s) = 0 then '': invalid syntax'' else '': value out of range'')"

section \<open>Verified readers\<close>

datatype blobErr = ErrNotFound | RedirectError string nat | VerifyError | OtherError string

definition SizeUnknown :: int where "SizeUnknown = - 1"

text \<open>
  \<^verbatim>\<open>verify.ReadCloser\<close> fails when the algorithm is unknown; otherwise reading the result to its end
  yields \<open>verify_read\<close>: the bytes, limited to the declared size, or an error at the end of the
  stream when the size or the digest disagrees.
\<close>

definition verify_read :: "(bytes \<Rightarrow> string) \<Rightarrow> bytes \<Rightarrow> int \<Rightarrow> hash \<Rightarrow> blobErr + bytes" where
  "verify_read hasher r sz h =
     (let b = (if sz \<noteq> SizeUnknown then take (nat sz) r else r) in
      if sz \<noteq> SizeUnknown \<and> int (length b) \<noteq> sz then 
        Inl (OtherError (''error verifying size; got '' @ show_int (int (length b)) @ '', want '' @ show_int sz))
      else if hasher b \<noteq> Hex h then Inl VerifyError
      else Inr b)"

definition verify_ReadCloser :: "lib \<Rightarrow> bytes \<Rightarrow> int \<Rightarrow> hash \<Rightarrow> string + (blobErr + bytes)" where
  "verify_ReadCloser L r sz h =
     (case Hasher L (Algorithm h) of
        None \<Rightarrow> Inl ''unsupported hash''
      | Some w \<Rightarrow> Inr (verify_read w r sz h))"

lemma verify_read_content: "verify_read w r sz h = Inr b \<Longrightarrow> w b = Hex h"
  by (auto simp: verify_read_def Let_def split: if_splits)

section \<open>Blob handlers\<close>

text \<open>
  \<^verbatim>\<open>BlobHandler\<close> and its three optional interfaces, over a handler state \<open>'b\<close>.  \<^verbatim>\<open>Put\<close> is given what
  reading the stream to its end yields; \<open>bhReaderAt\<close> says whether the readers \<^verbatim>\<open>Get\<close> returns also
  implement \<^verbatim>\<open>io.ReaderAt\<close>.
\<close>

record 'b blobHandler =
  bhGet :: "'b \<Rightarrow> string \<Rightarrow> hash \<Rightarrow> blobErr + bytes"
  bhReaderAt :: bool
  bhStat :: "('b \<Rightarrow> string \<Rightarrow> hash \<Rightarrow> blobErr + int) option"
  bhPut :: "('b \<Rightarrow> string \<Rightarrow> hash \<Rightarrow> blobErr + bytes \<Rightarrow> blobErr option \<times> 'b) option"
  bhDelete :: "('b \<Rightarrow> string \<Rightarrow> hash \<Rightarrow> blobErr option \<times> 'b) option"

type_synonym memBlobs = "(string, bytes) gomap"

definition mem_Stat :: "lib \<Rightarrow> memBlobs \<Rightarrow> string \<Rightarrow> hash \<Rightarrow> blobErr + int" where
  "mem_Stat L m repo h =
     (case map_of m (HashString L h) of None \<Rightarrow> Inl ErrNotFound | Some b \<Rightarrow> Inr (int (length b)))"

definition mem_Get :: "lib \<Rightarrow> memBlobs \<Rightarrow> string \<Rightarrow> hash \<Rightarrow> blobErr + bytes" where
  "mem_Get L m repo h =
     (case map_of m (HashString L h) of None \<Rightarrow> Inl ErrNotFound | Some b \<Rightarrow> Inr b)"

definition mem_Put :: "lib \<Rightarrow> memBlobs \<Rightarrow> string \<Rightarrow> hash \<Rightarrow> blobErr + bytes \<Rightarrow> blobErr option \<times> memBlobs" where
  "mem_Put L m repo h rc =
     (case rc of Inl e \<Rightarrow> (Some e, m) | Inr b \<Rightarrow> (None, AList.update (HashString L h) b m))"

definition mem_Delete :: "lib \<Rightarrow> memBlobs \<Rightarrow> string \<Rightarrow> hash \<Rightarrow> blobErr option \<times> memBlobs" where
  "mem_Delete L m repo h =
     (case map_of m (HashString L h) of
        None \<Rightarrow> (Some ErrNotFound, m)
      | Some _ \<Rightarrow> (None, AList.delete (HashString L h) m))"

definition memHandler :: "lib \<Rightarrow> memBlobs blobHandler" where
  "memHandler L = \<lparr>bhGet = mem_Get L, bhReaderAt = True, bhStat = Some (mem_Stat L), bhPut = Some (mem_Put L),
     bhDelete = Some (mem_Delete L)\<rparr>"

section \<open>The state of a registry\<close>

text \<open>
  \<open>created\<close> and \<open>deleted\<close> record the calls of the two notification callbacks; \<open>uploads\<close> are the
  unfinished chunked uploads.
\<close>

record 'b registryState =
  store :: memStore
  coll :: "collector option"
  blobState :: 'b
  uploads :: "(string, bytes) gomap"
  created :: "(string \<times> hash) list"
  deleted :: "(string \<times> hash) list"

record 'b registryConfig =
  handler :: "'b blobHandler"
  putCallback :: "(string \<Rightarrow> string \<Rightarrow> string \<Rightarrow> bytes \<Rightarrow> string option) option"
  deleteCallback :: "(string \<Rightarrow> string \<Rightarrow> string \<Rightarrow> bytes \<Rightarrow> string option) option"
  referrersEnabled :: bool
  blobPruning :: bool

text \<open>
  The callback \<^verbatim>\<open>New\<close> registers with the collector: each reported blob is deleted from a handler
  that supports deletion, and a failure is only logged.
\<close>

definition prune_blobs :: "'b registryConfig \<Rightarrow> liveBlob list \<Rightarrow> 'b \<Rightarrow> 'b" where
  "prune_blobs cfg dead b =
     (if blobPruning cfg then
        case bhDelete (handler cfg) of
          None \<Rightarrow> b
        | Some del \<Rightarrow> foldl (\<lambda>b lb. snd (del b (Repo lb) (lbDigest lb))) b dead
      else b)"

definition maybe_collect :: "lib \<Rightarrow> 'b registryConfig \<Rightarrow> (nat \<Rightarrow> gotime) \<Rightarrow> 'b registryState \<Rightarrow> 'b registryState" where
  "maybe_collect L cfg now st =
     (let (c', s', dead) = MaybeCollect L (coll st) (store st) now
      in st\<lparr>coll := c', store := s', blobState := prune_blobs cfg dead (blobState st)\<rparr>)"

section \<open>The blob-handler interface\<close>

text \<open>
  What the blob endpoints rely on: a stored blob is read back, its size is the length of what is
  read, and a deleted blob is not found.  Handlers address by digest alone.
\<close>

locale blob_handler_laws =
  fixes get :: "'b \<Rightarrow> string \<Rightarrow> hash \<Rightarrow> blobErr + bytes"
    and stat :: "'b \<Rightarrow> string \<Rightarrow> hash \<Rightarrow> blobErr + int"
    and put :: "'b \<Rightarrow> string \<Rightarrow> hash \<Rightarrow> blobErr + bytes \<Rightarrow> blobErr option \<times> 'b"
    and del :: "'b \<Rightarrow> string \<Rightarrow> hash \<Rightarrow> blobErr option \<times> 'b"
    and addr :: "hash \<Rightarrow> string"
  assumes get_put: "get (snd (put b r h (Inr x))) r' h' = (if addr h' = addr h then Inr x else get b r' h')"
    and put_ok: "fst (put b r h (Inr x)) = None"
    and put_err: "put b r h (Inl e) = (Some e, b)"
    and get_del: "get (snd (del b r h)) r' h' = (if addr h' = addr h then Inl ErrNotFound else get b r' h')"
    and stat_get: "stat b r h = (case get b r h of Inl e \<Rightarrow> Inl e | Inr x \<Rightarrow> Inr (int (length x)))"
begin

lemma get_fold_del:
  "get (foldl (\<lambda>b x. snd (del b (f x) (g x))) b xs) r h =
     (if addr h \<in> addr ` g ` set xs then Inl ErrNotFound else get b r h)"
  by (induction xs arbitrary: b) (auto simp: get_del)

lemma stat_put: "stat (snd (put b r h (Inr x))) r' h = Inr (int (length x))"
  by (simp add: stat_get get_put)

end

interpretation mem_blobs: blob_handler_laws "mem_Get L" "mem_Stat L" "mem_Put L" "mem_Delete L" "HashString L"
  for L
  by unfold_locales
    (auto simp: mem_Get_def mem_Put_def mem_Delete_def mem_Stat_def alist_simps split: option.splits)

end
