(* ===== verification/Registry_Mark.thy ===== *)
theory Registry_Mark
  imports Registry_Collector
begin

text \<open>
  Correctness of the mark pass of \<^verbatim>\<open>collector.go\<close>.  The specification \<open>gc_live\<close> says which
  manifests the object graph keeps; \<open>build_*\<close> lemmas describe the graph the first half of
  \<^verbatim>\<open>markLocked\<close> assembles, \<open>mark_loop_*\<close> lemmas the worklist loop, and \<open>mark_refines\<close> joins
  them: the marked set is the specified one, in whatever order the maps were walked.
\<close>

section \<open>Specification\<close>

definition manifest_root :: "collector \<Rightarrow> gotime \<Rightarrow> manifestKey \<Rightarrow> bool" where
  "manifest_root c now k \<longleftrightarrow>
     (case map_of (cmanifests c) k of None \<Rightarrow> True | Some t \<Rightarrow> fresh t now (ttl c))"

definition tag_root :: "collector \<Rightarrow> gotime \<Rightarrow> tagKey \<Rightarrow> bool" where
  "tag_root c now k \<longleftrightarrow>
     (case map_of (ctags c) k of None \<Rightarrow> True | Some t \<Rightarrow> fresh t now (tagTTL c))"

inductive gc_live :: "lib \<Rightarrow> collector \<Rightarrow> memStore \<Rightarrow> gotime \<Rightarrow> manifestKey \<Rightarrow> bool"
  for L :: lib and c :: collector and s :: memStore and now :: gotime where
  live_manifest: "GetManifest s r d = Some m \<Longrightarrow> manifest_root c now (r, d) \<Longrightarrow> gc_live L c s now (r, d)"
| live_tag: "ResolveTag s r t = Some d \<Longrightarrow> tag_root c now (r, t) \<Longrightarrow> GetManifest s r d = Some m \<Longrightarrow>
     gc_live L c s now (r, d)"
| live_child: "gc_live L c s now (r, d) \<Longrightarrow> GetManifest s r d = Some m \<Longrightarrow>
     d' \<in> set (refManifests (parseReferences L m)) \<Longrightarrow> GetManifest s r d' = Some m' \<Longrightarrow>
     gc_live L c s now (r, d')"
| live_referrer: "gc_live L c s now (r, d) \<Longrightarrow> GetManifest s r d' = Some m' \<Longrightarrow>
     refSubject (parseReferences L m') = Some d \<Longrightarrow> gc_live L c s now (r, d')"

lemma gc_live_held: "gc_live L c s now k \<Longrightarrow> \<exists>m. GetManifest s (fst k) (snd k) = Some m"
  by (induction rule: gc_live.induct) auto

section \<open>Building the graph\<close>

abbreviation do_manifest where "do_manifest L c now r x st \<equiv> fst (mark_manifest L c now r x st)"
abbreviation do_tag where "do_tag c now r x st \<equiv> fst (mark_tag c now r x st)"

lemma mark_continue [simp]:
  "snd (mark_manifest L c now r x st)" "snd (mark_tag c now r y st)" "snd (mark_repo L c s now r st)"
  by (auto simp: mark_manifest_def mark_tag_def mark_repo_def Let_def split: prod.splits option.splits)

lemma mark_repo_fold:
  "fst (mark_repo L c s now r st) =
     fold (do_tag c now r) (tagsOf s r) (fold (do_manifest L c now r) (manifestsOf s r) st)"
  by (simp add: mark_repo_def RangeTags_def RangeManifests_def range_go_fold)

lemma mark_build_fold:
  "mark_build L c s now =
     (fold (\<lambda>r st. fst (mark_repo L c s now r st)) (repoNames s) mark_init)
       \<lparr>liveBlobs := filter (\<lambda>(d, node). fresh (nodeLastUsed node) now (ttl c)) (cblobs c)\<rparr>"
  by (simp add: mark_build_def RangeRepos_def range_go_fold Let_def)

lemma do_manifest_proj:
  "map_of (graph (do_manifest L c now r (d, m) st)) =
     (map_of (graph st))((r, d) \<mapsto> parseReferences L m)"
  "set (inner (referrers (do_manifest L c now r (d, m) st)) k) =
     set (inner (referrers st) k) \<union>
       (if fst k = r \<and> refSubject (parseReferences L m) = Some (snd k) then {d} else {})"
  "set (worklist (do_manifest L c now r (d, m) st)) =
     set (worklist st) \<union> (if manifest_root c now (r, d) then {(r, d)} else {})"
  "set (untrackedManifests (do_manifest L c now r (d, m) st)) =
     set (untrackedManifests st) \<union> (if map_of (cmanifests c) (r, d) = None then {(r, d)} else {})"
  "staleTags (do_manifest L c now r (d, m) st) = staleTags st"
  "untrackedTags (do_manifest L c now r (d, m) st) = untrackedTags st"
  by (cases k; auto simp: mark_manifest_def Let_def alist_simps manifest_root_def inner_def
      split: option.splits if_splits)+

lemma do_tag_proj:
  "graph (do_tag c now r (t, d) st) = graph st"
  "referrers (do_tag c now r (t, d) st) = referrers st"
  "set (worklist (do_tag c now r (t, d) st)) =
     set (worklist st) \<union> (if tag_root c now (r, t) then {(r, d)} else {})"
  "untrackedManifests (do_tag c now r (t, d) st) = untrackedManifests st"
  "set (staleTags (do_tag c now r (t, d) st)) =
     set (staleTags st) \<union> (if tag_root c now (r, t) then {} else {(r, t)})"
  "set (untrackedTags (do_tag c now r (t, d) st)) =
     set (untrackedTags st) \<union> (if map_of (ctags c) (r, t) = None then {(r, t)} else {})"
  by (auto simp: mark_tag_def tag_root_def split: option.splits if_splits)

lemma manifests_proj:
  assumes "distinct_keys ms"
  shows "map_of (graph (fold (do_manifest L c now r) ms st)) (r', d') =
       (if r' = r \<and> map_of ms d' \<noteq> None then map_option (parseReferences L) (map_of ms d')
        else map_of (graph st) (r', d'))"
  using assms
proof (induction ms arbitrary: st)
  case (Cons x ms)
  obtain d m where x: "x = (d, m)" by (cases x)
  with Cons.prems have "map_of ms d = None" and "distinct_keys ms"
    by (auto simp: map_of_eq_None_iff)
  with Cons.IH show ?case
    by (auto simp: x do_manifest_proj(1))
qed simp

lemma manifests_sets:
  "set (inner (referrers (fold (do_manifest L c now r) ms st)) k) =
     set (inner (referrers st) k) \<union>
       {d. fst k = r \<and> (\<exists>m. (d, m) \<in> set ms \<and> refSubject (parseReferences L m) = Some (snd k))}"
  "set (worklist (fold (do_manifest L c now r) ms st)) =
     set (worklist st) \<union> {(r, d) | d. d \<in> fst ` set ms \<and> manifest_root c now (r, d)}"
  "set (untrackedManifests (fold (do_manifest L c now r) ms st)) =
     set (untrackedManifests st) \<union> {(r, d) | d. d \<in> fst ` set ms \<and> map_of (cmanifests c) (r, d) = None}"
  "staleTags (fold (do_manifest L c now r) ms st) = staleTags st"
  "untrackedTags (fold (do_manifest L c now r) ms st) = untrackedTags st"
proof (induction ms arbitrary: st)
  case (Cons x ms)
  obtain d m where x: "x = (d, m)" by (cases x)
  {
    case 1 show ?case unfolding fold.simps o_apply x Cons.IH(1) do_manifest_proj(2) by auto
  next
    case 2 show ?case unfolding fold.simps o_apply x Cons.IH(2) do_manifest_proj(3) by auto
  next
    case 3 show ?case unfolding fold.simps o_apply x Cons.IH(3) do_manifest_proj(4) by auto
  next
    case 4 show ?case unfolding fold.simps o_apply x Cons.IH(4) do_manifest_proj(5) by simp
  next
    case 5 show ?case unfolding fold.simps o_apply x Cons.IH(5) do_manifest_proj(6) by simp
  }
qed auto

lemma tags_sets:
  "graph (fold (do_tag c now r) ts st) = graph st"
  "referrers (fold (do_tag c now r) ts st) = referrers st"
  "set (worklist (fold (do_tag c now r) ts st)) =
     set (worklist st) \<union> {(r, d) | d t. (t, d) \<in> set ts \<and> tag_root c now (r, t)}"
  "untrackedManifests (fold (do_tag c now r) ts st) = untrackedManifests st"
  "set (staleTags (fold (do_tag c now r) ts st)) =
     set (staleTags st) \<union> {(r, t) | t. t \<in> fst ` set ts \<and> \<not> tag_root c now (r, t)}"
  "set (untrackedTags (fold (do_tag c now r) ts st)) =
     set (untrackedTags st) \<union> {(r, t) | t. t \<in> fst ` set ts \<and> map_of (ctags c) (r, t) = None}"
proof (induction ts arbitrary: st)
  case (Cons x ts)
  obtain t d where x: "x = (t, d)" by (cases x)
  {
    case 1 show ?case unfolding fold.simps o_apply x Cons.IH(1) do_tag_proj(1) by simp
  next
    case 2 show ?case unfolding fold.simps o_apply x Cons.IH(2) do_tag_proj(2) by simp
  next
    case 3 show ?case unfolding fold.simps o_apply x Cons.IH(3) do_tag_proj(3) by auto
  next
    case 4 show ?case unfolding fold.simps o_apply x Cons.IH(4) do_tag_proj(4) by simp
  next
    case 5 show ?case unfolding fold.simps o_apply x Cons.IH(5) do_tag_proj(5) by auto
  next
    case 6 show ?case unfolding fold.simps o_apply x Cons.IH(6) do_tag_proj(6) by auto
  }
qed auto

lemmas repo_sets = mark_repo_fold manifests_sets tags_sets

lemma repos_sets:
  "set (inner (referrers (fold (\<lambda>r st. fst (mark_repo L c s now r st)) rs st)) k) =
     set (inner (referrers st) k) \<union>
       {d. fst k \<in> set rs \<and> (\<exists>m. (d, m) \<in> set (manifestsOf s (fst k)) \<and>
          refSubject (parseReferences L m) = Some (snd k))}"
  "set (worklist (fold (\<lambda>r st. fst (mark_repo L c s now r st)) rs st)) =
     set (worklist st) \<union>
       {(r, d) | r d. r \<in> set rs \<and> d \<in> fst ` set (manifestsOf s r) \<and> manifest_root c now (r, d)} \<union>
       {(r, d) | r d. r \<in> set rs \<and> (\<exists>t. (t, d) \<in> set (tagsOf s r) \<and> tag_root c now (r, t))}"
  "set (untrackedManifests (fold (\<lambda>r st. fst (mark_repo L c s now r st)) rs st)) =
     set (untrackedManifests st) \<union>
       {(r, d) | r d. r \<in> set rs \<and> d \<in> fst ` set (manifestsOf s r) \<and> map_of (cmanifests c) (r, d) = None}"
  "set (staleTags (fold (\<lambda>r st. fst (mark_repo L c s now r st)) rs st)) =
     set (staleTags st) \<union>
       {(r, t) | r t. r \<in> set rs \<and> t \<in> fst ` set (tagsOf s r) \<and> \<not> tag_root c now (r, t)}"
  "set (untrackedTags (fold (\<lambda>r st. fst (mark_repo L c s now r st)) rs st)) =
     set (untrackedTags st) \<union>
       {(r, t) | r t. r \<in> set rs \<and> t \<in> fst ` set (tagsOf s r) \<and> map_of (ctags c) (r, t) = None}"
proof (induction rs arbitrary: st)
  case (Cons r rs)
  {
    case 1 show ?case unfolding fold.simps o_apply Cons.IH(1) unfolding repo_sets by auto
  next
    case 2 show ?case unfolding fold.simps o_apply Cons.IH(2) unfolding repo_sets by auto
  next
    case 3 show ?case unfolding fold.simps o_apply Cons.IH(3) unfolding repo_sets by auto
  next
    case 4 show ?case unfolding fold.simps o_apply Cons.IH(4) unfolding repo_sets by auto
  next
    case 5 show ?case unfolding fold.simps o_apply Cons.IH(5) unfolding repo_sets by auto
  }
qed auto

lemma repos_graph:
  assumes "wf_store s"
  shows "map_of (graph (fold (\<lambda>r st. fst (mark_repo L c s now r st)) rs st)) (r', d') =
     (if r' \<in> set rs \<and> GetManifest s r' d' \<noteq> None
      then map_option (parseReferences L) (GetManifest s r' d') else map_of (graph st) (r', d'))"
proof (induction rs arbitrary: st)
  case (Cons r rs)
  have "distinct_keys (manifestsOf s r)"
    using assms by (simp add: wf_store_def wf_nestedD(3))
  then have "map_of (graph (fst (mark_repo L c s now r st))) (r', d') =
     (if r' = r \<and> GetManifest s r' d' \<noteq> None
      then map_option (parseReferences L) (GetManifest s r' d') else map_of (graph st) (r', d'))"
    by (cases "r' = r")
      (simp_all add: mark_repo_fold tags_sets(1) manifests_proj GetManifest_def
        del: map_of_eq_Some_iff not_None_eq)
  then show ?case
    unfolding fold.simps o_apply Cons.IH by (cases "r' = r"; cases "GetManifest s r' d'") auto
qed simp

lemma in_manifestsOf: "wf_store s \<Longrightarrow> d \<in> fst ` set (manifestsOf s r) \<longleftrightarrow> GetManifest s r d \<noteq> None"
  by (simp add: GetManifest_def in_keys_iff)

lemma in_tagsOf: "wf_store s \<Longrightarrow> t \<in> fst ` set (tagsOf s r) \<longleftrightarrow> ResolveTag s r t \<noteq> None"
  by (simp add: ResolveTag_def in_keys_iff)

lemma in_repoNames:
  assumes "wf_store s"
  shows "GetManifest s r d = Some m \<Longrightarrow> r \<in> set (repoNames s)"
    and "ResolveTag s r t = Some d \<Longrightarrow> r \<in> set (repoNames s)"
  using assms by (simp_all add: mem.names_iff mem.hasRepoI)

lemma build_graph:
  assumes "wf_store s"
  shows "map_of (graph (mark_build L c s now)) (r, d) =
     map_option (parseReferences L) (GetManifest s r d)"
proof (cases "GetManifest s r d")
  case None
  then show ?thesis using assms by (simp add: mark_build_fold repos_graph mark_init_def)
next
  case (Some m)
  then have "r \<in> set (repoNames s)"
    by (rule in_repoNames [OF assms])
  with Some assms show ?thesis by (simp add: mark_build_fold repos_graph)
qed

lemma build_referrers:
  assumes "wf_store s"
  shows "d \<in> set (inner (referrers (mark_build L c s now)) (r, subj)) \<longleftrightarrow>
     (\<exists>m. GetManifest s r d = Some m \<and> refSubject (parseReferences L m) = Some subj)"
  by (auto intro: in_repoNames [OF assms] simp: mark_build_fold repos_sets mark_init_def mem.manifestsIn_iff [OF assms] inner_def [of "[]"])

lemma build_worklist:
  assumes "wf_store s"
  shows "(r, d) \<in> set (worklist (mark_build L c s now)) \<longleftrightarrow>
     (\<exists>m. GetManifest s r d = Some m \<and> manifest_root c now (r, d)) \<or>
     (\<exists>t. ResolveTag s r t = Some d \<and> tag_root c now (r, t))"
  by (auto intro: in_repoNames [OF assms] simp: mark_build_fold repos_sets mark_init_def in_manifestsOf [OF assms] mem.tagsIn_iff [OF assms])

lemma build_untracked:
  assumes "wf_store s"
  shows "(r, d) \<in> set (untrackedManifests (mark_build L c s now)) \<longleftrightarrow>
      GetManifest s r d \<noteq> None \<and> map_of (cmanifests c) (r, d) = None"
    and "(r, t) \<in> set (untrackedTags (mark_build L c s now)) \<longleftrightarrow>
      ResolveTag s r t \<noteq> None \<and> map_of (ctags c) (r, t) = None"
    and "(r, t) \<in> set (staleTags (mark_build L c s now)) \<longleftrightarrow>
      ResolveTag s r t \<noteq> None \<and> \<not> tag_root c now (r, t)"
  by (auto intro: in_repoNames [OF assms] simp: mark_build_fold repos_sets mark_init_def in_manifestsOf [OF assms] in_tagsOf [OF assms])

section \<open>The worklist loop\<close>

text \<open>One edge of the graph: a listed child, or a referrer of the manifest.\<close>

definition edge :: "(manifestKey, references) gomap \<Rightarrow> (manifestKey, hash list) gomap \<Rightarrow> manifestKey \<Rightarrow> manifestKey \<Rightarrow> bool" where
  "edge g rr k j \<longleftrightarrow>
     (\<exists>refs. map_of g k = Some refs \<and>
        (\<exists>d. j = (fst k, d) \<and> (d \<in> set (refManifests refs) \<or> d \<in> set (inner rr k))))"

lemma set_push_all [simp]: "set (push_all r ds wl) = (\<lambda>d. (r, d)) ` set ds \<union> set wl"
  unfolding push_all_def by (induction ds arbitrary: wl) auto

text \<open>The marked set grows, contains the known part of the worklist and is closed under edges.\<close>

lemma mark_loop_grows: "k \<in> set live \<Longrightarrow> k \<in> set (fst (mark_loop c g rr wl live bs))"
  by (induction c g rr wl live bs rule: mark_loop.induct) (auto split: option.splits)

lemma mark_loop_roots:
  "k \<in> set wl \<Longrightarrow> map_of g k \<noteq> None \<Longrightarrow> k \<in> set (fst (mark_loop c g rr wl live bs))"
proof (induction c g rr wl live bs rule: mark_loop.induct)
  case (2 c g rr key wl live bs)
  show ?case
  proof (cases "k = key")
    case True
    with "2.prems" show ?thesis by (auto simp: mark_loop_grows)
  next
    case False
    with 2 show ?thesis by (auto split: option.splits)
  qed
qed simp

lemma mark_loop_closed:
  assumes "\<And>k j. k \<in> set live \<Longrightarrow> edge g rr k j \<Longrightarrow> map_of g j \<noteq> None \<Longrightarrow> j \<in> set live \<union> set wl"
    and "k \<in> set (fst (mark_loop c g rr wl live bs))" and "edge g rr k j" and "map_of g j \<noteq> None"
  shows "j \<in> set (fst (mark_loop c g rr wl live bs))"
  using assms
proof (induction c g rr wl live bs rule: mark_loop.induct)
  case (1 c g rr live bs)
  then show ?case by auto
next
  case (2 c g rr key wl live bs)
  show ?case
  proof (cases "key \<in> set live \<or> map_of g key = None")
    case True
    have "\<And>k j. k \<in> set live \<Longrightarrow> edge g rr k j \<Longrightarrow> map_of g j \<noteq> None \<Longrightarrow> j \<in> set live \<union> set wl"
      using "2.prems"(1) True by fastforce
    with "2.IH"(1,2) "2.prems"(2-) True show ?thesis by (auto split: if_splits)
  next
    case False
    then obtain refs where refs: "map_of g key = Some refs" by auto
    have "\<And>k j. k \<in> set (key # live) \<Longrightarrow> edge g rr k j \<Longrightarrow> map_of g j \<noteq> None \<Longrightarrow>
       j \<in> set (key # live) \<union> set (push_all (fst key) (inner rr key) (push_all (fst key) (refManifests refs) wl))"
      using "2.prems"(1) refs by (fastforce simp: edge_def)
    with "2.IH"(3) [OF _ refs] "2.prems"(2-) False refs show ?thesis by simp
  qed
qed

lemma mark_loop_sound:
  assumes "\<And>k. k \<in> set live \<Longrightarrow> P k" and "\<And>k. k \<in> set wl \<Longrightarrow> map_of g k \<noteq> None \<Longrightarrow> P k"
    and "\<And>k j. P k \<Longrightarrow> edge g rr k j \<Longrightarrow> map_of g j \<noteq> None \<Longrightarrow> P j"
    and "k \<in> set (fst (mark_loop c g rr wl live bs))"
  shows "P k"
  using assms
proof (induction c g rr wl live bs rule: mark_loop.induct)
  case (2 c g rr key wl live bs)
  show ?case
  proof (cases "key \<in> set live \<or> map_of g key = None")
    case True
    then show ?thesis using 2 by (auto split: if_splits)
  next
    case False
    then obtain refs where refs: "map_of g key = Some refs" by auto
    have key: "P key" using "2.prems"(2) refs by simp
    have "P j" if "j \<in> set (push_all (fst key) (inner rr key) (push_all (fst key) (refManifests refs) wl))"
      "map_of g j \<noteq> None" for j
    proof (cases "j \<in> set wl")
      case True
      then show ?thesis using "2.prems"(2) [of j] that(2) by simp
    next
      case False
      then have "edge g rr key j" using that(1) refs by (auto simp: edge_def)
      then show ?thesis using that(2) by (rule "2.prems"(3) [OF key])
    qed
    with "2.IH"(3) [OF _ refs] "2.prems"(1,3,4) False refs key show ?thesis by simp blast
  qed
qed simp

section \<open>The mark pass refines the specification\<close>

lemma markLocked_manifests:
  "liveManifests (markLocked L c s now) =
     fst (mark_loop c (graph (mark_build L c s now)) (referrers (mark_build L c s now))
       (worklist (mark_build L c s now)) [] (liveBlobs (mark_build L c s now)))"
  by (simp add: markLocked_def Let_def split_beta)

lemma build_edge:
  assumes "wf_store s"
  shows "edge (graph (mark_build L c s now)) (referrers (mark_build L c s now)) (r, d) j \<longleftrightarrow>
    (\<exists>m d'. GetManifest s r d = Some m \<and> j = (r, d') \<and>
       (d' \<in> set (refManifests (parseReferences L m)) \<or>
        (\<exists>m'. GetManifest s r d' = Some m' \<and> refSubject (parseReferences L m') = Some d)))"
  by (auto simp: edge_def build_graph [OF assms] build_referrers [OF assms])

lemma mark_sound:
  assumes wf: "wf_store s" and "k \<in> set (liveManifests (markLocked L c s now))"
  shows "gc_live L c s now k"
proof (rule mark_loop_sound)
  show "k \<in> set (fst (mark_loop c (graph (mark_build L c s now)) (referrers (mark_build L c s now))
       (worklist (mark_build L c s now)) [] (liveBlobs (mark_build L c s now))))"
    using assms(2) by (simp add: markLocked_manifests)
next
  fix k assume k: "k \<in> set (worklist (mark_build L c s now))" "map_of (graph (mark_build L c s now)) k \<noteq> None"
  obtain r d where "k = (r, d)" by (cases k)
  with k show "gc_live L c s now k"
    by (auto simp: build_worklist [OF wf] build_graph [OF wf] intro: live_manifest live_tag)
next
  fix k j assume k: "gc_live L c s now k"
    "edge (graph (mark_build L c s now)) (referrers (mark_build L c s now)) k j"
    "map_of (graph (mark_build L c s now)) j \<noteq> None"
  obtain r d where "k = (r, d)" by (cases k)
  with k show "gc_live L c s now j"
    by (auto simp: build_edge [OF wf] build_graph [OF wf] intro: live_child live_referrer)
qed simp

lemma mark_complete:
  assumes wf: "wf_store s" and "gc_live L c s now k"
  shows "k \<in> set (liveManifests (markLocked L c s now))"
  using assms(2) unfolding markLocked_manifests
proof (induction rule: gc_live.induct)
  case (live_manifest r d m)
  then show ?case by (intro mark_loop_roots) (auto simp: build_worklist [OF wf] build_graph [OF wf])
next
  case (live_tag r t d m)
  then show ?case by (intro mark_loop_roots) (auto simp: build_worklist [OF wf] build_graph [OF wf])
next
  case (live_child r d m d' m')
  have e: "edge (graph (mark_build L c s now)) (referrers (mark_build L c s now)) (r, d) (r, d')"
    using live_child by (auto simp: build_edge [OF wf])
  show ?case
    by (rule mark_loop_closed [OF _ live_child.IH e]) (simp_all add: build_graph [OF wf] live_child)
next
  case (live_referrer r d d' m')
  then have "\<exists>m. GetManifest s r d = Some m" using gc_live_held [of L c s now "(r, d)"] by simp
  with live_referrer have e: "edge (graph (mark_build L c s now)) (referrers (mark_build L c s now)) (r, d) (r, d')"
    by (auto simp: build_edge [OF wf])
  show ?case
    by (rule mark_loop_closed [OF _ live_referrer.IH e]) (simp_all add: build_graph [OF wf] live_referrer)
qed

end
