(* ===== verification/Registry_Sweep.thy ===== *)
theory Registry_Sweep
  imports Registry_Mark
begin

text \<open>
  The sweep of \<^verbatim>\<open>collector.go\<close> and \<^verbatim>\<open>Collect\<close> as a whole: which manifests, tags and blobs survive,
  what the bookkeeping says afterwards, and the guarantees the package's documentation gives.
  The loops are characterised pointwise first (\<open>sweep_*_spec\<close>); the properties only use those.
\<close>

section \<open>Live blobs\<close>

lemma dom_mark_blobs: "dom (map_of (mark_blobs c r ds bs)) = dom (map_of bs) \<union> digest ` set ds"
  unfolding mark_blobs_def by (induction ds arbitrary: bs) (auto simp: alist_simps)

lemma named_by_insert:
  "key \<in> S \<Longrightarrow> key \<notin> V \<Longrightarrow> map_of g key = Some refs \<Longrightarrow>
     {d. \<exists>k refs. k \<in> S \<and> k \<notin> V \<and> map_of g k = Some refs \<and> d \<in> f refs} =
     f refs \<union> {d. \<exists>k refs. k \<in> S \<and> k \<notin> insert key V \<and> map_of g k = Some refs \<and> d \<in> f refs}"
  by auto

lemma mark_loop_blobs:
  "dom (map_of (snd (mark_loop c g rr wl live bs))) = dom (map_of bs) \<union>
     {d. \<exists>k refs. k \<in> set (fst (mark_loop c g rr wl live bs)) \<and> k \<notin> set live \<and>
        map_of g k = Some refs \<and> d \<in> digest ` set (refBlobs refs)}"
proof (induction c g rr wl live bs rule: mark_loop.induct)
  case (2 c g rr key wl live bs)
  show ?case
  proof (cases "key \<in> set live \<or> map_of g key = None")
    case True
    then show ?thesis using "2.IH"(1,2) by (cases "key \<in> set live") simp_all
  next
    case False
    then obtain refs where refs: "map_of g key = Some refs" by auto
    let ?r = "mark_loop c g rr (push_all (fst key) (inner rr key) (push_all (fst key) (refManifests refs) wl))
      (key # live) (mark_blobs c (fst key) (refBlobs refs) bs)"
    have "key \<in> set (fst ?r)" by (simp add: mark_loop_grows)
    moreover have "key \<notin> set live" using False by simp
    ultimately have named: "{d. \<exists>k refs. k \<in> set (fst ?r) \<and> k \<notin> set live \<and> map_of g k = Some refs \<and>
        d \<in> digest ` set (refBlobs refs)} = digest ` set (refBlobs refs) \<union>
      {d. \<exists>k refs. k \<in> set (fst ?r) \<and> k \<notin> insert key (set live) \<and> map_of g k = Some refs \<and>
         d \<in> digest ` set (refBlobs refs)}"
      by (rule named_by_insert) (rule refs)
    have step: "mark_loop c g rr (key # wl) live bs = ?r" using False refs by simp
    show ?thesis
      using "2.IH"(3) [OF _ refs] False unfolding step named by (simp add: dom_mark_blobs Un_assoc)
  qed
qed auto

text \<open>A blob is live when it was used within the TTL or a live manifest names it.\<close>

definition blob_live :: "lib \<Rightarrow> collector \<Rightarrow> memStore \<Rightarrow> gotime \<Rightarrow> hash \<Rightarrow> bool" where
  "blob_live L c s now d \<longleftrightarrow>
     (\<exists>node. (d, node) \<in> set (cblobs c) \<and> fresh (nodeLastUsed node) now (ttl c)) \<or>
     (\<exists>r dm m. gc_live L c s now (r, dm) \<and> GetManifest s r dm = Some m \<and>
        d \<in> digest ` set (refBlobs (parseReferences L m)))"

lemma mark_refines: "wf_store s \<Longrightarrow> k \<in> set (liveManifests (markLocked L c s now)) \<longleftrightarrow> gc_live L c s now k"
  using mark_sound mark_complete by blast

lemma mark_blobs_refines:
  assumes "wf_store s"
  shows "map_of (liveBlobs (markLocked L c s now)) d \<noteq> None \<longleftrightarrow> blob_live L c s now d"
proof -
  let ?st = "mark_build L c s now"
  let ?r = "mark_loop c (graph ?st) (referrers ?st) (worklist ?st) [] (liveBlobs ?st)"
  have "map_of (liveBlobs (markLocked L c s now)) d \<noteq> None \<longleftrightarrow> d \<in> dom (map_of (snd ?r))"
    by (auto simp: markLocked_def Let_def split_beta)
  also have "\<dots> \<longleftrightarrow> d \<in> dom (map_of (liveBlobs ?st)) \<or>
    (\<exists>k refs. gc_live L c s now k \<and> map_of (graph ?st) k = Some refs \<and> d \<in> digest ` set (refBlobs refs))"
    unfolding mark_loop_blobs
    using mark_refines [OF assms, where L = L and c = c and now = now] by (simp add: markLocked_manifests)
  also have "d \<in> dom (map_of (liveBlobs ?st)) \<longleftrightarrow>
    (\<exists>node. (d, node) \<in> set (cblobs c) \<and> fresh (nodeLastUsed node) now (ttl c))"
    unfolding dom_map_of_conv_image_fst by (force simp: mark_build_fold)
  also have "(\<exists>k refs. gc_live L c s now k \<and> map_of (graph ?st) k = Some refs \<and> d \<in> digest ` set (refBlobs refs))
    \<longleftrightarrow> (\<exists>r dm m. gc_live L c s now (r, dm) \<and> GetManifest s r dm = Some m \<and>
        d \<in> digest ` set (refBlobs (parseReferences L m)))"
    by (auto simp: build_graph [OF assms])
  finally show ?thesis by (simp only: blob_live_def)
qed

section \<open>The sweeping loops\<close>

lemma sweep_manifests_spec:
  assumes "sweep_manifests live keys (c, s, n) = (c', s', n')"
  shows "GetManifest s' r d =
      (if (r, d) \<in> set keys \<and> (r, d) \<notin> set (liveManifests live) then None else GetManifest s r d)"
    and "ResolveTag s' = ResolveTag s"
    and "wf_store s \<Longrightarrow> wf_store s'"
    and "map_of (cmanifests c') k =
      (if k \<in> set keys \<and> k \<notin> set (liveManifests live) then None else map_of (cmanifests c) k)"
    and "ctags c' = ctags c" and "cblobs c' = cblobs c"
    and "ttl c' = ttl c" and "tagTTL c' = tagTTL c" and "interval c' = interval c"
  using assms
proof (induction keys arbitrary: c s n)
  case (Cons key keys)
  {
    case 1 then show ?case using Cons.IH(1) by (cases key) (auto split: if_splits option.splits)
  next
    case 2 then show ?case using Cons.IH(2) by (auto split: if_splits option.splits)
  next
    case 3 then show ?case using Cons.IH(3) Cons.IH(3) [OF mem.invar_delM] by (auto split: if_splits option.splits)
  next
    case 4 then show ?case using Cons.IH(4) by (auto simp: alist_simps split: if_splits option.splits)
  next
    case 5 then show ?case using Cons.IH(5) by (auto split: if_splits option.splits)
  next
    case 6 then show ?case using Cons.IH(6) by (auto split: if_splits option.splits)
  next
    case 7 then show ?case using Cons.IH(7) by (auto split: if_splits option.splits)
  next
    case 8 then show ?case using Cons.IH(8) by (auto split: if_splits option.splits)
  next
    case 9 then show ?case using Cons.IH(9) by (auto split: if_splits option.splits)
  }
qed auto

text \<open>A tag the sweep drops: expired, or pointing at a manifest that is gone.\<close>

definition tag_dead :: "liveSet \<Rightarrow> memStore \<Rightarrow> tagKey \<Rightarrow> hash \<Rightarrow> bool" where
  "tag_dead live s key d \<longleftrightarrow> key \<in> set (staleTags live) \<or> GetManifest s (fst key) d = None"

lemma sweep_tags_spec:
  assumes "sweep_tags live keys (c, s, n) = (c', s', n')"
  shows "ResolveTag s' r t = (case ResolveTag s r t of None \<Rightarrow> None
      | Some d \<Rightarrow> if (r, t) \<in> set keys \<and> tag_dead live s (r, t) d then None else Some d)"
    and "GetManifest s' = GetManifest s"
    and "wf_store s \<Longrightarrow> wf_store s'"
    and "cmanifests c' = cmanifests c" and "cblobs c' = cblobs c"
    and "ttl c' = ttl c" and "tagTTL c' = tagTTL c" and "interval c' = interval c"
  using assms
proof (induction keys arbitrary: c s n)
  case (Cons key keys)
  {
    case 1 then show ?case using Cons.IH(1)
      by (cases key) (auto simp: tag_dead_def split: if_splits option.splits)
  next
    case 2 then show ?case using Cons.IH(2) by (auto split: if_splits option.splits)
  next
    case 3 then show ?case using Cons.IH(3) Cons.IH(3) [OF mem.invar_delT] by (auto split: if_splits option.splits)
  next
    case 4 then show ?case using Cons.IH(4) by (auto split: if_splits option.splits)
  next
    case 5 then show ?case using Cons.IH(5) by (auto split: if_splits option.splits)
  next
    case 6 then show ?case using Cons.IH(6) by (auto split: if_splits option.splits)
  next
    case 7 then show ?case using Cons.IH(7) by (auto split: if_splits option.splits)
  next
    case 8 then show ?case using Cons.IH(8) by (auto split: if_splits option.splits)
  }
qed (auto split: option.splits)

lemma sweep_blobs_spec:
  assumes "sweep_blobs live bs (c, out, n) = (c', out', n')"
  shows "out' = out @ map to_liveBlob (filter (\<lambda>(d, _). map_of (liveBlobs live) d = None) bs)"
    and "n' = n + length (filter (\<lambda>(d, _). map_of (liveBlobs live) d = None) bs)"
    and "map_of (cblobs c') d =
      (if d \<in> fst ` set bs \<and> map_of (liveBlobs live) d = None then None else map_of (cblobs c) d)"
    and "cmanifests c' = cmanifests c" and "ctags c' = ctags c"
    and "ttl c' = ttl c" and "tagTTL c' = tagTTL c" and "interval c' = interval c"
  using assms
proof (induction bs arbitrary: c out n)
  case (Cons b bs)
  obtain e node where b: "b = (e, node)" by (cases b)
  {
    case 1 then show ?case by (auto simp: b split: if_splits dest!: Cons.IH(1))
  next
    case 2 then show ?case by (auto simp: b split: if_splits dest!: Cons.IH(2))
  next
    case 3 then show ?case using Cons.IH(3) by (auto simp: b alist_simps split: if_splits)
  next
    case 4 then show ?case using Cons.IH(4) by (auto simp: b split: if_splits)
  next
    case 5 then show ?case using Cons.IH(5) by (auto simp: b split: if_splits)
  next
    case 6 then show ?case using Cons.IH(6) by (auto simp: b split: if_splits)
  next
    case 7 then show ?case using Cons.IH(7) by (auto simp: b split: if_splits)
  next
    case 8 then show ?case using Cons.IH(8) by (auto simp: b split: if_splits)
  }
qed auto

lemma map_of_foldl_update:
  "map_of (foldl (\<lambda>m k. AList.update k v m) m ks) k = (if k \<in> set ks then Some v else map_of m k)"
  by (induction ks arbitrary: m) (auto simp: alist_simps)

lemma adopt_spec:
  "map_of (cmanifests (adopt c now live)) k =
     (if k \<in> set (untrackedManifests live) then Some now else map_of (cmanifests c) k)"
  "map_of (ctags (adopt c now live)) tk =
     (if tk \<in> set (untrackedTags live) then Some now else map_of (ctags c) tk)"
  "cblobs (adopt c now live) = cblobs c"
  "ttl (adopt c now live) = ttl c" "tagTTL (adopt c now live) = tagTTL c" "interval (adopt c now live) = interval c"
  by (simp_all add: adopt_def Let_def map_of_foldl_update)

section \<open>Collect\<close>

lemma markLocked_tags:
  assumes "wf_store s"
  shows "(r, d) \<in> set (untrackedManifests (markLocked L c s now)) \<longleftrightarrow>
      GetManifest s r d \<noteq> None \<and> map_of (cmanifests c) (r, d) = None"
    and "(r, t) \<in> set (untrackedTags (markLocked L c s now)) \<longleftrightarrow>
      ResolveTag s r t \<noteq> None \<and> map_of (ctags c) (r, t) = None"
    and "(r, t) \<in> set (staleTags (markLocked L c s now)) \<longleftrightarrow>
      ResolveTag s r t \<noteq> None \<and> \<not> tag_root c now (r, t)"
  using build_untracked [OF assms] by (simp_all add: markLocked_def Let_def split_beta)

text \<open>The states between the three loops of a sweep.\<close>

lemma Collect_gc_steps:
  assumes "Collect_gc L c s now = (c', s', stats, collected)"
  obtains live c1 c2 s2 nm c3 nt c4 nb where
    "live = markLocked L c s (now 0)" and "c1 = adopt c (now 1) live"
    and "sweep_manifests live (map fst (cmanifests c1)) (c1, s, 0) = (c2, s2, nm)"
    and "sweep_tags live (map fst (ctags c2)) (c2, s2, 0) = (c3, s', nt)"
    and "sweep_blobs live (cblobs c3) (c3, [], 0) = (c4, collected, nb)"
    and "c' = c4\<lparr>lastSweep := now 2\<rparr>"
    and "stats = \<lparr>statManifests = nm, statTags = nt, statBlobs = nb\<rparr>"
  using assms by (auto simp: Collect_gc_def sweepLocked_def Let_def split: prod.splits)

lemma gc_live_tracked:
  assumes "GetManifest s r d = Some m" and "\<not> gc_live L c s now (r, d)"
  shows "map_of (cmanifests c) (r, d) \<noteq> None"
  using assms live_manifest [OF assms(1), of c now L]
  by (cases "map_of (cmanifests c) (r, d)") (auto simp: manifest_root_def)

lemma Collect_gc_manifests:
  assumes wf: "wf_store s" and "Collect_gc L c s now = (c', s', stats, collected)"
  shows "GetManifest s' r d = (if gc_live L c s (now 0) (r, d) then GetManifest s r d else None)"
    and "map_of (cmanifests c') (r, d) =
      (if gc_live L c s (now 0) (r, d)
       then Some (case map_of (cmanifests c) (r, d) of None \<Rightarrow> now 1 | Some t \<Rightarrow> t) else None)"
    and "wf_store s'"
proof -
  obtain live c1 c2 s2 nm c3 nt c4 nb where
    live: "live = markLocked L c s (now 0)" and c1: "c1 = adopt c (now 1) live"
    and sm: "sweep_manifests live (map fst (cmanifests c1)) (c1, s, 0) = (c2, s2, nm)"
    and st: "sweep_tags live (map fst (ctags c2)) (c2, s2, 0) = (c3, s', nt)"
    and sb: "sweep_blobs live (cblobs c3) (c3, [], 0) = (c4, collected, nb)"
    and c': "c' = c4\<lparr>lastSweep := now 2\<rparr>"
    by (rule Collect_gc_steps [OF assms(2)])
  have marked: "k \<in> set (liveManifests live) \<longleftrightarrow> gc_live L c s (now 0) k" for k
    by (simp add: live mark_refines [OF wf])
  have key: "map_of (cmanifests c1) (r, d) = (if GetManifest s r d \<noteq> None \<and> map_of (cmanifests c) (r, d) = None
      then Some (now 1) else map_of (cmanifests c) (r, d))"
    by (simp add: c1 adopt_spec live markLocked_tags [OF wf])
  have in_keys: "(r, d) \<in> set (map fst (cmanifests c1)) \<longleftrightarrow> map_of (cmanifests c1) (r, d) \<noteq> None"
    by (simp add: in_keys_iff del: not_None_eq)
  have same: "cmanifests c' = cmanifests c2"
    by (simp add: c' sweep_blobs_spec(4) [OF sb] sweep_tags_spec(4) [OF st])
  note held = gc_live_held [of L c s "now 0" "(r, d)"]
  show "GetManifest s' r d = (if gc_live L c s (now 0) (r, d) then GetManifest s r d else None)"
    unfolding sweep_tags_spec(2) [OF st] sweep_manifests_spec(1) [OF sm] marked in_keys key
    using gc_live_tracked [of s r d] held by (cases "GetManifest s r d") auto
  show "map_of (cmanifests c') (r, d) = (if gc_live L c s (now 0) (r, d)
       then Some (case map_of (cmanifests c) (r, d) of None \<Rightarrow> now 1 | Some t \<Rightarrow> t) else None)"
    unfolding same sweep_manifests_spec(4) [OF sm] marked in_keys key
    using held by (auto split: option.splits)
  show "wf_store s'"
    using sweep_tags_spec(3) [OF st] sweep_manifests_spec(3) [OF sm] wf by blast
qed

lemma Collect_gc_tags:
  assumes wf: "wf_store s" and "Collect_gc L c s now = (c', s', stats, collected)"
  shows "ResolveTag s' r t = Some d \<longleftrightarrow>
     ResolveTag s r t = Some d \<and> tag_root c (now 0) (r, t) \<and> GetManifest s r d \<noteq> None"
proof -
  obtain live c1 c2 s2 nm c3 nt c4 nb where
    live: "live = markLocked L c s (now 0)" and c1: "c1 = adopt c (now 1) live"
    and sm: "sweep_manifests live (map fst (cmanifests c1)) (c1, s, 0) = (c2, s2, nm)"
    and st: "sweep_tags live (map fst (ctags c2)) (c2, s2, 0) = (c3, s', nt)"
    by (rule Collect_gc_steps [OF assms(2)])
  have "GetManifest s2 r d = GetManifest s' r d" by (simp add: sweep_tags_spec(2) [OF st])
  then have get: "GetManifest s2 r d = (if gc_live L c s (now 0) (r, d) then GetManifest s r d else None)"
    by (simp add: Collect_gc_manifests(1) [OF assms])
  have "(r, t) \<in> set (map fst (ctags c2)) \<longleftrightarrow> map_of (ctags c2) (r, t) \<noteq> None"
    by (simp add: in_keys_iff del: not_None_eq)
  then have in_keys: "(r, t) \<in> set (map fst (ctags c2)) \<longleftrightarrow>
      ResolveTag s r t \<noteq> None \<or> map_of (ctags c) (r, t) \<noteq> None"
    by (auto simp: sweep_manifests_spec(5) [OF sm] c1 adopt_spec live markLocked_tags [OF wf])
  show ?thesis
  proof (cases "ResolveTag s r t = Some d")
    case True
    then have "gc_live L c s (now 0) (r, d)" if "tag_root c (now 0) (r, t)" "GetManifest s r d \<noteq> None"
      using that by (auto intro: live_tag)
    with True in_keys get show ?thesis
      by (cases "GetManifest s r d") (auto simp: sweep_tags_spec(1) [OF st] sweep_manifests_spec(2) [OF sm]
          tag_dead_def live markLocked_tags [OF wf])
  next
    case False
    then show ?thesis
      by (auto simp: sweep_tags_spec(1) [OF st] sweep_manifests_spec(2) [OF sm] split: option.splits)
  qed
qed

lemma Collect_gc_blobs:
  assumes wf: "wf_store s" and "Collect_gc L c s now = (c', s', stats, collected)"
  shows "collected = map to_liveBlob (filter (\<lambda>(d, _). \<not> blob_live L c s (now 0) d) (cblobs c))"
    and "map_of (cblobs c') d = (if blob_live L c s (now 0) d then map_of (cblobs c) d else None)"
    and "ttl c' = ttl c" and "tagTTL c' = tagTTL c" and "interval c' = interval c" and "lastSweep c' = now 2"
proof -
  obtain live c1 c2 s2 nm c3 nt c4 nb where
    live: "live = markLocked L c s (now 0)" and c1: "c1 = adopt c (now 1) live"
    and sm: "sweep_manifests live (map fst (cmanifests c1)) (c1, s, 0) = (c2, s2, nm)"
    and st: "sweep_tags live (map fst (ctags c2)) (c2, s2, 0) = (c3, s', nt)"
    and sb: "sweep_blobs live (cblobs c3) (c3, [], 0) = (c4, collected, nb)"
    and c': "c' = c4\<lparr>lastSweep := now 2\<rparr>"
    by (rule Collect_gc_steps [OF assms(2)])
  have dead: "map_of (liveBlobs live) d = None \<longleftrightarrow> \<not> blob_live L c s (now 0) d" for d
    using mark_blobs_refines [OF wf, of L c "now 0" d] unfolding live by blast
  have bs: "cblobs c3 = cblobs c"
    by (simp add: sweep_tags_spec(5) [OF st] sweep_manifests_spec(6) [OF sm] c1 adopt_spec)
  show "collected = map to_liveBlob (filter (\<lambda>(d, _). \<not> blob_live L c s (now 0) d) (cblobs c))"
    by (simp add: sweep_blobs_spec(1) [OF sb] bs dead)
  show "map_of (cblobs c') d = (if blob_live L c s (now 0) d then map_of (cblobs c) d else None)"
    using sweep_blobs_spec(3) [OF sb, of d] by (auto simp: c' dead bs in_keys_iff)
  show "ttl c' = ttl c" "tagTTL c' = tagTTL c" "interval c' = interval c" "lastSweep c' = now 2"
    by (simp_all add: c' sweep_blobs_spec(6-8) [OF sb] sweep_tags_spec(6-8) [OF st]
        sweep_manifests_spec(7-9) [OF sm] c1 adopt_spec)
qed

end
