(* ===== verification/Registry_Demo.thy ===== *)
theory Registry_Demo
  imports Registry_Collector
begin

text \<open>
  A concrete instance of the third-party functions and a small registry state, used by the
  witnesses of the registry's properties: digests print as \<^verbatim>\<open>algorithm:hex\<close>, the hash is the
  decimal value of the bytes, blob \<open>[1]\<close> is an index listing the manifest \<open>[2]\<close>, blob \<open>[2]\<close> an
  image with one layer, and blob \<open>[3]\<close> an artifact whose subject is \<open>[2]\<close>.
\<close>

definition demo_hash :: "bytes \<Rightarrow> hash" where
  "demo_hash b = Hash ''sha256'' (show_nat (be_nat b))"

definition demo_new_hash :: "string \<Rightarrow> hash option" where
  "demo_new_hash s = (case split_on CHR '':'' s of [a, h] \<Rightarrow> Some (Hash a h) | _ \<Rightarrow> None)"

definition demo_hash_string :: "hash \<Rightarrow> string" where
  "demo_hash_string h = Algorithm h @ '':'' @ Hex h"

definition demo_desc :: "string \<Rightarrow> bytes \<Rightarrow> v1_descriptor" where
  "demo_desc mt b = \<lparr>MediaType = mt, Digest = demo_hash b, Size = int (length b)\<rparr>"

definition demo_lib :: lib where
  "demo_lib = \<lparr>NewHash = demo_new_hash, HashString = demo_hash_string, SHA256 = demo_hash,
     Hasher = (\<lambda>a. if a = ''sha256'' then Some (\<lambda>b. Hex (demo_hash b)) else None),
     IsIndex = (\<lambda>m. m = ''index''), IsImage = (\<lambda>m. m = ''image''),
     IsDistributable = (\<lambda>m. True),
     ParseIndexManifest = (\<lambda>b. if b = [1] then
       Inr \<lparr>Manifests = [demo_desc ''image'' [2]], IndexSubject = None\<rparr> else Inl ''bad index''),
     ParseManifest = (\<lambda>b. if b = [2] then
         Inr \<lparr>Config = demo_desc ''cfg'' [8], Layers = [demo_desc ''layer'' [9]], ImageSubject = None\<rparr>
       else if b = [3] then
         Inr \<lparr>Config = demo_desc ''cfg'' [7], Layers = [], ImageSubject = Some (demo_desc ''image'' [2])\<rparr>
       else Inl ''bad manifest''),
     UnmarshalKindBody = (\<lambda>b. if b = [1] then
         Some \<lparr>bodyMediaType = ''index'', hasManifests = True, hasConfig = False, hasLayers = False\<rparr>
       else None),
     UnmarshalSubject = (\<lambda>b. if b = [3] then Some (demo_hash [2]) else None),
     UnmarshalArtifact = (\<lambda>b. \<lparr>artArtifactType = [], artConfigMediaType = ''sig'', artAnnotations = []\<rparr>),
     MarshalTags = (\<lambda>name tags. map (\<lambda>c. of_char c) (join_with '','' (name # tags))),
     MarshalCatalog = (\<lambda>names. map (\<lambda>c. of_char c) (join_with '','' names)),
     MarshalReferrers = (\<lambda>rs. map (\<lambda>r. of_nat (refSize r)) rs)\<rparr>"

definition demo_index :: manifest where
  "demo_index = \<lparr>ContentType = ''index'', Kind = KindIndex, Blob = [1]\<rparr>"

definition demo_image :: manifest where
  "demo_image = \<lparr>ContentType = ''image'', Kind = KindManifest, Blob = [2]\<rparr>"

definition demo_signature :: manifest where
  "demo_signature = \<lparr>ContentType = ''image'', Kind = KindManifest, Blob = [3]\<rparr>"

text \<open>
  A repository with a tagged index, its child, a signature of the child, and an orphan; all four
  manifests were last used at time 0.
\<close>

definition demo_store :: memStore where
  "demo_store = \<lparr>repos = [(''app'', [(demo_hash [1], demo_index), (demo_hash [2], demo_image),
       (demo_hash [3], demo_signature), (demo_hash [4], demo_image)])],
     tagmap = [(''app'', [(''latest'', demo_hash [1])])]\<rparr>"

definition demo_collector :: collector where
  "demo_collector = \<lparr>ttl = 10, tagTTL = 0, interval = 1, lastSweep = 0,
     cmanifests = map (\<lambda>b. ((''app'', demo_hash b), 0)) [[1], [2], [3], [4]],
     ctags = [((''app'', ''latest''), 0)],
     cblobs = [(demo_hash [9], \<lparr>nodeRepo = ''app'', nodeSize = 1, nodeLastUsed = 0\<rparr>),
               (demo_hash [6], \<lparr>nodeRepo = ''app'', nodeSize = 1, nodeLastUsed = 0\<rparr>)]\<rparr>"

lemma demo_hash_eval:
  "demo_hash [1] = Hash ''sha256'' ''1''" "demo_hash [2] = Hash ''sha256'' ''2''"
  "demo_hash [3] = Hash ''sha256'' ''3''" "demo_hash [4] = Hash ''sha256'' ''4''"
  "demo_hash [6] = Hash ''sha256'' ''6''" "demo_hash [7] = Hash ''sha256'' ''7''"
  "demo_hash [8] = Hash ''sha256'' ''8''" "demo_hash [9] = Hash ''sha256'' ''9''"
  by code_simp+

lemma wf_demo_store: "wf_store demo_store"
  by (simp add: wf_store_def wf_nested_def demo_store_def demo_hash_eval)

lemma show_nat_no_colon: "CHR '':'' \<notin> set (show_nat n)"
proof (induction n rule: show_nat.induct)
  case (1 n)
  have digit: "char_of (48 + k) \<noteq> CHR '':''" if "k < 10" for k :: nat
  proof
    assume "char_of (48 + k) = CHR '':''"
    then have "of_char (char_of (48 + k) :: char) = (of_char CHR '':'' :: nat)" by simp
    with that show False by simp
  qed
  show ?case
    using 1 digit [of n] digit [of "n mod 10"] by (subst show_nat.simps) auto
qed

lemma demo_new_hash_string: "demo_new_hash s = Some h \<Longrightarrow> demo_hash_string h = s"
proof -
  assume "demo_new_hash s = Some h"
  then obtain a x where "split_on CHR '':'' s = [a, x]" and h: "h = Hash a x"
    by (auto simp: demo_new_hash_def split: list.splits)
  then have "join_with '':'' [a, x] = s" using join_split_on [of "CHR '':''" s] by simp
  then show ?thesis by (simp add: h demo_hash_string_def)
qed

lemma demo_new_hash_of_hash: "demo_new_hash (demo_hash_string (demo_hash b)) = Some (demo_hash b)"
  by (simp add: demo_new_hash_def demo_hash_string_def demo_hash_def split_on_append
      split_on_free show_nat_no_colon)

end
