(* ===== verification/Registry_GC.thy ===== *)
theory Registry_GC
  imports Registry_Sweep Registry_Demo
begin

text \<open>
  What a sweep guarantees, over the whole of \<^verbatim>\<open>Collect\<close> and \<^verbatim>\<open>MaybeCollect\<close>: the store keeps exactly
  the live part of the object graph, no surviving manifest loses a reference, no tag dangles,
  and no blob that a surviving manifest names is handed to the deletion callbacks.
\<close>

abbreviation swept_store :: "lib \<Rightarrow> collector \<Rightarrow> memStore \<Rightarrow> (nat \<Rightarrow> gotime) \<Rightarrow> memStore" where
  "swept_store L c s now \<equiv> fst (snd (Collect_gc L c s now))"

abbreviation swept_collector :: "lib \<Rightarrow> collector \<Rightarrow> memStore \<Rightarrow> (nat \<Rightarrow> gotime) \<Rightarrow> collector" where
  "swept_collector L c s now \<equiv> fst (Collect_gc L c s now)"

abbreviation swept_blobs :: "lib \<Rightarrow> collector \<Rightarrow> memStore \<Rightarrow> (nat \<Rightarrow> gotime) \<Rightarrow> liveBlob list" where
  "swept_blobs L c s now \<equiv> snd (snd (snd (Collect_gc L c s now)))"

lemma Collect_gc_split:
  "Collect_gc L c s now = (swept_collector L c s now, swept_store L c s now,
     fst (snd (snd (Collect_gc L c s now))), swept_blobs L c s now)"
  by simp

lemmas swept_manifests = Collect_gc_manifests [OF _ Collect_gc_split]
lemmas swept_tags = Collect_gc_tags [OF _ Collect_gc_split]
lemmas swept_blob_facts = Collect_gc_blobs [OF _ Collect_gc_split]

section \<open>Reachability from one manifest\<close>

text \<open>
  What a client pulling a manifest may need: its children, their children, and the referrers
  (signatures, attestations) of any of them.
\<close>

inductive reaches :: "lib \<Rightarrow> memStore \<Rightarrow> string \<Rightarrow> hash \<Rightarrow> hash \<Rightarrow> bool"
  for L :: lib and s :: memStore and r :: string and d :: hash where
  reaches_refl: "GetManifest s r d = Some m \<Longrightarrow> reaches L s r d d"
| reaches_child: "reaches L s r d d1 \<Longrightarrow> GetManifest s r d1 = Some m \<Longrightarrow>
     d2 \<in> set (refManifests (parseReferences L m)) \<Longrightarrow> GetManifest s r d2 = Some m2 \<Longrightarrow> reaches L s r d d2"
| reaches_referrer: "reaches L s r d d1 \<Longrightarrow> GetManifest s r d2 = Some m2 \<Longrightarrow>
     refSubject (parseReferences L m2) = Some d1 \<Longrightarrow> reaches L s r d d2"

lemma gc_live_reaches: "reaches L s r d d' \<Longrightarrow> gc_live L c s now (r, d) \<Longrightarrow> gc_live L c s now (r, d')"
  by (induction rule: reaches.induct) (auto intro: live_child live_referrer)

section \<open>Properties\<close>

text \<open>
  C8. The mark pass refines its specification: for every well-formed store, whatever the order in
  which the maps are walked and whatever cycles the references form, \<^verbatim>\<open>markLocked\<close> terminates with
  exactly the manifests reachable from a root (an untracked or fresh manifest, or the target of an
  untracked or unexpired tag) over child and referrer edges.
\<close>

theorem markLocked_refines_reachability:
  "wf_store s \<Longrightarrow> set (liveManifests (markLocked L c s now)) = {k. gc_live L c s now k}"
  using mark_refines by blast

text \<open>
  C12. \<^verbatim>\<open>Collect\<close> keeps every live manifest unchanged and removes every other one, and the resulting
  bookkeeping tracks exactly the manifests that are left.
\<close>

theorem Collect_keeps_exactly_live:
  assumes "wf_store s"
  shows "GetManifest (swept_store L c s now) r d =
      (if gc_live L c s (now 0) (r, d) then GetManifest s r d else None) \<and>
    (map_of (cmanifests (swept_collector L c s now)) (r, d) \<noteq> None \<longleftrightarrow>
      GetManifest (swept_store L c s now) r d \<noteq> None) \<and>
    wf_store (swept_store L c s now)"
  using swept_manifests [OF assms, of L c now] gc_live_held [of L c s "now 0" "(r, d)"] by auto

text \<open>
  C17. An index never loses a child to a sweep: if a manifest survives \<^verbatim>\<open>Collect\<close>, every manifest it
  lists that was held before is held after, and so is every signature or attestation whose subject
  it is.
\<close>

theorem Collect_never_orphans:
  assumes "wf_store s" and "GetManifest (swept_store L c s now) r d = Some m"
  shows "(\<forall>d' \<in> set (refManifests (parseReferences L m)).
      GetManifest (swept_store L c s now) r d' = GetManifest s r d') \<and>
    (\<forall>d' m'. GetManifest s r d' = Some m' \<longrightarrow> refSubject (parseReferences L m') = Some d \<longrightarrow>
      GetManifest (swept_store L c s now) r d' = Some m')"
proof -
  have live: "gc_live L c s (now 0) (r, d)" and m: "GetManifest s r d = Some m"
    using assms(2) by (auto simp: swept_manifests(1) [OF assms(1)] split: if_splits)
  have "GetManifest s r d' = None \<or> gc_live L c s (now 0) (r, d')"
    if "d' \<in> set (refManifests (parseReferences L m))" for d'
    using live m that by (cases "GetManifest s r d'") (auto intro: live_child)
  moreover have "gc_live L c s (now 0) (r, d')"
    if "GetManifest s r d' = Some m'" "refSubject (parseReferences L m') = Some d" for d' m'
    using live that by (rule live_referrer)
  ultimately show ?thesis
    by (simp add: swept_manifests(1) [OF assms(1)]) metis
qed

text \<open>
  A tag keeps everything it references: an unexpired (or not yet tracked) tag whose target is
  held survives \<^verbatim>\<open>Collect\<close>, still resolves to the same digest, and every manifest reachable from
  it, however old, is still there byte for byte.
\<close>

lemma Collect_tag_keeps_image:
  assumes "wf_store s" and "ResolveTag s r t = Some d" and "GetManifest s r d = Some m"
    and "tag_root c (now 0) (r, t)" and "reaches L s r d d'"
  shows "ResolveTag (swept_store L c s now) r t = Some d \<and>
    GetManifest (swept_store L c s now) r d' = GetManifest s r d' \<and> GetManifest s r d' \<noteq> None"
proof -
  have "gc_live L c s (now 0) (r, d)"
    using assms(2,4,3) by (rule live_tag)
  with assms(5) have "gc_live L c s (now 0) (r, d')"
    by (rule gc_live_reaches)
  with gc_live_held [OF this] assms show ?thesis
    by (auto simp: swept_manifests(1) swept_tags)
qed

text \<open>
  C18. No tag dangles after a sweep: every tag \<^verbatim>\<open>Collect\<close> leaves resolves to a manifest the store
  still holds, pointed there before, and had not expired.
\<close>

theorem Collect_no_dangling_tags:
  assumes "wf_store s" and "ResolveTag (swept_store L c s now) r t = Some d"
  shows "ResolveTag s r t = Some d \<and> tag_root c (now 0) (r, t) \<and>
    (\<exists>m. GetManifest (swept_store L c s now) r d = Some m \<and> GetManifest s r d = Some m)"
proof -
  obtain m where "ResolveTag s r t = Some d" "tag_root c (now 0) (r, t)" "GetManifest s r d = Some m"
    using assms(2) by (auto simp: swept_tags [OF assms(1)])
  then show ?thesis by (auto simp: swept_manifests(1) [OF assms(1)] intro: live_tag)
qed

text \<open>
  Nothing is swept on the sweep that first sees it: a manifest the store holds and the
  collector has no node for (a push that raced the sweep) survives and is adopted with the sweep's
  own time.
\<close>

lemma Collect_adopts_untracked:
  assumes "wf_store s" and "GetManifest s r d = Some m" and "map_of (cmanifests c) (r, d) = None"
  shows "GetManifest (swept_store L c s now) r d = Some m \<and>
    map_of (cmanifests (swept_collector L c s now)) (r, d) = Some (now 1)"
proof -
  have "gc_live L c s (now 0) (r, d)"
    using assms(2) by (rule live_manifest) (simp add: manifest_root_def assms(3))
  then show ?thesis
    using assms(2,3) by (simp add: swept_manifests(1,2) [OF assms(1)])
qed

text \<open>
  C19. Blob deletion is safe and complete: the blobs a sweep hands to the deletion callbacks are the
  tracked ones that are neither fresh nor named by a manifest that survives; none of them stays in
  the bookkeeping.
\<close>

theorem Collect_blobs_safe:
  assumes "wf_store s" and "distinct_keys (cblobs c)"
  shows "b \<in> set (swept_blobs L c s now) \<longleftrightarrow>
    (\<exists>node. map_of (cblobs c) (lbDigest b) = Some node \<and> b = to_liveBlob (lbDigest b, node) \<and>
      \<not> fresh (nodeLastUsed node) (now 0) (ttl c) \<and>
      (\<forall>r d m. GetManifest (swept_store L c s now) r d = Some m \<longrightarrow>
         lbDigest b \<notin> digest ` set (refBlobs (parseReferences L m))) \<and>
      map_of (cblobs (swept_collector L c s now)) (lbDigest b) = None)"
    (is "?L \<longleftrightarrow> ?R")
proof -
  have named: "GetManifest (swept_store L c s now) r d = Some m \<longleftrightarrow>
      gc_live L c s (now 0) (r, d) \<and> GetManifest s r d = Some m" for r d m
    by (auto simp: swept_manifests(1) [OF assms(1)])
  have dead: "\<not> blob_live L c s (now 0) e \<longleftrightarrow> \<not> fresh (nodeLastUsed node) (now 0) (ttl c) \<and>
      (\<forall>r d m. GetManifest (swept_store L c s now) r d = Some m \<longrightarrow>
         e \<notin> digest ` set (refBlobs (parseReferences L m)))"
    if "map_of (cblobs c) e = Some node" for e node
  proof -
    have "(e, n) \<in> set (cblobs c) \<longleftrightarrow> n = node" for n
      using that assms(2) by (metis map_of_eq_Some_iff option.inject)
    then show ?thesis unfolding blob_live_def named by simp blast
  qed
  have "?L \<longleftrightarrow> (\<exists>e node. (e, node) \<in> set (cblobs c) \<and> \<not> blob_live L c s (now 0) e \<and> b = to_liveBlob (e, node))"
    by (auto simp: swept_blob_facts(1) [OF assms(1)])
  also have "\<dots> \<longleftrightarrow> (\<exists>node. map_of (cblobs c) (lbDigest b) = Some node \<and> b = to_liveBlob (lbDigest b, node) \<and>
      \<not> blob_live L c s (now 0) (lbDigest b))"
    using assms(2) by (auto simp: to_liveBlob_def)
  also have "\<dots> \<longleftrightarrow> ?R"
    using dead by (auto simp: swept_blob_facts(2) [OF assms(1)])
  finally show ?thesis .
qed

text \<open>
  \<^verbatim>\<open>MaybeCollect\<close> sweeps exactly when it should: never without a collector, with both limits off
  or before the interval has passed; otherwise the store it leaves is \<^verbatim>\<open>Collect\<close>'s, the interval
  restarts, and the blobs reported are those \<^verbatim>\<open>Collect\<close> dropped.
\<close>

lemma MaybeCollect_when_due:
  assumes "wf_store s"
  shows "MaybeCollect L None s now = (None, s, []) \<and>
    (ttl c \<le> 0 \<and> tagTTL c \<le> 0 \<or> time_Sub (now 0) (lastSweep c) < interval c \<longrightarrow>
      MaybeCollect L (Some c) s now = (Some c, s, [])) \<and>
    (\<not> (ttl c \<le> 0 \<and> tagTTL c \<le> 0) \<and> interval c \<le> time_Sub (now 0) (lastSweep c) \<longrightarrow>
      MaybeCollect L (Some c) s now =
        (Some (swept_collector L c s (\<lambda>i. now (Suc i))), swept_store L c s (\<lambda>i. now (Suc i)),
         swept_blobs L c s (\<lambda>i. now (Suc i))) \<and>
      lastSweep (swept_collector L c s (\<lambda>i. now (Suc i))) = now 3)"
proof -
  let ?n = "\<lambda>i. now (Suc i)"
  have "map_of (cblobs (swept_collector L c s ?n)) (lbDigest b) = None" if "b \<in> set (swept_blobs L c s ?n)" for b
    using that by (auto simp: swept_blob_facts(1,2) [OF assms] to_liveBlob_def)
  then have "reportCollectedBlobs (swept_collector L c s ?n) (swept_blobs L c s ?n) = swept_blobs L c s ?n"
    by (simp add: reportCollectedBlobs_def filter_id_conv)
  then show ?thesis
    by (auto simp: MaybeCollect_def swept_blob_facts(6) [OF assms] split_beta Let_def numeral_3_eq_3)
qed

section \<open>Witnesses\<close>

abbreviation demo_now :: "nat \<Rightarrow> gotime" where "demo_now \<equiv> \<lambda>_. 100"

lemma demo_swept:
  "GetManifest (swept_store demo_lib demo_collector demo_store demo_now) ''app'' (demo_hash [1]) = Some demo_index"
  "GetManifest (swept_store demo_lib demo_collector demo_store demo_now) ''app'' (demo_hash [3]) = Some demo_signature"
  "GetManifest (swept_store demo_lib demo_collector demo_store demo_now) ''app'' (demo_hash [4]) = None"
  "ResolveTag (swept_store demo_lib demo_collector demo_store demo_now) ''app'' ''latest'' = Some (demo_hash [1])"
  by code_simp+

lemma demo_gets:
  "GetManifest demo_store ''app'' (demo_hash [1]) = Some demo_index"
  "GetManifest demo_store ''app'' (demo_hash [2]) = Some demo_image"
  "ResolveTag demo_store ''app'' ''latest'' = Some (demo_hash [1])"
  "tag_root demo_collector 100 (''app'', ''latest'')"
  by code_simp+

lemma demo_reaches: "reaches demo_lib demo_store ''app'' (demo_hash [1]) (demo_hash [2])"
proof (rule reaches_child)
  show "reaches demo_lib demo_store ''app'' (demo_hash [1]) (demo_hash [1])"
    by (rule reaches_refl) (rule demo_gets)
  show "demo_hash [2] \<in> set (refManifests (parseReferences demo_lib demo_index))"
    by code_simp
qed (rule demo_gets)+

lemma markLocked_refines_reachability_witness:
  "wf_store demo_store \<and> gc_live demo_lib demo_collector demo_store 100 (''app'', demo_hash [3]) \<and>
   \<not> gc_live demo_lib demo_collector demo_store 100 (''app'', demo_hash [4])"
proof -
  have "liveManifests (markLocked demo_lib demo_collector demo_store 100) =
     [(''app'', demo_hash [3]), (''app'', demo_hash [2]), (''app'', demo_hash [1])]"
    by code_simp
  with markLocked_refines_reachability [OF wf_demo_store, of demo_lib demo_collector 100]
  have "gc_live demo_lib demo_collector demo_store 100 k \<longleftrightarrow>
     k \<in> set [(''app'', demo_hash [3]), (''app'', demo_hash [2]), (''app'', demo_hash [1])]" for k
    by (simp only: set_eq_iff mem_Collect_eq)
  then show ?thesis by (simp add: demo_hash_eval wf_demo_store)
qed

lemma Collect_keeps_exactly_live_witness:
  "\<not> gc_live demo_lib demo_collector demo_store 100 (''app'', demo_hash [4]) \<and>
   map_of (cmanifests (swept_collector demo_lib demo_collector demo_store demo_now)) (''app'', demo_hash [4]) = None"
proof -
  have "GetManifest demo_store ''app'' (demo_hash [4]) = Some demo_image" by code_simp
  with Collect_keeps_exactly_live [OF wf_demo_store, of demo_lib demo_collector demo_now "''app''" "demo_hash [4]"]
  show ?thesis by (auto simp: demo_swept split: if_splits)
qed

lemma Collect_never_orphans_witness:
  "GetManifest (swept_store demo_lib demo_collector demo_store demo_now) ''app'' (demo_hash [2]) = Some demo_image"
proof -
  have "demo_hash [2] \<in> set (refManifests (parseReferences demo_lib demo_index))" by code_simp
  with Collect_never_orphans [OF wf_demo_store demo_swept(1)] show ?thesis by (simp add: demo_gets)
qed

lemma Collect_tag_keeps_image_witness:
  "ResolveTag (swept_store demo_lib demo_collector demo_store demo_now) ''app'' ''latest'' = Some (demo_hash [1]) \<and>
   GetManifest (swept_store demo_lib demo_collector demo_store demo_now) ''app'' (demo_hash [2]) = Some demo_image"
  using Collect_tag_keeps_image [where now = demo_now, OF wf_demo_store demo_gets(3) demo_gets(1) demo_gets(4) demo_reaches]
  by (simp add: demo_gets)

lemma Collect_no_dangling_tags_witness:
  "\<exists>m. GetManifest (swept_store demo_lib demo_collector demo_store demo_now) ''app'' (demo_hash [1]) = Some m"
  using Collect_no_dangling_tags [OF wf_demo_store demo_swept(4)] by blast

lemma Collect_adopts_untracked_witness:
  "GetManifest (swept_store demo_lib (demo_collector\<lparr>cmanifests := []\<rparr>) demo_store demo_now)
     ''app'' (demo_hash [1]) = Some demo_index"
  using Collect_adopts_untracked [OF wf_demo_store demo_gets(1), of "demo_collector\<lparr>cmanifests := []\<rparr>"]
  by simp

lemma Collect_blobs_safe_witness:
  "\<lparr>Repo = ''app'', lbDigest = demo_hash [6], lbSize = 1, LastUsed = 0\<rparr>
      \<in> set (swept_blobs demo_lib demo_collector demo_store demo_now) \<and>
   map_of (cblobs (swept_collector demo_lib demo_collector demo_store demo_now)) (demo_hash [6]) = None"
proof -
  have "distinct_keys (cblobs demo_collector)"
    by (simp add: demo_collector_def demo_hash_eval)
  moreover have m: "\<lparr>Repo = ''app'', lbDigest = demo_hash [6], lbSize = 1, LastUsed = 0\<rparr>
      \<in> set (swept_blobs demo_lib demo_collector demo_store demo_now)"
    by code_simp
  ultimately show ?thesis
    using Collect_blobs_safe [OF wf_demo_store, of demo_collector
      "\<lparr>Repo = ''app'', lbDigest = demo_hash [6], lbSize = 1, LastUsed = 0\<rparr>" demo_lib demo_now] by auto
qed

lemma MaybeCollect_when_due_witness:
  "MaybeCollect demo_lib (Some demo_collector) demo_store (\<lambda>_. 0) = (Some demo_collector, demo_store, []) \<and>
   fst (snd (MaybeCollect demo_lib (Some demo_collector) demo_store demo_now)) =
     swept_store demo_lib demo_collector demo_store demo_now"
  using MaybeCollect_when_due [OF wf_demo_store, of demo_lib "\<lambda>_. 0" demo_collector]
    MaybeCollect_when_due [OF wf_demo_store, of demo_lib demo_now demo_collector]
  by (simp add: demo_collector_def time_Sub_def)

end
