(* ===== verification/Registry_Manifests.thy ===== *)
theory Registry_Manifests
  imports Registry_Http Registry_GC
begin

text \<open>
  \<^verbatim>\<open>pkg/registry/manifest.go\<close>: the manifest, tag-list, catalog and referrers endpoints.  Each
  handler is one definition per HTTP method, composed by \<open>manifests_handle\<close> the way the method
  switch does.  \<open>now\<close> gives the successive clock readings of the request: 0 to 3 belong to
  \<^verbatim>\<open>MaybeCollect\<close>, the later ones to the touches.
\<close>

section \<open>Routing predicates\<close>

definition isManifest :: "request \<Rightarrow> bool" where
  "isManifest req =
     (let elems = path_elems (URLPath req) in
      if length elems < 4 then False else elems ! (length elems - 2) = ''manifests'')"

definition isTags :: "request \<Rightarrow> bool" where
  "isTags req =
     (let elems = path_elems (URLPath req) in
      if length elems < 4 then False else elems ! (length elems - 2) = ''tags'')"

definition isCatalog :: "request \<Rightarrow> bool" where
  "isCatalog req =
     (let elems = path_elems (URLPath req) in
      if length elems < 2 then False else elems ! (length elems - 1) = ''_catalog'')"

definition isReferrers :: "request \<Rightarrow> bool" where
  "isReferrers req =
     (let elems = path_elems (URLPath req) in
      if length elems < 4 then False else elems ! (length elems - 2) = ''referrers'')"

text \<open>\<^verbatim>\<open>elem[len(elem)-1]\<close> and \<^verbatim>\<open>strings.Join(elem[1:len(elem)-2], "/")\<close>\<close>

definition req_target :: "request \<Rightarrow> string" where
  "req_target req = last (path_elems (URLPath req))"

definition req_repo :: "request \<Rightarrow> string" where
  "req_repo req =
     (let elem = path_elems (URLPath req) in join_with ''/'' (slice 1 (length elem - 2) elem))"

section \<open>Resolving and touching\<close>

definition resolve_target :: "lib \<Rightarrow> memStore \<Rightarrow> string \<Rightarrow> string \<Rightarrow> regError + (hash \<times> manifest)" where
  "resolve_target L s repo target =
     (if \<not> HasRepo s repo then Inl errNameUnknown
      else case (case NewHash L target of Some d \<Rightarrow> Some d | None \<Rightarrow> ResolveTag s repo target) of
             None \<Rightarrow> Inl errManifestUnknown
           | Some d \<Rightarrow>
               (case GetManifest s repo d of
                  None \<Rightarrow> Inl errManifestUnknown
                | Some m \<Rightarrow> Inr (d, m)))"

definition touch :: "lib \<Rightarrow> collector option \<Rightarrow> (nat \<Rightarrow> gotime) \<Rightarrow> string \<Rightarrow> string \<Rightarrow> hash \<Rightarrow> collector option" where
  "touch L col now repo target d =
     (let col' = TouchManifest col (now 4) repo d
      in if target \<noteq> HashString L d then TouchTag col' (now 5) repo target else col')"

section \<open>GET and HEAD\<close>

definition manifests_get ::
    "lib \<Rightarrow> (nat \<Rightarrow> gotime) \<Rightarrow> request \<Rightarrow> 'b registryState \<Rightarrow> 'b registryState \<times> reply" where
  "manifests_get L now req st =
     (let repo = req_repo req; target = req_target req in
      case resolve_target L (store st) repo target of
        Inl e \<Rightarrow> (st, Err e)
      | Inr (d, m) \<Rightarrow>
          (st\<lparr>coll := touch L (coll st) now repo target d\<rparr>,
           Ok \<lparr>Status = 200,
               Headers = [(''Docker-Content-Digest'', HashString L d), (''Content-Type'', ContentType m),
                 (''Content-Length'', show_nat (length (Blob m)))],
               Payload = (if Method req = ''GET'' then Blob m else [])\<rparr>))"

section \<open>PUT\<close>

text \<open>The first listed sub-manifest that is distributable and absent.\<close>

fun missing_child :: "lib \<Rightarrow> memStore \<Rightarrow> string \<Rightarrow> v1_descriptor list \<Rightarrow> hash option" where
  "missing_child L s repo [] = None"
| "missing_child L s repo (desc # ds) =
     (if \<not> IsDistributable L (MediaType desc) then missing_child L s repo ds
      else if IsIndex L (MediaType desc) \<or> IsImage L (MediaType desc) then
        (case GetManifest s repo (Digest desc) of
           None \<Rightarrow> Some (Digest desc)
         | Some _ \<Rightarrow> missing_child L s repo ds)
      else missing_child L s repo ds)"

definition check_children :: "lib \<Rightarrow> memStore \<Rightarrow> string \<Rightarrow> manifest \<Rightarrow> regError option" where
  "check_children L s repo mf =
     (if Kind mf = KindIndex then
        (case ParseIndexManifest L (Blob mf) of
           Inl err \<Rightarrow> Some (reg_error 400 ''MANIFEST_INVALID'' err)
         | Inr im \<Rightarrow>
             (case missing_child L s repo (Manifests im) of
                None \<Rightarrow> None
              | Some d \<Rightarrow> Some (reg_error 404 ''MANIFEST_UNKNOWN''
                  (''Sub-manifest '' @ [CHR 0x22] @ HashString L d @ [CHR 0x22] @ '' not found''))))
      else None)"

definition run_callback ::
    "(string \<Rightarrow> string \<Rightarrow> string \<Rightarrow> bytes \<Rightarrow> string option) option \<Rightarrow> string \<Rightarrow> string \<Rightarrow> manifest \<Rightarrow> regError option"
where
  "run_callback cb repo target mf =
     (case cb of
        None \<Rightarrow> None
      | Some f \<Rightarrow>
          (case f repo target (ContentType mf) (Blob mf) of
             None \<Rightarrow> None
           | Some err \<Rightarrow> Some (reg_error 500 ''INTERNAL_ERROR'' (''Error in callback: '' @ err))))"

fun touch_blobs :: "(nat \<Rightarrow> gotime) \<Rightarrow> nat \<Rightarrow> string \<Rightarrow> descriptor list \<Rightarrow> collector option \<Rightarrow> collector option" where
  "touch_blobs now i repo [] col = col"
| "touch_blobs now i repo (b # bs) col =
     touch_blobs now (Suc i) repo bs (TouchBlob col (now i) repo (digest b) (size b))"

definition put_manifest_value :: "lib \<Rightarrow> request \<Rightarrow> manifest" where
  "put_manifest_value L req =
     \<lparr>ContentType = Header req ''Content-Type'',
      Kind = kindOf L (Header req ''Content-Type'') (Body req), Blob = Body req\<rparr>"

text \<open>The part of PUT after the digest check: validation, callback, storing, bookkeeping.\<close>

definition manifests_store ::
    "lib \<Rightarrow> 'b registryConfig \<Rightarrow> (nat \<Rightarrow> gotime) \<Rightarrow> string \<Rightarrow> string \<Rightarrow> hash \<Rightarrow> manifest \<Rightarrow>
     'b registryState \<Rightarrow> 'b registryState \<times> reply" where
  "manifests_store L cfg now repo target h mf st =
     (case check_children L (store st) repo mf of
        Some e \<Rightarrow> (st, Err e)
      | None \<Rightarrow>
          (case run_callback (putCallback cfg) repo target mf of
             Some e \<Rightarrow> (st, Err e)
           | None \<Rightarrow>
               let s1 = PutManifest (store st) repo h mf;
                   s2 = (if target \<noteq> HashString L h then PutTag s1 repo target h else s1);
                   c1 = touch L (coll st) now repo target h;
                   c2 = touch_blobs now 6 repo (refBlobs (parseReferences L mf)) c1
               in (st\<lparr>store := s2, coll := c2\<rparr>,
                   Ok \<lparr>Status = 201, Headers = [(''Docker-Content-Digest'', HashString L h)], Payload = []\<rparr>)))"

definition manifests_put ::
    "lib \<Rightarrow> 'b registryConfig \<Rightarrow> (nat \<Rightarrow> gotime) \<Rightarrow> request \<Rightarrow> 'b registryState \<Rightarrow> 'b registryState \<times> reply" where
  "manifests_put L cfg now req st =
     (let repo = req_repo req; target = req_target req;
          h = SHA256 L (Body req); mf = put_manifest_value L req in
      case NewHash L target of
        Some asDigest \<Rightarrow>
          if asDigest \<noteq> h then
            (st, Err (reg_error 400 ''DIGEST_INVALID'' (''Manifest hashes to '' @ HashString L h
               @ '', not the requested '' @ HashString L asDigest)))
          else manifests_store L cfg now repo target h mf st
      | None \<Rightarrow> manifests_store L cfg now repo target h mf st)"

section \<open>DELETE\<close>

definition tagsFor :: "memStore \<Rightarrow> string \<Rightarrow> hash \<Rightarrow> string list" where
  "tagsFor s repo d =
     RangeTags s repo (\<lambda>(tag, resolved) tags. (if resolved = d then tags @ [tag] else tags, True)) []"

definition manifests_delete ::
    "lib \<Rightarrow> 'b registryConfig \<Rightarrow> request \<Rightarrow> 'b registryState \<Rightarrow> 'b registryState \<times> reply" where
  "manifests_delete L cfg req st =
     (let repo = req_repo req; target = req_target req in
      case resolve_target L (store st) repo target of
        Inl e \<Rightarrow> (st, Err e)
      | Inr (d, m) \<Rightarrow>
          (case run_callback (deleteCallback cfg) repo target m of
             Some e \<Rightarrow> (st, Err e)
           | None \<Rightarrow>
               let st' =
                 (if target = HashString L d then
                    let s1 = DeleteManifest (store st) repo d;
                        c1 = ForgetManifest (coll st) repo d;
                        tags = tagsFor s1 repo d
                    in st\<lparr>store := fold (\<lambda>t s. DeleteTag s repo t) tags s1,
                          coll := fold (\<lambda>t c. ForgetTag c repo t) tags c1\<rparr>
                  else st\<lparr>store := DeleteTag (store st) repo target, coll := ForgetTag (coll st) repo target\<rparr>)
               in (st', Ok \<lparr>Status = 202, Headers = [], Payload = []\<rparr>)))"

definition manifests_handle ::
    "lib \<Rightarrow> 'b registryConfig \<Rightarrow> (nat \<Rightarrow> gotime) \<Rightarrow> request \<Rightarrow> 'b registryState \<Rightarrow> 'b registryState \<times> reply" where
  "manifests_handle L cfg now req st0 =
     (let st = maybe_collect L cfg now st0 in
      if Method req = ''GET'' \<or> Method req = ''HEAD'' then manifests_get L now req st
      else if Method req = ''PUT'' then manifests_put L cfg now req st
      else if Method req = ''DELETE'' then manifests_delete L cfg req st
      else (st, Err errMethodUnknown))"

section \<open>Tag list, catalog, referrers\<close>

text \<open>The loop over the sorted tags: cut before the first one greater than \<open>last\<close>, if there is one.\<close>

fun tags_after :: "string \<Rightarrow> string list \<Rightarrow> string list option" where
  "tags_after lst [] = None"
| "tags_after lst (t # ts) = (if t > lst then Some (t # ts) else tags_after lst ts)"

definition tags_offset :: "string \<Rightarrow> string list \<Rightarrow> string list" where
  "tags_offset lst tags =
     (if lst = [] then tags else case tags_after lst tags of None \<Rightarrow> tags | Some ts \<Rightarrow> ts)"

definition json_response :: "bytes \<Rightarrow> (string \<times> string) list \<Rightarrow> reply" where
  "json_response msg hs =
     Ok \<lparr>Status = 200, Headers = (''Content-Length'', show_nat (length msg)) # hs, Payload = msg\<rparr>"

definition handleTags ::
    "lib \<Rightarrow> 'b registryConfig \<Rightarrow> (nat \<Rightarrow> gotime) \<Rightarrow> request \<Rightarrow> 'b registryState \<Rightarrow> 'b registryState \<times> reply" where
  "handleTags L cfg now req st0 =
     (if Method req = ''GET'' then
        let st = maybe_collect L cfg now st0; repo = req_repo req in
        if \<not> HasRepo (store st) repo then (st, Err errNameUnknown)
        else
          let all = sort (RangeTags (store st) repo (\<lambda>(tag, _) ts. (ts @ [tag], True)) []);
              tags = tags_offset (Query req ''last'') all;
              ns = Query req ''n''
          in if ns \<noteq> [] then
               let (n, ok) = Atoi ns in
               if \<not> ok then (st, Err (reg_error 400 ''BAD_REQUEST'' (''parsing n: '' @ Atoi_error ns)))
               else if n < int (length tags) then
                 if n < 0 then (st, Panic)
                 else (st, json_response (MarshalTags L repo (take (nat n) tags)) [])
               else (st, json_response (MarshalTags L repo tags) [])
             else (st, json_response (MarshalTags L repo tags) [])
      else (st0, Err errMethodUnknown))"

definition handleCatalog ::
    "lib \<Rightarrow> 'b registryConfig \<Rightarrow> (nat \<Rightarrow> gotime) \<Rightarrow> request \<Rightarrow> 'b registryState \<Rightarrow> 'b registryState \<times> reply" where
  "handleCatalog L cfg now req st0 =
     (let nStr = Query req ''n'';
          n = (if nStr \<noteq> [] then fst (Atoi nStr) else 10000) in
      if Method req = ''GET'' then
        let st = maybe_collect L cfg now st0;
            (rs, _) = RangeRepos (store st)
              (\<lambda>repo (rs, count). if int count \<ge> n then ((rs, count), False)
                                  else ((rs @ [repo], Suc count), True)) ([], 0)
        in (st, json_response (MarshalCatalog L rs) [])
      else (st0, Err errMethodUnknown))"

definition referrer_of :: "lib \<Rightarrow> string \<Rightarrow> hash \<times> manifest \<Rightarrow> referrer list \<Rightarrow> referrer list \<times> bool" where
  "referrer_of L target = (\<lambda>(d, m) rs.
     case UnmarshalSubject L (Blob m) of
       None \<Rightarrow> (rs, True)
     | Some subj \<Rightarrow>
         if HashString L subj \<noteq> target then (rs, True)
         else let a = UnmarshalArtifact L (Blob m) in
           (rs @ [\<lparr>refContentType = ContentType m, refSize = length (Blob m), refDigest = d,
              refArtifactType = (if artArtifactType a = [] then artConfigMediaType a else artArtifactType a),
              refAnnotations = artAnnotations a\<rparr>], True))"

definition handleReferrers ::
    "lib \<Rightarrow> 'b registryConfig \<Rightarrow> (nat \<Rightarrow> gotime) \<Rightarrow> request \<Rightarrow> 'b registryState \<Rightarrow> 'b registryState \<times> reply" where
  "handleReferrers L cfg now req st0 =
     (if Method req \<noteq> ''GET'' then (st0, Err errMethodUnknown)
      else
        let target = req_target req; repo = req_repo req in
        if NewHash L target = None
        then (st0, Err (reg_error 400 ''UNSUPPORTED'' ''Target must be a valid digest''))
        else
          let st = maybe_collect L cfg now st0 in
          if \<not> HasRepo (store st) repo then (st, Err errNameUnknown)
          else
            let msg = MarshalReferrers L (RangeManifests (store st) repo (referrer_of L target) [])
            in (st, json_response msg [(''Content-Type'', ''application/vnd.oci.image.index.v1+json'')]))"

section \<open>What a sweep before a request changes\<close>

lemma maybe_collect_cases:
  obtains (same) "store (maybe_collect L cfg now st) = store st" "coll (maybe_collect L cfg now st) = coll st"
      "blobState (maybe_collect L cfg now st) = blobState st"
  | (swept) c where "coll st = Some c"
      "store (maybe_collect L cfg now st) = swept_store L c (store st) (\<lambda>i. now (Suc i))"
      "coll (maybe_collect L cfg now st) = Some (swept_collector L c (store st) (\<lambda>i. now (Suc i)))"
proof (cases "coll st")
  case None
  then show ?thesis
    by (intro same) (simp_all add: maybe_collect_def MaybeCollect_def prune_blobs_def split: option.splits)
next
  case (Some c)
  show ?thesis
  proof (cases "(ttl c \<le> 0 \<and> tagTTL c \<le> 0) \<or> \<not> interval c \<le> time_Sub (now 0) (lastSweep c)")
    case True
    then have "MaybeCollect L (coll st) (store st) now = (Some c, store st, [])"
      by (auto simp: Some MaybeCollect_def)
    then show ?thesis
      by (intro same) (simp_all add: Some maybe_collect_def prune_blobs_def split: option.splits)
  next
    case False
    then have "MaybeCollect L (coll st) (store st) now =
       (Some (swept_collector L c (store st) (\<lambda>i. now (Suc i))), swept_store L c (store st) (\<lambda>i. now (Suc i)),
        reportCollectedBlobs (swept_collector L c (store st) (\<lambda>i. now (Suc i)))
          (swept_blobs L c (store st) (\<lambda>i. now (Suc i))))"
      by (auto simp: Some MaybeCollect_def split_beta Let_def)
    then show ?thesis
      by (intro swept [OF Some]) (simp_all add: maybe_collect_def)
  qed
qed

lemma maybe_collect_frame [simp]:
  "uploads (maybe_collect L cfg now st) = uploads st"
  "created (maybe_collect L cfg now st) = created st"
  "deleted (maybe_collect L cfg now st) = deleted st"
  by (simp_all add: maybe_collect_def split_beta Let_def)

lemma maybe_collect_wf: "wf_store (store st) \<Longrightarrow> wf_store (store (maybe_collect L cfg now st))"
  by (rule maybe_collect_cases [of L cfg now st]) (auto simp: swept_manifests(3))

lemma maybe_collect_shrinks:
  assumes "wf_store (store st)" and "GetManifest (store (maybe_collect L cfg now st)) r d = Some m"
  shows "GetManifest (store st) r d = Some m"
  using assms by (cases rule: maybe_collect_cases [of L cfg now st])
    (auto simp: swept_manifests(1) split: if_splits)

section \<open>Invariants of the store\<close>

text \<open>Every manifest is stored under the digest of its bytes.\<close>

definition digest_keyed :: "lib \<Rightarrow> memStore \<Rightarrow> bool" where
  "digest_keyed L s \<longleftrightarrow> (\<forall>r d m. GetManifest s r d = Some m \<longrightarrow> d = SHA256 L (Blob m))"

text \<open>Every distributable manifest an index lists is held in the same repository.\<close>

definition children_held :: "lib \<Rightarrow> memStore \<Rightarrow> bool" where
  "children_held L s \<longleftrightarrow>
     (\<forall>r d m im desc. GetManifest s r d = Some m \<longrightarrow> Kind m = KindIndex \<longrightarrow>
        ParseIndexManifest L (Blob m) = Inr im \<longrightarrow> desc \<in> set (Manifests im) \<longrightarrow>
        IsDistributable L (MediaType desc) \<longrightarrow> is_child L desc \<longrightarrow> GetManifest s r (Digest desc) \<noteq> None)"

lemma children_heldD:
  "children_held L s \<Longrightarrow> GetManifest s r d = Some m \<Longrightarrow> Kind m = KindIndex \<Longrightarrow>
   ParseIndexManifest L (Blob m) = Inr im \<Longrightarrow> desc \<in> set (Manifests im) \<Longrightarrow>
   IsDistributable L (MediaType desc) \<Longrightarrow> is_child L desc \<Longrightarrow> GetManifest s r (Digest desc) \<noteq> None"
  unfolding children_held_def by blast

lemma digest_keyed_collect:
  "wf_store (store st) \<Longrightarrow> digest_keyed L (store st) \<Longrightarrow> digest_keyed L (store (maybe_collect L cfg now st))"
  unfolding digest_keyed_def using maybe_collect_shrinks by blast

lemma children_held_collect:
  assumes "wf_store (store st)" and "children_held L (store st)"
  shows "children_held L (store (maybe_collect L cfg now st))"
proof (cases rule: maybe_collect_cases [of L cfg now st])
  case same
  with assms show ?thesis by simp
next
  case (swept c)
  show ?thesis unfolding children_held_def
  proof (intro allI impI)
    fix r d m im desc
    assume h: "GetManifest (store (maybe_collect L cfg now st)) r d = Some m" "Kind m = KindIndex"
      "ParseIndexManifest L (Blob m) = Inr im" "desc \<in> set (Manifests im)"
      "IsDistributable L (MediaType desc)" "is_child L desc"
    have live: "gc_live L c (store st) (now 1) (r, d)" and m: "GetManifest (store st) r d = Some m"
      using h(1) by (auto simp: swept swept_manifests(1) [OF assms(1)] split: if_splits)
    obtain m' where m': "GetManifest (store st) r (Digest desc) = Some m'"
      using children_heldD [OF assms(2) m h(2-6)] by auto
    have "Digest desc \<in> set (refManifests (parseReferences L m))"
      using h by (auto simp: parseReferences_def)
    from live_child [OF live m this m'] m'
    show "GetManifest (store (maybe_collect L cfg now st)) r (Digest desc) \<noteq> None"
      by (simp add: swept swept_manifests(1) [OF assms(1)])
  qed
qed

lemma missing_child_None:
  "missing_child L s repo ds = None \<longleftrightarrow>
     (\<forall>desc \<in> set ds. IsDistributable L (MediaType desc) \<longrightarrow> is_child L desc \<longrightarrow>
        GetManifest s repo (Digest desc) \<noteq> None)"
  by (induction ds) (auto simp: is_child_def split: option.splits)

section \<open>The steps of the handler\<close>

lemma manifests_get_store: "store (fst (manifests_get L now req st)) = store st"
  by (auto simp: manifests_get_def Let_def split: sum.splits prod.splits)

text \<open>A PUT either stores the pushed manifest, or replies with an error and changes nothing.\<close>

lemma manifests_put_cases:
  obtains (error) e where "manifests_put L cfg now req st = (st, Err e)"
  | (stored) st' resp where "manifests_put L cfg now req st = (st', Ok resp)"
      "resp = \<lparr>Status = 201, Headers = [(''Docker-Content-Digest'', HashString L (SHA256 L (Body req)))], Payload = []\<rparr>"
      "NewHash L (req_target req) \<noteq> None \<longrightarrow> NewHash L (req_target req) = Some (SHA256 L (Body req))"
      "check_children L (store st) (req_repo req) (put_manifest_value L req) = None"
      "store st' =
         (let s1 = PutManifest (store st) (req_repo req) (SHA256 L (Body req)) (put_manifest_value L req)
          in if req_target req \<noteq> HashString L (SHA256 L (Body req))
             then PutTag s1 (req_repo req) (req_target req) (SHA256 L (Body req)) else s1)"
      "coll st' = touch_blobs now 6 (req_repo req) (refBlobs (parseReferences L (put_manifest_value L req)))
         (touch L (coll st) now (req_repo req) (req_target req) (SHA256 L (Body req)))"
      "blobState st' = blobState st" "uploads st' = uploads st"
proof (cases "manifests_put L cfg now req st")
  case (Pair st' rep)
  then show ?thesis
    by (auto intro: error stored simp: manifests_put_def manifests_store_def Let_def split: option.splits if_splits)
qed

lemma tagsFor_iff:
  assumes "wf_store s"
  shows "t \<in> set (tagsFor s r d) \<longleftrightarrow> ResolveTag s r t = Some d"
proof -
  have "set (fold (\<lambda>x a. fst ((\<lambda>(tag, resolved) tags. (if resolved = d then tags @ [tag] else tags, True)) x a)) xs acc) =
     set acc \<union> {t. (t, d) \<in> set xs}" for xs and acc :: "string list"
    by (induction xs arbitrary: acc) (auto split: if_splits)
  then have "set (tagsFor s r d) = {t. (t, d) \<in> set (tagsOf s r)}"
    by (simp add: tagsFor_def RangeTags_def range_go_fold split_beta)
  then show ?thesis by (simp add: mem.tagsIn_iff [OF assms])
qed

lemma put_keeps_wf:
  "wf_store (store st) \<Longrightarrow> wf_store (store (fst (manifests_put L cfg now req st)))"
  by (cases rule: manifests_put_cases [of L cfg now req st]) (auto simp: Let_def)

lemma delete_keeps_wf:
  "wf_store (store st) \<Longrightarrow> wf_store (store (fst (manifests_delete L cfg req st)))"
  by (auto simp: manifests_delete_def Let_def mem.fold_delT_invar split: sum.splits prod.splits option.splits)

section \<open>Bookkeeping after a push\<close>

text \<open>
  Documented behaviour of go-containerregistry's digests: a string that parses prints back as
  itself, and a computed digest prints as a string that parses to it.
\<close>

definition hash_laws :: "lib \<Rightarrow> bool" where
  "hash_laws L \<longleftrightarrow> (\<forall>s h. NewHash L s = Some h \<longrightarrow> HashString L h = s) \<and>
     (\<forall>b. NewHash L (HashString L (SHA256 L b)) = Some (SHA256 L b))"

lemma touch_blobs_frame:
  "map_option cmanifests (touch_blobs now i repo bs col) = map_option cmanifests col"
  "map_option ctags (touch_blobs now i repo bs col) = map_option ctags col"
  by (induction bs arbitrary: i col)
    (auto simp: TouchBlob_def Let_def option.map_comp o_def)

lemma touch_tracks:
  assumes "touch_blobs now i repo bs (touch L col now repo target h) = Some c"
  shows "map_of (cmanifests c) (repo, h) = Some (now 4)"
    and "target \<noteq> HashString L h \<Longrightarrow> map_of (ctags c) (repo, target) = Some (now 5)"
proof -
  obtain c0 where c0: "touch L col now repo target h = Some c0"
    and "cmanifests c = cmanifests c0" "ctags c = ctags c0"
    using touch_blobs_frame [of now i repo bs "touch L col now repo target h"] assms
    by (cases "touch L col now repo target h") auto
  then show "map_of (cmanifests c) (repo, h) = Some (now 4)"
    and "target \<noteq> HashString L h \<Longrightarrow> map_of (ctags c) (repo, target) = Some (now 5)"
    by (auto simp: touch_def Let_def TouchManifest_def TouchTag_def alist_simps split: if_splits)
qed

lemma maybe_collect_keeps:
  assumes "wf_store (store st)" and "GetManifest (store st) r d = Some m"
    and "\<And>c. coll st = Some c \<Longrightarrow> manifest_root c (now 1) (r, d)"
  shows "GetManifest (store (maybe_collect L cfg now st)) r d = Some m"
  using assms by (cases rule: maybe_collect_cases [of L cfg now st])
    (auto simp: swept_manifests(1) intro: live_manifest)

lemma maybe_collect_keeps_tag:
  assumes "wf_store (store st)" and "ResolveTag (store st) r t = Some d" and "GetManifest (store st) r d = Some m"
    and "\<And>c. coll st = Some c \<Longrightarrow> tag_root c (now 1) (r, t)"
  shows "ResolveTag (store (maybe_collect L cfg now st)) r t = Some d"
  using assms by (cases rule: maybe_collect_cases [of L cfg now st]) (auto simp: swept_tags)

lemma resolve_target_held:
  assumes "GetManifest s r d = Some m"
    and "NewHash L t = Some d \<or> NewHash L t = None \<and> ResolveTag s r t = Some d"
  shows "resolve_target L s r t = Inr (d, m)"
  using assms mem.hasRepoI(1) [OF assms(1)] by (auto simp: resolve_target_def)

text \<open>Every request keeps the store well formed and every manifest under the digest of its bytes.\<close>

lemma manifests_handle_keeps_digests:
  assumes "wf_store (store st)" and "digest_keyed L (store st)"
  shows "wf_store (store (fst (manifests_handle L cfg now req st))) \<and>
    digest_keyed L (store (fst (manifests_handle L cfg now req st)))"
proof -
  let ?st = "maybe_collect L cfg now st"
  have wf: "wf_store (store ?st)" and dk: "digest_keyed L (store ?st)"
    using assms by (simp_all add: maybe_collect_wf digest_keyed_collect)
  have put: "digest_keyed L (store (fst (manifests_put L cfg now req ?st)))"
    using dk by (cases rule: manifests_put_cases [of L cfg now req ?st])
      (auto simp: digest_keyed_def Let_def put_manifest_value_def)
  have del: "digest_keyed L (store (fst (manifests_delete L cfg req ?st)))"
    using dk by (auto simp: manifests_delete_def digest_keyed_def Let_def mem.fold_delT_getM
        split: sum.splits prod.splits option.splits if_splits)
  show ?thesis
    using wf dk put del put_keeps_wf [OF wf] delete_keeps_wf [OF wf]
    by (simp add: manifests_handle_def manifests_get_store Let_def)
qed

section \<open>Properties\<close>

text \<open>
  C20. Push then pull: after a successful PUT of a manifest, a GET of the same reference (tag or
  digest) returns exactly the pushed bytes with their content type and digest, provided the entries
  the push touched are still within their TTLs when the GET's sweep runs.
\<close>

theorem put_then_get_manifest:
  assumes "wf_store (store st)" and "hash_laws L"
    and "Method putReq = ''PUT''" and "Method getReq = ''GET''" and "URLPath getReq = URLPath putReq"
    and put: "manifests_handle L cfg now putReq st = (st1, Ok resp)"
    and ttls: "\<forall>c. coll st1 = Some c \<longrightarrow> fresh (now 4) (now' 1) (ttl c) \<and> fresh (now 5) (now' 1) (tagTTL c)"
  shows "snd (manifests_handle L cfg now' getReq st1) =
    Ok \<lparr>Status = 200,
        Headers = [(''Docker-Content-Digest'', HashString L (SHA256 L (Body putReq))),
          (''Content-Type'', Header putReq ''Content-Type''), (''Content-Length'', show_nat (length (Body putReq)))],
        Payload = Body putReq\<rparr>"
proof -
  let ?h = "SHA256 L (Body putReq)" and ?r = "req_repo putReq" and ?t = "req_target putReq"
  let ?m = "put_manifest_value L putReq" and ?s0 = "maybe_collect L cfg now st"
  have same: "req_repo getReq = ?r" "req_target getReq = ?t"
    using assms(5) by (simp_all add: req_repo_def req_target_def)
  have "manifests_put L cfg now putReq ?s0 = (st1, Ok resp)"
    using put assms(3) by (simp add: manifests_handle_def)
  then show ?thesis
  proof (cases rule: manifests_put_cases [of L cfg now putReq ?s0])
    case (stored st' resp')
    note st1 = stored(1) [unfolded \<open>manifests_put L cfg now putReq ?s0 = (st1, Ok resp)\<close>]
    have get: "GetManifest (store st1) ?r ?h = Some ?m"
      and tag: "?t \<noteq> HashString L ?h \<Longrightarrow> ResolveTag (store st1) ?r ?t = Some ?h"
      using st1 stored(5) by (auto simp: Let_def)
    have wf: "wf_store (store st1)"
      using put_keeps_wf [OF maybe_collect_wf [OF assms(1)], of L cfg now putReq L cfg now] stored(1) st1 by simp
    have root: "manifest_root c (now' 1) (?r, ?h)" "?t \<noteq> HashString L ?h \<Longrightarrow> tag_root c (now' 1) (?r, ?t)"
      if "coll st1 = Some c" for c
      using that ttls st1 touch_tracks [of now 6 ?r _ L "coll ?s0" ?t ?h c] stored(6)
      by (auto simp: manifest_root_def tag_root_def)
    have "GetManifest (store (maybe_collect L cfg now' st1)) ?r ?h = Some ?m"
      by (rule maybe_collect_keeps [OF wf get]) (rule root)
    moreover have "NewHash L ?t = Some ?h \<or> NewHash L ?t = None \<and>
        ResolveTag (store (maybe_collect L cfg now' st1)) ?r ?t = Some ?h"
    proof (cases "NewHash L ?t")
      case None
      then have nt: "?t \<noteq> HashString L ?h" using assms(2) by (auto simp: hash_laws_def)
      have "ResolveTag (store (maybe_collect L cfg now' st1)) ?r ?t = Some ?h"
        by (rule maybe_collect_keeps_tag [where now = now', OF wf tag [OF nt] get]) (rule root(2) [OF _ nt])
      with None show ?thesis by simp
    next
      case (Some d)
      with stored(3) show ?thesis by simp
    qed
    ultimately have "resolve_target L (store (maybe_collect L cfg now' st1)) ?r ?t = Inr (?h, ?m)"
      by (rule resolve_target_held)
    then show ?thesis
      using assms(4) by (simp add: manifests_handle_def manifests_get_def same put_manifest_value_def Let_def)
  qed simp
qed

text \<open>
  A request that fails changes nothing: whenever the manifest endpoint replies with an error, on
  any method and any branch, the registry's state is the one the sweep before the request left.
\<close>

lemma manifests_error_no_effect:
  "manifests_handle L cfg now req st = (st', Err e) \<Longrightarrow> st' = maybe_collect L cfg now st"
  by (auto simp: manifests_handle_def manifests_get_def manifests_put_def manifests_store_def
      manifests_delete_def Let_def split: if_splits sum.splits prod.splits option.splits)

text \<open>
  C21. An index always has its children: every request except the deletion of a manifest by digest
  keeps the invariant that each distributable manifest a stored index lists is itself held, through
  the sweep, the push validation and the untagging.
\<close>

theorem manifests_handle_keeps_children:
  assumes "wf_store (store st)" and "digest_keyed L (store st)" and "children_held L (store st)"
    and "hash_laws L" and "Method req \<noteq> ''DELETE'' \<or> NewHash L (req_target req) = None"
  shows "children_held L (store (fst (manifests_handle L cfg now req st)))"
proof -
  let ?st = "maybe_collect L cfg now st"
  have ch: "children_held L (store ?st)" and dk: "digest_keyed L (store ?st)"
    using assms by (simp_all add: children_held_collect digest_keyed_collect)
  have put: "children_held L (store (fst (manifests_put L cfg now req ?st)))"
  proof (cases rule: manifests_put_cases [of L cfg now req ?st])
    case (error e)
    with ch show ?thesis by simp
  next
    case (stored st' resp)
    have new: "GetManifest (store ?st) (req_repo req) (Digest desc) \<noteq> None"
      if "Kind (put_manifest_value L req) = KindIndex"
        "ParseIndexManifest L (Blob (put_manifest_value L req)) = Inr im" "desc \<in> set (Manifests im)"
        "IsDistributable L (MediaType desc)" "is_child L desc" for im desc
      using stored(4) that
      by (auto simp: check_children_def missing_child_None simp del: not_None_eq split: option.splits)
    have "GetManifest (store st') r d = (if r = req_repo req \<and> d = SHA256 L (Body req)
        then Some (put_manifest_value L req) else GetManifest (store ?st) r d)" for r d
      using stored(5) by (simp add: Let_def)
    with new children_heldD [OF ch] show ?thesis
      unfolding stored(1) children_held_def by (auto split: if_splits)
  qed
  have del: "children_held L (store (fst (manifests_delete L cfg req ?st)))"
    if t: "NewHash L (req_target req) = None"
  proof -
    have "req_target req \<noteq> HashString L d" if "GetManifest (store ?st) r d = Some m" for r d m
    proof
      assume "req_target req = HashString L d"
      moreover have "d = SHA256 L (Blob m)" using that dk unfolding digest_keyed_def by blast
      ultimately show False using assms(4) t unfolding hash_laws_def by (metis option.distinct(1))
    qed
    with ch show ?thesis
      by (auto simp: manifests_delete_def Let_def resolve_target_def children_held_def
          split: sum.splits prod.splits option.splits if_splits)
  qed
  show ?thesis
    using ch put del assms(5) by (auto simp: manifests_handle_def manifests_get_store Let_def)
qed

text \<open>
  Deleting by digest leaves no dangling tag: after a successful DELETE whose target is the
  digest of a held manifest, the manifest is gone, no tag of the repository resolves to it, and every
  other manifest and tag is as the sweep left it.
\<close>

lemma delete_by_digest_removes_tags:
  assumes "wf_store (store st)" and "Method req = ''DELETE''"
    and "resolve_target L (store (maybe_collect L cfg now st)) (req_repo req) (req_target req) = Inr (d, m)"
    and "req_target req = HashString L d"
    and "manifests_handle L cfg now req st = (st', Ok resp)"
  shows "GetManifest (store st') r d' =
      (if r = req_repo req \<and> d' = d then None else GetManifest (store (maybe_collect L cfg now st)) r d') \<and>
    ResolveTag (store st') r t =
      (if r = req_repo req \<and> ResolveTag (store (maybe_collect L cfg now st)) r t = Some d then None
       else ResolveTag (store (maybe_collect L cfg now st)) r t)"
proof -
  let ?s = "store (maybe_collect L cfg now st)" and ?r = "req_repo req"
  let ?s1 = "DeleteManifest ?s ?r d"
  have wf: "wf_store ?s1" using maybe_collect_wf [OF assms(1)] by blast
  have "store st' = fold (\<lambda>t s. DeleteTag s ?r t) (tagsFor ?s1 ?r d) ?s1"
    using assms(2-5) by (auto simp: manifests_handle_def manifests_delete_def Let_def split: option.splits)
  then show ?thesis
    by (auto simp: mem.fold_delT_getM mem.fold_delT tagsFor_iff [OF wf])
qed

section \<open>The tag list\<close>

text \<open>All tags of a repository in order.\<close>

definition sorted_tags :: "memStore \<Rightarrow> string \<Rightarrow> string list" where
  "sorted_tags s repo = sort (map fst (tagsOf s repo))"

lemma RangeTags_names: "RangeTags s repo (\<lambda>(tag, _) ts. (ts @ [tag], True)) [] = map fst (tagsOf s repo)"
proof -
  have "fold (\<lambda>x a. fst ((\<lambda>(tag, _) ts. (ts @ [tag], True)) x a)) xs acc = acc @ map fst xs"
    for xs :: "(string \<times> hash) list" and acc
    by (induction xs arbitrary: acc) auto
  then show ?thesis by (simp add: RangeTags_def range_go_fold split_beta)
qed

lemma tags_after_sorted:
  "sorted ts \<Longrightarrow> tags_after lst ts =
     (if \<exists>t \<in> set ts. lst < t then Some (filter (\<lambda>t. lst < t) ts) else None)"
proof (induction ts)
  case (Cons a ts)
  then have "lst < a \<Longrightarrow> \<forall>t \<in> set ts. lst < t" by (auto intro: less_le_trans)
  then have "lst < a \<Longrightarrow> filter (\<lambda>t. lst < t) ts = ts" by (simp add: filter_id_conv)
  with Cons show ?case by auto
qed simp

lemma sorted_tags_props:
  assumes "wf_store s"
  shows "sorted (sorted_tags s r)" "distinct (sorted_tags s r)"
    "set (sorted_tags s r) = {t. ResolveTag s r t \<noteq> None}"
  using mem.distinct_tagsIn [OF assms, of r]
  by (auto simp: sorted_tags_def ResolveTag_def in_keys_iff [symmetric] simp del: not_None_eq)

text \<open>
  Tag listing: a GET of the tag list of a known repository returns the repository's tags sorted
  and without repetition; with a \<^verbatim>\<open>last\<close> parameter that some tag follows, exactly the tags after it,
  and with a non-negative \<^verbatim>\<open>n\<close>, the first \<^verbatim>\<open>n\<close> of those.
\<close>

lemma handleTags_pages:
  assumes "wf_store (store st)" and "Method req = ''GET''"
    and "HasRepo (store (maybe_collect L cfg now st)) (req_repo req)"
    and "all = sorted_tags (store (maybe_collect L cfg now st)) (req_repo req)"
    and "Query req ''last'' = [] \<or> (\<exists>t \<in> set all. Query req ''last'' < t)"
    and "Query req ''n'' = [] \<and> n = length all \<or> Query req ''n'' \<noteq> [] \<and> Atoi (Query req ''n'') = (int n, True)"
  shows "handleTags L cfg now req st = (maybe_collect L cfg now st,
      json_response (MarshalTags L (req_repo req)
        (take n (filter (\<lambda>t. Query req ''last'' = [] \<or> Query req ''last'' < t) all))) []) \<and>
    sorted all \<and> distinct all \<and>
    set all = {t. ResolveTag (store (maybe_collect L cfg now st)) (req_repo req) t \<noteq> None}"
proof -
  let ?s = "store (maybe_collect L cfg now st)"
  note props = sorted_tags_props [OF maybe_collect_wf [OF assms(1)], of L cfg now "req_repo req"]
  have "tags_offset (Query req ''last'') all = filter (\<lambda>t. Query req ''last'' = [] \<or> Query req ''last'' < t) all"
    using assms(5) tags_after_sorted [OF props(1)] by (auto simp: tags_offset_def assms(4))
  moreover have "length (filter P all) \<le> length all" for P by simp
  ultimately show ?thesis
    using assms(2,3,6) props
    by (auto simp: handleTags_def Let_def RangeTags_names sorted_tags_def [symmetric] assms(4) [symmetric]
        not_less min_def)
qed

text \<open>
  Paging past the end starts over: when \<^verbatim>\<open>last\<close> is not before any tag (the request a client
  makes after the last page), the endpoint lists every tag again instead of none; and a negative
  \<^verbatim>\<open>n\<close> is accepted by the parser and slices out of range.
\<close>

lemma handleTags_past_end:
  assumes "Method req = ''GET''"
    and "HasRepo (store (maybe_collect L cfg now st)) (req_repo req)"
    and "all = sorted_tags (store (maybe_collect L cfg now st)) (req_repo req)"
    and "\<forall>t \<in> set all. t \<le> Query req ''last''"
  shows "(Query req ''n'' = [] \<longrightarrow> handleTags L cfg now req st =
      (maybe_collect L cfg now st, json_response (MarshalTags L (req_repo req) all) [])) \<and>
    (Query req ''n'' \<noteq> [] \<and> snd (Atoi (Query req ''n'')) \<and> fst (Atoi (Query req ''n'')) < 0 \<longrightarrow>
      snd (handleTags L cfg now req st) = Panic)"
proof -
  have "sorted all" by (simp add: assms(3) sorted_tags_def)
  then have "tags_offset (Query req ''last'') all = all"
    using assms(4) by (auto simp: tags_offset_def tags_after_sorted not_less [symmetric])
  then show ?thesis
    using assms(1,2)
    by (auto simp: handleTags_def Let_def RangeTags_names sorted_tags_def [symmetric] assms(3) [symmetric] split_beta)
qed

end
