(* ===== verification/Registry_Blobs.thy ===== *)
theory Registry_Blobs
  imports Registry_Http
begin

text \<open>
  \<^verbatim>\<open>pkg/registry/blobs.go\<close>: the blob endpoint, one definition per HTTP method, over any blob handler
  (the record \<open>blobHandler\<close>).  Integers of the range headers are signed 64-bit values with their
  wrap-around.  The HTML body \<^verbatim>\<open>http.Redirect\<close> adds is not modelled.
\<close>

section \<open>Paths and ranges\<close>

text \<open>The elements of the path, a trailing slash dropped; \<open>None\<close> is an index out of range.\<close>

definition blob_elems :: "request \<Rightarrow> string list option" where
  "blob_elems req =
     (let elem = path_elems (URLPath req) in
      if elem = [] then None
      else Some (if last elem = [] then butlast elem else elem))"

definition isBlob :: "request \<Rightarrow> bool option" where
  "isBlob req =
     map_option (\<lambda>elem.
       if length elem < 3 then False
       else elem ! (length elem - 2) = ''blobs'' \<or>
            (elem ! (length elem - 3) = ''blobs'' \<and> elem ! (length elem - 2) = ''uploads'')) (blob_elems req)"

definition wrap64 :: "int \<Rightarrow> int" where
  "wrap64 i = (i + 2 ^ 63) mod 2 ^ 64 - 2 ^ 63"

text \<open>\<^verbatim>\<open>fmt.Sscanf\<close> of one \<^verbatim>\<open>%d\<close> and of the literal text between two of them.\<close>

definition scan_int :: "string \<Rightarrow> (int \<times> string) option" where
  "scan_int s =
     (let s1 = dropWhile (\<lambda>ch. ch = CHR '' '' \<or> ch = CHR 0x09) s;
          (neg, s2) = (case s1 of [] \<Rightarrow> (False, []) | ch # cs \<Rightarrow>
             if ch = CHR ''-'' then (True, cs) else if ch = CHR ''+'' then (False, cs) else (False, s1));
          ds = takeWhile is_digit s2;
          v = (if neg then - digits_value ds else digits_value ds)
      in if ds = [] \<or> v < - (2 ^ 63) \<or> v > 2 ^ 63 - 1 then None else Some (v, dropWhile is_digit s2))"

definition scan_lit :: "string \<Rightarrow> string \<Rightarrow> string option" where
  "scan_lit lit s = (if take (length lit) s = lit then Some (drop (length lit) s) else None)"

definition scan_range :: "string \<Rightarrow> string \<Rightarrow> (int \<times> int) option" where
  "scan_range prefix s =
     (case scan_lit prefix s of None \<Rightarrow> None | Some s1 \<Rightarrow>
      case scan_int s1 of None \<Rightarrow> None | Some (a, s2) \<Rightarrow>
      case scan_lit ''-'' s2 of None \<Rightarrow> None | Some s3 \<Rightarrow>
      case scan_int s3 of None \<Rightarrow> None | Some (b, _) \<Rightarrow> Some (a, b))"

text \<open>What copying an \<^verbatim>\<open>io.SectionReader\<close> over \<open>x\<close> from \<open>off\<close> with length \<open>n\<close> yields.\<close>

definition section_bytes :: "bytes \<Rightarrow> int \<Rightarrow> int \<Rightarrow> bytes" where
  "section_bytes x off n =
     (let lim = (if off \<le> wrap64 (2 ^ 63 - 1 - n) then wrap64 (n + off) else 2 ^ 63 - 1)
      in if off < 0 \<or> lim \<le> off then [] else take (nat (lim - off)) (drop (nat off) x))"

section \<open>HEAD and GET\<close>

definition err_text :: "blobErr \<Rightarrow> string" where
  "err_text e = (case e of ErrNotFound \<Rightarrow> ''not found'' | RedirectError l cd \<Rightarrow> ''redirecting ('' @ show_nat cd @ ''): '' @ l
     | VerifyError \<Rightarrow> ''error verifying checksum'' | OtherError s \<Rightarrow> s)"

definition blob_failure :: "blobErr \<Rightarrow> reply" where
  "blob_failure e =
     (case e of
        ErrNotFound \<Rightarrow> Err regErrBlobUnknown
      | RedirectError loc cd \<Rightarrow> Ok \<lparr>Status = cd, Headers = [(''Location'', loc)], Payload = []\<rparr>
      | _ \<Rightarrow> Err (regErrInternal (err_text e)))"

definition blobs_head ::
    "lib \<Rightarrow> 'b registryConfig \<Rightarrow> (nat \<Rightarrow> gotime) \<Rightarrow> string \<Rightarrow> string \<Rightarrow> 'b registryState \<Rightarrow> 'b registryState \<times> reply" where
  "blobs_head L cfg now repo target st =
     (case NewHash L target of
        None \<Rightarrow> (st, Err regErrDigestInvalid)
      | Some h \<Rightarrow>
          (case (case bhStat (handler cfg) of
                   Some stat \<Rightarrow> stat (blobState st) repo h
                 | None \<Rightarrow> map_sum id (int \<circ> length) (bhGet (handler cfg) (blobState st) repo h)) of
             Inl e \<Rightarrow> (st, blob_failure e)
           | Inr sz \<Rightarrow>
               (st\<lparr>coll := TouchBlob (coll st) (now 0) repo h sz\<rparr>,
                Ok \<lparr>Status = 200, Headers = [(''Content-Length'', show_int sz),
                     (''Docker-Content-Digest'', HashString L h)], Payload = []\<rparr>)))"

text \<open>\<open>blob_open\<close>: the size, the contents and whether the reader supports random access.\<close>

definition blob_open :: "'b registryConfig \<Rightarrow> 'b \<Rightarrow> string \<Rightarrow> hash \<Rightarrow> blobErr + (int \<times> bytes \<times> bool)" where
  "blob_open cfg b repo h =
     (case bhStat (handler cfg) of
        Some stat \<Rightarrow>
          (case stat b repo h of
             Inl e \<Rightarrow> Inl e
           | Inr sz \<Rightarrow>
               (case bhGet (handler cfg) b repo h of
                  Inl e \<Rightarrow> Inl e
                | Inr x \<Rightarrow> Inr (sz, x, bhReaderAt (handler cfg))))
      | None \<Rightarrow>
          (case bhGet (handler cfg) b repo h of
             Inl e \<Rightarrow> Inl e
           | Inr x \<Rightarrow> Inr (int (length x), x, False)))"

definition errRange :: "string \<Rightarrow> regError" where
  "errRange msg = reg_error 416 ''BLOB_UNKNOWN'' msg"

definition range_body :: "int \<Rightarrow> bytes \<Rightarrow> bool \<Rightarrow> int \<Rightarrow> int \<Rightarrow> regError + bytes" where
  "range_body sz x readerAt start stop =
     (let n = wrap64 (wrap64 (stop + 1) - start) in
      if readerAt then
        if wrap64 (stop + 1) > sz then Inl (errRange (''range end '' @ show_int (wrap64 (stop + 1)) @ '' > '' @ show_int sz @ '' size''))
        else Inr (section_bytes x start n)
      else if start > int (length x) then Inl (errRange (''Failed to discard '' @ show_int start @ '' bytes''))
      else Inr (take (nat n) (drop (nat start) x)))"

definition blobs_get ::
    "lib \<Rightarrow> 'b registryConfig \<Rightarrow> (nat \<Rightarrow> gotime) \<Rightarrow> string \<Rightarrow> string \<Rightarrow> string \<Rightarrow> 'b registryState \<Rightarrow> 'b registryState \<times> reply" where
  "blobs_get L cfg now repo target rangeHeader st =
     (case NewHash L target of
        None \<Rightarrow> (st, Err regErrDigestInvalid)
      | Some h \<Rightarrow>
          (case blob_open cfg (blobState st) repo h of
             Inl e \<Rightarrow> (st, blob_failure e)
           | Inr (sz, x, readerAt) \<Rightarrow>
               let st' = st\<lparr>coll := TouchBlob (coll st) (now 0) repo h sz\<rparr> in
               if rangeHeader \<noteq> [] then
                 (case scan_range ''bytes='' rangeHeader of
                    None \<Rightarrow> (st, Err (errRange (''We don'' @ [CHR 0x27] @ ''t understand your Range'')))
                  | Some (start, stop) \<Rightarrow>
                      (case range_body sz x readerAt start stop of
                         Inl e \<Rightarrow> (st, Err e)
                       | Inr body \<Rightarrow>
                           (st', Ok \<lparr>Status = 206,
                              Headers = [(''Content-Range'', ''bytes '' @ show_int start @ ''-'' @ show_int stop @ ''/'' @ show_int sz),
                                (''Content-Length'', show_int (wrap64 (wrap64 (stop + 1) - start))),
                                (''Docker-Content-Digest'', HashString L h)],
                              Payload = body\<rparr>)))
               else (st', Ok \<lparr>Status = 200, Headers = [(''Content-Length'', show_int sz),
                       (''Docker-Content-Digest'', HashString L h)], Payload = x\<rparr>)))"

section \<open>Uploads\<close>

definition put_failure :: "blobErr \<Rightarrow> reply" where
  "put_failure e =
     (case e of VerifyError \<Rightarrow> Err regErrDigestMismatch | _ \<Rightarrow> Err (regErrInternal (err_text e)))"

text \<open>
  The common end of a monolithic POST and of a PUT: the handler stores the verified stream; on
  success the callback runs, the collector is told, and \<open>fin\<close> finishes the state.
\<close>

definition store_blob ::
    "lib \<Rightarrow> (nat \<Rightarrow> gotime) \<Rightarrow> ('b \<Rightarrow> string \<Rightarrow> hash \<Rightarrow> blobErr + bytes \<Rightarrow> blobErr option \<times> 'b) \<Rightarrow>
     string \<Rightarrow> hash \<Rightarrow> bytes \<Rightarrow> int \<Rightarrow> ('b registryState \<Rightarrow> 'b registryState) \<Rightarrow> 'b registryState \<Rightarrow> 'b registryState \<times> reply" where
  "store_blob L now put repo h input sz fin st =
     (case verify_ReadCloser L input sz h of
        Inl err \<Rightarrow> (st, Err (regErrInternal err))
      | Inr vrc \<Rightarrow>
          (case put (blobState st) repo h vrc of
             (Some e, b) \<Rightarrow> (st\<lparr>blobState := b\<rparr>, put_failure e)
           | (None, b) \<Rightarrow>
               (let st1 = fin (st\<lparr>blobState := b\<rparr>);
                    st2 = st1\<lparr>created := created st1 @ [(repo, h)], coll := TouchBlob (coll st1) (now 0) repo h sz\<rparr>
                in (st2, Ok \<lparr>Status = 201, Headers = [(''Docker-Content-Digest'', HashString L h)], Payload = []\<rparr>))))"

definition blobs_post ::
    "lib \<Rightarrow> 'b registryConfig \<Rightarrow> (nat \<Rightarrow> gotime) \<Rightarrow> nat \<Rightarrow> string list \<Rightarrow> string \<Rightarrow> request \<Rightarrow> 'b registryState \<Rightarrow> 'b registryState \<times> reply" where
  "blobs_post L cfg now rnd elem repo req st =
     (case bhPut (handler cfg) of
        None \<Rightarrow> (st, Err regErrUnsupported)
      | Some put \<Rightarrow>
          if last elem \<noteq> ''uploads'' then
            (st, Err (reg_error 400 ''METHOD_UNKNOWN'' (''POST to /blobs must be followed by /uploads, got '' @ last elem)))
          else if Query req ''digest'' \<noteq> [] then
            (case NewHash L (Query req ''digest'') of
               None \<Rightarrow> (st, Err regErrDigestInvalid)
             | Some h \<Rightarrow> store_blob L now put repo h (Body req) (ContentLength req) id st)
          else
            (st, Ok \<lparr>Status = 202,
               Headers = [(''Location'', ''/'' @ path_Join (''v2'' # slice 1 (length elem - 2) elem
                     @ [''blobs'', ''uploads'', show_nat rnd])),
                 (''Range'', ''0-0'')], Payload = []\<rparr>))"

definition upload_accepted :: "string list \<Rightarrow> string \<Rightarrow> bytes \<Rightarrow> reply" where
  "upload_accepted elem target content =
     Ok \<lparr>Status = 202,
        Headers = [(''Location'', ''/'' @ path_Join (''v2'' # slice 1 (length elem - 3) elem
              @ [''blobs'', ''uploads'', target])),
          (''Range'', ''0-'' @ show_int (int (length content) - 1))],
        Payload = []\<rparr>"

definition errUpload :: "string \<Rightarrow> regError" where
  "errUpload msg = reg_error 416 ''BLOB_UPLOAD_UNKNOWN'' msg"

definition blobs_patch :: "string list \<Rightarrow> string \<Rightarrow> string \<Rightarrow> request \<Rightarrow> 'b registryState \<Rightarrow> 'b registryState \<times> reply" where
  "blobs_patch elem service target req st =
     (if service \<noteq> ''uploads'' then
        (st, Err (reg_error 400 ''METHOD_UNKNOWN'' (''PATCH to /blobs must be followed by /uploads, got '' @ service)))
      else if Header req ''Content-Range'' \<noteq> [] then
        (case scan_range [] (Header req ''Content-Range'') of
           None \<Rightarrow> (st, Err (errUpload (''We don'' @ [CHR 0x27] @ ''t understand your Content-Range'')))
         | Some (start, _) \<Rightarrow>
             if start \<noteq> int (length (inner (uploads st) target)) then
               (st, Err (errUpload (''Your content range doesn'' @ [CHR 0x27] @ ''t match what we have'')))
             else
               let l = inner (uploads st) target @ Body req
               in (st\<lparr>uploads := AList.update target l (uploads st)\<rparr>, upload_accepted elem target l))
      else if map_of (uploads st) target \<noteq> None then
        (st, Err (reg_error 400 ''BLOB_UPLOAD_INVALID'' ''Stream uploads after first write are not allowed''))
      else (st\<lparr>uploads := AList.update target (Body req) (uploads st)\<rparr>, upload_accepted elem target (Body req)))"

definition blobs_put ::
    "lib \<Rightarrow> 'b registryConfig \<Rightarrow> (nat \<Rightarrow> gotime) \<Rightarrow> string \<Rightarrow> string \<Rightarrow> string \<Rightarrow> request \<Rightarrow> 'b registryState \<Rightarrow> 'b registryState \<times> reply" where
  "blobs_put L cfg now service target repo req st =
     (case bhPut (handler cfg) of
        None \<Rightarrow> (st, Err regErrUnsupported)
      | Some put \<Rightarrow>
          if service \<noteq> ''uploads'' then
            (st, Err (reg_error 400 ''METHOD_UNKNOWN'' (''PUT to /blobs must be followed by /uploads, got '' @ service)))
          else if Query req ''digest'' = [] then
            (st, Err (reg_error 400 ''DIGEST_INVALID'' ''digest not specified''))
          else
            (case NewHash L (Query req ''digest'') of
               None \<Rightarrow> (st, Err regErrDigestInvalid)
             | Some h \<Rightarrow>
                 (let pending = inner (uploads st) target;
                      sz = (if ContentLength req > 0 then int (length pending) + ContentLength req else SizeUnknown)
                  in store_blob L now put repo h (pending @ Body req) sz
                       (\<lambda>s. s\<lparr>uploads := AList.delete target (uploads s)\<rparr>) st)))"

definition blobs_delete :: "lib \<Rightarrow> 'b registryConfig \<Rightarrow> string \<Rightarrow> string \<Rightarrow> 'b registryState \<Rightarrow> 'b registryState \<times> reply" where
  "blobs_delete L cfg repo target st =
     (case bhDelete (handler cfg) of
        None \<Rightarrow> (st, Err regErrUnsupported)
      | Some del \<Rightarrow>
          (case NewHash L target of
             None \<Rightarrow> (st, Err regErrDigestInvalid)
           | Some h \<Rightarrow>
               (case del (blobState st) repo h of
                  (Some e, b) \<Rightarrow> (st\<lparr>blobState := b\<rparr>, Err (regErrInternal (err_text e)))
                | (None, b) \<Rightarrow>
                    (st\<lparr>blobState := b, coll := ForgetBlob (coll st) h, deleted := deleted st @ [(repo, h)]\<rparr>,
                     Ok \<lparr>Status = 202, Headers = [], Payload = []\<rparr>))))"

text \<open>\<open>rnd\<close> is the value of \<^verbatim>\<open>rand.Int63()\<close> should the request need one.\<close>

definition blobs_handle ::
    "lib \<Rightarrow> 'b registryConfig \<Rightarrow> (nat \<Rightarrow> gotime) \<Rightarrow> nat \<Rightarrow> request \<Rightarrow> 'b registryState \<Rightarrow> 'b registryState \<times> reply" where
  "blobs_handle L cfg now rnd req st =
     (case blob_elems req of
        None \<Rightarrow> (st, Panic)
      | Some elem \<Rightarrow>
          if length elem < 4 then (st, Err (reg_error 400 ''NAME_INVALID'' ''blobs must be attached to a repo''))
          else
            let target = last elem; service = elem ! (length elem - 2);
                repo = URLHost req @ path_Join (slice 1 (length elem - 2) elem)
            in if Method req = ''HEAD'' then blobs_head L cfg now repo target st
               else if Method req = ''GET'' then blobs_get L cfg now repo target (Header req ''Range'') st
               else if Method req = ''POST'' then blobs_post L cfg now rnd elem repo req st
               else if Method req = ''PATCH'' then blobs_patch elem service target req st
               else if Method req = ''PUT'' then blobs_put L cfg now service target repo req st
               else if Method req = ''DELETE'' then blobs_delete L cfg repo target st
               else (st, Err errMethodUnknown))"

section \<open>Range arithmetic\<close>

lemma wrap64_id [simp]: "- (2 ^ 63) \<le> i \<Longrightarrow> i < 2 ^ 63 \<Longrightarrow> wrap64 i = i"
  by (simp add: wrap64_def)

lemma section_bytes_exact:
  assumes "0 \<le> off" and "0 < n" and "n + off \<le> int (length x)" and "int (length x) < 2 ^ 63"
  shows "section_bytes x off n = take (nat n) (drop (nat off) x)"
proof -
  have w: "wrap64 (2 ^ 63 - 1 - n) = 2 ^ 63 - 1 - n" "wrap64 (n + off) = n + off"
    by (rule wrap64_id; use assms in linarith)+
  have "off \<le> 2 ^ 63 - 1 - n" "\<not> off < 0" "\<not> n + off \<le> off" "n + off - off = n"
    using assms by linarith+
  then show ?thesis by (simp only: section_bytes_def Let_def w if_True if_False simp_thms)
qed

lemma range_body_exact:
  assumes "0 \<le> start" and "start \<le> stop" and "stop < int (length x)" and "int (length x) < 2 ^ 63"
  shows "range_body (int (length x)) x True start stop = Inr (slice (nat start) (nat stop + 1) x)"
proof -
  have w: "wrap64 (stop + 1) = stop + 1" "wrap64 (stop + 1 - start) = stop + 1 - start"
    by (rule wrap64_id; use assms in linarith)+
  have "section_bytes x start (stop + 1 - start) = take (nat (stop + 1 - start)) (drop (nat start) x)"
    by (rule section_bytes_exact) (use assms in linarith)+
  moreover have "nat (stop + 1 - start) = nat stop + 1 - nat start"
    using assms by linarith
  ultimately have sec: "section_bytes x start (stop + 1 - start) = slice (nat start) (nat stop + 1) x"
    by (simp add: slice_def)
  have "\<not> stop + 1 > int (length x)" using assms by linarith
  then show ?thesis by (simp only: range_body_def Let_def w sec if_True if_False)
qed

section \<open>Stored content\<close>

text \<open>Every blob in memory is stored under the digest of its bytes.\<close>

definition blobs_verified :: "lib \<Rightarrow> memBlobs \<Rightarrow> bool" where
  "blobs_verified L m \<longleftrightarrow>
     (\<forall>k b. map_of m k = Some b \<longrightarrow>
        (\<exists>h w. NewHash L k = Some h \<and> Hasher L (Algorithm h) = Some w \<and> w b = Hex h))"

lemma blobs_verified_update:
  "blobs_verified L m \<Longrightarrow> NewHash L k = Some h \<Longrightarrow> Hasher L (Algorithm h) = Some w \<Longrightarrow> w b = Hex h \<Longrightarrow>
   blobs_verified L (AList.update k b m)"
  by (auto simp: blobs_verified_def alist_simps)

lemma blobs_verified_delete: "blobs_verified L m \<Longrightarrow> blobs_verified L (AList.delete k m)"
  by (auto simp: blobs_verified_def alist_simps)

lemma mem_Delete_verified: "blobs_verified L m \<Longrightarrow> blobs_verified L (snd (mem_Delete L m r h))"
  by (auto simp: mem_Delete_def blobs_verified_delete split: option.splits)

lemma fold_Delete_verified:
  "blobs_verified L m \<Longrightarrow> blobs_verified L (foldl (\<lambda>b lb. snd (mem_Delete L b (Repo lb) (lbDigest lb))) m dead)"
  by (induction dead arbitrary: m) (simp_all add: mem_Delete_verified)

lemma mem_handler_sel [simp]:
  "bhPut (memHandler L) = Some (mem_Put L)" "bhDelete (memHandler L) = Some (mem_Delete L)"
  "bhStat (memHandler L) = Some (mem_Stat L)" "bhGet (memHandler L) = mem_Get L"
  "bhReaderAt (memHandler L)"
  by (simp_all add: memHandler_def)

lemma prune_verified:
  "handler cfg = memHandler L \<Longrightarrow> blobs_verified L m \<Longrightarrow> blobs_verified L (prune_blobs cfg dead m)"
  by (simp add: prune_blobs_def fold_Delete_verified)

text \<open>Storing through the verified reader: success stores the verified bytes, failure nothing.\<close>

lemma store_blob_mem:
  assumes "store_blob L now (mem_Put L) repo h input sz fin st = (st', rep)"
  obtains (stored) w b where "Hasher L (Algorithm h) = Some w" "verify_read w input sz h = Inr b"
      "st' = (let st1 = fin (st\<lparr>blobState := AList.update (HashString L h) b (blobState st)\<rparr>)
              in st1\<lparr>created := created st1 @ [(repo, h)], coll := TouchBlob (coll st1) (now 0) repo h sz\<rparr>)"
      "rep = Ok \<lparr>Status = 201, Headers = [(''Docker-Content-Digest'', HashString L h)], Payload = []\<rparr>"
  | (failed) e where "st' = st" "rep = Err e"
  using assms
  by (auto simp: store_blob_def verify_ReadCloser_def mem_Put_def put_failure_def Let_def
      split: option.splits sum.splits blobErr.splits)

text \<open>What a blob request may do to the blob store; the manifests are never touched.\<close>

definition blob_effect :: "lib \<Rightarrow> memBlobs registryState \<Rightarrow> memBlobs registryState \<Rightarrow> reply \<Rightarrow> bool" where
  "blob_effect L st st' rep \<longleftrightarrow>
     store st' = store st \<and>
     (case rep of Err e \<Rightarrow> st' = st | Panic \<Rightarrow> st' = st | Ok _ \<Rightarrow>
        blobState st' = blobState st \<or>
        (\<exists>k h w b. NewHash L k = Some h \<and> Hasher L (Algorithm h) = Some w \<and> w b = Hex h \<and>
           blobState st' = AList.update (HashString L h) b (blobState st)) \<or>
        (\<exists>h. blobState st' = AList.delete (HashString L h) (blobState st)))"

lemma blob_effect_same [intro]: "blob_effect L st st rep"
  by (simp add: blob_effect_def split: reply.splits)

lemma blob_effect_coll: "blob_effect L st (st\<lparr>coll := c\<rparr>) (Ok r)"
  by (simp add: blob_effect_def)

lemma store_blob_effect:
  assumes "\<And>s. blobState (fin s) = blobState s" "\<And>s. store (fin s) = store s" "NewHash L k = Some h"
    and "store_blob L now (mem_Put L) repo h input sz fin st = (st', rep)"
  shows "blob_effect L st st' rep"
  using assms(4)
proof (cases rule: store_blob_mem)
  case (stored w b)
  then show ?thesis
    using assms(1-3) verify_read_content [of w input sz h b] by (auto simp: blob_effect_def Let_def)
next
  case (failed e)
  then show ?thesis by auto
qed

lemma blobs_head_effect: "blobs_head L cfg now repo target st = (st', rep) \<Longrightarrow> blob_effect L st st' rep"
  by (auto simp: blobs_head_def blob_effect_coll split: option.splits sum.splits)

lemma blobs_get_effect: "blobs_get L cfg now repo target rg st = (st', rep) \<Longrightarrow> blob_effect L st st' rep"
  by (auto simp: blobs_get_def blob_effect_coll blob_effect_same Let_def split: option.splits sum.splits if_splits)

lemma blobs_post_effect:
  "handler cfg = memHandler L \<Longrightarrow> blobs_post L cfg now rnd elem repo req st = (st', rep) \<Longrightarrow> blob_effect L st st' rep"
  by (auto simp: blobs_post_def split: option.splits if_splits intro: store_blob_effect [where fin = id])

lemma blobs_patch_effect: "blobs_patch elem service target req st = (st', rep) \<Longrightarrow> blob_effect L st st' rep"
  by (auto simp: blobs_patch_def upload_accepted_def blob_effect_def Let_def
      split: option.splits if_splits)

lemma blobs_put_effect:
  "handler cfg = memHandler L \<Longrightarrow> blobs_put L cfg now service target repo req st = (st', rep) \<Longrightarrow> blob_effect L st st' rep"
  by (auto simp: blobs_put_def Let_def split: option.splits if_splits
      elim!: store_blob_effect [rotated 3])

lemma blobs_delete_effect:
  "handler cfg = memHandler L \<Longrightarrow> blobs_delete L cfg repo target st = (st', rep) \<Longrightarrow> blob_effect L st st' rep"
  by (auto simp: blobs_delete_def mem_Delete_def blob_effect_def split: option.splits)

lemma blobs_handle_effect:
  assumes "handler cfg = memHandler L" and "blobs_handle L cfg now rnd req st = (st', rep)"
  shows "blob_effect L st st' rep"
  using assms(2)
  by (auto simp: blobs_handle_def Let_def split: option.splits if_splits
      dest: blobs_head_effect blobs_get_effect blobs_post_effect [OF assms(1)] blobs_patch_effect
        blobs_put_effect [OF assms(1)] blobs_delete_effect [OF assms(1)])

lemma blobs_handle_keeps_content:
  assumes "handler cfg = memHandler L" and "\<And>k h. NewHash L k = Some h \<Longrightarrow> HashString L h = k"
    and "blobs_verified L (blobState st)" and "blobs_handle L cfg now rnd req st = (st', rep)"
  shows "blobs_verified L (blobState st')" and "store st' = store st"
  using blobs_handle_effect [OF assms(1,4)] assms(2,3)
  by (auto simp: blob_effect_def blobs_verified_delete split: reply.splits)
    (metis blobs_verified_update)

lemma maybe_collect_keeps_content:
  "handler cfg = memHandler L \<Longrightarrow> blobs_verified L (blobState st) \<Longrightarrow>
   blobs_verified L (blobState (maybe_collect L cfg now st))"
  by (simp add: maybe_collect_def split_beta Let_def prune_verified)

section \<open>Chunked uploads\<close>

text \<open>A sequence of requests, each with the clock readings and the random number it sees.\<close>

definition blobs_run ::
    "lib \<Rightarrow> 'b registryConfig \<Rightarrow> ((nat \<Rightarrow> gotime) \<times> nat \<times> request) list \<Rightarrow> 'b registryState \<Rightarrow> 'b registryState" where
  "blobs_run L cfg reqs st = foldl (\<lambda>st (now, rnd, req). fst (blobs_handle L cfg now rnd req st)) st reqs"

text \<open>The requests carry consecutive chunks to one upload, starting at byte \<open>off\<close>.\<close>

fun chunks_to :: "string \<Rightarrow> nat \<Rightarrow> request list \<Rightarrow> bool" where
  "chunks_to target off [] = True"
| "chunks_to target off (r # rs) =
     (Method r = ''PATCH'' \<and>
      (case blob_elems r of None \<Rightarrow> False | Some elem \<Rightarrow>
         4 \<le> length elem \<and> elem ! (length elem - 2) = ''uploads'' \<and> last elem = target) \<and>
      Header r ''Content-Range'' \<noteq> [] \<and>
      map_option fst (scan_range [] (Header r ''Content-Range'')) = Some (int off) \<and>
      chunks_to target (off + length (Body r)) rs)"

lemma blobs_handle_patch:
  assumes "chunks_to target (length (inner (uploads st) target)) (r # rs)"
  shows "blobs_handle L cfg now rnd r st =
     (st\<lparr>uploads := AList.update target (inner (uploads st) target @ Body r) (uploads st)\<rparr>,
      upload_accepted (the (blob_elems r)) target (inner (uploads st) target @ Body r))"
  using assms by (auto simp: blobs_handle_def blobs_patch_def Let_def split: option.splits)

lemma blobs_run_chunks:
  assumes "chunks_to target (length (inner (uploads st) target)) (map (\<lambda>x. snd (snd x)) reqs)"
  shows "inner (uploads (blobs_run L cfg reqs st)) target =
      inner (uploads st) target @ concat (map (\<lambda>x. Body (snd (snd x))) reqs) \<and>
    blobState (blobs_run L cfg reqs st) = blobState st"
  using assms
proof (induction reqs arbitrary: st)
  case (Cons x reqs)
  obtain now rnd r where x: "x = (now, rnd, r)" by (cases x)
  let ?st = "st\<lparr>uploads := AList.update target (inner (uploads st) target @ Body r) (uploads st)\<rparr>"
  have "fst (blobs_handle L cfg now rnd r st) = ?st"
    using Cons.prems x by (subst blobs_handle_patch [where rs = "map (\<lambda>x. snd (snd x)) reqs"]) auto
  then have "blobs_run L cfg (x # reqs) st = blobs_run L cfg reqs ?st"
    by (simp add: blobs_run_def x)
  moreover have "chunks_to target (length (inner (uploads ?st) target)) (map (\<lambda>x. snd (snd x)) reqs)"
    using Cons.prems x by simp
  ultimately show ?case using Cons.IH [of ?st] x by simp
qed (simp add: blobs_run_def)

lemma verify_read_ok:
  assumes "w b = Hex h" and "sz = SizeUnknown \<or> sz = int (length b)"
  shows "verify_read w b sz h = Inr b"
  using assms by (auto simp: verify_read_def SizeUnknown_def)

lemma blobs_get_full:
  assumes "handler cfg = memHandler L" and "NewHash L target = Some h"
    and "map_of (blobState st) (HashString L h) = Some x"
  shows "blobs_get L cfg now repo target [] st =
    (st\<lparr>coll := TouchBlob (coll st) (now 0) repo h (int (length x))\<rparr>,
     Ok \<lparr>Status = 200, Headers = [(''Content-Length'', show_int (int (length x))),
           (''Docker-Content-Digest'', HashString L h)], Payload = x\<rparr>)"
  using assms by (simp add: blobs_get_def blob_open_def mem_Stat_def mem_Get_def Let_def)

text \<open>A request for the blob \<open>h\<close>, and the closing PUT of the upload \<open>target\<close>.\<close>

definition addresses :: "lib \<Rightarrow> request \<Rightarrow> hash \<Rightarrow> bool" where
  "addresses L req h \<longleftrightarrow> (case blob_elems req of None \<Rightarrow> False | Some elem \<Rightarrow>
     4 \<le> length elem \<and> NewHash L (last elem) = Some h)"

definition closes_upload :: "lib \<Rightarrow> request \<Rightarrow> string \<Rightarrow> hash \<Rightarrow> bool" where
  "closes_upload L req target h \<longleftrightarrow> Method req = ''PUT'' \<and>
     (case blob_elems req of None \<Rightarrow> False | Some elem \<Rightarrow>
        4 \<le> length elem \<and> elem ! (length elem - 2) = ''uploads'' \<and> last elem = target) \<and>
     Query req ''digest'' \<noteq> [] \<and> NewHash L (Query req ''digest'') = Some h \<and>
     (ContentLength req \<le> 0 \<or> ContentLength req = int (length (Body req)))"

lemma closing_put:
  assumes "handler cfg = memHandler L" and "closes_upload L req target h"
    and "Hasher L (Algorithm h) = Some w" and "w (inner (uploads st) target @ Body req) = Hex h"
    and "blobs_handle L cfg now rnd req st = (st', rep)"
  shows "rep = Ok \<lparr>Status = 201, Headers = [(''Docker-Content-Digest'', HashString L h)], Payload = []\<rparr> \<and>
    map_of (uploads st') target = None \<and>
    map_of (blobState st') (HashString L h) = Some (inner (uploads st) target @ Body req)"
proof -
  let ?b = "inner (uploads st) target @ Body req"
  let ?sz = "if ContentLength req > 0 then int (length (inner (uploads st) target)) + ContentLength req else SizeUnknown"
  have "?sz = SizeUnknown \<or> ?sz = int (length ?b)"
    using assms(2) by (auto simp: closes_upload_def)
  then have "verify_read w ?b ?sz h = Inr ?b"
    by (intro verify_read_ok assms(4)) simp_all
  then show ?thesis
    using assms by (auto simp: closes_upload_def blobs_handle_def blobs_put_def store_blob_def
        verify_ReadCloser_def mem_Put_def Let_def alist_simps split: option.splits)
qed

section \<open>Properties\<close>

text \<open>
  A failed blob request changes nothing: on every branch that replies with an error (bad
  digest, missing blob, failed verification, refused range, wrong method), blobs, pending uploads,
  manifests, notifications and the collector's records are as before.
\<close>

lemma blobs_error_no_effect:
  assumes "handler cfg = memHandler L" and "blobs_handle L cfg now rnd req st = (st', Err e)"
  shows "st' = st"
  using blobs_handle_effect [OF assms] by (simp add: blob_effect_def)

text \<open>
  C22. Chunked upload round trip: PATCHing consecutive chunks to a fresh upload and closing it with a
  PUT that names the digest of the concatenation succeeds, drops the upload, and a following GET of
  the digest returns the concatenated bytes.
\<close>

theorem chunked_upload_roundtrip:
  assumes "handler cfg = memHandler L" and "inner (uploads st) target = []"
    and "chunks_to target 0 (map (\<lambda>x. snd (snd x)) reqs)"
    and "content = concat (map (\<lambda>x. Body (snd (snd x))) reqs) @ Body putReq"
    and "closes_upload L putReq target h" and "Hasher L (Algorithm h) = Some w" and "w content = Hex h"
    and "blobs_handle L cfg now rnd putReq (blobs_run L cfg reqs st) = (st', rep)"
    and "Method getReq = ''GET''" and "Header getReq ''Range'' = []" and "addresses L getReq h"
  shows "rep = Ok \<lparr>Status = 201, Headers = [(''Docker-Content-Digest'', HashString L h)], Payload = []\<rparr> \<and>
    map_of (uploads st') target = None \<and>
    snd (blobs_handle L cfg now' rnd' getReq st') =
      Ok \<lparr>Status = 200, Headers = [(''Content-Length'', show_int (int (length content))),
            (''Docker-Content-Digest'', HashString L h)], Payload = content\<rparr>"
proof -
  have "inner (uploads (blobs_run L cfg reqs st)) target @ Body putReq = content"
    using blobs_run_chunks [of target st reqs L cfg] assms(2-4) by simp
  with closing_put [OF assms(1,5,6) _ assms(8)] assms(7)
  have "rep = Ok \<lparr>Status = 201, Headers = [(''Docker-Content-Digest'', HashString L h)], Payload = []\<rparr>"
    and "map_of (uploads st') target = None" and x: "map_of (blobState st') (HashString L h) = Some content"
    by simp_all
  moreover have "snd (blobs_handle L cfg now' rnd' getReq st') =
      Ok \<lparr>Status = 200, Headers = [(''Content-Length'', show_int (int (length content))),
            (''Docker-Content-Digest'', HashString L h)], Payload = content\<rparr>"
    using assms(9-11) by (auto simp: addresses_def blobs_handle_def Let_def
        blobs_get_full [OF assms(1) _ x] split: option.splits)
  ultimately show ?thesis by simp
qed

text \<open>
  Range requests: a GET for a range inside a stored blob replies 206 with exactly those bytes
  and their length; a range whose last byte is past the end is refused with 416.
\<close>

lemma blobs_get_range:
  assumes "handler cfg = memHandler L" and "NewHash L target = Some h"
    and "map_of (blobState st) (HashString L h) = Some x" and "int (length x) < 2 ^ 63"
    and "rg \<noteq> []" and "scan_range ''bytes='' rg = Some (start, stop)"
    and "0 \<le> start" and "start \<le> stop" and "stop < 2 ^ 63 - 1"
  shows "snd (blobs_get L cfg now repo target rg st) =
    (if stop < int (length x) then
       Ok \<lparr>Status = 206,
         Headers = [(''Content-Range'', ''bytes '' @ show_int start @ ''-'' @ show_int stop @ ''/'' @ show_int (int (length x))),
           (''Content-Length'', show_int (stop + 1 - start)), (''Docker-Content-Digest'', HashString L h)],
         Payload = slice (nat start) (nat stop + 1) x\<rparr>
     else Err (errRange (''range end '' @ show_int (stop + 1) @ '' > '' @ show_int (int (length x)) @ '' size'')))"
proof -
  have w: "wrap64 (stop + 1) = stop + 1" "wrap64 (stop + 1 - start) = stop + 1 - start"
    by (rule wrap64_id; use assms in linarith)+
  have open_ok: "blob_open cfg (blobState st) repo h = Inr (int (length x), x, True)"
    using assms(1,3) by (simp add: blob_open_def mem_Stat_def mem_Get_def)
  have past: "range_body (int (length x)) x True start stop =
      Inl (errRange (''range end '' @ show_int (stop + 1) @ '' > '' @ show_int (int (length x)) @ '' size''))"
    if "\<not> stop < int (length x)"
    using that by (simp add: range_body_def w Let_def)
  show ?thesis
    using past range_body_exact [OF assms(7,8) _ assms(4)]
    by (simp add: blobs_get_def assms(2,5,6) open_ok w Let_def)
qed

end
