(* ===== verification/Registry_Server.thy ===== *)
theory Registry_Server
  imports Registry_Manifests Registry_Blobs
begin

text \<open>
  \<^verbatim>\<open>pkg/registry/registry.go\<close>: the dispatch of a request to the endpoints, the construction of a
  registry from its options, and the registry as a state machine that serves one request after the
  other.  The \<^verbatim>\<open>Warning\<close> headers of \<^verbatim>\<open>WithWarning\<close> (random, and without effect on the state) and the
  log are not modelled.  Requests are served one at a time, as the locks of the stores serialise
  their critical sections.
\<close>

section \<open>Dispatch\<close>

definition v2 ::
    "lib \<Rightarrow> 'b registryConfig \<Rightarrow> (nat \<Rightarrow> gotime) \<Rightarrow> nat \<Rightarrow> request \<Rightarrow> 'b registryState \<Rightarrow> 'b registryState \<times> reply" where
  "v2 L cfg now rnd req st =
     (case isBlob req of
        None \<Rightarrow> (st, Panic)
      | Some True \<Rightarrow> blobs_handle L cfg now rnd req st
      | Some False \<Rightarrow>
          if isManifest req then manifests_handle L cfg now req st
          else if isTags req then handleTags L cfg now req st
          else if isCatalog req then handleCatalog L cfg now req st
          else if referrersEnabled cfg \<and> isReferrers req then handleReferrers L cfg now req st
          else if URLPath req \<noteq> ''/v2/'' \<and> URLPath req \<noteq> ''/v2''
          then (st, Err (reg_error 404 ''METHOD_UNKNOWN'' not_understood))
          else (st, Ok \<lparr>Status = 200, Headers = [(''Docker-Distribution-API-Version'', ''registry/2.0'')], Payload = []\<rparr>))"

section \<open>Construction\<close>

text \<open>
  The options \<^verbatim>\<open>New\<close> takes into account for the store: \<open>optStore\<close> is the argument of \<^verbatim>\<open>WithStore\<close>,
  \<open>optCollector\<close> that of \<^verbatim>\<open>WithCollector\<close> with the store the collector was built over.  Stores are
  compared by identity in Go; here every store carries its identity.  \<open>None\<close> is the panic.
\<close>

definition New ::
    "(nat \<times> memStore) option \<Rightarrow> (collector \<times> nat \<times> memStore) option \<Rightarrow> 'b \<Rightarrow> 'b registryState option" where
  "New optStore optCollector b =
     (let mk = (\<lambda>s. \<lparr>store = s, coll = map_option fst optCollector, blobState = b, uploads = [], created = [], deleted = []\<rparr>)
      in case (optStore, optCollector) of
           (None, None) \<Rightarrow> Some (mk NewMemStore)
         | (None, Some (_, _, s)) \<Rightarrow> Some (mk s)
         | (Some (i, s), Some (_, j, _)) \<Rightarrow> if j \<noteq> i then None else Some (mk s)
         | (Some (_, s), None) \<Rightarrow> Some (mk s))"

section \<open>The registry as a state machine\<close>

inductive serves :: "lib \<Rightarrow> 'b registryConfig \<Rightarrow> 'b registryState \<Rightarrow> 'b registryState \<Rightarrow> bool"
  for L cfg where
  start: "serves L cfg st st"
| request: "serves L cfg st st1 \<Longrightarrow> v2 L cfg now rnd req st1 = (st2, rep) \<Longrightarrow> serves L cfg st st2"

section \<open>Read-only endpoints\<close>

lemma handleTags_state: "fst (handleTags L cfg now req st) \<in> {st, maybe_collect L cfg now st}"
  by (auto simp: handleTags_def Let_def split_beta)

lemma handleCatalog_state: "fst (handleCatalog L cfg now req st) \<in> {st, maybe_collect L cfg now st}"
  by (auto simp: handleCatalog_def Let_def split_beta)

lemma handleReferrers_state: "fst (handleReferrers L cfg now req st) \<in> {st, maybe_collect L cfg now st}"
  by (auto simp: handleReferrers_def Let_def)

lemmas listing_states = handleTags_state handleCatalog_state handleReferrers_state

text \<open>Every dispatch is a blob request, a manifest request, a sweep alone, or nothing.\<close>

lemma v2_cases:
  assumes "v2 L cfg now rnd req st = (st', rep)"
  obtains (blob) "blobs_handle L cfg now rnd req st = (st', rep)"
  | (manifest) "manifests_handle L cfg now req st = (st', rep)"
  | (sweep) "st' = maybe_collect L cfg now st"
  | (idle) "st' = st"
  using assms listing_states [of L cfg now req st]
  by (fastforce simp: v2_def split: option.splits bool.splits if_splits)

section \<open>The invariant\<close>

text \<open>
  The invariant of a registry over the in-memory blob handler: the nested maps are well formed, every
  manifest is stored under its digest, every blob under a digest of its bytes.
\<close>

definition registry_inv :: "lib \<Rightarrow> memBlobs registryState \<Rightarrow> bool" where
  "registry_inv L st \<longleftrightarrow> wf_store (store st) \<and> digest_keyed L (store st) \<and> blobs_verified L (blobState st)"

lemma manifests_blobState:
  assumes "manifests_handle L cfg now req st = (st', rep)"
  shows "blobState st' = blobState (maybe_collect L cfg now st)"
  using assms
  by (auto simp: manifests_handle_def manifests_get_def manifests_put_def manifests_store_def
      manifests_delete_def Let_def split: if_splits sum.splits prod.splits option.splits)

lemma v2_keeps_inv:
  assumes "handler cfg = memHandler L" and "hash_laws L" and "registry_inv L st"
    and "v2 L cfg now rnd req st = (st', rep)"
  shows "registry_inv L st'"
  using assms(4)
proof (cases rule: v2_cases)
  case blob
  have "HashString L h = k" if "NewHash L k = Some h" for k h
    using assms(2) that by (simp add: hash_laws_def)
  from blobs_handle_keeps_content [OF assms(1) this _ blob] assms(3) show ?thesis
    by (simp add: registry_inv_def)
next
  case manifest
  with assms manifests_handle_keeps_digests [of st L cfg now req] show ?thesis
    by (simp add: registry_inv_def manifests_blobState [OF manifest] maybe_collect_keeps_content)
next
  case sweep
  with assms show ?thesis
    by (simp add: registry_inv_def maybe_collect_wf digest_keyed_collect maybe_collect_keeps_content)
qed (use assms in simp)

lemma serves_keeps_inv:
  assumes "serves L cfg st st'" and "handler cfg = memHandler L" and "hash_laws L" and "registry_inv L st"
  shows "registry_inv L st'"
  using assms by (induction rule: serves.induct) (blast intro: v2_keeps_inv)+

lemma served_manifest:
  assumes "digest_keyed L (store (maybe_collect L cfg now st))"
    and "manifests_handle L cfg now req st = (st', Ok resp)" and "Method req = ''GET''"
    and "NewHash L (req_target req) = Some d"
  shows "SHA256 L (Payload resp) = d"
  using assms
  by (auto simp: manifests_handle_def manifests_get_def resolve_target_def digest_keyed_def Let_def
      split: sum.splits option.splits if_splits)

lemma served_blob:
  assumes "handler cfg = memHandler L" and "hash_laws L" and "blobs_verified L (blobState st)"
    and "blobs_handle L cfg now rnd req st = (st', Ok resp)" and "Method req = ''GET''"
    and "Header req ''Range'' = []" and "addresses L req h"
  shows "\<exists>w. Hasher L (Algorithm h) = Some w \<and> w (Payload resp) = Hex h"
proof -
  obtain elem where elem: "blob_elems req = Some elem" "4 \<le> length elem" "NewHash L (last elem) = Some h"
    using assms(7) by (auto simp: addresses_def split: option.splits)
  then have key: "HashString L h = last elem" using assms(2) by (simp add: hash_laws_def)
  obtain x where x: "map_of (blobState st) (HashString L h) = Some x"
    using assms(1,4,5) elem
    by (cases "map_of (blobState st) (HashString L h)")
      (auto simp: blobs_handle_def blobs_get_def blob_open_def mem_Stat_def blob_failure_def)
  then have "Payload resp = x"
    using assms(4-6) elem by (auto simp: blobs_handle_def blobs_get_full [OF assms(1) elem(3) x] Let_def)
  with assms(3) x elem(3) show ?thesis
    unfolding blobs_verified_def key by (metis option.inject)
qed

lemma empty_store [simp]: "GetManifest NewMemStore r d = None"
  by (simp add: NewMemStore_def GetManifest_def inner_def)

section \<open>Properties\<close>

text \<open>
  C9. Whatever sequence of requests a fresh in-memory registry has served, with or without a
  collector and whatever the clock read, its maps are well formed, every manifest is stored under
  the digest of its bytes and every blob under a digest its bytes hash to.
\<close>

theorem registry_content_addressed:
  assumes "New None col [] = Some st0"
    and "\<forall>c i s. col = Some (c, i, s) \<longrightarrow> s = NewMemStore"
    and "handler cfg = memHandler L" and "hash_laws L" and "serves L cfg st0 st"
  shows "wf_store (store st) \<and> digest_keyed L (store st) \<and> blobs_verified L (blobState st)"
proof -
  have "store st0 = NewMemStore" "blobState st0 = []"
    using assms(1,2) by (auto simp: New_def Let_def split: option.splits prod.splits)
  then have "registry_inv L st0"
    by (simp add: registry_inv_def digest_keyed_def blobs_verified_def empty_store)
  from serves_keeps_inv [OF assms(5,3,4) this] show ?thesis by (simp add: registry_inv_def)
qed

text \<open>
  C13. A pull by digest can be trusted: in every state a registry reaches from one that satisfies
  the invariant, a successful GET of a manifest by digest returns bytes with that digest, and a
  successful GET of a whole blob returns bytes that hash to the requested digest.
\<close>

theorem served_content_matches_digest:
  assumes "registry_inv L st0" and "handler cfg = memHandler L" and "hash_laws L" and "serves L cfg st0 st"
    and "v2 L cfg now rnd req st = (st', Ok resp)" and "Method req = ''GET''"
  shows "(isBlob req = Some False \<and> isManifest req \<and> NewHash L (req_target req) = Some d \<longrightarrow>
      SHA256 L (Payload resp) = d) \<and>
    (isBlob req = Some True \<and> Header req ''Range'' = [] \<and> addresses L req h \<longrightarrow>
      (\<exists>w. Hasher L (Algorithm h) = Some w \<and> w (Payload resp) = Hex h))"
proof -
  have inv: "registry_inv L st"
    by (rule serves_keeps_inv [OF assms(4,2,3,1)])
  then have "digest_keyed L (store (maybe_collect L cfg now st))"
    by (simp add: registry_inv_def digest_keyed_collect)
  from served_manifest [OF this _ assms(6)] served_blob [OF assms(2,3) _ _ assms(6)] inv assms(5)
  show ?thesis by (auto simp: v2_def registry_inv_def)
qed

end
