(* ===== verification/Registry_Witnesses.thy ===== *)
theory Registry_Witnesses
  imports Registry_Server Registry_Demo
begin

text \<open>
  Concrete requests against a small registry that satisfy the hypotheses of the endpoint properties,
  over the instance \<open>demo_lib\<close> of the third-party functions.
\<close>

section \<open>A demonstration registry\<close>

definition demo_cfg :: "memBlobs registryConfig" where
  "demo_cfg = \<lparr>handler = memHandler demo_lib, putCallback = None, deleteCallback = None,
     referrersEnabled = True, blobPruning = True\<rparr>"

definition demo_req :: "string \<Rightarrow> string \<Rightarrow> bytes \<Rightarrow> request" where
  "demo_req meth p b = \<lparr>Method = meth, URLHost = [], URLPath = p, Query = (\<lambda>_. []), Header = (\<lambda>_. []),
     Body = b, ContentLength = int (length b)\<rparr>"

definition demo_state :: "memBlobs registryState" where
  "demo_state = \<lparr>store = \<lparr>repos = [(''app'', [(demo_hash [2], demo_image)])], tagmap = []\<rparr>,
     coll = Some demo_collector, blobState = [(''sha256:9'', [9])], uploads = [], created = [], deleted = []\<rparr>"

text \<open>The push of the index under a tag.\<close>

definition demo_put :: request where
  "demo_put = (demo_req ''PUT'' ''/v2/app/manifests/v1'' [1])
     \<lparr>Header := (\<lambda>k. if k = ''Content-Type'' then ''index'' else [])\<rparr>"

abbreviation demo_clock :: "nat \<Rightarrow> gotime" where "demo_clock \<equiv> \<lambda>_. 0"

lemma demo_hash_laws: "hash_laws demo_lib"
  by (auto simp: hash_laws_def demo_lib_def demo_new_hash_string demo_new_hash_of_hash)

lemma demo_cfg_handler: "handler demo_cfg = memHandler demo_lib"
  by (simp add: demo_cfg_def)

lemma demo_state_get: "GetManifest (store demo_state) r d = Some m \<longleftrightarrow>
    r = ''app'' \<and> d = demo_hash [2] \<and> m = demo_image"
  by (auto simp: demo_state_def GetManifest_def inner_def)

lemma demo_state_wf:
  "wf_store (store demo_state)" "digest_keyed demo_lib (store demo_state)" "children_held demo_lib (store demo_state)"
proof -
  show "wf_store (store demo_state)"
    by (simp add: wf_store_def wf_nested_def demo_state_def)
  show "digest_keyed demo_lib (store demo_state)"
    by (simp add: digest_keyed_def demo_state_get demo_lib_def demo_image_def)
  show "children_held demo_lib (store demo_state)"
    by (simp add: children_held_def demo_state_get demo_image_def)
qed

section \<open>Manifest requests\<close>

definition demo_after_put :: "memBlobs registryState" where
  "demo_after_put = fst (manifests_handle demo_lib demo_cfg demo_clock demo_put demo_state)"

lemma demo_put_ok:
  "manifests_handle demo_lib demo_cfg demo_clock demo_put demo_state =
     (demo_after_put, Ok \<lparr>Status = 201, Headers = [(''Docker-Content-Digest'', ''sha256:1'')], Payload = []\<rparr>)"
proof -
  have "snd (manifests_handle demo_lib demo_cfg demo_clock demo_put demo_state) =
      Ok \<lparr>Status = 201, Headers = [(''Docker-Content-Digest'', ''sha256:1'')], Payload = []\<rparr>"
    by code_simp
  then show ?thesis by (simp add: demo_after_put_def prod_eq_iff)
qed

lemma put_then_get_manifest_witness:
  "snd (manifests_handle demo_lib demo_cfg demo_clock (demo_put\<lparr>Method := ''GET''\<rparr>) demo_after_put) =
   Ok \<lparr>Status = 200,
        Headers = [(''Docker-Content-Digest'', HashString demo_lib (SHA256 demo_lib [1])),
          (''Content-Type'', ''index''), (''Content-Length'', show_nat 1)], Payload = [1]\<rparr>"
proof -
  have "map_option ttl (coll demo_after_put) = Some 10" "map_option tagTTL (coll demo_after_put) = Some 0"
    by code_simp+
  then have "\<forall>c. coll demo_after_put = Some c \<longrightarrow> fresh (demo_clock 4) (demo_clock 1) (ttl c) \<and>
      fresh (demo_clock 5) (demo_clock 1) (tagTTL c)"
    by (auto simp: fresh_def time_Sub_def)
  with put_then_get_manifest [OF demo_state_wf(1) demo_hash_laws _ _ _ demo_put_ok, of "demo_put\<lparr>Method := ''GET''\<rparr>" demo_clock]
  show ?thesis by (simp add: demo_put_def demo_req_def)
qed

lemma manifests_error_no_effect_witness:
  "fst (manifests_handle demo_lib demo_cfg demo_clock (demo_req ''GET'' ''/v2/app/manifests/none'' []) demo_state) =
   maybe_collect demo_lib demo_cfg demo_clock demo_state"
proof -
  have "snd (manifests_handle demo_lib demo_cfg demo_clock (demo_req ''GET'' ''/v2/app/manifests/none'' []) demo_state) =
      Err errManifestUnknown"
    by code_simp
  then show ?thesis
    using manifests_error_no_effect [of demo_lib demo_cfg demo_clock "demo_req ''GET'' ''/v2/app/manifests/none'' []" demo_state]
    by (metis prod.collapse)
qed

lemma manifests_handle_keeps_children_witness:
  "children_held demo_lib (store demo_after_put)"
  using manifests_handle_keeps_children [OF demo_state_wf demo_hash_laws, of demo_put demo_cfg demo_clock]
  by (simp add: demo_after_put_def demo_put_def demo_req_def)

lemma demo_after_put_wf: "wf_store (store demo_after_put)"
  using manifests_handle_keeps_digests [OF demo_state_wf(1,2), of demo_cfg demo_clock demo_put]
  by (simp add: demo_after_put_def)

lemma delete_by_digest_removes_tags_witness:
  "ResolveTag (store (fst (manifests_handle demo_lib demo_cfg demo_clock
      (demo_req ''DELETE'' ''/v2/app/manifests/sha256:1'' []) demo_after_put))) ''app'' ''v1'' = None"
proof -
  let ?req = "demo_req ''DELETE'' ''/v2/app/manifests/sha256:1'' []"
  have "snd (manifests_handle demo_lib demo_cfg demo_clock ?req demo_after_put) =
      Ok \<lparr>Status = 202, Headers = [], Payload = []\<rparr>"
    by code_simp
  then have run: "manifests_handle demo_lib demo_cfg demo_clock ?req demo_after_put =
      (fst (manifests_handle demo_lib demo_cfg demo_clock ?req demo_after_put), Ok \<lparr>Status = 202, Headers = [], Payload = []\<rparr>)"
    by (metis prod.collapse)
  have res: "resolve_target demo_lib (store (maybe_collect demo_lib demo_cfg demo_clock demo_after_put))
      (req_repo ?req) (req_target ?req) = Inr (demo_hash [1], demo_index)"
    and tgt: "req_target ?req = HashString demo_lib (demo_hash [1])" and repo: "req_repo ?req = ''app''"
    and tag: "ResolveTag (store (maybe_collect demo_lib demo_cfg demo_clock demo_after_put)) ''app'' ''v1'' = Some (demo_hash [1])"
    by code_simp+
  have "Method ?req = ''DELETE''" by (simp add: demo_req_def)
  from delete_by_digest_removes_tags [OF demo_after_put_wf this res tgt run, of "''app''" _ "''v1''"]
  show ?thesis by (simp add: repo tag)
qed

section \<open>Tag lists\<close>

definition demo_tagged :: "memBlobs registryState" where
  "demo_tagged = demo_state\<lparr>store := \<lparr>repos = [(''app'', [(demo_hash [2], demo_image)])],
     tagmap = [(''app'', [(''v2'', demo_hash [2]), (''v1'', demo_hash [2]), (''v3'', demo_hash [2])])]\<rparr>\<rparr>"

definition demo_tags_req :: "string \<Rightarrow> string \<Rightarrow> request" where
  "demo_tags_req lst n = (demo_req ''GET'' ''/v2/app/tags/list'' [])
     \<lparr>Query := (\<lambda>k. if k = ''last'' then lst else if k = ''n'' then n else [])\<rparr>"

lemma demo_tags_facts:
  "HasRepo (store (maybe_collect demo_lib demo_cfg demo_clock demo_tagged)) ''app''"
  "sorted_tags (store (maybe_collect demo_lib demo_cfg demo_clock demo_tagged)) ''app'' = [''v1'', ''v2'', ''v3'']"
  "req_repo (demo_tags_req lst n) = ''app''" "Method (demo_tags_req lst n) = ''GET''"
  "Query (demo_tags_req lst n) ''last'' = lst" "Query (demo_tags_req lst n) ''n'' = n"
  by (code_simp, code_simp) (simp_all add: demo_tags_req_def demo_req_def req_repo_def path_elems_def slice_def)

lemma demo_tagged_wf: "wf_store (store demo_tagged)"
  by (simp add: wf_store_def wf_nested_def demo_tagged_def)

lemma handleTags_pages_witness:
  "handleTags demo_lib demo_cfg demo_clock (demo_tags_req ''v1'' ''1'') demo_tagged =
     (maybe_collect demo_lib demo_cfg demo_clock demo_tagged,
      json_response (MarshalTags demo_lib ''app'' [''v2'']) [])"
proof -
  have n: "Atoi ''1'' = (int 1, True)" by code_simp
  have lt: "''v1'' < ''v2''" "''v1'' < ''v3''" "\<not> ''v1'' < ''v1''" by code_simp+
  show ?thesis
    using handleTags_pages [OF demo_tagged_wf, of "demo_tags_req ''v1'' ''1''" demo_lib demo_cfg demo_clock
        "[''v1'', ''v2'', ''v3'']" 1] n lt
    by (simp add: demo_tags_facts)
qed

lemma handleTags_past_end_witness:
  "handleTags demo_lib demo_cfg demo_clock (demo_tags_req ''v3'' []) demo_tagged =
     (maybe_collect demo_lib demo_cfg demo_clock demo_tagged,
      json_response (MarshalTags demo_lib ''app'' [''v1'', ''v2'', ''v3'']) []) \<and>
   snd (handleTags demo_lib demo_cfg demo_clock (demo_tags_req ''v3'' ''-1'') demo_tagged) = Panic"
proof -
  have le: "''v1'' \<le> ''v3''" "''v2'' \<le> ''v3''" by code_simp+
  have n: "Atoi ''-1'' = (- 1, True)" by code_simp
  show ?thesis
    using handleTags_past_end [of "demo_tags_req ''v3'' []" demo_lib demo_cfg demo_clock demo_tagged "[''v1'', ''v2'', ''v3'']"]
      handleTags_past_end [of "demo_tags_req ''v3'' ''-1''" demo_lib demo_cfg demo_clock demo_tagged "[''v1'', ''v2'', ''v3'']"] le n
    by (simp add: demo_tags_facts)
qed

section \<open>Blob requests\<close>

lemma blobs_error_no_effect_witness:
  "fst (blobs_handle demo_lib demo_cfg demo_clock 7 (demo_req ''GET'' ''/v2/app/blobs/sha256:5'' []) demo_state) = demo_state"
proof -
  have "snd (blobs_handle demo_lib demo_cfg demo_clock 7 (demo_req ''GET'' ''/v2/app/blobs/sha256:5'' []) demo_state) =
      Err regErrBlobUnknown"
    by code_simp
  then show ?thesis
    using blobs_error_no_effect [OF demo_cfg_handler] by (metis prod.collapse)
qed

definition demo_patch :: "string \<Rightarrow> bytes \<Rightarrow> request" where
  "demo_patch rg b = (demo_req ''PATCH'' ''/v2/app/blobs/uploads/7'' b)
     \<lparr>Header := (\<lambda>k. if k = ''Content-Range'' then rg else [])\<rparr>"

definition demo_patches :: "((nat \<Rightarrow> gotime) \<times> nat \<times> request) list" where
  "demo_patches = [(demo_clock, 0, demo_patch ''0-1'' [0, 0]), (demo_clock, 0, demo_patch ''2-2'' [0])]"

definition demo_close :: request where
  "demo_close = (demo_req ''PUT'' ''/v2/app/blobs/uploads/7'' [5])
     \<lparr>Query := (\<lambda>k. if k = ''digest'' then ''sha256:5'' else [])\<rparr>"

lemma chunked_upload_roundtrip_witness:
  "snd (blobs_handle demo_lib demo_cfg demo_clock 0 (demo_req ''GET'' ''/v2/app/blobs/sha256:5'' [])
     (fst (blobs_handle demo_lib demo_cfg demo_clock 0 demo_close (blobs_run demo_lib demo_cfg demo_patches demo_state)))) =
   Ok \<lparr>Status = 200, Headers = [(''Content-Length'', show_int 4),
         (''Docker-Content-Digest'', HashString demo_lib (Hash ''sha256'' ''5''))], Payload = [0, 0, 0, 5]\<rparr>"
proof -
  let ?h = "Hash ''sha256'' ''5''" and ?get = "demo_req ''GET'' ''/v2/app/blobs/sha256:5'' []"
  let ?put = "blobs_handle demo_lib demo_cfg demo_clock 0 demo_close (blobs_run demo_lib demo_cfg demo_patches demo_state)"
  have facts: "inner (uploads demo_state) ''7'' = []" "chunks_to ''7'' 0 (map (\<lambda>x. snd (snd x)) demo_patches)"
    "[0, 0, 0, 5] = concat (map (\<lambda>x. Body (snd (snd x))) demo_patches) @ Body demo_close"
    "closes_upload demo_lib demo_close ''7'' ?h"
    and addr: "addresses demo_lib ?get ?h" and digest: "Hex (demo_hash [0, 0, 0, 5]) = Hex ?h"
    by code_simp+
  have hasher: "Hasher demo_lib (Algorithm ?h) = Some (\<lambda>b. Hex (demo_hash b))"
    by (simp add: demo_lib_def)
  have "Method ?get = ''GET''" "Header ?get ''Range'' = []" by (simp_all add: demo_req_def)
  from chunked_upload_roundtrip [OF demo_cfg_handler facts hasher digest prod.collapse [symmetric] this addr,
      THEN conjunct2, THEN conjunct2]
  have "snd (blobs_handle demo_lib demo_cfg demo_clock 0 ?get (fst ?put)) =
      Ok \<lparr>Status = 200, Headers = [(''Content-Length'', show_int (int (length [0, 0, 0, 5 :: byte]))),
         (''Docker-Content-Digest'', HashString demo_lib ?h)], Payload = [0, 0, 0, 5]\<rparr>"
    by this
  moreover have "int (length [0, 0, 0, 5 :: byte]) = 4" by simp
  ultimately show ?thesis by (simp only:)
qed

lemma blobs_get_range_witness:
  "Payload (case snd (blobs_get demo_lib demo_cfg demo_clock ''app'' ''sha256:9'' ''bytes=1-2''
      (demo_state\<lparr>blobState := [(''sha256:9'', [5, 6, 7, 8])]\<rparr>)) of Ok r \<Rightarrow> r) = [6, 7]"
proof -
  let ?st = "demo_state\<lparr>blobState := [(''sha256:9'', [5, 6, 7, 8])]\<rparr>"
  have "NewHash demo_lib ''sha256:9'' = Some (demo_hash [9])"
    "map_of (blobState ?st) (HashString demo_lib (demo_hash [9])) = Some [5, 6, 7, 8]"
    "scan_range ''bytes='' ''bytes=1-2'' = Some (1, 2)"
    by code_simp+
  from blobs_get_range [OF demo_cfg_handler this(1,2) _ _ this(3), of demo_clock "''app''"]
  show ?thesis by (simp add: slice_def)
qed

section \<open>The server\<close>

lemma registry_content_addressed_witness:
  "digest_keyed demo_lib (store (fst (v2 demo_lib demo_cfg demo_clock 0
     (demo_req ''PUT'' ''/v2/app/manifests/v1'' [2]) (the (New None None [])))))"
proof -
  let ?st = "the (New None None []) :: memBlobs registryState" and ?req = "demo_req ''PUT'' ''/v2/app/manifests/v1'' [2]"
  have "serves demo_lib demo_cfg ?st (fst (v2 demo_lib demo_cfg demo_clock 0 ?req ?st))"
    by (rule serves.request [OF serves.start prod.collapse [symmetric]])
  then show ?thesis
    using registry_content_addressed [OF _ _ demo_cfg_handler demo_hash_laws, of None ?st] by (simp add: New_def)
qed

lemma served_content_matches_digest_witness:
  "\<exists>w. Hasher demo_lib ''sha256'' = Some w \<and> w [9] = ''9''"
proof -
  let ?req = "demo_req ''GET'' ''/v2/app/blobs/sha256:9'' []"
  have inv: "registry_inv demo_lib demo_state"
  proof -
    have "NewHash demo_lib ''sha256:9'' = Some (demo_hash [9])" by code_simp
    then have "blobs_verified demo_lib (blobState demo_state)"
      by (auto simp: blobs_verified_def demo_state_def demo_hash_eval) (simp_all add: demo_lib_def demo_hash_eval)
    with demo_state_wf show ?thesis by (simp add: registry_inv_def)
  qed
  have "snd (v2 demo_lib demo_cfg demo_clock 0 ?req demo_state) =
      Ok \<lparr>Status = 200, Headers = [(''Content-Length'', ''1''), (''Docker-Content-Digest'', ''sha256:9'')], Payload = [9]\<rparr>"
    "isBlob ?req = Some True" "addresses demo_lib ?req (Hash ''sha256'' ''9'')"
    by code_simp+
  moreover have "Method ?req = ''GET''" "Header ?req ''Range'' = []" by (simp_all add: demo_req_def)
  ultimately show ?thesis
    using served_content_matches_digest [OF inv demo_cfg_handler demo_hash_laws serves.start, of demo_clock 0 ?req
        "fst (v2 demo_lib demo_cfg demo_clock 0 ?req demo_state)" _ _ "Hash ''sha256'' ''9''"]
    by (metis hash.sel prod.collapse response.select_convs(3))
qed

end
