(* ===== verification/Compact_Writer.thy ===== *)
theory Compact_Writer
  imports Prelude
begin

text \<open>
  \<^verbatim>\<open>pkg/compactstream/writer.go\<close>: the writer of compact streams.  A compact stream is a 128-byte
  header, a table of references to content-addressed blobs, and the inline bytes (possibly zstd
  compressed).  The zstd codec, SHA-256 and the recompression of \<^verbatim>\<open>pkg/compress\<close> are parameters
  (record \<open>cslib\<close>); the destination of a writer is its output, and writing to it does not fail.
\<close>

section \<open>Readers\<close>

text \<open>
  An \<^verbatim>\<open>io.Reader\<close> is the chunks it hands out, the error it ends with (\<^verbatim>\<open>io.EOF\<close> as \<open>None\<close>) and
  whether it reports that error together with its last bytes, as the contract of \<^verbatim>\<open>io.Reader\<close>
  allows (\<open>eager\<close>).
\<close>

record rdr =
  chunks :: "bytes list"
  tailErr :: "string option"
  eager :: bool

definition rdr_bytes :: "rdr \<Rightarrow> bytes" where "rdr_bytes r = concat (chunks r)"

definition plain_rdr :: "bytes \<Rightarrow> rdr" where
  "plain_rdr b = \<lparr>chunks = [b], tailErr = None, eager = False\<rparr>"

section \<open>Constants and types\<close>

definition magic :: bytes where "magic = [0x43, 0x41, 0x53, 0x53, 0x54, 0x52]"
definition FormatVersion :: u8 where "FormatVersion = 1"
definition headerSize :: nat where "headerSize = 128"
definition flagCompressedStreamInfo :: u8 where "flagCompressedStreamInfo = 1"
definition HashAlgoSHA256 :: u16 where "HashAlgoSHA256 = 1"
definition StreamCompressionNone :: u8 where "StreamCompressionNone = 0"
definition StreamCompressionZstd :: u8 where "StreamCompressionZstd = 1"
definition OriginalCompressionNone :: u8 where "OriginalCompressionNone = 0"
definition OriginalCompressionGzip :: u8 where "OriginalCompressionGzip = 1"
definition OriginalCompressionZstd :: u8 where "OriginalCompressionZstd = 2"

lemmas cs_consts = magic_def FormatVersion_def headerSize_def flagCompressedStreamInfo_def HashAlgoSHA256_def
  StreamCompressionNone_def StreamCompressionZstd_def OriginalCompressionNone_def
  OriginalCompressionGzip_def OriginalCompressionZstd_def

text \<open>\<^verbatim>\<open>CompressionLevel\<close> is an \<^verbatim>\<open>int8\<close>: its byte, read by \<open>sint\<close>.\<close>

record originalCompressionInfo =
  Compression :: u8
  Seekable :: bool
  CompressionLevel :: i8
  CompressorJobs :: u8
  EndPadding :: u32

record casRef =
  Offset :: u64
  Digest :: bytes
  Size :: u64

datatype cs_error =
    DigestLength nat nat
  | ZstdEncoder string
  | HeaderRead io_error
  | InvalidMagic bytes
  | ExpectedNul u8
  | UnsupportedVersion u8
  | UnsupportedHash u16
  | HashSizeMismatch nat
  | RefTableTooLarge u64
  | RefTableRagged u64
  | DigestSlot nat
  | RefTableRead io_error
  | RefSize nat u64
  | RefOffset nat u64
  | RefUnsorted nat u64 u64
  | ZstdDecoder string
  | UnsupportedStream u8
  | StreamRead string
  | RefPrecedes u64 u64
  | CopyStream u64 u64 "string option"
  | FetchBlob u64 string
  | ReadBlob u64 "string option"
  | UnsupportedOriginal u8
  | Compressing string
  | Mismatch bytes u64 bytes int

text \<open>
  Third-party code: the zstd codec, SHA-256, and the compressor of \<^verbatim>\<open>pkg/compress\<close> (algorithm, seekable,
  level and jobs, and the stream read from the pipe with the error it ends with).
\<close>

record cslib =
  zstdEncode :: "bytes \<Rightarrow> string + bytes"
  zstdDecode :: "bytes \<Rightarrow> string + rdr"
  sha256 :: "bytes \<Rightarrow> bytes"
  recompress :: "string \<Rightarrow> bool \<Rightarrow> int option \<Rightarrow> nat option \<Rightarrow> bytes \<times> cs_error option \<Rightarrow> bytes \<times> string option"

text \<open>A call returns, returns an error, or panics.\<close>

datatype 'a go = Ret 'a | Fail cs_error | GoPanic

record csWriter =
  streamBuf :: bytes
  refs :: "casRef list"
  hashAlgo :: u16
  hashSize :: nat
  streamCompression :: u8
  originalCompression :: originalCompressionInfo
  currentOffset :: u64
  inlineThreshold :: int
  compressedStreamDigest :: bytes
  compressedStreamSize :: u64
  hasCompressedStreamInfo :: bool
  werr :: "cs_error option"

section \<open>Operations\<close>

definition NewWriter :: "u16 \<Rightarrow> u16 \<Rightarrow> u8 \<Rightarrow> originalCompressionInfo \<Rightarrow> int \<Rightarrow> csWriter" where
  "NewWriter algo hsize sc oc thr =
     \<lparr>streamBuf = [], refs = [], hashAlgo = algo, hashSize = unat hsize, streamCompression = sc,
      originalCompression = oc, currentOffset = 0, inlineThreshold = thr, compressedStreamDigest = [],
      compressedStreamSize = 0, hasCompressedStreamInfo = False, werr = None\<rparr>"

definition SetCompressedStreamInfo :: "bytes \<Rightarrow> u64 \<Rightarrow> csWriter \<Rightarrow> csWriter \<times> cs_error option" where
  "SetCompressedStreamInfo digest sz w =
     (case werr w of
        Some e \<Rightarrow> (w, Some e)
      | None \<Rightarrow>
          if length digest \<noteq> hashSize w then
            let e = DigestLength (length digest) (hashSize w) in (w\<lparr>werr := Some e\<rparr>, Some e)
          else (w\<lparr>compressedStreamDigest := digest, compressedStreamSize := sz, hasCompressedStreamInfo := True\<rparr>, None))"

definition WriteStreamBytes :: "bytes \<Rightarrow> csWriter \<Rightarrow> csWriter \<times> cs_error option" where
  "WriteStreamBytes data w =
     (case werr w of
        Some e \<Rightarrow> (w, Some e)
      | None \<Rightarrow>
          (w\<lparr>streamBuf := streamBuf w @ data, currentOffset := currentOffset w + of_nat (length data)\<rparr>, None))"

definition WriteCASRef :: "bytes \<Rightarrow> u64 \<Rightarrow> csWriter \<Rightarrow> csWriter \<times> cs_error option" where
  "WriteCASRef digest sz w =
     (case werr w of
        Some e \<Rightarrow> (w, Some e)
      | None \<Rightarrow>
          if length digest \<noteq> hashSize w then
            let e = DigestLength (length digest) (hashSize w) in (w\<lparr>werr := Some e\<rparr>, Some e)
          else
            (w\<lparr>refs := refs w @ [\<lparr>Offset = currentOffset w, Digest = digest, Size = sz\<rparr>],
               currentOffset := currentOffset w + sz\<rparr>, None))"

definition base_header :: "csWriter \<Rightarrow> u64 \<Rightarrow> u64 \<Rightarrow> u64 \<Rightarrow> u64 \<Rightarrow> bytes" where
  "base_header w refTableOffset refTableSize streamOffset streamSize =
     (let h0 = replicate headerSize 0;
          h1 = copy_at 0 magic h0;
          h2 = copy_at 6 [0] h1;
          h3 = copy_at 7 [FormatVersion] h2;
          h4 = copy_at 8 (PutUint16 (hashAlgo w)) h3;
          h5 = copy_at 10 (PutUint16 (of_nat (hashSize w))) h4;
          h6 = copy_at 12 [streamCompression w] h5;
          h7 = copy_at 13 [Compression (originalCompression w)] h6;
          h8 = (if Seekable (originalCompression w) then copy_at 14 [1] h7 else h7);
          h9 = copy_at 15 [CompressionLevel (originalCompression w)] h8;
          h10 = copy_at 16 [CompressorJobs (originalCompression w)] h9;
          h11 = copy_at 20 (PutUint32 (EndPadding (originalCompression w))) h10;
          h12 = copy_at 24 (PutUint64 refTableOffset) h11;
          h13 = copy_at 32 (PutUint64 refTableSize) h12;
          h14 = copy_at 40 (PutUint64 streamOffset) h13
      in copy_at 48 (PutUint64 streamSize) h14)"

definition info_header :: "csWriter \<Rightarrow> bytes \<Rightarrow> bytes option" where
  "info_header w h =
     (if hasCompressedStreamInfo w then
        let h1 = copy_at 56 [or (h ! 56) flagCompressedStreamInfo] h;
            h2 = copy_at 64 (PutUint64 (compressedStreamSize w)) h1
        in if 72 + hashSize w > headerSize then None
           else Some (copy_at 72 (take (hashSize w) (compressedStreamDigest w)) h2)
      else Some h)"

definition encode_ref :: "casRef \<Rightarrow> bytes" where
  "encode_ref r = PutUint64 (Offset r) @ Digest r @ PutUint64 (Size r)"

definition compress_stream :: "cslib \<Rightarrow> csWriter \<Rightarrow> cs_error + bytes" where
  "compress_stream L w =
     (if streamCompression w = StreamCompressionZstd
      then map_sum ZstdEncoder id (zstdEncode L (streamBuf w))
      else Inr (streamBuf w))"

definition Close_writer :: "cslib \<Rightarrow> csWriter \<Rightarrow> csWriter \<times> bytes go" where
  "Close_writer L w =
     (case werr w of
        Some e \<Rightarrow> (w, Fail e)
      | None \<Rightarrow>
          (let refEntrySize = 16 + hashSize w;
               refTableSize = of_nat (length (refs w) * refEntrySize);
               refTableOffset = of_nat headerSize;
               streamOffset = refTableOffset + refTableSize
           in case compress_stream L w of
                Inl e \<Rightarrow> (w\<lparr>werr := Some e\<rparr>, Fail e)
              | Inr compressedStream \<Rightarrow>
                  (case info_header w (base_header w refTableOffset refTableSize streamOffset
                          (of_nat (length compressedStream))) of
                     None \<Rightarrow> (w, GoPanic)
                   | Some header \<Rightarrow>
                       (w, Ret (header @ concat (map encode_ref (refs w)) @ compressedStream)))))"

end
