(* ===== verification/Compact_Inspect.thy ===== *)
theory Compact_Inspect
  imports Compact_Writer
begin

text \<open>
  \<^verbatim>\<open>pkg/compactstream/inspect.go\<close>: the header and the reference table of a compact stream, read
  and validated, and the structural view \<^verbatim>\<open>Inspect\<close> gives.  A stream is read from its bytes; each
  operation returns what it leaves unread.
\<close>

section \<open>Types\<close>

definition maxRefTableSize :: u64 where "maxRefTableSize = push_bit 31 1"

record header =
  Version :: u8
  HashAlgo :: u16
  HashSize :: nat
  StreamCompression :: u8
  OriginalCompression :: originalCompressionInfo
  RefTableOffset :: u64
  RefTableSize :: u64
  StreamOffset :: u64
  StreamSize :: u64
  HasCompressedStreamInfo :: bool
  CompressedStreamDigest :: bytes
  CompressedStreamSize :: u64

definition RefEntrySize :: "header \<Rightarrow> nat" where "RefEntrySize h = 16 + HashSize h"

definition RefCount :: "header \<Rightarrow> nat" where
  "RefCount h =
     (let entry = RefEntrySize h in if entry \<le> 0 then 0 else unat (RefTableSize h div of_nat entry))"

record csInfo =
  infoHeader :: header
  infoRefs :: "casRef list"
  StreamUncompressedSize :: u64

definition ReferencedBytes :: "csInfo \<Rightarrow> u64" where
  "ReferencedBytes i = foldl (\<lambda>total r. total + Size r) 0 (infoRefs i)"

definition ReconstructedSize :: "csInfo \<Rightarrow> u64" where
  "ReconstructedSize i = StreamUncompressedSize i + ReferencedBytes i"

definition MagicSize :: nat where "MagicSize = length magic"

definition HasMagic :: "bytes \<Rightarrow> bool" where
  "HasMagic prefix \<longleftrightarrow> length prefix \<ge> MagicSize \<and> take MagicSize prefix = magic"

section \<open>The header\<close>

definition sha256_Size :: nat where "sha256_Size = 32"

definition raw_fields :: "bytes \<Rightarrow> header" where
  "raw_fields raw =
     \<lparr>Version = raw ! 7, HashAlgo = Uint16 (slice 8 10 raw), HashSize = unat (Uint16 (slice 10 12 raw)),
      StreamCompression = raw ! 12,
      OriginalCompression = \<lparr>Compression = raw ! 13, Seekable = (raw ! 14 = 1), CompressionLevel = raw ! 15,
        CompressorJobs = raw ! 16, EndPadding = Uint32 (slice 20 24 raw)\<rparr>,
      RefTableOffset = Uint64 (slice 24 32 raw), RefTableSize = Uint64 (slice 32 40 raw),
      StreamOffset = Uint64 (slice 40 48 raw), StreamSize = Uint64 (slice 48 56 raw),
      HasCompressedStreamInfo = False, CompressedStreamDigest = [], CompressedStreamSize = 0\<rparr>"

definition parse_info :: "bytes \<Rightarrow> header \<Rightarrow> cs_error + header" where
  "parse_info raw h =
     (if and (raw ! 56) flagCompressedStreamInfo \<noteq> 0 then
        if 72 + HashSize h > headerSize then Inl (DigestSlot (HashSize h))
        else Inr (h\<lparr>HasCompressedStreamInfo := True, CompressedStreamSize := Uint64 (slice 64 72 raw),
                    CompressedStreamDigest := slice 72 (72 + HashSize h) raw\<rparr>)
      else Inr h)"

definition parseHeader :: "bytes \<Rightarrow> cs_error + header" where
  "parseHeader raw =
     (if slice 0 6 raw \<noteq> magic then Inl (InvalidMagic (slice 0 6 raw))
      else if raw ! 6 \<noteq> 0 then Inl (ExpectedNul (raw ! 6))
      else if raw ! 7 \<noteq> FormatVersion then Inl (UnsupportedVersion (raw ! 7))
      else
        let h = raw_fields raw in
        if HashAlgo h \<noteq> HashAlgoSHA256 then Inl (UnsupportedHash (HashAlgo h))
        else if HashSize h \<noteq> sha256_Size then Inl (HashSizeMismatch (HashSize h))
        else if RefTableSize h > maxRefTableSize then Inl (RefTableTooLarge (RefTableSize h))
        else if RefTableSize h mod of_nat (RefEntrySize h) \<noteq> 0 then Inl (RefTableRagged (RefTableSize h))
        else parse_info raw h)"

definition ReadHeader :: "bytes \<Rightarrow> cs_error + (header \<times> bytes)" where
  "ReadHeader r =
     (case ReadFull headerSize r of
        Inl e \<Rightarrow> Inl (HeaderRead e)
      | Inr (raw, rest) \<Rightarrow> map_sum id (\<lambda>h. (h, rest)) (parseHeader raw))"

section \<open>The reference table\<close>

definition ref_at :: "header \<Rightarrow> bytes \<Rightarrow> nat \<Rightarrow> casRef" where
  "ref_at h data i =
     (let base = i * RefEntrySize h in
      \<lparr>Offset = Uint64 (slice base (base + 8) data),
       Digest = slice (base + 8) (base + 8 + HashSize h) data,
       Size = Uint64 (slice (base + 8 + HashSize h) (base + RefEntrySize h) data)\<rparr>)"

definition MaxInt64 :: u64 where "MaxInt64 = 2 ^ 63 - 1"

text \<open>The loop over the table, \<open>n\<close> entries from entry \<open>i\<close> on.\<close>

fun read_refs :: "header \<Rightarrow> bytes \<Rightarrow> u64 \<Rightarrow> nat \<Rightarrow> nat \<Rightarrow> cs_error + casRef list" where
  "read_refs h data prevEnd i 0 = Inr []"
| "read_refs h data prevEnd i (Suc n) =
     (let ref = ref_at h data i in
      if Size ref > MaxInt64 then Inl (RefSize i (Size ref))
      else if Offset ref > MaxInt64 then Inl (RefOffset i (Offset ref))
      else if Offset ref < prevEnd then Inl (RefUnsorted i (Offset ref) prevEnd)
      else map_sum id (Cons ref) (read_refs h data (Offset ref + Size ref) (Suc i) n))"

definition readRefTable :: "bytes \<Rightarrow> header \<Rightarrow> cs_error + (casRef list \<times> bytes)" where
  "readRefTable r h =
     (case ReadFull (unat (RefTableSize h)) r of
        Inl e \<Rightarrow> Inl (RefTableRead e)
      | Inr (data, rest) \<Rightarrow> map_sum id (\<lambda>rs. (rs, rest)) (read_refs h data 0 0 (RefCount h)))"

section \<open>The byte stream and Inspect\<close>

definition streamReader :: "cslib \<Rightarrow> bytes \<Rightarrow> u8 \<Rightarrow> cs_error + rdr" where
  "streamReader L r sc =
     (if sc = StreamCompressionNone then Inr (plain_rdr r)
      else if sc = StreamCompressionZstd then map_sum ZstdDecoder id (zstdDecode L r)
      else Inl (UnsupportedStream sc))"

definition countStreamBytes :: "cslib \<Rightarrow> bytes \<Rightarrow> u8 \<Rightarrow> cs_error + u64" where
  "countStreamBytes L r sc =
     (case streamReader L r sc of
        Inl e \<Rightarrow> Inl e
      | Inr s \<Rightarrow> (case tailErr s of Some e \<Rightarrow> Inl (StreamRead e) | None \<Rightarrow> Inr (of_nat (length (rdr_bytes s)))))"

definition Inspect :: "cslib \<Rightarrow> bytes \<Rightarrow> cs_error + csInfo" where
  "Inspect L r =
     (case ReadHeader r of
        Inl e \<Rightarrow> Inl e
      | Inr (h, r1) \<Rightarrow>
          (case readRefTable r1 h of
             Inl e \<Rightarrow> Inl e
           | Inr (rs, r2) \<Rightarrow>
               (case countStreamBytes L r2 (StreamCompression h) of
                  Inl e \<Rightarrow> Inl e
                | Inr n \<Rightarrow> Inr \<lparr>infoHeader = h, infoRefs = rs, StreamUncompressedSize = n\<rparr>)))"

end
