(* ===== verification/Compact_Reader.thy ===== *)
theory Compact_Reader
  imports Compact_Inspect
begin

text \<open>
  \<^verbatim>\<open>pkg/compactstream/reader.go\<close>: reconstruction of the original stream, by \<^verbatim>\<open>writeReconstructed\<close>
  (which \<^verbatim>\<open>Reconstruct\<close> feeds to the compressor) and by the incremental \<^verbatim>\<open>ReconstructingReader\<close>.
  A writer's result is what was written and the error, if any.  Closing a blob reader does not fail,
  and the pipe to the compressor hands over the bytes and the error \<^verbatim>\<open>writeReconstructed\<close> ends with.
\<close>

section \<open>Copying\<close>

type_synonym blobStore = "bytes \<Rightarrow> int \<Rightarrow> string + rdr"

text \<open>
  Dropping the first \<open>n\<close> bytes of a reader; \<^verbatim>\<open>io.CopyN\<close> copies exactly \<open>n\<close> bytes or fails with the
  reader's error (\<open>None\<close> is \<^verbatim>\<open>io.EOF\<close>); \<^verbatim>\<open>io.Copy\<close> copies everything.
\<close>

fun drop_chunks :: "nat \<Rightarrow> bytes list \<Rightarrow> bytes list" where
  "drop_chunks n [] = []"
| "drop_chunks n (c # cs) = (if n < length c then drop n c # cs else drop_chunks (n - length c) cs)"

definition CopyN :: "rdr \<Rightarrow> int \<Rightarrow> bytes \<times> string option option \<times> rdr" where
  "CopyN r n =
     (let b = rdr_bytes r in
      if nat n \<le> length b then (take (nat n) b, None, r\<lparr>chunks := drop_chunks (nat n) (chunks r)\<rparr>)
      else (b, Some (tailErr r), r\<lparr>chunks := []\<rparr>))"

definition Copy_all :: "rdr \<Rightarrow> bytes \<times> string option" where
  "Copy_all r = (rdr_bytes r, tailErr r)"

text \<open>\<^verbatim>\<open>int64(v)\<close> of an unsigned value.\<close>

definition to_int64 :: "u64 \<Rightarrow> int" where "to_int64 v = sint v"

section \<open>Streaming reconstruction\<close>

fun write_refs :: "blobStore \<Rightarrow> u64 \<Rightarrow> rdr \<Rightarrow> casRef list \<Rightarrow> bytes \<times> cs_error option \<times> u64 \<times> rdr" where
  "write_refs st outputPos stream [] = ([], None, outputPos, stream)"
| "write_refs st outputPos stream (r # rs) =
     (if Offset r < outputPos then ([], Some (RefPrecedes (Offset r) outputPos), outputPos, stream)
      else
        let gap = Offset r - outputPos;
            (b1, e1, stream1) = (if gap > 0 then CopyN stream (to_int64 gap) else ([], None, stream))
        in case e1 of
             Some e \<Rightarrow> (b1, Some (CopyStream outputPos gap e), outputPos, stream1)
           | None \<Rightarrow>
               (case st (Digest r) (to_int64 (Size r)) of
                  Inl e \<Rightarrow> (b1, Some (FetchBlob (Offset r) e), outputPos, stream1)
                | Inr blobReader \<Rightarrow>
                    (case CopyN blobReader (to_int64 (Size r)) of
                       (b2, Some e, _) \<Rightarrow> (b1 @ b2, Some (ReadBlob (Offset r) e), outputPos, stream1)
                     | (b2, None, _) \<Rightarrow>
                         (let (b3, e3, p, s) = write_refs st (Offset r + Size r) stream1 rs
                          in (b1 @ b2 @ b3, e3, p, s)))))"

definition writeReconstructed :: "blobStore \<Rightarrow> rdr \<Rightarrow> casRef list \<Rightarrow> bytes \<times> cs_error option" where
  "writeReconstructed st stream rs =
     (case write_refs st 0 stream rs of
        (b, Some e, _, _) \<Rightarrow> (b, Some e)
      | (b, None, _, stream') \<Rightarrow>
          (case Copy_all stream' of
             (b', Some e) \<Rightarrow> (b @ b', Some (StreamRead e))
           | (b', None) \<Rightarrow> (b @ b', None)))"

section \<open>Reconstruct\<close>

definition original_stream ::
    "cslib \<Rightarrow> originalCompressionInfo \<Rightarrow> bytes \<times> cs_error option \<Rightarrow> bytes \<times> cs_error option" where
  "original_stream L oc rec =
     (if Compression oc = OriginalCompressionNone then rec
      else
        let algo = (if Compression oc = OriginalCompressionGzip then Some ''gzip''
                    else if Compression oc = OriginalCompressionZstd then Some ''zstd'' else None)
        in case algo of
             None \<Rightarrow> ([], Some (UnsupportedOriginal (Compression oc)))
           | Some a \<Rightarrow>
               (let level = (if sint (CompressionLevel oc) \<ge> 0 then Some (sint (CompressionLevel oc)) else None);
                    jobs = (if CompressorJobs oc > 0 then Some (unat (CompressorJobs oc)) else None);
                    (b, e) = recompress L a (Seekable oc) level jobs rec
                in (b, map_option Compressing e)))"

definition Reconstruct :: "cslib \<Rightarrow> bytes \<Rightarrow> blobStore \<Rightarrow> bytes \<times> cs_error option" where
  "Reconstruct L index st =
     (case ReadHeader index of
        Inl e \<Rightarrow> ([], Some e)
      | Inr (h, r1) \<Rightarrow>
          (case readRefTable r1 h of
             Inl e \<Rightarrow> ([], Some e)
           | Inr (rs, r2) \<Rightarrow>
               (case streamReader L r2 (StreamCompression h) of
                  Inl e \<Rightarrow> ([], Some e)
                | Inr stream \<Rightarrow>
                    (case original_stream L (OriginalCompression h) (writeReconstructed st stream rs) of
                       (b, Some e) \<Rightarrow> (b, Some e)
                     | (b, None) \<Rightarrow>
                         (let out = b @ replicate (unat (EndPadding (OriginalCompression h))) 0 in
                          if HasCompressedStreamInfo h \<and>
                             (int (length out) \<noteq> to_int64 (CompressedStreamSize h) \<or>
                              sha256 L out \<noteq> CompressedStreamDigest h)
                          then (out, Some (Mismatch (CompressedStreamDigest h) (CompressedStreamSize h)
                                  (sha256 L out) (int (length out))))
                          else (out, None))))))"

section \<open>The incremental reader\<close>

datatype read_err = ReadEOF | ReadErr string | BlobShort int

record reconReader =
  rStream :: rdr
  rRefs :: "casRef list"
  refByOffset :: "(u64 \<times> casRef) list"
  outputPos :: u64
  rBlob :: "rdr option"
  blobRemaining :: int
  rErr :: "read_err option"

definition NewReconstructingReader :: "cslib \<Rightarrow> bytes \<Rightarrow> cs_error + reconReader" where
  "NewReconstructingReader L index =
     (case ReadHeader index of
        Inl e \<Rightarrow> Inl e
      | Inr (h, r1) \<Rightarrow>
          (case readRefTable r1 h of
             Inl e \<Rightarrow> Inl e
           | Inr (rs, r2) \<Rightarrow>
               map_sum id (\<lambda>stream.
                 \<lparr>rStream = stream, rRefs = rs,
                  refByOffset = foldl (\<lambda>m r. AList.update (Offset r) r m) [] rs,
                  outputPos = 0, rBlob = None, blobRemaining = 0, rErr = None\<rparr>)
                 (streamReader L r2 (StreamCompression h))))"

definition reader_Offset :: "reconReader \<Rightarrow> int" where "reader_Offset r = to_int64 (outputPos r)"

definition RefDigestAt :: "reconReader \<Rightarrow> int \<Rightarrow> int \<Rightarrow> bytes option" where
  "RefDigestAt r off sz =
     (case map_of (refByOffset r) (of_int off) of
        None \<Rightarrow> None
      | Some ref \<Rightarrow> if to_int64 (Size ref) \<noteq> sz then None else Some (Digest ref))"

text \<open>One \<^verbatim>\<open>Read\<close> into a buffer of \<open>want\<close> bytes: the bytes, the error, the reader afterwards.\<close>

definition rdr_read :: "nat \<Rightarrow> rdr \<Rightarrow> bytes \<times> read_err option \<times> rdr" where
  "rdr_read want r =
     (let end = (case tailErr r of None \<Rightarrow> ReadEOF | Some e \<Rightarrow> ReadErr e) in
      case chunks r of
        [] \<Rightarrow> ([], Some end, r)
      | c # cs \<Rightarrow>
          if want < length c then (take want c, None, r\<lparr>chunks := drop want c # cs\<rparr>)
          else (c, if cs = [] \<and> eager r then Some end else None, r\<lparr>chunks := cs\<rparr>))"

text \<open>\<open>serve_blob\<close>: continue the blob region; \<open>serve_stream\<close>: inline bytes up to the next reference.\<close>

definition serve_blob :: "nat \<Rightarrow> rdr \<Rightarrow> reconReader \<Rightarrow> bytes \<times> read_err option \<times> reconReader" where
  "serve_blob p blob r =
     (let want = (if int p > blobRemaining r then nat (blobRemaining r) else p);
          (b, err, blob') = rdr_read want blob;
          rem = blobRemaining r - int (length b);
          r1 = r\<lparr>outputPos := outputPos r + of_nat (length b), blobRemaining := rem, rBlob := Some blob'\<rparr>
      in if rem = 0 then (b, if err = Some ReadEOF then None else err, r1\<lparr>rBlob := None\<rparr>)
         else case err of
                None \<Rightarrow> (b, None, r1)
              | Some e \<Rightarrow>
                  (let e' = (if e = ReadEOF then BlobShort rem else e) in (b, Some e', r1\<lparr>rErr := Some e'\<rparr>)))"

definition serve_stream :: "nat \<Rightarrow> reconReader \<Rightarrow> bytes \<times> read_err option \<times> reconReader" where
  "serve_stream p r =
     (let want = (case rRefs r of
                    [] \<Rightarrow> int p
                  | ref # _ \<Rightarrow>
                      (let gap = to_int64 (Offset ref - outputPos r)
                       in if gap \<ge> 0 \<and> gap < int p then gap else int p));
          (b, err, s) = rdr_read (nat want) (rStream r)
      in (b, err, r\<lparr>outputPos := outputPos r + of_nat (length b), rStream := s\<rparr>))"

text \<open>
  \<open>rRefs\<close> are the references from \<^verbatim>\<open>refIdx\<close> on; the recursive call of \<^verbatim>\<open>Read\<close> after a blob has been
  opened is the recursion over them.
\<close>

fun read_from :: "blobStore \<Rightarrow> nat \<Rightarrow> casRef list \<Rightarrow> reconReader \<Rightarrow> bytes \<times> read_err option \<times> reconReader" where
  "read_from st p rs r =
     (if blobRemaining r > 0 then
        (case rBlob r of
           Some blob \<Rightarrow> serve_blob p blob (r\<lparr>rRefs := rs\<rparr>)
         | None \<Rightarrow> ([], Some (ReadErr ''nil blob''), r))
      else
        case rs of
          [] \<Rightarrow> serve_stream p (r\<lparr>rRefs := []\<rparr>)
        | ref # rest \<Rightarrow>
            if Offset ref = outputPos r then
              (case st (Digest ref) (to_int64 (Size ref)) of
                 Inl e \<Rightarrow> ([], Some (ReadErr e), r\<lparr>rRefs := rest, rErr := Some (ReadErr e)\<rparr>)
               | Inr blob \<Rightarrow>
                   read_from st p rest (r\<lparr>rBlob := Some blob, blobRemaining := to_int64 (Size ref)\<rparr>))
            else serve_stream p (r\<lparr>rRefs := rs\<rparr>))"

declare read_from.simps [simp del]

definition Read :: "blobStore \<Rightarrow> nat \<Rightarrow> reconReader \<Rightarrow> bytes \<times> read_err option \<times> reconReader" where
  "Read st p r =
     (case rErr r of
        Some e \<Rightarrow> ([], Some e, r)
      | None \<Rightarrow> if p = 0 then ([], None, r) else read_from st p (rRefs r) r)"

text \<open>
  Reading up to the end or the first error, the \<open>i\<close>-th call of \<^verbatim>\<open>Read\<close> with a buffer of \<open>sz i\<close> bytes,
  for at most \<open>fuel\<close> calls; \<^verbatim>\<open>io.Copy\<close> uses one buffer size for all of them.
\<close>

fun copy_reader :: "nat \<Rightarrow> blobStore \<Rightarrow> (nat \<Rightarrow> nat) \<Rightarrow> reconReader \<Rightarrow> (bytes \<times> read_err option) option" where
  "copy_reader 0 st sz r = None"
| "copy_reader (Suc fuel) st sz r =
     (case Read st (sz 0) r of
        (b, Some ReadEOF, _) \<Rightarrow> Some (b, None)
      | (b, Some e, _) \<Rightarrow> Some (b, Some e)
      | (b, None, r') \<Rightarrow> map_option (\<lambda>(b', e). (b @ b', e)) (copy_reader fuel st (\<lambda>i. sz (Suc i)) r'))"

definition copyBufSize :: nat where "copyBufSize = 32 * 1024"

definition ReconstructUncompressed ::
    "nat \<Rightarrow> cslib \<Rightarrow> bytes \<Rightarrow> blobStore \<Rightarrow> (bytes \<times> (cs_error + read_err) option) option" where
  "ReconstructUncompressed fuel L index st =
     (case NewReconstructingReader L index of
        Inl e \<Rightarrow> Some ([], Some (Inl e))
      | Inr r \<Rightarrow> map_option (map_prod id (map_option Inr)) (copy_reader fuel st (\<lambda>_. copyBufSize) r))"

text \<open>\<^verbatim>\<open>NullBlobStore\<close>: zeros of the requested length.\<close>

definition NullBlobStore :: blobStore where
  "NullBlobStore digest sz = Inr (plain_rdr (replicate (nat sz) 0))"

end
