(* ===== verification/Compact_Format.thy ===== *)
theory Compact_Format
  imports Compact_Reader
begin

text \<open>
  The on-disk format of compact streams: what the writer emits is what the readers parse back.
\<close>

section \<open>The header\<close>

text \<open>The header a reader gets back from the writer \<open>w\<close> with a stream of \<open>n\<close> bytes.\<close>

definition header_of :: "csWriter \<Rightarrow> nat \<Rightarrow> header" where
  "header_of w n =
     \<lparr>Version = FormatVersion, HashAlgo = hashAlgo w, HashSize = hashSize w, StreamCompression = streamCompression w,
      OriginalCompression = originalCompression w, RefTableOffset = 128,
      RefTableSize = of_nat (length (refs w) * (16 + hashSize w)),
      StreamOffset = 128 + of_nat (length (refs w) * (16 + hashSize w)), StreamSize = of_nat n,
      HasCompressedStreamInfo = hasCompressedStreamInfo w,
      CompressedStreamDigest = (if hasCompressedStreamInfo w then compressedStreamDigest w else []),
      CompressedStreamSize = (if hasCompressedStreamInfo w then compressedStreamSize w else 0)\<rparr>"

lemmas header_consts = magic_def FormatVersion_def headerSize_def

lemma length_base_header [simp]: "length (base_header w a b c d) = 128"
  by (simp add: base_header_def headerSize_def Let_def)

lemma base_header_fields:
  "slice 0 6 (base_header w a b c d) = magic" "base_header w a b c d ! 6 = 0"
  "base_header w a b c d ! 7 = FormatVersion" "base_header w a b c d ! 12 = streamCompression w"
  "base_header w a b c d ! 13 = Compression (originalCompression w)"
  "base_header w a b c d ! 14 = (if Seekable (originalCompression w) then 1 else 0)"
  "base_header w a b c d ! 15 = CompressionLevel (originalCompression w)"
  "base_header w a b c d ! 16 = CompressorJobs (originalCompression w)"
  "base_header w a b c d ! 56 = 0"
  by (simp_all add: base_header_def header_consts copy_at_simps Let_def)

lemma base_header_ints:
  "slice 8 10 (base_header w a b c d) = PutUint16 (hashAlgo w)"
  "slice 10 12 (base_header w a b c d) = PutUint16 (of_nat (hashSize w))"
  "slice 20 24 (base_header w a b c d) = PutUint32 (EndPadding (originalCompression w))"
  "slice 24 32 (base_header w a b c d) = PutUint64 a"
  "slice 32 40 (base_header w a b c d) = PutUint64 b"
  "slice 40 48 (base_header w a b c d) = PutUint64 c"
  "slice 48 56 (base_header w a b c d) = PutUint64 d"
  by (simp_all add: base_header_def header_consts copy_at_simps Let_def)

text \<open>The optional fields lie behind byte 56, so they leave the others alone.\<close>

lemma info_header_frame:
  assumes "info_header w h = Some h'" and "length h = 128" and "hashSize w = 32"
    and "hasCompressedStreamInfo w \<Longrightarrow> length (compressedStreamDigest w) = 32"
  shows "hi \<le> 56 \<Longrightarrow> slice lo hi h' = slice lo hi h" and "k < 56 \<Longrightarrow> h' ! k = h ! k" and "length h' = 128"
  using assms by (auto simp: info_header_def headerSize_def Let_def copy_at_simps split: if_splits)

lemma info_header_fields:
  assumes "info_header w h = Some h'" and "length h = 128" and "hashSize w = 32" and "h ! 56 = 0"
    and "hasCompressedStreamInfo w \<Longrightarrow> length (compressedStreamDigest w) = 32"
  shows "(and (h' ! 56) flagCompressedStreamInfo \<noteq> 0) = hasCompressedStreamInfo w"
    and "hasCompressedStreamInfo w \<Longrightarrow> slice 64 72 h' = PutUint64 (compressedStreamSize w)"
    and "hasCompressedStreamInfo w \<Longrightarrow> slice 72 104 h' = compressedStreamDigest w"
  using assms by (auto simp: info_header_def headerSize_def flagCompressedStreamInfo_def Let_def copy_at_simps split: if_splits)

text \<open>What parsing requires of the writer: SHA-256 digests and a reference table within the limit.\<close>

definition writable :: "csWriter \<Rightarrow> bool" where
  "writable w \<longleftrightarrow> hashAlgo w = HashAlgoSHA256 \<and> hashSize w = 32 \<and> length (refs w) * 48 \<le> 2 ^ 31 \<and>
     (hasCompressedStreamInfo w \<longrightarrow> length (compressedStreamDigest w) = 32) \<and>
     (\<forall>r \<in> set (refs w). length (Digest r) = 32)"

lemma table_size:
  assumes "n * 48 \<le> 2 ^ 31"
  shows "unat (of_nat (n * 48) :: u64) = n * 48" and "\<not> (of_nat (n * 48) :: u64) > maxRefTableSize"
    and "(of_nat (n * 48) :: u64) mod 48 = 0" and "unat ((of_nat (n * 48) :: u64) div 48) = n"
proof -
  have lt: "n * 48 < 2 ^ 64" using assms by (rule le_less_trans) simp
  show u: "unat (of_nat (n * 48) :: u64) = n * 48"
    by (rule unat_u64 [OF lt])
  have "unat maxRefTableSize = 2 ^ 31" by (simp add: maxRefTableSize_def)
  with u assms show "\<not> (of_nat (n * 48) :: u64) > maxRefTableSize"
    by (simp only: word_less_nat_alt not_less)
  have c: "unat (48 :: u64) = 48" by simp
  have "unat ((of_nat (n * 48) :: u64) mod 48) = 0"
    by (simp only: unat_mod_distrib u c mod_mult_self2_is_0)
  then show "(of_nat (n * 48) :: u64) mod 48 = 0" by (simp only: unat_eq_0)
  show "unat ((of_nat (n * 48) :: u64) div 48) = n"
    by (simp only: unat_div_distrib u c)
qed

lemma parseHeader_written:
  assumes "writable w"
    and "info_header w (base_header w 128 (of_nat (length (refs w) * 48)) (128 + of_nat (length (refs w) * 48)) (of_nat n)) = Some raw"
  shows "parseHeader raw = Inr (header_of w n)" and "length raw = 128"
proof -
  let ?h = "base_header w 128 (of_nat (length (refs w) * 48)) (128 + of_nat (length (refs w) * 48)) (of_nat n)"
  have w: "hashAlgo w = HashAlgoSHA256" "hashSize w = 32" "length (refs w) * 48 \<le> 2 ^ 31"
    "hasCompressedStreamInfo w \<Longrightarrow> length (compressedStreamDigest w) = 32"
    using assms(1) by (auto simp: writable_def)
  note frame = info_header_frame [OF assms(2) length_base_header w(2,4)]
  note fields = info_header_fields [OF assms(2) length_base_header w(2) base_header_fields(9) w(4)]
  have raw: "raw_fields raw = (header_of w n)\<lparr>HasCompressedStreamInfo := False,
      CompressedStreamDigest := [], CompressedStreamSize := 0\<rparr>"
    by (simp add: raw_fields_def header_of_def frame base_header_fields base_header_ints w(1,2))
  have hs: "HashSize (header_of w n) = 32" "HashAlgo (header_of w n) = HashAlgoSHA256"
    "RefTableSize (header_of w n) = of_nat (length (refs w) * 48)"
    by (simp_all add: header_of_def w(1,2))
  have "parse_info raw (raw_fields raw) = Inr (header_of w n)"
    using fields by (cases "hasCompressedStreamInfo w") (simp_all add: parse_info_def raw hs headerSize_def header_of_def w(2))
  then show "parseHeader raw = Inr (header_of w n)"
    using table_size [OF w(3)]
    by (simp add: parseHeader_def frame base_header_fields raw hs sha256_Size_def RefEntrySize_def Let_def)
  show "length raw = 128" by (rule frame(3))
qed

section \<open>The reference table\<close>

text \<open>What the table promises: bounded offsets and sizes, sorted and without overlap from \<open>p\<close> on.\<close>

fun refs_ok :: "u64 \<Rightarrow> casRef list \<Rightarrow> bool" where
  "refs_ok p [] = True"
| "refs_ok p (r # rs) =
     (Size r \<le> MaxInt64 \<and> Offset r \<le> MaxInt64 \<and> p \<le> Offset r \<and> refs_ok (Offset r + Size r) rs)"

lemma length_encode_ref [simp]: "length (Digest r) = 32 \<Longrightarrow> length (encode_ref r) = 48"
  by (simp add: encode_ref_def)

lemma ref_at_encoded:
  assumes "HashSize h = 32" and "length pre = i * 48" and "length (Digest r) = 32"
  shows "ref_at h (pre @ encode_ref r @ post) i = r"
proof -
  have "slice (i * 48) (i * 48 + 8) (pre @ encode_ref r @ post) = PutUint64 (Offset r)"
    "slice (i * 48 + 8) (i * 48 + 40) (pre @ encode_ref r @ post) = Digest r"
    "slice (i * 48 + 40) (i * 48 + 48) (pre @ encode_ref r @ post) = PutUint64 (Size r)"
    using assms by (simp_all add: encode_ref_def slice_def)
  then show ?thesis
    by (simp add: ref_at_def RefEntrySize_def assms(1) Let_def algebra_simps)
qed

lemma read_refs_encoded:
  assumes "HashSize h = 32" and "\<forall>r \<in> set rs. length (Digest r) = 32" and "refs_ok p rs" and "length pre = i * 48"
  shows "read_refs h (pre @ concat (map encode_ref rs)) p i (length rs) = Inr rs"
  using assms(2-4)
proof (induction rs arbitrary: p i pre)
  case (Cons r rs)
  have "ref_at h (pre @ encode_ref r @ concat (map encode_ref rs)) i = r"
    using Cons.prems by (intro ref_at_encoded [OF assms(1)]) simp_all
  moreover have "read_refs h ((pre @ encode_ref r) @ concat (map encode_ref rs)) (Offset r + Size r) (Suc i) (length rs) = Inr rs"
    using Cons.prems by (intro Cons.IH) simp_all
  ultimately show ?case using Cons.prems by (simp add: not_less Let_def)
qed simp

lemma read_refs_sound: "read_refs h data p i n = Inr rs \<Longrightarrow> refs_ok p rs \<and> length rs = n"
proof (induction n arbitrary: p i rs)
  case (Suc n)
  then obtain rs' where "rs = ref_at h data i # rs'"
    and "read_refs h data (Offset (ref_at h data i) + Size (ref_at h data i)) (Suc i) n = Inr rs'"
    and "Size (ref_at h data i) \<le> MaxInt64" "Offset (ref_at h data i) \<le> MaxInt64" "p \<le> Offset (ref_at h data i)"
    by (auto simp: Let_def not_less map_sum_def split: if_splits sum.splits)
  with Suc.IH show ?case by auto
qed simp

lemma end_no_wrap:
  assumes "Size r \<le> MaxInt64" and "Offset r \<le> MaxInt64"
  shows "unat (Offset r + Size r) = unat (Offset r) + unat (Size r)"
proof -
  have m: "unat MaxInt64 = 2 ^ 63 - 1" by (simp add: MaxInt64_def)
  have "unat (Offset r) + unat (Size r) < 2 ^ 64"
    using assms unfolding word_le_nat_alt m by simp
  then show ?thesis by (simp add: unat_word_ariths)
qed

lemma refs_ok_sorted:
  assumes "refs_ok p rs"
  shows "(\<forall>r \<in> set rs. unat p \<le> unat (Offset r)) \<and>
    sorted_wrt (\<lambda>a b. unat (Offset a) + unat (Size a) \<le> unat (Offset b)) rs"
  using assms
proof (induction rs arbitrary: p)
  case (Cons r rs)
  then have e: "unat (Offset r + Size r) = unat (Offset r) + unat (Size r)"
    and ok: "refs_ok (Offset r + Size r) rs" and p: "unat p \<le> unat (Offset r)"
    by (simp_all add: end_no_wrap word_le_nat_alt)
  from Cons.IH [OF ok] p show ?case unfolding e by (auto intro: order_trans [OF p]) 
qed simp

end
