(* ===== verification/Compact_Roundtrip.thy ===== *)
theory Compact_Roundtrip
  imports Compact_Format
begin

text \<open>
  Writing a stream piece by piece and reconstructing it.  A stream is a sequence of pieces, each
  inline bytes or a content-addressed blob; its content is their concatenation.
\<close>

section \<open>Pieces\<close>

datatype piece = Inline bytes | Blob bytes bytes

fun piece_bytes :: "piece \<Rightarrow> bytes" where
  "piece_bytes (Inline b) = b"
| "piece_bytes (Blob d c) = c"

fun write_piece :: "piece \<Rightarrow> csWriter \<Rightarrow> csWriter" where
  "write_piece (Inline b) w = fst (WriteStreamBytes b w)"
| "write_piece (Blob d c) w = fst (WriteCASRef d (of_nat (length c)) w)"

definition contents :: "piece list \<Rightarrow> bytes" where "contents ps = concat (map piece_bytes ps)"

fun inlines :: "piece list \<Rightarrow> bytes" where
  "inlines [] = []"
| "inlines (Inline b # ps) = b @ inlines ps"
| "inlines (Blob d c # ps) = inlines ps"

text \<open>The references of the pieces, the first piece at offset \<open>p\<close>.\<close>

fun layout :: "nat \<Rightarrow> piece list \<Rightarrow> casRef list" where
  "layout p [] = []"
| "layout p (Inline b # ps) = layout (p + length b) ps"
| "layout p (Blob d c # ps) = \<lparr>Offset = of_nat p, Digest = d, Size = of_nat (length c)\<rparr> # layout (p + length c) ps"

fun digests_ok :: "nat \<Rightarrow> piece list \<Rightarrow> bool" where
  "digests_ok n [] = True"
| "digests_ok n (Inline b # ps) = digests_ok n ps"
| "digests_ok n (Blob d c # ps) = (length d = n \<and> digests_ok n ps)"

lemma contents_simps [simp]:
  "contents [] = []" "contents (p # ps) = piece_bytes p @ contents ps"
  by (simp_all add: contents_def)

lemma length_inlines: "length (inlines ps) \<le> length (contents ps)"
  by (induction ps rule: inlines.induct) simp_all

lemma write_pieces:
  assumes "werr w = None" and "digests_ok (hashSize w) ps" and "currentOffset w = of_nat p"
  shows "fold write_piece ps w = w\<lparr>streamBuf := streamBuf w @ inlines ps, refs := refs w @ layout p ps,
     currentOffset := of_nat (p + length (contents ps))\<rparr>"
  using assms
proof (induction ps arbitrary: w p)
  case (Cons q ps)
  show ?case
  proof (cases q)
    case (Inline b)
    let ?w = "w\<lparr>streamBuf := streamBuf w @ b, currentOffset := of_nat (p + length b)\<rparr>"
    have "write_piece q w = ?w"
      using Cons.prems Inline by (simp add: WriteStreamBytes_def)
    with Cons.IH [of ?w "p + length b"] Cons.prems Inline show ?thesis by (simp add: add.assoc)
  next
    case (Blob d c)
    let ?w = "w\<lparr>refs := refs w @ [\<lparr>Offset = of_nat p, Digest = d, Size = of_nat (length c)\<rparr>],
      currentOffset := of_nat (p + length c)\<rparr>"
    have "write_piece q w = ?w"
      using Cons.prems Blob by (simp add: WriteCASRef_def)
    with Cons.IH [of ?w "p + length c"] Cons.prems Blob show ?thesis by (simp add: add.assoc)
  qed
qed simp

lemma layout_digests: "digests_ok n ps \<Longrightarrow> r \<in> set (layout p ps) \<Longrightarrow> length (Digest r) = n"
  by (induction p ps rule: layout.induct) auto

lemma small_word:
  assumes "n < 2 ^ 63"
  shows "unat (of_nat n :: u64) = n" and "(of_nat n :: u64) \<le> MaxInt64" and "to_int64 (of_nat n) = int n"
proof -
  show u: "unat (of_nat n :: u64) = n" using assms by (intro unat_u64) simp
  then show "(of_nat n :: u64) \<le> MaxInt64"
    using assms by (simp add: word_le_nat_alt MaxInt64_def)
  show "to_int64 (of_nat n) = int n"
    unfolding to_int64_def by (rule sint_u64 [OF assms])
qed

lemma layout_ok:
  "p \<le> q \<Longrightarrow> q + length (contents ps) < 2 ^ 63 \<Longrightarrow> refs_ok (of_nat p) (layout q ps)"
proof (induction q ps arbitrary: p rule: layout.induct)
  case (2 q b ps)
  from "2.prems" have "p \<le> q + length b" "q + length b + length (contents ps) < 2 ^ 63" by simp_all
  with "2.IH" show ?case by simp
next
  case (3 q d c ps)
  have b: "q < 2 ^ 63" "p < 2 ^ 63" "length c < 2 ^ 63" "q + length c + length (contents ps) < 2 ^ 63"
    using "3.prems" by simp_all
  have "(of_nat p :: u64) \<le> of_nat q"
    using "3.prems" b by (simp add: word_le_nat_alt small_word)
  moreover have "refs_ok (of_nat (q + length c)) (layout (q + length c) ps)"
    using b(4) by (intro "3.IH") simp_all
  ultimately show ?case using b by (simp add: small_word)
qed simp

section \<open>Streaming reconstruction\<close>

text \<open>The store returns every blob of the stream, as long as recorded.\<close>

fun served :: "blobStore \<Rightarrow> piece list \<Rightarrow> bool" where
  "served st [] = True"
| "served st (Inline b # ps) = served st ps"
| "served st (Blob d c # ps) =
     ((case st d (int (length c)) of Inl _ \<Rightarrow> False | Inr r \<Rightarrow> take (length c) (rdr_bytes r) = c) \<and> served st ps)"

lemma concat_drop_chunks: "concat (drop_chunks n cs) = drop n (concat cs)"
  by (induction n cs rule: drop_chunks.induct) auto

lemma CopyN_enough:
  "nat n \<le> length (rdr_bytes r) \<Longrightarrow>
   CopyN r n = (take (nat n) (rdr_bytes r), None, r\<lparr>chunks := drop_chunks (nat n) (chunks r)\<rparr>)"
  by (simp add: CopyN_def Let_def)

lemma rdr_bytes_drop [simp]: "rdr_bytes (r\<lparr>chunks := drop_chunks n (chunks r)\<rparr>) = drop n (rdr_bytes r)"
  by (simp add: rdr_bytes_def concat_drop_chunks)

text \<open>\<open>g\<close> is the inline data written since position \<open>pos\<close> and not yet copied.\<close>

lemma write_refs_pieces:
  assumes "served st ps" and "pos + length g + length (contents ps) < 2 ^ 63"
    and "rdr_bytes stream = g @ inlines ps @ tail"
  shows "\<exists>b p s. write_refs st (of_nat pos) stream (layout (pos + length g) ps) = (b, None, p, s) \<and>
    b @ rdr_bytes s = g @ contents ps @ tail \<and> tailErr s = tailErr stream"
  using assms
proof (induction ps arbitrary: pos g stream)
  case Nil
  then show ?case by simp
next
  case (Cons q ps)
  show ?case
  proof (cases q)
    case (Inline x)
    with Cons.prems Cons.IH [of pos "g @ x" stream] show ?thesis by (simp add: add.assoc)
  next
    case (Blob d c)
    obtain r where r: "st d (int (length c)) = Inr r" "take (length c) (rdr_bytes r) = c" "served st ps"
      using Cons.prems(1) Blob by (auto split: sum.splits)
    have b: "pos < 2 ^ 63" "length g < 2 ^ 63" "length c < 2 ^ 63" "pos + length g < 2 ^ 63"
      "pos + length g + length c + length (contents ps) < 2 ^ 63"
      using Cons.prems(2) Blob by simp_all
    have gap: "(of_nat (pos + length g) :: u64) - of_nat pos = of_nat (length g)" by simp
    have ord: "\<not> (of_nat (pos + length g) :: u64) < of_nat pos"
      using b by (simp add: word_less_nat_alt small_word del: of_nat_add)
    define stream1 where "stream1 = (if length g > 0 then stream\<lparr>chunks := drop_chunks (length g) (chunks stream)\<rparr> else stream)"
    have copy: "(if (of_nat (length g) :: u64) > 0 then CopyN stream (to_int64 (of_nat (length g))) else ([], None, stream)) = (g, None, stream1)"
      using Cons.prems(3) b(2)
      by (auto simp: CopyN_enough small_word stream1_def word_less_nat_alt)
    have "rdr_bytes stream1 = inlines ps @ tail" "tailErr stream1 = tailErr stream"
      using Cons.prems(3) Blob by (auto simp: stream1_def)
    with Cons.IH [of "pos + length g + length c" "[]" stream1] r(3) b(5)
    obtain b3 p3 s3 where rec: "write_refs st (of_nat (pos + length g + length c)) stream1 (layout (pos + length g + length c) ps) = (b3, None, p3, s3)"
      "b3 @ rdr_bytes s3 = contents ps @ tail" "tailErr s3 = tailErr stream"
      by auto
    have "length c \<le> length (rdr_bytes r)" using r(2) by (metis length_take min.cobounded2 min.commute)
    then have blob: "CopyN r (int (length c)) = (c, None, r\<lparr>chunks := drop_chunks (length c) (chunks r)\<rparr>)"
      using r(2) by (simp add: CopyN_enough)
    have "write_refs st (of_nat pos) stream (layout (pos + length g) (q # ps)) = (g @ c @ b3, None, p3, s3)"
      using rec(1) r(1) blob b(3) copy ord gap
      by (simp add: Blob small_word Let_def add.assoc)
    with rec(2,3) Blob show ?thesis by auto
  qed
qed

lemma writeReconstructed_pieces:
  assumes "served st ps" and "length (contents ps) < 2 ^ 63"
    and "rdr_bytes stream = inlines ps" and "tailErr stream = None"
  shows "writeReconstructed st stream (layout 0 ps) = (contents ps, None)"
proof -
  from write_refs_pieces [of st ps 0 "[]" stream "[]"] assms obtain b p s
    where "write_refs st 0 stream (layout 0 ps) = (b, None, p, s)" "b @ rdr_bytes s = contents ps" "tailErr s = None"
    by auto
  then show ?thesis by (simp add: writeReconstructed_def Copy_all_def)
qed

end
