(* ===== verification/Compact_Stream.thy ===== *)
theory Compact_Stream
  imports Compact_Roundtrip
begin

text \<open>
  The incremental reader against the streaming writer: both compute the abstract interleaving
  \<open>weave\<close> of the inline bytes with the blobs.
\<close>

section \<open>The abstract interleaving\<close>

fun weave :: "blobStore \<Rightarrow> nat \<Rightarrow> bytes \<Rightarrow> casRef list \<Rightarrow> bytes option" where
  "weave st pos s [] = Some s"
| "weave st pos s (r # rs) =
     (let gap = unat (Offset r) - pos in
      if unat (Offset r) < pos \<or> gap > length s then None
      else case st (Digest r) (to_int64 (Size r)) of
             Inl _ \<Rightarrow> None
           | Inr blob \<Rightarrow>
               if unat (Size r) > length (rdr_bytes blob) then None
               else map_option (\<lambda>o'. take gap s @ take (unat (Size r)) (rdr_bytes blob) @ o')
                      (weave st (unat (Offset r) + unat (Size r)) (drop gap s) rs))"

lemma to_int64_small: "v \<le> MaxInt64 \<Longrightarrow> to_int64 v = int (unat v)"
proof -
  assume "v \<le> MaxInt64"
  then have "unat v < 2 ^ 63" by (simp add: word_le_nat_alt MaxInt64_def)
  from small_word(3) [OF this] show ?thesis by simp
qed

lemma gap_word:
  assumes "\<not> Offset r < pos" and "Offset r \<le> MaxInt64"
  shows "unat (Offset r - pos) = unat (Offset r) - unat pos" and "to_int64 (Offset r - pos) = int (unat (Offset r) - unat pos)"
proof -
  show u: "unat (Offset r - pos) = unat (Offset r) - unat pos"
    using assms(1) by (intro unat_sub) simp
  have "Offset r - pos \<le> MaxInt64"
    using assms(2) by (simp add: word_le_nat_alt u)
  from to_int64_small [OF this] u show "to_int64 (Offset r - pos) = int (unat (Offset r) - unat pos)" by simp
qed

lemma CopyN_cases:
  "CopyN r (int n) = (b, e, r') \<Longrightarrow>
   (if n \<le> length (rdr_bytes r) then b = take n (rdr_bytes r) \<and> e = None \<and> rdr_bytes r' = drop n (rdr_bytes r) \<and> tailErr r' = tailErr r
    else e = Some (tailErr r))"
  by (auto simp: CopyN_def Let_def split: if_splits)

lemma write_refs_weave:
  assumes "refs_ok pos rs" and "write_refs st pos stream rs = (b, None, p, s)"
  shows "weave st (unat pos) (rdr_bytes stream) rs = Some (b @ rdr_bytes s) \<and> tailErr s = tailErr stream"
  using assms
proof (induction rs arbitrary: pos stream b)
  case (Cons r rs)
  have ok: "Size r \<le> MaxInt64" "Offset r \<le> MaxInt64" "\<not> Offset r < pos" "refs_ok (Offset r + Size r) rs"
    using Cons.prems(1) by (simp_all add: not_less)
  let ?gap = "unat (Offset r) - unat pos"
  obtain b1 e1 s1 where c1: "(if Offset r - pos > 0 then CopyN stream (to_int64 (Offset r - pos)) else ([], None, stream)) = (b1, e1, s1)"
    by (metis prod_cases3)
  have e1: "e1 = None" using Cons.prems(2) c1 ok(3) by (auto simp: Let_def split: if_splits option.splits)
  have one: "?gap \<le> length (rdr_bytes stream) \<and> b1 = take ?gap (rdr_bytes stream) \<and>
      rdr_bytes s1 = drop ?gap (rdr_bytes stream) \<and> tailErr s1 = tailErr stream"
  proof (cases "Offset r - pos > 0")
    case True
    with c1 gap_word [OF ok(3,2)] have "CopyN stream (int ?gap) = (b1, e1, s1)" by simp
    from CopyN_cases [OF this] e1 show ?thesis by (auto split: if_splits)
  next
    case False
    then have "?gap = 0" using gap_word(1) [OF ok(3,2)] by (simp add: word_gt_0)
    with False c1 show ?thesis by simp
  qed
  obtain blob where blob: "st (Digest r) (to_int64 (Size r)) = Inr blob"
    using Cons.prems(2) c1 e1 ok(3) by (cases "st (Digest r) (to_int64 (Size r))") (auto simp: Let_def split: if_splits)
  obtain b2 e2 s2 where c2: "CopyN blob (to_int64 (Size r)) = (b2, e2, s2)" by (metis prod_cases3)
  have e2: "e2 = None" using Cons.prems(2) c1 c2 e1 blob ok(3) by (auto simp: Let_def split: if_splits option.splits)
  have two: "unat (Size r) \<le> length (rdr_bytes blob) \<and> b2 = take (unat (Size r)) (rdr_bytes blob)"
    using CopyN_cases [of blob "unat (Size r)" b2 e2 s2] c2 e2 to_int64_small [OF ok(1)] by (auto split: if_splits)
  obtain b3 where "write_refs st (Offset r + Size r) s1 rs = (b3, None, p, s)" and b: "b = b1 @ b2 @ b3"
    using Cons.prems(2) c1 c2 e1 e2 blob ok(3) by (auto simp: Let_def split: prod.splits if_splits)
  from Cons.IH [OF ok(4) this(1)] have "weave st (unat (Offset r) + unat (Size r)) (rdr_bytes s1) rs = Some (b3 @ rdr_bytes s)"
    and "tailErr s = tailErr s1"
    by (simp_all add: end_no_wrap [OF ok(1,2)])
  with one two blob b ok(3) show ?case by (auto simp: Let_def word_less_nat_alt)
qed simp

text \<open>Both ends of a gap: the inline bytes before the next reference can be taken one part at a time.\<close>

lemma weave_Cons_iff:
  "weave st pos s (r # rs) = Some out \<longleftrightarrow>
     pos \<le> unat (Offset r) \<and> unat (Offset r) - pos \<le> length s \<and>
     (\<exists>blob o'. st (Digest r) (to_int64 (Size r)) = Inr blob \<and> unat (Size r) \<le> length (rdr_bytes blob) \<and>
        weave st (unat (Offset r) + unat (Size r)) (drop (unat (Offset r) - pos) s) rs = Some o' \<and>
        out = take (unat (Offset r) - pos) s @ take (unat (Size r)) (rdr_bytes blob) @ o')"
  by (auto simp: Let_def split: sum.splits)

lemma weave_advance:
  assumes "weave st pos s (r # rs) = Some out" and "k \<le> unat (Offset r) - pos"
  shows "weave st (pos + k) (drop k s) (r # rs) = Some (drop k out) \<and> take k out = take k s \<and> k \<le> length s"
proof -
  let ?gap = "unat (Offset r) - pos"
  obtain blob o' where f: "pos \<le> unat (Offset r)" "?gap \<le> length s"
    "st (Digest r) (to_int64 (Size r)) = Inr blob" "unat (Size r) \<le> length (rdr_bytes blob)"
    "weave st (unat (Offset r) + unat (Size r)) (drop ?gap s) rs = Some o'"
    and out: "out = take ?gap s @ take (unat (Size r)) (rdr_bytes blob) @ o'"
    using assms(1) unfolding weave_Cons_iff by blast
  have g: "unat (Offset r) - (pos + k) = ?gap - k" by simp
  have d: "drop (?gap - k) (drop k s) = drop ?gap s"
    using assms(2) by (simp only: drop_drop le_add_diff_inverse2)
  have "drop k out = take (?gap - k) (drop k s) @ take (unat (Size r)) (rdr_bytes blob) @ o'"
    using out assms(2) f(2) by (simp add: drop_take)
  moreover have "take k out = take k s" using out assms(2) f(2) by (simp add: min_def)
  moreover have "pos + k \<le> unat (Offset r)" "?gap - k \<le> length (drop k s)" "k \<le> length s"
    using assms(2) f(1,2) by simp_all
  ultimately show ?thesis unfolding weave_Cons_iff g d using f(3-5) by blast
qed

section \<open>The inline bytes behind the references\<close>

text \<open>
  A stream may report its end together with its last bytes (\<open>eager\<close>).  The reader hands such a report on,
  so that it must not come before the last reference is served: inline bytes have to follow it.
\<close>

fun inline_rest :: "nat \<Rightarrow> bytes \<Rightarrow> casRef list \<Rightarrow> bytes" where
  "inline_rest pos s [] = s"
| "inline_rest pos s (r # rs) = inline_rest (unat (Offset r) + unat (Size r)) (drop (unat (Offset r) - pos) s) rs"

definition end_in_time :: "rdr \<Rightarrow> nat \<Rightarrow> casRef list \<Rightarrow> bool" where
  "end_in_time stream pos rs \<longleftrightarrow> (eager stream \<longrightarrow> rs = [] \<or> inline_rest pos (rdr_bytes stream) rs \<noteq> [])"

lemma inline_rest_Nil [simp]: "inline_rest pos [] rs = []"
  by (induction rs arbitrary: pos) simp_all

lemma inline_rest_advance:
  "k \<le> unat (Offset r) - pos \<Longrightarrow> inline_rest (pos + k) (drop k s) (r # rs) = inline_rest pos s (r # rs)"
proof -
  assume "k \<le> unat (Offset r) - pos"
  then have "unat (Offset r) - (pos + k) + k = unat (Offset r) - pos" by simp
  then show ?thesis by simp
qed

lemma end_in_time_pos: "end_in_time s pos rs \<Longrightarrow> (rs \<noteq> [] \<Longrightarrow> pos = pos') \<Longrightarrow> end_in_time s pos' rs"
  by (cases rs) (auto simp: end_in_time_def)

section \<open>The state of the reader\<close>

text \<open>
  \<open>ahead st r cur out\<close>: the reader \<open>r\<close> has still to deliver \<open>out\<close>, of which \<open>cur\<close> is the rest of
  the blob it is serving.
\<close>

definition ahead :: "blobStore \<Rightarrow> reconReader \<Rightarrow> bytes \<Rightarrow> bytes \<Rightarrow> bool" where
  "ahead st r cur out \<longleftrightarrow>
     rErr r = None \<and> tailErr (rStream r) = None \<and> end_in_time (rStream r) (unat (outputPos r) + length cur) (rRefs r) \<and>
     (if blobRemaining r > 0 then
        (case rBlob r of None \<Rightarrow> False | Some blob \<Rightarrow>
           tailErr blob = None \<and> nat (blobRemaining r) \<le> length (rdr_bytes blob) \<and>
           cur = take (nat (blobRemaining r)) (rdr_bytes blob))
      else cur = []) \<and>
     (\<forall>ref \<in> set (rRefs r). Size ref \<le> MaxInt64 \<and> Offset ref \<le> MaxInt64) \<and>
     (\<exists>o'. weave st (unat (outputPos r) + length cur) (rdr_bytes (rStream r)) (rRefs r) = Some o' \<and> out = cur @ o')"

definition rdr_cost :: "rdr \<Rightarrow> nat" where "rdr_cost r = length (chunks r) + length (rdr_bytes r)"

definition ref_cost :: "blobStore \<Rightarrow> casRef \<Rightarrow> nat" where
  "ref_cost st ref = Suc (case st (Digest ref) (to_int64 (Size ref)) of Inl _ \<Rightarrow> 0 | Inr blob \<Rightarrow> rdr_cost blob)"

definition reader_cost :: "blobStore \<Rightarrow> reconReader \<Rightarrow> nat" where
  "reader_cost st r = rdr_cost (rStream r) + (case rBlob r of None \<Rightarrow> 0 | Some b \<Rightarrow> rdr_cost b) +
     sum_list (map (ref_cost st) (rRefs r))"

lemma rdr_read_some:
  assumes "rdr_read want r = (b, err, r')" and "chunks r \<noteq> []" and "0 < want"
  shows "rdr_bytes r = b @ rdr_bytes r'" and "length b \<le> want" and "rdr_cost r' < rdr_cost r"
    and "tailErr r' = tailErr r" and "eager r' = eager r"
    and "err \<noteq> None \<Longrightarrow> eager r \<and> rdr_bytes r' = []"
  using assms by (auto simp: rdr_read_def rdr_bytes_def rdr_cost_def Let_def split: list.splits if_splits)

lemma unat_add_small:
  assumes "unat pos + k < 2 ^ 64"
  shows "unat (pos + of_nat k :: u64) = unat pos + k"
proof -
  have "unat (of_nat k :: u64) = k" using assms by (intro unat_u64) simp
  with assms show ?thesis by (simp add: unat_word_ariths)
qed

lemma weave_pos:
  assumes "weave st pos s rs = Some out" and "rs \<noteq> [] \<Longrightarrow> pos = pos'"
  shows "weave st pos' s rs = Some out"
  using assms by (cases rs) auto

lemma weave_bound: "weave st pos s rs = Some out \<Longrightarrow> rs \<noteq> [] \<Longrightarrow> pos < 2 ^ 64"
proof (cases rs)
  case (Cons r rs')
  moreover have "unat (Offset r) < 2 ^ 64" using unsigned_less [of "Offset r"] by simp
  ultimately show "weave st pos s rs = Some out \<Longrightarrow> pos < 2 ^ 64"
    by (auto simp: Let_def split: if_splits)
qed simp

lemma serve_blob_step:
  assumes "ahead st r cur out" and "0 < blobRemaining r" and "rBlob r = Some blob" and "0 < p"
    and "serve_blob p blob r = (b, err, r')"
  shows "err = None \<and> (\<exists>cur' out'. ahead st r' cur' out' \<and> out = b @ out') \<and> reader_cost st r' < reader_cost st r"
proof -
  let ?n = "nat (blobRemaining r)" and ?want = "if int p > blobRemaining r then nat (blobRemaining r) else p"
  obtain o' where blob: "tailErr blob = None" "?n \<le> length (rdr_bytes blob)" "cur = take ?n (rdr_bytes blob)"
    and w: "weave st (unat (outputPos r) + length cur) (rdr_bytes (rStream r)) (rRefs r) = Some o'" "out = cur @ o'"
    using assms(1-3) by (auto simp: ahead_def)
  obtain e blob' where rd: "rdr_read ?want blob = (b, e, blob')"
    using assms(5) by (auto simp: serve_blob_def Let_def split: prod.splits if_splits option.splits)
  have ne: "chunks blob \<noteq> []" using blob(2) assms(2) by (auto simp: rdr_bytes_def)
  have want: "0 < ?want" using assms(2,4) by simp
  note R = rdr_read_some [OF rd ne want]
  have len: "length b \<le> ?n" using R(2) by (simp split: if_splits)
  let ?rem = "blobRemaining r - int (length b)"
  have rem: "0 \<le> ?rem" "nat ?rem = ?n - length b" using len assms(2) by simp_all
  have cur: "cur = b @ take (nat ?rem) (rdr_bytes blob')" using blob(3) R(1) len rem by simp
  have err: "e = None \<or> ?rem = 0 \<and> e = Some ReadEOF"
  proof (cases e)
    case (Some x)
    then have "rdr_bytes blob' = []" using R(6) by simp
    then have "length b = length (rdr_bytes blob)" using R(1) by simp
    then have "?rem = 0" using blob(2) len assms(2) by simp
    moreover have "x = ReadEOF" using rd Some blob(1) by (auto simp: rdr_read_def Let_def split: list.splits if_splits)
    ultimately show ?thesis using Some by simp
  qed simp
  let ?r1 = "r\<lparr>outputPos := outputPos r + of_nat (length b), blobRemaining := ?rem, rBlob := if ?rem = 0 then None else Some blob'\<rparr>"
  have r': "err = None \<and> r' = ?r1"
    using assms(5) rd err by (auto simp: serve_blob_def Let_def)
  have pos: "unat (outputPos r) + length cur = unat (outputPos r + of_nat (length b)) + (length cur - length b)" if "rRefs r \<noteq> []"
  proof -
    have "unat (outputPos r) + length cur < 2 ^ 64" using weave_bound [OF w(1)] that by blast
    then show ?thesis using cur by (subst unat_add_small) auto
  qed
  have "weave st (unat (outputPos r + of_nat (length b)) + (length cur - length b)) (rdr_bytes (rStream r)) (rRefs r) = Some o'"
    by (rule weave_pos [OF w(1) pos])
  moreover have "end_in_time (rStream r) (unat (outputPos r + of_nat (length b)) + (length cur - length b)) (rRefs r)"
    using assms(1) by (intro end_in_time_pos [OF _ pos]) (simp_all add: ahead_def)
  moreover have "length cur - length b = length (take (nat ?rem) (rdr_bytes blob'))" using cur by simp
  moreover have "nat ?rem \<le> length (rdr_bytes blob')" using rem blob(2) R(1) len by simp
  ultimately have "ahead st ?r1 (take (nat ?rem) (rdr_bytes blob')) (take (nat ?rem) (rdr_bytes blob') @ o')"
    using assms(1,2) R(4) blob(1) rem by (auto simp: ahead_def)
  moreover have "reader_cost st ?r1 < reader_cost st r"
    using R(3) assms(3) by (simp add: reader_cost_def)
  ultimately show ?thesis using r' cur w(2) by auto
qed

text \<open>Blob readers of the store end with \<^verbatim>\<open>io.EOF\<close>.\<close>

definition clean_store :: "blobStore \<Rightarrow> bool" where
  "clean_store st \<longleftrightarrow> (\<forall>d n blob. st d n = Inr blob \<longrightarrow> tailErr blob = None)"

lemma clean_storeD: "clean_store st \<Longrightarrow> st d n = Inr blob \<Longrightarrow> tailErr blob = None"
  by (simp add: clean_store_def)

lemma copy_reader_more:
  "copy_reader fuel st sz r = Some res \<Longrightarrow> copy_reader (fuel + k) st sz r = Some res"
proof (induction fuel arbitrary: sz r res)
  case (Suc fuel)
  then show ?case by (auto split: prod.splits option.splits read_err.splits)
qed simp

lemma serve_stream_step:
  assumes "ahead st r cur out" and "\<not> 0 < blobRemaining r" and "0 < p"
    and "\<And>ref rs. rRefs r = ref # rs \<Longrightarrow> Offset ref \<noteq> outputPos r"
    and "serve_stream p r = (b, err, r')"
  shows "err = None \<and> (\<exists>cur' out'. ahead st r' cur' out' \<and> out = b @ out') \<and> reader_cost st r' < reader_cost st r \<or>
    err = Some ReadEOF \<and> out = b"
proof -
  have cur: "cur = []" and w: "weave st (unat (outputPos r)) (rdr_bytes (rStream r)) (rRefs r) = Some out"
    and s: "tailErr (rStream r) = None" "end_in_time (rStream r) (unat (outputPos r)) (rRefs r)"
    and bd: "\<forall>ref \<in> set (rRefs r). Size ref \<le> MaxInt64 \<and> Offset ref \<le> MaxInt64"
    using assms(1,2) by (auto simp: ahead_def)
  define want where "want = nat (case rRefs r of [] \<Rightarrow> int p | ref # _ \<Rightarrow>
      (let gap = to_int64 (Offset ref - outputPos r) in if gap \<ge> 0 \<and> gap < int p then gap else int p))"
  obtain e s' where rd: "rdr_read want (rStream r) = (b, e, s')"
    and r': "err = e" "r' = r\<lparr>outputPos := outputPos r + of_nat (length b), rStream := s'\<rparr>"
    using assms(5) by (auto simp: serve_stream_def Let_def want_def split: prod.splits)
  have gap: "0 < unat (Offset ref) - unat (outputPos r) \<and> 0 < want \<and> want \<le> unat (Offset ref) - unat (outputPos r)"
    if refs: "rRefs r = ref # rs" for ref rs
  proof -
    have "unat (outputPos r) \<le> unat (Offset ref)" using w unfolding refs weave_Cons_iff by blast
    moreover have "unat (Offset ref) \<noteq> unat (outputPos r)" using assms(4) [OF refs] by (simp add: word_unat_eq_iff)
    ultimately have lt: "0 < unat (Offset ref) - unat (outputPos r)" by simp
    have "\<not> Offset ref < outputPos r" using lt by (simp add: word_less_nat_alt)
    then have "to_int64 (Offset ref - outputPos r) = int (unat (Offset ref) - unat (outputPos r))"
      using bd refs by (intro gap_word) simp_all
    then have "want = (if unat (Offset ref) - unat (outputPos r) < p then unat (Offset ref) - unat (outputPos r) else p)"
      by (simp only: want_def refs Let_def list.case) (auto simp del: of_nat_diff)
    with lt assms(3) show ?thesis by simp
  qed
  have want: "0 < want" using gap assms(3) by (cases "rRefs r") (auto simp: want_def)
  show ?thesis
  proof (cases "chunks (rStream r)")
    case Nil
    then have e: "b = []" "e = Some ReadEOF" using rd s(1) by (simp_all add: rdr_read_def Let_def)
    have "rRefs r = []"
    proof (rule ccontr)
      assume "rRefs r \<noteq> []"
      then obtain ref rs where refs: "rRefs r = ref # rs" by (cases "rRefs r") auto
      with w Nil have "unat (Offset ref) - unat (outputPos r) \<le> 0" unfolding refs weave_Cons_iff by (simp add: rdr_bytes_def)
      with gap [OF refs] show False by simp
    qed
    with w Nil e r' show ?thesis by (simp add: rdr_bytes_def)
  next
    case (Cons c cs)
    then have ne: "chunks (rStream r) \<noteq> []" by simp
    note R = rdr_read_some [OF rd ne want]
    have k: "take (length b) (rdr_bytes (rStream r)) = b" "drop (length b) (rdr_bytes (rStream r)) = rdr_bytes s'"
      using R(1) by simp_all
    have "\<exists>out'. weave st (unat (outputPos r + of_nat (length b))) (rdr_bytes s') (rRefs r) = Some out' \<and> out = b @ out' \<and>
      end_in_time s' (unat (outputPos r + of_nat (length b))) (rRefs r)"
    proof (cases "rRefs r")
      case Nil
      with w R(1) show ?thesis by (simp add: end_in_time_def)
    next
      case (Cons ref rs)
      have le: "length b \<le> unat (Offset ref) - unat (outputPos r)" using gap [OF Cons] R(2) by simp
      have "unat (Offset ref) < 2 ^ 64" using unsigned_less [of "Offset ref"] by simp
      then have "unat (outputPos r + of_nat (length b)) = unat (outputPos r) + length b"
        using le gap [OF Cons] by (intro unat_add_small) linarith
      moreover from this have "end_in_time s' (unat (outputPos r + of_nat (length b))) (ref # rs)"
        using s(2) inline_rest_advance [OF le, of "rdr_bytes (rStream r)" rs] R(5) k(2)
        unfolding Cons end_in_time_def by metis
      ultimately show ?thesis
        using weave_advance [OF w [unfolded Cons] le] k unfolding Cons by (metis append_take_drop_id)
    qed
    then obtain out' where o: "weave st (unat (outputPos r + of_nat (length b))) (rdr_bytes s') (rRefs r) = Some out'" "out = b @ out'"
      and t: "end_in_time s' (unat (outputPos r + of_nat (length b))) (rRefs r)"
      by blast
    show ?thesis
    proof (cases err)
      case None
      have "ahead st r' [] out'"
        using assms(1,2) o(1) t R(4) by (simp add: ahead_def r'(2))
      moreover have "reader_cost st r' < reader_cost st r" using R(3) by (simp add: reader_cost_def r'(2))
      ultimately show ?thesis using o(2) None by blast
    next
      case (Some e')
      then have last: "eager s'" "rdr_bytes s' = []" using R(5,6) r'(1) by auto
      with t have "rRefs r = []" by (simp add: end_in_time_def)
      moreover have "e = Some ReadEOF"
        using rd Some r'(1) s(1) by (auto simp: rdr_read_def Let_def split: list.splits if_splits)
      ultimately show ?thesis using o last r'(1) by simp
    qed
  qed
qed

lemma read_from_step:
  assumes "clean_store st" and "0 < p"
    and "ahead st (r\<lparr>rRefs := rs\<rparr>) cur out" and "read_from st p rs r = (b, err, r')"
  shows "err = None \<and> (\<exists>cur' out'. ahead st r' cur' out' \<and> out = b @ out') \<and> reader_cost st r' < reader_cost st (r\<lparr>rRefs := rs\<rparr>) \<or>
    err = Some ReadEOF \<and> out = b"
  using assms(3,4)
proof (induction rs arbitrary: r cur)
  case Nil
  show ?case
  proof (cases "0 < blobRemaining r")
    case True
    then obtain blob where "rBlob r = Some blob" using Nil.prems(1) by (auto simp: ahead_def split: option.splits)
    with serve_blob_step [OF Nil.prems(1), of blob p b err r'] Nil.prems(2) True assms(2) show ?thesis
      by (simp add: read_from.simps)
  next
    case False
    with serve_stream_step [OF Nil.prems(1), of p b err r'] Nil.prems(2) assms(2) show ?thesis
      by (simp add: read_from.simps)
  qed
next
  case (Cons ref rs)
  show ?case
  proof (cases "0 < blobRemaining r")
    case True
    then obtain blob where "rBlob r = Some blob" using Cons.prems(1) by (auto simp: ahead_def split: option.splits)
    with serve_blob_step [OF Cons.prems(1), of blob p b err r'] Cons.prems(2) True assms(2) show ?thesis
      by (simp add: read_from.simps)
  next
    case False
    show ?thesis
    proof (cases "Offset ref = outputPos r")
      case nz: False
      with serve_stream_step [OF Cons.prems(1), of p b err r'] Cons.prems(2) assms(2) False show ?thesis
        by (simp add: read_from.simps)
    next
      case at: True
      have cur: "cur = []" and w: "weave st (unat (outputPos r)) (rdr_bytes (rStream r)) (ref # rs) = Some out"
        and bd: "Size ref \<le> MaxInt64"
        using Cons.prems(1) False by (auto simp: ahead_def simp del: weave.simps)
      from w [unfolded weave_Cons_iff] at obtain blob o' where blob: "st (Digest ref) (to_int64 (Size ref)) = Inr blob"
        "unat (Size ref) \<le> length (rdr_bytes blob)"
        and o: "weave st (unat (Offset ref) + unat (Size ref)) (rdr_bytes (rStream r)) rs = Some o'"
          "out = take (unat (Size ref)) (rdr_bytes blob) @ o'"
        by auto
      let ?r = "r\<lparr>rBlob := Some blob, blobRemaining := to_int64 (Size ref)\<rparr>"
      have "ahead st (?r\<lparr>rRefs := rs\<rparr>) (take (unat (Size ref)) (rdr_bytes blob)) out"
        using Cons.prems(1) blob(2) o clean_storeD [OF assms(1) blob(1)] at
        by (auto simp: ahead_def end_in_time_def cur to_int64_small [OF bd] simp del: weave.simps of_nat_unat uint_nat)
      moreover have "read_from st p rs ?r = (b, err, r')"
        using Cons.prems(2) False at blob(1) by (subst (asm) read_from.simps) simp
      moreover have "reader_cost st (?r\<lparr>rRefs := rs\<rparr>) < reader_cost st (r\<lparr>rRefs := ref # rs\<rparr>)"
        by (simp add: reader_cost_def ref_cost_def blob(1))
      ultimately show ?thesis using Cons.IH [of ?r] by (meson order_less_trans)
    qed
  qed
qed

lemma copy_reader_ahead:
  assumes "clean_store st" and "\<forall>i. 0 < sz i" and "ahead st r cur out"
  shows "copy_reader (Suc (reader_cost st r)) st sz r = Some (out, None)"
  using assms(2,3)
proof (induction "reader_cost st r" arbitrary: sz r cur out rule: less_induct)
  case less
  have p: "0 < sz 0" using less.prems(1) by simp
  obtain b err r' where rd: "read_from st (sz 0) (rRefs r) r = (b, err, r')" by (metis prod_cases3)
  then have Read: "Read st (sz 0) r = (b, err, r')"
    using less.prems(2) p by (simp add: Read_def ahead_def)
  have "r\<lparr>rRefs := rRefs r\<rparr> = r" by simp
  with read_from_step [where st = st and r = r and rs = "rRefs r" and cur = cur and out = out and b = b and err = err and r' = r', OF assms(1) p] less.prems(2) rd
  consider cur' out' where "err = None" "ahead st r' cur' out'" "out = b @ out'" "reader_cost st r' < reader_cost st r"
    | "err = Some ReadEOF" "out = b"
    by auto
  then show ?case
  proof cases
    case 1
    have "copy_reader (Suc (reader_cost st r')) st (\<lambda>i. sz (Suc i)) r' = Some (out', None)"
      using less.hyps [OF 1(4) _ 1(2), of "\<lambda>i. sz (Suc i)"] less.prems(1) by simp
    moreover obtain k where "reader_cost st r = Suc (reader_cost st r') + k"
      using 1(4) less_iff_Suc_add by auto
    ultimately have "copy_reader (reader_cost st r) st (\<lambda>i. sz (Suc i)) r' = Some (out', None)"
      using copy_reader_more by metis
    with Read 1 show ?thesis by simp
  next
    case 2
    with Read show ?thesis by simp
  qed
qed

end
