(* ===== verification/Compact_Props.thy ===== *)
theory Compact_Props
  imports Compact_Stream
begin

text \<open>
  The properties of the compact-stream format: what the writer closes the readers open, what the
  validated table guarantees, and that the two reconstructions agree.
\<close>

section \<open>Opening what was written\<close>

text \<open>
  Documented behaviour of the zstd codec: encoding in memory succeeds, decoding gives the bytes back
  and ends with \<^verbatim>\<open>io.EOF\<close>, reported with the last bytes or after them.
\<close>

definition zstd_ok :: "cslib \<Rightarrow> bool" where
  "zstd_ok L \<longleftrightarrow> (\<forall>b. \<exists>z r. zstdEncode L b = Inr z \<and> zstdDecode L z = Inr r \<and>
     rdr_bytes r = b \<and> tailErr r = None)"

text \<open>The writer after the pieces, and after the optional digest of the original file.\<close>

definition written :: "u8 \<Rightarrow> originalCompressionInfo \<Rightarrow> int \<Rightarrow> (bytes \<times> u64) option \<Rightarrow> piece list \<Rightarrow> csWriter" where
  "written sc oc thr info ps =
     (let w = fold write_piece ps (NewWriter HashAlgoSHA256 32 sc oc thr)
      in case info of None \<Rightarrow> w | Some (d, n) \<Rightarrow> fst (SetCompressedStreamInfo d n w))"

definition fits :: "u8 \<Rightarrow> (bytes \<times> u64) option \<Rightarrow> piece list \<Rightarrow> bool" where
  "fits sc info ps \<longleftrightarrow> sc \<in> {StreamCompressionNone, StreamCompressionZstd} \<and> digests_ok 32 ps \<and>
     (case info of None \<Rightarrow> True | Some (d, _) \<Rightarrow> length d = 32) \<and>
     length (contents ps) < 2 ^ 63 \<and> length (layout 0 ps) * 48 \<le> 2 ^ 31"

lemma written_fields:
  assumes "fits sc info ps"
  shows "written sc oc thr info ps = (NewWriter HashAlgoSHA256 32 sc oc thr)
    \<lparr>streamBuf := inlines ps, refs := layout 0 ps, currentOffset := of_nat (length (contents ps)),
     compressedStreamDigest := (case info of None \<Rightarrow> [] | Some (d, _) \<Rightarrow> d),
     compressedStreamSize := (case info of None \<Rightarrow> 0 | Some (_, n) \<Rightarrow> n),
     hasCompressedStreamInfo := (info \<noteq> None)\<rparr>"
proof -
  let ?w = "NewWriter HashAlgoSHA256 32 sc oc thr"
  have "fold write_piece ps ?w = ?w\<lparr>streamBuf := inlines ps, refs := layout 0 ps, currentOffset := of_nat (length (contents ps))\<rparr>"
    using write_pieces [of ?w ps 0] assms by (simp add: NewWriter_def fits_def)
  then show ?thesis
    using assms by (cases info) (auto simp: written_def SetCompressedStreamInfo_def NewWriter_def fits_def Let_def)
qed

lemma written_writable:
  assumes "fits sc info ps"
  shows "writable (written sc oc thr info ps)" and "werr (written sc oc thr info ps) = None"
    and "refs (written sc oc thr info ps) = layout 0 ps" and "streamBuf (written sc oc thr info ps) = inlines ps"
    and "streamCompression (written sc oc thr info ps) = sc" and "originalCompression (written sc oc thr info ps) = oc"
    and "hashSize (written sc oc thr info ps) = 32"
  using assms layout_digests [of 32 ps _ 0]
  by (auto simp: written_fields [OF assms] writable_def NewWriter_def fits_def split: option.splits)

lemma written_stream:
  assumes "fits sc info ps" and "zstd_ok L"
  obtains z r where "compress_stream L (written sc oc thr info ps) = Inr z" "streamReader L z sc = Inr r"
    "rdr_bytes r = inlines ps" "tailErr r = None"
proof -
  have c: "compress_stream L (written sc oc thr info ps) =
      (if sc = StreamCompressionZstd then map_sum ZstdEncoder id (zstdEncode L (inlines ps)) else Inr (inlines ps))"
    by (simp only: compress_stream_def written_writable(4,5) [OF assms(1)])
  show ?thesis
  proof (cases "sc = StreamCompressionZstd")
    case True
    obtain z r where zr: "zstdEncode L (inlines ps) = Inr z" "zstdDecode L z = Inr r" "rdr_bytes r = inlines ps" "tailErr r = None"
      using assms(2) unfolding zstd_ok_def by blast
    show ?thesis
      by (rule that [of z r]) (use zr True c in \<open>simp_all add: streamReader_def cs_consts\<close>)
  next
    case False
    then have n: "sc = StreamCompressionNone" using assms(1) by (auto simp: fits_def)
    have "compress_stream L (written sc oc thr info ps) = Inr (inlines ps)" using c False by simp
    from that [OF this, of "plain_rdr (inlines ps)"] show ?thesis
      by (simp add: n streamReader_def plain_rdr_def rdr_bytes_def)
  qed
qed

lemma info_header_some: "hashSize w = 32 \<Longrightarrow> \<exists>raw. info_header w h = Some raw"
  by (simp add: info_header_def headerSize_def Let_def)

lemma length_table: "\<forall>r \<in> set rs. length (Digest r) = 32 \<Longrightarrow> length (concat (map encode_ref rs)) = length rs * 48"
  by (induction rs) auto

lemma Close_opens:
  assumes "werr w = None" and "writable w" and "refs_ok 0 (refs w)" and "compress_stream L w = Inr z"
  obtains idx rest where "Close_writer L w = (w, Ret idx)" "ReadHeader idx = Inr (header_of w (length z), rest)"
    "readRefTable rest (header_of w (length z)) = Inr (refs w, z)"
proof -
  have w: "hashSize w = 32" "length (refs w) * 48 \<le> 2 ^ 31" "\<forall>r \<in> set (refs w). length (Digest r) = 32"
    using assms(2) by (auto simp: writable_def)
  let ?n = "of_nat (length (refs w) * 48) :: u64" and ?t = "concat (map encode_ref (refs w))"
  obtain raw where raw: "info_header w (base_header w 128 ?n (128 + ?n) (of_nat (length z))) = Some raw"
    using info_header_some [OF w(1)] by blast
  note P = parseHeader_written [OF assms(2) raw]
  have "Close_writer L w = (w, Ret (raw @ ?t @ z))"
    using raw assms(1,4) w(1) by (simp add: Close_writer_def headerSize_def Let_def algebra_simps)
  moreover have "ReadHeader (raw @ ?t @ z) = Inr (header_of w (length z), ?t @ z)"
    using P by (simp add: ReadHeader_def headerSize_def)
  moreover have "readRefTable (?t @ z) (header_of w (length z)) = Inr (refs w, z)"
  proof -
    have h: "HashSize (header_of w (length z)) = 32" "RefTableSize (header_of w (length z)) = ?n"
      by (simp_all add: header_of_def w(1))
    have "length ?t = length (refs w) * 48"
      by (rule length_table [OF w(3)])
    then have len: "ReadFull (unat ?n) (?t @ z) = Inr (?t, z)" using table_size(1) [OF w(2)] by simp
    have cnt: "RefCount (header_of w (length z)) = length (refs w)"
      using table_size(4) [OF w(2)] by (simp add: RefCount_def RefEntrySize_def h)
    have "read_refs (header_of w (length z)) ([] @ ?t) 0 0 (length (refs w)) = Inr (refs w)"
      by (rule read_refs_encoded [OF h(1) w(3) assms(3)]) simp
    then show ?thesis by (simp add: readRefTable_def h(2) len cnt del: of_nat_mult)
  qed
  ultimately show ?thesis by (rule that)
qed

text \<open>Everything a reader sees of a written stream.\<close>

lemma written_opens:
  assumes "fits sc info ps" and "zstd_ok L" and "w = written sc oc thr info ps"
  obtains idx h rest z r where "Close_writer L w = (w, Ret idx)" "ReadHeader idx = Inr (h, rest)"
    "readRefTable rest h = Inr (layout 0 ps, z)" "streamReader L z (StreamCompression h) = Inr r"
    "rdr_bytes r = inlines ps" "tailErr r = None" "OriginalCompression h = oc"
    "HasCompressedStreamInfo h = (info \<noteq> None)"
    "info = Some (d, n) \<Longrightarrow> CompressedStreamDigest h = d \<and> CompressedStreamSize h = n"
proof -
  note W = written_writable [OF assms(1), of oc thr, folded assms(3)]
  obtain z r where z: "compress_stream L w = Inr z" "streamReader L z sc = Inr r"
    "rdr_bytes r = inlines ps" "tailErr r = None"
    using written_stream [OF assms(1,2), of oc thr] assms(3) by metis
  have "refs_ok 0 (refs w)" using layout_ok [of 0 0 ps] assms(1) by (simp add: W fits_def)
  then obtain idx rest where "Close_writer L w = (w, Ret idx)" "ReadHeader idx = Inr (header_of w (length z), rest)"
    "readRefTable rest (header_of w (length z)) = Inr (refs w, z)"
    using Close_opens [OF W(2,1) _ z(1)] by blast
  moreover have i: "hasCompressedStreamInfo w = (info \<noteq> None)"
    "compressedStreamDigest w = (case info of None \<Rightarrow> [] | Some (d, _) \<Rightarrow> d)"
    "compressedStreamSize w = (case info of None \<Rightarrow> 0 | Some (_, n) \<Rightarrow> n)"
    unfolding assms(3) written_fields [OF assms(1)] by simp_all
  moreover have "HasCompressedStreamInfo (header_of w (length z)) = (info \<noteq> None)"
    "info = Some (d, n) \<Longrightarrow> CompressedStreamDigest (header_of w (length z)) = d \<and> CompressedStreamSize (header_of w (length z)) = n"
    by (simp_all add: header_of_def i)
  moreover have "StreamCompression (header_of w (length z)) = sc" "OriginalCompression (header_of w (length z)) = oc"
    by (simp_all add: header_of_def W)
  ultimately show ?thesis using z(2-4) by (intro that [of idx "header_of w (length z)" rest z r]) (simp_all add: W(3))
qed

section \<open>Lemmas for the properties\<close>

lemma refs_ok_bounds: "refs_ok p rs \<Longrightarrow> x \<in> set rs \<Longrightarrow> Size x \<le> MaxInt64 \<and> Offset x \<le> MaxInt64"
  by (induction p rs rule: refs_ok.induct) auto

lemma written_weave:
  assumes "refs_ok 0 rs" and "writeReconstructed st stream rs = (out, None)"
  shows "weave st 0 (rdr_bytes stream) rs = Some out" and "tailErr stream = None"
proof -
  obtain b q s where w: "write_refs st 0 stream rs = (b, None, q, s)" "tailErr s = None" "out = b @ rdr_bytes s"
    using assms(2) by (auto simp: writeReconstructed_def Copy_all_def split: prod.splits option.splits)
  from write_refs_weave [OF assms(1) w(1)] w(2,3)
  show "weave st 0 (rdr_bytes stream) rs = Some out" and "tailErr stream = None" by simp_all
qed

lemma copy_fresh:
  assumes "refs_ok 0 rs" and "writeReconstructed st stream rs = (out, None)" and "clean_store st"
    and "end_in_time stream 0 rs" and "\<forall>i. 0 < sz i"
    and "r = \<lparr>rStream = stream, rRefs = rs, refByOffset = m, outputPos = 0, rBlob = None, blobRemaining = 0, rErr = None\<rparr>"
  shows "\<exists>fuel. copy_reader fuel st sz r = Some (out, None)"
proof -
  note written_weave [OF assms(1,2)]
  then have "ahead st r [] out"
    using assms(4) refs_ok_bounds [OF assms(1)] by (simp add: ahead_def assms(6))
  from copy_reader_ahead [OF assms(3) assms(5) this] show ?thesis by blast
qed

lemma copy_truncated:
  assumes "length s < unat (Offset ref)" and "Offset ref \<le> MaxInt64" and "length s < sz 0" and "0 < sz 1"
  shows "copy_reader 2 st sz \<lparr>rStream = plain_rdr s, rRefs = ref # rs, refByOffset = m, outputPos = 0,
     rBlob = None, blobRemaining = 0, rErr = None\<rparr> = Some (s, None)"
proof -
  let ?r = "\<lparr>rStream = plain_rdr s, rRefs = ref # rs, refByOffset = m, outputPos = 0, rBlob = None, blobRemaining = 0, rErr = None\<rparr>"
  let ?r1 = "?r\<lparr>rStream := \<lparr>chunks = [], tailErr = None, eager = False\<rparr>, outputPos := of_nat (length s)\<rparr>"
  have off: "to_int64 (Offset ref) = int (unat (Offset ref))" "Offset ref \<noteq> 0"
    using to_int64_small [OF assms(2)] assms(1) by auto
  have "unat (of_nat (length s) :: u64) = length s"
    using order.strict_trans [OF assms(1) unat_lt_u64] by (rule unat_u64)
  then have ne: "Offset ref \<noteq> of_nat (length s)" using assms(1) by auto
  have want: "\<not> nat (if int (unat (Offset ref)) < int (sz 0) then int (unat (Offset ref)) else int (sz 0)) < length s"
    using assms(1,3) by simp
  have "Read st (sz 0) ?r = (s, None, ?r1)"
    using assms(3) off want
    by (simp add: Read_def read_from.simps serve_stream_def rdr_read_def plain_rdr_def Let_def del: of_nat_unat)
  moreover have "Read st (sz 1) ?r1 = ([], Some ReadEOF, ?r1)"
    using assms(4) ne by (simp add: Read_def read_from.simps serve_stream_def rdr_read_def Let_def)
  ultimately show ?thesis by (simp add: numeral_2_eq_2)
qed

text \<open>A stream that reports its end with its last bytes, which lie just before a reference.\<close>

lemma copy_eager:
  assumes "eager s" and "tailErr s = None" and "chunks s \<noteq> []" and "last (chunks s) \<noteq> []"
    and "unat pos + length (rdr_bytes s) = unat (Offset ref)" and "Offset ref \<le> MaxInt64" and "\<forall>i. 0 < sz i"
  shows "copy_reader (rdr_cost s) st sz \<lparr>rStream = s, rRefs = ref # rs, refByOffset = m, outputPos = pos,
     rBlob = None, blobRemaining = 0, rErr = None\<rparr> = Some (rdr_bytes s, None)"
  using assms
proof (induction "rdr_cost s" arbitrary: s pos sz rule: less_induct)
  case less
  let ?r = "\<lambda>s pos. \<lparr>rStream = s, rRefs = ref # rs, refByOffset = m, outputPos = pos, rBlob = None, blobRemaining = 0, rErr = None\<rparr>"
  let ?gap = "length (rdr_bytes s)"
  obtain c cs where cs: "chunks s = c # cs" using less.prems(3) by (cases "chunks s") auto
  have gap: "0 < ?gap" using less.prems(4) cs by (auto simp: rdr_bytes_def split: if_splits)
  then have ne: "Offset ref \<noteq> pos" "\<not> Offset ref < pos" using less.prems(5) by (auto simp: word_less_nat_alt)
  have "to_int64 (Offset ref - pos) = int ?gap"
    unfolding gap_word(2) [OF ne(2) less.prems(6)] using less.prems(5) by linarith
  then have serve: "serve_stream (sz 0) (?r s pos) =
    (case rdr_read (min ?gap (sz 0)) s of (b, e, s') \<Rightarrow> (b, e, ?r s' (pos + of_nat (length b))))"
    by (auto simp: serve_stream_def Let_def min_def split: prod.splits)
  have Read: "Read st (sz 0) (?r s pos) = serve_stream (sz 0) (?r s pos)"
    using spec [OF less.prems(7), of 0] ne(1) by (simp add: Read_def read_from.simps)
  obtain b e s' where rd: "rdr_read (min ?gap (sz 0)) s = (b, e, s')" by (metis prod_cases3)
  have want: "0 < min ?gap (sz 0)" using gap less.prems(7) by simp
  note R = rdr_read_some [OF rd less.prems(3) want]
  have cost: "rdr_cost s = Suc (rdr_cost s - 1)" using R(3) by simp
  show ?case
  proof (cases "cs = [] \<and> \<not> min ?gap (sz 0) < length c")
    case True
    then have "b = rdr_bytes s" "e = Some ReadEOF"
      using rd less.prems(1,2) cs by (auto simp: rdr_read_def rdr_bytes_def Let_def)
    then show ?thesis by (subst cost) (simp add: Read serve [unfolded rd])
  next
    case False
    then have e: "e = None" and s': "chunks s' \<noteq> []" "last (chunks s') \<noteq> []"
      using rd cs less.prems(4) by (auto simp: rdr_read_def Let_def split: if_splits)
    have len: "unat pos + length b < 2 ^ 64"
      using less.prems(5) R(1) unat_lt_u64 [of "Offset ref"] by simp
    have "unat (pos + of_nat (length b)) + length (rdr_bytes s') = unat (Offset ref)"
      using less.prems(5) R(1) by (subst unat_add_small [OF len]) simp
    from less.hyps [OF R(3) _ _ s' this less.prems(6), of "\<lambda>i. sz (Suc i)"] R(4,5) less.prems(1,2,7)
    have "copy_reader (rdr_cost s') st (\<lambda>i. sz (Suc i)) (?r s' (pos + of_nat (length b))) = Some (rdr_bytes s', None)" by simp
    moreover obtain k where "rdr_cost s - 1 = rdr_cost s' + k" using R(3) by (metis add_diff_inverse_nat cost less_Suc_eq_le not_less)
    ultimately have "copy_reader (rdr_cost s - 1) st (\<lambda>i. sz (Suc i)) (?r s' (pos + of_nat (length b))) = Some (rdr_bytes s', None)"
      using copy_reader_more by metis
    moreover have "rdr_bytes s = b @ rdr_bytes s'" by (rule R(1))
    ultimately show ?thesis by (subst cost) (simp add: Read serve [unfolded rd] e)
  qed
qed

text \<open>Sizes.\<close>

lemma foldl_sizes:
  "foldl (\<lambda>total r. total + Size r) acc (layout p ps) = acc + of_nat (length (contents ps) - length (inlines ps))"
proof (induction p ps arbitrary: acc rule: layout.induct)
  case (3 p d c ps)
  have "length (inlines ps) \<le> length (contents ps)" by (rule length_inlines)
  with 3 show ?case by (simp add: algebra_simps flip: of_nat_add)
qed simp_all

text \<open>A piece with its blob zeroed.\<close>

fun zero_piece :: "piece \<Rightarrow> piece" where
  "zero_piece (Inline b) = Inline b"
| "zero_piece (Blob d c) = Blob d (replicate (length c) 0)"

lemma zero_layout: "layout p (map zero_piece ps) = layout p ps" "inlines (map zero_piece ps) = inlines ps"
  by (induction p ps rule: layout.induct) simp_all

lemma zero_contents: "length (contents (map zero_piece ps)) = length (contents ps)"
proof (induction ps)
  case (Cons q ps)
  then show ?case by (cases q) simp_all
qed simp

lemma served_null: "served NullBlobStore (map zero_piece ps)"
proof (induction ps)
  case (Cons q ps)
  then show ?case by (cases q) (simp_all add: NullBlobStore_def plain_rdr_def rdr_bytes_def)
qed simp

section \<open>Properties\<close>

lemma reconstruct_written:
  assumes "fits sc info ps" and "zstd_ok L" and "served st ps" and "w = written sc oc thr info ps"
  shows "\<exists>idx. Close_writer L w = (w, Ret idx) \<and> Reconstruct L idx st =
    (case original_stream L oc (contents ps, None) of
       (b, Some e) \<Rightarrow> (b, Some e)
     | (b, None) \<Rightarrow>
         (let out = b @ replicate (unat (EndPadding oc)) 0 in
          case info of
            None \<Rightarrow> (out, None)
          | Some (d, n) \<Rightarrow>
              if int (length out) = to_int64 n \<and> sha256 L out = d then (out, None)
              else (out, Some (Mismatch d n (sha256 L out) (int (length out))))))"
proof -
  obtain d n where dn: "info = Some (d, n) \<or> info = None" by (cases info) auto
  obtain idx h rest z r where O: "Close_writer L w = (w, Ret idx)" "ReadHeader idx = Inr (h, rest)"
    "readRefTable rest h = Inr (layout 0 ps, z)" "streamReader L z (StreamCompression h) = Inr r"
    "rdr_bytes r = inlines ps" "tailErr r = None" "OriginalCompression h = oc"
    "HasCompressedStreamInfo h = (info \<noteq> None)"
    "info = Some (d, n) \<Longrightarrow> CompressedStreamDigest h = d \<and> CompressedStreamSize h = n"
    using written_opens [OF assms(1,2,4), of d n] by metis
  have "writeReconstructed st r (layout 0 ps) = (contents ps, None)"
    by (rule writeReconstructed_pieces [OF assms(3) _ O(5,6)]) (use assms(1) in \<open>simp add: fits_def\<close>)
  with O dn show ?thesis
    by (auto simp: Reconstruct_def Let_def split: prod.splits option.splits)
qed

text \<open>
  C2. Write and reconstruct: whatever sequence of inline bytes and blob references is written, with
  or without stream compression, \<^verbatim>\<open>Close\<close> succeeds, and \<^verbatim>\<open>Reconstruct\<close> over a store that serves the
  blobs compresses exactly the original bytes, appends the end padding, and reports an error exactly
  when the compressor does or the recorded digest or size of the result differ.
\<close>

theorem compact_roundtrip:
  assumes "fits sc info ps" and "zstd_ok L" and "served st ps" and "w = written sc oc thr info ps"
  shows "\<exists>idx. Close_writer L w = (w, Ret idx) \<and> Reconstruct L idx st =
    (case original_stream L oc (contents ps, None) of
       (b, Some e) \<Rightarrow> (b, Some e)
     | (b, None) \<Rightarrow>
         (let out = b @ replicate (unat (EndPadding oc)) 0 in
          case info of
            None \<Rightarrow> (out, None)
          | Some (d, n) \<Rightarrow>
              if int (length out) = to_int64 n \<and> sha256 L out = d then (out, None)
              else (out, Some (Mismatch d n (sha256 L out) (int (length out))))))"
  by (rule reconstruct_written [OF assms])

text \<open>
  C23. A reference table that is accepted can be trusted: the entries are as many as the header
  declares, sorted by offset and without overlap, and no offset, size or end of an entry wraps
  around, so the gaps computed from it are the true distances.
\<close>

theorem readRefTable_sound:
  assumes "readRefTable r h = Inr (rs, rest)"
  shows "length rs = RefCount h \<and> length r = unat (RefTableSize h) + length rest \<and>
    sorted_wrt (\<lambda>a b. unat (Offset a) + unat (Size a) \<le> unat (Offset b)) rs \<and>
    (\<forall>x \<in> set rs. unat (Offset x + Size x) = unat (Offset x) + unat (Size x) \<and>
       to_int64 (Offset x) = int (unat (Offset x)) \<and> to_int64 (Size x) = int (unat (Size x)))"
proof -
  obtain data where "ReadFull (unat (RefTableSize h)) r = Inr (data, rest)" and rd: "read_refs h data 0 0 (RefCount h) = Inr rs"
    using assms by (auto simp: readRefTable_def map_sum_def split: sum.splits prod.splits)
  then have "length r = unat (RefTableSize h) + length rest" by (auto simp: ReadFull_Inr_iff)
  moreover have ok: "refs_ok 0 rs" "length rs = RefCount h" using read_refs_sound [OF rd] by simp_all
  moreover have "Size x \<le> MaxInt64 \<and> Offset x \<le> MaxInt64" if "x \<in> set rs" for x
    using refs_ok_bounds [OF ok(1) that] .
  ultimately show ?thesis
    using refs_ok_sorted [OF ok(1)] by (simp add: end_no_wrap to_int64_small)
qed

text \<open>
  C24. A header that is accepted is well formed: SHA-256 with 32-byte digests, a table of at most
  2 GiB whose size is the number of entries times the entry size, and an optional digest of exactly
  32 bytes.  The two compression codes are the bytes 12 and 13 of the file, whatever they are: they are
  checked when the stream is opened and compressed, not here.
\<close>

theorem ReadHeader_wellformed:
  assumes "ReadHeader r = Inr (h, rest)"
  shows "HashAlgo h = HashAlgoSHA256 \<and> HashSize h = 32 \<and> Version h = FormatVersion \<and>
    unat (RefTableSize h) \<le> 2 ^ 31 \<and> unat (RefTableSize h) = RefCount h * RefEntrySize h \<and>
    length r = headerSize + length rest \<and> HasMagic r \<and>
    length (CompressedStreamDigest h) = (if HasCompressedStreamInfo h then 32 else 0) \<and>
    StreamCompression h = r ! 12 \<and> Compression (OriginalCompression h) = r ! 13"
proof -
  obtain raw where raw: "r = raw @ rest" "length raw = 128" and p: "parseHeader raw = Inr h"
    using assms by (auto simp: ReadHeader_def ReadFull_Inr_iff headerSize_def map_sum_def split: sum.splits prod.splits)
  let ?f = "raw_fields raw"
  have c: "slice 0 6 raw = magic" "raw ! 7 = FormatVersion" "HashAlgo ?f = HashAlgoSHA256" "HashSize ?f = 32"
    "\<not> RefTableSize ?f > maxRefTableSize" "RefTableSize ?f mod 48 = 0" and i: "parse_info raw ?f = Inr h"
    using p by (auto simp: parseHeader_def Let_def sha256_Size_def RefEntrySize_def split: if_splits)
  have h: "HashAlgo h = HashAlgo ?f" "HashSize h = 32" "Version h = raw ! 7" "RefTableSize h = RefTableSize ?f"
    "length (CompressedStreamDigest h) = (if HasCompressedStreamInfo h then 32 else 0)"
    using i raw(2) by (auto simp: parse_info_def raw_fields_def c(4) [unfolded raw_fields_def, simplified] split: if_splits)
  have codes: "StreamCompression h = r ! 12" "Compression (OriginalCompression h) = r ! 13"
    using i raw by (auto simp: parse_info_def raw_fields_def nth_append split: if_splits)
  have "unat maxRefTableSize = 2 ^ 31" by (simp add: maxRefTableSize_def)
  then have small: "unat (RefTableSize h) \<le> 2 ^ 31" using c(5) h(4) by (simp only: word_less_nat_alt not_less)
  have u: "unat (48 :: u64) = 48" by simp
  have "unat (RefTableSize h) mod 48 = 0"
    using c(6) h(4) by (metis u unat_mod_distrib unat_0)
  then have "unat (RefTableSize h) div 48 * 48 = unat (RefTableSize h)"
    by (metis add_0_right div_mult_mod_eq)
  then have "unat (RefTableSize h) = RefCount h * RefEntrySize h"
    by (simp add: RefCount_def RefEntrySize_def h(2) unat_div_distrib)
  moreover have "HasMagic r"
    using c(1) raw by (simp add: HasMagic_def MagicSize_def magic_def slice_def eval_nat_numeral)
  ultimately show ?thesis using c h raw small codes by (simp add: headerSize_def)
qed


text \<open>
  Measuring without blobs: \<^verbatim>\<open>Inspect\<close> of a written stream reports its references and the exact
  size of the reconstruction.
\<close>

lemma Inspect_measures:
  assumes "fits sc info ps" and "zstd_ok L" and "w = written sc oc thr info ps"
  shows "\<exists>idx i. Close_writer L w = (w, Ret idx) \<and> Inspect L idx = Inr i \<and> infoRefs i = layout 0 ps \<and>
    unat (ReconstructedSize i) = length (contents ps)"
proof -
  obtain idx h rest z r where O: "Close_writer L w = (w, Ret idx)" "ReadHeader idx = Inr (h, rest)"
    "readRefTable rest h = Inr (layout 0 ps, z)" "streamReader L z (StreamCompression h) = Inr r"
    "rdr_bytes r = inlines ps" "tailErr r = None"
    using written_opens [OF assms] by metis
  let ?i = "\<lparr>infoHeader = h, infoRefs = layout 0 ps, StreamUncompressedSize = of_nat (length (inlines ps))\<rparr>"
  have "Inspect L idx = Inr ?i"
    using O by (simp add: Inspect_def countStreamBytes_def)
  moreover have "ReconstructedSize ?i = of_nat (length (contents ps))"
    by (simp add: ReconstructedSize_def ReferencedBytes_def foldl_sizes length_inlines flip: of_nat_add)
  moreover have "unat (of_nat (length (contents ps)) :: u64) = length (contents ps)"
    using assms(1) by (intro small_word(1)) (simp add: fits_def)
  ultimately show ?thesis using O(1) by auto
qed

text \<open>
  Structure without contents: over \<^verbatim>\<open>NullBlobStore\<close>, \<^verbatim>\<open>ReconstructUncompressed\<close> of a written
  stream that ends with inline bytes, as an archive does, ends without an error and yields the original
  bytes with every blob replaced by as many zeros.
\<close>

lemma null_store_structure:
  assumes "fits sc info ps" and "zstd_ok L" and "w = written sc oc thr info ps"
    and "layout 0 ps = [] \<or> inline_rest 0 (inlines ps) (layout 0 ps) \<noteq> []"
  shows "\<exists>idx fuel. Close_writer L w = (w, Ret idx) \<and>
    ReconstructUncompressed fuel L idx NullBlobStore = Some (contents (map zero_piece ps), None)"
proof -
  obtain idx h rest z r where O: "Close_writer L w = (w, Ret idx)" "ReadHeader idx = Inr (h, rest)"
    "readRefTable rest h = Inr (layout 0 ps, z)" "streamReader L z (StreamCompression h) = Inr r"
    "rdr_bytes r = inlines ps" "tailErr r = None"
    using written_opens [OF assms(1-3)] by metis
  have time: "end_in_time r 0 (layout 0 ps)" using assms(4) O(5) by (auto simp: end_in_time_def)
  have len: "length (contents (map zero_piece ps)) < 2 ^ 63" and ok: "refs_ok 0 (layout 0 ps)"
    using assms(1) layout_ok [of 0 0 ps] by (simp_all add: fits_def zero_contents)
  have "writeReconstructed NullBlobStore r (layout 0 ps) = (contents (map zero_piece ps), None)"
    using writeReconstructed_pieces [OF served_null len, of r] O(5,6) by (simp add: zero_layout)
  moreover have "clean_store NullBlobStore" by (simp add: clean_store_def NullBlobStore_def plain_rdr_def)
  moreover have "\<forall>i :: nat. 0 < (\<lambda>_. copyBufSize) i" by (simp add: copyBufSize_def)
  ultimately obtain fuel where "copy_reader fuel NullBlobStore (\<lambda>_. copyBufSize)
      \<lparr>rStream = r, rRefs = layout 0 ps, refByOffset = foldl (\<lambda>m r. AList.update (Offset r) r m) [] (layout 0 ps),
       outputPos = 0, rBlob = None, blobRemaining = 0, rErr = None\<rparr> = Some (contents (map zero_piece ps), None)"
    using copy_fresh [OF ok _ _ time, of NullBlobStore _ "\<lambda>_. copyBufSize", OF _ _ _ refl] by blast
  then have "ReconstructUncompressed fuel L idx NullBlobStore = Some (contents (map zero_piece ps), None)"
    using O by (simp add: ReconstructUncompressed_def NewReconstructingReader_def)
  with O(1) show ?thesis by blast
qed

text \<open>
  C25. A truncated stream goes unnoticed by the incremental reader: when the inline bytes end before
  the next reference, \<^verbatim>\<open>writeReconstructed\<close> reports the missing bytes, but copying from the
  \<^verbatim>\<open>ReconstructingReader\<close> ends with what there was and no error.
\<close>

theorem truncated_stream_unnoticed:
  assumes "length s < unat (Offset ref)" and "Offset ref \<le> MaxInt64" and "length s < sz 0" and "0 < sz 1"
    and "r = \<lparr>rStream = plain_rdr s, rRefs = ref # rs, refByOffset = m, outputPos = 0, rBlob = None, blobRemaining = 0, rErr = None\<rparr>"
  shows "writeReconstructed st (plain_rdr s) (ref # rs) = (s, Some (CopyStream 0 (Offset ref) None)) \<and>
    copy_reader 2 st sz r = Some (s, None)"
proof -
  have off: "to_int64 (Offset ref) = int (unat (Offset ref))" "0 < Offset ref" "Offset ref \<noteq> 0"
    using to_int64_small [OF assms(2)] assms(1) by (auto simp: word_gt_0)
  have pr: "rdr_bytes (plain_rdr s) = s" "chunks (plain_rdr s) = [s]" "tailErr (plain_rdr s) = None" "\<not> eager (plain_rdr s)"
    by (simp_all add: plain_rdr_def rdr_bytes_def)
  have "CopyN (plain_rdr s) (int (unat (Offset ref))) = (s, Some None, (plain_rdr s)\<lparr>chunks := []\<rparr>)"
    using assms(1) by (simp add: CopyN_def pr Let_def del: of_nat_unat)
  then have "writeReconstructed st (plain_rdr s) (ref # rs) = (s, Some (CopyStream 0 (Offset ref) None))"
    using off by (simp add: writeReconstructed_def Let_def del: of_nat_unat)
  moreover have "copy_reader 2 st sz r = Some (s, None)"
    using copy_truncated [OF assms(1-4)] assms(5) by simp
  ultimately show ?thesis by simp
qed

text \<open>
  A stream that reports its end together with its last bytes, as \<^verbatim>\<open>io.Reader\<close> allows and the zstd decoder
  does, hides the references behind those bytes: when its bytes end where a reference begins, reading the
  \<^verbatim>\<open>ReconstructingReader\<close> with any buffers ends with the inline bytes and no error, while
  \<^verbatim>\<open>writeReconstructed\<close> goes on with the referenced blob.
\<close>

lemma eager_end_hides_references:
  assumes "eager s" and "tailErr s = None" and "chunks s \<noteq> []" and "last (chunks s) \<noteq> []"
    and "length (rdr_bytes s) = unat (Offset ref)" and "refs_ok 0 (ref # rs)" and "\<forall>i. 0 < sz i"
    and "writeReconstructed st s (ref # rs) = (out, None)"
    and "r = \<lparr>rStream = s, rRefs = ref # rs, refByOffset = m, outputPos = 0, rBlob = None, blobRemaining = 0, rErr = None\<rparr>"
  shows "copy_reader (rdr_cost s) st sz r = Some (rdr_bytes s, None) \<and>
    length out \<ge> length (rdr_bytes s) + unat (Size ref) \<and> take (length (rdr_bytes s)) out = rdr_bytes s"
proof -
  have "Offset ref \<le> MaxInt64" using assms(6) by simp
  then have "copy_reader (rdr_cost s) st sz r = Some (rdr_bytes s, None)"
    using copy_eager [OF assms(1-4), of 0 ref sz] assms(5,7,9) by simp
  moreover have "weave st 0 (rdr_bytes s) (ref # rs) = Some out"
    by (rule written_weave [OF assms(6,8)])
  then have "length out \<ge> length (rdr_bytes s) + unat (Size ref) \<and> take (length (rdr_bytes s)) out = rdr_bytes s"
    unfolding weave_Cons_iff using assms(5) by auto
  ultimately show ?thesis by blast
qed

end
