(* ===== verification/Compact_Witnesses.thy ===== *)
theory Compact_Witnesses
  imports Compact_Props
begin

text \<open>
  A small compact stream over toy codecs: the hypotheses of the compact-stream properties hold for it.
\<close>

definition toy_lib :: cslib where
  "toy_lib = \<lparr>zstdEncode = (\<lambda>b. Inr (0x28 # b)), zstdDecode = (\<lambda>z. Inr (plain_rdr (tl z))),
     sha256 = (\<lambda>b. replicate 31 0 @ [of_nat (length b)]),
     recompress = (\<lambda>algo seek level jobs (b, e). (b, None))\<rparr>"

definition toy_digest :: bytes where "toy_digest = replicate 32 7"

definition toy_pieces :: "piece list" where
  "toy_pieces = [Inline [1, 2], Blob toy_digest [9, 9, 9], Inline [3]]"

definition toy_store :: blobStore where
  "toy_store d n = (if d = toy_digest then Inr (plain_rdr [9, 9, 9]) else Inl ''missing'')"

definition toy_oc :: originalCompressionInfo where
  "toy_oc = \<lparr>Compression = OriginalCompressionNone, Seekable = False, CompressionLevel = 255,
     CompressorJobs = 0, EndPadding = 0\<rparr>"

definition toy_info :: "(bytes \<times> u64) option" where
  "toy_info = Some (replicate 31 0 @ [6], 6)"

lemma toy_zstd: "zstd_ok toy_lib"
  by (auto simp: zstd_ok_def toy_lib_def plain_rdr_def rdr_bytes_def)

lemma toy_fits: "fits StreamCompressionZstd toy_info toy_pieces"
  by (simp add: fits_def toy_pieces_def toy_digest_def toy_info_def)

lemma toy_served: "served toy_store toy_pieces"
  by (simp add: toy_pieces_def toy_store_def plain_rdr_def rdr_bytes_def)

lemma toy_contents: "contents toy_pieces = [1, 2, 9, 9, 9, 3]"
  by (simp add: toy_pieces_def)

lemma compact_roundtrip_witness:
  "\<exists>idx. snd (Close_writer toy_lib (written StreamCompressionZstd toy_oc 0 toy_info toy_pieces)) = Ret idx \<and>
     Reconstruct toy_lib idx toy_store = ([1, 2, 9, 9, 9, 3], None)"
proof -
  have "to_int64 6 = 6" using small_word(3) [of 6] by simp
  then show ?thesis
    using compact_roundtrip [OF toy_fits toy_zstd toy_served refl, of toy_oc 0]
    by (auto simp: original_stream_def toy_oc_def toy_contents toy_info_def toy_lib_def)
qed

definition toy_ref :: casRef where
  "toy_ref = \<lparr>Offset = 2, Digest = toy_digest, Size = 3\<rparr>"

definition toy_header :: header where
  "toy_header = header_of (written StreamCompressionNone toy_oc 0 None toy_pieces) 3"

lemma readRefTable_sound_witness:
  "\<exists>rs. readRefTable (encode_ref toy_ref @ [1, 2, 3]) toy_header = Inr (rs, [1, 2, 3]) \<and> length rs = RefCount toy_header"
proof -
  have "readRefTable (encode_ref toy_ref @ [1, 2, 3]) toy_header = Inr ([toy_ref], [1, 2, 3])"
    by code_simp
  from readRefTable_sound [OF this] this show ?thesis by blast
qed

lemma ReadHeader_wellformed_witness:
  "\<exists>idx h rest. ReadHeader idx = Inr (h, rest) \<and> HashSize h = 32 \<and> HasMagic idx"
proof -
  obtain idx h rest where "ReadHeader idx = Inr (h, rest)"
    using written_opens [OF toy_fits toy_zstd refl, of toy_oc 0] by metis
  from ReadHeader_wellformed [OF this] this show ?thesis by blast
qed



lemma Inspect_measures_witness:
  "\<exists>idx i. snd (Close_writer toy_lib (written StreamCompressionZstd toy_oc 0 toy_info toy_pieces)) = Ret idx \<and>
     Inspect toy_lib idx = Inr i \<and> unat (ReconstructedSize i) = 6"
  using Inspect_measures [OF toy_fits toy_zstd refl, of toy_oc 0] by (auto simp: toy_contents)

lemma null_store_structure_witness:
  "\<exists>idx fuel. snd (Close_writer toy_lib (written StreamCompressionZstd toy_oc 0 toy_info toy_pieces)) = Ret idx \<and>
     ReconstructUncompressed fuel toy_lib idx NullBlobStore = Some ([1, 2, 0, 0, 0, 3], None)"
proof -
  have "contents (map zero_piece toy_pieces) = [1, 2, 0, 0, 0, 3]" by (simp add: toy_pieces_def numeral_3_eq_3)
  moreover have "inline_rest 0 (inlines toy_pieces) (layout 0 toy_pieces) \<noteq> []" by (simp add: toy_pieces_def)
  ultimately show ?thesis using null_store_structure [OF toy_fits toy_zstd refl, of toy_oc 0] by auto
qed

lemma truncated_stream_unnoticed_witness:
  "copy_reader 2 toy_store (\<lambda>_. 4)
     \<lparr>rStream = plain_rdr [1], rRefs = [toy_ref], refByOffset = [], outputPos = 0, rBlob = None, blobRemaining = 0, rErr = None\<rparr> =
   Some ([1], None)"
proof -
  have "Offset toy_ref \<le> MaxInt64" "length [1 :: byte] < unat (Offset toy_ref)"
    by (simp_all add: toy_ref_def MaxInt64_def)
  from truncated_stream_unnoticed [where st = toy_store and sz = "\<lambda>_. 4" and rs = "[]" and m = "[]", OF this(2,1) _ _ refl] show ?thesis by simp
qed

definition toy_eager :: rdr where
  "toy_eager = \<lparr>chunks = [[1], [2]], tailErr = None, eager = True\<rparr>"

lemma eager_end_hides_references_witness:
  "copy_reader (rdr_cost toy_eager) toy_store (\<lambda>_. 4)
     \<lparr>rStream = toy_eager, rRefs = [toy_ref], refByOffset = [], outputPos = 0, rBlob = None, blobRemaining = 0, rErr = None\<rparr> =
   Some ([1, 2], None) \<and> writeReconstructed toy_store toy_eager [toy_ref] = ([1, 2, 9, 9, 9], None)"
proof -
  have w: "writeReconstructed toy_store toy_eager [toy_ref] = ([1, 2, 9, 9, 9], None)" and "refs_ok 0 [toy_ref]"
    by code_simp+
  moreover have "eager toy_eager" "tailErr toy_eager = None" "chunks toy_eager \<noteq> []" "last (chunks toy_eager) \<noteq> []"
    and b: "rdr_bytes toy_eager = [1, 2]" and "unat (Offset toy_ref) = 2"
    by (simp_all add: toy_eager_def rdr_bytes_def toy_ref_def)
  ultimately show ?thesis
    using eager_end_hides_references [where s = toy_eager and ref = toy_ref and rs = "[]" and st = toy_store and sz = "\<lambda>_. 4"
        and m = "[]", OF _ _ _ _ _ _ _ w refl] by simp
qed

end
