(* ===== verification/Content_Manifest.thy ===== *)
theory Content_Manifest
  imports Prelude
begin

text \<open>
  \<^verbatim>\<open>pkg/contentmanifest\<close>: the files in which a layer records the hashes of the blobs, nodes and trees
  it stores, so that a later layer can leave them out, with the exporter and the importer of
  \<^verbatim>\<open>pkg/tarcas\<close> on both ends.  A file is its bytes; opening a file gives its bytes or an error.  An
  \<^verbatim>\<open>iter.Seq2\<close> that is read is the function from a number \<open>k\<close> to its first \<open>k\<close> items, as it may be
  endless; one that is written is a list.  A panic is \<open>None\<close>.
\<close>

section \<open>Types and constants\<close>

datatype cm_error =
    CmFile string
  | CmShort io_error
  | CmNoMagic
  | CmMagic bytes
  | CmToc string
  | CmExpected bytes bytes
  | CmSeek int
  | CmLength

type_synonym hash_item = "bytes \<times> cm_error option"
type_synonym hash_seq = "nat \<Rightarrow> hash_item list"

definition magicPrefix :: bytes where "magicPrefix = str_bytes ''imgv1+contentmanifest''"
definition typeBlobs :: byte where "typeBlobs = of_char CHR ''b''"
definition typeNode :: byte where "typeNode = of_char CHR ''n''"
definition typeTree :: byte where "typeTree = of_char CHR ''t''"
definition recordSize :: nat where "recordSize = 0x80"
definition maxHeaderSize :: nat where "maxHeaderSize = 0x80"

lemmas cm_consts = magicPrefix_def typeBlobs_def typeNode_def typeTree_def recordSize_def maxHeaderSize_def

definition hash_Len :: "string \<Rightarrow> nat" where
  "hash_Len alg = (if alg = ''sha256'' then 32 else 0)"

record manifestHeader =
  hdrMagic :: bytes
  offsetBlobs :: int
  sizeBlobs :: int
  offsetNodes :: int
  sizeNodes :: int
  offsetTrees :: int
  sizeTrees :: int

definition full_magic :: "string \<Rightarrow> bytes" where
  "full_magic alg = magicPrefix @ str_bytes ''+'' @ str_bytes alg"

section \<open>Exporting\<close>

text \<open>The bytes written for a sequence of hashes, or the first error.\<close>

fun exportHashes :: "nat \<Rightarrow> hash_item list \<Rightarrow> bytes \<Rightarrow> cm_error + bytes" where
  "exportHashes n [] written = Inr written"
| "exportHashes n ((hash, err) # hs) written =
     (case err of
        Some e \<Rightarrow> Inl e
      | None \<Rightarrow> if length hash \<noteq> n then Inl CmLength else exportHashes n hs (written @ hash))"

text \<open>A write at a position: a gap is filled with zeros, and writing nothing leaves the file alone.\<close>

definition write_at :: "nat \<Rightarrow> bytes \<Rightarrow> bytes \<Rightarrow> bytes" where
  "write_at pos bs file =
     (if bs = [] then file
      else let f = file @ replicate (pos - length file) 0 in take pos f @ bs @ drop (pos + length bs) f)"

definition round_up :: "nat \<Rightarrow> nat" where
  "round_up off = (if off mod recordSize \<noteq> 0 then off + (recordSize - off mod recordSize) else off)"

text \<open>\<^verbatim>\<open>offset += copy(header[offset:], bs)\<close>\<close>

definition append_header :: "bytes \<Rightarrow> bytes \<times> nat \<Rightarrow> bytes \<times> nat" where
  "append_header bs = (\<lambda>(h, off). (copy_at off bs h, off + min (length bs) (length h - off)))"

definition toc_header :: "string \<Rightarrow> nat \<Rightarrow> nat \<Rightarrow> nat \<Rightarrow> nat \<Rightarrow> nat \<Rightarrow> nat \<Rightarrow> bytes option" where
  "toc_header alg ob sb on sn ot sz =
     (let (h1, off) = append_header (full_magic alg) (replicate maxHeaderSize 0, 0) in
      if off \<ge> maxHeaderSize then None
      else Some (fst (fold append_header
             [[typeBlobs], PutUint64 (of_nat ob), PutUint64 (of_nat sb),
              [typeNode], PutUint64 (of_nat on), PutUint64 (of_nat sn),
              [typeTree], PutUint64 (of_nat ot), PutUint64 (of_nat sz)]
             (h1[off := 0], off + 1))))"

definition exportInto ::
    "string \<Rightarrow> hash_item list \<Rightarrow> hash_item list \<Rightarrow> hash_item list \<Rightarrow> (cm_error + bytes) option" where
  "exportInto alg bs ns ts =
     (let ob = maxHeaderSize in
      case exportHashes (hash_Len alg) bs [] of Inl e \<Rightarrow> Some (Inl e) | Inr wb \<Rightarrow>
      (let f1 = write_at ob wb []; on = round_up (ob + length wb) in
       case exportHashes (hash_Len alg) ns [] of Inl e \<Rightarrow> Some (Inl e) | Inr wn \<Rightarrow>
       (let f2 = write_at on wn f1; ot = round_up (on + length wn) in
        case exportHashes (hash_Len alg) ts [] of Inl e \<Rightarrow> Some (Inl e) | Inr wt \<Rightarrow>
        (let f3 = write_at ot wt f2
         in map_option (\<lambda>h. Inr (write_at 0 h f3))
              (toc_header alg ob (length wb) on (length wn) ot (length wt))))))"

section \<open>Parsing the header\<close>

text \<open>The loop leaves 0 when there is no NUL, as it does when the first byte is one.\<close>

definition consumeMagic :: "bytes \<Rightarrow> (bytes \<times> bytes) option" where
  "consumeMagic b =
     (let magicEnd = (if 0 \<in> set b then length (takeWhile (\<lambda>x. x \<noteq> 0) b) else 0) in
      if magicEnd = 0 then None else Some (take magicEnd b, drop (magicEnd + 1) b))"

definition int64_of :: "bytes \<Rightarrow> int" where "int64_of b = sint (Uint64 b)"

definition parse_manifest_header :: "bytes \<Rightarrow> (cm_error + manifestHeader) option" where
  "parse_manifest_header header =
     (case consumeMagic header of
        None \<Rightarrow> Some (Inl CmNoMagic)
      | Some (magic, toc) \<Rightarrow>
          if take (length magicPrefix) magic \<noteq> magicPrefix then Some (Inl (CmMagic magic))
          else if length toc < 1 then None
          else if toc ! 0 \<noteq> typeBlobs then Some (Inl (CmToc ''expected blobs info''))
          else if length toc < 18 then None
          else if toc ! 17 \<noteq> typeNode then Some (Inl (CmToc ''expected nodes info''))
          else if length toc < 35 then None
          else if toc ! 34 \<noteq> typeTree then Some (Inl (CmToc ''expected trees info''))
          else if length toc < 51 then None
          else Some (Inr \<lparr>hdrMagic = magic,
                 offsetBlobs = int64_of (slice 1 9 toc), sizeBlobs = int64_of (slice 9 17 toc),
                 offsetNodes = int64_of (slice 18 26 toc), sizeNodes = int64_of (slice 26 34 toc),
                 offsetTrees = int64_of (slice 35 43 toc), sizeTrees = int64_of (slice 43 51 toc)\<rparr>))"

section \<open>Reading the hashes\<close>

fun readHashes :: "nat \<Rightarrow> bytes \<Rightarrow> hash_seq" where
  "readHashes n bs 0 = []"
| "readHashes n bs (Suc k) =
     (case ReadFull n bs of
        Inl EOF \<Rightarrow> []
      | Inl e \<Rightarrow> [([], Some (CmShort e))]
      | Inr (hash, rest) \<Rightarrow> (hash, None) # readHashes n rest k)"

definition yield_one :: "hash_item \<Rightarrow> hash_seq" where "yield_one x = (\<lambda>k. take k [x])"

definition yield_error :: "cm_error \<Rightarrow> hash_seq" where "yield_error e = yield_one ([], Some e)"

text \<open>
  The common body of \<^verbatim>\<open>BlobHashes\<close>, \<^verbatim>\<open>NodeHashes\<close> and \<^verbatim>\<open>TreeHashes\<close>, which differ in the fields they
  read; \<open>file\<close> is the result of opening the manifest.
\<close>

definition section_hashes ::
    "(manifestHeader \<Rightarrow> int) \<Rightarrow> (manifestHeader \<Rightarrow> int) \<Rightarrow> string \<Rightarrow> cm_error + bytes \<Rightarrow> hash_seq option" where
  "section_hashes ofs sz alg file =
     (case file of
        Inl e \<Rightarrow> Some (yield_error e)
      | Inr r \<Rightarrow>
          (case ReadFull maxHeaderSize r of
             Inl e \<Rightarrow> Some (yield_error (CmShort e))
           | Inr (raw, _) \<Rightarrow>
               (case parse_manifest_header raw of
                  None \<Rightarrow> None
                | Some (Inl e) \<Rightarrow> Some (yield_error e)
                | Some (Inr h) \<Rightarrow>
                    Some (if hdrMagic h \<noteq> full_magic alg then yield_error (CmExpected (full_magic alg) (hdrMagic h))
                          else if sz h = 0 then yield_one ([], None)
                          else if ofs h < 0 then yield_error (CmSeek (ofs h))
                          else readHashes (hash_Len alg) (take (nat (sz h)) (drop (nat (ofs h)) r))))))"

definition BlobHashes :: "string \<Rightarrow> cm_error + bytes \<Rightarrow> hash_seq option" where
  "BlobHashes = section_hashes offsetBlobs sizeBlobs"

definition NodeHashes :: "string \<Rightarrow> cm_error + bytes \<Rightarrow> hash_seq option" where
  "NodeHashes = section_hashes offsetNodes sizeNodes"

definition TreeHashes :: "string \<Rightarrow> cm_error + bytes \<Rightarrow> hash_seq option" where
  "TreeHashes = section_hashes offsetTrees sizeTrees"

section \<open>Several manifests\<close>

record multiImporter =
  manifestPaths :: "string list"
  miAlgorithm :: string

definition AddOne :: "string \<Rightarrow> multiImporter \<Rightarrow> multiImporter" where
  "AddOne p i = i\<lparr>manifestPaths := manifestPaths i @ [p]\<rparr>"

text \<open>
  The items of the manifests one after the other.  A sequence hands out fewer than \<open>k\<close> items only
  when it has ended.
\<close>

fun multi_hashes :: "(string \<Rightarrow> hash_seq option) \<Rightarrow> string list \<Rightarrow> nat \<Rightarrow> hash_item list option" where
  "multi_hashes get [] k = Some []"
| "multi_hashes get (p # ps) k =
     (case get p of
        None \<Rightarrow> None
      | Some sq \<Rightarrow>
          if length (sq k) \<ge> k then Some (sq k)
          else map_option ((@) (sq k)) (multi_hashes get ps (k - length (sq k))))"

definition multi_BlobHashes :: "(string \<Rightarrow> cm_error + bytes) \<Rightarrow> multiImporter \<Rightarrow> nat \<Rightarrow> hash_item list option" where
  "multi_BlobHashes fs i = multi_hashes (\<lambda>p. BlobHashes (miAlgorithm i) (fs p)) (manifestPaths i)"

definition multi_NodeHashes :: "(string \<Rightarrow> cm_error + bytes) \<Rightarrow> multiImporter \<Rightarrow> nat \<Rightarrow> hash_item list option" where
  "multi_NodeHashes fs i = multi_hashes (\<lambda>p. NodeHashes (miAlgorithm i) (fs p)) (manifestPaths i)"

definition multi_TreeHashes :: "(string \<Rightarrow> cm_error + bytes) \<Rightarrow> multiImporter \<Rightarrow> nat \<Rightarrow> hash_item list option" where
  "multi_TreeHashes fs i = multi_hashes (\<lambda>p. TreeHashes (miAlgorithm i) (fs p)) (manifestPaths i)"

section \<open>The importing and exporting layer\<close>

text \<open>
  \<^verbatim>\<open>tarcas.CAS\<close> as far as it deals with content manifests: the hashes it knows to be stored
  elsewhere or here, and the order in which it stored its own.
\<close>

record cas_state =
  storedHashes :: "bytes set"
  storedNodes :: "bytes set"
  storedTrees :: "bytes set"
  hashOrder :: "bytes list"
  nodeOrder :: "bytes list"
  treeOrder :: "bytes list"

fun import_items :: "hash_item list \<Rightarrow> bytes set \<Rightarrow> cm_error option \<times> bytes set" where
  "import_items [] stored = (None, stored)"
| "import_items ((hash, err) # hs) stored =
     (case err of Some e \<Rightarrow> (Some e, stored) | None \<Rightarrow> import_items hs (insert hash stored))"

definition cas_Import :: "hash_item list \<Rightarrow> hash_item list \<Rightarrow> hash_item list \<Rightarrow> 'z cas_state_scheme \<Rightarrow> cm_error option \<times> 'z cas_state_scheme" where
  "cas_Import bs ns ts c =
     (case import_items bs (storedHashes c) of
        (Some e, s) \<Rightarrow> (Some e, c\<lparr>storedHashes := s\<rparr>)
      | (None, s1) \<Rightarrow>
          (case import_items ns (storedNodes c) of
             (Some e, s) \<Rightarrow> (Some e, c\<lparr>storedHashes := s1, storedNodes := s\<rparr>)
           | (None, s2) \<Rightarrow>
               (case import_items ts (storedTrees c) of
                  (e, s3) \<Rightarrow> (e, c\<lparr>storedHashes := s1, storedNodes := s2, storedTrees := s3\<rparr>))))"

definition exporter_items :: "bytes list \<Rightarrow> hash_item list" where
  "exporter_items hs = map (\<lambda>h. (h, None)) hs"

definition cas_Export :: "string \<Rightarrow> 'z cas_state_scheme \<Rightarrow> (cm_error + bytes) option" where
  "cas_Export alg c =
     exportInto alg (exporter_items (hashOrder c)) (exporter_items (nodeOrder c)) (exporter_items (treeOrder c))"

section \<open>Files\<close>

lemma length_write_at: "bs \<noteq> [] \<Longrightarrow> length (write_at pos bs f) = max (length f) (pos + length bs)"
  by (auto simp: write_at_def Let_def)

lemma write_at_same: "bs \<noteq> [] \<Longrightarrow> take (length bs) (drop pos (write_at pos bs f)) = bs"
  by (auto simp: write_at_def Let_def)

lemma region_append: "off + n \<le> length xs \<Longrightarrow> take n (drop off (xs @ ys)) = take n (drop off xs)"
  by simp

lemma write_at_before:
  assumes "off + n \<le> pos" and "off + n \<le> length f"
  shows "take n (drop off (write_at pos bs f)) = take n (drop off f)"
proof (cases "bs = []")
  case False
  let ?f = "f @ replicate (pos - length f) 0"
  have "take n (drop off (write_at pos bs f)) = take n (drop off (take pos ?f))"
    using False assms(1) by (simp only: write_at_def Let_def if_False) (rule region_append, simp)
  also have "\<dots> = take n (drop off ?f)" using assms(1) by (simp only: drop_take take_take) (simp add: min_def)
  also have "\<dots> = take n (drop off f)" by (rule region_append [OF assms(2)])
  finally show ?thesis .
qed (simp add: write_at_def)

lemma write_at_0: "take n (drop off (write_at 0 h f)) = take n (drop off f)" if "length h \<le> off"
  using that by (auto simp: write_at_def Let_def)

lemma round_up_ge: "off \<le> round_up off"
  by (simp add: round_up_def)

lemma round_up_le: "round_up off \<le> off + 128"
  by (simp add: round_up_def recordSize_def)

section \<open>The header\<close>

lemma list_update_copy_at: "i < length xs \<Longrightarrow> xs[i := v] = copy_at i [v] xs"
  by (simp add: copy_at_def upd_conv_take_nth_drop)

lemma sha256_magic:
  "length (full_magic ''sha256'') = 28" "0 \<notin> set (full_magic ''sha256'')"
  "take (length magicPrefix) (full_magic ''sha256'') = magicPrefix" "full_magic ''sha256'' \<noteq> []"
  by (simp_all add: full_magic_def magicPrefix_def str_bytes_def)

lemma toc_header_sha256:
  "toc_header ''sha256'' ob sb on sn ot sz =
     Some (copy_at 72 (PutUint64 (of_nat sz)) (copy_at 64 (PutUint64 (of_nat ot)) (copy_at 63 [typeTree]
       (copy_at 55 (PutUint64 (of_nat sn)) (copy_at 47 (PutUint64 (of_nat on)) (copy_at 46 [typeNode]
       (copy_at 38 (PutUint64 (of_nat sb)) (copy_at 30 (PutUint64 (of_nat ob)) (copy_at 29 [typeBlobs]
       (copy_at 28 [0] (copy_at 0 (full_magic ''sha256'') (replicate 128 0))))))))))))"
  by (simp add: toc_header_def append_header_def maxHeaderSize_def sha256_magic(1) list_update_copy_at Let_def)

lemma toc_fields:
  assumes "toc_header ''sha256'' ob sb on sn ot sz = Some h"
  shows "length h = 128" "slice 0 28 h = full_magic ''sha256''" "h ! 28 = 0"
    "h ! 29 = typeBlobs" "h ! 46 = typeNode" "h ! 63 = typeTree"
    "slice 30 38 h = PutUint64 (of_nat ob)" "slice 38 46 h = PutUint64 (of_nat sb)"
    "slice 47 55 h = PutUint64 (of_nat on)" "slice 55 63 h = PutUint64 (of_nat sn)"
    "slice 64 72 h = PutUint64 (of_nat ot)" "slice 72 80 h = PutUint64 (of_nat sz)"
proof -
  have h: "h = copy_at 72 (PutUint64 (of_nat sz)) (copy_at 64 (PutUint64 (of_nat ot)) (copy_at 63 [typeTree]
       (copy_at 55 (PutUint64 (of_nat sn)) (copy_at 47 (PutUint64 (of_nat on)) (copy_at 46 [typeNode]
       (copy_at 38 (PutUint64 (of_nat sb)) (copy_at 30 (PutUint64 (of_nat ob)) (copy_at 29 [typeBlobs]
       (copy_at 28 [0] (copy_at 0 (full_magic ''sha256'') (replicate 128 0)))))))))))"
    using assms by (simp only: toc_header_sha256 option.inject)
  show "length h = 128" "slice 0 28 h = full_magic ''sha256''" "h ! 28 = 0"
    "h ! 29 = typeBlobs" "h ! 46 = typeNode" "h ! 63 = typeTree"
    "slice 30 38 h = PutUint64 (of_nat ob)" "slice 38 46 h = PutUint64 (of_nat sb)"
    "slice 47 55 h = PutUint64 (of_nat on)" "slice 55 63 h = PutUint64 (of_nat sn)"
    "slice 64 72 h = PutUint64 (of_nat ot)" "slice 72 80 h = PutUint64 (of_nat sz)"
    unfolding h by (simp_all add: copy_at_simps sha256_magic(1))
qed

lemma parse_toc:
  assumes "toc_header ''sha256'' ob sb on sn ot sz = Some h"
    and "ob < 2 ^ 63" "sb < 2 ^ 63" "on < 2 ^ 63" "sn < 2 ^ 63" "ot < 2 ^ 63" "sz < 2 ^ 63"
  shows "parse_manifest_header h = Some (Inr \<lparr>hdrMagic = full_magic ''sha256'', offsetBlobs = int ob, sizeBlobs = int sb,
     offsetNodes = int on, sizeNodes = int sn, offsetTrees = int ot, sizeTrees = int sz\<rparr>)"
proof -
  note F = toc_fields [OF assms(1)]
  have h: "h = full_magic ''sha256'' @ 0 # drop 29 h"
    using id_take_nth_drop [of 28 h] F(1-3) by (simp add: slice_def)
  have "takeWhile (\<lambda>x. x \<noteq> 0) h = full_magic ''sha256''"
    by (subst h) (use sha256_magic(2) in \<open>auto simp: takeWhile_append\<close>)
  moreover have "0 \<in> set h" by (subst h) simp
  moreover have "take 28 h = full_magic ''sha256''" using F(2) by (simp add: slice_def)
  ultimately have cm: "consumeMagic h = Some (full_magic ''sha256'', drop 29 h)"
    by (simp add: consumeMagic_def sha256_magic(1))
  have sl: "slice a b (drop 29 h) = slice (29 + a) (29 + b) h" for a b by (simp add: slice_def add.commute)
  have nt: "drop 29 h ! k = h ! (29 + k)" if "k < 99" for k using F(1) that by simp
  show ?thesis
    unfolding parse_manifest_header_def cm
    using F assms(2-7) by (simp add: sl nt sha256_magic(3) int64_of_def sint_u64)
qed

section \<open>Sequences\<close>

lemma exportHashes_items:
  "\<forall>h \<in> set hs. length h = n \<Longrightarrow> exportHashes n (exporter_items hs) acc = Inr (acc @ concat hs)"
  by (induction hs arbitrary: acc) (auto simp: exporter_items_def)

lemma readHashes_concat:
  "\<forall>h \<in> set hs. length h = n \<Longrightarrow> 0 < n \<Longrightarrow> readHashes n (concat hs) k = take k (exporter_items hs)"
proof (induction k arbitrary: hs)
  case (Suc k)
  then show ?case
    by (cases hs) (auto simp: exporter_items_def ReadFull_def)
qed simp

text \<open>What a section with the hashes \<open>hs\<close> is read back as.\<close>

definition section_items :: "bytes list \<Rightarrow> hash_item list" where
  "section_items hs = (if hs = [] then [([], None)] else exporter_items hs)"

lemma section_read:
  assumes "take 128 file = h" and "length h = 128" and "parse_manifest_header h = Some (Inr mh)"
    and "hdrMagic mh = full_magic ''sha256''" and "ofs mh = int a" and "sz mh = int (length (concat hs))"
    and "hs \<noteq> [] \<Longrightarrow> take (length (concat hs)) (drop a file) = concat hs" and "\<forall>h \<in> set hs. length h = 32"
  shows "\<exists>sq. section_hashes ofs sz ''sha256'' (Inr file) = Some sq \<and> (\<forall>k. sq k = take k (section_items hs))"
proof -
  have "128 \<le> length file" using assms(1,2) by (metis length_take min.cobounded2 min.commute)
  then have "ReadFull maxHeaderSize file = Inr (h, drop 128 file)"
    using assms(1) by (simp add: ReadFull_def maxHeaderSize_def)
  moreover have "sz mh = 0 \<longleftrightarrow> hs = []" using assms(6,8) by (cases hs) auto
  ultimately show ?thesis
    using assms(3-8) readHashes_concat [OF assms(8)]
    by (auto simp: section_hashes_def hash_Len_def section_items_def yield_one_def)
qed

lemma write_at_mono: "length f \<le> length (write_at pos bs f)"
  by (cases "bs = []") (simp_all add: length_write_at, simp add: write_at_def)

lemma write_at_region:
  assumes "bs = concat hs" and "hs \<noteq> []" and "\<forall>h \<in> set hs. length h = 32"
  shows "take (length bs) (drop pos (write_at pos bs f)) = bs" and "pos + length bs \<le> length (write_at pos bs f)"
proof -
  have "bs \<noteq> []" using assms by (cases hs) auto
  then show "take (length bs) (drop pos (write_at pos bs f)) = bs" and "pos + length bs \<le> length (write_at pos bs f)"
    by (simp_all add: write_at_same length_write_at)
qed

lemma length_concat_32: "\<forall>h \<in> set hs. length h = 32 \<Longrightarrow> length (concat hs) = 32 * length hs"
  by (induction hs) auto

text \<open>The exported file, section by section.\<close>

lemma exported_sections:
  assumes "\<forall>h \<in> set (hashOrder c) \<union> set (nodeOrder c) \<union> set (treeOrder c). length h = 32"
    and "512 + 32 * (length (hashOrder c) + length (nodeOrder c) + length (treeOrder c)) < 2 ^ 63"
  shows "\<exists>file sb sn st. cas_Export ''sha256'' c = Some (Inr file) \<and>
    BlobHashes ''sha256'' (Inr file) = Some sb \<and> (\<forall>k. sb k = take k (section_items (hashOrder c))) \<and>
    NodeHashes ''sha256'' (Inr file) = Some sn \<and> (\<forall>k. sn k = take k (section_items (nodeOrder c))) \<and>
    TreeHashes ''sha256'' (Inr file) = Some st \<and> (\<forall>k. st k = take k (section_items (treeOrder c)))"
proof -
  let ?wb = "concat (hashOrder c)" and ?wn = "concat (nodeOrder c)" and ?wt = "concat (treeOrder c)"
  define on where "on = round_up (128 + length ?wb)"
  define ot where "ot = round_up (on + length ?wn)"
  define f1 f2 f3 where "f1 = write_at 128 ?wb []" and "f2 = write_at on ?wn f1" and "f3 = write_at ot ?wt f2"
  have h32: "\<forall>h \<in> set (hashOrder c). length h = 32" "\<forall>h \<in> set (nodeOrder c). length h = 32" "\<forall>h \<in> set (treeOrder c). length h = 32"
    using assms(1) by auto
  note len = length_concat_32 [OF h32(1)] length_concat_32 [OF h32(2)] length_concat_32 [OF h32(3)]
  obtain h where h: "toc_header ''sha256'' 128 (length ?wb) on (length ?wn) ot (length ?wt) = Some h"
    by (simp add: toc_header_sha256)
  have le: "128 + length ?wb \<le> on" "on + length ?wn \<le> ot" "on \<le> 256 + length ?wb" "ot \<le> 128 + on + length ?wn"
    using round_up_ge round_up_le [of "128 + length ?wb"] round_up_le [of "on + length ?wn"]
    by (simp_all add: on_def ot_def)
  have bd: "(128 :: nat) < 2 ^ 63" "length ?wb < 2 ^ 63" "on < 2 ^ 63" "length ?wn < 2 ^ 63" "ot < 2 ^ 63" "length ?wt < 2 ^ 63"
    using assms(2) le len by simp_all
  note P = parse_toc [OF h bd] and lh = toc_fields(1) [OF h]
  let ?file = "write_at 0 h f3"
  have "exportHashes (hash_Len ''sha256'') (exporter_items hs) [] = Inr (concat hs)" if "\<forall>h \<in> set hs. length h = 32" for hs
    using exportHashes_items [of hs 32 "[]"] that by (simp add: hash_Len_def)
  then have ex: "cas_Export ''sha256'' c = Some (Inr ?file)"
    using h h32 by (simp add: cas_Export_def exportInto_def maxHeaderSize_def Let_def on_def ot_def f1_def f2_def f3_def)
  have hd: "take 128 ?file = h" using lh by (auto simp: write_at_def Let_def)
  have mono: "length f1 \<le> length f2" "length f2 \<le> length f3" by (simp_all add: f2_def f3_def write_at_mono)
  have rb: "take (length ?wb) (drop 128 ?file) = ?wb" if "hashOrder c \<noteq> []"
    using write_at_region [OF refl that h32(1), of 128 "[]", folded f1_def] le(1,2) mono
    by (simp add: write_at_0 lh) (simp add: f3_def f2_def write_at_before)
  have rn: "take (length ?wn) (drop on ?file) = ?wn" if "nodeOrder c \<noteq> []"
    using write_at_region [OF refl that h32(2), of on f1, folded f2_def] le(1,2) mono
    by (simp add: write_at_0 lh) (simp add: f3_def write_at_before)
  have rt: "take (length ?wt) (drop ot ?file) = ?wt" if "treeOrder c \<noteq> []"
    using write_at_region [OF refl that h32(3), of ot f2, folded f3_def] le(1,2)
    by (simp add: write_at_0 lh)
  have "\<exists>sb. BlobHashes ''sha256'' (Inr ?file) = Some sb \<and> (\<forall>k. sb k = take k (section_items (hashOrder c)))"
    "\<exists>sn. NodeHashes ''sha256'' (Inr ?file) = Some sn \<and> (\<forall>k. sn k = take k (section_items (nodeOrder c)))"
    "\<exists>st. TreeHashes ''sha256'' (Inr ?file) = Some st \<and> (\<forall>k. st k = take k (section_items (treeOrder c)))"
    unfolding BlobHashes_def NodeHashes_def TreeHashes_def
    by (rule section_read [OF hd lh P]; use rb rn rt h32 in simp)+
  with ex show ?thesis by blast
qed

lemma import_items_ok:
  "import_items (map (\<lambda>h. (h, None)) hs) stored = (None, stored \<union> set hs)"
  by (induction hs arbitrary: stored) auto

lemma import_section: "import_items (section_items hs) stored = (None, stored \<union> set hs \<union> (if hs = [] then {[]} else {}))"
  by (simp add: section_items_def exporter_items_def import_items_ok)

lemma readHashes_split:
  assumes "0 < n"
  shows "\<exists>hs rest. bs = concat hs @ rest \<and> (\<forall>h \<in> set hs. length h = n) \<and> length rest < n \<and>
    (\<forall>k. readHashes n bs k = take k (exporter_items hs @ (if rest = [] then [] else [([], Some (CmShort ErrUnexpectedEOF))])))"
proof (induction "length bs" arbitrary: bs rule: less_induct)
  case less
  show ?case
  proof (cases "n \<le> length bs")
    case True
    then have "length (drop n bs) < length bs" using assms by simp
    from less [OF this] obtain hs rest where IH: "drop n bs = concat hs @ rest" "\<forall>h \<in> set hs. length h = n" "length rest < n"
      "\<forall>k. readHashes n (drop n bs) k = take k (exporter_items hs @ (if rest = [] then [] else [([], Some (CmShort ErrUnexpectedEOF))]))"
      by blast
    have "bs = concat (take n bs # hs) @ rest" using IH(1) by (metis append_assoc append_take_drop_id concat.simps(2))
    moreover have "readHashes n bs k = take k (exporter_items (take n bs # hs) @ (if rest = [] then [] else [([], Some (CmShort ErrUnexpectedEOF))]))" for k
      using IH(4) True by (cases k) (simp_all add: ReadFull_def exporter_items_def)
    ultimately show ?thesis using IH(2,3) True by (intro exI [of _ "take n bs # hs"] exI [of _ rest]) simp
  next
    case False
    have "readHashes n bs k = take k (if bs = [] then [] else [([], Some (CmShort ErrUnexpectedEOF))])" for k
      using False by (cases k) (simp_all add: ReadFull_def)
    with False show ?thesis by (intro exI [of _ "[]"] exI [of _ bs]) (simp add: exporter_items_def)
  qed
qed

section \<open>Properties\<close>

text \<open>
  C26. Export and import: a section of the manifest that a layer exports, of blobs, nodes or trees, is read back
  as exactly the hashes the layer stored, in their order and without an error, whenever there are any, whether
  or not the other sections are empty.
\<close>

theorem export_import_roundtrip:
  assumes "\<forall>h \<in> set (hashOrder c) \<union> set (nodeOrder c) \<union> set (treeOrder c). length h = 32"
    and "512 + 32 * (length (hashOrder c) + length (nodeOrder c) + length (treeOrder c)) < 2 ^ 63"
  shows "\<exists>file sb sn st. cas_Export ''sha256'' c = Some (Inr file) \<and>
    BlobHashes ''sha256'' (Inr file) = Some sb \<and> NodeHashes ''sha256'' (Inr file) = Some sn \<and>
    TreeHashes ''sha256'' (Inr file) = Some st \<and>
    (hashOrder c \<noteq> [] \<longrightarrow> (\<forall>k. sb k = take k (map (\<lambda>h. (h, None)) (hashOrder c)))) \<and>
    (nodeOrder c \<noteq> [] \<longrightarrow> (\<forall>k. sn k = take k (map (\<lambda>h. (h, None)) (nodeOrder c)))) \<and>
    (treeOrder c \<noteq> [] \<longrightarrow> (\<forall>k. st k = take k (map (\<lambda>h. (h, None)) (treeOrder c))))"
proof -
  have items: "section_items hs = map (\<lambda>h. (h, None)) hs" if "hs \<noteq> []" for hs
    using that by (simp add: section_items_def exporter_items_def)
  from exported_sections [OF assms] show ?thesis by (auto simp: items)
qed

text \<open>
  What an importing layer learns: importing the manifest another layer exported adds exactly
  that layer's hashes to the sets of stored content, except that an empty section adds the empty
  string, since it is read back as one empty hash.
\<close>

lemma import_after_export:
  assumes "\<forall>h \<in> set (hashOrder c) \<union> set (nodeOrder c) \<union> set (treeOrder c). length h = 32"
    and "512 + 32 * (length (hashOrder c) + length (nodeOrder c) + length (treeOrder c)) < 2 ^ 63"
    and "k = Suc (length (hashOrder c) + length (nodeOrder c) + length (treeOrder c))"
  shows "\<exists>file sb sn st. cas_Export ''sha256'' c = Some (Inr file) \<and>
    BlobHashes ''sha256'' (Inr file) = Some sb \<and> NodeHashes ''sha256'' (Inr file) = Some sn \<and>
    TreeHashes ''sha256'' (Inr file) = Some st \<and>
    cas_Import (sb k) (sn k) (st k) c2 = (None, c2\<lparr>
      storedHashes := storedHashes c2 \<union> set (hashOrder c) \<union> (if hashOrder c = [] then {[]} else {}),
      storedNodes := storedNodes c2 \<union> set (nodeOrder c) \<union> (if nodeOrder c = [] then {[]} else {}),
      storedTrees := storedTrees c2 \<union> set (treeOrder c) \<union> (if treeOrder c = [] then {[]} else {})\<rparr>)"
proof -
  have all: "take k (section_items hs) = section_items hs"
    if "length hs \<le> length (hashOrder c) + length (nodeOrder c) + length (treeOrder c)" for hs
    using that by (simp add: section_items_def exporter_items_def assms(3))
  obtain f sb sn st where "cas_Export ''sha256'' c = Some (Inr f)"
    "BlobHashes ''sha256'' (Inr f) = Some sb" "\<forall>k. sb k = take k (section_items (hashOrder c))"
    "NodeHashes ''sha256'' (Inr f) = Some sn" "\<forall>k. sn k = take k (section_items (nodeOrder c))"
    "TreeHashes ''sha256'' (Inr f) = Some st" "\<forall>k. st k = take k (section_items (treeOrder c))"
    using exported_sections [OF assms(1,2)] by blast
  moreover have "cas_Import (section_items (hashOrder c)) (section_items (nodeOrder c)) (section_items (treeOrder c)) c2 =
     (None, c2\<lparr>
      storedHashes := storedHashes c2 \<union> set (hashOrder c) \<union> (if hashOrder c = [] then {[]} else {}),
      storedNodes := storedNodes c2 \<union> set (nodeOrder c) \<union> (if nodeOrder c = [] then {[]} else {}),
      storedTrees := storedTrees c2 \<union> set (treeOrder c) \<union> (if treeOrder c = [] then {[]} else {})\<rparr>)"
    unfolding cas_Import_def import_section by (simp only: prod.case option.case)
  ultimately show ?thesis
    using all [of "hashOrder c"] all [of "nodeOrder c"] all [of "treeOrder c"] by auto
qed

text \<open>
  Reading a section ends: for a hash of positive length the sequence is the whole hashes of the
  section in order, followed, when bytes are left over, by one unexpected end-of-file error and
  nothing more.
\<close>

lemma readHashes_terminates:
  assumes "hash_Len alg > 0"
  shows "\<exists>hs rest. bs = concat hs @ rest \<and> (\<forall>h \<in> set hs. length h = hash_Len alg) \<and> length rest < hash_Len alg \<and>
    (\<forall>k. readHashes (hash_Len alg) bs k =
       take k (exporter_items hs @ (if rest = [] then [] else [([], Some (CmShort ErrUnexpectedEOF))])))"
  by (rule readHashes_split [OF assms])

section \<open>Witnesses\<close>

definition demo_cas :: cas_state where
  "demo_cas = \<lparr>storedHashes = {}, storedNodes = {}, storedTrees = {}, hashOrder = [replicate 32 1, replicate 32 2],
     nodeOrder = [], treeOrder = [replicate 32 3]\<rparr>"

lemma export_import_roundtrip_witness:
  "\<exists>file sb. cas_Export ''sha256'' demo_cas = Some (Inr file) \<and> BlobHashes ''sha256'' (Inr file) = Some sb \<and>
     sb 5 = [(replicate 32 1, None), (replicate 32 2, None)]"
proof -
  have "\<forall>h \<in> set (hashOrder demo_cas) \<union> set (nodeOrder demo_cas) \<union> set (treeOrder demo_cas). length h = 32"
    "512 + 32 * (length (hashOrder demo_cas) + length (nodeOrder demo_cas) + length (treeOrder demo_cas)) < 2 ^ 63"
    by (simp_all add: demo_cas_def)
  from export_import_roundtrip [OF this] obtain f sb where "cas_Export ''sha256'' demo_cas = Some (Inr f)"
    "BlobHashes ''sha256'' (Inr f) = Some sb"
    "hashOrder demo_cas \<noteq> [] \<longrightarrow> (\<forall>k. sb k = take k (map (\<lambda>h. (h, None)) (hashOrder demo_cas)))" by blast
  then show ?thesis by (auto simp: demo_cas_def)
qed

lemma import_after_export_witness:
  "\<exists>file sb sn st. cas_Export ''sha256'' demo_cas = Some (Inr file) \<and> BlobHashes ''sha256'' (Inr file) = Some sb \<and>
     NodeHashes ''sha256'' (Inr file) = Some sn \<and> TreeHashes ''sha256'' (Inr file) = Some st \<and>
     storedNodes (snd (cas_Import (sb 4) (sn 4) (st 4) demo_cas)) = {[]}"
proof -
  have "\<forall>h \<in> set (hashOrder demo_cas) \<union> set (nodeOrder demo_cas) \<union> set (treeOrder demo_cas). length h = 32"
    "512 + 32 * (length (hashOrder demo_cas) + length (nodeOrder demo_cas) + length (treeOrder demo_cas)) < 2 ^ 63"
    "4 = Suc (length (hashOrder demo_cas) + length (nodeOrder demo_cas) + length (treeOrder demo_cas))"
    by (simp_all add: demo_cas_def)
  from import_after_export [OF this, of demo_cas] obtain f sb sn st where
    "cas_Export ''sha256'' demo_cas = Some (Inr f)" "BlobHashes ''sha256'' (Inr f) = Some sb"
    "NodeHashes ''sha256'' (Inr f) = Some sn" "TreeHashes ''sha256'' (Inr f) = Some st"
    "storedNodes (snd (cas_Import (sb 4) (sn 4) (st 4) demo_cas)) =
       storedNodes demo_cas \<union> set (nodeOrder demo_cas) \<union> (if nodeOrder demo_cas = [] then {[]} else {})"
    by (force simp: prod_eq_iff)
  then show ?thesis by (auto simp: demo_cas_def)
qed

lemma readHashes_terminates_witness:
  "\<exists>hs rest. replicate 40 (0 :: byte) = concat hs @ rest \<and> length rest < 32 \<and> (\<forall>h \<in> set hs. length h = 32)"
proof -
  have n: "hash_Len ''sha256'' = 32" by (simp add: hash_Len_def)
  have "0 < hash_Len ''sha256''" by (simp add: n)
  from readHashes_terminates [OF this, of "replicate 40 0", unfolded n] show ?thesis by blast
qed

end
