(* ===== verification/Tar_Header.thy ===== *)
theory Tar_Header
  imports Prelude "HOL-Library.Char_ord" "HOL-Library.List_Lexorder"
begin

text \<open>
  \<^verbatim>\<open>pkg/tarcas/tarmetadata.go\<close>: the tar header and the hash of its normalized metadata, by which the
  layer writer decides that two files can share an inode.  A hash function absorbs bytes, so a
  \<^verbatim>\<open>hash.Hash\<close> is the bytes written to it.  Integers of a header are \<open>int\<close>, within 64 bits in a
  \<open>header_ok\<close> header; a nil map is \<open>None\<close>.
\<close>

section \<open>Headers\<close>

definition TypeReg :: byte where "TypeReg = 0x30"
definition TypeLink :: byte where "TypeLink = 0x31"
definition TypeSymlink :: byte where "TypeSymlink = 0x32"
definition TypeChar :: byte where "TypeChar = 0x33"
definition TypeBlock :: byte where "TypeBlock = 0x34"
definition TypeDir :: byte where "TypeDir = 0x35"
definition FormatPAX :: int where "FormatPAX = 4"

lemmas typeflags = TypeReg_def TypeLink_def TypeSymlink_def TypeChar_def TypeBlock_def TypeDir_def

lemma typeflags_distinct [simp]:
  "TypeLink \<noteq> TypeReg" "TypeSymlink \<noteq> TypeReg" "TypeDir \<noteq> TypeReg" "TypeDir \<noteq> TypeLink" "TypeDir \<noteq> TypeSymlink"
  "TypeLink \<noteq> TypeSymlink" "TypeReg \<noteq> TypeLink" "TypeReg \<noteq> TypeSymlink" "TypeReg \<noteq> TypeDir" "TypeLink \<noteq> TypeDir"
  "TypeSymlink \<noteq> TypeDir" "TypeSymlink \<noteq> TypeLink" "TypeReg \<noteq> TypeChar" "TypeReg \<noteq> TypeBlock"
  by (simp_all add: typeflags)

record tarHeader =
  hTypeflag :: byte
  hName :: string
  hLinkname :: string
  hSize :: int
  hMode :: int
  hUid :: int
  hGid :: int
  hUname :: string
  hGname :: string
  hModTime :: gotime
  hAccessTime :: gotime
  hChangeTime :: gotime
  hDevmajor :: int
  hDevminor :: int
  hXattrs :: "(string, string) gomap option"
  hPAXRecords :: "(string, string) gomap option"
  hFormat :: int

text \<open>The zero value \<^verbatim>\<open>tar.Header{}\<close>; \<^verbatim>\<open>time.Time{}\<close> is 0.\<close>

definition zero_header :: tarHeader where
  "zero_header = \<lparr>hTypeflag = 0, hName = [], hLinkname = [], hSize = 0, hMode = 0, hUid = 0, hGid = 0, hUname = [],
     hGname = [], hModTime = 0, hAccessTime = 0, hChangeTime = 0, hDevmajor = 0, hDevminor = 0, hXattrs = None,
     hPAXRecords = None, hFormat = 0\<rparr>"

definition HasSuffix :: "string \<Rightarrow> string \<Rightarrow> bool" where
  "HasSuffix s suf = (length suf \<le> length s \<and> drop (length s - length suf) s = suf)"

section \<open>Hashing\<close>

definition hash64 :: "bytes \<Rightarrow> u64 \<Rightarrow> bytes" where
  "hash64 h i = h @ PutUint64 i"

definition hashString :: "bytes \<Rightarrow> string \<Rightarrow> bytes" where
  "hashString h s = hash64 h (of_nat (length s)) @ str_bytes s"

definition map_entries :: "(string, string) gomap option \<Rightarrow> (string, string) gomap" where
  "map_entries m = (case m of None \<Rightarrow> [] | Some es \<Rightarrow> es)"

definition hashMapStrStr :: "bytes \<Rightarrow> (string, string) gomap option \<Rightarrow> bytes" where
  "hashMapStrStr h m =
     foldl (\<lambda>h k. hashString (hashString h k) (the (map_of (map_entries m) k)))
       (hash64 h (of_nat (length (map_entries m)))) (sort (map fst (map_entries m)))"

section \<open>Normalization\<close>

definition cloneTarHeader :: "tarHeader \<Rightarrow> tarHeader" where
  "cloneTarHeader th =
     \<lparr>hTypeflag = hTypeflag th, hName = hName th, hLinkname = hLinkname th, hSize = hSize th, hMode = hMode th,
      hUid = hUid th, hGid = hGid th, hUname = hUname th, hGname = hGname th, hModTime = hModTime th,
      hAccessTime = hAccessTime th, hChangeTime = hChangeTime th, hDevmajor = hDevmajor th,
      hDevminor = hDevminor th, hXattrs = hXattrs th, hPAXRecords = hPAXRecords th, hFormat = hFormat th\<rparr>"

text \<open>\<^verbatim>\<open>Round(time.Second)\<close> rounds half up; \<^verbatim>\<open>Unix\<close> counts seconds from 1970.\<close>

definition second :: int where "second = 1000000000"

definition time_Round :: "gotime \<Rightarrow> gotime" where
  "time_Round t = (let r = t mod second in if r + r < second then t - r else t + (second - r))"

definition time_Unix :: "gotime \<Rightarrow> int" where
  "time_Unix t = t div second - 62135596800"

definition round_time :: "gotime \<Rightarrow> gotime" where
  "round_time t = (if t = 0 then t else time_Round t)"

definition xattrKey :: "string \<Rightarrow> string" where "xattrKey k = ''SCHILY.xattr.'' @ k"

definition merge_xattrs :: "tarHeader \<Rightarrow> tarHeader" where
  "merge_xattrs th =
     (if length (map_entries (hXattrs th)) > 0
      then th\<lparr>hPAXRecords := Some (fold (\<lambda>(k, v). AList.update (xattrKey k) v) (map_entries (hXattrs th))
                (map_entries (hPAXRecords th))), hXattrs := None\<rparr>
      else th)"

definition normalizeTarHeader :: "tarHeader \<Rightarrow> tarHeader" where
  "normalizeTarHeader th0 =
     (let th1 = th0\<lparr>hFormat := FormatPAX\<rparr>;
          th2 = (if HasSuffix (hName th1) ''/'' \<and> hTypeflag th1 = TypeReg then th1\<lparr>hTypeflag := TypeDir\<rparr> else th1);
          th3 = (if hTypeflag th2 \<noteq> TypeLink \<and> hTypeflag th2 \<noteq> TypeSymlink then th2\<lparr>hLinkname := []\<rparr> else th2);
          th4 = th3\<lparr>hModTime := round_time (hModTime th3)\<rparr>;
          th5 = th4\<lparr>hAccessTime := round_time (hAccessTime th4)\<rparr>;
          th6 = th5\<lparr>hChangeTime := round_time (hChangeTime th5)\<rparr>;
          th7 = (if hTypeflag th6 \<noteq> TypeChar \<and> hTypeflag th6 \<noteq> TypeBlock then th6\<lparr>hDevmajor := 0, hDevminor := 0\<rparr> else th6)
      in merge_xattrs th7)"

definition hashTarHeader :: "bytes \<Rightarrow> tarHeader \<Rightarrow> bytes" where
  "hashTarHeader h th0 =
     (let th = normalizeTarHeader (cloneTarHeader th0);
          h1 = hashString (hashString (h @ [hTypeflag th]) (hName th)) (hLinkname th);
          h2 = hash64 (hash64 (hash64 (hash64 h1 (of_int (hSize th))) (of_int (hMode th))) (of_int (hUid th))) (of_int (hGid th));
          h3 = hashString (hashString h2 (hUname th)) (hGname th);
          h4 = hash64 (hash64 (hash64 h3 (of_int (time_Unix (hModTime th)))) (of_int (time_Unix (hAccessTime th))))
                 (of_int (time_Unix (hChangeTime th)));
          h5 = hash64 (hash64 h4 (of_int (hDevmajor th))) (of_int (hDevminor th))
      in hash64 (hashMapStrStr (hashMapStrStr h5 (hXattrs th)) (hPAXRecords th)) (of_int (hFormat th)))"

definition isBlobTarHeader :: "tarHeader \<Rightarrow> bool" where
  "isBlobTarHeader hdr =
     (if hTypeflag hdr \<noteq> TypeReg then False
      else if HasSuffix (hName hdr) ''/'' then False
      else if hMode hdr \<noteq> 493 then False
      else if hUid hdr \<noteq> 0 \<or> hGid hdr \<noteq> 0 then False
      else if hUname hdr \<noteq> [] \<or> hGname hdr \<noteq> [] then False
      else if hModTime hdr \<noteq> 0 then False
      else if hAccessTime hdr \<noteq> 0 then False
      else if hChangeTime hdr \<noteq> 0 then False
      else if hDevmajor hdr \<noteq> 0 \<or> hDevminor hdr \<noteq> 0 then False
      else if hXattrs hdr \<noteq> None \<or> hPAXRecords hdr \<noteq> None then False
      else True)"

lemma cloneTarHeader_id [simp]: "cloneTarHeader th = th"
  by (simp add: cloneTarHeader_def)

section \<open>Reading the hashed text back\<close>

definition enc_string :: "string \<Rightarrow> bytes" where
  "enc_string s = PutUint64 (of_nat (length s)) @ str_bytes s"

definition short :: "string \<Rightarrow> bool" where "short s \<longleftrightarrow> length s < 2 ^ 64"

interpretation str_code: prefix_code enc_string short
proof
  fix a b xs ys assume "short a" "short b" "enc_string a @ xs = enc_string b @ ys"
  then have "PutUint64 (of_nat (length a)) @ (str_bytes a @ xs) = PutUint64 (of_nat (length b)) @ (str_bytes b @ ys)"
    by (simp add: enc_string_def)
  then have l: "(of_nat (length a) :: u64) = of_nat (length b)" and r: "str_bytes a @ xs = str_bytes b @ ys"
    using u64.prefix_inject [OF TrueI TrueI] by blast+
  from l \<open>short a\<close> \<open>short b\<close> have "length a = length b" by (simp add: short_def of_nat_u64_inject)
  with r show "a = b \<and> xs = ys" by simp
qed

text \<open>A map is hashed as its size and its entries in the order of the keys.\<close>

definition enc_entry :: "string \<times> string \<Rightarrow> bytes" where
  "enc_entry = (\<lambda>(k, v). enc_string k @ enc_string v)"

definition enc_entries :: "(string \<times> string) list \<Rightarrow> bytes" where
  "enc_entries es = PutUint64 (of_nat (length es)) @ concat (map enc_entry es)"

definition short_entry :: "string \<times> string \<Rightarrow> bool" where
  "short_entry = (\<lambda>(k, v). short k \<and> short v)"

interpretation entry_code: prefix_code enc_entry short_entry
proof
  fix a b xs ys assume "short_entry a" "short_entry b" "enc_entry a @ xs = enc_entry b @ ys"
  then show "a = b \<and> xs = ys"
    by (cases a; cases b) (simp add: short_entry_def enc_entry_def str_code.prefix_eq_iff)
qed

interpretation entries_code: prefix_code enc_entries "\<lambda>es. length es < 2 ^ 64 \<and> list_all short_entry es"
proof
  fix a b xs ys
  assume ok: "length a < 2 ^ 64 \<and> list_all short_entry a" "length b < 2 ^ 64 \<and> list_all short_entry b"
    and eq: "enc_entries a @ xs = enc_entries b @ ys"
  from eq have "(of_nat (length a) :: u64) = of_nat (length b) \<and>
      concat (map enc_entry a) @ xs = concat (map enc_entry b) @ ys"
    by (simp only: enc_entries_def append_assoc u64.prefix_eq_iff)
  with ok show "a = b \<and> xs = ys"
    by (intro entry_code.prefix_list) (simp_all only: of_nat_u64_inject)
qed

definition sorted_entries :: "(string, string) gomap option \<Rightarrow> (string \<times> string) list" where
  "sorted_entries m = map (\<lambda>k. (k, the (map_of (map_entries m) k))) (sort (map fst (map_entries m)))"

lemma hash64_append: "hash64 h i = h @ PutUint64 i"
  by (simp add: hash64_def)

lemma hashString_append: "hashString h s = h @ enc_string s"
  by (simp add: hashString_def hash64_def enc_string_def)

lemma foldl_hashString:
  "foldl (\<lambda>h k. hashString (hashString h k) (f k)) h ks = h @ concat (map (\<lambda>k. enc_entry (k, f k)) ks)"
  by (induction ks arbitrary: h) (simp_all add: hashString_append enc_entry_def)

lemma hashMapStrStr_append: "hashMapStrStr h m = h @ enc_entries (sorted_entries m)"
  by (simp add: hashMapStrStr_def foldl_hashString enc_entries_def sorted_entries_def hash64_def comp_def)

lemma map_of_sorted_entries: "map_of (sorted_entries m) = map_of (map_entries m)"
proof
  fix k
  have "k \<in> set (map fst (map_entries m)) \<longleftrightarrow> map_of (map_entries m) k \<noteq> None"
    by (simp add: map_of_eq_None_iff)
  then show "map_of (sorted_entries m) k = map_of (map_entries m) k"
    by (auto simp: sorted_entries_def map_of_map_restrict restrict_map_def)
qed

section \<open>Equal hashes mean equal metadata\<close>

definition int64 :: "int \<Rightarrow> bool" where "int64 i \<longleftrightarrow> - (2 ^ 63) \<le> i \<and> i < 2 ^ 63"

text \<open>What every Go header satisfies: its strings and maps fit in memory, its integers in 64 bits.\<close>

definition header_ok :: "tarHeader \<Rightarrow> bool" where
  "header_ok th \<longleftrightarrow>
     list_all short [hName th, hLinkname th, hUname th, hGname th] \<and>
     list_all int64 [hSize th, hMode th, hUid th, hGid th, hDevmajor th, hDevminor th, hFormat th,
       time_Unix (hModTime th), time_Unix (hAccessTime th), time_Unix (hChangeTime th)] \<and>
     list_all (\<lambda>m. length (map_entries m) < 2 ^ 64 \<and> list_all short_entry (map_entries m) \<and>
       distinct (map fst (map_entries m))) [hXattrs th, hPAXRecords th]"

definition same_metadata :: "tarHeader \<Rightarrow> tarHeader \<Rightarrow> bool" where
  "same_metadata a b \<longleftrightarrow>
     hTypeflag a = hTypeflag b \<and> hName a = hName b \<and> hLinkname a = hLinkname b \<and> hSize a = hSize b \<and>
     hMode a = hMode b \<and> hUid a = hUid b \<and> hGid a = hGid b \<and> hUname a = hUname b \<and> hGname a = hGname b \<and>
     hModTime a = hModTime b \<and> hAccessTime a = hAccessTime b \<and> hChangeTime a = hChangeTime b \<and>
     hDevmajor a = hDevmajor b \<and> hDevminor a = hDevminor b \<and> hFormat a = hFormat b \<and>
     map_of (map_entries (hXattrs a)) = map_of (map_entries (hXattrs b)) \<and>
     map_of (map_entries (hPAXRecords a)) = map_of (map_entries (hPAXRecords b))"

lemma int64_inject: "int64 a \<Longrightarrow> int64 b \<Longrightarrow> (of_int a :: u64) = of_int b \<longleftrightarrow> a = b"
  using of_int_u64_inject [of a b] by (simp only: int64_def)

lemma sorted_entries_ok:
  assumes "length (map_entries m) < 2 ^ 64 \<and> list_all short_entry (map_entries m) \<and> distinct (map fst (map_entries m))"
  shows "length (sorted_entries m) < 2 ^ 64 \<and> list_all short_entry (sorted_entries m)"
proof -
  have "short_entry (k, the (map_of (map_entries m) k))" if "k \<in> fst ` set (map_entries m)" for k
    using that assms by (auto simp: list_all_iff)
  then have "list_all short_entry (sorted_entries m)" by (auto simp: sorted_entries_def list_all_iff)
  with assms show ?thesis by (simp add: sorted_entries_def)
qed

lemma round_time_second: "round_time t mod second = 0"
proof -
  have "(t + (second - t mod second)) mod second = 0"
    by (metis add_diff_eq add.commute minus_mod_eq_mult_div diff_add_eq mod_add_self1 mod_mult_self1_is_0)
  moreover have "(t - t mod second) mod second = 0" by (simp add: minus_mod_eq_mult_div)
  ultimately show ?thesis by (simp add: round_time_def time_Round_def Let_def)
qed

lemma time_Unix_inject: "t mod second = 0 \<Longrightarrow> u mod second = 0 \<Longrightarrow> time_Unix t = time_Unix u \<longleftrightarrow> t = u"
  by (metis add_diff_cancel_right' diff_add_cancel div_mult_mod_eq time_Unix_def)

lemma normalized_fields:
  "hModTime (normalizeTarHeader th) mod second = 0" "hAccessTime (normalizeTarHeader th) mod second = 0"
  "hChangeTime (normalizeTarHeader th) mod second = 0" "hFormat (normalizeTarHeader th) = FormatPAX"
  "hSize (normalizeTarHeader th) = hSize th" "hMode (normalizeTarHeader th) = hMode th"
  "hUid (normalizeTarHeader th) = hUid th" "hGid (normalizeTarHeader th) = hGid th"
  "hUname (normalizeTarHeader th) = hUname th" "hGname (normalizeTarHeader th) = hGname th"
  "hName (normalizeTarHeader th) = hName th"
  by (simp_all add: normalizeTarHeader_def merge_xattrs_def Let_def round_time_second)

lemma hashTarHeader_append:
  "hashTarHeader h th0 = (let th = normalizeTarHeader th0 in
     h @ [hTypeflag th] @ enc_string (hName th) @ enc_string (hLinkname th) @ PutUint64 (of_int (hSize th)) @
     PutUint64 (of_int (hMode th)) @ PutUint64 (of_int (hUid th)) @ PutUint64 (of_int (hGid th)) @
     enc_string (hUname th) @ enc_string (hGname th) @ PutUint64 (of_int (time_Unix (hModTime th))) @
     PutUint64 (of_int (time_Unix (hAccessTime th))) @ PutUint64 (of_int (time_Unix (hChangeTime th))) @
     PutUint64 (of_int (hDevmajor th)) @ PutUint64 (of_int (hDevminor th)) @ enc_entries (sorted_entries (hXattrs th)) @
     enc_entries (sorted_entries (hPAXRecords th)) @ PutUint64 (of_int (hFormat th)))"
  by (simp add: hashTarHeader_def Let_def hashMapStrStr_append hashString_append hash64_append)

lemma hashed_text_inject:
  assumes "header_ok (normalizeTarHeader a)" "header_ok (normalizeTarHeader b)"
    and "hashTarHeader [] a @ x = hashTarHeader [] b @ y"
  shows "same_metadata (normalizeTarHeader a) (normalizeTarHeader b) \<and> x = y"
proof -
  let ?a = "normalizeTarHeader a" and ?b = "normalizeTarHeader b"
  note ok = assms(1,2) [unfolded header_ok_def list.pred_inject]
  note maps = sorted_entries_ok [of "hXattrs ?a"] sorted_entries_ok [of "hXattrs ?b"]
    sorted_entries_ok [of "hPAXRecords ?a"] sorted_entries_ok [of "hPAXRecords ?b"]
  have eq: "hTypeflag ?a = hTypeflag ?b \<and> hName ?a = hName ?b \<and> hLinkname ?a = hLinkname ?b \<and> hSize ?a = hSize ?b \<and>
    hMode ?a = hMode ?b \<and> hUid ?a = hUid ?b \<and> hGid ?a = hGid ?b \<and> hUname ?a = hUname ?b \<and> hGname ?a = hGname ?b \<and>
    time_Unix (hModTime ?a) = time_Unix (hModTime ?b) \<and> time_Unix (hAccessTime ?a) = time_Unix (hAccessTime ?b) \<and>
    time_Unix (hChangeTime ?a) = time_Unix (hChangeTime ?b) \<and> hDevmajor ?a = hDevmajor ?b \<and> hDevminor ?a = hDevminor ?b \<and>
    sorted_entries (hXattrs ?a) = sorted_entries (hXattrs ?b) \<and>
    sorted_entries (hPAXRecords ?a) = sorted_entries (hPAXRecords ?b) \<and> hFormat ?a = hFormat ?b \<and> x = y"
    using assms(3) ok maps
    by (simp only: hashTarHeader_append Let_def append_assoc append_Nil append_Cons list.inject
        str_code.prefix_eq_iff entries_code.prefix_eq_iff u64.prefix_eq_iff int64_inject simp_thms)
  then have "map_of (map_entries (hXattrs ?a)) = map_of (map_entries (hXattrs ?b))"
    "map_of (map_entries (hPAXRecords ?a)) = map_of (map_entries (hPAXRecords ?b))"
    by (metis map_of_sorted_entries)+
  with eq show ?thesis by (simp add: same_metadata_def time_Unix_inject normalized_fields)
qed

end
