(* ===== verification/Tar_Observer.thy ===== *)
theory Tar_Observer
  imports Tar_Header Compact_Writer
begin

text \<open>
  \<^verbatim>\<open>pkg/tarcas/observer.go\<close>: the observer that turns the entries of a tar archive into a compact stream
  while the archive is written.  \<^verbatim>\<open>archive/tar\<close>'s encoding of a header (\<open>tarEncode\<close>), the hash function, the
  \<^verbatim>\<open>api.TarAppender\<close> that receives the archive and \<^verbatim>\<open>digestfs\<close> are fields of the record \<open>tarLib\<close>.  A reader is
  the bytes it yields and the error it ends with, \<open>None\<close> for \<^verbatim>\<open>io.EOF\<close>.
\<close>

section \<open>Environment\<close>

type_synonym reader = "bytes \<times> string option"

datatype tar_error =
    TarEncode string
  | TarAppend string
  | TarRead string
  | TarObserver cs_error
  | TarCallback string
  | TarOpen string
  | TarUsage string
  | TarSize int int
  | TarNode string
  | TarWalk string string
  | TarTree tar_error

text \<open>An open \<^verbatim>\<open>digestfs\<close> file: its content, the result of \<^verbatim>\<open>Digest\<close> and of \<^verbatim>\<open>Size\<close>.\<close>

record digestFile =
  dfContent :: reader
  dfDigest :: "string + bytes"
  dfSize :: int

record 'a tarLib =
  tarEncode :: "tarHeader \<Rightarrow> string + bytes"
  hashFn :: "bytes \<Rightarrow> bytes"
  appendTar :: "'a \<Rightarrow> reader \<Rightarrow> 'a \<times> string option"
  openFile :: "string \<Rightarrow> string + digestFile"

section \<open>The observer\<close>

record csObserver =
  oWriter :: csWriter
  oHasher :: "bytes option"
  oHdr :: "tarHeader option"
  oRawHeader :: bytes
  oKnownDigest :: "bytes option"
  oInlineThreshold :: int
  oInline :: bool

datatype sink = NoSink | StreamSink | HashSink

definition newCompactStreamObserver :: "csWriter \<Rightarrow> csObserver" where
  "newCompactStreamObserver iw =
     \<lparr>oWriter = iw, oHasher = None, oHdr = None, oRawHeader = [], oKnownDigest = None,
      oInlineThreshold = inlineThreshold iw, oInline = False\<rparr>"

definition CaptureTarHeaderBytes :: "'a tarLib \<Rightarrow> tarHeader \<Rightarrow> tar_error + bytes" where
  "CaptureTarHeaderBytes E hdr = map_sum TarEncode id (tarEncode E hdr)"

definition BeginEntry :: "'a tarLib \<Rightarrow> tarHeader \<Rightarrow> bytes option \<Rightarrow> csObserver \<Rightarrow> csObserver \<times> (tar_error + sink)" where
  "BeginEntry E hdr knownDigest o0 =
     (let o1 = o0\<lparr>oHasher := None, oKnownDigest := knownDigest, oInline := False, oHdr := Some hdr\<rparr> in
      case CaptureTarHeaderBytes E hdr of
        Inl e \<Rightarrow> (o1, Inl e)
      | Inr rawHeader \<Rightarrow>
          (case WriteStreamBytes rawHeader (oWriter o1) of
             (w, Some e) \<Rightarrow> (o1\<lparr>oRawHeader := rawHeader, oWriter := w\<rparr>, Inl (TarObserver e))
           | (w, None) \<Rightarrow>
               (let o2 = o1\<lparr>oRawHeader := rawHeader, oWriter := w\<rparr> in
                if hTypeflag hdr \<noteq> TypeReg \<or> hSize hdr = 0 then (o2, Inr NoSink)
                else if oInlineThreshold o2 > 0 \<and> hSize hdr < oInlineThreshold o2
                then (o2\<lparr>oInline := True\<rparr>, Inr StreamSink)
                else if knownDigest = None then (o2\<lparr>oHasher := Some []\<rparr>, Inr HashSink)
                else (o2, Inr NoSink))))"

text \<open>The bytes read through the \<^verbatim>\<open>TeeReader\<close> reach the sink; a reader without bytes writes nothing.\<close>

definition sink_write :: "sink \<Rightarrow> bytes \<Rightarrow> csObserver \<Rightarrow> csObserver \<times> cs_error option" where
  "sink_write s b ob =
     (if b = [] then (ob, None)
      else case s of
        NoSink \<Rightarrow> (ob, None)
      | StreamSink \<Rightarrow> (case WriteStreamBytes b (oWriter ob) of (w, e) \<Rightarrow> (ob\<lparr>oWriter := w\<rparr>, e))
      | HashSink \<Rightarrow> (ob\<lparr>oHasher := map_option (\<lambda>h. h @ b) (oHasher ob)\<rparr>, None))"

definition tarBlockPadding :: "int \<Rightarrow> bytes" where
  "tarBlockPadding sz =
     (let remainder = sz - 512 * go_quot sz 512 in
      if remainder = 0 then [] else replicate (nat (512 - remainder)) 0)"

text \<open>The deferred reset of the per-entry fields.\<close>

definition entry_reset :: "csObserver \<Rightarrow> csObserver" where
  "entry_reset ob = ob\<lparr>oHasher := None, oRawHeader := [], oKnownDigest := None, oHdr := None, oInline := False\<rparr>"

definition write_padding :: "int \<Rightarrow> csWriter \<Rightarrow> csWriter \<times> cs_error option" where
  "write_padding sz w =
     (let padding = tarBlockPadding sz in if length padding > 0 then WriteStreamBytes padding w else (w, None))"

definition entry_digest :: "'a tarLib \<Rightarrow> csObserver \<Rightarrow> bytes option" where
  "entry_digest E ob = (case oKnownDigest ob of Some d \<Rightarrow> Some d | None \<Rightarrow> map_option (hashFn E) (oHasher ob))"

definition end_entry :: "'a tarLib \<Rightarrow> csObserver \<Rightarrow> csWriter \<times> cs_error option" where
  "end_entry E ob =
     (case oHdr ob of
        None \<Rightarrow> (oWriter ob, None)
      | Some hdr \<Rightarrow>
          if oInline ob then
            if hTypeflag hdr = TypeReg \<and> hSize hdr > 0 then write_padding (hSize hdr) (oWriter ob) else (oWriter ob, None)
          else if hTypeflag hdr \<noteq> TypeReg \<or> hSize hdr = 0 then (oWriter ob, None)
          else
            (case entry_digest E ob of
               None \<Rightarrow> (oWriter ob, None)
             | Some digest \<Rightarrow>
                 (case WriteCASRef digest (of_int (hSize hdr)) (oWriter ob) of
                    (w, Some e) \<Rightarrow> (w, Some e)
                  | (w, None) \<Rightarrow> write_padding (hSize hdr) w)))"

definition EndEntry :: "'a tarLib \<Rightarrow> csObserver \<Rightarrow> csObserver \<times> cs_error option" where
  "EndEntry E ob = (case end_entry E ob of (w, e) \<Rightarrow> (entry_reset (ob\<lparr>oWriter := w\<rparr>), e))"

end
