(* ===== verification/Go_Path.thy ===== *)
theory Go_Path
  imports Prelude
begin

text \<open>
  \<^verbatim>\<open>path.Clean\<close>, \<^verbatim>\<open>path.Dir\<close> and \<^verbatim>\<open>path.Join\<close> of the Go standard library on slash-separated strings, and the
  loop over the parent directories of a path of \<^verbatim>\<open>pkg/tarcas/tarcas.go\<close>.
\<close>

section \<open>Cleaning\<close>

definition rooted :: "string \<Rightarrow> bool" where
  "rooted p \<longleftrightarrow> (case p of [] \<Rightarrow> False | c # _ \<Rightarrow> c = CHR ''/'')"

text \<open>The stack of components, innermost first; above the root a dot-dot disappears.\<close>

fun clean_comp :: "bool \<Rightarrow> string list \<Rightarrow> string \<Rightarrow> string list" where
  "clean_comp r stack p =
     (if p = [] \<or> p = ''.'' then stack
      else if p = ''..'' then
        (case stack of [] \<Rightarrow> if r then [] else [p] | q # qs \<Rightarrow> if q = ''..'' then p # stack else qs)
      else p # stack)"

declare clean_comp.simps [simp del]

definition path_Clean :: "string \<Rightarrow> string" where
  "path_Clean p =
     (if p = [] then ''.''
      else let r = rooted p;
               out = (if r then ''/'' else []) @ join_with ''/'' (rev (foldl (clean_comp r) [] (split_on CHR ''/'' p)))
           in if out = [] then ''.'' else out)"

text \<open>\<^verbatim>\<open>path.Split\<close> cuts after the last slash.\<close>

definition split_dir :: "string \<Rightarrow> string" where
  "split_dir p = rev (dropWhile (\<lambda>c. c \<noteq> CHR ''/'') (rev p))"

definition path_Dir :: "string \<Rightarrow> string" where
  "path_Dir p = path_Clean (split_dir p)"

definition path_Join_all :: "string list \<Rightarrow> string" where
  "path_Join_all elems =
     (let es = filter (\<lambda>e. e \<noteq> []) elems in if es = [] then [] else path_Clean (join_with ''/'' es))"

section \<open>Parent directories\<close>

text \<open>
  \<^verbatim>\<open>for dir := path.Dir(hdr.Name); dir != "."; dir = path.Dir(dir)\<close>, collecting \<^verbatim>\<open>dir+"/"\<close>; \<open>None\<close> when the
  loop does not end.
\<close>

partial_function (option) parents_from :: "string \<Rightarrow> string list option" where
  "parents_from dir =
     (if dir = ''.'' then Some []
      else Option.bind (parents_from (path_Dir dir)) (\<lambda>ps. Some ((dir @ ''/'') # ps)))"

definition parents :: "string \<Rightarrow> string list option" where
  "parents name = parents_from (path_Dir name)"

section \<open>The loop ends for relative paths\<close>

text \<open>The room a list of components takes when joined.\<close>

definition room :: "string list \<Rightarrow> nat" where
  "room cs = sum_list (map (\<lambda>c. Suc (length c)) cs)"

lemma room_simps [simp]: "room [] = 0" "room (c # cs) = Suc (length c) + room cs" "room (xs @ ys) = room xs + room ys"
  by (simp_all add: room_def)

lemma length_join: "cs \<noteq> [] \<Longrightarrow> Suc (length (join_with ''/'' cs)) = room cs"
  by (induction "''/''" cs rule: join_with.induct) (simp_all add: room_def)

lemma room_rev [simp]: "room (rev cs) = room cs"
  by (simp add: room_def flip: rev_map)

lemma room_split_on: "room (split_on c xs) = Suc (length xs)"
  by (induction c xs rule: split_on.induct) (auto simp: split: list.splits)

lemma clean_comp_room: "room (clean_comp r st p) \<le> room st + Suc (length p)"
  by (auto simp: clean_comp.simps split: list.splits)

lemma clean_comps_room: "room (foldl (clean_comp r) st ps) \<le> room st + room ps"
proof (induction ps arbitrary: st)
  case (Cons p ps)
  show ?case using Cons [of "clean_comp r st p"] clean_comp_room [of r st p] by simp
qed simp

lemma clean_comp_slash_free:
  "list_all (\<lambda>c. c \<noteq> [] \<and> CHR ''/'' \<notin> set c) st \<Longrightarrow> CHR ''/'' \<notin> set p \<Longrightarrow>
   list_all (\<lambda>c. c \<noteq> [] \<and> CHR ''/'' \<notin> set c) (clean_comp r st p)"
  by (auto simp: clean_comp.simps split: list.splits)

lemma clean_comps_slash_free:
  "list_all (\<lambda>c. c \<noteq> [] \<and> CHR ''/'' \<notin> set c) st \<Longrightarrow> list_all (\<lambda>p. CHR ''/'' \<notin> set p) ps \<Longrightarrow>
   list_all (\<lambda>c. c \<noteq> [] \<and> CHR ''/'' \<notin> set c) (foldl (clean_comp r) st ps)"
  by (induction ps arbitrary: st) (simp_all add: clean_comp_slash_free)

lemma join_not_rooted:
  "list_all (\<lambda>c. c \<noteq> [] \<and> CHR ''/'' \<notin> set c) cs \<Longrightarrow> \<not> rooted (join_with ''/'' cs)"
proof (cases cs)
  case (Cons c rest)
  moreover assume "list_all (\<lambda>c. c \<noteq> [] \<and> CHR ''/'' \<notin> set c) cs"
  ultimately obtain a c' where "c = a # c'" "a \<noteq> CHR ''/''" by (cases c) auto
  with Cons show ?thesis by (cases rest) (simp_all add: rooted_def)
qed (simp add: rooted_def)

lemma path_Clean_relative: "\<not> rooted p \<Longrightarrow> \<not> rooted (path_Clean p)"
proof -
  assume r: "\<not> rooted p"
  have "list_all (\<lambda>q. CHR ''/'' \<notin> set q) (split_on CHR ''/'' p)"
    by (auto simp: list_all_iff dest: split_on_no_sep)
  then have "list_all (\<lambda>c. c \<noteq> [] \<and> CHR ''/'' \<notin> set c) (rev (foldl (clean_comp False) [] (split_on CHR ''/'' p)))"
    using clean_comps_slash_free [of "[]" "split_on CHR ''/'' p" False] by simp
  from join_not_rooted [OF this] r show ?thesis
    by (simp add: path_Clean_def Let_def) (simp add: rooted_def)
qed

lemma path_Clean_rooted: "rooted p \<Longrightarrow> rooted (path_Clean p)"
  by (auto simp: path_Clean_def Let_def rooted_def split: list.splits)

lemma split_dir_cases:
  obtains "split_dir p = []" "CHR ''/'' \<notin> set p"
  | x y where "split_dir p = x @ ''/''" "p = x @ ''/'' @ y"
proof (cases "CHR ''/'' \<in> set p")
  case True
  then obtain x y where p: "p = x @ CHR ''/'' # y" "CHR ''/'' \<notin> set y" by (metis split_list_last)
  then have "split_dir p = x @ ''/''" by (auto simp: split_dir_def dropWhile_append)
  with p(1) that(2) show ?thesis by simp
next
  case False
  then have "split_dir p = []" by (auto simp: split_dir_def dropWhile_eq_Nil_conv)
  with False that(1) show ?thesis by simp
qed

lemma path_Dir_relative: "\<not> rooted p \<Longrightarrow> \<not> rooted (path_Dir p)"
proof (cases p rule: split_dir_cases)
  case 1 then show ?thesis by (simp add: path_Dir_def path_Clean_def) (simp add: rooted_def)
next
  case (2 x y)
  assume "\<not> rooted p"
  then have "\<not> rooted (x @ ''/'')" by (cases x) (auto simp: 2(2) rooted_def)
  then show ?thesis by (simp add: path_Dir_def 2(1) path_Clean_relative)
qed

lemma path_Dir_rooted: "rooted p \<Longrightarrow> rooted (path_Dir p)"
proof (cases p rule: split_dir_cases)
  case 1 then show "rooted p \<Longrightarrow> ?thesis" by (auto simp: rooted_def split: list.splits)
next
  case (2 x y)
  assume "rooted p"
  then have "rooted (x @ ''/'')" by (cases x) (auto simp: 2(2) rooted_def)
  then show ?thesis by (simp add: path_Dir_def 2(1) path_Clean_rooted)
qed

lemma path_Dir_shorter:
  assumes "\<not> rooted p" and "path_Dir p \<noteq> ''.''"
  shows "length (path_Dir p) < length p"
proof (cases p rule: split_dir_cases)
  case 1 then show ?thesis using assms(2) by (simp add: path_Dir_def path_Clean_def)
next
  case (2 x y)
  have r: "\<not> rooted (x @ ''/'')" using assms(1) by (cases x) (auto simp: 2(2) rooted_def)
  let ?st = "foldl (clean_comp False) [] (split_on CHR ''/'' (x @ ''/''))"
  have sp: "split_on CHR ''/'' (x @ ''/'') = split_on CHR ''/'' x @ [[]]"
    by (induction "CHR ''/''" x rule: split_on.induct) (auto split: list.splits)
  have st: "?st = foldl (clean_comp False) [] (split_on CHR ''/'' x)" by (simp add: sp clean_comp.simps)
  have "room ?st \<le> Suc (length x)"
    using clean_comps_room [of False "[]" "split_on CHR ''/'' x"] by (simp add: st room_split_on)
  then have "?st = [] \<or> length (join_with ''/'' (rev ?st)) \<le> length x"
    using length_join [of "rev ?st"] by (cases "?st = []") simp_all
  moreover have "path_Dir p = (let out = join_with ''/'' (rev ?st) in if out = [] then ''.'' else out)"
    using r by (simp add: path_Dir_def 2(1) path_Clean_def)
  ultimately show ?thesis using assms(2) by (auto simp: 2(2) Let_def)
qed

lemma parents_from_dot: "parents_from ''.'' = Some []"
  by (subst parents_from.simps) simp

lemma parents_from_step:
  "p \<noteq> ''.'' \<Longrightarrow> parents_from p = map_option ((#) (p @ ''/'')) (parents_from (path_Dir p))"
  by (subst parents_from.simps) (cases "parents_from (path_Dir p)"; simp)

lemma parents_from_relative: "\<not> rooted p \<Longrightarrow> \<exists>ps. parents_from p = Some ps"
proof (induction "length p" arbitrary: p rule: less_induct)
  case less
  show ?case
  proof (cases "path_Dir p = ''.'' \<or> p = ''.''")
    case True then show ?thesis by (cases "p = ''.''") (auto simp: parents_from_dot parents_from_step)
  next
    case False
    with less path_Dir_shorter path_Dir_relative obtain ps where "parents_from (path_Dir p) = Some ps" by blast
    with False show ?thesis by (simp add: parents_from_step [of p])
  qed
qed

lemma parents_from_rooted:
  assumes "parents_from p = Some ps" shows "\<not> rooted p"
proof (rule parents_from.raw_induct [OF _ assms])
  fix f p ps
  assume IH: "\<And>q qs. f q = Some qs \<Longrightarrow> \<not> rooted q"
    and "(if p = ''.'' then Some [] else Option.bind (f (path_Dir p)) (\<lambda>ps. Some ((p @ ''/'') # ps))) = Some ps"
  then have "p = ''.'' \<or> (\<exists>qs. f (path_Dir p) = Some qs)" by (auto simp: bind_eq_Some_conv split: if_splits)
  then show "\<not> rooted p" using IH path_Dir_rooted by (auto simp: rooted_def)
qed

lemma parents_terminates: "(\<exists>ps. parents name = Some ps) \<longleftrightarrow> \<not> rooted name"
  using parents_from_relative parents_from_rooted path_Dir_relative path_Dir_rooted
  by (metis parents_def)

end
