(* ===== verification/Tarcas.thy ===== *)
theory Tarcas
  imports Tar_Observer Content_Manifest Go_Path
begin

text \<open>
  \<^verbatim>\<open>pkg/tarcas/tarcas.go\<close>: the content-addressed layer writer.  Files are written once per content (or per
  content and metadata) and hard-linked afterwards; depending on the structure, entries other than
  regular files are written at once, at the end, or not at all.  The state extends the hashes of
  \<open>cas_state\<close>; a call returns a value or an error, or does not return (\<open>Hang\<close>).
\<close>

section \<open>Options\<close>

datatype fileStructure = CASFirst | CASOnly | Intertwined

definition WriteHeaderCallbackNone :: u64 where "WriteHeaderCallbackNone = 0"
definition WriteHeaderCallbackRegular :: u64 where "WriteHeaderCallbackRegular = 1"
definition WriteHeaderCallbackDir :: u64 where "WriteHeaderCallbackDir = 2"
definition WriteHeaderCallbackLink :: u64 where "WriteHeaderCallbackLink = 4"
definition WriteHeaderCallbackSymlink :: u64 where "WriteHeaderCallbackSymlink = 8"
definition WriteHeaderCallbackFilterDefault :: u64 where
  "WriteHeaderCallbackFilterDefault = or WriteHeaderCallbackDir (or WriteHeaderCallbackLink WriteHeaderCallbackSymlink)"
definition WriteHeaderCallbackFilterAll :: u64 where
  "WriteHeaderCallbackFilterAll =
     or WriteHeaderCallbackRegular (or WriteHeaderCallbackDir (or WriteHeaderCallbackLink WriteHeaderCallbackSymlink))"

record tarOptions =
  fileStruct :: fileStructure
  writeHeaderCallback :: "(tarHeader \<Rightarrow> string option) option"
  writeHeaderCallbackFilter :: u64
  createParentDirectories :: bool
  deduplicateTreeArtifacts :: bool
  compactStreamWriter :: "csWriter option"

datatype tarOption =
    OptStructure fileStructure
  | OptCallback "tarHeader \<Rightarrow> string option"
  | OptFilter u64
  | OptParents bool
  | OptDedupTrees bool
  | OptCompactStream csWriter

fun apply_option :: "tarOption \<Rightarrow> tarOptions \<Rightarrow> tarOptions" where
  "apply_option (OptStructure s) opts = opts\<lparr>fileStruct := s\<rparr>"
| "apply_option (OptCallback f) opts = opts\<lparr>writeHeaderCallback := Some f\<rparr>"
| "apply_option (OptFilter f) opts = opts\<lparr>writeHeaderCallbackFilter := f\<rparr>"
| "apply_option (OptParents b) opts = opts\<lparr>createParentDirectories := b\<rparr>"
| "apply_option (OptDedupTrees b) opts = opts\<lparr>deduplicateTreeArtifacts := b\<rparr>"
| "apply_option (OptCompactStream w) opts = opts\<lparr>compactStreamWriter := Some w\<rparr>"

definition defaultOptions :: tarOptions where
  "defaultOptions = \<lparr>fileStruct = CASFirst, writeHeaderCallback = None,
     writeHeaderCallbackFilter = WriteHeaderCallbackFilterDefault, createParentDirectories = False,
     deduplicateTreeArtifacts = False, compactStreamWriter = None\<rparr>"

section \<open>State and calls\<close>

record 'a cas = cas_state +
  deferredFiles :: "tarHeader list"
  tarAppender :: 'a
  firstBlobPaths :: "bytes \<rightharpoonup> string"
  firstNodePaths :: "bytes \<rightharpoonup> string"
  firstTreePaths :: "bytes \<rightharpoonup> string"
  casClosed :: bool
  casDirs :: "string set"
  casObserver :: "csObserver option"
  casOptions :: tarOptions

datatype 'r tres = Ok 'r | Err tar_error | Hang

type_synonym ('a, 'r) tcall = "'a cas \<Rightarrow> 'a cas \<times> 'r tres"

definition tbind :: "('a, 'r) tcall \<Rightarrow> ('r \<Rightarrow> ('a, 's) tcall) \<Rightarrow> ('a, 's) tcall" where
  "tbind m f = (\<lambda>c. case m c of (c1, Ok x) \<Rightarrow> f x c1 | (c1, Err e) \<Rightarrow> (c1, Err e) | (c1, Hang) \<Rightarrow> (c1, Hang))"

definition tret :: "'r \<Rightarrow> ('a, 'r) tcall" where "tret x = (\<lambda>c. (c, Ok x))"

definition terr :: "tar_error \<Rightarrow> ('a, 'r) tcall" where "terr e = (\<lambda>c. (c, Err e))"

definition New_cas :: "'a \<Rightarrow> tarOption list \<Rightarrow> 'a cas" where
  "New_cas appender opts =
     (let o1 = foldl (\<lambda>os x. apply_option x os) defaultOptions opts in
      \<lparr>storedHashes = {}, storedNodes = {}, storedTrees = {}, hashOrder = [], nodeOrder = [], treeOrder = [],
       deferredFiles = [], tarAppender = appender, firstBlobPaths = Map.empty, firstNodePaths = Map.empty,
       firstTreePaths = Map.empty, casClosed = False, casDirs = {},
       casObserver = map_option newCompactStreamObserver (compactStreamWriter o1), casOptions = o1\<rparr>)"

text \<open>The file system that computes digests is part of the environment, so both constructors build the same state.\<close>

definition NewWithDigestFS :: "'a \<Rightarrow> tarOption list \<Rightarrow> 'a cas" where
  "NewWithDigestFS appender opts =
     (let o1 = foldl (\<lambda>os x. apply_option x os) defaultOptions opts in
      (New_cas appender [])\<lparr>casObserver := map_option newCompactStreamObserver (compactStreamWriter o1), casOptions := o1\<rparr>)"

definition CASFactory :: "string \<Rightarrow> 'a \<Rightarrow> tarOption list \<Rightarrow> string + 'a cas" where
  "CASFactory hashAlgorithm appender opts =
     (if hashAlgorithm = ''sha256'' then Inr (New_cas appender opts) else Inl ''unsupported hash algorithm'')"

definition CASFactoryWithDigestFS :: "string \<Rightarrow> 'a \<Rightarrow> tarOption list \<Rightarrow> string + 'a cas" where
  "CASFactoryWithDigestFS hashAlgorithm appender opts =
     (if hashAlgorithm = ''sha256'' then Inr (NewWithDigestFS appender opts) else Inl ''unsupported hash algorithm'')"

lemma NewWithDigestFS_New: "NewWithDigestFS appender opts = New_cas appender opts"
  by (simp add: NewWithDigestFS_def New_cas_def Let_def)

section \<open>Writing an entry\<close>

definition cas_BeginEntry :: "'a tarLib \<Rightarrow> tarHeader \<Rightarrow> bytes option \<Rightarrow> ('a, sink) tcall" where
  "cas_BeginEntry E hdr d c =
     (case casObserver c of
        None \<Rightarrow> (c, Ok NoSink)
      | Some ob \<Rightarrow>
          (case BeginEntry E hdr d ob of
             (ob1, Inl e) \<Rightarrow> (c\<lparr>casObserver := Some ob1\<rparr>, Err e)
           | (ob1, Inr s) \<Rightarrow> (c\<lparr>casObserver := Some ob1\<rparr>, Ok s)))"

definition cas_EndEntry :: "'a tarLib \<Rightarrow> ('a, unit) tcall" where
  "cas_EndEntry E c =
     (case casObserver c of
        None \<Rightarrow> (c, Ok ())
      | Some ob \<Rightarrow>
          (case EndEntry E ob of
             (ob1, Some e) \<Rightarrow> (c\<lparr>casObserver := Some ob1\<rparr>, Err (TarObserver e))
           | (ob1, None) \<Rightarrow> (c\<lparr>casObserver := Some ob1\<rparr>, Ok ())))"

definition notifyEntry :: "'a tarLib \<Rightarrow> tarHeader \<Rightarrow> bytes option \<Rightarrow> ('a, unit) tcall" where
  "notifyEntry E hdr d = tbind (cas_BeginEntry E hdr d) (\<lambda>_. cas_EndEntry E)"

definition encode_header :: "'a tarLib \<Rightarrow> tarHeader \<Rightarrow> ('a, bytes) tcall" where
  "encode_header E hdr c = (case tarEncode E hdr of Inl e \<Rightarrow> (c, Err (TarEncode e)) | Inr b \<Rightarrow> (c, Ok b))"

definition dir_header :: "string \<Rightarrow> tarHeader" where
  "dir_header dir = zero_header\<lparr>hTypeflag := TypeDir, hMode := 493, hName := dir\<rparr>"

text \<open>The headers of the parents that no entry has described yet, outermost first, into the buffer.\<close>

fun write_parents :: "'a tarLib \<Rightarrow> string list \<Rightarrow> bytes \<Rightarrow> ('a, bytes) tcall" where
  "write_parents E [] buf c = (c, Ok buf)"
| "write_parents E (dir # ds) buf c =
     (if dir \<in> casDirs c then write_parents E ds buf c
      else tbind (notifyEntry E (dir_header dir) None) (\<lambda>_.
           tbind (encode_header E (dir_header dir)) (\<lambda>b c2.
           write_parents E ds (buf @ b) (c2\<lparr>casDirs := insert dir (casDirs c2)\<rparr>))) c)"

definition AppendTar :: "'a tarLib \<Rightarrow> reader \<Rightarrow> ('a, unit) tcall" where
  "AppendTar E r c =
     (case appendTar E (tarAppender c) r of
        (a, Some e) \<Rightarrow> (c\<lparr>tarAppender := a\<rparr>, Err (TarAppend e))
      | (a, None) \<Rightarrow> (c\<lparr>tarAppender := a\<rparr>, Ok ()))"

definition LimitReader :: "int \<Rightarrow> reader \<Rightarrow> reader" where
  "LimitReader n = (\<lambda>(b, e). if nat n \<le> length b then (take (nat n) b, None) else (b, e))"

text \<open>The padding reader fills up the last block once its source has ended.\<close>

definition paddedReader :: "nat \<Rightarrow> reader \<Rightarrow> reader" where
  "paddedReader padSize = (\<lambda>(b, e). case e of
     Some _ \<Rightarrow> (b, e)
   | None \<Rightarrow> (let blockFill = length b mod padSize in
              (b @ (if blockFill = 0 then [] else replicate (padSize - blockFill) 0), None)))"

definition cas_tee :: "sink \<Rightarrow> bytes \<Rightarrow> 'a cas \<Rightarrow> 'a cas \<times> cs_error option" where
  "cas_tee s b c =
     (case casObserver c of
        None \<Rightarrow> (c, None)
      | Some ob \<Rightarrow> (case sink_write s b ob of (ob1, e) \<Rightarrow> (c\<lparr>casObserver := Some ob1\<rparr>, e)))"

text \<open>The content of a regular file, copied to the sink on its way to the appender.\<close>

definition append_regular :: "'a tarLib \<Rightarrow> bytes \<Rightarrow> sink \<Rightarrow> reader \<Rightarrow> ('a, unit) tcall" where
  "append_regular E buf s r c =
     (case r of (b, e) \<Rightarrow>
      (case cas_tee s b c of
         (c1, Some _) \<Rightarrow> AppendTar E (paddedReader 512 (buf, Some ''tee'')) c1
       | (c1, None) \<Rightarrow> AppendTar E (paddedReader 512 (buf @ b, e)) c1))"

definition entry_parents :: "'a tarLib \<Rightarrow> tarHeader \<Rightarrow> ('a, bytes) tcall" where
  "entry_parents E hdr c =
     (if createParentDirectories (casOptions c)
      then case parents (hName hdr) of None \<Rightarrow> (c, Hang) | Some ps \<Rightarrow> write_parents E (rev ps) [] c
      else (c, Ok []))"

definition writeHeaderAndData :: "'a tarLib \<Rightarrow> tarHeader \<Rightarrow> reader \<Rightarrow> bytes option \<Rightarrow> ('a, unit) tcall" where
  "writeHeaderAndData E hdr data contentDigest =
     tbind (entry_parents E hdr) (\<lambda>buf.
     tbind (cas_BeginEntry E hdr contentDigest) (\<lambda>contentSink.
     tbind (encode_header E hdr) (\<lambda>hb.
     if hTypeflag hdr = TypeReg
     then tbind (append_regular E (buf @ hb) contentSink (LimitReader (hSize hdr) data)) (\<lambda>_. cas_EndEntry E)
     else tbind (cas_EndEntry E) (\<lambda>_. AppendTar E (buf @ hb, None)))))"

text \<open>No reader: entries other than regular files carry no data.\<close>

definition nil_reader :: reader where "nil_reader = ([], None)"

definition dirKey :: "string \<Rightarrow> string" where
  "dirKey name = (if HasSuffix name ''/'' then name else name @ ''/'')"

definition callbackModeFromTarType :: "tarHeader \<Rightarrow> u64" where
  "callbackModeFromTarType hdr =
     (if hTypeflag hdr = TypeReg then WriteHeaderCallbackRegular
      else if hTypeflag hdr = TypeDir then WriteHeaderCallbackDir
      else if hTypeflag hdr = TypeLink then WriteHeaderCallbackLink
      else if hTypeflag hdr = TypeSymlink then WriteHeaderCallbackSymlink
      else 0)"

definition run_header_callback :: "tarHeader \<Rightarrow> ('a, unit) tcall" where
  "run_header_callback hdr c =
     (case writeHeaderCallback (casOptions c) of
        None \<Rightarrow> (c, Ok ())
      | Some f \<Rightarrow>
          if and (callbackModeFromTarType hdr) (writeHeaderCallbackFilter (casOptions c)) = 0 then (c, Ok ())
          else case f hdr of None \<Rightarrow> (c, Ok ()) | Some e \<Rightarrow> (c, Err (TarCallback e)))"

definition note_dir :: "tarHeader \<Rightarrow> 'a cas \<Rightarrow> 'a cas" where
  "note_dir hdr c =
     (if hTypeflag hdr = TypeDir then c\<lparr>casDirs := insert (dirKey (hName hdr)) (casDirs c)\<rparr> else c)"

definition writeHeaderOrDefer :: "'a tarLib \<Rightarrow> tarHeader \<Rightarrow> reader \<Rightarrow> bytes option \<Rightarrow> ('a, unit) tcall" where
  "writeHeaderOrDefer E hdr data contentDigest c0 =
     (let c = note_dir hdr c0 in
      if hTypeflag hdr \<noteq> TypeReg \<and> fileStruct (casOptions c) = CASFirst \<and> \<not> casClosed c
      then (c\<lparr>deferredFiles := deferredFiles c @ [hdr]\<rparr>, Ok ())
      else tbind (run_header_callback hdr) (\<lambda>_ c1.
           if hTypeflag hdr \<noteq> TypeReg \<and> fileStruct (casOptions c1) = CASOnly then (c1, Ok ())
           else writeHeaderAndData E hdr data contentDigest c1) c)"

section \<open>Closing\<close>

fun write_deferred :: "'a tarLib \<Rightarrow> tarHeader list \<Rightarrow> ('a, unit) tcall" where
  "write_deferred E [] c = (c, Ok ())"
| "write_deferred E (h # hs) c = tbind (writeHeaderOrDefer E h nil_reader None) (\<lambda>_. write_deferred E hs) c"

definition cas_Close :: "'a tarLib \<Rightarrow> ('a, unit) tcall" where
  "cas_Close E c = (if casClosed c then (c, Ok ()) else write_deferred E (deferredFiles c) (c\<lparr>casClosed := True\<rparr>))"

section \<open>Storing content\<close>

definition blob_header :: "string \<Rightarrow> int \<Rightarrow> tarHeader" where
  "blob_header name sz = zero_header\<lparr>hTypeflag := TypeReg, hName := name, hSize := sz, hMode := 493\<rparr>"

definition storeKnownHashAndSize :: "'a tarLib \<Rightarrow> reader \<Rightarrow> bytes \<Rightarrow> int \<Rightarrow> string \<Rightarrow> ('a, string) tcall" where
  "storeKnownHashAndSize E r hash sz intendedPath c =
     (case firstBlobPaths c hash of
        Some firstPath \<Rightarrow> (c, Ok firstPath)
      | None \<Rightarrow>
          tbind (writeHeaderAndData E (blob_header intendedPath sz) r (Some hash)) (\<lambda>_ c1.
            (c1\<lparr>storedHashes := insert hash (storedHashes c1), firstBlobPaths := (firstBlobPaths c1)(hash \<mapsto> intendedPath),
                hashOrder := hashOrder c1 @ [hash]\<rparr>, Ok intendedPath)) c)"

definition StoreKnownHashAndSize :: "'a tarLib \<Rightarrow> reader \<Rightarrow> bytes \<Rightarrow> int \<Rightarrow> string \<Rightarrow> ('a, string) tcall" where
  "StoreKnownHashAndSize E r hash sz intendedPath = storeKnownHashAndSize E r hash sz intendedPath"

definition Store_cas :: "'a tarLib \<Rightarrow> reader \<Rightarrow> string \<Rightarrow> ('a, string \<times> bytes \<times> int) tcall" where
  "Store_cas E r intendedPath =
     (case r of
        (b, Some e) \<Rightarrow> terr (TarRead e)
      | (b, None) \<Rightarrow>
          tbind (StoreKnownHashAndSize E (b, None) (hashFn E b) (int (length b)) intendedPath) (\<lambda>p.
            tret (p, hashFn E b, int (length b))))"

definition node_header :: "tarHeader \<Rightarrow> tarHeader" where
  "node_header hdr = normalizeTarHeader ((cloneTarHeader hdr)\<lparr>hName := []\<rparr>)"

definition node_hash :: "'a tarLib \<Rightarrow> tarHeader \<Rightarrow> bytes \<Rightarrow> bytes" where
  "node_hash E hdr blobHash = hashFn E (hashTarHeader [] (node_header hdr) @ blobHash)"

definition storeNodeKnownHash :: "'a tarLib \<Rightarrow> reader \<Rightarrow> tarHeader \<Rightarrow> bytes \<Rightarrow> ('a, string) tcall" where
  "storeNodeKnownHash E r hdr blobHash c =
     (if hTypeflag hdr \<noteq> TypeReg \<or> HasSuffix (hName hdr) ''/'' then (c, Err (TarNode (hName hdr)))
      else let nodeHash = node_hash E hdr blobHash in
        case firstNodePaths c nodeHash of
          Some firstPath \<Rightarrow> (c, Ok firstPath)
        | None \<Rightarrow>
            tbind (writeHeaderAndData E ((node_header hdr)\<lparr>hName := hName hdr\<rparr>) r (Some blobHash)) (\<lambda>_ c1.
              (c1\<lparr>storedNodes := insert nodeHash (storedNodes c1),
                  firstNodePaths := (firstNodePaths c1)(nodeHash \<mapsto> hName hdr), nodeOrder := nodeOrder c1 @ [nodeHash]\<rparr>,
               Ok (hName hdr))) c)"

definition StoreNodeKnownHash :: "'a tarLib \<Rightarrow> reader \<Rightarrow> tarHeader \<Rightarrow> bytes \<Rightarrow> ('a, string) tcall" where
  "StoreNodeKnownHash E r hdr blobHash = storeNodeKnownHash E r hdr blobHash"

definition StoreNode :: "'a tarLib \<Rightarrow> reader \<Rightarrow> tarHeader \<Rightarrow> ('a, string \<times> bytes \<times> int) tcall" where
  "StoreNode E r hdr =
     (case r of
        (b, Some e) \<Rightarrow> terr (TarRead e)
      | (b, None) \<Rightarrow>
          tbind (StoreNodeKnownHash E (b, None) hdr (hashFn E b)) (\<lambda>p. tret (p, hashFn E b, int (length b))))"

definition with_file :: "'a tarLib \<Rightarrow> string \<Rightarrow> (digestFile \<Rightarrow> ('a, 'r) tcall) \<Rightarrow> ('a, 'r) tcall" where
  "with_file E filePath f = (case openFile E filePath of Inl e \<Rightarrow> terr (TarOpen e) | Inr df \<Rightarrow> f df)"

definition with_digest :: "'a tarLib \<Rightarrow> string \<Rightarrow> (digestFile \<Rightarrow> bytes \<Rightarrow> ('a, 'r) tcall) \<Rightarrow> ('a, 'r) tcall" where
  "with_digest E filePath f =
     with_file E filePath (\<lambda>df. case dfDigest df of Inl e \<Rightarrow> terr (TarOpen e) | Inr hash \<Rightarrow> f df hash)"

definition StoreFileFromPath :: "'a tarLib \<Rightarrow> string \<Rightarrow> string \<Rightarrow> ('a, string \<times> bytes \<times> int) tcall" where
  "StoreFileFromPath E filePath intendedPath =
     with_digest E filePath (\<lambda>df hash.
       tbind (storeKnownHashAndSize E (dfContent df) hash (dfSize df) intendedPath) (\<lambda>p. tret (p, hash, dfSize df)))"

definition StoreNodeFromPath :: "'a tarLib \<Rightarrow> string \<Rightarrow> tarHeader \<Rightarrow> ('a, string \<times> bytes \<times> int) tcall" where
  "StoreNodeFromPath E filePath hdr =
     with_digest E filePath (\<lambda>df hash.
       tbind (storeNodeKnownHash E (dfContent df) hdr hash) (\<lambda>p. tret (p, hash, dfSize df)))"

section \<open>Writing files\<close>

definition cas_WriteHeader :: "'a tarLib \<Rightarrow> tarHeader \<Rightarrow> ('a, unit) tcall" where
  "cas_WriteHeader E hdr =
     (if hTypeflag hdr = TypeReg then terr (TarUsage (hName hdr)) else writeHeaderOrDefer E hdr nil_reader None)"

definition WriteRegular :: "'a tarLib \<Rightarrow> tarHeader \<Rightarrow> reader \<Rightarrow> ('a, unit) tcall" where
  "WriteRegular E hdr r =
     (if hTypeflag hdr \<noteq> TypeReg then terr (TarUsage (hName hdr)) else writeHeaderOrDefer E hdr r None)"

definition WriteRegularFromPath :: "'a tarLib \<Rightarrow> tarHeader \<Rightarrow> string \<Rightarrow> ('a, unit) tcall" where
  "WriteRegularFromPath E hdr filePath =
     (if hTypeflag hdr \<noteq> TypeReg then terr (TarUsage (hName hdr))
      else with_file E filePath (\<lambda>df. writeHeaderOrDefer E hdr (dfContent df) None))"

text \<open>A hard link to the first occurrence, unless the file itself is it.\<close>

definition link_header :: "tarHeader \<Rightarrow> string \<Rightarrow> tarHeader" where
  "link_header hdr linkPath = (cloneTarHeader hdr)\<lparr>hTypeflag := TypeLink, hLinkname := linkPath, hSize := 0\<rparr>"

definition link_to :: "'a tarLib \<Rightarrow> tarHeader \<Rightarrow> string \<Rightarrow> ('a, unit) tcall" where
  "link_to E hdr linkPath =
     (if linkPath = hName hdr then tret () else writeHeaderOrDefer E (link_header hdr linkPath) nil_reader None)"

definition WriteRegularFromPathDeduplicated :: "'a tarLib \<Rightarrow> tarHeader \<Rightarrow> string \<Rightarrow> ('a, unit) tcall" where
  "WriteRegularFromPathDeduplicated E hdr filePath =
     (if hTypeflag hdr \<noteq> TypeReg then terr (TarUsage (hName hdr))
      else with_digest E filePath (\<lambda>df hash.
        if dfSize df \<noteq> hSize hdr then terr (TarSize (hSize hdr) (dfSize df))
        else tbind (if isBlobTarHeader hdr then storeKnownHashAndSize E (dfContent df) hash (dfSize df) (hName hdr)
                    else storeNodeKnownHash E (dfContent df) hdr hash) (link_to E hdr)))"

definition WriteRegularDeduplicated :: "'a tarLib \<Rightarrow> tarHeader \<Rightarrow> reader \<Rightarrow> ('a, unit) tcall" where
  "WriteRegularDeduplicated E hdr r =
     (if hTypeflag hdr \<noteq> TypeReg then terr (TarUsage (hName hdr))
      else tbind (if isBlobTarHeader hdr then Store_cas E r (hName hdr) else StoreNode E r hdr) (\<lambda>(linkPath, _, sz).
        if sz \<noteq> hSize hdr then terr (TarSize (hSize hdr) sz) else link_to E hdr linkPath))"

section \<open>Storing trees\<close>

text \<open>What \<^verbatim>\<open>fs.WalkDir\<close> reports for a path, and the Merkle hash of the tree.\<close>

record walkVisit =
  wPath :: string
  wErr :: "string option"
  wRegular :: bool
  wOpen :: "string + reader"

record treeFS =
  treeWalk :: "walkVisit list"
  treeRoot :: "string + bytes"

definition store_visit :: "'a tarLib \<Rightarrow> string \<Rightarrow> walkVisit \<Rightarrow> ('a, unit) tcall" where
  "store_visit E intendedPath v =
     (case wErr v of
        Some e \<Rightarrow> terr (TarWalk (wPath v) e)
      | None \<Rightarrow>
          if \<not> wRegular v then tret ()
          else case wOpen v of
            Inl e \<Rightarrow> terr (TarWalk (wPath v) e)
          | Inr f \<Rightarrow>
              (let treePath = path_Join_all [intendedPath, wPath v] in
               tbind (Store_cas E f treePath) (\<lambda>(linkName, _, _).
                 if linkName = treePath then tret ()
                 else writeHeaderAndData E
                   (zero_header\<lparr>hTypeflag := TypeLink, hName := treePath, hLinkname := linkName, hMode := 493\<rparr>)
                   nil_reader None)))"

fun store_visits :: "'a tarLib \<Rightarrow> string \<Rightarrow> walkVisit list \<Rightarrow> ('a, unit) tcall" where
  "store_visits E intendedPath [] c = (c, Ok ())"
| "store_visits E intendedPath (v # vs) c = tbind (store_visit E intendedPath v) (\<lambda>_. store_visits E intendedPath vs) c"

definition store_tree :: "'a tarLib \<Rightarrow> treeFS \<Rightarrow> string \<Rightarrow> bytes \<Rightarrow> ('a, string) tcall" where
  "store_tree E fsys intendedPath treeHash =
     tbind (writeHeaderAndData E (dir_header (intendedPath @ ''/'')) nil_reader None) (\<lambda>_.
     tbind (store_visits E intendedPath (treeWalk fsys)) (\<lambda>_ c.
       (c\<lparr>storedTrees := insert treeHash (storedTrees c), firstTreePaths := (firstTreePaths c)(treeHash \<mapsto> intendedPath),
          treeOrder := treeOrder c @ [treeHash]\<rparr>, Ok [])))"

definition StoreTreeKnownHash :: "'a tarLib \<Rightarrow> treeFS \<Rightarrow> string \<Rightarrow> bytes \<Rightarrow> ('a, string) tcall" where
  "StoreTreeKnownHash E fsys intendedPath treeHash c =
     (case firstTreePaths c treeHash of
        Some treeBase \<Rightarrow>
          if deduplicateTreeArtifacts (casOptions c) then (c, Ok treeBase) else store_tree E fsys intendedPath treeHash c
      | None \<Rightarrow> store_tree E fsys intendedPath treeHash c)"

definition StoreTree :: "'a tarLib \<Rightarrow> treeFS \<Rightarrow> string \<Rightarrow> ('a, string) tcall" where
  "StoreTree E fsys intendedPath =
     (case treeRoot fsys of Inl e \<Rightarrow> terr (TarTree (TarRead e)) | Inr rootHash \<Rightarrow> StoreTreeKnownHash E fsys intendedPath rootHash)"

end
