(* ===== verification/Compress_Appender.thy ===== *)
theory Compress_Appender
  imports Prelude
begin

text \<open>
  \<^verbatim>\<open>pkg/compress/compress.go\<close>: the appender that compresses what is written to it while hashing both the
  uncompressed and the compressed bytes, and that can be resumed from the state it returned.  The
  compressor (gzip, pgzip or zstd) and the hash function are third-party or standard-library code,
  given by the record \<open>compressLib\<close>: a compressor is a state that emits bytes on every call, a hash is
  the bytes absorbed so far.  The output file accepts every write.
\<close>

section \<open>Types\<close>

record 'c compressLib =
  cNewWriter :: "int option \<Rightarrow> string + 'c"
  cSetConcurrency :: "nat \<Rightarrow> 'c \<Rightarrow> string + 'c"
  cWrite :: "'c \<Rightarrow> bytes \<Rightarrow> 'c \<times> bytes \<times> (nat \<times> string) option"
  cFlush :: "'c \<Rightarrow> 'c \<times> bytes \<times> string option"
  cClose :: "'c \<Rightarrow> 'c \<times> bytes \<times> string option"
  compressionName :: string
  hSum :: "bytes \<Rightarrow> bytes"
  hMarshal :: "bytes \<Rightarrow> string + bytes"
  hUnmarshal :: "bytes \<Rightarrow> string + bytes"
  hashName :: string

record compressOptions =
  coContentType :: string
  coCompressionLevel :: "int option"
  coCompressorJobs :: "nat option"

record appenderState =
  Magic :: string
  OuterHashState :: bytes
  OuterHash :: bytes
  ContentHashState :: bytes
  ContentHash :: bytes
  CompressedSize :: int
  UncompressedSize :: int

text \<open>\<open>outFile\<close> is what this appender wrote to its output file.\<close>

record 'c appender =
  outerHash :: bytes
  contentHash :: bytes
  compressor :: 'c
  pipelineCount :: int
  outputCount :: int
  outFile :: bytes
  appOptions :: compressOptions

section \<open>Creating and resuming\<close>

definition appender_magic :: "'c compressLib \<Rightarrow> compressOptions \<Rightarrow> string" where
  "appender_magic L opts =
     ''imgv1+compressed+'' @ hashName L @ ''+'' @ compressionName L @
     (if length (coContentType opts) > 0 then ''+'' @ coContentType opts else [])"

definition setupWriterPipeline :: "'c compressLib \<Rightarrow> compressOptions \<Rightarrow> string + 'c" where
  "setupWriterPipeline L opts =
     (case cNewWriter L (coCompressionLevel opts) of
        Inl e \<Rightarrow> Inl e
      | Inr cp \<Rightarrow>
          (case coCompressorJobs opts of None \<Rightarrow> Inr cp | Some jobs \<Rightarrow> cSetConcurrency L jobs cp))"

definition New_appender :: "'c compressLib \<Rightarrow> compressOptions \<Rightarrow> string + 'c appender" where
  "New_appender L opts =
     (case setupWriterPipeline L opts of
        Inl e \<Rightarrow> Inl e
      | Inr cp \<Rightarrow> Inr \<lparr>outerHash = [], contentHash = [], compressor = cp, pipelineCount = 0, outputCount = 0,
           outFile = [], appOptions = opts\<rparr>)"

definition Resume_appender :: "'c compressLib \<Rightarrow> appenderState \<Rightarrow> compressOptions \<Rightarrow> string + 'c appender" where
  "Resume_appender L state opts =
     (case hUnmarshal L (OuterHashState state) of
        Inl e \<Rightarrow> Inl e
      | Inr outer \<Rightarrow>
          (case hUnmarshal L (ContentHashState state) of
             Inl e \<Rightarrow> Inl e
           | Inr content \<Rightarrow>
               (case setupWriterPipeline L opts of
                  Inl e \<Rightarrow> Inl e
                | Inr cp \<Rightarrow>
                    if Magic state \<noteq> appender_magic L opts then Inl ''magic mismatch''
                    else Inr \<lparr>outerHash = outer, contentHash = content, compressor = cp,
                           pipelineCount = UncompressedSize state, outputCount = CompressedSize state,
                           outFile = [], appOptions = opts\<rparr>)))"

section \<open>Writing\<close>

text \<open>Bytes the compressor emits go to the counted output and to the outer hash.\<close>

definition emit :: "bytes \<Rightarrow> 'c appender \<Rightarrow> 'c appender" where
  "emit b a = a\<lparr>outFile := outFile a @ b, outputCount := outputCount a + int (length b), outerHash := outerHash a @ b\<rparr>"

definition appender_Write :: "'c compressLib \<Rightarrow> bytes \<Rightarrow> 'c appender \<Rightarrow> 'c appender \<times> string option" where
  "appender_Write L data a =
     (case cWrite L (compressor a) data of
        (cp, out, Some (n, e)) \<Rightarrow>
          (emit out (a\<lparr>compressor := cp, pipelineCount := pipelineCount a + int n\<rparr>), Some e)
      | (cp, out, None) \<Rightarrow>
          (emit out (a\<lparr>compressor := cp, contentHash := contentHash a @ data,
             pipelineCount := pipelineCount a + int (length data)\<rparr>), None))"

definition appender_Flush :: "'c compressLib \<Rightarrow> 'c appender \<Rightarrow> 'c appender \<times> string option" where
  "appender_Flush L a = (case cFlush L (compressor a) of (cp, out, e) \<Rightarrow> (emit out (a\<lparr>compressor := cp\<rparr>), e))"

definition Finalize :: "'c compressLib \<Rightarrow> 'c appender \<Rightarrow> 'c appender \<times> (string + appenderState)" where
  "Finalize L a0 =
     (case cClose L (compressor a0) of
        (cp, out, Some e) \<Rightarrow> (emit out (a0\<lparr>compressor := cp\<rparr>), Inl e)
      | (cp, out, None) \<Rightarrow>
          (let a = emit out (a0\<lparr>compressor := cp\<rparr>) in
           (a, case hMarshal L (outerHash a) of
                 Inl e \<Rightarrow> Inl e
               | Inr outerState \<Rightarrow>
                   (case hMarshal L (contentHash a) of
                      Inl e \<Rightarrow> Inl e
                    | Inr contentState \<Rightarrow>
                        Inr \<lparr>Magic = appender_magic L (appOptions a), OuterHashState = outerState,
                             OuterHash = hSum L (outerHash a), ContentHashState = contentState,
                             ContentHash = hSum L (contentHash a), CompressedSize = outputCount a,
                             UncompressedSize = pipelineCount a\<rparr>))))"

text \<open>
  \<^verbatim>\<open>AppendTar\<close> is \<^verbatim>\<open>io.Copy\<close> from a reader: 32 KiB at a time; an error of the reader is reported after
  its bytes are written.
\<close>

function copy_to :: "'c compressLib \<Rightarrow> bytes \<Rightarrow> 'c appender \<Rightarrow> 'c appender \<times> string option" where
  "copy_to L b a =
     (if b = [] then (a, None)
      else case appender_Write L (take 32768 b) a of
        (a1, Some e) \<Rightarrow> (a1, Some e)
      | (a1, None) \<Rightarrow> copy_to L (drop 32768 b) a1)"
  by pat_completeness auto
termination by (relation "measure (\<lambda>(L, b, a). length b)") auto

declare copy_to.simps [simp del]

definition tar_AppendTar :: "'c compressLib \<Rightarrow> 'c appender \<Rightarrow> bytes \<times> string option \<Rightarrow> 'c appender \<times> string option" where
  "tar_AppendTar L a r =
     (case copy_to L (fst r) a of (a1, Some e) \<Rightarrow> (a1, Some e) | (a1, None) \<Rightarrow> (a1, snd r))"

section \<open>The interface of an appender\<close>

text \<open>
  What a layer writer relies on: a successful \<^verbatim>\<open>AppendTar\<close> has received the bytes of the reader, which
  ended without an error.
\<close>

locale tar_appender =
  fixes app :: "'a \<Rightarrow> bytes \<times> string option \<Rightarrow> 'a \<times> string option" and received :: "'a \<Rightarrow> bytes"
  assumes append_ok: "app a (b, e) = (a', None) \<Longrightarrow> e = None \<and> received a' = received a @ b"

lemma emit_simps [simp]:
  "contentHash (emit b a) = contentHash a" "pipelineCount (emit b a) = pipelineCount a"
  "appOptions (emit b a) = appOptions a" "outFile (emit b a) = outFile a @ b" "outerHash (emit b a) = outerHash a @ b"
  "outputCount (emit b a) = outputCount a + int (length b)" "compressor (emit b a) = compressor a"
  by (simp_all add: emit_def)

lemma copy_to_content: "copy_to L b a = (a', None) \<Longrightarrow> contentHash a' = contentHash a @ b"
proof (induction L b a rule: copy_to.induct)
  case (1 L b a)
  show ?case
  proof (cases "b = []")
    case True
    with "1.prems" show ?thesis by (simp add: copy_to.simps)
  next
    case False
    then obtain a1 where w: "appender_Write L (take 32768 b) a = (a1, None)" and "copy_to L (drop 32768 b) a1 = (a', None)"
      using "1.prems" by (subst (asm) copy_to.simps) (auto split: prod.splits option.splits)
    moreover have "contentHash a1 = contentHash a @ take 32768 b"
      using w by (auto simp: appender_Write_def split: prod.splits option.splits)
    ultimately show ?thesis using "1.IH" [OF False w [symmetric]] by simp
  qed
qed

interpretation pipe: tar_appender "tar_AppendTar L" contentHash
proof
  fix a a' :: "'a appender" and b e assume "tar_AppendTar L a (b, e) = (a', None)"
  then show "e = None \<and> contentHash a' = contentHash a @ b"
    by (auto simp: tar_AppendTar_def copy_to_content split: prod.splits option.splits)
qed

section \<open>What the final state says\<close>

text \<open>A session: writes, flushes and archives appended one after the other, up to the first error.\<close>

datatype pipeOp = PWrite bytes | PFlush | PAppend "bytes \<times> string option"

fun pipe_op :: "'c compressLib \<Rightarrow> pipeOp \<Rightarrow> 'c appender \<Rightarrow> 'c appender \<times> string option" where
  "pipe_op L (PWrite b) a = appender_Write L b a"
| "pipe_op L PFlush a = appender_Flush L a"
| "pipe_op L (PAppend r) a = tar_AppendTar L a r"

fun pipe_run :: "'c compressLib \<Rightarrow> pipeOp list \<Rightarrow> 'c appender \<Rightarrow> 'c appender \<times> string option" where
  "pipe_run L [] a = (a, None)"
| "pipe_run L (p # ps) a = (case pipe_op L p a of (a1, Some e) \<Rightarrow> (a1, Some e) | (a1, None) \<Rightarrow> pipe_run L ps a1)"

fun op_bytes :: "pipeOp \<Rightarrow> bytes" where
  "op_bytes (PWrite b) = b"
| "op_bytes PFlush = []"
| "op_bytes (PAppend r) = fst r"

text \<open>The counters and hashes after content \<open>c\<close> has been accepted on top of an appender \<open>a\<close>.\<close>

definition accepted :: "'c appender \<Rightarrow> bytes \<Rightarrow> 'c appender \<Rightarrow> bool" where
  "accepted a c a' \<longleftrightarrow> (\<exists>out. outFile a' = outFile a @ out \<and> outerHash a' = outerHash a @ out \<and>
     outputCount a' = outputCount a + int (length out) \<and> contentHash a' = contentHash a @ c \<and>
     pipelineCount a' = pipelineCount a + int (length c) \<and> appOptions a' = appOptions a)"

lemma accepted_refl: "accepted a [] a"
  by (simp add: accepted_def)

lemma accepted_trans: "accepted a b a1 \<Longrightarrow> accepted a1 c a2 \<Longrightarrow> accepted a (b @ c) a2"
  by (force simp: accepted_def)

lemma accepted_emit: "accepted (a\<lparr>compressor := cp\<rparr>) [] (emit b (a\<lparr>compressor := cp\<rparr>))"
  by (simp add: accepted_def)

lemma accepted_compressor: "accepted (a\<lparr>compressor := cp\<rparr>) c a' = accepted a c a'"
  by (simp add: accepted_def)

lemma Write_accepted: "appender_Write L b a = (a', None) \<Longrightarrow> accepted a b a'"
  by (auto simp: appender_Write_def accepted_def split: prod.splits option.splits)

lemma Flush_accepted: "appender_Flush L a = (a', e) \<Longrightarrow> accepted a [] a'"
  by (auto simp: appender_Flush_def accepted_def split: prod.splits)

lemma copy_to_accepted: "copy_to L b a = (a', None) \<Longrightarrow> accepted a b a'"
proof (induction L b a rule: copy_to.induct)
  case (1 L b a)
  show ?case
  proof (cases "b = []")
    case True
    with "1.prems" show ?thesis by (simp add: copy_to.simps accepted_refl)
  next
    case False
    then obtain a1 where w: "appender_Write L (take 32768 b) a = (a1, None)" and "copy_to L (drop 32768 b) a1 = (a', None)"
      using "1.prems" by (subst (asm) copy_to.simps) (auto split: prod.splits option.splits)
    with "1.IH" [OF False w [symmetric]] accepted_trans [OF Write_accepted [OF w]] show ?thesis
      by (metis append_take_drop_id)
  qed
qed

lemma pipe_op_accepted: "pipe_op L p a = (a', None) \<Longrightarrow> accepted a (op_bytes p) a'"
  by (cases p) (auto simp: Write_accepted Flush_accepted tar_AppendTar_def copy_to_accepted split: prod.splits option.splits)

lemma pipe_run_accepted: "pipe_run L ps a = (a', None) \<Longrightarrow> accepted a (concat (map op_bytes ps)) a'"
proof (induction ps arbitrary: a)
  case (Cons p ps)
  then obtain a1 where "pipe_op L p a = (a1, None)" "pipe_run L ps a1 = (a', None)"
    by (auto split: prod.splits option.splits)
  with Cons.IH pipe_op_accepted accepted_trans show ?case by simp blast
qed (simp add: accepted_refl)

lemma Finalize_state:
  assumes "Finalize L a = (a', Inr st)"
  shows "accepted a [] a' \<and> OuterHash st = hSum L (outerHash a') \<and> ContentHash st = hSum L (contentHash a') \<and>
    CompressedSize st = outputCount a' \<and> UncompressedSize st = pipelineCount a' \<and>
    Magic st = appender_magic L (appOptions a') \<and>
    hMarshal L (outerHash a') = Inr (OuterHashState st) \<and> hMarshal L (contentHash a') = Inr (ContentHashState st)"
  using assms by (auto simp: Finalize_def accepted_def Let_def split: prod.splits option.splits sum.splits)

lemma session_state:
  assumes "pipe_run L ps a = (a1, None)" and "Finalize L a1 = (a2, Inr st)"
  shows "accepted a (concat (map op_bytes ps)) a2"
  using accepted_trans [OF pipe_run_accepted [OF assms(1)]] Finalize_state [OF assms(2)] by fastforce

text \<open>The documented behaviour of \<^verbatim>\<open>encoding.BinaryMarshaler\<close> on hashes: a restored hash continues.\<close>

definition hash_resumable :: "'c compressLib \<Rightarrow> bool" where
  "hash_resumable L \<longleftrightarrow> (\<forall>b s. hMarshal L b = Inr s \<longrightarrow> hUnmarshal L s = Inr b)"

lemma Resume_restores:
  assumes "hash_resumable L" and "Finalize L a1 = (a2, Inr st)" and "Resume_appender L st opts = Inr b"
  shows "outerHash b = outerHash a2 \<and> contentHash b = contentHash a2 \<and> outputCount b = outputCount a2 \<and>
    pipelineCount b = pipelineCount a2 \<and> outFile b = []"
  using assms Finalize_state [OF assms(2)]
  by (auto simp: Resume_appender_def hash_resumable_def split: sum.splits if_splits)

text \<open>
  C30. Resumable layers: when a blob is written in two sessions, the second one resumed from the state
  the first returned, the state returned at the end describes the whole blob: the digest and the size
  of the two outputs one after the other, and the digest and the size of all the content written.
\<close>

theorem resumed_state_describes_whole:
  assumes "hash_resumable L"
    and "New_appender L opts = Inr a" and "pipe_run L ps a = (a1, None)" and "Finalize L a1 = (a2, Inr st1)"
    and "Resume_appender L st1 opts2 = Inr b" and "pipe_run L qs b = (b1, None)" and "Finalize L b1 = (b2, Inr st2)"
  shows "OuterHash st2 = hSum L (outFile a2 @ outFile b2) \<and>
    CompressedSize st2 = int (length (outFile a2 @ outFile b2)) \<and>
    ContentHash st2 = hSum L (concat (map op_bytes (ps @ qs))) \<and>
    UncompressedSize st2 = int (length (concat (map op_bytes (ps @ qs))))"
proof -
  have a: "outerHash a = [] \<and> contentHash a = [] \<and> outputCount a = 0 \<and> pipelineCount a = 0 \<and> outFile a = []"
    using assms(2) by (auto simp: New_appender_def split: sum.splits)
  note first = session_state [OF assms(3,4), unfolded accepted_def]
  note second = session_state [OF assms(6,7), unfolded accepted_def]
  show ?thesis
    using first second a Resume_restores [OF assms(1,4,5)] Finalize_state [OF assms(7)] by auto
qed

text \<open>A compressor that copies, and a hash that is its own state.\<close>

definition plain_lib :: "unit compressLib" where
  "plain_lib = \<lparr>cNewWriter = \<lambda>_. Inr (), cSetConcurrency = \<lambda>_ c. Inr c, cWrite = \<lambda>c b. (c, b, None),
     cFlush = \<lambda>c. (c, [], None), cClose = \<lambda>c. (c, [0], None), compressionName = ''none'', hSum = take 2,
     hMarshal = Inr, hUnmarshal = Inr, hashName = ''test''\<rparr>"

definition plain_opts :: compressOptions where
  "plain_opts = \<lparr>coContentType = ''tar'', coCompressionLevel = None, coCompressorJobs = None\<rparr>"

theorem resumed_state_describes_whole_witness:
  "\<exists>a a1 a2 st1 b b1 b2 st2. New_appender plain_lib plain_opts = Inr a \<and>
     pipe_run plain_lib [PWrite [1, 2], PFlush] a = (a1, None) \<and> Finalize plain_lib a1 = (a2, Inr st1) \<and>
     Resume_appender plain_lib st1 plain_opts = Inr b \<and> pipe_run plain_lib [PAppend ([3], None)] b = (b1, None) \<and>
     Finalize plain_lib b1 = (b2, Inr st2) \<and> ContentHash st2 = hSum plain_lib [1, 2, 3] \<and> CompressedSize st2 = 5"
proof -
  note simps = New_appender_def setupWriterPipeline_def plain_lib_def plain_opts_def appender_Write_def
    appender_Flush_def Finalize_def Resume_appender_def tar_AppendTar_def copy_to.simps Let_def emit_def
  obtain a where a: "New_appender plain_lib plain_opts = Inr a" by (simp add: simps)
  obtain a1 where a1: "pipe_run plain_lib [PWrite [1, 2], PFlush] a = (a1, None)" by (simp add: simps)
  obtain a2 st1 where f1: "Finalize plain_lib a1 = (a2, Inr st1)" by (simp add: simps)
  have "Magic st1 = appender_magic plain_lib plain_opts"
    using a a1 f1 by (auto simp: simps)
  then obtain b where b: "Resume_appender plain_lib st1 plain_opts = Inr b" by (simp add: simps)
  obtain b1 where b1: "pipe_run plain_lib [PAppend ([3], None)] b = (b1, None)" by (simp add: simps)
  obtain b2 st2 where f2: "Finalize plain_lib b1 = (b2, Inr st2)" by (simp add: simps)
  have "hash_resumable plain_lib" by (simp add: hash_resumable_def plain_lib_def)
  from resumed_state_describes_whole [OF this a a1 f1 b b1 f2]
  have "ContentHash st2 = hSum plain_lib [1, 2, 3] \<and> CompressedSize st2 = int (length (outFile a2 @ outFile b2))" by simp
  moreover have "length (outFile a2 @ outFile b2) = 5" using a a1 f1 b b1 f2 by (auto simp: simps)
  ultimately show ?thesis using a a1 f1 b b1 f2 by fastforce
qed

end
