(* ===== verification/Tarcas_Entries.thy ===== *)
theory Tarcas_Entries
  imports Tarcas Compress_Appender Compact_Props
begin

text \<open>
  What a successful \<^verbatim>\<open>writeHeaderAndData\<close> does: the archive grows by whole entries (a header and, for a
  regular file, its content padded to blocks), the observer's compact stream by pieces with the same
  content, and nothing but the appender, the observer and the set of known directories changes.
\<close>

section \<open>Entries\<close>

type_synonym entry = "tarHeader \<times> bytes"

definition block_padding :: "nat \<Rightarrow> bytes" where
  "block_padding n = (if n mod 512 = 0 then [] else replicate (512 - n mod 512) 0)"

definition header_bytes :: "'a tarLib \<Rightarrow> tarHeader \<Rightarrow> bytes" where
  "header_bytes E h = (case tarEncode E h of Inl _ \<Rightarrow> [] | Inr b \<Rightarrow> b)"

definition entry_bytes :: "'a tarLib \<Rightarrow> entry \<Rightarrow> bytes" where
  "entry_bytes E = (\<lambda>(h, b). header_bytes E h @ (if hTypeflag h = TypeReg then b @ block_padding (length b) else []))"

definition archive :: "'a tarLib \<Rightarrow> entry list \<Rightarrow> bytes" where
  "archive E es = concat (map (entry_bytes E) es)"

lemma archive_simps [simp]:
  "archive E [] = []" "archive E (e # es) = entry_bytes E e @ archive E es" "archive E (es @ fs) = archive E es @ archive E fs"
  by (simp_all add: archive_def)

definition dir_entries :: "string list \<Rightarrow> entry list" where
  "dir_entries ds = map (\<lambda>d. (dir_header d, [])) ds"

lemma dir_entries_simps [simp]:
  "dir_entries [] = []" "dir_entries (d # ds) = (dir_header d, []) # dir_entries ds"
  by (simp_all add: dir_entries_def)

lemma dir_header_simps [simp]: "hTypeflag (dir_header d) = TypeDir" "hName (dir_header d) = d"
  by (simp_all add: dir_header_def zero_header_def)

text \<open>The documented output of \<^verbatim>\<open>tar.Writer.WriteHeader\<close> comes in blocks of 512 bytes.\<close>

definition blocks :: "'a tarLib \<Rightarrow> bool" where
  "blocks E \<longleftrightarrow> (\<forall>h b. tarEncode E h = Inr b \<longrightarrow> length b mod 512 = 0)"

text \<open>The content handed over is as long as the header says and has the digest it is announced with.\<close>

definition faithful :: "'a tarLib \<Rightarrow> tarHeader \<Rightarrow> bytes \<Rightarrow> bytes option \<Rightarrow> bool" where
  "faithful E hdr b d \<longleftrightarrow>
     (hTypeflag hdr = TypeReg \<longrightarrow> hSize hdr = int (length b) \<and> (d = None \<or> d = Some (hashFn E b)))"

section \<open>The observer follows\<close>

definition reg_contents :: "entry list \<Rightarrow> bytes set" where
  "reg_contents es = {b. \<exists>h. (h, b) \<in> set es \<and> hTypeflag h = TypeReg}"

text \<open>A blob of the stream is the content of a file, under its digest.\<close>

definition blobs_ok :: "'a tarLib \<Rightarrow> entry list \<Rightarrow> piece list \<Rightarrow> bool" where
  "blobs_ok E es ps \<longleftrightarrow> (\<forall>d c. Blob d c \<in> set ps \<longrightarrow> d = hashFn E c \<and> c \<in> reg_contents es)"

definition obs_step :: "'a tarLib \<Rightarrow> csObserver \<Rightarrow> entry list \<Rightarrow> csObserver \<Rightarrow> bool" where
  "obs_step E ob es ob' \<longleftrightarrow>
     (werr (oWriter ob) = None \<longrightarrow>
      (\<exists>ps. oWriter ob' = fold write_piece ps (oWriter ob) \<and> werr (oWriter ob') = None \<and>
         digests_ok (hashSize (oWriter ob)) ps \<and> blobs_ok E es ps \<and> contents ps = archive E es \<and>
         hashSize (oWriter ob') = hashSize (oWriter ob)))"

fun obs_steps :: "'a tarLib \<Rightarrow> csObserver option \<Rightarrow> entry list \<Rightarrow> csObserver option \<Rightarrow> bool" where
  "obs_steps E None es ob' = (ob' = None)"
| "obs_steps E (Some ob) es ob' = (\<exists>ob1. ob' = Some ob1 \<and> obs_step E ob es ob1)"

lemma digests_ok_append [simp]: "digests_ok n (ps @ qs) \<longleftrightarrow> digests_ok n ps \<and> digests_ok n qs"
  by (induction n ps rule: digests_ok.induct) auto

lemma contents_append [simp]: "contents (ps @ qs) = contents ps @ contents qs"
  by (simp add: contents_def)

lemma reg_contents_simps [simp]:
  "reg_contents [] = {}" "reg_contents (es @ fs) = reg_contents es \<union> reg_contents fs" "reg_contents (dir_entries ds) = {}"
  "reg_contents [(h, b)] = (if hTypeflag h = TypeReg then {b} else {})"
  by (auto simp: reg_contents_def dir_entries_def)

lemma blobs_ok_append: "blobs_ok E es ps \<Longrightarrow> blobs_ok E fs qs \<Longrightarrow> blobs_ok E (es @ fs) (ps @ qs)"
  by (auto simp: blobs_ok_def)

lemma obs_step_trans:
  assumes ab: "obs_step E a es b" and bc: "obs_step E b fs c"
  shows "obs_step E a (es @ fs) c"
  unfolding obs_step_def
proof
    assume "werr (oWriter a) = None"
    with ab bc obtain ps qs where
      "oWriter b = fold write_piece ps (oWriter a)" "digests_ok (hashSize (oWriter a)) ps" "blobs_ok E es ps"
      "contents ps = archive E es" "hashSize (oWriter b) = hashSize (oWriter a)"
      "oWriter c = fold write_piece qs (oWriter b)" "werr (oWriter c) = None" "digests_ok (hashSize (oWriter b)) qs"
      "blobs_ok E fs qs" "contents qs = archive E fs" "hashSize (oWriter c) = hashSize (oWriter b)"
      unfolding obs_step_def by blast
    then show "\<exists>rs. oWriter c = fold write_piece rs (oWriter a) \<and> werr (oWriter c) = None \<and>
        digests_ok (hashSize (oWriter a)) rs \<and> blobs_ok E (es @ fs) rs \<and> contents rs = archive E (es @ fs) \<and>
        hashSize (oWriter c) = hashSize (oWriter a)"
      by (intro exI [of _ "ps @ qs"]) (simp add: blobs_ok_append)
qed

lemma obs_step_refl: "obs_step E a [] a"
  by (auto simp: obs_step_def blobs_ok_def intro!: exI [of _ "[]"])

lemma obs_steps_refl: "obs_steps E a [] a"
  by (cases a) (auto simp: obs_step_refl)

lemma obs_steps_trans: "obs_steps E a es b \<Longrightarrow> obs_steps E b fs c \<Longrightarrow> obs_steps E a (es @ fs) c"
  by (cases a; clarsimp) (rule obs_step_trans)

lemma tarBlockPadding_nat: "tarBlockPadding (int n) = block_padding n"
proof -
  have "int n - 512 * go_quot (int n) 512 = int (n mod 512)"
    by (cases "n = 0") (simp_all add: go_quot_def zmod_int minus_mult_div_eq_mod)
  moreover have "nat (512 - int k) = 512 - k" for k by linarith
  ultimately show ?thesis by (simp only: tarBlockPadding_def block_padding_def Let_def of_nat_eq_0_iff)
qed

lemma write_stream_step:
  assumes "WriteStreamBytes b w = (w', None)"
  shows "w' = write_piece (Inline b) w \<and> (werr w = None \<longrightarrow> werr w' = None) \<and> hashSize w' = hashSize w"
  using assms by (auto simp: WriteStreamBytes_def split: option.splits)

lemma write_ref_step:
  assumes "WriteCASRef d (of_nat (length b)) w = (w', None)"
  shows "w' = write_piece (Blob d b) w \<and> (werr w = None \<longrightarrow> werr w' = None) \<and> hashSize w' = hashSize w \<and> length d = hashSize w"
  using assms by (auto simp: WriteCASRef_def Let_def split: option.splits if_splits)

lemma write_padding_step:
  assumes "write_padding (int n) w = (w', None)" "werr w = None"
  shows "w' = write_piece (Inline (block_padding n)) w \<and> werr w' = None \<and> hashSize w' = hashSize w"
  using assms by (auto simp: write_padding_def tarBlockPadding_nat WriteStreamBytes_def Let_def split: option.splits if_splits)

lemma obs_header_only:
  assumes "BeginEntry E h d ob = (ob1, Inr s)" and "EndEntry E ob1 = (ob2, None)"
    and "hTypeflag h \<noteq> TypeReg \<or> hSize h = 0" and "hTypeflag h = TypeReg \<longrightarrow> b = []"
  shows "obs_step E ob [(h, b)] ob2"
proof -
  obtain hb w where hb: "tarEncode E h = Inr hb" and w: "WriteStreamBytes hb (oWriter ob) = (w, None)"
    and ob1: "ob1 = ob\<lparr>oHasher := None, oKnownDigest := d, oInline := False, oHdr := Some h, oRawHeader := hb, oWriter := w\<rparr>"
    using assms(1,3) by (auto simp: BeginEntry_def CaptureTarHeaderBytes_def Let_def map_sum_def split: sum.splits prod.splits option.splits)
  have "oWriter ob2 = w"
    using assms(2,3) ob1 by (auto simp: EndEntry_def end_entry_def entry_reset_def split: prod.splits)
  moreover have "entry_bytes E (h, b) = hb"
    using assms(3,4) hb by (auto simp: entry_bytes_def header_bytes_def block_padding_def)
  ultimately show ?thesis
    using write_stream_step [OF w]
    by (auto simp: obs_step_def blobs_ok_def intro!: exI [of _ "[Inline hb]"])
qed

lemma obs_regular:
  assumes "BeginEntry E h d ob = (ob1, Inr s)" and "sink_write s b ob1 = (ob2, None)" and "EndEntry E ob2 = (ob3, None)"
    and "hTypeflag h = TypeReg" and "faithful E h b d" and "hSize h \<noteq> 0"
  shows "obs_step E ob [(h, b)] ob3"
  unfolding obs_step_def
proof
  assume ok: "werr (oWriter ob) = None"
  have sz: "hSize h = int (length b)" "b \<noteq> []" and d: "d = None \<or> d = Some (hashFn E b)"
    using assms(4-6) by (auto simp: faithful_def)
  define inl where "inl \<longleftrightarrow> oInlineThreshold ob > 0 \<and> hSize h < oInlineThreshold ob"
  obtain hb w where hb: "tarEncode E h = Inr hb" and w: "WriteStreamBytes hb (oWriter ob) = (w, None)"
    and ob1: "ob1 = ob\<lparr>oHasher := if \<not> inl \<and> d = None then Some [] else None, oKnownDigest := d, oInline := inl,
      oHdr := Some h, oRawHeader := hb, oWriter := w\<rparr>"
    and s: "s = (if inl then StreamSink else if d = None then HashSink else NoSink)"
    using assms(1,4,6) by (auto simp: BeginEntry_def CaptureTarHeaderBytes_def Let_def map_sum_def inl_def
        split: sum.splits prod.splits option.splits if_splits)
  note W = write_stream_step [OF w]
  have eb: "entry_bytes E (h, b) = hb @ b @ block_padding (length b)"
    using assms(4) hb by (simp add: entry_bytes_def header_bytes_def)
  have "\<exists>p. oWriter ob3 = fold write_piece [Inline hb, p, Inline (block_padding (length b))] (oWriter ob) \<and>
      (p = Inline b \<or> p = Blob (hashFn E b) b \<and> length (hashFn E b) = hashSize (oWriter ob)) \<and>
      werr (oWriter ob3) = None \<and> hashSize (oWriter ob3) = hashSize (oWriter ob)"
  proof (cases inl)
    case True
    then obtain w2 where w2: "WriteStreamBytes b w = (w2, None)" and ob2: "ob2 = ob1\<lparr>oWriter := w2\<rparr>"
      using assms(2) sz(2) ob1 s by (auto simp: sink_write_def split: prod.splits)
    have "write_padding (int (length b)) w2 = (oWriter ob3, None)"
      using assms(3,4) True ob1 ob2 sz by (auto simp: EndEntry_def end_entry_def entry_reset_def split: prod.splits)
    from write_padding_step [OF this] write_stream_step [OF w2] W ok show ?thesis
      by (intro exI [of _ "Inline b"]) auto
  next
    case False
    then have "oWriter ob2 = w" "oHdr ob2 = Some h" "\<not> oInline ob2" "entry_digest E ob2 = Some (hashFn E b)"
      using assms(2) sz(2) ob1 s d by (auto simp: sink_write_def entry_digest_def split: if_splits)
    then obtain w2 where w2: "WriteCASRef (hashFn E b) (of_nat (length b)) w = (w2, None)"
      and "write_padding (int (length b)) w2 = (oWriter ob3, None)"
      using assms(3,4) sz by (auto simp: EndEntry_def end_entry_def entry_reset_def split: prod.splits option.splits)
    from write_padding_step [OF this(2)] write_ref_step [OF w2] W ok show ?thesis
      by (intro exI [of _ "Blob (hashFn E b) b"]) auto
  qed
  then obtain p where p: "oWriter ob3 = fold write_piece [Inline hb, p, Inline (block_padding (length b))] (oWriter ob)"
    "p = Inline b \<or> p = Blob (hashFn E b) b \<and> length (hashFn E b) = hashSize (oWriter ob)"
    "werr (oWriter ob3) = None" "hashSize (oWriter ob3) = hashSize (oWriter ob)"
    by blast
  show "\<exists>ps. oWriter ob3 = fold write_piece ps (oWriter ob) \<and> werr (oWriter ob3) = None \<and>
      digests_ok (hashSize (oWriter ob)) ps \<and> blobs_ok E [(h, b)] ps \<and> contents ps = archive E [(h, b)] \<and>
      hashSize (oWriter ob3) = hashSize (oWriter ob)"
    using p eb assms(4) by (intro exI [of _ "[Inline hb, p, Inline (block_padding (length b))]"]) (auto simp: blobs_ok_def)
qed

section \<open>Writing an entry\<close>

lemma tbind_Ok: "tbind m f c = (c2, Ok y) \<longleftrightarrow> (\<exists>c1 x. m c = (c1, Ok x) \<and> f x c1 = (c2, Ok y))"
  by (auto simp: tbind_def split: prod.splits tres.splits)

text \<open>Writing leaves everything alone but the appender, the observer and the known directories.\<close>

definition frame :: "'a cas \<Rightarrow> 'a cas \<Rightarrow> bool" where
  "frame c c' \<longleftrightarrow>
     storedHashes c' = storedHashes c \<and> storedNodes c' = storedNodes c \<and> storedTrees c' = storedTrees c \<and>
     hashOrder c' = hashOrder c \<and> nodeOrder c' = nodeOrder c \<and> treeOrder c' = treeOrder c \<and>
     deferredFiles c' = deferredFiles c \<and> firstBlobPaths c' = firstBlobPaths c \<and> firstNodePaths c' = firstNodePaths c \<and>
     firstTreePaths c' = firstTreePaths c \<and> casClosed c' = casClosed c \<and> casOptions c' = casOptions c"

lemma frame_refl [simp]: "frame c c"
  by (simp add: frame_def)

lemma frame_updates [simp]:
  "frame c (c\<lparr>tarAppender := a\<rparr>)" "frame c (c\<lparr>casObserver := ob\<rparr>)" "frame c (c\<lparr>casDirs := ds\<rparr>)"
  by (simp_all add: frame_def)

lemma frame_trans: "frame a b \<Longrightarrow> frame b c \<Longrightarrow> frame a c"
  by (simp add: frame_def)

text \<open>The effect of writing entries \<open>es\<close>, after which the directories \<open>ds\<close> are known as well.\<close>

definition wrote :: "('a \<Rightarrow> bytes) \<Rightarrow> 'a tarLib \<Rightarrow> 'a cas \<Rightarrow> entry list \<Rightarrow> string set \<Rightarrow> 'a cas \<Rightarrow> bool" where
  "wrote rcv E c es ds c' \<longleftrightarrow>
     frame c c' \<and> casDirs c' = casDirs c \<union> ds \<and> rcv (tarAppender c') = rcv (tarAppender c) @ archive E es \<and>
     obs_steps E (casObserver c) es (casObserver c')"

text \<open>Only the observer has moved.\<close>

definition only_observer :: "'a cas \<Rightarrow> 'a cas \<Rightarrow> bool" where
  "only_observer c c' \<longleftrightarrow> frame c c' \<and> tarAppender c' = tarAppender c \<and> casDirs c' = casDirs c"

lemma cas_BeginEntry_Ok:
  assumes "cas_BeginEntry E hdr d c = (c1, Ok s)"
  shows "only_observer c c1 \<and> (casObserver c = None \<longrightarrow> casObserver c1 = None) \<and>
    (\<forall>o0. casObserver c = Some o0 \<longrightarrow> (\<exists>o1. casObserver c1 = Some o1 \<and> BeginEntry E hdr d o0 = (o1, Inr s)))"
  using assms by (cases "casObserver c") (auto simp: cas_BeginEntry_def only_observer_def split: prod.splits sum.splits)

lemma cas_EndEntry_Ok:
  assumes "cas_EndEntry E c = (c1, Ok ())"
  shows "only_observer c c1 \<and> (casObserver c = None \<longrightarrow> casObserver c1 = None) \<and>
    (\<forall>o0. casObserver c = Some o0 \<longrightarrow> (\<exists>o1. casObserver c1 = Some o1 \<and> EndEntry E o0 = (o1, None)))"
  using assms by (cases "casObserver c") (auto simp: cas_EndEntry_def only_observer_def split: prod.splits option.splits)

lemma notifyEntry_Ok:
  assumes "notifyEntry E (dir_header d) None c = (c', Ok ())"
  shows "only_observer c c' \<and> obs_steps E (casObserver c) [(dir_header d, [])] (casObserver c')"
proof -
  obtain c1 s where b: "cas_BeginEntry E (dir_header d) None c = (c1, Ok s)" and e: "cas_EndEntry E c1 = (c', Ok ())"
    using assms by (auto simp: notifyEntry_def tbind_Ok)
  from cas_BeginEntry_Ok [OF b] cas_EndEntry_Ok [OF e] show ?thesis
    by (cases "casObserver c") (auto simp: only_observer_def frame_def intro!: obs_header_only)
qed

lemma encode_header_Ok: "encode_header E h c = (c', Ok b) \<longleftrightarrow> c' = c \<and> tarEncode E h = Inr b"
  by (auto simp: encode_header_def split: sum.splits)

lemma entry_bytes_header: "hTypeflag h \<noteq> TypeReg \<Longrightarrow> tarEncode E h = Inr b \<Longrightarrow> entry_bytes E (h, x) = b"
  by (simp add: entry_bytes_def header_bytes_def)

text \<open>Directories were buffered, and the observer has seen them.\<close>

definition buffered :: "'a tarLib \<Rightarrow> 'a cas \<Rightarrow> string list \<Rightarrow> 'a cas \<Rightarrow> bool" where
  "buffered E c ds c' \<longleftrightarrow> frame c c' \<and> tarAppender c' = tarAppender c \<and> casDirs c' = casDirs c \<union> set ds \<and>
     obs_steps E (casObserver c) (dir_entries ds) (casObserver c')"

lemma write_parents_Ok:
  "write_parents E ps buf c = (c', Ok buf') \<Longrightarrow>
   \<exists>ds. buffered E c ds c' \<and> set ds = set ps - casDirs c \<and> distinct ds \<and> buf' = buf @ archive E (dir_entries ds)"
proof (induction E ps buf c rule: write_parents.induct)
  case (1 E buf c)
  then show ?case by (auto simp: obs_steps_refl buffered_def intro!: exI [of _ "[]"])
next
  case (2 E d ds buf c)
  show ?case
  proof (cases "d \<in> casDirs c")
    case True
    with 2 show ?thesis by simp
  next
    case False
    with "2.prems" obtain c1 b where n: "notifyEntry E (dir_header d) None c = (c1, Ok ())"
      and b: "tarEncode E (dir_header d) = Inr b"
      and rec: "write_parents E ds (buf @ b) (c1\<lparr>casDirs := insert d (casDirs c1)\<rparr>) = (c', Ok buf')"
      by (auto simp: tbind_Ok encode_header_Ok)
    note N = notifyEntry_Ok [OF n, unfolded only_observer_def]
    from "2.IH"(2) [OF False rec] N obtain es where
      r: "buffered E (c1\<lparr>casDirs := insert d (casDirs c1)\<rparr>) es c'" "set es = set ds - insert d (casDirs c)"
      "distinct es" "buf' = (buf @ b) @ archive E (dir_entries es)"
      by auto
    have o2: "obs_steps E (casObserver c1) (dir_entries es) (casObserver c')" using r(1) by (simp add: buffered_def)
    have "obs_steps E (casObserver c) (dir_entries (d # es)) (casObserver c')"
      using obs_steps_trans [OF conjunct2 [OF N] o2] by simp
    then have "buffered E c (d # es) c'" using N r(1) by (auto simp: buffered_def frame_def)
    moreover have "set (d # es) = set (d # ds) - casDirs c" "distinct (d # es)" using r(2,3) False by auto
    moreover have "buf' = buf @ archive E (dir_entries (d # es))"
      using r(4) b by (simp add: entry_bytes_header)
    ultimately show ?thesis by (intro exI [of _ "d # es"] conjI)
  qed
qed

text \<open>The parents of an entry that get a header of their own.\<close>

definition new_parents :: "'a cas \<Rightarrow> tarHeader \<Rightarrow> string list \<Rightarrow> bool" where
  "new_parents c hdr ds \<longleftrightarrow>
     (if createParentDirectories (casOptions c)
      then \<exists>ps. parents (hName hdr) = Some ps \<and> set ds = set ps - casDirs c \<and> distinct ds
      else ds = [])"

lemma entry_parents_Ok:
  assumes "entry_parents E hdr c = (c', Ok buf)"
  shows "\<exists>ds. buffered E c ds c' \<and> new_parents c hdr ds \<and> buf = archive E (dir_entries ds)"
proof (cases "createParentDirectories (casOptions c)")
  case True
  then obtain ps where ps: "parents (hName hdr) = Some ps" "write_parents E (rev ps) [] c = (c', Ok buf)"
    using assms by (auto simp: entry_parents_def split: option.splits)
  from write_parents_Ok [OF ps(2)] ps(1) True show ?thesis by (auto simp: new_parents_def)
next
  case False
  with assms show ?thesis
    by (auto simp: entry_parents_def new_parents_def buffered_def obs_steps_refl intro!: exI [of _ "[]"])
qed

section \<open>Blocks\<close>

lemma padded_length: "(n + length (block_padding n)) mod 512 = 0"
proof (cases "n mod 512 = 0")
  case False
  define q r where "q = n div 512" and "r = n mod 512"
  have "n = 512 * q + r" "r < 512" by (simp_all add: q_def r_def)
  then have "n + (512 - r) = 512 * (q + 1)" by simp
  then have "n + (512 - n mod 512) = 512 * (q + 1)" by (simp only: r_def)
  with False show ?thesis by (simp only: block_padding_def if_False length_replicate mod_mult_self1_is_0)
qed (simp add: block_padding_def)

lemma archive_blocks:
  assumes "blocks E" shows "length (archive E es) mod 512 = 0"
proof -
  have "512 dvd length (header_bytes E h)" for h
    using assms by (auto simp: header_bytes_def blocks_def mod_eq_0_iff_dvd split: sum.splits)
  moreover have "512 dvd (length b + length (block_padding (length b)))" for b :: bytes
    using padded_length by (simp add: mod_eq_0_iff_dvd)
  ultimately have "512 dvd length (entry_bytes E e)" for e
    by (cases e) (simp add: entry_bytes_def)
  then have "512 dvd length (archive E es)" by (induction es) simp_all
  then show ?thesis by (simp add: mod_eq_0_iff_dvd)
qed

lemma padded_blocks: "length buf mod 512 = 0 \<Longrightarrow> paddedReader 512 (buf @ b, None) = (buf @ b @ block_padding (length b), None)"
proof -
  assume "length buf mod 512 = 0"
  then have "length (buf @ b) mod 512 = length b mod 512"
    using mod_add_left_eq [of "length buf" 512 "length b"] by simp
  then show ?thesis by (simp only: paddedReader_def block_padding_def split_conv option.case Let_def append_assoc)
qed

section \<open>The whole entry\<close>

context tar_appender
begin

lemma AppendTar_Ok:
  assumes "appendTar E = app" and "AppendTar E r c = (c', Ok ())"
  shows "snd r = None \<and> frame c c' \<and> casDirs c' = casDirs c \<and> casObserver c' = casObserver c \<and>
    received (tarAppender c') = received (tarAppender c) @ fst r"
  using assms append_ok [of "tarAppender c" "fst r" "snd r"]
  by (auto simp: AppendTar_def split: prod.splits option.splits)

lemma append_regular_Ok:
  assumes "appendTar E = app" and "append_regular E buf s (b, None) c = (c', Ok ())" and "length buf mod 512 = 0"
  shows "frame c c' \<and> casDirs c' = casDirs c \<and>
    received (tarAppender c') = received (tarAppender c) @ buf @ b @ block_padding (length b) \<and>
    (casObserver c = None \<longrightarrow> casObserver c' = None) \<and>
    (\<forall>o0. casObserver c = Some o0 \<longrightarrow> (\<exists>o1. casObserver c' = Some o1 \<and> sink_write s b o0 = (o1, None)))"
proof -
  have no: "\<not> AppendTar E (paddedReader 512 (buf, Some x)) c1 = (c', Ok ())" for x c1
    using AppendTar_Ok [OF assms(1), of "(buf, Some x)" c1 c'] by (auto simp: paddedReader_def)
  obtain c1 where t: "cas_tee s b c = (c1, None)" and a: "AppendTar E (paddedReader 512 (buf @ b, None)) c1 = (c', Ok ())"
    using assms(2) no by (auto simp: append_regular_def split: prod.splits option.splits)
  have "frame c c1 \<and> casDirs c1 = casDirs c \<and> tarAppender c1 = tarAppender c \<and> (casObserver c = None \<longrightarrow> casObserver c1 = None) \<and>
    (\<forall>o0. casObserver c = Some o0 \<longrightarrow> (\<exists>o1. casObserver c1 = Some o1 \<and> sink_write s b o0 = (o1, None)))"
    using t by (cases "casObserver c") (auto simp: cas_tee_def split: prod.splits)
  with AppendTar_Ok [OF assms(1) a] show ?thesis by (auto simp: padded_blocks [OF assms(3)] intro: frame_trans)
qed

lemma header_entry_Ok:
  assumes "appendTar E = app" and "hTypeflag hdr \<noteq> TypeReg"
    and "cas_BeginEntry E hdr d c = (c1, Ok s)" and "tarEncode E hdr = Inr hb" and "cas_EndEntry E c1 = (c2, Ok ())"
    and "AppendTar E (buf @ hb, None) c2 = (c', Ok ())"
  shows "frame c c' \<and> casDirs c' = casDirs c \<and> received (tarAppender c') = received (tarAppender c) @ buf @ archive E [(hdr, b)] \<and>
    obs_steps E (casObserver c) [(hdr, b)] (casObserver c')"
  using AppendTar_Ok [OF assms(1,6)] cas_BeginEntry_Ok [OF assms(3)] cas_EndEntry_Ok [OF assms(5)] assms(2,4)
  by (cases "casObserver c")
    (auto simp: entry_bytes_header only_observer_def frame_def intro!: obs_header_only)

lemma regular_entry_Ok:
  assumes "appendTar E = app" and "blocks E" and "hTypeflag hdr = TypeReg" and "faithful E hdr b d"
    and "cas_BeginEntry E hdr d c = (c1, Ok s)" and "tarEncode E hdr = Inr hb"
    and "append_regular E (buf @ hb) s (LimitReader (hSize hdr) (b, e)) c1 = (c2, Ok ())" and "cas_EndEntry E c2 = (c', Ok ())"
    and "length buf mod 512 = 0"
  shows "frame c c' \<and> casDirs c' = casDirs c \<and> received (tarAppender c') = received (tarAppender c) @ buf @ archive E [(hdr, b)] \<and>
    obs_steps E (casObserver c) [(hdr, b)] (casObserver c')"
proof -
  have lim: "LimitReader (hSize hdr) (b, e) = (b, None)" using assms(3,4) by (simp add: LimitReader_def faithful_def)
  have "length (buf @ hb) mod 512 = 0" using assms(2,6,9) by (auto simp: blocks_def mod_eq_0_iff_dvd)
  note R = append_regular_Ok [OF assms(1) assms(7) [unfolded lim] this]
  have step: "obs_step E o0 [(hdr, b)] o3" if "BeginEntry E hdr d o0 = (o1, Inr s)" "sink_write s b o1 = (o2, None)"
      "EndEntry E o2 = (o3, None)" for o0 o1 o2 o3
  proof (cases "hSize hdr = 0")
    case True
    then have "b = []" using assms(3,4) by (simp add: faithful_def)
    then have "o2 = o1" using that(2) by (simp add: sink_write_def)
    with that True \<open>b = []\<close> show ?thesis by (auto intro: obs_header_only)
  next
    case False
    with that assms(3,4) show ?thesis by (auto intro: obs_regular)
  qed
  show ?thesis
    using R cas_BeginEntry_Ok [OF assms(5)] cas_EndEntry_Ok [OF assms(8)] assms(3,6)
    by (cases "casObserver c") (auto simp: entry_bytes_def header_bytes_def only_observer_def frame_def intro!: step)
qed

lemma writeHeaderAndData_Ok:
  assumes "appendTar E = app" and "blocks E" and "faithful E hdr b d"
    and "writeHeaderAndData E hdr (b, e) d c = (c', Ok ())"
  shows "\<exists>ds. new_parents c hdr ds \<and> wrote received E c (dir_entries ds @ [(hdr, b)]) (set ds) c'"
proof -
  obtain c1 buf c2 s hb where 1: "entry_parents E hdr c = (c1, Ok buf)" and 2: "cas_BeginEntry E hdr d c1 = (c2, Ok s)"
    and 3: "tarEncode E hdr = Inr hb"
    and 4: "(if hTypeflag hdr = TypeReg
       then tbind (append_regular E (buf @ hb) s (LimitReader (hSize hdr) (b, e))) (\<lambda>_. cas_EndEntry E)
       else tbind (cas_EndEntry E) (\<lambda>_. AppendTar E (buf @ hb, None))) c2 = (c', Ok ())"
    using assms(4) by (auto simp: writeHeaderAndData_def tbind_Ok encode_header_Ok)
  obtain ds where ds: "new_parents c hdr ds" "buffered E c ds c1" "buf = archive E (dir_entries ds)"
    using entry_parents_Ok [OF 1] by blast
  have blk: "length buf mod 512 = 0" using archive_blocks [OF assms(2)] ds(3) by simp
  have "frame c1 c' \<and> casDirs c' = casDirs c1 \<and> received (tarAppender c') = received (tarAppender c1) @ buf @ archive E [(hdr, b)] \<and>
      obs_steps E (casObserver c1) [(hdr, b)] (casObserver c')"
  proof (cases "hTypeflag hdr = TypeReg")
    case True
    with 4 obtain c3 where "append_regular E (buf @ hb) s (LimitReader (hSize hdr) (b, e)) c2 = (c3, Ok ())"
      "cas_EndEntry E c3 = (c', Ok ())" by (auto simp: tbind_Ok)
    from regular_entry_Ok [OF assms(1,2) True assms(3) 2 3 this blk] show ?thesis .
  next
    case False
    with 4 obtain c3 where "cas_EndEntry E c2 = (c3, Ok ())" "AppendTar E (buf @ hb, None) c3 = (c', Ok ())"
      by (auto simp: tbind_Ok)
    from header_entry_Ok [OF assms(1) False 2 3 this] show ?thesis .
  qed
  with ds obs_steps_trans have "wrote received E c (dir_entries ds @ [(hdr, b)]) (set ds) c'"
    by (auto simp: wrote_def buffered_def frame_def)
  with ds(1) show ?thesis by blast
qed

end

end
