(* ===== verification/Tarcas_Layer.thy ===== *)
theory Tarcas_Layer
  imports Tarcas_Entries
begin

text \<open>
  Unpacking a layer gives the requested files.  Extraction goes through the entries of the archive in
  order: a regular file is created with its content and metadata, a hard link shares the file its
  target names at that moment and fails if there is none.  Directories do not concern files.  A
  sequence of operations on the layer writer requests files; when it succeeds, extraction finds each
  of them under its name, whether it was stored or linked.
\<close>

section \<open>Extraction\<close>

datatype fnode = FileNode tarHeader bytes | Special tarHeader

fun unpack_entry :: "entry \<Rightarrow> (string \<rightharpoonup> fnode) \<Rightarrow> (string \<rightharpoonup> fnode) option" where
  "unpack_entry (h, b) fs =
     (if hTypeflag h = TypeReg then Some (fs(hName h \<mapsto> FileNode (node_header h) b))
      else if hTypeflag h = TypeDir then Some fs
      else if hTypeflag h = TypeLink then map_option (\<lambda>n. fs(hName h \<mapsto> n)) (fs (hLinkname h))
      else Some (fs(hName h \<mapsto> Special h)))"

fun unpack :: "entry list \<Rightarrow> (string \<rightharpoonup> fnode) \<Rightarrow> (string \<rightharpoonup> fnode) option" where
  "unpack [] fs = Some fs"
| "unpack (e # es) fs = (case unpack_entry e fs of None \<Rightarrow> None | Some fs1 \<Rightarrow> unpack es fs1)"

definition file_at :: "(string \<rightharpoonup> fnode) \<Rightarrow> string \<Rightarrow> tarHeader \<Rightarrow> bytes \<Rightarrow> bool" where
  "file_at fs p hdr b \<longleftrightarrow> (\<exists>m. fs p = Some (FileNode m b) \<and> same_metadata m (node_header hdr))"

section \<open>Operations and requests\<close>

datatype layerOp =
    OpHeader tarHeader
  | OpRegular tarHeader reader
  | OpRegularDedup tarHeader reader
  | OpPath tarHeader string
  | OpPathDedup tarHeader string
  | OpTree treeFS string

fun layer_op :: "'a tarLib \<Rightarrow> layerOp \<Rightarrow> ('a, unit) tcall" where
  "layer_op E (OpHeader hdr) = cas_WriteHeader E hdr"
| "layer_op E (OpRegular hdr r) = WriteRegular E hdr r"
| "layer_op E (OpRegularDedup hdr r) = WriteRegularDeduplicated E hdr r"
| "layer_op E (OpPath hdr p) = WriteRegularFromPath E hdr p"
| "layer_op E (OpPathDedup hdr p) = WriteRegularFromPathDeduplicated E hdr p"
| "layer_op E (OpTree t p) = tbind (StoreTree E t p) (\<lambda>_. tret ())"

fun layer_ops :: "'a tarLib \<Rightarrow> layerOp list \<Rightarrow> ('a, unit) tcall" where
  "layer_ops E [] c = (c, Ok ())"
| "layer_ops E (p # ps) c = tbind (layer_op E p) (\<lambda>_. layer_ops E ps) c"

definition run_layer :: "'a tarLib \<Rightarrow> layerOp list \<Rightarrow> ('a, unit) tcall" where
  "run_layer E ops = tbind (layer_ops E ops) (\<lambda>_. cas_Close E)"

definition visit_requests :: "string \<Rightarrow> walkVisit \<Rightarrow> entry list" where
  "visit_requests base v =
     (if wRegular v then case wOpen v of Inl _ \<Rightarrow> []
        | Inr r \<Rightarrow> [(blob_header (path_Join_all [base, wPath v]) (int (length (fst r))), fst r)]
      else [])"

fun requests :: "'a tarLib \<Rightarrow> layerOp \<Rightarrow> entry list" where
  "requests E (OpHeader hdr) = []"
| "requests E (OpRegular hdr r) = [(hdr, fst r)]"
| "requests E (OpRegularDedup hdr r) = [(hdr, fst r)]"
| "requests E (OpPath hdr p) = (case openFile E p of Inl _ \<Rightarrow> [] | Inr df \<Rightarrow> [(hdr, fst (dfContent df))])"
| "requests E (OpPathDedup hdr p) = (case openFile E p of Inl _ \<Rightarrow> [] | Inr df \<Rightarrow> [(hdr, fst (dfContent df))])"
| "requests E (OpTree t p) = concat (map (visit_requests p) (treeWalk t))"

fun op_names :: "'a tarLib \<Rightarrow> layerOp \<Rightarrow> string list" where
  "op_names E (OpHeader hdr) = (if hTypeflag hdr = TypeDir then [] else [hName hdr])"
| "op_names E p = map (hName \<circ> fst) (requests E p)"

text \<open>
  What the callers of the layer writer ensure: a file written without deduplication has the size
  its header announces, and a bare header is not that of a hard link.
\<close>

fun op_ok :: "'a tarLib \<Rightarrow> layerOp \<Rightarrow> bool" where
  "op_ok E (OpHeader hdr) \<longleftrightarrow> hTypeflag hdr \<noteq> TypeLink"
| "op_ok E (OpRegular hdr r) \<longleftrightarrow> hSize hdr = int (length (fst r))"
| "op_ok E (OpPath hdr p) \<longleftrightarrow> (\<forall>df. openFile E p = Inr df \<longrightarrow> hSize hdr = int (length (fst (dfContent df))))"
| "op_ok E p \<longleftrightarrow> True"

text \<open>
  What the files opened through \<^verbatim>\<open>digestfs\<close> promise: digest and size belong to the content (the lemma
  \<open>digestfs_provides\<close> of \<open>Digestfs\<close> proves it of the package, for files that do not change).
\<close>

definition digestfs_ok :: "'a tarLib \<Rightarrow> bool" where
  "digestfs_ok E \<longleftrightarrow> (\<forall>p df h. openFile E p = Inr df \<longrightarrow> dfDigest df = Inr h \<longrightarrow>
     h = hashFn E (fst (dfContent df)) \<and> dfSize df = int (length (fst (dfContent df))))"

text \<open>No two of the texts hashed for the requests collide.\<close>

definition hashed_texts :: "'a tarLib \<Rightarrow> entry set \<Rightarrow> bytes set" where
  "hashed_texts E R = snd ` R \<union> (\<lambda>(h, b). hashTarHeader [] (node_header h) @ hashFn E b) ` R"

definition no_collisions :: "'a tarLib \<Rightarrow> entry set \<Rightarrow> bool" where
  "no_collisions E R \<longleftrightarrow> inj_on (hashFn E) (hashed_texts E R) \<and> (\<forall>(h, b) \<in> R. header_ok (node_header h))"

section \<open>Metadata\<close>

lemma same_metadata_refl [simp]: "same_metadata m m"
  by (simp add: same_metadata_def)

lemma same_metadata_trans: "same_metadata a b \<Longrightarrow> same_metadata b c \<Longrightarrow> same_metadata a c"
  by (simp add: same_metadata_def)

lemma same_metadata_sym: "same_metadata a b \<Longrightarrow> same_metadata b a"
  by (simp add: same_metadata_def)

lemma round_time_idem [simp]: "round_time (round_time t) = round_time t"
proof -
  have "time_Round t = t" if "t mod second = 0" for t
    using that by (simp add: time_Round_def Let_def second_def)
  from this [OF round_time_second] show ?thesis by (simp only: round_time_def [of "round_time t"] if_cancel)
qed

lemma merge_xattrs_cases:
  obtains "merge_xattrs th = th" "map_entries (hXattrs th) = []"
  | pr where "merge_xattrs th = th\<lparr>hPAXRecords := pr, hXattrs := None\<rparr>"
proof (cases "map_entries (hXattrs th) = []")
  case True
  then show ?thesis by (intro that(1)) (simp_all add: merge_xattrs_def)
next
  case False
  then show ?thesis by (intro that(2)) (simp add: merge_xattrs_def)
qed

lemma normalize_name: "normalizeTarHeader (th\<lparr>hName := []\<rparr>) = merge_xattrs (th\<lparr>hName := [], hFormat := FormatPAX,
    hLinkname := if hTypeflag th \<noteq> TypeLink \<and> hTypeflag th \<noteq> TypeSymlink then [] else hLinkname th,
    hModTime := round_time (hModTime th), hAccessTime := round_time (hAccessTime th), hChangeTime := round_time (hChangeTime th),
    hDevmajor := if hTypeflag th \<noteq> TypeChar \<and> hTypeflag th \<noteq> TypeBlock then 0 else hDevmajor th,
    hDevminor := if hTypeflag th \<noteq> TypeChar \<and> hTypeflag th \<noteq> TypeBlock then 0 else hDevminor th\<rparr>)"
  by (auto simp: normalizeTarHeader_def HasSuffix_def Let_def)

lemma node_header_idem [simp]: "node_header ((node_header h)\<lparr>hName := n\<rparr>) = node_header h"
proof -
  let ?g = "\<lambda>th. th\<lparr>hName := [], hFormat := FormatPAX,
    hLinkname := if hTypeflag th \<noteq> TypeLink \<and> hTypeflag th \<noteq> TypeSymlink then [] else hLinkname th,
    hModTime := round_time (hModTime th), hAccessTime := round_time (hAccessTime th), hChangeTime := round_time (hChangeTime th),
    hDevmajor := if hTypeflag th \<noteq> TypeChar \<and> hTypeflag th \<noteq> TypeBlock then 0 else hDevmajor th,
    hDevminor := if hTypeflag th \<noteq> TypeChar \<and> hTypeflag th \<noteq> TypeBlock then 0 else hDevminor th\<rparr> :: tarHeader"
  have n: "node_header th = merge_xattrs (?g th)" for th by (simp add: node_header_def normalize_name)
  have idem: "?g ((?g h)\<lparr>hName := n\<rparr>) = ?g h" by simp
  show ?thesis
  proof (cases "?g h" rule: merge_xattrs_cases)
    case 1
    then have "node_header h = ?g h" by (simp only: n)
    then have "node_header ((node_header h)\<lparr>hName := n\<rparr>) = merge_xattrs (?g h)" by (simp only: n idem)
    then show ?thesis by (simp only: n)
  next
    case (2 pr)
    then have nh: "node_header h = (?g h)\<lparr>hPAXRecords := pr, hXattrs := None\<rparr>" by (simp only: n)
    have "node_header ((node_header h)\<lparr>hName := n\<rparr>) = merge_xattrs (?g ((node_header h)\<lparr>hName := n\<rparr>))" by (rule n)
    also have "?g ((node_header h)\<lparr>hName := n\<rparr>) = (?g h)\<lparr>hPAXRecords := pr, hXattrs := None\<rparr>" unfolding nh by simp
    also have "merge_xattrs \<dots> = \<dots>" by (simp add: merge_xattrs_def map_entries_def)
    finally show ?thesis by (simp only: nh)
  qed
qed

lemma node_header_type [simp]: "hTypeflag (node_header h) = hTypeflag h" "hSize (node_header h) = hSize h"
  by (auto simp: node_header_def normalize_name merge_xattrs_def)

lemma blob_metadata:
  assumes "isBlobTarHeader hdr" and "hSize hdr = n"
  shows "node_header hdr = node_header (blob_header p n)"
  using assms
  by (cases hdr) (simp add: isBlobTarHeader_def node_header_def blob_header_def zero_header_def normalizeTarHeader_def
      HasSuffix_def Let_def merge_xattrs_def map_entries_def split: if_splits)

lemma normalize_node_header: "normalizeTarHeader (node_header h) = node_header h"
proof -
  have "(node_header h)\<lparr>hName := []\<rparr> = node_header h"
    by (simp add: node_header_def normalize_name merge_xattrs_def)
  then have "normalizeTarHeader (node_header h) = node_header ((node_header h)\<lparr>hName := []\<rparr>)" by (simp add: node_header_def)
  then show ?thesis by simp
qed

lemma hash_inject:
  assumes "no_collisions E R" and "a \<in> snd ` R" "b \<in> snd ` R" and "hashFn E a = hashFn E b"
  shows "a = b"
proof (rule inj_onD)
  show "inj_on (hashFn E) (hashed_texts E R)" using assms(1) by (simp add: no_collisions_def)
qed (use assms in \<open>simp_all add: hashed_texts_def\<close>)

lemma node_hash_inject:
  assumes "no_collisions E R" and "(h, b) \<in> R" "(g, a) \<in> R" and "node_hash E h (hashFn E b) = node_hash E g (hashFn E a)"
  shows "same_metadata (node_header h) (node_header g) \<and> b = a"
proof -
  have eq: "hashTarHeader [] (node_header h) @ hashFn E b = hashTarHeader [] (node_header g) @ hashFn E a"
  proof (rule inj_onD)
    show "inj_on (hashFn E) (hashed_texts E R)" using assms(1) by (simp add: no_collisions_def)
    show "hashFn E (hashTarHeader [] (node_header h) @ hashFn E b) = hashFn E (hashTarHeader [] (node_header g) @ hashFn E a)"
      using assms(4) by (simp only: node_hash_def)
  qed (use assms(2,3) in \<open>force simp: hashed_texts_def\<close>)+
  have "header_ok (node_header h)" "header_ok (node_header g)" using assms(1-3) by (auto simp: no_collisions_def)
  then have "same_metadata (node_header h) (node_header g) \<and> hashFn E b = hashFn E a"
    using hashed_text_inject [of "node_header h" "node_header g"] eq by (simp add: normalize_node_header)
  moreover have "b \<in> snd ` R" "a \<in> snd ` R" using assms(2,3) by force+
  ultimately show ?thesis using hash_inject [OF assms(1)] by blast
qed

section \<open>The state of a layer being written\<close>

lemma unpack_append: "unpack (es @ fs) m = (case unpack es m of None \<Rightarrow> None | Some m1 \<Rightarrow> unpack fs m1)"
  by (induction es arbitrary: m) (auto split: option.splits)

lemma unpack_dirs [simp]: "unpack (dir_entries ds) m = Some m"
  by (induction ds) simp_all

text \<open>The names the deferred headers will take when they are written.\<close>

definition deferred_names :: "'a cas \<Rightarrow> string list" where
  "deferred_names c = map hName (filter (\<lambda>h. hTypeflag h \<noteq> TypeDir) (deferredFiles c))"

text \<open>
  \<open>R\<close> is all that is ever requested, \<open>fs\<close> what extraction of the archive gives so far, \<open>ob0\<close> the observer the layer began with.
\<close>

definition firsts_ok :: "'a tarLib \<Rightarrow> entry set \<Rightarrow> 'a cas \<Rightarrow> (string \<rightharpoonup> fnode) \<Rightarrow> bool" where
  "firsts_ok E R c fs \<longleftrightarrow>
     (\<forall>d p. firstBlobPaths c d = Some p \<longrightarrow>
        (\<exists>b. d = hashFn E b \<and> b \<in> snd ` R \<and> file_at fs p (blob_header p (int (length b))) b)) \<and>
     (\<forall>d p. firstNodePaths c d = Some p \<longrightarrow>
        (\<exists>h b. d = node_hash E h (hashFn E b) \<and> (h, b) \<in> R \<and> file_at fs p h b))"

definition logged :: "('a \<Rightarrow> bytes) \<Rightarrow> csObserver option \<Rightarrow> 'a tarLib \<Rightarrow> entry set \<Rightarrow> 'a cas \<Rightarrow> (string \<rightharpoonup> fnode) \<Rightarrow> bool" where
  "logged rcv ob0 E R c fs \<longleftrightarrow>
     (\<exists>es. rcv (tarAppender c) = archive E es \<and> unpack es Map.empty = Some fs \<and> obs_steps E ob0 es (casObserver c) \<and>
        reg_contents es \<subseteq> snd ` R)"

definition layer_inv :: "('a \<Rightarrow> bytes) \<Rightarrow> csObserver option \<Rightarrow> 'a tarLib \<Rightarrow> entry set \<Rightarrow> 'a cas \<Rightarrow> (string \<rightharpoonup> fnode) \<Rightarrow> bool" where
  "layer_inv rcv ob0 E R c fs \<longleftrightarrow> logged rcv ob0 E R c fs \<and> firsts_ok E R c fs \<and>
     (\<forall>h \<in> set (deferredFiles c). hTypeflag h \<noteq> TypeReg \<and> (hTypeflag h = TypeLink \<longrightarrow> hLinkname h \<in> dom fs)) \<and>
     distinct (deferred_names c) \<and> set (deferred_names c) \<inter> dom fs = {}"

definition used_names :: "'a cas \<Rightarrow> (string \<rightharpoonup> fnode) \<Rightarrow> string set" where
  "used_names c fs = dom fs \<union> set (deferred_names c)"

text \<open>A request is met by a file, or by a link that waits for the end of the archive.\<close>

definition met :: "'a cas \<Rightarrow> (string \<rightharpoonup> fnode) \<Rightarrow> entry \<Rightarrow> bool" where
  "met c fs = (\<lambda>(hdr, b). file_at fs (hName hdr) hdr b \<or>
     (\<exists>h \<in> set (deferredFiles c). hTypeflag h = TypeLink \<and> hName h = hName hdr \<and> file_at fs (hLinkname h) hdr b))"

text \<open>A step of the layer: files and waiting links are only added, under the names \<open>ns\<close>.\<close>

definition layer_step :: "('a \<Rightarrow> bytes) \<Rightarrow> csObserver option \<Rightarrow> 'a tarLib \<Rightarrow> entry set \<Rightarrow> 'a cas \<Rightarrow> (string \<rightharpoonup> fnode) \<Rightarrow> string set \<Rightarrow>
    'a cas \<Rightarrow> (string \<rightharpoonup> fnode) \<Rightarrow> bool" where
  "layer_step rcv ob0 E R c fs ns c' fs' \<longleftrightarrow>
     layer_inv rcv ob0 E R c' fs' \<and> fs \<subseteq>\<^sub>m fs' \<and> (\<exists>ds. deferredFiles c' = deferredFiles c @ ds) \<and>
     used_names c' fs' \<subseteq> used_names c fs \<union> ns \<and> casOptions c' = casOptions c \<and> casClosed c' = casClosed c"

lemma file_at_mono: "file_at fs p h b \<Longrightarrow> fs \<subseteq>\<^sub>m fs' \<Longrightarrow> file_at fs' p h b"
  by (force simp: file_at_def map_le_def dom_def)

lemma file_at_dom: "file_at fs p h b \<Longrightarrow> p \<in> dom fs"
  by (auto simp: file_at_def)

lemma firsts_ok_mono:
  assumes "firsts_ok E R c fs" and "fs \<subseteq>\<^sub>m fs'" and "firstBlobPaths c' = firstBlobPaths c" "firstNodePaths c' = firstNodePaths c"
  shows "firsts_ok E R c' fs'"
  unfolding firsts_ok_def
proof (intro conjI allI impI)
  fix d p assume "firstBlobPaths c' d = Some p"
  with assms(1,3) obtain b where "d = hashFn E b" "b \<in> snd ` R" "file_at fs p (blob_header p (int (length b))) b"
    unfolding firsts_ok_def by metis
  with file_at_mono [OF _ assms(2)] show "\<exists>b. d = hashFn E b \<and> b \<in> snd ` R \<and> file_at fs' p (blob_header p (int (length b))) b"
    by blast
next
  fix d p assume "firstNodePaths c' d = Some p"
  with assms(1,4) obtain h b where "d = node_hash E h (hashFn E b)" "(h, b) \<in> R" "file_at fs p h b"
    unfolding firsts_ok_def by metis
  with file_at_mono [OF _ assms(2)] show "\<exists>h b. d = node_hash E h (hashFn E b) \<and> (h, b) \<in> R \<and> file_at fs' p h b"
    by blast
qed

lemma met_step: "met c fs x \<Longrightarrow> layer_step rcv ob0 E R c fs ns c' fs' \<Longrightarrow> met c' fs' x"
  by (cases x) (auto simp: met_def layer_step_def intro: file_at_mono)

lemma layer_step_refl: "layer_inv rcv ob0 E R c fs \<Longrightarrow> layer_step rcv ob0 E R c fs ns c fs"
  by (simp add: layer_step_def)

lemma layer_step_trans:
  "layer_step rcv ob0 E R c fs ns c1 fs1 \<Longrightarrow> layer_step rcv ob0 E R c1 fs1 ms c2 fs2 \<Longrightarrow>
   layer_step rcv ob0 E R c fs (ns \<union> ms) c2 fs2"
  by (auto simp: layer_step_def intro: map_le_trans)

lemma layer_step_mono: "layer_step rcv ob0 E R c fs ns c' fs' \<Longrightarrow> ns \<subseteq> ms \<Longrightarrow> layer_step rcv ob0 E R c fs ms c' fs'"
  by (auto simp: layer_step_def)

lemma layer_stepD:
  assumes "layer_step rcv ob0 E R c fs ns c' fs'"
  shows "layer_inv rcv ob0 E R c' fs'" "casOptions c' = casOptions c" "casClosed c' = casClosed c"
    "n \<notin> used_names c fs \<Longrightarrow> n \<notin> ns \<Longrightarrow> n \<notin> used_names c' fs'"
  using assms by (auto simp: layer_step_def)

lemma logged_wrote:
  assumes "logged rcv ob0 E R c fs" and "wrote rcv E c (dir_entries ds @ [(hdr, b)]) xs c'"
    and "unpack_entry (hdr, b) fs = Some fs'" and "hTypeflag hdr = TypeReg \<Longrightarrow> b \<in> snd ` R"
  shows "logged rcv ob0 E R c' fs'"
proof -
  obtain es where es: "rcv (tarAppender c) = archive E es" "unpack es Map.empty = Some fs" "obs_steps E ob0 es (casObserver c)"
    "reg_contents es \<subseteq> snd ` R"
    using assms(1) by (auto simp: logged_def)
  let ?es = "es @ dir_entries ds @ [(hdr, b)]"
  have "unpack ?es Map.empty = Some fs'" using es(2) assms(3) by (simp add: unpack_append del: unpack_entry.simps)
  moreover have "rcv (tarAppender c') = archive E ?es" using es(1) assms(2) by (simp add: wrote_def)
  moreover have "obs_steps E ob0 ?es (casObserver c')" using obs_steps_trans [OF es(3)] assms(2) by (simp add: wrote_def)
  moreover have "reg_contents ?es \<subseteq> snd ` R" using es(4) assms(4) by simp
  ultimately show ?thesis unfolding logged_def by blast
qed

text \<open>Writing an entry under a new name.\<close>

lemma layer_inv_wrote:
  assumes "layer_inv rcv ob0 E R c fs" and "wrote rcv E c (dir_entries ds @ [(hdr, b)]) xs c'"
    and "unpack_entry (hdr, b) fs = Some (fs(hName hdr \<mapsto> n))" and "hName hdr \<notin> used_names c fs"
    and "hTypeflag hdr = TypeReg \<Longrightarrow> b \<in> snd ` R"
  shows "layer_step rcv ob0 E R c fs {hName hdr} c' (fs(hName hdr \<mapsto> n))"
proof -
  let ?fs = "fs(hName hdr \<mapsto> n)"
  have le: "fs \<subseteq>\<^sub>m ?fs" using assms(4) by (auto simp: map_le_def used_names_def)
  have fr: "frame c c'" using assms(2) by (simp add: wrote_def)
  have "logged rcv ob0 E R c' ?fs"
    by (rule logged_wrote [OF _ assms(2,3,5)]) (use assms(1) in \<open>simp_all add: layer_inv_def\<close>)
  moreover have "firsts_ok E R c' ?fs"
    by (rule firsts_ok_mono [OF _ le]) (use assms(1) fr in \<open>simp_all add: layer_inv_def frame_def\<close>)
  ultimately have "layer_inv rcv ob0 E R c' ?fs"
    using assms(1,4) fr unfolding layer_inv_def frame_def deferred_names_def used_names_def by auto
  with fr le show ?thesis by (auto simp: layer_step_def frame_def used_names_def deferred_names_def)
qed

text \<open>Remembering the first occurrence of a content or of a node.\<close>

lemma layer_step_first_blob:
  assumes "layer_step rcv ob0 E R c fs ns c1 fs1" and "file_at fs1 p (blob_header p (int (length b))) b" and "b \<in> snd ` R"
  shows "layer_step rcv ob0 E R c fs ns (c1\<lparr>storedHashes := sh, firstBlobPaths := (firstBlobPaths c1)(hashFn E b \<mapsto> p),
    hashOrder := ho\<rparr>) fs1"
  using assms by (auto simp: layer_step_def layer_inv_def logged_def firsts_ok_def used_names_def deferred_names_def)

lemma layer_step_first_node:
  assumes "layer_step rcv ob0 E R c fs ns c1 fs1" and "file_at fs1 p h b" and "(h, b) \<in> R"
  shows "layer_step rcv ob0 E R c fs ns (c1\<lparr>storedNodes := sn, firstNodePaths := (firstNodePaths c1)(node_hash E h (hashFn E b) \<mapsto> p),
    nodeOrder := no\<rparr>) fs1"
  using assms by (auto simp: layer_step_def layer_inv_def logged_def firsts_ok_def used_names_def deferred_names_def)

lemma layer_step_note_dir: "layer_inv rcv ob0 E R (note_dir hdr c) fs = layer_inv rcv ob0 E R c fs"
  "used_names (note_dir hdr c) fs = used_names c fs" "deferredFiles (note_dir hdr c) = deferredFiles c"
  "casOptions (note_dir hdr c) = casOptions c" "casClosed (note_dir hdr c) = casClosed c"
  by (auto simp: note_dir_def layer_inv_def logged_def firsts_ok_def used_names_def deferred_names_def)

lemma layer_step_from_note_dir: "layer_step rcv ob0 E R (note_dir hdr c) fs ns c' fs' = layer_step rcv ob0 E R c fs ns c' fs'"
  by (simp add: layer_step_def layer_step_note_dir)

lemma callback_same: "run_header_callback hdr c = (c', Ok ()) \<Longrightarrow> c' = c"
  by (auto simp: run_header_callback_def split: option.splits if_splits)

context tar_appender
begin

lemma write_file:
  assumes "appendTar E = app" and "blocks E" and "faithful E hdr b d" and "hTypeflag hdr = TypeReg"
    and "writeHeaderAndData E hdr (b, e) d c = (c', Ok ())" and "layer_inv received ob0 E R c fs" and "hName hdr \<notin> used_names c fs"
    and "b \<in> snd ` R"
  shows "\<exists>fs'. layer_step received ob0 E R c fs {hName hdr} c' fs' \<and> fs' = fs(hName hdr \<mapsto> FileNode (node_header hdr) b)"
  using writeHeaderAndData_Ok [OF assms(1-3,5)] assms(4,6,7,8) layer_inv_wrote by fastforce

lemma write_other:
  assumes "appendTar E = app" and "blocks E" and "hTypeflag hdr \<noteq> TypeReg"
    and "writeHeaderAndData E hdr r d c = (c', Ok ())" and "layer_inv received ob0 E R c fs"
    and "hTypeflag hdr \<noteq> TypeDir \<Longrightarrow> hName hdr \<notin> used_names c fs"
    and "hTypeflag hdr = TypeLink \<Longrightarrow> fs (hLinkname hdr) = Some n"
  shows "\<exists>fs'. layer_step received ob0 E R c fs (if hTypeflag hdr = TypeDir then {} else {hName hdr}) c' fs' \<and>
    (hTypeflag hdr = TypeLink \<longrightarrow> fs' (hName hdr) = Some n)"
proof -
  have "faithful E hdr (fst r) d" using assms(3) by (simp add: faithful_def)
  from writeHeaderAndData_Ok [OF assms(1,2) this, of "snd r"] assms(4)
  obtain ds where w: "wrote received E c (dir_entries ds @ [(hdr, fst r)]) (set ds) c'" by auto
  show ?thesis
  proof (cases "hTypeflag hdr = TypeDir")
    case True
    have fr: "frame c c'" using w by (simp add: wrote_def)
    have "logged received ob0 E R c' fs"
      by (rule logged_wrote [OF _ w]) (use assms(3,5) True in \<open>simp_all add: layer_inv_def\<close>)
    then have "layer_inv received ob0 E R c' fs"
      using assms(5) fr firsts_ok_mono [OF _ map_le_refl, of E R c fs c']
      unfolding layer_inv_def frame_def deferred_names_def by auto
    with fr True show ?thesis by (intro exI [of _ fs]) (simp add: layer_step_def frame_def used_names_def deferred_names_def)
  next
    case False
    obtain m where "unpack_entry (hdr, fst r) fs = Some (fs(hName hdr \<mapsto> m))" "hTypeflag hdr = TypeLink \<Longrightarrow> m = n"
      using False assms(3,7) by (cases "hTypeflag hdr = TypeLink") auto
    with layer_inv_wrote [OF assms(5) w] assms(3) assms(6) [OF False] False show ?thesis
      by (intro exI [of _ "fs(hName hdr \<mapsto> m)"]) auto
  qed
qed

end

end
