(* ===== verification/Tarcas_Dedup.thy ===== *)
theory Tarcas_Dedup
  imports Tarcas_Layer
begin

text \<open>
  Every operation of the layer writer keeps the invariant of \<^verbatim>\<open>Tarcas_Layer\<close> and meets the requests it
  stands for; closing the layer turns the waiting links into files.
\<close>

section \<open>Storing and linking\<close>

lemma node_header_blob: "node_header (blob_header p n) = node_header (blob_header q n)"
  by (simp add: node_header_def blob_header_def)

lemma file_at_blob: "file_at fs p (blob_header q n) b = file_at fs p (blob_header r n) b"
  by (simp add: file_at_def node_header_blob [of q n r])

lemma blob_header_simps [simp]:
  "hName (blob_header p n) = p" "hSize (blob_header p n) = n" "hTypeflag (blob_header p n) = TypeReg"
  by (simp_all add: blob_header_def)

lemma link_header_simps [simp]:
  "hTypeflag (link_header hdr q) = TypeLink" "hName (link_header hdr q) = hName hdr" "hLinkname (link_header hdr q) = q"
  by (simp_all add: link_header_def)

lemma layer_inv_defer:
  assumes "layer_inv rcv ob0 E R c fs" and "hTypeflag hdr \<noteq> TypeReg" and "hTypeflag hdr = TypeLink \<Longrightarrow> hLinkname hdr \<in> dom fs"
    and "hTypeflag hdr \<noteq> TypeDir \<Longrightarrow> hName hdr \<notin> used_names c fs"
  shows "layer_step rcv ob0 E R c fs (if hTypeflag hdr = TypeDir then {} else {hName hdr})
    (c\<lparr>deferredFiles := deferredFiles c @ [hdr]\<rparr>) fs"
  using assms by (auto simp: layer_step_def layer_inv_def logged_def firsts_ok_def used_names_def deferred_names_def)

context tar_appender
begin

lemma put_header:
  assumes "appendTar E = app" and "blocks E" and "hTypeflag hdr \<noteq> TypeReg" and "fileStruct (casOptions c) \<noteq> CASOnly"
    and "writeHeaderOrDefer E hdr r d c = (c', Ok ())" and "layer_inv received ob0 E R c fs"
    and "hTypeflag hdr \<noteq> TypeDir \<Longrightarrow> hName hdr \<notin> used_names c fs"
    and "hTypeflag hdr = TypeLink \<Longrightarrow> fs (hLinkname hdr) = Some n"
  shows "\<exists>fs'. layer_step received ob0 E R c fs (if hTypeflag hdr = TypeDir then {} else {hName hdr}) c' fs' \<and>
    (hTypeflag hdr = TypeLink \<longrightarrow> fs' (hName hdr) = Some n \<or> hdr \<in> set (deferredFiles c'))"
proof (cases "fileStruct (casOptions c) = CASFirst \<and> \<not> casClosed c")
  case True
  let ?c = "note_dir hdr c"
  have c': "c' = ?c\<lparr>deferredFiles := deferredFiles ?c @ [hdr]\<rparr>"
    using assms(3,5) True by (simp add: writeHeaderOrDefer_def layer_step_note_dir)
  have "layer_step received ob0 E R ?c fs (if hTypeflag hdr = TypeDir then {} else {hName hdr}) c' fs"
    unfolding c' by (rule layer_inv_defer) (use assms(3,6-8) in \<open>auto simp: layer_step_note_dir\<close>)
  then show ?thesis unfolding layer_step_from_note_dir c' by auto
next
  case False
  then have "writeHeaderAndData E hdr r d (note_dir hdr c) = (c', Ok ())"
    using assms(3-5) by (auto simp: writeHeaderOrDefer_def layer_step_note_dir tbind_Ok split: if_splits dest!: callback_same)
  from write_other [OF assms(1-3) this, of ob0 R fs n] assms(6-8) show ?thesis
    by (auto simp: layer_step_note_dir layer_step_from_note_dir)
qed

lemma put_regular:
  assumes "appendTar E = app" and "blocks E" and "hTypeflag hdr = TypeReg" and "faithful E hdr b d"
    and "writeHeaderOrDefer E hdr (b, e) d c = (c', Ok ())" and "layer_inv received ob0 E R c fs" and "hName hdr \<notin> used_names c fs"
    and "b \<in> snd ` R"
  shows "\<exists>fs'. layer_step received ob0 E R c fs {hName hdr} c' fs' \<and> file_at fs' (hName hdr) hdr b"
proof -
  have "writeHeaderAndData E hdr (b, e) d c = (c', Ok ())"
    using assms(3,5) by (auto simp: writeHeaderOrDefer_def note_dir_def Let_def tbind_Ok dest!: callback_same)
  from write_file [OF assms(1,2,4,3) this assms(6-8)] show ?thesis by (auto simp: file_at_def)
qed

lemma store_blob:
  assumes "appendTar E = app" and "blocks E" and "no_collisions E R" and "b \<in> snd ` R"
    and "storeKnownHashAndSize E (b, e) (hashFn E b) (int (length b)) p c = (c', Ok q)"
    and "layer_inv received ob0 E R c fs" and "p \<notin> used_names c fs"
  shows "\<exists>fs'. layer_step received ob0 E R c fs {p} c' fs' \<and> file_at fs' q (blob_header p (int (length b))) b \<and>
    (q \<noteq> p \<longrightarrow> p \<notin> used_names c' fs')"
proof (cases "firstBlobPaths c (hashFn E b)")
  case None
  let ?h = "blob_header p (int (length b))"
  obtain c1 where w: "writeHeaderAndData E ?h (b, e) (Some (hashFn E b)) c = (c1, Ok ())" and "q = p"
    and c': "c' = c1\<lparr>storedHashes := insert (hashFn E b) (storedHashes c1),
      firstBlobPaths := (firstBlobPaths c1)(hashFn E b \<mapsto> p), hashOrder := hashOrder c1 @ [hashFn E b]\<rparr>"
    using assms(5) None by (auto simp: storeKnownHashAndSize_def tbind_Ok)
  have "faithful E ?h b (Some (hashFn E b))" by (simp add: faithful_def)
  from write_file [OF assms(1,2) this _ w assms(6)] assms(4,7) obtain fs' where
    s: "layer_step received ob0 E R c fs {p} c1 fs'" and f: "fs' = fs(p \<mapsto> FileNode (node_header ?h) b)" by auto
  have "file_at fs' p ?h b" by (simp add: f file_at_def)
  with layer_step_first_blob [OF s this assms(4)] \<open>q = p\<close> c' show ?thesis by blast
next
  case (Some p0)
  with assms(5) have "c' = c" "q = p0" by (auto simp: storeKnownHashAndSize_def)
  from Some assms(6) obtain a where "hashFn E b = hashFn E a" "a \<in> snd ` R" "file_at fs p0 (blob_header p0 (int (length a))) a"
    unfolding layer_inv_def firsts_ok_def by metis
  moreover from this have "a = b" using hash_inject [OF assms(3) _ assms(4)] by simp
  ultimately have "file_at fs q (blob_header p (int (length b))) b" 
    using \<open>q = p0\<close> file_at_blob [of fs p0 p0 "int (length b)" b p] by simp
  with assms(6,7) \<open>c' = c\<close> layer_step_refl show ?thesis by blast
qed

lemma store_node:
  assumes "appendTar E = app" and "blocks E" and "no_collisions E R" and "(hdr, b) \<in> R" and "hSize hdr = int (length b)"
    and "storeNodeKnownHash E (b, e) hdr (hashFn E b) c = (c', Ok q)"
    and "layer_inv received ob0 E R c fs" and "hName hdr \<notin> used_names c fs"
  shows "\<exists>fs'. layer_step received ob0 E R c fs {hName hdr} c' fs' \<and> file_at fs' q hdr b \<and>
    (q \<noteq> hName hdr \<longrightarrow> hName hdr \<notin> used_names c' fs')"
proof (cases "firstNodePaths c (node_hash E hdr (hashFn E b))")
  case None
  let ?h = "(node_header hdr)\<lparr>hName := hName hdr\<rparr>"
  obtain c1 where w: "writeHeaderAndData E ?h (b, e) (Some (hashFn E b)) c = (c1, Ok ())" and "q = hName hdr"
    and c': "c' = c1\<lparr>storedNodes := insert (node_hash E hdr (hashFn E b)) (storedNodes c1),
      firstNodePaths := (firstNodePaths c1)(node_hash E hdr (hashFn E b) \<mapsto> hName hdr),
      nodeOrder := nodeOrder c1 @ [node_hash E hdr (hashFn E b)]\<rparr>" and reg: "hTypeflag hdr = TypeReg"
    using assms(6) None by (auto simp: storeNodeKnownHash_def tbind_Ok Let_def split: if_splits)
  have bR: "b \<in> snd ` R" using assms(4) by force
  have "faithful E ?h b (Some (hashFn E b))" using assms(5) by (simp add: faithful_def)
  from write_file [OF assms(1,2) this _ w assms(7)] assms(8) bR reg obtain fs' where
    s: "layer_step received ob0 E R c fs {hName hdr} c1 fs'" and f: "fs' = fs(hName hdr \<mapsto> FileNode (node_header ?h) b)" by auto
  have "file_at fs' (hName hdr) hdr b" by (simp add: f file_at_def)
  with layer_step_first_node [OF s this assms(4)] \<open>q = hName hdr\<close> c' show ?thesis by blast
next
  case (Some p0)
  with assms(6) have "c' = c" "q = p0" by (auto simp: storeNodeKnownHash_def Let_def split: if_splits)
  from Some assms(7) obtain h a where n: "node_hash E hdr (hashFn E b) = node_hash E h (hashFn E a)" "(h, a) \<in> R" "file_at fs p0 h a"
    unfolding layer_inv_def firsts_ok_def by metis
  from node_hash_inject [OF assms(3,4) n(2,1)] have "same_metadata (node_header hdr) (node_header h)" "b = a" by blast+
  with n(3) have "file_at fs p0 hdr b" by (auto simp: file_at_def intro: same_metadata_trans same_metadata_sym)
  with assms(7,8) \<open>c' = c\<close> \<open>q = p0\<close> layer_step_refl show ?thesis by blast
qed

lemma link_file:
  assumes "appendTar E = app" and "blocks E" and "fileStruct (casOptions c) \<noteq> CASOnly" and "link_to E hdr q c = (c', Ok ())"
    and "layer_inv received ob0 E R c fs" and "file_at fs q hdr b" and "q \<noteq> hName hdr \<Longrightarrow> hName hdr \<notin> used_names c fs"
  shows "\<exists>fs'. layer_step received ob0 E R c fs {hName hdr} c' fs' \<and> met c' fs' (hdr, b)"
proof (cases "q = hName hdr")
  case True
  with assms(4) have "c' = c" by (simp add: link_to_def tret_def)
  with True assms(5,6) show ?thesis by (auto simp: met_def intro: layer_step_refl)
next
  case False
  obtain m where m: "fs q = Some (FileNode m b)" "same_metadata m (node_header hdr)" using assms(6) by (auto simp: file_at_def)
  have "writeHeaderOrDefer E (link_header hdr q) nil_reader None c = (c', Ok ())"
    using assms(4) False by (simp add: link_to_def)
  from put_header [OF assms(1,2) _ assms(3) this assms(5), of "FileNode m b"] assms(7) [OF False] m(1)
  obtain fs' where s: "layer_step received ob0 E R c fs {hName hdr} c' fs'"
    and o: "fs' (hName hdr) = Some (FileNode m b) \<or> link_header hdr q \<in> set (deferredFiles c')" by auto
  from s have le: "fs \<subseteq>\<^sub>m fs'" by (simp add: layer_step_def)
  from o show ?thesis
  proof
    assume "fs' (hName hdr) = Some (FileNode m b)"
    with m(2) s show ?thesis by (auto simp: met_def file_at_def)
  next
    assume "link_header hdr q \<in> set (deferredFiles c')"
    with file_at_mono [OF assms(6) le] s show ?thesis by (auto simp: met_def intro!: bexI [of _ "link_header hdr q"] exI [of _ fs'])
  qed
qed

end

section \<open>The operations\<close>

context tar_appender
begin

lemma op_dedup:
  assumes "appendTar E = app" and "blocks E" and "no_collisions E R" and "(hdr, b) \<in> R" and "hSize hdr = int (length b)"
    and "fileStruct (casOptions c) \<noteq> CASOnly"
    and "tbind (if isBlobTarHeader hdr then storeKnownHashAndSize E (b, e) (hashFn E b) (int (length b)) (hName hdr)
       else storeNodeKnownHash E (b, e) hdr (hashFn E b)) (link_to E hdr) c = (c', Ok ())"
    and "layer_inv received ob0 E R c fs" and "hName hdr \<notin> used_names c fs"
  shows "\<exists>fs'. layer_step received ob0 E R c fs {hName hdr} c' fs' \<and> met c' fs' (hdr, b)"
proof -
  obtain c1 q where st: "(if isBlobTarHeader hdr then storeKnownHashAndSize E (b, e) (hashFn E b) (int (length b)) (hName hdr)
       else storeNodeKnownHash E (b, e) hdr (hashFn E b)) c = (c1, Ok q)" and lk: "link_to E hdr q c1 = (c', Ok ())"
    using assms(7) by (auto simp: tbind_Ok)
  have "\<exists>fs1. layer_step received ob0 E R c fs {hName hdr} c1 fs1 \<and> file_at fs1 q hdr b \<and>
      (q \<noteq> hName hdr \<longrightarrow> hName hdr \<notin> used_names c1 fs1)"
  proof (cases "isBlobTarHeader hdr")
    case True
    have "b \<in> snd ` R" using assms(4) by force
    from store_blob [OF assms(1-3) this _ assms(8,9), of e c1 q] st True
      blob_metadata [OF True assms(5), of "hName hdr"] show ?thesis by (auto simp: file_at_def)
  next
    case False
    with store_node [OF assms(1-5) _ assms(8,9), of e c1 q] st show ?thesis by simp
  qed
  then obtain fs1 where s1: "layer_step received ob0 E R c fs {hName hdr} c1 fs1" and f: "file_at fs1 q hdr b"
    "q \<noteq> hName hdr \<Longrightarrow> hName hdr \<notin> used_names c1 fs1" by blast
  have "layer_inv received ob0 E R c1 fs1" "fileStruct (casOptions c1) \<noteq> CASOnly"
    using s1 assms(6) by (simp_all add: layer_step_def)
  from link_file [OF assms(1,2) this(2) lk this(1) f] obtain fs' where
    "layer_step received ob0 E R c1 fs1 {hName hdr} c' fs'" "met c' fs' (hdr, b)" by blast
  with layer_step_trans [OF s1] show ?thesis by force
qed

lemma op_visit:
  assumes "appendTar E = app" and "blocks E" and "no_collisions E R" and "set (visit_requests base v) \<subseteq> R"
    and "fileStruct (casOptions c) \<noteq> CASOnly" and "store_visit E base v c = (c', Ok ())" and "layer_inv received ob0 E R c fs"
    and "\<forall>x \<in> set (visit_requests base v). hName (fst x) \<notin> used_names c fs"
  shows "\<exists>fs'. layer_step received ob0 E R c fs (hName ` fst ` set (visit_requests base v)) c' fs' \<and>
    (\<forall>x \<in> set (visit_requests base v). met c' fs' x)"
proof (cases "visit_requests base v = []")
  case True
  then have "c' = c" using assms(6)
    by (auto simp: visit_requests_def store_visit_def terr_def tret_def split: if_splits sum.splits option.splits)
  with True assms(7) show ?thesis by (auto intro: layer_step_refl)
next
  case False
  define p where "p = path_Join_all [base, wPath v]"
  from False assms(6) obtain b q c1 where reg: "wRegular v" and op: "wOpen v = Inr (b, None)"
    and st: "storeKnownHashAndSize E (b, None) (hashFn E b) (int (length b)) p c = (c1, Ok q)"
    and lk: "(if q = p then tret () else writeHeaderAndData E
        (zero_header\<lparr>hTypeflag := TypeLink, hName := p, hLinkname := q, hMode := 493\<rparr>) nil_reader None) c1 = (c', Ok ())"
    by (auto simp: visit_requests_def store_visit_def Store_cas_def StoreKnownHashAndSize_def Let_def tbind_Ok p_def terr_def tret_def
        split: if_splits sum.splits option.splits prod.splits)
  let ?h = "blob_header p (int (length b))"
  have rq: "visit_requests base v = [(?h, b)]" using reg op by (simp add: visit_requests_def p_def)
  with assms(4,8) have bR: "b \<in> snd ` R" and fresh: "p \<notin> used_names c fs" by force+
  from store_blob [OF assms(1-3) bR st assms(7) fresh] obtain fs1 where
    s1: "layer_step received ob0 E R c fs {p} c1 fs1" and f1: "file_at fs1 q ?h b" and fr: "q \<noteq> p \<longrightarrow> p \<notin> used_names c1 fs1"
    by blast
  show ?thesis
  proof (cases "q = p")
    case True
    with lk s1 f1 rq show ?thesis by (intro exI [of _ fs1]) (auto simp: tret_def met_def)
  next
    case False
    obtain m where m: "fs1 q = Some (FileNode m b)" "same_metadata m (node_header ?h)" using f1 by (auto simp: file_at_def)
    let ?l = "zero_header\<lparr>hTypeflag := TypeLink, hName := p, hLinkname := q, hMode := 493\<rparr>"
    have "writeHeaderAndData E ?l nil_reader None c1 = (c', Ok ())" using lk False by simp
    from write_other [OF assms(1,2) _ this, of ob0 R fs1 "FileNode m b"] s1 fr False m(1)
    obtain fs' where s2: "layer_step received ob0 E R c1 fs1 {p} c' fs'" "fs' p = Some (FileNode m b)"
      by (auto simp: layer_step_def)
    with m(2) rq layer_step_trans [OF s1 s2(1)] show ?thesis by (auto simp: met_def file_at_def)
  qed
qed

lemma op_visits:
  assumes "appendTar E = app" and "blocks E" and "no_collisions E R"
  shows "set (concat (map (visit_requests base) vs)) \<subseteq> R \<Longrightarrow> fileStruct (casOptions c) \<noteq> CASOnly \<Longrightarrow>
    store_visits E base vs c = (c', Ok ()) \<Longrightarrow> layer_inv received ob0 E R c fs \<Longrightarrow>
    distinct (map (hName \<circ> fst) (concat (map (visit_requests base) vs))) \<Longrightarrow>
    \<forall>x \<in> set (concat (map (visit_requests base) vs)). hName (fst x) \<notin> used_names c fs \<Longrightarrow>
    \<exists>fs'. layer_step received ob0 E R c fs (hName ` fst ` set (concat (map (visit_requests base) vs))) c' fs' \<and>
      (\<forall>x \<in> set (concat (map (visit_requests base) vs)). met c' fs' x)"
proof (induction vs arbitrary: c fs)
  case Nil
  then show ?case by (auto intro: layer_step_refl)
next
  case (Cons v vs)
  let ?rest = "concat (map (visit_requests base) vs)"
  obtain c1 where v: "store_visit E base v c = (c1, Ok ())" and vs: "store_visits E base vs c1 = (c', Ok ())"
    using Cons.prems(3) by (auto simp: tbind_Ok)
  have "set (visit_requests base v) \<subseteq> R" "\<forall>x \<in> set (visit_requests base v). hName (fst x) \<notin> used_names c fs"
    using Cons.prems(1,6) by auto
  from op_visit [OF assms this(1) Cons.prems(2) v Cons.prems(4) this(2)] obtain fs1 where
    s1: "layer_step received ob0 E R c fs (hName ` fst ` set (visit_requests base v)) c1 fs1"
    and m1: "\<forall>x \<in> set (visit_requests base v). met c1 fs1 x" by blast
  have "\<forall>x \<in> set ?rest. hName (fst x) \<notin> used_names c1 fs1"
  proof
    fix x assume "x \<in> set ?rest"
    then have "hName (fst x) \<notin> hName ` fst ` set (visit_requests base v)" "hName (fst x) \<notin> used_names c fs"
      using Cons.prems(5,6) by (force simp: image_image)+
    then show "hName (fst x) \<notin> used_names c1 fs1" by (rule layer_stepD(4) [OF s1, rotated])
  qed
  moreover have "set ?rest \<subseteq> R" "distinct (map (hName \<circ> fst) ?rest)" using Cons.prems(1,5) by (simp_all add: comp_def)
  ultimately obtain fs2 where
    s2: "layer_step received ob0 E R c1 fs1 (hName ` fst ` set ?rest) c' fs2" and m2: "\<forall>x \<in> set ?rest. met c' fs2 x"
    using Cons.IH [of c1 fs1] Cons.prems(2) vs layer_stepD(1,2) [OF s1] by metis
  have "layer_step received ob0 E R c fs (hName ` fst ` set (concat (map (visit_requests base) (v # vs)))) c' fs2"
    by (rule layer_step_mono [OF layer_step_trans [OF s1 s2]]) auto
  moreover have "\<forall>x \<in> set (visit_requests base v). met c' fs2 x" using met_step [OF _ s2] m1 by blast
  ultimately show ?case using m2 by (intro exI [of _ fs2]) auto
qed

lemma op_tree:
  assumes "appendTar E = app" and "blocks E" and "no_collisions E R"
    and "set (requests E (OpTree t p)) \<subseteq> R" and "fileStruct (casOptions c) \<noteq> CASOnly" "\<not> deduplicateTreeArtifacts (casOptions c)"
    and "StoreTree E t p c = (c', Ok q)" and "layer_inv received ob0 E R c fs"
    and "distinct (op_names E (OpTree t p))" "set (op_names E (OpTree t p)) \<inter> used_names c fs = {}"
  shows "\<exists>fs'. layer_step received ob0 E R c fs (set (op_names E (OpTree t p))) c' fs' \<and>
    (\<forall>x \<in> set (requests E (OpTree t p)). met c' fs' x)"
proof -
  obtain th where th: "store_tree E t p th c = (c', Ok q)"
    using assms(6,7) by (auto simp: StoreTree_def StoreTreeKnownHash_def terr_def split: sum.splits option.splits)
  then obtain c1 c2 where d: "writeHeaderAndData E (dir_header (p @ ''/'')) nil_reader None c = (c1, Ok ())"
    and v: "store_visits E p (treeWalk t) c1 = (c2, Ok ())"
    and c': "c' = c2\<lparr>storedTrees := insert th (storedTrees c2), firstTreePaths := (firstTreePaths c2)(th \<mapsto> p),
      treeOrder := treeOrder c2 @ [th]\<rparr>"
    by (auto simp: store_tree_def tbind_Ok)
  from write_other [OF assms(1,2) _ d assms(8)] obtain fs1 where s1: "layer_step received ob0 E R c fs {} c1 fs1" by auto
  have fresh: "\<forall>x \<in> set (requests E (OpTree t p)). hName (fst x) \<notin> used_names c1 fs1"
    using layer_stepD(4) [OF s1] assms(10) by fastforce
  have rq: "requests E (OpTree t p) = concat (map (visit_requests p) (treeWalk t))" by simp
  have "distinct (map (hName \<circ> fst) (requests E (OpTree t p)))" using assms(9) by simp
  from op_visits [OF assms(1-3) assms(4) [unfolded rq] _ v layer_stepD(1) [OF s1] this [unfolded rq] fresh [unfolded rq]]
  obtain fs2 where s2: "layer_step received ob0 E R c1 fs1 (hName ` fst ` set (requests E (OpTree t p))) c2 fs2"
    and m2: "\<forall>x \<in> set (requests E (OpTree t p)). met c2 fs2 x"
    unfolding rq using assms(5) layer_stepD(2) [OF s1] by metis
  have "layer_step received ob0 E R c fs (set (op_names E (OpTree t p))) c2 fs2"
    by (rule layer_step_mono [OF layer_step_trans [OF s1 s2]]) auto
  then have "layer_step received ob0 E R c fs (set (op_names E (OpTree t p))) c' fs2"
    by (auto simp: c' layer_step_def layer_inv_def logged_def firsts_ok_def used_names_def deferred_names_def)
  moreover have "\<forall>x \<in> set (requests E (OpTree t p)). met c' fs2 x" using m2 by (auto simp: c' met_def)
  ultimately show ?thesis by blast
qed

text \<open>The hypotheses on the environment, the options and the requests, which no operation changes.\<close>

definition layer_env :: "'a tarLib \<Rightarrow> entry set \<Rightarrow> tarOptions \<Rightarrow> bool" where
  "layer_env E R opts \<longleftrightarrow> appendTar E = app \<and> blocks E \<and> no_collisions E R \<and> digestfs_ok E \<and>
     fileStruct opts \<noteq> CASOnly \<and> \<not> deduplicateTreeArtifacts opts"

lemma op_regular:
  assumes "layer_env E R (casOptions c)" and "hSize hdr = int (length b)" and "hTypeflag hdr = TypeReg"
    and "writeHeaderOrDefer E hdr (b, e) None c = (c', Ok ())" and "layer_inv received ob0 E R c fs" and "hName hdr \<notin> used_names c fs"
    and "b \<in> snd ` R"
  shows "\<exists>fs'. layer_step received ob0 E R c fs {hName hdr} c' fs' \<and> met c' fs' (hdr, b)"
proof -
  have "appendTar E = app" "blocks E" using assms(1) by (simp_all add: layer_env_def)
  moreover have "faithful E hdr b None" using assms(2) by (simp add: faithful_def)
  ultimately show ?thesis using put_regular [OF _ _ assms(3) _ assms(4-7)] by (auto simp: met_def)
qed

lemma op_step:
  assumes "layer_env E R (casOptions c)" and "op_ok E p" and "layer_op E p c = (c', Ok ())"
    and "set (requests E p) \<subseteq> R" and "layer_inv received ob0 E R c fs"
    and "distinct (op_names E p)" and "set (op_names E p) \<inter> used_names c fs = {}"
  shows "\<exists>fs'. layer_step received ob0 E R c fs (set (op_names E p)) c' fs' \<and> (\<forall>x \<in> set (requests E p). met c' fs' x)"
proof -
  have env: "appendTar E = app" "blocks E" "no_collisions E R" "fileStruct (casOptions c) \<noteq> CASOnly" "digestfs_ok E"
    "\<not> deduplicateTreeArtifacts (casOptions c)"
    using assms(1) by (simp_all add: layer_env_def)
  show ?thesis
  proof (cases p)
    case (OpHeader hdr)
    then have "hTypeflag hdr \<noteq> TypeReg" "writeHeaderOrDefer E hdr nil_reader None c = (c', Ok ())"
      using assms(3) by (auto simp: cas_WriteHeader_def terr_def split: if_splits)
    from put_header [OF env(1,2) this(1) env(4) this(2) assms(5)] assms(2,7) OpHeader
    show ?thesis by (auto split: if_splits)
  next
    case (OpRegular hdr r)
    then have "hTypeflag hdr = TypeReg" "writeHeaderOrDefer E hdr (fst r, snd r) None c = (c', Ok ())"
      using assms(3) by (auto simp: WriteRegular_def terr_def split: if_splits)
    from op_regular [OF assms(1) _ this assms(5)] assms(2,4,7) OpRegular show ?thesis by force
  next
    case (OpRegularDedup hdr r)
    obtain b where r: "r = (b, None)" and sz: "hSize hdr = int (length b)"
      and st: "tbind (if isBlobTarHeader hdr then storeKnownHashAndSize E (b, None) (hashFn E b) (int (length b)) (hName hdr)
         else storeNodeKnownHash E (b, None) hdr (hashFn E b)) (link_to E hdr) c = (c', Ok ())"
      using assms(3) OpRegularDedup
      by (cases r; cases "snd r")
        (auto simp: WriteRegularDeduplicated_def Store_cas_def StoreNode_def StoreKnownHashAndSize_def StoreNodeKnownHash_def tbind_Ok terr_def tret_def split: if_splits)
    from op_dedup [OF env(1-3) _ sz env(4) st assms(5)] assms(4,7) OpRegularDedup r show ?thesis by auto
  next
    case (OpPath hdr f)
    then obtain df where df: "openFile E f = Inr df" "hTypeflag hdr = TypeReg"
      "writeHeaderOrDefer E hdr (fst (dfContent df), snd (dfContent df)) None c = (c', Ok ())"
      using assms(3) by (auto simp: WriteRegularFromPath_def with_file_def terr_def split: if_splits sum.splits)
    from op_regular [OF assms(1) _ df(2,3) assms(5)] assms(2,4,7) OpPath df(1) show ?thesis by force
  next
    case (OpPathDedup hdr f)
    then obtain df h where df: "openFile E f = Inr df" "dfDigest df = Inr h" "dfSize df = hSize hdr"
      and st: "tbind (if isBlobTarHeader hdr then storeKnownHashAndSize E (dfContent df) h (dfSize df) (hName hdr)
         else storeNodeKnownHash E (dfContent df) hdr h) (link_to E hdr) c = (c', Ok ())"
      using assms(3) by (auto simp: WriteRegularFromPathDeduplicated_def with_digest_def with_file_def terr_def split: if_splits sum.splits)
    obtain b e where b: "dfContent df = (b, e)" by (cases "dfContent df")
    have "h = hashFn E b \<and> dfSize df = int (length b)" using env(5) df(1,2) b unfolding digestfs_ok_def by (metis fst_conv)
    then have hh: "h = hashFn E b" "dfSize df = int (length b)" by blast+
    have sz: "hSize hdr = int (length b)" using df(3) hh(2) by simp
    from op_dedup [OF env(1-3) _ sz env(4) st [unfolded b hh] assms(5)] df(1) b assms(4,7) OpPathDedup show ?thesis by auto
  next
    case (OpTree t f)
    then obtain q where "StoreTree E t f c = (c', Ok q)" using assms(3) by (auto simp: tbind_Ok tret_def)
    from op_tree [OF env(1-3) _ env(4,6) this assms(5)] assms(4,6,7) OpTree show ?thesis by auto
  qed
qed

end

end
