(* ===== verification/Tarcas_Props.thy ===== *)
theory Tarcas_Props
  imports Tarcas_Dedup
begin

text \<open>
  The properties of whole layers: what extraction finds, the compact stream written beside the
  archive, the directories, and the hashes exported.
\<close>

section \<open>Running the operations\<close>

lemma layer_ops_Cons: "layer_ops E (p # ps) c = (c', Ok ()) \<longleftrightarrow>
    (\<exists>c1. layer_op E p c = (c1, Ok ()) \<and> layer_ops E ps c1 = (c', Ok ()))"
  by (auto simp: tbind_Ok)

context tar_appender
begin

lemma ops_steps:
  "layer_env E R (casOptions c) \<Longrightarrow> \<forall>p \<in> set ops. op_ok E p \<and> set (requests E p) \<subseteq> R \<Longrightarrow>
   layer_ops E ops c = (c', Ok ()) \<Longrightarrow> layer_inv received ob0 E R c fs \<Longrightarrow>
   distinct (concat (map (op_names E) ops)) \<Longrightarrow> set (concat (map (op_names E) ops)) \<inter> used_names c fs = {} \<Longrightarrow>
   \<exists>fs'. layer_step received ob0 E R c fs (set (concat (map (op_names E) ops))) c' fs' \<and>
     (\<forall>p \<in> set ops. \<forall>x \<in> set (requests E p). met c' fs' x)"
proof (induction ops arbitrary: c fs)
  case Nil
  then show ?case by (auto intro: layer_step_refl)
next
  case (Cons p ops)
  let ?rest = "set (concat (map (op_names E) ops))"
  obtain c1 where p: "layer_op E p c = (c1, Ok ())" and ops: "layer_ops E ops c1 = (c', Ok ())"
    using Cons.prems(3) unfolding layer_ops_Cons by blast
  have "op_ok E p" "set (requests E p) \<subseteq> R" "distinct (op_names E p)" "set (op_names E p) \<inter> used_names c fs = {}"
    using Cons.prems(2,5,6) by auto
  from op_step [OF Cons.prems(1) this(1) p this(2) Cons.prems(4) this(3,4)] obtain fs1 where
    s1: "layer_step received ob0 E R c fs (set (op_names E p)) c1 fs1" and m1: "\<forall>x \<in> set (requests E p). met c1 fs1 x" by blast
  have "?rest \<inter> used_names c1 fs1 = {}"
    using layer_stepD(4) [OF s1] Cons.prems(5,6) by auto
  moreover have "distinct (concat (map (op_names E) ops))" using Cons.prems(5) by simp
  ultimately obtain fs2 where s2: "layer_step received ob0 E R c1 fs1 ?rest c' fs2"
    and m2: "\<forall>q \<in> set ops. \<forall>x \<in> set (requests E q). met c' fs2 x"
    using Cons.IH [of c1 fs1] Cons.prems(1,2) ops layer_stepD(1,2) [OF s1] by (metis list.set_intros(2))
  have "layer_step received ob0 E R c fs (set (concat (map (op_names E) (p # ops)))) c' fs2"
    by (rule layer_step_mono [OF layer_step_trans [OF s1 s2]]) simp
  moreover have "\<forall>x \<in> set (requests E p). met c' fs2 x" using met_step [OF _ s2] m1 by blast
  ultimately show ?case using m2 by auto
qed

section \<open>Closing\<close>

lemma put_closed:
  assumes "appendTar E = app" and "blocks E" and "fileStruct (casOptions c) \<noteq> CASOnly" and "casClosed c" and "hTypeflag h \<noteq> TypeReg"
    and "writeHeaderOrDefer E h nil_reader None c = (c', Ok ())"
  shows "\<exists>ds xs. wrote received E (note_dir h c) (dir_entries ds @ [(h, [])]) xs c' \<and> casOptions c' = casOptions c \<and> casClosed c'"
proof -
  have w: "writeHeaderAndData E h ([], None) None (note_dir h c) = (c', Ok ())"
    using assms(3-6) by (auto simp: writeHeaderOrDefer_def nil_reader_def layer_step_note_dir tbind_Ok split: if_splits dest!: callback_same)
  have "faithful E h [] None" using assms(5) by (simp add: faithful_def)
  from writeHeaderAndData_Ok [OF assms(1,2) this w] assms(4) show ?thesis
    by (auto simp: wrote_def frame_def layer_step_note_dir)
qed

lemma write_deferred_Ok:
  assumes "appendTar E = app" and "blocks E"
  shows "write_deferred E hs c = (c', Ok ()) \<Longrightarrow> fileStruct (casOptions c) \<noteq> CASOnly \<Longrightarrow> casClosed c \<Longrightarrow>
    logged received ob0 E R c fs \<Longrightarrow>
    \<forall>h \<in> set hs. hTypeflag h \<noteq> TypeReg \<and> (hTypeflag h = TypeLink \<longrightarrow> hLinkname h \<in> dom fs) \<Longrightarrow>
    distinct (map hName (filter (\<lambda>h. hTypeflag h \<noteq> TypeDir) hs)) \<Longrightarrow>
    set (map hName (filter (\<lambda>h. hTypeflag h \<noteq> TypeDir) hs)) \<inter> dom fs = {} \<Longrightarrow>
    \<exists>fs'. logged received ob0 E R c' fs' \<and> fs \<subseteq>\<^sub>m fs' \<and>
      (\<forall>h \<in> set hs. hTypeflag h = TypeLink \<longrightarrow> fs' (hName h) = fs (hLinkname h))"
proof (induction hs arbitrary: c fs)
  case Nil
  then show ?case by auto
next
  case (Cons h hs)
  obtain c1 where w: "writeHeaderOrDefer E h nil_reader None c = (c1, Ok ())" and rec: "write_deferred E hs c1 = (c', Ok ())"
    using Cons.prems(1) by (auto simp: tbind_Ok)
  have reg: "hTypeflag h \<noteq> TypeReg" using Cons.prems(5) by simp
  from put_closed [OF assms Cons.prems(2,3) this w] obtain ds xs where
    wr: "wrote received E (note_dir h c) (dir_entries ds @ [(h, [])]) xs c1" and
    o1: "fileStruct (casOptions c1) \<noteq> CASOnly" "casClosed c1" using Cons.prems(2) by auto
  define fs1 where "fs1 = (if hTypeflag h = TypeDir then fs else if hTypeflag h = TypeLink
    then fs(hName h := fs (hLinkname h)) else fs(hName h \<mapsto> Special h))"
  have u1: "unpack_entry (h, []) fs = Some fs1" using Cons.prems(5) by (auto simp: fs1_def dom_def)
  have l1: "logged received ob0 E R c1 fs1"
    by (rule logged_wrote [OF _ wr u1]) (use Cons.prems(4) reg in \<open>auto simp: logged_def note_dir_def\<close>)
  have fresh: "hTypeflag h \<noteq> TypeDir \<Longrightarrow> hName h \<notin> dom fs" using Cons.prems(7) by auto
  have le: "fs \<subseteq>\<^sub>m fs1" using fresh by (auto simp: fs1_def map_le_def)
  have dm: "dom fs1 \<subseteq> dom fs \<union> (if hTypeflag h = TypeDir then {} else {hName h})" by (auto simp: fs1_def split: if_splits)
  have dl: "dom fs \<subseteq> dom fs1" using le by (rule map_le_implies_dom_le)
  have "\<forall>g \<in> set hs. hTypeflag g \<noteq> TypeReg \<and> (hTypeflag g = TypeLink \<longrightarrow> hLinkname g \<in> dom fs1)"
    using Cons.prems(5) dl by (meson list.set_intros(2) subsetD)
  moreover have "distinct (map hName (filter (\<lambda>h. hTypeflag h \<noteq> TypeDir) hs))" using Cons.prems(6) by (auto split: if_splits)
  moreover have "set (map hName (filter (\<lambda>h. hTypeflag h \<noteq> TypeDir) hs)) \<inter> dom fs1 = {}"
  proof -
    define N where "N = set (map hName (filter (\<lambda>h. hTypeflag h \<noteq> TypeDir) hs))"
    have "N \<inter> dom fs = {}" "hTypeflag h \<noteq> TypeDir \<longrightarrow> hName h \<notin> N"
      using Cons.prems(6,7) by (auto simp: N_def split: if_splits)
    then have "N \<inter> (dom fs \<union> (if hTypeflag h = TypeDir then {} else {hName h})) = {}" by (simp add: Int_Un_distrib)
    with dm have "N \<inter> dom fs1 = {}" by blast
    then show ?thesis by (simp only: N_def)
  qed
  ultimately obtain fs' where I: "logged received ob0 E R c' fs'" "fs1 \<subseteq>\<^sub>m fs'"
    "\<forall>g \<in> set hs. hTypeflag g = TypeLink \<longrightarrow> fs' (hName g) = fs1 (hLinkname g)"
    using Cons.IH [OF rec o1 l1] by blast
  have "fs' (hName g) = fs (hLinkname g)" if "g \<in> set hs" "hTypeflag g = TypeLink" for g
    using I(3) that le Cons.prems(5) by (auto simp: map_le_def)
  moreover have "fs' (hName h) = fs (hLinkname h)" if lnk: "hTypeflag h = TypeLink"
  proof -
    obtain n where n: "fs (hLinkname h) = Some n" using lnk Cons.prems(5) by auto
    then have "fs1 (hName h) = Some n" using lnk by (simp add: fs1_def)
    with I(2) n show ?thesis by (metis domI map_le_def)
  qed
  ultimately show ?case using I(1) map_le_trans [OF le I(2)] by auto
qed

lemma layer_extracts:
  assumes "layer_env E R (casOptions c)" and "\<forall>p \<in> set ops. op_ok E p \<and> set (requests E p) \<subseteq> R"
    and "run_layer E ops c = (c', Ok ())" and "layer_inv received ob0 E R c fs" and "\<not> casClosed c"
    and "distinct (concat (map (op_names E) ops))" and "set (concat (map (op_names E) ops)) \<inter> used_names c fs = {}"
  shows "\<exists>fs'. logged received ob0 E R c' fs' \<and>
    (\<forall>p \<in> set ops. \<forall>(hdr, b) \<in> set (requests E p). file_at fs' (hName hdr) hdr b)"
proof -
  obtain c1 where r: "layer_ops E ops c = (c1, Ok ())" and cl: "cas_Close E c1 = (c', Ok ())"
    using assms(3) by (auto simp: run_layer_def tbind_Ok)
  from ops_steps [OF assms(1,2) r assms(4,6,7)] obtain fs1 where
    s: "layer_step received ob0 E R c fs (set (concat (map (op_names E) ops))) c1 fs1"
    and m: "\<forall>p \<in> set ops. \<forall>x \<in> set (requests E p). met c1 fs1 x" by blast
  note inv = layer_stepD(1) [OF s]
  have wd: "write_deferred E (deferredFiles c1) (c1\<lparr>casClosed := True\<rparr>) = (c', Ok ())"
    using cl layer_stepD(3) [OF s] assms(5) by (simp add: cas_Close_def)
  have env: "appendTar E = app" "blocks E" "fileStruct (casOptions c1) \<noteq> CASOnly"
    using assms(1) layer_stepD(2) [OF s] by (simp_all add: layer_env_def)
  have "logged received ob0 E R (c1\<lparr>casClosed := True\<rparr>) fs1" using inv by (simp add: layer_inv_def logged_def)
  from write_deferred_Ok [OF env(1,2) wd _ _ this] inv env(3)
  obtain fs' where f: "logged received ob0 E R c' fs'" "fs1 \<subseteq>\<^sub>m fs'"
    "\<forall>h \<in> set (deferredFiles c1). hTypeflag h = TypeLink \<longrightarrow> fs' (hName h) = fs1 (hLinkname h)"
    by (auto simp: layer_inv_def deferred_names_def)
  have "file_at fs' (hName hdr) hdr b" if "met c1 fs1 (hdr, b)" for hdr b
    using that f(2,3) by (auto simp: met_def intro: file_at_mono) (auto simp: file_at_def)
  with m f(1) show ?thesis by fastforce
qed

end

section \<open>Deduplication is invisible\<close>

lemma layer_inv_New:
  assumes "rcv a = []"
  shows "layer_inv rcv (casObserver (New_cas a opts)) E R (New_cas a opts) Map.empty" "\<not> casClosed (New_cas a opts)"
    "used_names (New_cas a opts) Map.empty = {}"
  using assms
  by (auto simp: layer_inv_def New_cas_def Let_def firsts_ok_def logged_def obs_steps_refl deferred_names_def used_names_def
      intro!: exI [of _ "[]"])

text \<open>What the two theorems on whole layers assume.\<close>

definition layer_run :: "'c appender tarLib \<Rightarrow> 'c compressLib \<Rightarrow> layerOp list \<Rightarrow> 'c appender cas \<Rightarrow> 'c appender cas \<Rightarrow> bool" where
  "layer_run E L ops c c' \<longleftrightarrow>
     appendTar E = tar_AppendTar L \<and> blocks E \<and> digestfs_ok E \<and> no_collisions E (\<Union>p \<in> set ops. set (requests E p)) \<and>
     (\<exists>copts a opts. New_appender L copts = Inr a \<and> c = New_cas a opts) \<and>
     fileStruct (casOptions c) \<noteq> CASOnly \<and> \<not> deduplicateTreeArtifacts (casOptions c) \<and>
     list_all (op_ok E) ops \<and> distinct (concat (map (op_names E) ops)) \<and> run_layer E ops c = (c', Ok ())"

lemma layer_run_logged:
  assumes "layer_run E L ops c c'" and "R = (\<Union>p \<in> set ops. set (requests E p))"
  shows "\<exists>fs. logged contentHash (casObserver c) E R c' fs \<and> (\<forall>(hdr, b) \<in> R. file_at fs (hName hdr) hdr b)"
proof -
  obtain copts a opts where a: "New_appender L copts = Inr a" "c = New_cas a opts"
    using assms(1) by (auto simp: layer_run_def)
  have "contentHash a = []" using a(1) by (auto simp: New_appender_def split: sum.splits)
  note inv = layer_inv_New [where rcv = contentHash and opts = opts, OF this, folded a(2)]
  have env: "pipe.layer_env L E R (casOptions c)"
    using assms by (simp add: pipe.layer_env_def layer_run_def)
  have ok: "\<forall>p \<in> set ops. op_ok E p \<and> set (requests E p) \<subseteq> R"
    and run: "run_layer E ops c = (c', Ok ())" and dist: "distinct (concat (map (op_names E) ops))"
    using assms by (auto simp: layer_run_def list_all_iff)
  from pipe.layer_extracts [OF env ok run inv(1,2) dist] inv(3) assms(2) show ?thesis by fastforce
qed

text \<open>
  C1. A layer holds what was asked for: files are written through the compressing appender by any mix
  of the writing operations, deduplicated or not, from readers, from paths and from trees, under
  distinct names.  If every call and the final close succeed, the archive the appender received
  unpacks without a dangling hard link, and every requested file is found under its name with exactly
  its content and its metadata, whether it was stored or became a hard link to an earlier file.
\<close>

theorem layer_holds_requests:
  assumes "layer_run E L ops c c'"
  shows "\<exists>es fs. contentHash (tarAppender c') = archive E es \<and> unpack es Map.empty = Some fs \<and>
    (\<forall>p \<in> set ops. \<forall>(hdr, b) \<in> set (requests E p). file_at fs (hName hdr) hdr b)"
  using layer_run_logged [OF assms refl] by (fastforce simp: logged_def)

section \<open>The compact stream stands for the archive\<close>

text \<open>A blob store that has every requested content under its digest.\<close>

definition stores_requests :: "'a tarLib \<Rightarrow> layerOp list \<Rightarrow> blobStore \<Rightarrow> bool" where
  "stores_requests E ops st \<longleftrightarrow>
     (\<forall>p \<in> set ops. \<forall>(h, b) \<in> set (requests E p).
        case st (hashFn E b) (int (length b)) of Inl _ \<Rightarrow> False | Inr r \<Rightarrow> take (length b) (rdr_bytes r) = b)"

lemma served_pieces:
  "(\<And>d c. Blob d c \<in> set ps \<Longrightarrow> case st d (int (length c)) of Inl _ \<Rightarrow> False | Inr r \<Rightarrow> take (length c) (rdr_bytes r) = c) \<Longrightarrow>
   served st ps"
  by (induction st ps rule: served.induct) auto

lemma layer_run_pieces:
  assumes "layer_run E L ops c c'" and "compactStreamWriter (casOptions c) = Some (NewWriter HashAlgoSHA256 32 sc oc thr)"
  obtains ob ps where "casObserver c' = Some ob" "oWriter ob = fold write_piece ps (NewWriter HashAlgoSHA256 32 sc oc thr)"
    "digests_ok 32 ps" "contents ps = contentHash (tarAppender c')"
    "\<And>d b. Blob d b \<in> set ps \<Longrightarrow> d = hashFn E b \<and> (\<exists>p \<in> set ops. \<exists>h. (h, b) \<in> set (requests E p))"
proof -
  let ?w = "NewWriter HashAlgoSHA256 32 sc oc thr" and ?R = "\<Union>p \<in> set ops. set (requests E p)"
  have w: "werr ?w = None" "hashSize ?w = 32" by (simp_all add: NewWriter_def)
  obtain a opts where c: "c = New_cas a opts" using assms(1) by (auto simp: layer_run_def)
  have ob0: "casObserver c = Some (newCompactStreamObserver ?w)"
    using assms(2) by (simp add: c New_cas_def Let_def)
  from layer_run_logged [OF assms(1) refl] obtain fs es where
    l: "contentHash (tarAppender c') = archive E es" "obs_steps E (casObserver c) es (casObserver c')" "reg_contents es \<subseteq> snd ` ?R"
    by (auto simp: logged_def)
  from l(2) ob0 obtain ob where ob: "casObserver c' = Some ob" and st: "obs_step E (newCompactStreamObserver ?w) es ob" by auto
  from st w obtain ps where ps: "oWriter ob = fold write_piece ps ?w" "digests_ok 32 ps" "blobs_ok E es ps" "contents ps = archive E es"
    by (auto simp: obs_step_def newCompactStreamObserver_def)
  show ?thesis
  proof (rule that [OF ob ps(1,2)])
    show "contents ps = contentHash (tarAppender c')" using ps(4) l(1) by simp
    show "d = hashFn E b \<and> (\<exists>p \<in> set ops. \<exists>h. (h, b) \<in> set (requests E p))" if "Blob d b \<in> set ps" for d b
      using that ps(3) l(3) by (force simp: blobs_ok_def)
  qed
qed

text \<open>
  C11. The compact stream is the layer: when a layer is written with a compact-stream writer attached,
  the writer closes into a compact file, and reconstructing that file from a store that has the
  requested contents under their digests gives byte for byte the archive the appender received,
  recompressed and padded as recorded, although the file holds no content of the large files.
\<close>

theorem layer_reconstructs:
  assumes "layer_run E L ops c c'" and "compactStreamWriter (casOptions c) = Some (NewWriter HashAlgoSHA256 32 sc oc thr)"
    and "sc \<in> {StreamCompressionNone, StreamCompressionZstd}" and "zstd_ok CL" and "stores_requests E ops st"
    and "length (contentHash (tarAppender c')) < 2 ^ 63" and "w = oWriter (the (casObserver c'))" and "length (refs w) * 48 \<le> 2 ^ 31"
  shows "\<exists>idx. Close_writer CL w = (w, Ret idx) \<and> Reconstruct CL idx st =
    (case original_stream CL oc (contentHash (tarAppender c'), None) of
       (b, Some e) \<Rightarrow> (b, Some e)
     | (b, None) \<Rightarrow> (b @ replicate (unat (EndPadding oc)) 0, None))"
proof -
  obtain ob ps where ob: "casObserver c' = Some ob" "oWriter ob = fold write_piece ps (NewWriter HashAlgoSHA256 32 sc oc thr)"
    and ps: "digests_ok 32 ps" "contents ps = contentHash (tarAppender c')"
    and bl: "\<And>d b. Blob d b \<in> set ps \<Longrightarrow> d = hashFn E b \<and> (\<exists>p \<in> set ops. \<exists>h. (h, b) \<in> set (requests E p))"
    using layer_run_pieces [OF assms(1,2)] by blast
  have w: "w = written sc oc thr None ps" using assms(7) ob by (simp add: written_def)
  have "refs w = layout 0 ps"
    using write_pieces [of "NewWriter HashAlgoSHA256 32 sc oc thr" ps 0] ps(1) by (simp add: w written_def NewWriter_def)
  then have f: "fits sc None ps" using assms(3,6,8) ps by (simp add: fits_def)
  have s: "served st ps" using bl assms(5) by (intro served_pieces) (force simp: stores_requests_def)
  from reconstruct_written [OF f assms(4) s w] ps(2) show ?thesis
    by (auto simp: Let_def split: prod.splits option.splits)
qed

section \<open>When a write does not return\<close>

definition returns :: "'s \<times> 'r tres \<Rightarrow> bool" where "returns x \<longleftrightarrow> snd x \<noteq> Hang"

lemma returns_tbind [intro]: "returns (m c) \<Longrightarrow> (\<And>x c1. returns (f x c1)) \<Longrightarrow> returns (tbind m f c)"
  by (auto simp: returns_def tbind_def split: prod.splits tres.splits)

lemma returns_steps [intro]:
  "returns (cas_BeginEntry E hdr d c)" "returns (cas_EndEntry E c)" "returns (encode_header E hdr c)"
  "returns (AppendTar E r c)" "returns (append_regular E buf s r c)"
  by (auto simp: returns_def cas_BeginEntry_def cas_EndEntry_def encode_header_def AppendTar_def append_regular_def
      split: option.splits prod.splits sum.splits)

lemma returns_parents: "returns (write_parents E ps buf c)"
proof (induction E ps buf c rule: write_parents.induct)
  case (2 E dir ds buf c)
  then show ?case by (cases "dir \<in> casDirs c") (auto simp: notifyEntry_def)
qed (simp add: returns_def)

text \<open>
  C28. The only call that can keep a layer from being written is the loop over the parent directories:
  writing an entry fails to return exactly when parent directories are to be created and the name is
  absolute, for which \<^verbatim>\<open>path.Dir\<close> stays at the root; for every other name it ends with a result or an error.
\<close>

theorem write_returns_iff:
  "snd (writeHeaderAndData E hdr data d c) = Hang \<longleftrightarrow> createParentDirectories (casOptions c) \<and> rooted (hName hdr)"
proof -
  have "\<not> returns (writeHeaderAndData E hdr data d c) \<longleftrightarrow> \<not> returns (entry_parents E hdr c)"
  proof
    assume "\<not> returns (entry_parents E hdr c)"
    then show "\<not> returns (writeHeaderAndData E hdr data d c)"
      by (auto simp: returns_def writeHeaderAndData_def tbind_def split: prod.splits)
  next
    assume n: "\<not> returns (writeHeaderAndData E hdr data d c)"
    have "returns (if hTypeflag hdr = TypeReg
        then tbind (append_regular E buf s (LimitReader (hSize hdr) data)) (\<lambda>_. cas_EndEntry E) c1
        else tbind (cas_EndEntry E) (\<lambda>_. AppendTar E (buf, None)) c1)" for buf s c1
      by auto
    then have "returns (entry_parents E hdr c) \<Longrightarrow> returns (writeHeaderAndData E hdr data d c)"
      unfolding writeHeaderAndData_def by (intro returns_tbind returns_steps) (auto split: if_splits)
    with n show "\<not> returns (entry_parents E hdr c)" by blast
  qed
  also have "\<dots> \<longleftrightarrow> createParentDirectories (casOptions c) \<and> parents (hName hdr) = None"
    using returns_parents by (auto simp: entry_parents_def returns_def split: option.splits)
  also have "\<dots> \<longleftrightarrow> createParentDirectories (casOptions c) \<and> rooted (hName hdr)"
    using parents_terminates [of "hName hdr"] by auto
  finally show ?thesis by (simp add: returns_def)
qed

section \<open>The metadata hash\<close>

text \<open>
  C27. Nodes are told apart by all of their metadata: the text hashed for a file (its normalized header
  without the name, followed by the digest of its content) determines every field of the header,
  including the extended attributes and PAX records whatever their order, and the digest.
\<close>

theorem node_text_determines_node:
  assumes "header_ok (node_header g)" and "header_ok (node_header h)"
    and "hashTarHeader [] (node_header g) @ x = hashTarHeader [] (node_header h) @ y"
  shows "same_metadata (node_header g) (node_header h) \<and> x = y"
  using hashed_text_inject [of "node_header g" "node_header h"] assms by (simp add: normalize_node_header)

section \<open>Repeated names\<close>

context tar_appender
begin

text \<open>The first file with a content is stored under its name, a later one under another name is linked to it.\<close>

lemma dedup_stores:
  assumes "appendTar E = app" and "blocks E" and "isBlobTarHeader h" and "firstBlobPaths c (hashFn E b) = None"
    and "WriteRegularDeduplicated E h (b, None) c = (c', Ok ())"
  shows "\<exists>ds. received (tarAppender c') = received (tarAppender c) @ archive E (dir_entries ds @ [(blob_header (hName h) (int (length b)), b)]) \<and>
    firstBlobPaths c' = (firstBlobPaths c)(hashFn E b \<mapsto> hName h) \<and> deferredFiles c' = deferredFiles c \<and>
    casClosed c' = casClosed c \<and> casOptions c' = casOptions c"
proof -
  let ?h = "blob_header (hName h) (int (length b))"
  obtain c1 where w: "writeHeaderAndData E ?h (b, None) (Some (hashFn E b)) c = (c1, Ok ())"
    and c': "c' = c1\<lparr>storedHashes := insert (hashFn E b) (storedHashes c1),
      firstBlobPaths := (firstBlobPaths c1)(hashFn E b \<mapsto> hName h), hashOrder := hashOrder c1 @ [hashFn E b]\<rparr>"
    using assms(3-5)
    by (auto simp: WriteRegularDeduplicated_def Store_cas_def StoreKnownHashAndSize_def storeKnownHashAndSize_def link_to_def
        tbind_Ok tret_def terr_def split: if_splits)
  have "faithful E ?h b (Some (hashFn E b))" by (simp add: faithful_def)
  from writeHeaderAndData_Ok [OF assms(1,2) this w] show ?thesis by (auto simp: wrote_def frame_def c')
qed

lemma dedup_links:
  assumes "appendTar E = app" and "blocks E" and "isBlobTarHeader h" and "firstBlobPaths c (hashFn E b) = Some q" and "q \<noteq> hName h"
    and "WriteRegularDeduplicated E h (b, None) c = (c1, Ok ())" and "cas_Close E c1 = (c', Ok ())"
    and "deferredFiles c = []" and "\<not> casClosed c" and "fileStruct (casOptions c) \<noteq> CASOnly"
  shows "\<exists>ds. received (tarAppender c') = received (tarAppender c) @ archive E (dir_entries ds @ [(link_header h q, [])])"
proof -
  let ?l = "link_header h q"
  have lk: "writeHeaderOrDefer E ?l nil_reader None c = (c1, Ok ())"
    using assms(3-6)
    by (auto simp: WriteRegularDeduplicated_def Store_cas_def StoreKnownHashAndSize_def storeKnownHashAndSize_def link_to_def
        tbind_Ok tret_def terr_def split: if_splits)
  have wrote: "\<exists>ds. wrote received E x (dir_entries ds @ [(?l, [])]) (set ds) y"
    if "writeHeaderAndData E ?l ([], None) None x = (y, Ok ())" for x y
    using writeHeaderAndData_Ok [OF assms(1,2) _ that] by (auto simp: faithful_def)
  show ?thesis
  proof (cases "fileStruct (casOptions c) = CASFirst")
    case True
    then have "c1 = c\<lparr>deferredFiles := [?l]\<rparr>" using lk assms(8,9) by (simp add: writeHeaderOrDefer_def note_dir_def)
    with assms(7,9,10) have "writeHeaderAndData E ?l ([], None) None (c\<lparr>deferredFiles := [?l], casClosed := True\<rparr>) = (c', Ok ())"
      by (auto simp: cas_Close_def writeHeaderOrDefer_def note_dir_def nil_reader_def tbind_Ok dest!: callback_same)
    from wrote [OF this] show ?thesis by (auto simp: wrote_def)
  next
    case False
    then have w: "writeHeaderAndData E ?l ([], None) None c = (c1, Ok ())"
      using lk assms(10) by (auto simp: writeHeaderOrDefer_def note_dir_def nil_reader_def tbind_Ok dest!: callback_same)
    from wrote [OF w] obtain ds where ds: "wrote received E c (dir_entries ds @ [(?l, [])]) (set ds) c1" by blast
    then have "c' = c1\<lparr>casClosed := True\<rparr>" using assms(7-9) by (auto simp: cas_Close_def wrote_def frame_def)
    with ds show ?thesis by (auto simp: wrote_def)
  qed
qed

end

text \<open>
  C29. A name must not be written twice: in a layer that writes a content under a name, replaces it under the
  same name by another content, and then writes the first content under a second name, for any names,
  contents, options that keep the files and hash function that tells the contents apart, the third file is
  linked to the first name.  When all calls succeed, the archive unpacks it with the content of the replacement.
\<close>

theorem repeated_name_breaks_link:
  assumes "appendTar E = tar_AppendTar L" and "blocks E" and "New_appender L copts = Inr a"
    and "fileStruct (casOptions (New_cas a opts)) \<noteq> CASOnly"
    and "isBlobTarHeader f" and "isBlobTarHeader g" and "isBlobTarHeader h"
    and "hName g = hName f" and "hName h \<noteq> hName f" and "hashFn E x \<noteq> hashFn E y"
    and "run_layer E [OpRegularDedup f (x, None), OpRegularDedup g (y, None), OpRegularDedup h (x, None)] (New_cas a opts) = (c', Ok ())"
  shows "\<exists>es fs m. contentHash (tarAppender c') = archive E es \<and> unpack es Map.empty = Some fs \<and> fs (hName h) = Some (FileNode m y) \<and> y \<noteq> x"
proof -
  let ?c = "New_cas a opts"
  have c: "firstBlobPaths ?c = Map.empty" "deferredFiles ?c = []" "\<not> casClosed ?c" "contentHash (tarAppender ?c) = []"
    using assms(3) by (auto simp: New_cas_def Let_def New_appender_def split: sum.splits)
  obtain c1 c2 c3 where r: "WriteRegularDeduplicated E f (x, None) ?c = (c1, Ok ())" "WriteRegularDeduplicated E g (y, None) c1 = (c2, Ok ())"
    "WriteRegularDeduplicated E h (x, None) c2 = (c3, Ok ())" "cas_Close E c3 = (c', Ok ())"
    using assms(11) by (auto simp: run_layer_def tbind_Ok)
  from pipe.dedup_stores [OF assms(1,2,5) _ r(1)] c obtain d1 where
    1: "contentHash (tarAppender c1) = archive E (dir_entries d1 @ [(blob_header (hName f) (int (length x)), x)])"
      "firstBlobPaths c1 = [hashFn E x \<mapsto> hName f]" "deferredFiles c1 = []" "\<not> casClosed c1" "casOptions c1 = casOptions ?c" by auto
  from pipe.dedup_stores [OF assms(1,2,6) _ r(2)] 1 assms(8,10) obtain d2 where
    2: "contentHash (tarAppender c2) = contentHash (tarAppender c1) @ archive E (dir_entries d2 @ [(blob_header (hName f) (int (length y)), y)])"
      "firstBlobPaths c2 (hashFn E x) = Some (hName f)" "deferredFiles c2 = []" "\<not> casClosed c2" "casOptions c2 = casOptions ?c" by auto
  from pipe.dedup_links [OF assms(1,2,7) 2(2) _ r(3,4) 2(3,4)] assms(4,9) 2(5) obtain d3 where
    3: "contentHash (tarAppender c') = contentHash (tarAppender c2) @ archive E (dir_entries d3 @ [(link_header h (hName f), [])])" by auto
  let ?es = "dir_entries d1 @ (blob_header (hName f) (int (length x)), x) # dir_entries d2 @
    (blob_header (hName f) (int (length y)), y) # dir_entries d3 @ [(link_header h (hName f), [])]"
  let ?m = "FileNode (node_header (blob_header (hName f) (int (length y)))) y"
  have "contentHash (tarAppender c') = archive E ?es" using 1(1) 2(1) 3 by simp
  moreover have "unpack ?es Map.empty = Some [hName f \<mapsto> ?m, hName h \<mapsto> ?m]"
    by (simp add: unpack_append typeflags)
  ultimately show ?thesis using assms(10) by (intro exI conjI) (assumption, assumption, auto)
qed

end
