(* ===== verification/Tarcas_Witnesses.thy ===== *)
theory Tarcas_Witnesses
  imports Tarcas_Props Compact_Witnesses
begin

text \<open>
  A small layer: two files with the same content, the second becoming a hard link, written through an
  appender that copies, with a compact stream beside the archive.
\<close>

definition demo_env :: "unit appender tarLib" where
  "demo_env = \<lparr>tarEncode = (\<lambda>h. Inr (replicate 512 (hTypeflag h))),
     hashFn = (\<lambda>b. if b = [1, 2, 3] then replicate 32 1 else replicate 32 2),
     appendTar = tar_AppendTar plain_lib, openFile = (\<lambda>_. Inl ''missing'')\<rparr>"

definition demo_ops :: "layerOp list" where
  "demo_ops = [OpRegularDedup (blob_header ''a'' 3) ([1, 2, 3], None), OpRegularDedup (blob_header ''b'' 3) ([1, 2, 3], None)]"

definition demo_appender :: "unit appender" where
  "demo_appender = \<lparr>outerHash = [], contentHash = [], compressor = (), pipelineCount = 0, outputCount = 0, outFile = [],
     appOptions = plain_opts\<rparr>"

definition demo_writer :: csWriter where
  "demo_writer = NewWriter HashAlgoSHA256 32 StreamCompressionNone toy_oc 0"

definition demo_cas :: "unit appender cas" where
  "demo_cas = New_cas demo_appender [OptCompactStream demo_writer]"

text \<open>The copying appender accepts everything.\<close>

definition plain_push :: "bytes \<Rightarrow> unit appender \<Rightarrow> unit appender" where
  "plain_push b a = a\<lparr>outerHash := outerHash a @ b, contentHash := contentHash a @ b, pipelineCount := pipelineCount a + int (length b),
     outputCount := outputCount a + int (length b), outFile := outFile a @ b\<rparr>"

lemma plain_push_append: "plain_push c (plain_push b a) = plain_push (b @ c) a" "plain_push [] a = a"
  by (simp_all add: plain_push_def)

lemma plain_copy: "copy_to plain_lib b a = (plain_push b a, None)"
proof (induction "plain_lib" b a rule: copy_to.induct)
  case (1 b a)
  have w: "appender_Write plain_lib x a = (plain_push x a, None)" for x
    by (simp add: appender_Write_def plain_lib_def plain_push_def emit_def)
  show ?case
  proof (cases "b = []")
    case True then show ?thesis by (simp add: copy_to.simps plain_push_append)
  next
    case False
    from 1 [OF False w [symmetric] refl] False show ?thesis
      by (subst copy_to.simps) (simp add: w plain_push_append)
  qed
qed

lemma plain_append: "tar_AppendTar plain_lib a (b, e) = (plain_push b a, e)"
  by (simp add: tar_AppendTar_def plain_copy)

lemma demo_env_simps [simp]:
  "tarEncode demo_env h = Inr (replicate 512 (hTypeflag h))" "appendTar demo_env = tar_AppendTar plain_lib"
  "hashFn demo_env b = (if b = [1, 2, 3] then replicate 32 1 else replicate 32 2)" "openFile demo_env f = Inl ''missing''"
  by (simp_all add: demo_env_def)

lemma demo_cas_simps [simp]:
  "firstBlobPaths demo_cas = Map.empty" "casClosed demo_cas = False" "deferredFiles demo_cas = []"
  "casObserver demo_cas = Some (newCompactStreamObserver demo_writer)"
  "casOptions demo_cas = defaultOptions\<lparr>compactStreamWriter := Some demo_writer\<rparr>" "tarAppender demo_cas = demo_appender"
  by (simp_all add: demo_cas_def New_cas_def Let_def)

lemma demo_blob: "isBlobTarHeader (blob_header p n) \<longleftrightarrow> \<not> HasSuffix p ''/''"
  by (simp add: isBlobTarHeader_def blob_header_def zero_header_def)

lemmas demo_eval = run_layer_def demo_ops_def tbind_def WriteRegularDeduplicated_def demo_blob HasSuffix_def
  Store_cas_def StoreKnownHashAndSize_def storeKnownHashAndSize_def writeHeaderAndData_def entry_parents_def defaultOptions_def
  cas_BeginEntry_def BeginEntry_def CaptureTarHeaderBytes_def WriteStreamBytes_def encode_header_def append_regular_def
  cas_tee_def sink_write_def LimitReader_def AppendTar_def paddedReader_def plain_append cas_EndEntry_def EndEntry_def
  end_entry_def entry_digest_def WriteCASRef_def write_padding_def tarBlockPadding_def go_quot_def entry_reset_def
  newCompactStreamObserver_def demo_writer_def NewWriter_def link_to_def writeHeaderOrDefer_def note_dir_def
  tret_def cas_Close_def run_header_callback_def nil_reader_def toy_oc_def Let_def

lemma demo_runs: "snd (run_layer demo_env demo_ops demo_cas) = Ok ()"
  by (simp add: demo_eval)

definition demo_end :: "unit appender cas" where
  "demo_end = fst (run_layer demo_env demo_ops demo_cas)"

lemma demo_requests: "(\<Union>p \<in> set demo_ops. set (requests demo_env p)) =
    {(blob_header ''a'' 3, [1, 2, 3]), (blob_header ''b'' 3, [1, 2, 3])}"
  by (simp add: demo_ops_def insert_commute)

lemma node_header_demo: "node_header (blob_header p n) = zero_header\<lparr>hTypeflag := TypeReg, hSize := n, hMode := 493, hFormat := FormatPAX\<rparr>"
  by (simp add: node_header_def blob_header_def zero_header_def normalizeTarHeader_def HasSuffix_def Let_def merge_xattrs_def
      map_entries_def round_time_def)

lemma demo_no_collisions: "no_collisions demo_env {(blob_header ''a'' 3, [1, 2, 3]), (blob_header ''b'' 3, [1, 2, 3])}"
proof -
  have "header_ok (node_header (blob_header p 3))" for p
    by (simp add: node_header_demo header_ok_def zero_header_def map_entries_def short_def int64_def FormatPAX_def time_Unix_def second_def)
  moreover have "hashTarHeader [] (node_header (blob_header p 3)) @ h \<noteq> [1, 2, 3]" for p h
    by (rule notI, drule arg_cong [of _ _ length]) (simp add: hashTarHeader_append Let_def enc_string_def)
  moreover have "node_header (blob_header ''b'' 3) = node_header (blob_header ''a'' 3)" by (rule node_header_blob)
  ultimately show ?thesis by (auto simp: no_collisions_def hashed_texts_def inj_on_def simp del: demo_env_simps(1))
qed

lemma demo_New: "New_appender plain_lib plain_opts = Inr demo_appender"
  by (simp add: New_appender_def setupWriterPipeline_def plain_lib_def plain_opts_def demo_appender_def)

lemma demo_layer: "layer_run demo_env plain_lib demo_ops demo_cas demo_end"
proof -
  have "\<exists>copts a opts. New_appender plain_lib copts = Inr a \<and> demo_cas = New_cas a opts"
    unfolding demo_cas_def using demo_New by blast
  moreover have "distinct (concat (map (op_names demo_env) demo_ops))" "list_all (op_ok demo_env) demo_ops"
    by (simp_all add: demo_ops_def)
  moreover have "run_layer demo_env demo_ops demo_cas = (demo_end, Ok ())"
    using demo_runs by (metis demo_end_def prod.collapse)
  ultimately show ?thesis
    using demo_no_collisions
    by (simp add: layer_run_def blocks_def digestfs_ok_def demo_requests defaultOptions_def)
qed

lemma demo_sizes:
  "length (contentHash (tarAppender demo_end)) = 1536" "length (refs (oWriter (the (casObserver demo_end)))) = 1"
  by (simp_all add: demo_end_def demo_eval demo_appender_def plain_push_def)

theorem layer_holds_requests_witness:
  "\<exists>es fs. contentHash (tarAppender demo_end) = archive demo_env es \<and> unpack es Map.empty = Some fs \<and>
     file_at fs ''a'' (blob_header ''a'' 3) [1, 2, 3] \<and> file_at fs ''b'' (blob_header ''b'' 3) [1, 2, 3]"
  using layer_holds_requests [OF demo_layer] by (auto simp: demo_ops_def)

theorem layer_reconstructs_witness:
  "\<exists>idx. snd (Close_writer toy_lib (oWriter (the (casObserver demo_end)))) = Ret idx \<and>
     Reconstruct toy_lib idx (\<lambda>d n. Inr (plain_rdr [1, 2, 3])) = (contentHash (tarAppender demo_end), None)"
proof -
  have "stores_requests demo_env demo_ops (\<lambda>d n. Inr (plain_rdr [1, 2, 3]))"
    by (simp add: stores_requests_def demo_ops_def plain_rdr_def rdr_bytes_def)
  moreover have "compactStreamWriter (casOptions demo_cas) = Some (NewWriter HashAlgoSHA256 32 StreamCompressionNone toy_oc 0)"
    by (simp add: demo_writer_def)
  moreover have "length (contentHash (tarAppender demo_end)) < 2 ^ 63"
    "length (refs (oWriter (the (casObserver demo_end)))) * 48 \<le> 2 ^ 31" by (simp_all add: demo_sizes)
  ultimately show ?thesis
    using layer_reconstructs [OF demo_layer _ _ toy_zstd _ _ refl, of StreamCompressionNone toy_oc 0 "\<lambda>d n. Inr (plain_rdr [1, 2, 3])"]
    by (auto simp: original_stream_def toy_oc_def)
qed

theorem node_text_determines_node_witness:
  "same_metadata (node_header (blob_header ''a'' 3)) (node_header ((blob_header ''b'' 3)\<lparr>hLinkname := ''x''\<rparr>))"
proof -
  have n: "node_header ((blob_header ''b'' 3)\<lparr>hLinkname := ''x''\<rparr>) = node_header (blob_header ''a'' 3)"
    by (simp add: node_header_def blob_header_def zero_header_def normalizeTarHeader_def HasSuffix_def Let_def)
  have "header_ok (node_header (blob_header ''a'' 3))"
    using demo_no_collisions by (simp add: no_collisions_def)
  then show ?thesis
    using node_text_determines_node [of "blob_header ''a'' 3" "(blob_header ''b'' 3)\<lparr>hLinkname := ''x''\<rparr>" "[1]" "[1]"] n by simp
qed

section \<open>Repeated names\<close>

definition again_ops :: "layerOp list" where
  "again_ops = [OpRegularDedup (blob_header ''a'' 3) ([1, 2, 3], None), OpRegularDedup (blob_header ''a'' 3) ([4, 5, 6], None),
     OpRegularDedup (blob_header ''b'' 3) ([1, 2, 3], None)]"

lemma again_runs: "snd (run_layer demo_env again_ops demo_cas) = Ok ()"
  by (simp add: again_ops_def demo_eval)

lemma repeated_name_breaks_link_witness:
  "\<exists>es fs m. contentHash (tarAppender (fst (run_layer demo_env again_ops demo_cas))) = archive demo_env es \<and>
     unpack es Map.empty = Some fs \<and> fs ''b'' = Some (FileNode m [4, 5, 6])"
proof -
  have "run_layer demo_env again_ops demo_cas = (fst (run_layer demo_env again_ops demo_cas), Ok ())"
    using again_runs by (metis prod.collapse)
  then show ?thesis
    using repeated_name_breaks_link [where E = demo_env and L = plain_lib and copts = plain_opts and a = demo_appender
        and opts = "[OptCompactStream demo_writer]" and x = "[1, 2, 3]" and y = "[4, 5, 6]" and f = "blob_header ''a'' 3"
        and g = "blob_header ''a'' 3" and h = "blob_header ''b'' 3", OF _ _ demo_New]
    by (fold demo_cas_def again_ops_def) (auto simp: blocks_def demo_blob HasSuffix_def defaultOptions_def)
qed

end
