(* ===== verification/Digestfs.thy ===== *)
theory Digestfs
  imports Tarcas_Layer
begin

text \<open>
  \<^verbatim>\<open>pkg/digestfs/digestfs.go\<close>: files with cached digests.  A call of \<^verbatim>\<open>Digest\<close> is two critical sections with the
  calculation between them, and a caller that finds a calculation running waits for it, so the calls of the
  layer writer and of the background workers of \<^verbatim>\<open>precacher.go\<close> interleave: a step relation whose reachable
  states deliver, for files that do not change meanwhile, the digest and size of the content.  The law
  \<open>digestfs_ok\<close> that the properties of whole layers assume follows.  Filling the caches of real paths and sizes,
  which two callers can only do with the same values, and invalidating a path are single steps.
\<close>

section \<open>State\<close>

text \<open>
  The operating system: what opening a path gives, with the content, the answer of \<^verbatim>\<open>Stat\<close> and an error of the
  first \<^verbatim>\<open>Seek\<close>, and the symbolic links.
\<close>

record osFile =
  ofBytes :: reader
  ofStat :: "string + int"
  ofSeek :: "string option"

record osSys =
  osWindows :: bool
  osOpen :: "string \<Rightarrow> string + osFile"
  osEvalSymlinks :: "string \<Rightarrow> string + string"

text \<open>
  A lookup is an object that callers share: it is \<open>Pending\<close> until its channel is closed.  The model numbers the
  objects and notes the path each was registered under.
\<close>

datatype lookupState = Pending | Done "string + bytes"

record fileSystem =
  digestCache :: "string \<rightharpoonup> bytes"
  runningLookups :: "string \<rightharpoonup> nat"
  statCache :: "string \<rightharpoonup> int"
  realpathCache :: "string \<rightharpoonup> string"
  lookups :: "nat \<rightharpoonup> string \<times> lookupState"
  nextLookup :: nat

record cachedDigestFile =
  cfFile :: osFile
  cfRealPath :: string
  cfSize :: int

definition New_digestfs :: fileSystem where
  "New_digestfs = \<lparr>digestCache = Map.empty, runningLookups = Map.empty, statCache = Map.empty, realpathCache = Map.empty,
     lookups = Map.empty, nextLookup = 0\<rparr>"

section \<open>Operations\<close>

definition cacheKey :: "osSys \<Rightarrow> string \<Rightarrow> fileSystem \<Rightarrow> fileSystem \<times> (string + string)" where
  "cacheKey os path fs =
     (if osWindows os then (fs, Inr path)
      else case realpathCache fs path of
        Some realPath \<Rightarrow> (fs, Inr realPath)
      | None \<Rightarrow>
          (case osEvalSymlinks os path of
             Inl e \<Rightarrow> (fs, Inl e)
           | Inr resolved \<Rightarrow> (fs\<lparr>realpathCache := (realpathCache fs)(path \<mapsto> resolved)\<rparr>, Inr resolved)))"

definition getStat :: "string \<Rightarrow> osFile \<Rightarrow> fileSystem \<Rightarrow> fileSystem \<times> (string + int)" where
  "getStat realPath file fs =
     (case statCache fs realPath of
        Some n \<Rightarrow> (fs, Inr n)
      | None \<Rightarrow>
          (case ofStat file of
             Inl e \<Rightarrow> (fs, Inl e)
           | Inr n \<Rightarrow> (fs\<lparr>statCache := (statCache fs)(realPath \<mapsto> n)\<rparr>, Inr n)))"

definition OpenFile :: "osSys \<Rightarrow> string \<Rightarrow> fileSystem \<Rightarrow> fileSystem \<times> (string + cachedDigestFile)" where
  "OpenFile os path fs =
     (case osOpen os path of
        Inl e \<Rightarrow> (fs, Inl e)
      | Inr file \<Rightarrow>
          (case cacheKey os path fs of
             (fs1, Inl e) \<Rightarrow> (fs1, Inl e)
           | (fs1, Inr realPath) \<Rightarrow>
               (case getStat realPath file fs1 of
                  (fs2, Inl e) \<Rightarrow> (fs2, Inl e)
                | (fs2, Inr n) \<Rightarrow> (fs2, Inr \<lparr>cfFile = file, cfRealPath = realPath, cfSize = n\<rparr>))))"

text \<open>The calculation reads the file from its start and puts the position back.\<close>

definition calculateDigest :: "(bytes \<Rightarrow> bytes) \<Rightarrow> cachedDigestFile \<Rightarrow> string + bytes" where
  "calculateDigest H f =
     (case ofSeek (cfFile f) of
        Some e \<Rightarrow> Inl e
      | None \<Rightarrow> (case ofBytes (cfFile f) of (b, Some e) \<Rightarrow> Inl e | (b, None) \<Rightarrow> Inr (H b)))"

datatype digestAction = Cached bytes | Wait nat | Compute nat

text \<open>The first critical section of \<^verbatim>\<open>Digest\<close>, and the last one with the closing of the channel.\<close>

definition start_lookup :: "string \<Rightarrow> fileSystem \<Rightarrow> fileSystem \<times> nat" where
  "start_lookup realPath fs =
     (let n = nextLookup fs in
      (fs\<lparr>runningLookups := (runningLookups fs)(realPath \<mapsto> n), lookups := (lookups fs)(n \<mapsto> (realPath, Pending)),
          nextLookup := Suc n\<rparr>, n))"

definition Digest_begin :: "cachedDigestFile \<Rightarrow> fileSystem \<Rightarrow> fileSystem \<times> digestAction" where
  "Digest_begin f fs =
     (case digestCache fs (cfRealPath f) of
        Some d \<Rightarrow> (fs, Cached d)
      | None \<Rightarrow>
          (case runningLookups fs (cfRealPath f) of
             Some n \<Rightarrow> (fs, Wait n)
           | None \<Rightarrow> (case start_lookup (cfRealPath f) fs of (fs1, n) \<Rightarrow> (fs1, Compute n))))"

definition Digest_end :: "cachedDigestFile \<Rightarrow> nat \<Rightarrow> string + bytes \<Rightarrow> fileSystem \<Rightarrow> fileSystem" where
  "Digest_end f n res fs =
     fs\<lparr>digestCache := (case res of Inl _ \<Rightarrow> digestCache fs | Inr d \<Rightarrow> (digestCache fs)(cfRealPath f \<mapsto> d)),
        runningLookups := (runningLookups fs)(cfRealPath f := None),
        lookups := (lookups fs)(n \<mapsto> (cfRealPath f, Done res))\<rparr>"

text \<open>Receiving from the channel of a lookup; \<open>None\<close> blocks.\<close>

definition Digest_wait :: "nat \<Rightarrow> fileSystem \<Rightarrow> (string + bytes) option" where
  "Digest_wait n fs = (case lookups fs n of Some (_, Done res) \<Rightarrow> Some res | _ \<Rightarrow> None)"

text \<open>\<^verbatim>\<open>precache\<close> begins like \<^verbatim>\<open>Digest\<close> but does not wait.\<close>

definition precache_begin :: "cachedDigestFile \<Rightarrow> fileSystem \<Rightarrow> fileSystem \<times> nat option" where
  "precache_begin f fs =
     (if digestCache fs (cfRealPath f) \<noteq> None \<or> runningLookups fs (cfRealPath f) \<noteq> None then (fs, None)
      else case start_lookup (cfRealPath f) fs of (fs1, n) \<Rightarrow> (fs1, Some n))"

definition InvalidateCache :: "osSys \<Rightarrow> string \<Rightarrow> fileSystem \<Rightarrow> fileSystem" where
  "InvalidateCache os path fs =
     (case cacheKey os path fs of
        (fs1, Inl e) \<Rightarrow> fs1
      | (fs1, Inr realPath) \<Rightarrow>
          fs1\<lparr>digestCache := (digestCache fs1)(realPath := None), statCache := (statCache fs1)(realPath := None)\<rparr>)"

definition GetCachedDigest :: "osSys \<Rightarrow> string \<Rightarrow> fileSystem \<Rightarrow> fileSystem \<times> bytes option" where
  "GetCachedDigest os path fs =
     (case cacheKey os path fs of
        (fs1, Inl e) \<Rightarrow> (fs1, None)
      | (fs1, Inr realPath) \<Rightarrow> (fs1, digestCache fs1 realPath))"

section \<open>Interleaving\<close>

text \<open>What names a file, and what an opened file is, independent of the caches.\<close>

definition file_key :: "osSys \<Rightarrow> string \<Rightarrow> string + string" where
  "file_key os path = (if osWindows os then Inr path else osEvalSymlinks os path)"

definition file_at_key :: "osSys \<Rightarrow> string \<Rightarrow> osFile \<Rightarrow> bool" where
  "file_at_key os k g \<longleftrightarrow> (\<exists>p. osOpen os p = Inr g \<and> file_key os p = Inr k)"

definition opened :: "osSys \<Rightarrow> cachedDigestFile \<Rightarrow> bool" where
  "opened os f \<longleftrightarrow> file_at_key os (cfRealPath f) (cfFile f) \<and>
     (\<exists>g. file_at_key os (cfRealPath f) g \<and> ofStat g = Inr (cfSize f))"

text \<open>The steps of any number of callers; the map holds the files whose digests are being calculated.\<close>

inductive digest_step ::
    "osSys \<Rightarrow> (bytes \<Rightarrow> bytes) \<Rightarrow> fileSystem \<times> (nat \<rightharpoonup> cachedDigestFile) \<Rightarrow> fileSystem \<times> (nat \<rightharpoonup> cachedDigestFile) \<Rightarrow> bool"
  for os H where
  open_step: "digest_step os H (fs, w) (fst (OpenFile os p fs), w)"
| cached_step: "Digest_begin f fs = (fs', Cached d) \<Longrightarrow> digest_step os H (fs, w) (fs', w)"
| wait_step: "Digest_begin f fs = (fs', Wait n) \<Longrightarrow> digest_step os H (fs, w) (fs', w)"
| compute_step: "opened os f \<Longrightarrow> Digest_begin f fs = (fs', Compute n) \<Longrightarrow> digest_step os H (fs, w) (fs', w(n \<mapsto> f))"
| precache_step: "opened os f \<Longrightarrow> precache_begin f fs = (fs', Some n) \<Longrightarrow> digest_step os H (fs, w) (fs', w(n \<mapsto> f))"
| end_step: "w n = Some f \<Longrightarrow> digest_step os H (fs, w) (Digest_end f n (calculateDigest H f) fs, w(n := None))"
| invalidate_step: "digest_step os H (fs, w) (InvalidateCache os p fs, w)"
| get_step: "digest_step os H (fs, w) (fst (GetCachedDigest os p fs), w)"

inductive digest_reachable :: "osSys \<Rightarrow> (bytes \<Rightarrow> bytes) \<Rightarrow> fileSystem \<times> (nat \<rightharpoonup> cachedDigestFile) \<Rightarrow> bool" for os H where
  start: "digest_reachable os H (New_digestfs, Map.empty)"
| step: "digest_reachable os H s \<Longrightarrow> digest_step os H s t \<Longrightarrow> digest_reachable os H t"

text \<open>A digest of a file that has the key.\<close>

definition digest_for :: "osSys \<Rightarrow> (bytes \<Rightarrow> bytes) \<Rightarrow> string \<Rightarrow> bytes \<Rightarrow> bool" where
  "digest_for os H k d \<longleftrightarrow> (\<exists>g b. file_at_key os k g \<and> ofBytes g = (b, None) \<and> d = H b)"

definition caches_ok :: "osSys \<Rightarrow> (bytes \<Rightarrow> bytes) \<Rightarrow> fileSystem \<Rightarrow> bool" where
  "caches_ok os H fs \<longleftrightarrow>
     (\<forall>p k. realpathCache fs p = Some k \<longrightarrow> osEvalSymlinks os p = Inr k) \<and>
     (\<forall>k n. statCache fs k = Some n \<longrightarrow> (\<exists>g. file_at_key os k g \<and> ofStat g = Inr n)) \<and>
     (\<forall>k d. digestCache fs k = Some d \<longrightarrow> digest_for os H k d)"

text \<open>A pending lookup is running, and is being calculated by somebody; a finished one has the digest of its file.\<close>

definition lookups_ok :: "osSys \<Rightarrow> (bytes \<Rightarrow> bytes) \<Rightarrow> fileSystem \<times> (nat \<rightharpoonup> cachedDigestFile) \<Rightarrow> bool" where
  "lookups_ok os H = (\<lambda>(fs, w).
     (\<forall>k n. runningLookups fs k = Some n \<longleftrightarrow> lookups fs n = Some (k, Pending)) \<and>
     (\<forall>k n. lookups fs n = Some (k, Pending) \<longleftrightarrow> (\<exists>f. w n = Some f \<and> cfRealPath f = k)) \<and>
     (\<forall>n f. w n = Some f \<longrightarrow> opened os f) \<and>
     (\<forall>k n d. lookups fs n = Some (k, Done (Inr d)) \<longrightarrow> digest_for os H k d) \<and>
     (\<forall>n. nextLookup fs \<le> n \<longrightarrow> lookups fs n = None))"

definition digest_inv :: "osSys \<Rightarrow> (bytes \<Rightarrow> bytes) \<Rightarrow> fileSystem \<times> (nat \<rightharpoonup> cachedDigestFile) \<Rightarrow> bool" where
  "digest_inv os H s \<longleftrightarrow> caches_ok os H (fst s) \<and> lookups_ok os H s"

section \<open>The invariant\<close>

definition same_lookups :: "fileSystem \<Rightarrow> fileSystem \<Rightarrow> bool" where
  "same_lookups fs fs' \<longleftrightarrow> runningLookups fs' = runningLookups fs \<and> lookups fs' = lookups fs \<and> nextLookup fs' = nextLookup fs"

lemma same_lookups_inv: "lookups_ok os H (fs, w) \<Longrightarrow> same_lookups fs fs' \<Longrightarrow> lookups_ok os H (fs', w)"
  by (simp add: lookups_ok_def same_lookups_def)

lemma lookups_okD:
  assumes "lookups_ok os H (fs, w)"
  shows "runningLookups fs k = Some n \<longleftrightarrow> lookups fs n = Some (k, Pending)"
    "lookups fs n = Some (k, Pending) \<longleftrightarrow> (\<exists>f. w n = Some f \<and> cfRealPath f = k)" "w n = Some f \<Longrightarrow> opened os f"
    "lookups fs n = Some (k, Done (Inr d)) \<Longrightarrow> digest_for os H k d" "nextLookup fs \<le> n \<Longrightarrow> lookups fs n = None"
  using assms unfolding lookups_ok_def prod.case by blast+

lemma cacheKey_spec:
  assumes "cacheKey os p fs = (fs', r)" "caches_ok os H fs"
  shows "r = file_key os p \<and> caches_ok os H fs' \<and> same_lookups fs fs' \<and> digestCache fs' = digestCache fs \<and> statCache fs' = statCache fs"
  using assms by (auto simp: cacheKey_def file_key_def caches_ok_def same_lookups_def split: if_splits option.splits sum.splits)

lemma getStat_spec:
  assumes "getStat k g fs = (fs', r)" "caches_ok os H fs" "file_at_key os k g"
  shows "caches_ok os H fs' \<and> same_lookups fs fs' \<and> digestCache fs' = digestCache fs \<and>
    (\<forall>n. r = Inr n \<longrightarrow> (\<exists>g. file_at_key os k g \<and> ofStat g = Inr n))"
proof (cases "statCache fs k")
  case None
  with assms show ?thesis by (cases "ofStat g") (auto simp: getStat_def caches_ok_def same_lookups_def split: if_splits)
next
  case (Some n)
  with assms show ?thesis by (auto simp: getStat_def caches_ok_def same_lookups_def)
qed

lemma OpenFile_spec:
  assumes "OpenFile os p fs = (fs', r)" "caches_ok os H fs"
  shows "caches_ok os H fs' \<and> same_lookups fs fs' \<and> digestCache fs' = digestCache fs \<and>
    (\<forall>f. r = Inr f \<longrightarrow> opened os f \<and> osOpen os p = Inr (cfFile f))"
proof (cases "osOpen os p")
  case (Inl e)
  with assms show ?thesis by (auto simp: OpenFile_def same_lookups_def)
next
  case (Inr g)
  obtain fs1 k where key: "cacheKey os p fs = (fs1, k)" by fastforce
  note K = cacheKey_spec[OF key assms(2)]
  show ?thesis
  proof (cases k)
    case (Inl e)
    with assms(1) \<open>osOpen os p = Inr g\<close> key K[THEN conjunct2] show ?thesis by (auto simp: OpenFile_def)
  next
    case (Inr rp)
    obtain fs2 n where st: "getStat rp g fs1 = (fs2, n)" by fastforce
    have g: "file_at_key os rp g" using \<open>osOpen os p = Inr g\<close> K Inr by (auto simp: file_at_key_def)
    have S: "caches_ok os H fs2 \<and> same_lookups fs1 fs2 \<and> digestCache fs2 = digestCache fs1 \<and>
        (\<forall>m. n = Inr m \<longrightarrow> (\<exists>g'. file_at_key os rp g' \<and> ofStat g' = Inr m))"
      using getStat_spec[OF st] K g by blast
    show ?thesis
      using assms(1) \<open>osOpen os p = Inr g\<close> Inr key st K[THEN conjunct2] S g
      by (cases n) (auto simp: OpenFile_def opened_def same_lookups_def)
  qed
qed

lemma start_lookup_inv:
  assumes "start_lookup (cfRealPath f) fs = (fs', n)" "digest_inv os H (fs, w)" "opened os f" "runningLookups fs (cfRealPath f) = None"
  shows "digest_inv os H (fs', w(n \<mapsto> f))"
proof -
  have n: "n = nextLookup fs" and fs': "fs' = fs\<lparr>runningLookups := (runningLookups fs)(cfRealPath f \<mapsto> n),
      lookups := (lookups fs)(n \<mapsto> (cfRealPath f, Pending)), nextLookup := Suc n\<rparr>"
    using assms(1) by (auto simp: start_lookup_def Let_def)
  have new: "lookups fs n = None" using assms(2) by (simp add: n digest_inv_def lookups_ok_def)
  moreover have "runningLookups fs k \<noteq> Some n" for k using assms(2) new by (simp add: digest_inv_def lookups_ok_def)
  moreover have "w n = None" using assms(2) new lookups_okD(2)[of os H fs w n] by (cases "w n") (auto simp: digest_inv_def)
  moreover have "lookups fs m = None" if "Suc n \<le> m" for m using assms(2) that by (simp add: n digest_inv_def lookups_ok_def)
  moreover have "cfRealPath g \<noteq> cfRealPath f" if "w m = Some g" for m g
    using assms(2,4) that lookups_okD(1,2)[where os = os and H = H and fs = fs and w = w and k = "cfRealPath f" and n = m] by (auto simp: digest_inv_def)
  ultimately have "lookups_ok os H (fs', w(n \<mapsto> f))"
    using assms(2,3) unfolding digest_inv_def lookups_ok_def fs' by auto
  moreover have "caches_ok os H fs'" using assms(2) by (simp add: digest_inv_def caches_ok_def fs')
  ultimately show ?thesis by (simp add: digest_inv_def)
qed

lemma digest_for_calculated: "opened os f \<Longrightarrow> calculateDigest H f = Inr d \<Longrightarrow> digest_for os H (cfRealPath f) d"
  by (fastforce simp: calculateDigest_def digest_for_def opened_def split: option.splits prod.splits)

lemma Digest_end_inv:
  assumes "digest_inv os H (fs, w)" "w n = Some f"
  shows "digest_inv os H (Digest_end f n (calculateDigest H f) fs, w(n := None))"
proof -
  let ?res = "calculateDigest H f"
  have d: "digest_for os H (cfRealPath f) d" if "?res = Inr d" for d
    using that assms by (intro digest_for_calculated) (auto simp: digest_inv_def lookups_ok_def)
  have caches: "caches_ok os H (Digest_end f n ?res fs)"
    using assms(1) d by (auto simp: digest_inv_def caches_ok_def Digest_end_def split: sum.splits)
  have pend: "lookups fs n = Some (cfRealPath f, Pending)" using assms by (auto simp: digest_inv_def lookups_ok_def)
  have run: "runningLookups fs k = Some m \<longleftrightarrow> (\<exists>g. w m = Some g \<and> cfRealPath g = k)" for k m
    using assms(1) by (simp add: digest_inv_def lookups_ok_def)
  have other: "cfRealPath g \<noteq> cfRealPath f" if "m \<noteq> n" "w m = Some g" for m g
    using run[of "cfRealPath f" m] run[of "cfRealPath f" n] assms(2) that by auto
  have old: "lookups_ok os H (fs, w)" using assms(1) by (simp add: digest_inv_def)
  then have "nextLookup fs \<le> n \<Longrightarrow> lookups fs n = None" by (simp add: lookups_ok_def)
  with pend have small: "\<not> nextLookup fs \<le> n" by auto
  have "lookups_ok os H (Digest_end f n ?res fs, w(n := None))"
    using old d assms(2) small other unfolding lookups_ok_def Digest_end_def by auto
  with caches show ?thesis by (simp add: digest_inv_def)
qed

lemma digest_step_inv:
  assumes "digest_step os H s t" "digest_inv os H s"
  shows "digest_inv os H t"
  using assms
proof (induction rule: digest_step.induct)
  case (open_step fs w p)
  obtain fs1 r where op: "OpenFile os p fs = (fs1, r)" by fastforce
  with OpenFile_spec[OF op, of H] same_lookups_inv[of os H fs w fs1] open_step show ?case by (simp add: digest_inv_def)
next
  case (invalidate_step fs w p)
  obtain fs1 k where key: "cacheKey os p fs = (fs1, k)" by fastforce
  have ok: "caches_ok os H fs1" "same_lookups fs fs1"
    using cacheKey_spec[OF key, of H] invalidate_step by (simp_all add: digest_inv_def)
  have drop: "caches_ok os H (fs1\<lparr>digestCache := (digestCache fs1)(rp := None), statCache := (statCache fs1)(rp := None)\<rparr>)" for rp
    using ok(1) by (simp add: caches_ok_def)
  have "caches_ok os H (InvalidateCache os p fs)" "same_lookups fs (InvalidateCache os p fs)"
    using ok drop by (simp_all add: InvalidateCache_def key same_lookups_def split: sum.split)
  with same_lookups_inv[of os H fs w] invalidate_step show ?case by (simp add: digest_inv_def)
next
  case (get_step fs w p)
  obtain fs1 k where key: "cacheKey os p fs = (fs1, k)" by fastforce
  then have "fst (GetCachedDigest os p fs) = fs1" by (simp add: GetCachedDigest_def split: sum.split)
  with cacheKey_spec[OF key, of H] same_lookups_inv[of os H fs w fs1] get_step show ?case by (simp add: digest_inv_def)
next
  case (compute_step f fs fs' n w)
  then show ?case by (auto simp: Digest_begin_def split: option.splits prod.splits intro: start_lookup_inv)
next
  case (precache_step f fs fs' n w)
  then show ?case by (auto simp: precache_begin_def split: if_splits prod.splits intro: start_lookup_inv)
qed (auto simp: Digest_begin_def Digest_end_inv split: option.splits prod.splits)

lemma digest_reachable_inv: "digest_reachable os H s \<Longrightarrow> digest_inv os H s"
proof (induction rule: digest_reachable.induct)
  case start
  then show ?case by (simp add: digest_inv_def caches_ok_def lookups_ok_def New_digestfs_def)
qed (rule digest_step_inv)

section \<open>What a caller gets\<close>

text \<open>Files do not change: a key has one file, and \<^verbatim>\<open>Stat\<close> tells the length of a content that can be read.\<close>

definition files_ok :: "osSys \<Rightarrow> bool" where
  "files_ok os \<longleftrightarrow>
     (\<forall>k g g'. file_at_key os k g \<longrightarrow> file_at_key os k g' \<longrightarrow> g = g') \<and>
     (\<forall>k g b n. file_at_key os k g \<longrightarrow> ofBytes g = (b, None) \<longrightarrow> ofStat g = Inr n \<longrightarrow> n = int (length b))"

lemma digest_for_opened:
  assumes "files_ok os" "opened os f" "digest_for os H (cfRealPath f) d"
  shows "\<exists>b. ofBytes (cfFile f) = (b, None) \<and> d = H b \<and> cfSize f = int (length b)"
proof -
  obtain g b where g: "file_at_key os (cfRealPath f) g" "ofBytes g = (b, None)" "d = H b"
    using assms(3) by (auto simp: digest_for_def)
  obtain g' where g': "file_at_key os (cfRealPath f) g'" "ofStat g' = Inr (cfSize f)" "file_at_key os (cfRealPath f) (cfFile f)"
    using assms(2) by (auto simp: opened_def)
  have "g' = g" "cfFile f = g" using assms(1) g(1) g'(1,3) unfolding files_ok_def by blast+
  with assms(1) g g' show ?thesis unfolding files_ok_def by blast
qed

text \<open>
  The answers of \<^verbatim>\<open>Digest\<close>: a cached digest, and the result of a lookup waited for, are those of the caller's own
  file; a lookup to wait for is being calculated by somebody, so its channel will be closed.
\<close>

lemma Digest_answers:
  assumes "digest_reachable os H (fs, w)" "files_ok os" "opened os f"
  shows "Digest_begin f fs = (fs', Cached d) \<Longrightarrow> \<exists>b. ofBytes (cfFile f) = (b, None) \<and> d = H b"
    and "lookups fs n = Some (cfRealPath f, st) \<Longrightarrow> Digest_wait n fs = Some (Inr d) \<Longrightarrow> \<exists>b. ofBytes (cfFile f) = (b, None) \<and> d = H b"
    and "Digest_begin f fs = (fs', Wait n) \<Longrightarrow> \<exists>g. w n = Some g \<and> cfRealPath g = cfRealPath f \<and> lookups fs n = Some (cfRealPath f, Pending)"
proof -
  note inv = digest_reachable_inv[OF assms(1)] and own = digest_for_opened[OF assms(2,3)]
  show "Digest_begin f fs = (fs', Cached d) \<Longrightarrow> \<exists>b. ofBytes (cfFile f) = (b, None) \<and> d = H b"
    using inv own[of H d] by (auto simp: Digest_begin_def digest_inv_def caches_ok_def split: option.splits prod.splits)
  show "lookups fs n = Some (cfRealPath f, st) \<Longrightarrow> Digest_wait n fs = Some (Inr d) \<Longrightarrow> \<exists>b. ofBytes (cfFile f) = (b, None) \<and> d = H b"
    using inv own[of H d] by (auto simp: Digest_wait_def digest_inv_def lookups_ok_def split: lookupState.splits)
  show "Digest_begin f fs = (fs', Wait n) \<Longrightarrow> \<exists>g. w n = Some g \<and> cfRealPath g = cfRealPath f \<and> lookups fs n = Some (cfRealPath f, Pending)"
    using inv by (auto simp: Digest_begin_def digest_inv_def lookups_ok_def split: option.splits prod.splits)
qed

text \<open>
  The file the layer writer sees when it opens a path in some state: the digest is the cached one, its own
  calculation, or that of the caller it waits for.
\<close>

definition digest_view :: "osSys \<Rightarrow> (bytes \<Rightarrow> bytes) \<Rightarrow> fileSystem \<times> (nat \<rightharpoonup> cachedDigestFile) \<Rightarrow> string \<Rightarrow> string + digestFile" where
  "digest_view os H = (\<lambda>(fs, w) path.
     case OpenFile os path fs of
       (fs1, Inl e) \<Rightarrow> Inl e
     | (fs1, Inr f) \<Rightarrow> Inr \<lparr>dfContent = ofBytes (cfFile f),
         dfDigest = (case snd (Digest_begin f fs1) of
             Cached d \<Rightarrow> Inr d
           | Compute n \<Rightarrow> calculateDigest H f
           | Wait n \<Rightarrow> calculateDigest H (the (w n))),
         dfSize = cfSize f\<rparr>)"

lemma digest_view_for:
  assumes "digest_inv os H (fs, w)" "opened os f"
    and "(case snd (Digest_begin f fs) of Cached d \<Rightarrow> Inr d | Compute n \<Rightarrow> calculateDigest H f | Wait n \<Rightarrow> calculateDigest H (the (w n))) = Inr h"
  shows "digest_for os H (cfRealPath f) h"
proof (cases "snd (Digest_begin f fs)")
  case (Cached d)
  with assms show ?thesis by (auto simp: Digest_begin_def digest_inv_def caches_ok_def split: option.splits prod.splits)
next
  case (Compute n)
  with assms(2,3) show ?thesis by (simp add: digest_for_calculated)
next
  case (Wait n)
  then have "runningLookups fs (cfRealPath f) = Some n" by (auto simp: Digest_begin_def split: option.splits prod.splits)
  then obtain g where "w n = Some g" "cfRealPath g = cfRealPath f" "opened os g"
    using assms(1) by (auto simp: digest_inv_def lookups_ok_def)
  with assms(3) Wait digest_for_calculated[of os g H h] show ?thesis by simp
qed

lemma digestfs_provides:
  assumes "digest_reachable os (hashFn E) s" "files_ok os" "openFile E = digest_view os (hashFn E) s"
  shows "digestfs_ok E"
  unfolding digestfs_ok_def
proof (intro allI impI)
  fix p df h assume df: "openFile E p = Inr df" "dfDigest df = Inr h"
  obtain fs w where s: "s = (fs, w)" by (cases s)
  obtain fs1 r where op: "OpenFile os p fs = (fs1, r)" by fastforce
  have inv: "caches_ok os (hashFn E) fs" "lookups_ok os (hashFn E) (fs, w)"
    using digest_reachable_inv[OF assms(1)] by (simp_all add: s digest_inv_def)
  note O = OpenFile_spec[OF op inv(1)]
  from df op obtain f where f: "r = Inr f" by (cases r) (auto simp: assms(3) digest_view_def s)
  have inv1: "digest_inv os (hashFn E) (fs1, w)" using O inv(2) by (auto simp: digest_inv_def intro: same_lookups_inv)
  have "digest_for os (hashFn E) (cfRealPath f) h"
    by (rule digest_view_for[OF inv1]) (use O f df op in \<open>auto simp: assms(3) digest_view_def s\<close>)
  with digest_for_opened[OF assms(2)] O f df op
  show "h = hashFn E (fst (dfContent df)) \<and> dfSize df = int (length (fst (dfContent df)))"
    by (force simp: assms(3) digest_view_def s)
qed

end
