(* ===== verification/Slot_Pool.thy ===== *)
theory Slot_Pool
  imports Prelude
begin

text \<open>
  \<^verbatim>\<open>pkg/registryopts/concurrency.go\<close>: the pool that bounds how many requests to a registry are in flight.
  A request takes a slot or joins a first-in-first-out queue of channels, each of capacity one, and
  gives the slot back once.  The critical sections under the pool's mutex are the atomic steps; the
  \<^verbatim>\<open>select\<close> of a waiting request may take either branch when both are ready.  Channels and requests are
  numbered, and sending on a channel that is full would block with the mutex held: \<open>None\<close>.
\<close>

section \<open>The pool\<close>

datatype role = RoleDestination | RoleSource | RoleAuto

datatype poolID = PoolDestination | PoolSource

definition role_pool :: "role \<Rightarrow> string \<Rightarrow> poolID" where
  "role_pool r method =
     (case r of
        RoleSource \<Rightarrow> PoolSource
      | RoleAuto \<Rightarrow> if method \<in> {''GET'', ''HEAD'', []} then PoolSource else PoolDestination
      | RoleDestination \<Rightarrow> PoolDestination)"

type_synonym chan = nat

record slotPool =
  spId :: poolID
  limit :: int
  held :: int
  waiters :: "chan list"
  peak :: int
  total :: int
  blocked :: int
  waitNanos :: int

text \<open>The buffers of the channels.\<close>

type_synonym bufs = "chan \<rightharpoonup> int"

definition newSlotPool :: "poolID \<Rightarrow> int \<Rightarrow> slotPool" where
  "newSlotPool i lim =
     \<lparr>spId = i, limit = (if lim < 0 then 0 else lim), held = 0, waiters = [], peak = 0, total = 0, blocked = 0, waitNanos = 0\<rparr>"

definition hasCapacityLocked :: "slotPool \<Rightarrow> bool" where
  "hasCapacityLocked p \<longleftrightarrow> limit p = 0 \<or> held p < limit p"

definition admitLocked :: "slotPool \<Rightarrow> slotPool \<times> int" where
  "admitLocked p =
     (let p1 = p\<lparr>held := held p + 1, total := total p + 1\<rparr>;
          p2 = (if held p1 > peak p1 then p1\<lparr>peak := held p1\<rparr> else p1)
      in (p2, held p2))"

definition chan_send :: "chan \<Rightarrow> int \<Rightarrow> bufs \<Rightarrow> bufs option" where
  "chan_send ch v bs = (case bs ch of None \<Rightarrow> Some (bs(ch \<mapsto> v)) | Some _ \<Rightarrow> None)"

function grantLocked :: "slotPool \<Rightarrow> bufs \<Rightarrow> (slotPool \<times> bufs) option" where
  "grantLocked p bs =
     (case waiters p of
        [] \<Rightarrow> Some (p, bs)
      | ch # rest \<Rightarrow>
          if hasCapacityLocked p then
            (case admitLocked (p\<lparr>waiters := rest\<rparr>) of (p1, n) \<Rightarrow>
              (case chan_send ch n bs of None \<Rightarrow> None | Some bs1 \<Rightarrow> grantLocked p1 bs1))
          else Some (p, bs))"
  by pat_completeness auto
termination
  by (relation "measure (\<lambda>(p, bs). length (waiters p))") (auto simp: admitLocked_def Let_def)

declare grantLocked.simps [simp del]

definition setLimit :: "int \<Rightarrow> slotPool \<Rightarrow> bufs \<Rightarrow> (slotPool \<times> bufs) option" where
  "setLimit lim p bs = grantLocked (p\<lparr>limit := (if lim < 0 then 0 else lim)\<rparr>) bs"

definition releaseLocked :: "slotPool \<Rightarrow> bufs \<Rightarrow> (slotPool \<times> bufs) option" where
  "releaseLocked p bs = grantLocked (p\<lparr>held := held p - 1\<rparr>) bs"

text \<open>The first occurrence of the channel is removed.\<close>

fun remove_waiter :: "chan \<Rightarrow> chan list \<Rightarrow> chan list option" where
  "remove_waiter ch [] = None"
| "remove_waiter ch (q # qs) = (if q = ch then Some qs else map_option ((#) q) (remove_waiter ch qs))"

definition dequeueLocked :: "chan \<Rightarrow> slotPool \<Rightarrow> slotPool option" where
  "dequeueLocked ch p = map_option (\<lambda>ws. p\<lparr>waiters := ws\<rparr>) (remove_waiter ch (waiters p))"

record poolStats =
  stLimit :: int
  stInFlight :: int
  stPeak :: int
  stTotal :: int
  stBlocked :: int
  stWait :: int

definition pool_stats :: "slotPool \<Rightarrow> poolStats" where
  "pool_stats p =
     \<lparr>stLimit = limit p, stInFlight = held p, stPeak = peak p, stTotal = total p, stBlocked = blocked p, stWait = waitNanos p\<rparr>"

section \<open>Requests\<close>

text \<open>A request has not asked yet, waits on its channel, holds a slot, has given it back, or gave up waiting.\<close>

datatype phase = Fresh | Waiting chan | Holding | Released | Cancelled

record poolSys =
  pool :: slotPool
  buffers :: bufs
  nextChan :: chan
  phases :: "nat \<Rightarrow> phase"

definition setPhase :: "nat \<Rightarrow> phase \<Rightarrow> poolSys \<Rightarrow> poolSys" where
  "setPhase r ph s = s\<lparr>phases := (phases s)(r := ph)\<rparr>"

definition put_pool :: "poolSys \<Rightarrow> slotPool \<times> bufs \<Rightarrow> poolSys" where
  "put_pool s pb = s\<lparr>pool := fst pb, buffers := snd pb\<rparr>"

text \<open>The first critical section of \<^verbatim>\<open>acquire\<close>.\<close>

definition acquire_start :: "nat \<Rightarrow> poolSys \<Rightarrow> poolSys" where
  "acquire_start r s =
     (if hasCapacityLocked (pool s) then setPhase r Holding (s\<lparr>pool := fst (admitLocked (pool s))\<rparr>)
      else let ch = nextChan s; p = pool s
           in setPhase r (Waiting ch)
                (s\<lparr>pool := p\<lparr>waiters := waiters p @ [ch], blocked := blocked p + 1\<rparr>, nextChan := nextChan s + 1\<rparr>))"

text \<open>The two branches of the \<^verbatim>\<open>select\<close>: the slot arrives, after \<open>waited\<close> nanoseconds, or the context is cancelled.\<close>

definition acquire_receive :: "nat \<Rightarrow> chan \<Rightarrow> int \<Rightarrow> poolSys \<Rightarrow> poolSys" where
  "acquire_receive r ch waited s =
     setPhase r Holding (s\<lparr>pool := (pool s)\<lparr>waitNanos := waitNanos (pool s) + waited\<rparr>, buffers := (buffers s)(ch := None)\<rparr>)"

definition acquire_cancel :: "nat \<Rightarrow> chan \<Rightarrow> poolSys \<Rightarrow> poolSys option" where
  "acquire_cancel r ch s =
     (case dequeueLocked ch (pool s) of
        Some p \<Rightarrow> Some (setPhase r Cancelled (s\<lparr>pool := p\<rparr>))
      | None \<Rightarrow> map_option (\<lambda>pb. setPhase r Cancelled (put_pool s pb)) (releaseLocked (pool s) (buffers s)))"

text \<open>The function that \<^verbatim>\<open>releaser\<close> returns to a request: only its first call does anything.\<close>

definition release_call :: "nat \<Rightarrow> poolSys \<Rightarrow> poolSys option" where
  "release_call r s =
     (if phases s r = Holding
      then map_option (\<lambda>pb. setPhase r Released (put_pool s pb)) (releaseLocked (pool s) (buffers s))
      else Some s)"

definition limit_call :: "int \<Rightarrow> poolSys \<Rightarrow> poolSys option" where
  "limit_call lim s = map_option (put_pool s) (setLimit lim (pool s) (buffers s))"

datatype label = Acquire nat | Receive nat int | Cancel nat | Release nat | Limit int

inductive pool_step :: "poolSys \<Rightarrow> label \<Rightarrow> poolSys \<Rightarrow> bool" where
  step_acquire: "phases s r = Fresh \<Longrightarrow> pool_step s (Acquire r) (acquire_start r s)"
| step_receive: "phases s r = Waiting ch \<Longrightarrow> buffers s ch = Some n \<Longrightarrow> pool_step s (Receive r w) (acquire_receive r ch w s)"
| step_cancel: "phases s r = Waiting ch \<Longrightarrow> acquire_cancel r ch s = Some s' \<Longrightarrow> pool_step s (Cancel r) s'"
| step_release: "phases s r = Holding \<or> phases s r = Released \<Longrightarrow> release_call r s = Some s' \<Longrightarrow> pool_step s (Release r) s'"
| step_limit: "limit_call lim s = Some s' \<Longrightarrow> pool_step s (Limit lim) s'"

inductive_cases pool_stepE: "pool_step s l s'"

inductive pool_run :: "poolSys \<Rightarrow> label list \<Rightarrow> poolSys \<Rightarrow> bool" where
  run_nil: "pool_run s [] s"
| run_snoc: "pool_run s ls s1 \<Longrightarrow> pool_step s1 l s2 \<Longrightarrow> pool_run s (ls @ [l]) s2"

definition pool_init :: "poolID \<Rightarrow> int \<Rightarrow> poolSys" where
  "pool_init i lim = \<lparr>pool = newSlotPool i lim, buffers = Map.empty, nextChan = 0, phases = \<lambda>_. Fresh\<rparr>"

section \<open>The tracker\<close>

record concurrencyTracker =
  poolDestination :: slotPool
  poolSource :: slotPool
  envLimit :: bool

definition newConcurrencyTracker :: "int \<Rightarrow> bool \<Rightarrow> concurrencyTracker" where
  "newConcurrencyTracker destinationLimit fromEnv =
     \<lparr>poolDestination = newSlotPool PoolDestination destinationLimit, poolSource = newSlotPool PoolSource 0, envLimit = fromEnv\<rparr>"

text \<open>The limit a \<^verbatim>\<open>--jobs\<close> value sets on the destination pool, if any.\<close>

definition limitToJobs :: "int \<Rightarrow> concurrencyTracker \<Rightarrow> bufs \<Rightarrow> (concurrencyTracker \<times> bufs) option" where
  "limitToJobs jobs t bs =
     (if envLimit t \<or> jobs \<le> 0 then Some (t, bs)
      else map_option (\<lambda>(p, bs'). (t\<lparr>poolDestination := p\<rparr>, bs')) (setLimit jobs (poolDestination t) bs))"

text \<open>A response as \<^verbatim>\<open>RoundTrip\<close> sees it: status, and whether there is a body to stream.\<close>

record rtResponse =
  rtStatus :: nat
  rtHasBody :: bool

definition holdsSlotUntilBodyClose :: "poolID \<Rightarrow> string \<Rightarrow> rtResponse \<Rightarrow> bool" where
  "holdsSlotUntilBodyClose p method resp =
     (if p \<noteq> PoolSource \<or> method \<noteq> ''GET'' then False
      else if rtStatus resp \<noteq> 200 \<and> rtStatus resp \<noteq> 206 then False
      else rtHasBody resp)"

text \<open>What becomes of the slot once the inner round trip has returned.\<close>

datatype slotFate = ReleaseNow | ReleaseOnClose

definition roundtrip_fate :: "role \<Rightarrow> string \<Rightarrow> string + rtResponse option \<Rightarrow> slotFate" where
  "roundtrip_fate r method res =
     (case res of
        Inl _ \<Rightarrow> ReleaseNow
      | Inr None \<Rightarrow> ReleaseNow
      | Inr (Some resp) \<Rightarrow>
          if \<not> holdsSlotUntilBodyClose (role_pool r method) method resp then ReleaseNow else ReleaseOnClose)"

text \<open>A request to the destination gives its slot back when the round trip returns, whatever the answer.\<close>

lemma destination_releases_at_once: "role_pool r method = PoolDestination \<Longrightarrow> roundtrip_fate r method res = ReleaseNow"
  by (simp add: roundtrip_fate_def holdsSlotUntilBodyClose_def split: sum.split option.split)

end
