(* ===== verification/Slot_Pool_Sim.thy ===== *)
theory Slot_Pool_Sim
  imports Slot_Pool
begin

text \<open>
  The slot pool as a first-in-first-out semaphore.  The abstract semaphore has a limit, the set of
  requests that own a slot, and a queue of requests; each of its steps edits one of them and then
  promotes requests from the head of the queue while there is room.  Every run of the pool, in any
  interleaving of its callers, refines a run of the semaphore; the bound, the order of admission and
  the progress of waiting requests are read off it.
\<close>

section \<open>The semaphore\<close>

record fifo =
  fLimit :: int
  fOwners :: "nat set"
  fQueue :: "nat list"

definition room :: "fifo \<Rightarrow> nat" where
  "room f = (if fLimit f = 0 then length (fQueue f) else nat (fLimit f - int (card (fOwners f))))"

definition promote :: "fifo \<Rightarrow> fifo" where
  "promote f = f\<lparr>fOwners := fOwners f \<union> set (take (room f) (fQueue f)), fQueue := drop (room f) (fQueue f)\<rparr>"

fun fifo_edit :: "label \<Rightarrow> fifo \<Rightarrow> fifo" where
  "fifo_edit (Acquire r) f = f\<lparr>fQueue := fQueue f @ [r]\<rparr>"
| "fifo_edit (Receive r w) f = f"
| "fifo_edit (Cancel r) f = f\<lparr>fOwners := fOwners f - {r}, fQueue := removeAll r (fQueue f)\<rparr>"
| "fifo_edit (Release r) f = f\<lparr>fOwners := fOwners f - {r}\<rparr>"
| "fifo_edit (Limit lim) f = f\<lparr>fLimit := max 0 lim\<rparr>"

definition fifo_step :: "fifo \<Rightarrow> label \<Rightarrow> fifo" where
  "fifo_step f l = promote (fifo_edit l f)"

definition fifo_init :: "int \<Rightarrow> fifo" where
  "fifo_init lim = \<lparr>fLimit = max 0 lim, fOwners = {}, fQueue = []\<rparr>"

text \<open>No request waits while there is room.\<close>

definition settled :: "fifo \<Rightarrow> bool" where
  "settled f \<longleftrightarrow> fQueue f = [] \<or> (fLimit f > 0 \<and> int (card (fOwners f)) \<ge> fLimit f)"

lemma promote_settled: "settled f \<Longrightarrow> promote f = f"
  by (auto simp: settled_def promote_def room_def)

lemma promote_Nil: "fQueue f = [] \<Longrightarrow> promote f = f"
  by (simp add: promote_settled settled_def)

lemma promote_Cons:
  assumes "fQueue f = r # q" and "fLimit f = 0 \<or> int (card (fOwners f)) < fLimit f"
    and "finite (fOwners f)" and "r \<notin> fOwners f"
  shows "promote f = promote (f\<lparr>fOwners := insert r (fOwners f), fQueue := q\<rparr>)"
proof (cases "fLimit f = 0")
  case True
  with assms show ?thesis by (simp add: promote_def room_def)
next
  case False
  then have "nat (fLimit f - int (card (fOwners f))) = Suc (nat (fLimit f - int (Suc (card (fOwners f)))))"
    using assms(2) by linarith
  with False assms show ?thesis by (simp add: promote_def room_def)
qed

section \<open>The simulation relation\<close>

definition owners :: "poolSys \<Rightarrow> nat set" where
  "owners s = {r. phases s r = Holding \<or> (\<exists>ch. phases s r = Waiting ch \<and> ch \<notin> set (waiters (pool s)))}"

text \<open>The requests that gave a slot back.\<close>

definition given_back :: "poolSys \<Rightarrow> int" where
  "given_back s = total (pool s) - held (pool s)"

definition channels_ok :: "poolSys \<Rightarrow> bool" where
  "channels_ok s \<longleftrightarrow>
     distinct (waiters (pool s)) \<and>
     (\<forall>r r' ch. phases s r = Waiting ch \<longrightarrow> phases s r' = Waiting ch \<longrightarrow> r = r') \<and>
     (\<forall>r ch. phases s r = Waiting ch \<longrightarrow> ch < nextChan s \<and> (buffers s ch = None \<longleftrightarrow> ch \<in> set (waiters (pool s)))) \<and>
     (\<forall>ch\<ge>nextChan s. buffers s ch = None)"

definition slot_rel :: "poolSys \<Rightarrow> fifo \<Rightarrow> bool" where
  "slot_rel s f \<longleftrightarrow>
     channels_ok s \<and>
     fLimit f = limit (pool s) \<and> 0 \<le> limit (pool s) \<and>
     finite (owners s) \<and> fOwners f = owners s \<and> held (pool s) = int (card (owners s)) \<and>
     held (pool s) \<le> peak (pool s) \<and>
     list_all2 (\<lambda>ch r. phases s r = Waiting ch) (waiters (pool s)) (fQueue f)"

lemmas slot_defs = slot_rel_def channels_ok_def owners_def

lemma slot_relD:
  assumes "slot_rel s f"
  shows "channels_ok s" "fLimit f = limit (pool s)" "0 \<le> limit (pool s)" "finite (owners s)"
    "fOwners f = owners s" "held (pool s) = int (card (owners s))" "held (pool s) \<le> peak (pool s)"
    "list_all2 (\<lambda>ch r. phases s r = Waiting ch) (waiters (pool s)) (fQueue f)"
  using assms by (auto simp: slot_rel_def)

lemma channels_okD:
  assumes "channels_ok s" "phases s r = Waiting ch"
  shows "ch < nextChan s" "buffers s ch = None \<longleftrightarrow> ch \<in> set (waiters (pool s))" "phases s r' = Waiting ch \<Longrightarrow> r' = r"
  using assms unfolding channels_ok_def by blast+

lemma waiter_request:
  assumes "slot_rel s f" "ch \<in> set (waiters (pool s))"
  obtains r where "phases s r = Waiting ch"
  using assms slot_relD(8)[OF assms(1)] by (auto simp: in_set_conv_nth list_all2_conv_all_nth)

lemma owners_put: "waiters (fst pb) = waiters (pool s) \<Longrightarrow> owners (put_pool s pb) = owners s"
  by (simp add: owners_def put_pool_def)

text \<open>Granting the head of the queue.\<close>

lemma owners_grant_head:
  assumes "channels_ok s" "waiters (pool s) = ch # ws" "phases s r = Waiting ch"
  shows "waiters p' = ws \<Longrightarrow> owners (put_pool s (p', bs)) = insert r (owners s)" "r \<notin> owners s"
  using assms by (auto simp: owners_def channels_ok_def put_pool_def)

lemma slot_rel_grant_head:
  assumes rel: "slot_rel s f" and ws: "waiters (pool s) = ch # ws" and q: "fQueue f = r # q"
    and adm: "admitLocked ((pool s)\<lparr>waiters := ws\<rparr>) = (p', n)"
  shows "slot_rel (put_pool s (p', (buffers s)(ch \<mapsto> n))) (f\<lparr>fOwners := insert r (fOwners f), fQueue := q\<rparr>)"
proof -
  let ?s = "put_pool s (p', (buffers s)(ch \<mapsto> n))"
  have r: "phases s r = Waiting ch" and q': "list_all2 (\<lambda>ch r. phases s r = Waiting ch) ws q"
    using slot_relD(8)[OF rel] ws q by auto
  have ok: "channels_ok s" by (rule slot_relD(1)[OF rel])
  have p': "waiters p' = ws" "held p' = held (pool s) + 1" "held p' \<le> peak p'" "limit p' = limit (pool s)"
    using adm slot_relD(7)[OF rel] by (auto simp: admitLocked_def Let_def split: if_splits)
  note own = owners_grant_head(1)[OF ok ws r p'(1)] owners_grant_head(2)[OF ok ws r]
  have "channels_ok ?s"
    using ok ws r p' unfolding channels_ok_def put_pool_def by (auto dest: leD)
  with own p' q' slot_relD[OF rel] show ?thesis
    by (simp add: slot_rel_def) (simp add: put_pool_def)
qed

lemma grantLocked_refines:
  "slot_rel s f \<Longrightarrow>
   \<exists>pb. grantLocked (pool s) (buffers s) = Some pb \<and> slot_rel (put_pool s pb) (promote f) \<and>
     total (fst pb) - held (fst pb) = total (pool s) - held (pool s)"
proof (induction "length (waiters (pool s))" arbitrary: s f)
  case 0
  then have "fQueue f = []" "waiters (pool s) = []" by (auto simp: slot_rel_def)
  with 0 show ?case
    by (simp add: promote_Nil grantLocked.simps[of "pool s"] put_pool_def)
next
  case (Suc k)
  note rel = Suc.prems
  obtain ch ws where ws: "waiters (pool s) = ch # ws" using Suc.hyps by (cases "waiters (pool s)") auto
  then obtain r q where q: "fQueue f = r # q" and r: "phases s r = Waiting ch"
    using slot_relD(8)[OF rel] by (auto simp: list_all2_Cons1)
  have r_no: "r \<notin> fOwners f"
    using owners_grant_head(2)[OF slot_relD(1)[OF rel] ws r] slot_relD(5)[OF rel] by auto
  have cap: "hasCapacityLocked (pool s) \<longleftrightarrow> fLimit f = 0 \<or> int (card (fOwners f)) < fLimit f"
    using slot_relD[OF rel] by (simp add: hasCapacityLocked_def)
  show ?case
  proof (cases "hasCapacityLocked (pool s)")
    case False
    then have "promote f = f"
      using cap slot_relD(2,3)[OF rel] by (intro promote_settled) (auto simp: settled_def)
    with False rel ws show ?thesis
      by (simp add: grantLocked.simps[of "pool s"] put_pool_def)
  next
    case True
    obtain p' n where adm: "admitLocked ((pool s)\<lparr>waiters := ws\<rparr>) = (p', n)" by fastforce
    let ?s = "put_pool s (p', (buffers s)(ch \<mapsto> n))"
    have free: "buffers s ch = None"
      using slot_relD(1)[OF rel] ws r by (auto simp: channels_ok_def)
    have p': "waiters p' = ws" "total p' - held p' = total (pool s) - held (pool s)"
      using adm by (auto simp: admitLocked_def Let_def split: if_splits)
    have "\<exists>pb. grantLocked (pool ?s) (buffers ?s) = Some pb \<and>
        slot_rel (put_pool ?s pb) (promote (f\<lparr>fOwners := insert r (fOwners f), fQueue := q\<rparr>)) \<and>
        total (fst pb) - held (fst pb) = total (pool ?s) - held (pool ?s)"
      using slot_rel_grant_head[OF rel ws q adm] p' Suc.hyps(2) ws
      by (intro Suc.hyps(1)) (auto simp: put_pool_def)
    moreover have "promote (f\<lparr>fOwners := insert r (fOwners f), fQueue := q\<rparr>) = promote f"
      using promote_Cons[OF q _ _ r_no] True cap slot_relD(4,5)[OF rel] by simp
    ultimately show ?thesis
      using True ws adm free p'
      by (auto simp: grantLocked.simps[of "pool s"] chan_send_def put_pool_def)
  qed
qed

lemma settled_promote:
  assumes "0 \<le> fLimit f" "finite (fOwners f)" "distinct (fQueue f)" "set (fQueue f) \<inter> fOwners f = {}"
  shows "settled (promote f)"
proof (cases "room f < length (fQueue f)")
  case True
  then have pos: "fLimit f > 0" using assms(1) by (auto simp: room_def split: if_splits)
  have "set (take (room f) (fQueue f)) \<inter> fOwners f = {}"
    using assms(4) set_take_subset by fast
  then have "card (fOwners f \<union> set (take (room f) (fQueue f))) = card (fOwners f) + room f"
    using True assms(2,3) by (subst card_Un_disjoint) (auto simp: distinct_card)
  with pos True show ?thesis
    by (auto simp: settled_def promote_def room_def)
next
  case False
  then show ?thesis by (simp add: settled_def promote_def)
qed

lemma slot_rel_queue:
  assumes "slot_rel s f"
  shows "distinct (fQueue f)" "set (fQueue f) \<inter> fOwners f = {}"
proof -
  note rel = slot_relD[OF assms]
  have nth: "phases s (fQueue f ! i) = Waiting (waiters (pool s) ! i)" if "i < length (fQueue f)" for i
    using rel(8) that by (simp add: list_all2_conv_all_nth)
  have len: "length (waiters (pool s)) = length (fQueue f)"
    using rel(8) by (rule list_all2_lengthD)
  have "distinct (waiters (pool s))" using rel(1) by (simp add: channels_ok_def)
  with nth len show "distinct (fQueue f)"
    unfolding distinct_conv_nth by (metis phase.inject)
  have "r \<notin> owners s" if "r \<in> set (fQueue f)" for r
    using that nth len by (auto simp: in_set_conv_nth owners_def)
  with rel(5) show "set (fQueue f) \<inter> fOwners f = {}" by auto
qed

definition fifo_wf :: "fifo \<Rightarrow> bool" where
  "fifo_wf f \<longleftrightarrow> 0 \<le> fLimit f \<and> finite (fOwners f) \<and> distinct (fQueue f) \<and> set (fQueue f) \<inter> fOwners f = {}"

lemma slot_rel_wf: "slot_rel s f \<Longrightarrow> fifo_wf f"
  using slot_rel_queue[of s f] slot_relD[of s f] by (simp add: fifo_wf_def)

lemma fifo_edit_wf:
  "fifo_wf f \<Longrightarrow> (\<And>r. l = Acquire r \<Longrightarrow> r \<notin> fOwners f \<and> r \<notin> set (fQueue f)) \<Longrightarrow> fifo_wf (fifo_edit l f)"
  by (cases l) (auto simp: fifo_wf_def distinct_removeAll)

lemma fifo_step_settled: "fifo_wf (fifo_edit l f) \<Longrightarrow> settled (fifo_step f l)"
  by (simp add: fifo_wf_def fifo_step_def settled_promote)

lemma fresh_unknown: "slot_rel s f \<Longrightarrow> phases s r = Fresh \<Longrightarrow> r \<notin> fOwners f \<and> r \<notin> set (fQueue f)"
  using slot_relD(5,8)[of s f] by (auto simp: owners_def in_set_conv_nth list_all2_conv_all_nth)

section \<open>The steps\<close>

lemma slot_rel_grant:
  assumes "slot_rel s f"
  obtains pb where "grantLocked (pool s) (buffers s) = Some pb" "slot_rel (put_pool s pb) (promote f)"
    "total (fst pb) - held (fst pb) = total (pool s) - held (pool s)"
  using grantLocked_refines[OF assms] by blast

lemma owners_setPhase:
  "r \<in> owners s \<Longrightarrow> (\<And>ch. ph \<noteq> Waiting ch) \<Longrightarrow> ph \<noteq> Holding \<Longrightarrow> owners (setPhase r ph s) = owners s - {r}"
  by (auto simp: owners_def setPhase_def)

lemma owners_pool_cong:
  "waiters (pool s') = waiters (pool s) \<Longrightarrow> phases s' = phases s \<Longrightarrow> owners s' = owners s"
  by (simp add: owners_def)

text \<open>A request that owns a slot gives it back.\<close>

definition gone :: "nat \<Rightarrow> phase \<Rightarrow> poolSys \<Rightarrow> poolSys" where
  "gone r ph s = setPhase r ph (s\<lparr>pool := (pool s)\<lparr>held := held (pool s) - 1\<rparr>\<rparr>)"

lemma slot_rel_gone:
  assumes rel: "slot_rel s f" and r: "r \<in> owners s" and ph: "ph = Released \<or> ph = Cancelled"
  shows "slot_rel (gone r ph s) (f\<lparr>fOwners := fOwners f - {r}\<rparr>)"
proof -
  have own: "owners (gone r ph s) = owners s - {r}"
    using r ph unfolding gone_def
    by (subst owners_setPhase) (auto simp: owners_def)
  have "channels_ok (gone r ph s)"
    using slot_relD(1)[OF rel] ph by (auto simp: channels_ok_def gone_def setPhase_def)
  moreover have "int (card (owners s - {r})) = int (card (owners s)) - 1"
    using r slot_relD(4)[OF rel] card_Suc_Diff1[of "owners s" r] by simp
  moreover have "list_all2 (\<lambda>ch r'. phases (gone r ph s) r' = Waiting ch) (waiters (pool s)) (fQueue f)"
    using slot_relD(8)[OF rel] slot_rel_queue(2)[OF rel] r slot_relD(5)[OF rel]
    by (auto simp: gone_def setPhase_def elim!: list.rel_mono_strong)
  ultimately show ?thesis
    using own slot_relD[OF rel] by (simp add: slot_rel_def) (simp add: gone_def setPhase_def)
qed

lemma releaseLocked_refines:
  assumes rel: "slot_rel s f" and r: "r \<in> owners s" and ph: "ph = Released \<or> ph = Cancelled"
  obtains pb where "releaseLocked (pool s) (buffers s) = Some pb"
    "slot_rel (setPhase r ph (put_pool s pb)) (promote (f\<lparr>fOwners := fOwners f - {r}\<rparr>))"
    "total (fst pb) - held (fst pb) = given_back s + 1"
proof -
  have eq: "put_pool (gone r ph s) pb = setPhase r ph (put_pool s pb)" for pb
    by (simp add: put_pool_def gone_def setPhase_def)
  have pool: "pool (gone r ph s) = (pool s)\<lparr>held := held (pool s) - 1\<rparr>" "buffers (gone r ph s) = buffers s"
    by (simp_all add: gone_def setPhase_def)
  obtain pb where "grantLocked (pool (gone r ph s)) (buffers (gone r ph s)) = Some pb"
    "slot_rel (put_pool (gone r ph s) pb) (promote (f\<lparr>fOwners := fOwners f - {r}\<rparr>))"
    "total (fst pb) - held (fst pb) = total (pool (gone r ph s)) - held (pool (gone r ph s))"
    by (rule slot_rel_grant[OF slot_rel_gone[OF rel r ph]])
  then show thesis
    using that[of pb] by (simp add: pool eq releaseLocked_def given_back_def)
qed

lemma remove_waiter_eq: "remove_waiter ch ws = (if ch \<in> set ws then Some (remove1 ch ws) else None)"
  by (induction ws) auto

lemma list_all2_remove1_removeAll:
  "list_all2 P xs ys \<Longrightarrow> distinct xs \<Longrightarrow> distinct ys \<Longrightarrow> P x y \<Longrightarrow> x \<in> set xs \<Longrightarrow>
   (\<And>a b. P a b \<Longrightarrow> a = x \<longleftrightarrow> b = y) \<Longrightarrow> list_all2 P (remove1 x xs) (removeAll y ys)"
proof (induction rule: list_all2_induct)
  case (Cons a as b bs)
  then show ?case by (cases "a = x") auto
qed simp

lemma queued_iff:
  assumes rel: "slot_rel s f" and w: "phases s r = Waiting ch"
  shows "r \<in> set (fQueue f) \<longleftrightarrow> ch \<in> set (waiters (pool s))"
proof
  assume "r \<in> set (fQueue f)"
  with slot_relD(8)[OF rel] w show "ch \<in> set (waiters (pool s))"
    by (auto simp: in_set_conv_nth list_all2_conv_all_nth)
next
  assume "ch \<in> set (waiters (pool s))"
  then obtain i where "i < length (fQueue f)" "phases s (fQueue f ! i) = Waiting ch"
    using slot_relD(8)[OF rel] by (auto simp: in_set_conv_nth list_all2_conv_all_nth)
  with slot_relD(1)[OF rel] w show "r \<in> set (fQueue f)"
    by (auto simp: channels_ok_def in_set_conv_nth)
qed


lemma step_Acquire:
  assumes rel: "slot_rel s f" and set: "settled f" and r: "phases s r = Fresh"
  shows "slot_rel (acquire_start r s) (fifo_step f (Acquire r))" "given_back (acquire_start r s) = given_back s"
proof -
  note D = slot_relD[OF rel]
  have no: "r \<notin> owners s" "r \<notin> set (fQueue f)"
    using fresh_unknown[OF rel r] D(5) by simp_all
  show "given_back (acquire_start r s) = given_back s"
    by (simp add: acquire_start_def given_back_def admitLocked_def Let_def setPhase_def)
  show "slot_rel (acquire_start r s) (fifo_step f (Acquire r))"
  proof (cases "hasCapacityLocked (pool s)")
    case True
    with set D have q: "fQueue f = []" by (auto simp: settled_def hasCapacityLocked_def)
    then have ws: "waiters (pool s) = []" using D(8) by simp
    have own: "owners (acquire_start r s) = insert r (owners s)"
      using True ws by (auto simp: owners_def acquire_start_def setPhase_def admitLocked_def Let_def)
    have "fifo_step f (Acquire r) = f\<lparr>fOwners := insert r (fOwners f)\<rparr>"
      using True q D no
      by (simp add: fifo_step_def promote_Cons[of _ r "[]"] promote_Nil hasCapacityLocked_def)
    moreover have "channels_ok (acquire_start r s)"
      using True D(1) by (auto simp: channels_ok_def acquire_start_def setPhase_def admitLocked_def Let_def)
    ultimately show ?thesis
      using True own D no ws q
      by (simp add: slot_rel_def) (simp add: acquire_start_def setPhase_def admitLocked_def Let_def)
  next
    case False
    have "settled (fifo_edit (Acquire r) f)"
      using False D by (auto simp: settled_def hasCapacityLocked_def)
    then have spec: "fifo_step f (Acquire r) = f\<lparr>fQueue := fQueue f @ [r]\<rparr>"
      by (simp add: fifo_step_def promote_settled)
    have fresh: "phases s r' \<noteq> Waiting (nextChan s)" "nextChan s \<notin> set (waiters (pool s))" for r'
      using channels_okD(1)[OF D(1)] waiter_request[OF rel] by (metis less_irrefl)+
    have own: "owners (acquire_start r s) = owners s"
      using False r fresh by (auto simp: owners_def acquire_start_def setPhase_def Let_def)
    have "channels_ok (acquire_start r s)"
      using False D(1) fresh r by (auto simp: channels_ok_def acquire_start_def setPhase_def Let_def less_Suc_eq)
    moreover have "list_all2 (\<lambda>ch r'. phases (acquire_start r s) r' = Waiting ch)
        (waiters (pool s) @ [nextChan s]) (fQueue f @ [r])"
      using D(8) no False
      by (intro list_all2_appendI)
        (auto simp: acquire_start_def setPhase_def Let_def elim!: list.rel_mono_strong)
    moreover have "pool (acquire_start r s) = (pool s)\<lparr>waiters := waiters (pool s) @ [nextChan s], blocked := blocked (pool s) + 1\<rparr>"
      using False by (simp add: acquire_start_def setPhase_def Let_def)
    ultimately show ?thesis
      using own D spec by (simp add: slot_rel_def)
  qed
qed

lemma step_Receive:
  assumes rel: "slot_rel s f" and set: "settled f" and r: "phases s r = Waiting ch" and n: "buffers s ch = Some n"
  shows "slot_rel (acquire_receive r ch w s) (fifo_step f (Receive r w))"
    "given_back (acquire_receive r ch w s) = given_back s"
proof -
  note D = slot_relD[OF rel]
  have out: "ch \<notin> set (waiters (pool s))" using channels_okD(2)[OF D(1) r] n by simp
  then have no: "r \<notin> set (fQueue f)" using queued_iff[OF rel r] by simp
  have own: "owners (acquire_receive r ch w s) = owners s"
    using r out by (auto simp: owners_def acquire_receive_def setPhase_def)
  have "channels_ok (acquire_receive r ch w s)"
    using D(1) r by (auto simp: channels_ok_def acquire_receive_def setPhase_def)
  moreover have "list_all2 (\<lambda>ch' r'. phases (acquire_receive r ch w s) r' = Waiting ch') (waiters (pool s)) (fQueue f)"
    using D(8) no by (auto simp: acquire_receive_def setPhase_def elim!: list.rel_mono_strong)
  ultimately show "slot_rel (acquire_receive r ch w s) (fifo_step f (Receive r w))"
    using own D promote_settled[OF set]
    by (simp add: slot_rel_def fifo_step_def) (simp add: acquire_receive_def setPhase_def)
  show "given_back (acquire_receive r ch w s) = given_back s"
    by (simp add: given_back_def acquire_receive_def setPhase_def)
qed

lemma step_Cancel_queued:
  assumes rel: "slot_rel s f" and set: "settled f" and r: "phases s r = Waiting ch" and ch: "ch \<in> set (waiters (pool s))"
  shows "\<exists>s'. acquire_cancel r ch s = Some s' \<and> slot_rel s' (fifo_step f (Cancel r)) \<and> given_back s' = given_back s"
proof -
  note D = slot_relD[OF rel]
  let ?s = "setPhase r Cancelled (s\<lparr>pool := (pool s)\<lparr>waiters := remove1 ch (waiters (pool s))\<rparr>\<rparr>)"
  have eq: "acquire_cancel r ch s = Some ?s"
    using ch by (simp add: acquire_cancel_def dequeueLocked_def remove_waiter_eq)
  have no: "r \<notin> owners s" using r ch by (auto simp: owners_def)
  have dist: "distinct (waiters (pool s))" and inj: "phases s r' = Waiting ch \<longleftrightarrow> r' = r" for r'
    using D(1) channels_okD(3)[OF D(1) r] r by (auto simp: channels_ok_def)
  have "r' \<in> owners ?s \<longleftrightarrow> r' \<in> owners s" for r'
  proof (cases "r' = r")
    case True
    with no show ?thesis by (simp add: owners_def setPhase_def)
  next
    case False
    then have "phases s r' \<noteq> Waiting ch" using inj by simp
    with False dist show ?thesis by (auto simp: owners_def setPhase_def)
  qed
  then have own: "owners ?s = owners s" by blast
  have "channels_ok ?s"
    using D(1) dist inj unfolding channels_ok_def setPhase_def by simp metis
  moreover have "list_all2 (\<lambda>ch r. phases s r = Waiting ch) (remove1 ch (waiters (pool s))) (removeAll r (fQueue f))"
    by (rule list_all2_remove1_removeAll[OF D(8) dist slot_rel_queue(1)[OF rel] r ch])
      (use r inj in \<open>metis phase.inject\<close>)
  then have "list_all2 (\<lambda>ch' r'. phases ?s r' = Waiting ch') (remove1 ch (waiters (pool s))) (removeAll r (fQueue f))"
    by (auto simp: setPhase_def elim!: list.rel_mono_strong)
  moreover have "settled (fifo_edit (Cancel r) f)"
    using set no D(5) by (auto simp: settled_def)
  ultimately have "slot_rel ?s (fifo_step f (Cancel r))"
    using own D no by (simp add: slot_rel_def fifo_step_def promote_settled) (simp add: setPhase_def)
  with eq show ?thesis by (simp add: given_back_def setPhase_def)
qed

lemma step_Cancel:
  assumes rel: "slot_rel s f" and set: "settled f" and r: "phases s r = Waiting ch"
  shows "\<exists>s'. acquire_cancel r ch s = Some s' \<and> slot_rel s' (fifo_step f (Cancel r)) \<and> given_back s \<le> given_back s'"
proof (cases "ch \<in> set (waiters (pool s))")
  case True
  with step_Cancel_queued[OF rel set r] show ?thesis by auto
next
  case False
  then have own: "r \<in> owners s" and q: "removeAll r (fQueue f) = fQueue f"
    using r queued_iff[OF rel r] by (auto simp: owners_def)
  obtain pb where "releaseLocked (pool s) (buffers s) = Some pb"
    "slot_rel (setPhase r Cancelled (put_pool s pb)) (promote (f\<lparr>fOwners := fOwners f - {r}\<rparr>))"
    "total (fst pb) - held (fst pb) = given_back s + 1"
    using releaseLocked_refines[OF rel own, of Cancelled] by blast
  moreover have "f\<lparr>fOwners := fOwners f - {r}, fQueue := fQueue f\<rparr> = f\<lparr>fOwners := fOwners f - {r}\<rparr>" by simp
  ultimately show ?thesis
    using False q
    by (auto simp: acquire_cancel_def dequeueLocked_def remove_waiter_eq fifo_step_def given_back_def setPhase_def put_pool_def)
qed

lemma step_Release:
  assumes rel: "slot_rel s f" and set: "settled f" and r: "phases s r = Holding \<or> phases s r = Released"
  shows "\<exists>s'. release_call r s = Some s' \<and> slot_rel s' (fifo_step f (Release r)) \<and> given_back s \<le> given_back s'"
proof (cases "phases s r = Holding")
  case True
  then have own: "r \<in> owners s" by (simp add: owners_def)
  obtain pb where "releaseLocked (pool s) (buffers s) = Some pb"
    "slot_rel (setPhase r Released (put_pool s pb)) (promote (f\<lparr>fOwners := fOwners f - {r}\<rparr>))"
    "total (fst pb) - held (fst pb) = given_back s + 1"
    using releaseLocked_refines[OF rel own, of Released] by blast
  with True show ?thesis
    by (auto simp: release_call_def fifo_step_def given_back_def setPhase_def put_pool_def)
next
  case False
  with r have "r \<notin> owners s" by (auto simp: owners_def)
  with False rel set show ?thesis
    by (simp add: release_call_def fifo_step_def promote_settled flip: slot_relD(5)[OF rel])
qed

lemma step_Limit:
  assumes rel: "slot_rel s f"
  shows "\<exists>s'. limit_call lim s = Some s' \<and> slot_rel s' (fifo_step f (Limit lim)) \<and> given_back s' = given_back s"
proof -
  let ?s = "s\<lparr>pool := (pool s)\<lparr>limit := (if lim < 0 then 0 else lim)\<rparr>\<rparr>"
  have "owners ?s = owners s" by (simp add: owners_def)
  moreover have "channels_ok ?s" using slot_relD(1)[OF rel] by (simp add: channels_ok_def)
  ultimately have "slot_rel ?s (f\<lparr>fLimit := max 0 lim\<rparr>)"
    using slot_relD[OF rel] by (auto simp: slot_rel_def max_def)
  then obtain pb where "grantLocked (pool ?s) (buffers ?s) = Some pb"
    "slot_rel (put_pool ?s pb) (promote (f\<lparr>fLimit := max 0 lim\<rparr>))"
    "total (fst pb) - held (fst pb) = total (pool ?s) - held (pool ?s)"
    by (rule slot_rel_grant)
  then show ?thesis
    by (simp add: limit_call_def setLimit_def fifo_step_def given_back_def put_pool_def)
qed


section \<open>Runs\<close>

text \<open>A step of a related pool is a step of the semaphore, and no slot that was given back is taken away again.\<close>

lemma pool_step_refines:
  assumes "pool_step s l s'" and "slot_rel s f" "settled f"
  shows "slot_rel s' (fifo_step f l) \<and> settled (fifo_step f l) \<and> given_back s \<le> given_back s'"
proof -
  have "slot_rel s' (fifo_step f l) \<and> given_back s \<le> given_back s'"
    using assms
  proof (cases rule: pool_step.cases)
    case (step_acquire r) then show ?thesis using step_Acquire[OF assms(2,3)] by simp
  next
    case (step_receive r ch n w) then show ?thesis using step_Receive[OF assms(2,3)] by simp
  next
    case (step_cancel r ch) then show ?thesis using step_Cancel[OF assms(2,3)] by fastforce
  next
    case (step_release r) then show ?thesis using step_Release[OF assms(2,3)] by fastforce
  next
    case (step_limit lim) then show ?thesis using step_Limit[OF assms(2), of lim] by auto
  qed
  moreover have "r \<notin> fOwners f \<and> r \<notin> set (fQueue f)" if acq: "l = Acquire r" for r
    using assms(1) fresh_unknown[OF assms(2)] unfolding acq by (auto elim: pool_stepE)
  then have "settled (fifo_step f l)"
    by (intro fifo_step_settled fifo_edit_wf slot_rel_wf[OF assms(2)])
  ultimately show ?thesis by simp
qed

lemma slot_rel_init: "slot_rel (pool_init i lim) (fifo_init lim)" "settled (fifo_init lim)"
  by (auto simp: slot_rel_def channels_ok_def owners_def pool_init_def fifo_init_def newSlotPool_def settled_def)

lemma pool_run_refines:
  "pool_run s ls s' \<Longrightarrow> slot_rel s f \<Longrightarrow> settled f \<Longrightarrow>
   slot_rel s' (foldl fifo_step f ls) \<and> settled (foldl fifo_step f ls) \<and> given_back s \<le> given_back s'"
proof (induction rule: pool_run.induct)
  case (run_snoc s ls s1 l s2)
  then show ?case using pool_step_refines[of s1 l s2 "foldl fifo_step f ls"] by simp
qed simp

lemma pool_reach:
  assumes "pool_run (pool_init i lim) ls s"
  shows "slot_rel s (foldl fifo_step (fifo_init lim) ls)" "settled (foldl fifo_step (fifo_init lim) ls)"
  using pool_run_refines[OF assms slot_rel_init] by auto


end
