(* ===== verification/Slot_Pool_Props.thy ===== *)
theory Slot_Pool_Props
  imports Slot_Pool_Sim
begin

text \<open>
  What the refinement of the semaphore gives for the slot pool: the bound on the requests in flight,
  that the pool is never stuck, and that a waiting request is served after a number of releases fixed
  by its place in the queue.
\<close>

section \<open>The bound\<close>

definition capped :: "int \<Rightarrow> slotPool \<Rightarrow> bool" where
  "capped L p \<longleftrightarrow> 0 < limit p \<and> limit p \<le> L \<and> peak p \<le> L"

lemma admitLocked_capped: "hasCapacityLocked p \<Longrightarrow> capped L p \<Longrightarrow> capped L (fst (admitLocked p))"
  by (auto simp: capped_def admitLocked_def Let_def hasCapacityLocked_def)

lemma grantLocked_capped: "grantLocked p bs = Some pb \<Longrightarrow> capped L p \<Longrightarrow> capped L (fst pb)"
proof (induction p bs rule: grantLocked.induct)
  case (1 p bs)
  show ?case
  proof (cases "waiters p")
    case Nil
    with 1 show ?thesis by (auto simp: grantLocked.simps[of p])
  next
    case (Cons ch rest)
    have "capped L (fst (admitLocked (p\<lparr>waiters := rest\<rparr>)))" if "hasCapacityLocked p"
      using that 1(3) by (intro admitLocked_capped) (auto simp: hasCapacityLocked_def capped_def)
    with Cons 1 show ?thesis
      by (auto simp: grantLocked.simps[of p] split: if_splits option.splits prod.splits)
  qed
qed

lemma capped_upd [simp]:
  "capped L (p\<lparr>held := h\<rparr>) = capped L p" "capped L (p\<lparr>waiters := ws\<rparr>) = capped L p"
  "capped L (p\<lparr>blocked := b\<rparr>) = capped L p" "capped L (p\<lparr>waitNanos := w\<rparr>) = capped L p"
  by (simp_all add: capped_def)

lemma pool_step_capped:
  assumes "pool_step s l s'" "capped L (pool s)" "\<And>k. l = Limit k \<Longrightarrow> 0 < k \<and> k \<le> L"
  shows "capped L (pool s')"
  using assms
proof (cases rule: pool_step.cases)
  case (step_acquire r)
  with assms(2) show ?thesis
    using admitLocked_capped[of "pool s" L]
    by (auto simp: acquire_start_def setPhase_def Let_def)
next
  case (step_receive r ch n w)
  with assms(2) show ?thesis by (simp add: acquire_receive_def setPhase_def)
next
  case (step_cancel r ch)
  with assms(2) show ?thesis
    by (auto simp: acquire_cancel_def dequeueLocked_def setPhase_def put_pool_def releaseLocked_def
        split: option.splits dest!: grantLocked_capped[where L = L])
next
  case (step_release r)
  with assms(2) show ?thesis
    by (auto simp: release_call_def setPhase_def put_pool_def releaseLocked_def
        split: if_splits dest!: grantLocked_capped[where L = L])
next
  case (step_limit lim)
  with assms(2,3) have "capped L ((pool s)\<lparr>limit := (if lim < 0 then 0 else lim)\<rparr>)"
    by (auto simp: capped_def)
  with step_limit show ?thesis
    by (auto simp: limit_call_def setLimit_def put_pool_def dest!: grantLocked_capped[where L = L])
qed

lemma pool_run_capped:
  "pool_run s ls s' \<Longrightarrow> capped L (pool s) \<Longrightarrow> (\<And>k. Limit k \<in> set ls \<Longrightarrow> 0 < k \<and> k \<le> L) \<Longrightarrow> capped L (pool s')"
  by (induction rule: pool_run.induct) (auto intro: pool_step_capped)

section \<open>Progress of a waiting request\<close>

definition ahead :: "chan \<Rightarrow> chan list \<Rightarrow> nat" where
  "ahead ch ws = length (takeWhile (\<lambda>c. c \<noteq> ch) ws)"

lemma ahead_Cons: "ahead ch (c # ws) = (if c = ch then 0 else Suc (ahead ch ws))"
  by (simp add: ahead_def)

lemma ahead_append: "ch \<in> set ws \<Longrightarrow> ahead ch (ws @ us) = ahead ch ws"
  by (simp add: ahead_def takeWhile_append1)

lemma ahead_nth: "distinct ws \<Longrightarrow> k < length ws \<Longrightarrow> ahead (ws ! k) ws = k"
  by (induction ws arbitrary: k) (auto simp: ahead_Cons nth_Cons split: nat.splits)

lemma ahead_drop: "distinct ws \<Longrightarrow> ch \<in> set (drop j ws) \<Longrightarrow> ahead ch (drop j ws) + j = ahead ch ws"
proof (induction ws arbitrary: j)
  case (Cons c ws)
  then show ?case by (cases j) (auto simp: ahead_Cons dest: in_set_dropD)
qed simp

lemma ahead_remove1: "ch \<noteq> c \<Longrightarrow> ahead ch (remove1 c ws) \<le> ahead ch ws"
  by (induction ws) (auto simp: ahead_Cons)

lemma grantLocked_shape:
  "grantLocked p bs = Some pb \<Longrightarrow>
   \<exists>j. waiters (fst pb) = drop j (waiters p) \<and> total (fst pb) = total p + int j"
proof (induction p bs rule: grantLocked.induct)
  case (1 p bs)
  show ?case
  proof (cases "waiters p \<noteq> [] \<and> hasCapacityLocked p")
    case False
    with 1(2) have "pb = (p, bs)"
      by (auto simp: grantLocked.simps[of p] split: list.splits)
    then show ?thesis by (intro exI[of _ 0]) simp
  next
    case True
    then obtain ch rest where ws: "waiters p = ch # rest" by (cases "waiters p") auto
    obtain p1 n where adm: "admitLocked (p\<lparr>waiters := rest\<rparr>) = (p1, n)" by fastforce
    with ws True 1(2) obtain bs1 where bs1: "chan_send ch n bs = Some bs1" "grantLocked p1 bs1 = Some pb"
      by (auto simp: grantLocked.simps[of p] split: option.splits)
    obtain j where "waiters (fst pb) = drop j (waiters p1)" "total (fst pb) = total p1 + int j"
      using 1(1)[OF ws conjunct2[OF True] adm[symmetric] bs1] by auto
    with adm ws show ?thesis
      by (intro exI[of _ "Suc j"]) (auto simp: admitLocked_def Let_def split: if_splits)
  qed
qed

text \<open>While a channel is queued, every admission takes one of the channels before it.\<close>

definition advances :: "chan \<Rightarrow> slotPool \<Rightarrow> slotPool \<Rightarrow> bool" where
  "advances ch p p' \<longleftrightarrow> ch \<in> set (waiters p') \<longrightarrow>
     ch \<in> set (waiters p) \<and> int (ahead ch (waiters p')) + total p' \<le> int (ahead ch (waiters p)) + total p"

lemma advances_refl: "advances ch p p"
  by (simp add: advances_def)

lemma advances_trans: "advances ch p p' \<Longrightarrow> advances ch p' p'' \<Longrightarrow> advances ch p p''"
  by (auto simp: advances_def)

lemma advances_grant:
  assumes "grantLocked p bs = Some pb" "distinct (waiters p)"
  shows "advances ch p (fst pb)"
proof -
  obtain j where "waiters (fst pb) = drop j (waiters p)" "total (fst pb) = total p + int j"
    using grantLocked_shape[OF assms(1)] by blast
  with ahead_drop[OF assms(2), of ch j] show ?thesis
    by (auto simp: advances_def dest: in_set_dropD)
qed


lemma advances_upd:
  "advances ch (p\<lparr>held := h\<rparr>) p' = advances ch p p'" "advances ch (p\<lparr>limit := l\<rparr>) p' = advances ch p p'"
  "advances ch p (p'\<lparr>waitNanos := w\<rparr>) = advances ch p p'"
  by (simp_all add: advances_def)

lemma releaseLocked_advances:
  "releaseLocked p bs = Some pb \<Longrightarrow> distinct (waiters p) \<Longrightarrow> advances ch p (fst pb)"
  using advances_grant[of "p\<lparr>held := held p - 1\<rparr>" bs pb ch] by (simp add: releaseLocked_def advances_upd)

lemma pool_step_advances:
  assumes step: "pool_step s l s'" and rel: "slot_rel s f" "settled f" and ch: "ch < nextChan s"
  shows "advances ch (pool s) (pool s') \<and> nextChan s \<le> nextChan s'"
proof -
  have dist: "distinct (waiters (pool s))"
    using slot_relD(1)[OF rel(1)] by (simp add: channels_ok_def)
  from step show ?thesis
  proof (cases rule: pool_step.cases)
    case (step_acquire r)
    have "waiters (pool s) = []" if "hasCapacityLocked (pool s)"
      using that rel(2) slot_relD[OF rel(1)] by (auto simp: settled_def hasCapacityLocked_def)
    with step_acquire ch show ?thesis
      by (auto simp: acquire_start_def setPhase_def Let_def advances_def admitLocked_def ahead_append)
  next
    case (step_receive r c n w)
    then show ?thesis by (simp add: acquire_receive_def setPhase_def advances_upd advances_refl)
  next
    case (step_cancel r c)
    have "advances ch (pool s) ((pool s)\<lparr>waiters := remove1 c (waiters (pool s))\<rparr>)"
      using dist ahead_remove1[of ch c] by (auto simp: advances_def)
    with step_cancel dist show ?thesis
      by (auto simp: acquire_cancel_def dequeueLocked_def remove_waiter_eq setPhase_def put_pool_def
          split: if_splits dest: releaseLocked_advances)
  next
    case (step_release r)
    with dist show ?thesis
      by (auto simp: release_call_def setPhase_def put_pool_def advances_refl
          split: if_splits dest: releaseLocked_advances)
  next
    case (step_limit lim)
    with dist show ?thesis
      using advances_grant[of "(pool s)\<lparr>limit := (if lim < 0 then 0 else lim)\<rparr>" "buffers s"]
      by (auto simp: limit_call_def setLimit_def put_pool_def advances_upd)
  qed
qed

lemma pool_run_advances:
  "pool_run s ls s' \<Longrightarrow> slot_rel s f \<Longrightarrow> settled f \<Longrightarrow> ch < nextChan s \<Longrightarrow>
   advances ch (pool s) (pool s') \<and> nextChan s \<le> nextChan s'"
proof (induction rule: pool_run.induct)
  case (run_nil s)
  then show ?case by (simp add: advances_refl)
next
  case (run_snoc s ls s1 l s2)
  then have "slot_rel s1 (foldl fifo_step f ls)" "settled (foldl fifo_step f ls)"
    using pool_run_refines by blast+
  with run_snoc show ?case
    using pool_step_advances[of s1 l s2 "foldl fifo_step f ls" ch] by (auto intro: advances_trans)
qed

text \<open>A request that waits keeps waiting on its channel, holds the slot or has given it back, unless it is cancelled.\<close>

lemma pool_step_phase:
  assumes "pool_step s l s'" "l \<noteq> Cancel r" "phases s r \<in> {Waiting ch, Holding, Released}"
  shows "phases s' r \<in> {Waiting ch, Holding, Released}"
  using assms
  by (cases rule: pool_step.cases)
    (auto simp: acquire_start_def acquire_receive_def acquire_cancel_def release_call_def limit_call_def
      setPhase_def put_pool_def Let_def split: if_splits option.splits)

lemma pool_run_phase:
  "pool_run s ls s' \<Longrightarrow> Cancel r \<notin> set ls \<Longrightarrow> phases s r \<in> {Waiting ch, Holding, Released} \<Longrightarrow>
   phases s' r \<in> {Waiting ch, Holding, Released}"
proof (induction rule: pool_run.induct)
  case (run_snoc s ls s1 l s2)
  then show ?case by (intro pool_step_phase[OF run_snoc.hyps(2)]) auto
qed

section \<open>Properties\<close>

text \<open>
  C10. In every interleaving of requests that ask, wait, cancel and release, with limits changed at
  any time, the requests that own a slot and the queue of the pool are those of the abstract
  first-in-first-out semaphore after the same events, and the counts the pool reports are its.
\<close>
theorem slot_pool_refines_fifo:
  assumes "pool_run (pool_init i lim) ls s"
  shows "fOwners (foldl fifo_step (fifo_init lim) ls) = owners s \<and>
    list_all2 (\<lambda>ch r. phases s r = Waiting ch) (waiters (pool s)) (fQueue (foldl fifo_step (fifo_init lim) ls)) \<and>
    stInFlight (pool_stats (pool s)) = int (card (owners s)) \<and>
    stLimit (pool_stats (pool s)) = fLimit (foldl fifo_step (fifo_init lim) ls)"
  using slot_relD[OF pool_reach(1)[OF assms]] by (simp add: pool_stats_def)

text \<open>
  C31. While every limit that is set lies between one and \<open>L\<close>, at most \<open>L\<close> requests own a slot, at
  this moment and at every earlier one (the peak).
\<close>
theorem slots_bounded:
  assumes "pool_run (pool_init i lim) ls s" "0 < lim" "lim \<le> L" "\<And>k. Limit k \<in> set ls \<Longrightarrow> 0 < k \<and> k \<le> L"
  shows "int (card (owners s)) \<le> stPeak (pool_stats (pool s)) \<and> stPeak (pool_stats (pool s)) \<le> L"
proof -
  have "capped L (pool s)"
    using assms by (intro pool_run_capped[OF assms(1)]) (auto simp: capped_def pool_init_def newSlotPool_def)
  then show ?thesis
    using slot_relD(6,7)[OF pool_reach(1)[OF assms(1)]] by (simp add: capped_def pool_stats_def)
qed

text \<open>
  C32. The pool is never stuck: no operation blocks with the mutex held, a granted request can take its
  slot, a request that holds a slot can give it back, and whenever a request waits for a slot some other owns one.
\<close>
theorem slot_pool_never_stuck:
  assumes "pool_run (pool_init i lim) ls s"
  shows "(phases s r = Fresh \<longrightarrow> (\<exists>s'. pool_step s (Acquire r) s')) \<and>
    (phases s r = Waiting ch \<longrightarrow> (\<exists>s'. pool_step s (Cancel r) s')) \<and>
    (phases s r = Waiting ch \<longrightarrow> ch \<notin> set (waiters (pool s)) \<longrightarrow>
       (\<exists>s'. pool_step s (Receive r w) s' \<and> phases s' r = Holding)) \<and>
    (phases s r = Holding \<longrightarrow> (\<exists>s'. pool_step s (Release r) s' \<and> phases s' r = Released)) \<and>
    (\<exists>s'. pool_step s (Limit k) s') \<and>
    (waiters (pool s) \<noteq> [] \<longrightarrow> owners s \<noteq> {})"
proof (intro conjI impI)
  note rel = pool_reach(1)[OF assms] and set = pool_reach(2)[OF assms]
  note D = slot_relD[OF rel]
  show "\<exists>s'. pool_step s (Acquire r) s'" if "phases s r = Fresh"
    using step_acquire[OF that] by blast
  show "\<exists>s'. pool_step s (Cancel r) s'" if "phases s r = Waiting ch"
    using step_Cancel[OF rel set that] step_cancel[OF that] by blast
  show "\<exists>s'. pool_step s (Receive r w) s' \<and> phases s' r = Holding"
    if wait: "phases s r = Waiting ch" and out: "ch \<notin> set (waiters (pool s))"
  proof -
    obtain n where "buffers s ch = Some n" using channels_okD(2)[OF D(1) wait] out by auto
    then have "pool_step s (Receive r w) (acquire_receive r ch w s)" by (rule step_receive[OF wait])
    then show ?thesis by (auto simp: acquire_receive_def setPhase_def)
  qed
  show "\<exists>s'. pool_step s (Release r) s' \<and> phases s' r = Released" if hold: "phases s r = Holding"
  proof -
    obtain s' where s': "release_call r s = Some s'" using step_Release[OF rel set] hold by blast
    then have "phases s' r = Released" using hold by (auto simp: release_call_def setPhase_def)
    with s' hold step_release show ?thesis by blast
  qed
  show "\<exists>s'. pool_step s (Limit k) s'"
    using step_Limit[OF rel, of k] step_limit by blast
  show "owners s \<noteq> {}" if "waiters (pool s) \<noteq> []"
    using that set D by (auto simp: settled_def)
qed

text \<open>
  C15. A waiting request gets its slot: when the requests in flight and those queued before it are
  fewer than the slots given back since plus the limit, it has been granted one, whoever else asked
  or cancelled in between.
\<close>
theorem waiting_request_served:
  assumes "pool_run (pool_init i lim) ls s" "pool_run s ls' s'"
    and "phases s r = Waiting (waiters (pool s) ! k)" "k < length (waiters (pool s))" "Cancel r \<notin> set ls'"
    and "held (pool s) + int k < (given_back s' - given_back s) + limit (pool s')"
  shows "r \<in> owners s' \<or> phases s' r = Released"
proof -
  let ?ch = "waiters (pool s) ! k"
  note rel = pool_reach[OF assms(1)]
  have rel': "slot_rel s' (foldl fifo_step (foldl fifo_step (fifo_init lim) ls) ls')"
      "settled (foldl fifo_step (foldl fifo_step (fifo_init lim) ls) ls')"
    using pool_run_refines[OF assms(2) rel] by auto
  note D = slot_relD[OF rel'(1)]
  have adv: "advances ?ch (pool s) (pool s')"
    using pool_run_advances[OF assms(2) rel] channels_okD(1)[OF slot_relD(1)[OF rel(1)] assms(3)] by blast
  have k: "ahead ?ch (waiters (pool s)) = k"
    using slot_relD(1)[OF rel(1)] assms(4) by (simp add: channels_ok_def ahead_nth)
  have "?ch \<notin> set (waiters (pool s'))"
  proof
    assume q: "?ch \<in> set (waiters (pool s'))"
    with adv k have "total (pool s') \<le> int k + total (pool s)" by (auto simp: advances_def)
    moreover have "held (pool s') \<ge> limit (pool s')"
      using q rel'(2) D by (auto simp: settled_def)
    ultimately show False using assms(6) by (simp add: given_back_def)
  qed
  moreover have "phases s' r \<in> {Waiting ?ch, Holding, Released}"
    using pool_run_phase[OF assms(2,5)] assms(3) by simp
  ultimately show ?thesis by (auto simp: owners_def)
qed


section \<open>Executing runs\<close>

fun exec_step :: "label \<Rightarrow> poolSys \<Rightarrow> poolSys option" where
  "exec_step (Acquire r) s = (if phases s r = Fresh then Some (acquire_start r s) else None)"
| "exec_step (Receive r w) s =
     (case phases s r of
        Waiting ch \<Rightarrow> if buffers s ch = None then None else Some (acquire_receive r ch w s)
      | _ \<Rightarrow> None)"
| "exec_step (Cancel r) s = (case phases s r of Waiting ch \<Rightarrow> acquire_cancel r ch s | _ \<Rightarrow> None)"
| "exec_step (Release r) s =
     (if phases s r = Holding \<or> phases s r = Released then release_call r s else None)"
| "exec_step (Limit lim) s = limit_call lim s"

lemma exec_step_iff: "exec_step l s = Some s' \<longleftrightarrow> pool_step s l s'"
proof
  assume "exec_step l s = Some s'"
  then show "pool_step s l s'"
    by (cases l) (auto intro: pool_step.intros split: if_splits phase.splits)
next
  assume "pool_step s l s'"
  then show "exec_step l s = Some s'"
    by (cases rule: pool_step.cases) auto
qed

definition exec_run :: "label list \<Rightarrow> poolSys \<Rightarrow> poolSys option" where
  "exec_run ls s = foldl (\<lambda>so l. Option.bind so (exec_step l)) (Some s) ls"

lemma exec_run_iff: "exec_run ls s = Some s' \<longleftrightarrow> pool_run s ls s'"
proof (induction ls arbitrary: s' rule: rev_induct)
  case Nil
  then show ?case by (auto simp: exec_run_def intro: pool_run.intros elim: pool_run.cases)
next
  case (snoc l ls)
  have "pool_run s (ls @ [l]) s' \<longleftrightarrow> (\<exists>s1. pool_run s ls s1 \<and> pool_step s1 l s')"
    by (auto intro: pool_run.intros elim: pool_run.cases)
  moreover have "exec_run (ls @ [l]) s = Option.bind (exec_run ls s) (exec_step l)"
    by (simp add: exec_run_def)
  ultimately show ?case
    using snoc by (auto simp: bind_eq_Some_conv exec_step_iff)
qed

definition demo_run :: "label list" where
  "demo_run = [Acquire 0, Acquire 1, Acquire 2]"

definition demo_more :: "label list" where
  "demo_more = [Acquire 3, Release 0, Receive 1 7, Release 1, Receive 2 9]"

lemma demo_run_ok:
  obtains s s' where "pool_run (pool_init PoolDestination 1) demo_run s" "pool_run s demo_more s'"
    "phases s 2 = Waiting (waiters (pool s) ! 1)" "length (waiters (pool s)) = 2" "held (pool s) = 1"
    "given_back s = 0" "given_back s' = 2" "limit (pool s') = 1" "phases s 0 = Holding"
proof -
  let ?s = "the (exec_run demo_run (pool_init PoolDestination 1))"
  let ?s' = "the (exec_run demo_more ?s)"
  have not_none: "\<not> Option.is_none (exec_run demo_run (pool_init PoolDestination 1))" "\<not> Option.is_none (exec_run demo_more ?s)"
    by code_simp+
  have "exec_run demo_run (pool_init PoolDestination 1) = Some ?s" "exec_run demo_more ?s = Some ?s'"
    using not_none by (simp_all add: Option.is_none_def)
  moreover have "phases ?s 2 = Waiting (waiters (pool ?s) ! 1)" "length (waiters (pool ?s)) = 2" "held (pool ?s) = 1"
    "given_back ?s = 0" "given_back ?s' = 2" "limit (pool ?s') = 1" "phases ?s 0 = Holding"
    by code_simp+
  ultimately show thesis using that unfolding exec_run_iff by blast
qed

theorem slot_pool_refines_fifo_witness:
  "\<exists>s. pool_run (pool_init PoolDestination 1) demo_run s \<and>
     owners s = fOwners (foldl fifo_step (fifo_init 1) demo_run) \<and> stInFlight (pool_stats (pool s)) = int (card (owners s))"
  using demo_run_ok slot_pool_refines_fifo[of PoolDestination 1 demo_run] by metis

theorem slots_bounded_witness:
  "\<exists>s. pool_run (pool_init PoolDestination 1) demo_run s \<and> int (card (owners s)) \<le> 1"
proof -
  obtain s where run: "pool_run (pool_init PoolDestination 1) demo_run s" using demo_run_ok by metis
  have "int (card (owners s)) \<le> 1"
    using slots_bounded[OF run, of 1] by (simp add: demo_run_def)
  with run show ?thesis by blast
qed

theorem slot_pool_never_stuck_witness:
  "\<exists>s s'. pool_run (pool_init PoolDestination 1) demo_run s \<and> phases s 0 = Holding \<and>
     pool_step s (Release 0) s' \<and> phases s' 0 = Released"
  using demo_run_ok slot_pool_never_stuck[of PoolDestination 1 demo_run _ 0] by metis

theorem waiting_request_served_witness:
  "\<exists>s s'. pool_run (pool_init PoolDestination 1) demo_run s \<and> pool_run s demo_more s' \<and>
     phases s 2 = Waiting (waiters (pool s) ! 1) \<and> (2 \<in> owners s' \<or> phases s' 2 = Released)"
proof -
  obtain s s' where "pool_run (pool_init PoolDestination 1) demo_run s" "pool_run s demo_more s'"
    "phases s 2 = Waiting (waiters (pool s) ! 1)" "length (waiters (pool s)) = 2" "held (pool s) = 1"
    "given_back s = 0" "given_back s' = 2" "limit (pool s') = 1"
    by (rule demo_run_ok)
  then show ?thesis
    using waiting_request_served[of PoolDestination 1 demo_run s demo_more s' 2 1]
    by (auto simp: demo_more_def)
qed

end
