(* ===== verification/Flatbuffer.thy ===== *)
theory Flatbuffer
  imports Prelude "HOL-Library.Monad_Syntax"
begin

text \<open>
  \<^verbatim>\<open>pkg/ztoc/flatbuffer.go\<close>: the encoder and the decoder of FlatBuffers.  The builder fills a buffer from
  its end towards its start and refers to what it wrote by the distance from the end, a 32-bit integer; a
  computation takes the builder and returns a value and the builder, or \<open>None\<close> where the code panics.  The
  decoder reads through absolute positions; \<open>None\<close> is a panic as well, which \<^verbatim>\<open>Unmarshal\<close> recovers from.
\<close>

unbundle bit_operations_syntax

section \<open>Little-endian integers\<close>

definition LE16 :: "u16 \<Rightarrow> bytes" where "LE16 v = rev (PutUint16 v)"
definition LE32 :: "u32 \<Rightarrow> bytes" where "LE32 v = rev (PutUint32 v)"
definition LE64 :: "u64 \<Rightarrow> bytes" where "LE64 v = rev (PutUint64 v)"

definition le16 :: "bytes \<Rightarrow> u16" where "le16 bs = Uint16 (rev bs)"
definition le32 :: "bytes \<Rightarrow> u32" where "le32 bs = Uint32 (rev bs)"
definition le64 :: "bytes \<Rightarrow> u64" where "le64 bs = Uint64 (rev bs)"

abbreviation u32_of_u16 :: "u16 \<Rightarrow> u32" where "u32_of_u16 \<equiv> ucast"
abbreviation u16_of_u32 :: "u32 \<Rightarrow> u16" where "u16_of_u32 \<equiv> ucast"

interpretation le16: fixed_codec LE16 le16 2
  by unfold_locales (simp_all add: LE16_def le16_def)

interpretation le32: fixed_codec LE32 le32 4
  by unfold_locales (simp_all add: LE32_def le32_def)

interpretation le64: fixed_codec LE64 le64 8
  by unfold_locales (simp_all add: LE64_def le64_def)

lemmas le_lengths [simp, codec_simps] = le16.enc_length le32.enc_length le64.enc_length
lemmas le_dec_enc [simp, codec_simps] = le16.dec_enc le32.dec_enc le64.dec_enc

section \<open>The builder\<close>

record fbBuilder =
  fbBytes :: bytes
  fbHead :: int
  fbMinalign :: int
  fbVtable :: "u32 list"
  fbObjectEnd :: u32
  fbVtables :: "u32 list"
  fbNested :: bool

type_synonym 'a fb = "fbBuilder \<Rightarrow> ('a \<times> fbBuilder) option"

definition fret :: "'a \<Rightarrow> 'a fb" where "fret x b = Some (x, b)"

definition fbind :: "'a fb \<Rightarrow> ('a \<Rightarrow> 'b fb) \<Rightarrow> 'b fb" where
  "fbind m f b = (case m b of None \<Rightarrow> None | Some (x, b') \<Rightarrow> f x b')"

abbreviation fthen :: "'a fb \<Rightarrow> 'b fb \<Rightarrow> 'b fb" where "fthen m n \<equiv> fbind m (\<lambda>_. n)"

text \<open>Calls one after the other.\<close>

fun fseq :: "unit fb list \<Rightarrow> unit fb" where
  "fseq [] = fret ()"
| "fseq (m # ms) = fthen m (fseq ms)"

definition newFbBuilder :: "int \<Rightarrow> fbBuilder" where
  "newFbBuilder initialSize =
     (let n = (if initialSize \<le> 0 then 1024 else initialSize) in
      \<lparr>fbBytes = replicate (nat n) 0, fbHead = n, fbMinalign = 1, fbVtable = [], fbObjectEnd = 0, fbVtables = [],
       fbNested = False\<rparr>)"

definition fb_offset :: "fbBuilder \<Rightarrow> u32" where
  "fb_offset b = of_int (int (length (fbBytes b)) - fbHead b)"

definition growBuffer :: "fbBuilder \<Rightarrow> fbBuilder" where
  "growBuffer b =
     (let old = fbBytes b;
          newSize = (if length old * 2 = 0 then 1 else length old * 2)
      in b\<lparr>fbBytes := copy_at (newSize - length old) old (replicate newSize 0),
           fbHead := fbHead b + int (newSize - length old)\<rparr>)"

text \<open>The loop of \<^verbatim>\<open>prep\<close> that makes room.\<close>

function grow_until :: "int \<Rightarrow> fbBuilder \<Rightarrow> fbBuilder" where
  "grow_until need b = (if fbHead b < need then grow_until need (growBuffer b) else b)"
  by pat_completeness auto
termination
  by (relation "measure (\<lambda>(need, b). nat (need - fbHead b))") (auto simp: growBuffer_def Let_def)

declare grow_until.simps [simp del]

text \<open>Moving \<^verbatim>\<open>head\<close> down and writing there: \<^verbatim>\<open>placeByte\<close>, \<^verbatim>\<open>placeUint16\<close>, \<^verbatim>\<open>placeUint32\<close>, \<^verbatim>\<open>placeInt64\<close>, \<^verbatim>\<open>copy\<close>.\<close>

definition place :: "bytes \<Rightarrow> unit fb" where
  "place bs b =
     (let h = fbHead b - int (length bs) in
      if h < 0 \<or> int (length (fbBytes b)) < fbHead b then None
      else Some ((), b\<lparr>fbBytes := copy_at (nat h) bs (fbBytes b), fbHead := h\<rparr>))"

definition align_size :: "int \<Rightarrow> int \<Rightarrow> fbBuilder \<Rightarrow> int" where
  "align_size sz additional b = (NOT (int (length (fbBytes b)) - fbHead b + additional) + 1) AND (sz - 1)"

definition prep :: "int \<Rightarrow> int \<Rightarrow> unit fb" where
  "prep sz additional b =
     (let b1 = (if sz > fbMinalign b then b\<lparr>fbMinalign := sz\<rparr> else b);
          alignSize = align_size sz additional b1
      in place (replicate (nat alignSize) 0) (grow_until (alignSize + sz + additional) b1))"

definition placeByte :: "byte \<Rightarrow> unit fb" where "placeByte x = place [x]"
definition placeUint16 :: "u16 \<Rightarrow> unit fb" where "placeUint16 x = place (LE16 x)"
definition placeUint32 :: "u32 \<Rightarrow> unit fb" where "placeUint32 x = place (LE32 x)"
definition placeInt32 :: "u32 \<Rightarrow> unit fb" where "placeInt32 x = placeUint32 x"
definition placeInt64 :: "u64 \<Rightarrow> unit fb" where "placeInt64 x = place (LE64 x)"

definition prependInt8 :: "i8 \<Rightarrow> unit fb" where "prependInt8 x = fthen (prep 1 0) (placeByte x)"
definition prependInt32 :: "u32 \<Rightarrow> unit fb" where "prependInt32 x = fthen (prep 4 0) (placeInt32 x)"
definition prependUint32 :: "u32 \<Rightarrow> unit fb" where "prependUint32 x = fthen (prep 4 0) (placeUint32 x)"
definition prependInt64 :: "u64 \<Rightarrow> unit fb" where "prependInt64 x = fthen (prep 8 0) (placeInt64 x)"
definition prependVOffsetT :: "u16 \<Rightarrow> unit fb" where "prependVOffsetT x = fthen (prep 2 0) (placeUint16 x)"
definition prependSOffsetT :: "u32 \<Rightarrow> unit fb" where "prependSOffsetT off = fthen (prep 4 0) (placeInt32 off)"

definition place_ref :: "u32 \<Rightarrow> unit fb" where
  "place_ref off b = (if off > fb_offset b then None else placeUint32 (fb_offset b - off + 4) b)"

definition prependUOffsetT :: "u32 \<Rightarrow> unit fb" where
  "prependUOffsetT off = fthen (prep 4 0) (place_ref off)"

section \<open>Strings and vectors\<close>

definition set_nested :: "bool \<Rightarrow> unit fb" where "set_nested v b = Some ((), b\<lparr>fbNested := v\<rparr>)"

definition get_offset :: "u32 fb" where "get_offset b = Some (fb_offset b, b)"

definition endVector :: "nat \<Rightarrow> u32 fb" where
  "endVector numElems = fthen (placeUint32 (of_nat numElems)) (fthen (set_nested False) get_offset)"

definition createString :: "bytes \<Rightarrow> u32 fb" where
  "createString s =
     fthen (set_nested True) (fthen (prep 4 (int (length s + 1))) (fthen (placeByte 0) (fthen (place s) (endVector (length s)))))"

definition createByteVector :: "bytes \<Rightarrow> u32 fb" where
  "createByteVector v =
     fthen (set_nested True) (fthen (prep 4 (int (length v))) (fthen (place v) (endVector (length v))))"

definition startVector :: "nat \<Rightarrow> nat \<Rightarrow> int \<Rightarrow> u32 fb" where
  "startVector elemSize numElems alignment =
     fthen (set_nested True)
       (fthen (prep 4 (int (elemSize * numElems))) (fthen (prep alignment (int (elemSize * numElems))) get_offset))"

fun ftraverse :: "('a \<Rightarrow> 'b fb) \<Rightarrow> 'a list \<Rightarrow> 'b list fb" where
  "ftraverse f [] = fret []"
| "ftraverse f (x # xs) = fbind (f x) (\<lambda>y. fbind (ftraverse f xs) (\<lambda>ys. fret (y # ys)))"

text \<open>A vector of references, its elements written from the last to the first.\<close>

definition createRefVector :: "u32 list \<Rightarrow> u32 fb" where
  "createRefVector offs =
     fthen (startVector 4 (length offs) 4) (fthen (fseq (map prependUOffsetT (rev offs))) (endVector (length offs)))"

section \<open>Tables\<close>

definition startObject :: "nat \<Rightarrow> unit fb" where
  "startObject numFields b =
     Some ((), b\<lparr>fbNested := True, fbVtable := replicate numFields 0, fbObjectEnd := fb_offset b\<rparr>)"

definition slot :: "nat \<Rightarrow> unit fb" where
  "slot slotnum b =
     (if slotnum < length (fbVtable b) then Some ((), b\<lparr>fbVtable := (fbVtable b)[slotnum := fb_offset b]\<rparr>) else None)"

definition prependInt64Slot :: "nat \<Rightarrow> u64 \<Rightarrow> u64 \<Rightarrow> unit fb" where
  "prependInt64Slot k x d = (if x \<noteq> d then fthen (prependInt64 x) (slot k) else fret ())"

definition prependInt32Slot :: "nat \<Rightarrow> u32 \<Rightarrow> u32 \<Rightarrow> unit fb" where
  "prependInt32Slot k x d = (if x \<noteq> d then fthen (prependInt32 x) (slot k) else fret ())"

definition prependInt8Slot :: "nat \<Rightarrow> i8 \<Rightarrow> i8 \<Rightarrow> unit fb" where
  "prependInt8Slot k x d = (if x \<noteq> d then fthen (prependInt8 x) (slot k) else fret ())"

definition prependUint32Slot :: "nat \<Rightarrow> u32 \<Rightarrow> u32 \<Rightarrow> unit fb" where
  "prependUint32Slot k x d = (if x \<noteq> d then fthen (prependUint32 x) (slot k) else fret ())"

definition prependUOffsetTSlot :: "nat \<Rightarrow> u32 \<Rightarrow> u32 \<Rightarrow> unit fb" where
  "prependUOffsetTSlot k x d = (if x \<noteq> d then fthen (prependUOffsetT x) (slot k) else fret ())"

definition trim_vtable :: "u32 list \<Rightarrow> u32 list" where
  "trim_vtable vt = rev (dropWhile (\<lambda>v. v = 0) (rev vt))"

definition vtableEqual :: "u32 list \<Rightarrow> u32 \<Rightarrow> bytes \<Rightarrow> bool" where
  "vtableEqual vt objectOffset vt2 \<longleftrightarrow>
     length vt * 2 = length vt2 \<and>
     list_all (\<lambda>i. let x = le16 (slice (i * 2) (i * 2 + 2) vt2) in
                 (x = 0 \<and> vt ! i = 0) \<or> u32_of_u16 x = objectOffset - vt ! i) [0..<length vt]"

text \<open>Reading the buffer at a position that the code slices it at.\<close>

definition read_at :: "nat \<Rightarrow> nat \<Rightarrow> bytes \<Rightarrow> bytes option" where
  "read_at n off buf = (if off + n \<le> length buf then Some (slice off (off + n) buf) else None)"

text \<open>The search for an equal vtable, from the last one written; zero when there is none.\<close>

fun find_vtable :: "u32 list \<Rightarrow> u32 \<Rightarrow> bytes \<Rightarrow> u32 list \<Rightarrow> u32 option" where
  "find_vtable vt objectOffset buf [] = Some 0"
| "find_vtable vt objectOffset buf (vt2Offset # offs) =
     (if length buf < unat vt2Offset then None
      else
        let vt2Start = length buf - unat vt2Offset in
        case read_at 2 vt2Start buf of None \<Rightarrow> None
        | Some lb \<Rightarrow>
            let vt2End = vt2Start + unat (le16 lb) in
            if vt2End < vt2Start + 4 \<or> length buf < vt2End then None
            else if vtableEqual vt objectOffset (slice (vt2Start + 4) vt2End buf) then Some vt2Offset
            else find_vtable vt objectOffset buf offs)"

definition find_existing :: "u32 \<Rightarrow> u32 fb" where
  "find_existing objectOffset b =
     map_option (\<lambda>e. (e, b)) (find_vtable (fbVtable b) objectOffset (fbBytes b) (rev (fbVtables b)))"

definition trim_slots :: "unit fb" where
  "trim_slots b = Some ((), b\<lparr>fbVtable := trim_vtable (fbVtable b)\<rparr>)"

definition vtable_entry :: "u32 \<Rightarrow> u32 \<Rightarrow> u16" where
  "vtable_entry objectOffset v = u16_of_u32 (if v \<noteq> 0 then objectOffset - v else 0)"

text \<open>Overwriting the reserved field of the object that starts at an offset.\<close>

definition patch_object :: "u32 \<Rightarrow> u32 \<Rightarrow> unit fb" where
  "patch_object objectOffset x b =
     (let objectStart = int (length (fbBytes b)) - int (unat objectOffset) in
      if objectStart < 0 \<or> int (length (fbBytes b)) < objectStart + 4 then None
      else Some ((), b\<lparr>fbBytes := copy_at (nat objectStart) (LE32 x) (fbBytes b)\<rparr>))"

definition write_new_vtable :: "u32 \<Rightarrow> unit fb" where
  "write_new_vtable objectOffset b =
     fthen (fseq (map (\<lambda>v. prependVOffsetT (vtable_entry objectOffset v)) (rev (fbVtable b))))
       (fthen (prependVOffsetT (u16_of_u32 (objectOffset - fbObjectEnd b)))
         (fthen (prependVOffsetT (of_nat ((length (fbVtable b) + 2) * 2)))
           (\<lambda>b1. fthen (patch_object objectOffset (fb_offset b1 - objectOffset))
                    (\<lambda>b2. Some ((), b2\<lparr>fbVtables := fbVtables b2 @ [fb_offset b2]\<rparr>)) b1))) b"

definition use_existing :: "u32 \<Rightarrow> u32 \<Rightarrow> unit fb" where
  "use_existing objectOffset existing b =
     patch_object objectOffset (existing - objectOffset)
       (b\<lparr>fbHead := int (length (fbBytes b)) - int (unat objectOffset)\<rparr>)"

definition clear_slots :: "unit fb" where
  "clear_slots b = Some ((), b\<lparr>fbVtable := []\<rparr>)"

definition writeVtable :: "u32 fb" where
  "writeVtable =
     fthen (prependSOffsetT 0) (fbind get_offset (\<lambda>objectOffset.
       fthen trim_slots (fbind (find_existing objectOffset) (\<lambda>existing.
         fthen (if existing = 0 then write_new_vtable objectOffset else use_existing objectOffset existing)
           (fthen clear_slots (fret objectOffset))))))"

definition endObject :: "u32 fb" where "endObject = writeVtable"

definition fb_finish :: "u32 \<Rightarrow> unit fb" where
  "fb_finish rootTable b = fthen (prep (fbMinalign b) 4) (prependUOffsetT rootTable) b"

definition finishedBytes :: "fbBuilder \<Rightarrow> bytes" where
  "finishedBytes b = drop (nat (fbHead b)) (fbBytes b)"

section \<open>The reader\<close>

text \<open>A view onto a table; \<open>tspare\<close> are the bytes between the length and the capacity of the slice.\<close>

record fbTable =
  tbuf :: bytes
  tspare :: bytes
  tpos :: u32

definition get16 :: "bytes \<Rightarrow> u32 \<Rightarrow> u16 option" where "get16 buf off = map_option le16 (read_at 2 (unat off) buf)"
definition get32 :: "bytes \<Rightarrow> u32 \<Rightarrow> u32 option" where "get32 buf off = map_option le32 (read_at 4 (unat off) buf)"
definition get64 :: "bytes \<Rightarrow> u32 \<Rightarrow> u64 option" where "get64 buf off = map_option le64 (read_at 8 (unat off) buf)"

definition getRootTable :: "bytes \<Rightarrow> bytes \<Rightarrow> fbTable option" where
  "getRootTable buf spare =
     (case read_at 4 0 buf of
        None \<Rightarrow> None
      | Some lb \<Rightarrow> if unat (le32 lb) > length buf then None else Some \<lparr>tbuf = buf, tspare = spare, tpos = le32 lb\<rparr>)"

definition tbl_offset :: "fbTable \<Rightarrow> u16 \<Rightarrow> u32 option" where
  "tbl_offset t vtableOffset = do {
     soff \<leftarrow> get32 (tbuf t) (tpos t);
     vtLen \<leftarrow> get16 (tbuf t) (tpos t - soff);
     if vtableOffset < vtLen
     then map_option u32_of_u16 (get16 (tbuf t) (tpos t - soff + u32_of_u16 vtableOffset))
     else Some 0 }"

definition indirect :: "fbTable \<Rightarrow> u32 \<Rightarrow> u32 option" where
  "indirect t off = map_option (\<lambda>x. off + x) (get32 (tbuf t) off)"

definition getInt64 :: "fbTable \<Rightarrow> u32 \<Rightarrow> u64 option" where "getInt64 t off = get64 (tbuf t) off"
definition getInt32 :: "fbTable \<Rightarrow> u32 \<Rightarrow> u32 option" where "getInt32 t off = get32 (tbuf t) off"
definition getUint32 :: "fbTable \<Rightarrow> u32 \<Rightarrow> u32 option" where "getUint32 t off = get32 (tbuf t) off"

definition getInt8 :: "fbTable \<Rightarrow> u32 \<Rightarrow> i8 option" where
  "getInt8 t off = (if unat off < length (tbuf t) then Some (tbuf t ! unat off) else None)"

definition byteVector :: "fbTable \<Rightarrow> u32 \<Rightarrow> bytes option" where
  "byteVector t off0 = do {
     rel \<leftarrow> get32 (tbuf t) off0;
     len \<leftarrow> get32 (tbuf t) (off0 + rel);
     let start = off0 + rel + 4;
     if start \<le> start + len \<and> unat (start + len) \<le> length (tbuf t) + length (tspare t)
     then Some (slice (unat start) (unat (start + len)) (tbuf t @ tspare t)) else None }"

definition vector_start :: "fbTable \<Rightarrow> u32 \<Rightarrow> u32 option" where
  "vector_start t fieldOff = map_option (\<lambda>x. fieldOff + tpos t + x + 4) (get32 (tbuf t) (fieldOff + tpos t))"

definition vectorLen :: "fbTable \<Rightarrow> u32 \<Rightarrow> nat option" where
  "vectorLen t fieldOff = do {
     x \<leftarrow> get32 (tbuf t) (fieldOff + tpos t);
     map_option unat (get32 (tbuf t) (fieldOff + tpos t + x)) }"

definition vectorRange :: "fbTable \<Rightarrow> u32 \<Rightarrow> nat \<Rightarrow> (u32 \<times> nat) option" where
  "vectorRange t fieldOff elemSize = do {
     n \<leftarrow> vectorLen t fieldOff;
     start \<leftarrow> vector_start t fieldOff;
     if unat start + n * elemSize > length (tbuf t) then None else Some (start, n) }"

definition byteVectorField :: "fbTable \<Rightarrow> u16 \<Rightarrow> bytes option" where
  "byteVectorField t vtableOffset = do {
     k \<leftarrow> tbl_offset t vtableOffset;
     if k \<noteq> 0 then byteVector t (k + tpos t) else Some [] }"

definition stringField :: "fbTable \<Rightarrow> u16 \<Rightarrow> bytes option" where
  "stringField t vtableOffset = do {
     k \<leftarrow> tbl_offset t vtableOffset;
     if k \<noteq> 0 then byteVector t (k + tpos t) else Some [] }"

end
