(* ===== verification/Inflate_Bits.thy ===== *)
theory Inflate_Bits
  imports Prelude
begin

text \<open>
  \<^verbatim>\<open>pkg/ztoc/inflate.go\<close>, the bit reader: bits are taken from the low end of a 64-bit accumulator that is
  refilled byte by byte.  The abstract reader is the list of the bits that remain, least significant
  bit of the first byte first; every operation is shown to do on the accumulator what it says on that list.
\<close>

unbundle bit_operations_syntax

section \<open>Errors and results\<close>

datatype zerr =
    ZTruncated | ZBadCode | ZMagic byte byte | ZMethod byte | ZCrc u32 u32 | ZIsize u32 u32
  | ZBlockType | ZStoredLength | ZTooManyCodes | ZIncompleteCodeLength | ZRepeatNoPrevious | ZRepeatOverrun
  | ZMissingEndOfBlock | ZLiteralCode | ZDistanceCode | ZLengthSymbol | ZDistanceSymbol | ZDistanceTooFar
  | ZNoCheckpoints | ZSpanRange nat | ZPanic

text \<open>Two computations that fail with the same error or succeed with related results.\<close>

abbreviation agree :: "('a \<Rightarrow> 'b \<Rightarrow> bool) \<Rightarrow> 'e + 'a \<Rightarrow> 'e + 'b \<Rightarrow> bool" where
  "agree R \<equiv> rel_sum (=) R"

lemma agree_bind:
  assumes "agree R m m'" "\<And>a b. R a b \<Longrightarrow> agree S (f a) (f' b)"
  shows "agree S (ebind m f) (ebind m' f')"
  using assms by (cases m; cases m') auto

section \<open>Arrays and slices\<close>

text \<open>
  Reading and writing an element, and cutting a slice, panic out of range.  In the whole decoder every
  index that is computed, and every index into a slice, goes through these operations.
\<close>

definition arr_get :: "'a list \<Rightarrow> nat \<Rightarrow> zerr + 'a" where
  "arr_get xs i = (if i < length xs then Inr (xs ! i) else Inl ZPanic)"

definition arr_set :: "'a list \<Rightarrow> nat \<Rightarrow> 'a \<Rightarrow> zerr + 'a list" where
  "arr_set xs i v = (if i < length xs then Inr (xs[i := v]) else Inl ZPanic)"

definition arr_prefix :: "'a list \<Rightarrow> nat \<Rightarrow> zerr + 'a list" where
  "arr_prefix xs n = (if n \<le> length xs then Inr (take n xs) else Inl ZPanic)"

definition arr_suffix :: "'a list \<Rightarrow> nat \<Rightarrow> zerr + 'a list" where
  "arr_suffix xs n = (if n \<le> length xs then Inr (drop n xs) else Inl ZPanic)"

lemma arr_in_range [simp]:
  "i < length xs \<Longrightarrow> arr_get xs i = Inr (xs ! i)" "i < length xs \<Longrightarrow> arr_set xs i v = Inr (xs[i := v])"
  "n \<le> length xs \<Longrightarrow> arr_prefix xs n = Inr (take n xs)" "n \<le> length xs \<Longrightarrow> arr_suffix xs n = Inr (drop n xs)"
  by (simp_all add: arr_get_def arr_set_def arr_prefix_def arr_suffix_def)

lemma arr_Inr:
  "arr_get xs i = Inr x \<longleftrightarrow> i < length xs \<and> x = xs ! i"
  "arr_set xs i v = Inr ys \<longleftrightarrow> i < length xs \<and> ys = xs[i := v]"
  "arr_prefix xs n = Inr ys \<longleftrightarrow> n \<le> length xs \<and> ys = take n xs"
  "arr_suffix xs n = Inr ys \<longleftrightarrow> n \<le> length xs \<and> ys = drop n xs"
  by (auto simp: arr_get_def arr_set_def arr_prefix_def arr_suffix_def)

section \<open>The reader\<close>

record bitReader =
  brIn :: bytes
  incnt :: nat
  hold :: u64
  nbits :: nat

function fill :: "nat \<Rightarrow> bitReader \<Rightarrow> zerr + bitReader" where
  "fill need b =
     (if nbits b < need then
        if incnt b \<ge> length (brIn b) then Inl ZTruncated
        else
          ebind (arr_get (brIn b) (incnt b)) (\<lambda>x.
            fill need (b\<lparr>hold := hold b OR push_bit (nbits b) (ucast x), incnt := incnt b + 1, nbits := nbits b + 8\<rparr>))
      else Inr b)"
  by pat_completeness auto
termination by (relation "measure (\<lambda>(need, b). need - nbits b)") auto

declare fill.simps [simp del]

definition bits :: "nat \<Rightarrow> bitReader \<Rightarrow> zerr + nat \<times> bitReader" where
  "bits need b =
     ebind (fill need b) (\<lambda>b1.
       Inr (unat (hold b1 AND (push_bit need 1 - 1)), b1\<lparr>hold := drop_bit need (hold b1), nbits := nbits b1 - need\<rparr>))"

definition align :: "bitReader \<Rightarrow> bitReader" where
  "align b = (let drop = nbits b AND 7 in b\<lparr>hold := drop_bit drop (hold b), nbits := nbits b - drop\<rparr>)"

definition readByte :: "bitReader \<Rightarrow> zerr + byte \<times> bitReader" where
  "readByte b =
     (if nbits b \<ge> 8 then Inr (ucast (hold b AND 255), b\<lparr>hold := drop_bit 8 (hold b), nbits := nbits b - 8\<rparr>)
      else if incnt b \<ge> length (brIn b) then Inl ZTruncated
      else ebind (arr_get (brIn b) (incnt b)) (\<lambda>v. Inr (v, b\<lparr>incnt := incnt b + 1\<rparr>)))"

definition offset :: "bitReader \<Rightarrow> int \<times> u8" where
  "offset b = (int (incnt b) - int (drop_bit 3 (nbits b)), of_nat (nbits b AND 7))"

definition eof :: "bitReader \<Rightarrow> bool" where
  "eof b \<longleftrightarrow> incnt b \<ge> length (brIn b) \<and> nbits b = 0"

section \<open>The remaining bits\<close>

definition byte_bits :: "byte \<Rightarrow> bool list" where
  "byte_bits x = map (bit x) [0..<8]"

definition all_bits :: "bytes \<Rightarrow> bool list" where
  "all_bits bs = concat (map byte_bits bs)"

definition lsb_nat :: "bool list \<Rightarrow> nat" where
  "lsb_nat xs = horner_sum of_bool 2 xs"

lemma length_byte_bits [simp]: "length (byte_bits x) = 8"
  by (simp add: byte_bits_def)

lemma length_all_bits [simp]: "length (all_bits bs) = 8 * length bs"
  by (induction bs) (simp_all add: all_bits_def)

lemma all_bits_Cons: "all_bits (b # bs) = byte_bits b @ all_bits bs"
  by (simp add: all_bits_def)

lemma all_bits_append: "all_bits (as @ bs) = all_bits as @ all_bits bs"
  by (simp add: all_bits_def)

lemma drop_all_bits: "drop (8 * n) (all_bits bs) = all_bits (drop n bs)"
proof (induction n arbitrary: bs)
  case (Suc n)
  then show ?case by (cases bs) (simp_all add: all_bits_Cons all_bits_def)
qed simp

definition held_bits :: "bitReader \<Rightarrow> bool list" where
  "held_bits b = map (bit (hold b)) [0..<nbits b]"

definition left_bits :: "bitReader \<Rightarrow> bool list" where
  "left_bits b = held_bits b @ all_bits (drop (incnt b) (brIn b))"

text \<open>The accumulator has no bits beyond the valid ones.\<close>

definition br_ok :: "bitReader \<Rightarrow> bool" where
  "br_ok b \<longleftrightarrow> incnt b \<le> length (brIn b) \<and> nbits b \<le> 64 \<and> take_bit (nbits b) (hold b) = hold b"

lemma length_left_bits: "br_ok b \<Longrightarrow> length (left_bits b) = nbits b + 8 * (length (brIn b) - incnt b)"
  by (simp add: left_bits_def held_bits_def)

lemma br_ok_bit: "br_ok b \<Longrightarrow> bit (hold b) i \<Longrightarrow> i < nbits b"
  by (metis bit_take_bit_iff br_ok_def)

lemma fill_step:
  assumes ok: "br_ok b" and n: "nbits b \<le> 56" and i: "incnt b < length (brIn b)"
    and b': "b' = b\<lparr>hold := hold b OR push_bit (nbits b) (ucast (brIn b ! incnt b)), incnt := incnt b + 1, nbits := nbits b + 8\<rparr>"
  shows "br_ok b'" "left_bits b' = left_bits b"
proof -
  let ?x = "brIn b ! incnt b"
  have nb: "nbits b' = nbits b + 8" using b' by simp
  have bit: "bit (hold b') j \<longleftrightarrow> (if j < nbits b then bit (hold b) j else j < nbits b + 8 \<and> bit ?x (j - nbits b))"
    for j
  proof (cases "j < nbits b")
    case True
    then show ?thesis using b' n by (simp add: bit_simps)
  next
    case False
    then have "\<not> bit (hold b) j" using br_ok_bit[OF ok] by blast
    moreover have "bit ?x k \<Longrightarrow> k < 8" for k using bit_imp_le_length[of ?x k] by simp
    ultimately show ?thesis using b' n False by (auto simp: bit_simps) (use bit_imp_le_length in fastforce)+
  qed
  have "take_bit (nbits b') (hold b') = hold b'"
  proof (rule bit_eqI)
    fix j
    from nb have "bit (hold b') j \<Longrightarrow> j < nbits b'" using bit[of j] by (auto split: if_splits)
    then show "bit (take_bit (nbits b') (hold b')) j = bit (hold b') j" by (simp only: bit_take_bit_iff) blast
  qed
  with ok n i b' show "br_ok b'" by (simp add: br_ok_def)
  have "drop (incnt b) (brIn b) = ?x # drop (Suc (incnt b)) (brIn b)"
    using i by (simp add: Cons_nth_drop_Suc)
  moreover have "held_bits b' = held_bits b @ byte_bits ?x"
    by (rule nth_equalityI) (auto simp: held_bits_def byte_bits_def nb nth_append bit)
  ultimately show "left_bits b' = left_bits b"
    by (simp add: left_bits_def all_bits_Cons b')
qed


lemma fill_spec:
  "br_ok b \<Longrightarrow> need \<le> 32 \<Longrightarrow>
   if length (left_bits b) < need then fill need b = Inl ZTruncated
   else \<exists>b'. fill need b = Inr b' \<and> br_ok b' \<and> left_bits b' = left_bits b \<and> brIn b' = brIn b \<and>
          need \<le> nbits b' \<and> (nbits b' = nbits b \<or> nbits b' < need + 8)"
proof (induction need b rule: fill.induct)
  case (1 need b)
  show ?case
  proof (cases "nbits b < need \<and> incnt b < length (brIn b)")
    case True
    define b1 where "b1 = b\<lparr>hold := hold b OR push_bit (nbits b) (ucast (brIn b ! incnt b)), incnt := incnt b + 1, nbits := nbits b + 8\<rparr>"
    have b1: "br_ok b1" "left_bits b1 = left_bits b" "brIn b1 = brIn b" "nbits b1 = nbits b + 8"
      using fill_step[OF 1(2) _ _ b1_def] True 1(3) by (simp_all add: b1_def)
    have "fill need b = fill need b1"
      using True by (simp add: fill.simps[of need b] b1_def)
    moreover note 1(1)[of "brIn b ! incnt b", folded b1_def, unfolded b1(2,3,4)]
    ultimately show ?thesis
      using True b1(1) 1(3) by (cases "length (left_bits b) < need") fastforce+
  next
    case False
    then show ?thesis
      using 1(2) length_left_bits[OF 1(2)] by (auto simp: fill.simps[of need b] not_less)
  qed
qed

lemma lsb_nat_bits: "lsb_nat (map (bit w) [0..<n]) = unat (take_bit n w)" for w :: "'a::len word"
proof -
  have "map (bit w) [0..<n] = map (bit (unat w)) [0..<n]"
    by (simp add: bit_unsigned_iff)
  then show ?thesis
    by (simp only: lsb_nat_def horner_sum_bit_eq_take_bit unsigned_take_bit_eq)
qed

lemma take_left_bits: "br_ok b \<Longrightarrow> n \<le> nbits b \<Longrightarrow> take n (left_bits b) = map (bit (hold b)) [0..<n]"
  by (simp add: left_bits_def held_bits_def take_map)

lemma drop_left_bits:
  assumes "br_ok b" "n \<le> nbits b"
  shows "left_bits (b\<lparr>hold := drop_bit n (hold b), nbits := nbits b - n\<rparr>) = drop n (left_bits b)"
    "br_ok (b\<lparr>hold := drop_bit n (hold b), nbits := nbits b - n\<rparr>)"
proof -
  have "map (bit (drop_bit n (hold b))) [0..<nbits b - n] = drop n (held_bits b)"
    by (rule nth_equalityI) (use assms in \<open>auto simp: held_bits_def bit_simps add.commute\<close>)
  then show "left_bits (b\<lparr>hold := drop_bit n (hold b), nbits := nbits b - n\<rparr>) = drop n (left_bits b)"
    using assms by (simp add: left_bits_def held_bits_def)
  have "take_bit (nbits b - n) (drop_bit n (hold b)) = drop_bit n (take_bit (nbits b) (hold b))"
    using assms(2) by (simp add: take_bit_drop_bit)
  with assms show "br_ok (b\<lparr>hold := drop_bit n (hold b), nbits := nbits b - n\<rparr>)"
    by (simp add: br_ok_def le_diff_conv)
qed

section \<open>The abstract reader\<close>

definition ref_bits :: "nat \<Rightarrow> bool list \<Rightarrow> zerr + nat \<times> bool list" where
  "ref_bits n xs = (if length xs < n then Inl ZTruncated else Inr (lsb_nat (take n xs), drop n xs))"

definition ref_align :: "bool list \<Rightarrow> bool list" where
  "ref_align xs = drop (length xs mod 8) xs"

definition ref_byte :: "bool list \<Rightarrow> zerr + byte \<times> bool list" where
  "ref_byte xs = (if length xs < 8 then Inl ZTruncated else Inr (of_nat (lsb_nat (take 8 xs)), drop 8 xs))"

text \<open>The reader has less than a byte in the accumulator, and what is left is the end of its input.\<close>

definition br_rel :: "bytes \<Rightarrow> bitReader \<Rightarrow> bool list \<Rightarrow> bool" where
  "br_rel data b xs \<longleftrightarrow> br_ok b \<and> nbits b < 8 \<and> brIn b = data \<and> xs = left_bits b \<and>
     (\<exists>n. xs = drop n (all_bits data))"

lemma br_rel_init: "br_rel data \<lparr>brIn = data, incnt = 0, hold = 0, nbits = 0\<rparr> (all_bits data)"
  by (auto simp: br_rel_def br_ok_def left_bits_def held_bits_def intro: exI[of _ 0])

lemma bits_refines:
  assumes rel: "br_rel data b xs" and n: "n \<le> 32"
  shows "agree (rel_prod (=) (br_rel data)) (bits n b) (ref_bits n xs)"
proof (cases "length (left_bits b) < n")
  case True
  then show ?thesis
    using rel fill_spec[of b n] n by (simp add: br_rel_def bits_def ref_bits_def)
next
  case False
  then obtain b' where b': "fill n b = Inr b'" "br_ok b'" "left_bits b' = left_bits b" "brIn b' = brIn b"
    "n \<le> nbits b'" "nbits b' - n < 8"
    using rel fill_spec[of b n] n by (fastforce simp: br_rel_def)
  have "hold b' AND (push_bit n 1 - 1) = take_bit n (hold b')"
    by (simp add: take_bit_eq_mask mask_eq_exp_minus_1 push_bit_of_1)
  then have "unat (hold b' AND (push_bit n 1 - 1)) = lsb_nat (take n (left_bits b))"
    using take_left_bits[OF b'(2,5)] b'(3) by (simp add: lsb_nat_bits)
  with b' drop_left_bits[OF b'(2,5)] False rel show ?thesis
    by (auto simp: bits_def ref_bits_def br_rel_def)
qed

lemma align_refines: "br_rel data b xs \<Longrightarrow> br_rel data (align b) (ref_align xs)"
proof -
  assume rel: "br_rel data b xs"
  then have "length xs = nbits b + 8 * (length (brIn b) - incnt b)" "nbits b < 8" "br_ok b"
    by (simp_all add: br_rel_def length_left_bits)
  then have "length xs mod 8 = nbits b" "nbits b AND 7 = nbits b"
    using and_nat_numerals take_bit_nat_eq_self[of "nbits b" 3]
    by (simp_all add: take_bit_eq_mask mask_eq_exp_minus_1)
  with rel drop_left_bits[of b "nbits b"] show ?thesis
    by (auto simp: br_rel_def align_def ref_align_def Let_def)
qed

lemma byte_of_bits: "of_nat (lsb_nat (byte_bits x)) = x"
  by (simp add: byte_bits_def lsb_nat_bits) (simp add: take_bit_word_eq_self)

text \<open>On a byte boundary, the next byte is the next eight bits.\<close>

lemma readByte_refines:
  assumes rel: "br_rel data b xs" and al: "8 dvd length xs"
  shows "agree (rel_prod (=) (br_rel data)) (readByte b) (ref_byte xs)"
proof -
  have ok: "br_ok b" and xs: "xs = left_bits b" and nb: "nbits b = 0"
    using rel al by (auto simp: br_rel_def length_left_bits dvd_add_left_iff)
  show ?thesis
  proof (cases "incnt b < length (brIn b)")
    case True
    then have "drop (incnt b) (brIn b) = brIn b ! incnt b # drop (Suc (incnt b)) (brIn b)"
      by (simp add: Cons_nth_drop_Suc)
    then have eq: "xs = byte_bits (brIn b ! incnt b) @ all_bits (drop (Suc (incnt b)) (brIn b))"
      by (simp add: xs nb left_bits_def held_bits_def all_bits_Cons)
    have ref: "ref_byte xs = Inr (brIn b ! incnt b, all_bits (drop (Suc (incnt b)) (brIn b)))"
      by (simp add: ref_byte_def eq byte_of_bits)
    have rest: "all_bits (drop (Suc (incnt b)) (brIn b)) = drop 8 xs" by (simp add: eq)
    have "\<exists>n. all_bits (drop (Suc (incnt b)) (brIn b)) = drop n (all_bits data)"
      unfolding rest using rel by (auto simp: br_rel_def)
    then have "br_rel data (b\<lparr>incnt := Suc (incnt b)\<rparr>) (all_bits (drop (Suc (incnt b)) (brIn b)))"
      using rel True nb by (simp add: br_rel_def br_ok_def left_bits_def held_bits_def)
    with ref show ?thesis using True nb by (simp add: readByte_def)
  next
    case False
    then show ?thesis using nb xs by (simp add: readByte_def ref_byte_def left_bits_def held_bits_def)
  qed
qed

lemma ref_align_dvd: "8 dvd length (ref_align xs)"
  by (simp add: ref_align_def minus_mod_eq_mult_div)

lemma ref_byte_dvd: "8 dvd length xs \<Longrightarrow> ref_byte xs = Inr (v, ys) \<Longrightarrow> 8 dvd length ys"
  by (auto simp: ref_byte_def split: if_splits)

lemma eof_refines: "br_rel data b xs \<Longrightarrow> eof b \<longleftrightarrow> xs = []"
  by (auto simp: br_rel_def eof_def left_bits_def held_bits_def all_bits_def)
    (auto simp: byte_bits_def simp flip: length_0_conv)

text \<open>What is left is determined by the offset: whole bytes and the bits of the one before them.\<close>

lemma offset_refines:
  assumes "br_rel data b xs" "offset b = (off, k)"
  shows "xs = drop (nat (8 * off - int (unat k))) (all_bits data)" "0 \<le> 8 * off - int (unat k)" "unat k < 8"
    "off \<le> int (length data)"
proof -
  have ok: "br_ok b" and nb: "nbits b < 8" and data: "brIn b = data"
    using assms(1) by (simp_all add: br_rel_def)
  obtain n where n: "xs = drop n (all_bits data)" using assms(1) by (auto simp: br_rel_def)
  have len: "length xs = nbits b + 8 * (length data - incnt b)"
    using assms(1) ok data by (simp add: br_rel_def length_left_bits)
  have "drop_bit 3 (nbits b) = 0" using nb by (simp add: drop_bit_eq_div)
  moreover have "nbits b AND 7 = nbits b"
    using nb take_bit_nat_eq_self[of "nbits b" 3] by (simp add: take_bit_eq_mask mask_eq_exp_minus_1)
  ultimately have off: "off = int (incnt b)" and k: "unat k = nbits b"
    using assms(2) nb by (auto simp: offset_def unat_of_nat)
  have inc: "incnt b \<le> length data" using ok data by (simp add: br_ok_def)
  show "unat k < 8" "off \<le> int (length data)" using k nb off inc by simp_all
  have "length xs \<le> 8 * length data" using n by simp
  then have pos: "nbits b \<le> 8 * incnt b" using len inc by linarith
  then show "0 \<le> 8 * off - int (unat k)" using off k by simp
  have "xs = drop (8 * length data - length xs) (all_bits data)"
    using n by (metis diff_diff_cancel drop_all length_all_bits length_drop linear order_refl drop_eq_Nil)
  moreover have "8 * length data - length xs = nat (8 * off - int (unat k))"
    using off k len inc pos by linarith
  ultimately show "xs = drop (nat (8 * off - int (unat k))) (all_bits data)" by simp
qed

text \<open>The distance to the end of the input, which bounds the loops over the reader.\<close>

definition br_left :: "bitReader \<Rightarrow> nat" where
  "br_left b = nbits b + 8 * (length (brIn b) - incnt b)"

lemma fill_left: "fill need b = Inr b' \<Longrightarrow> br_left b' = br_left b \<and> need \<le> nbits b'"
proof (induction need b rule: fill.induct)
  case (1 need b)
  show ?case
  proof (cases "nbits b < need \<and> incnt b < length (brIn b)")
    case True
    then show ?thesis
      using 1 by (auto simp: fill.simps[of need b] br_left_def)
  next
    case False
    then show ?thesis
      using 1(2) by (auto simp: fill.simps[of need b] split: if_splits)
  qed
qed

lemma bits_left: "bits n b = Inr (v, b') \<Longrightarrow> br_left b = br_left b' + n"
  using fill_left[of n b] by (auto simp: bits_def ebind_Inr br_left_def)

lemma align_left: "br_left (align b) \<le> br_left b"
  by (simp add: align_def br_left_def Let_def)

lemma readByte_left: "readByte b = Inr (v, b') \<Longrightarrow> br_left b = br_left b' + 8"
  by (auto simp: readByte_def br_left_def split: if_splits)

end
