(* ===== verification/Inflate_Huffman.thy ===== *)
theory Inflate_Huffman
  imports Inflate_Bits
begin

text \<open>
  \<^verbatim>\<open>pkg/ztoc/inflate.go\<close>, the Huffman decoder: \<^verbatim>\<open>construct\<close> turns code lengths into counts per length and a
  symbol table, \<^verbatim>\<open>decode\<close> reads a symbol bit by bit.  The reference is the canonical code of RFC 1951:
  among codes of one length the values are consecutive in the order of the symbols, and a longer code
  continues after the shorter ones; a symbol is decoded by finding the code word the input begins with.
\<close>

section \<open>Tables\<close>

definition maxBits :: nat where "maxBits = 15"

text \<open>The symbol slice is a prefix, of length \<open>hlen\<close>, of its backing array, which is reused.\<close>

record huffman =
  hcount :: "nat list"
  hbuf :: "nat list"
  hlen :: nat

definition new_huffman :: huffman where
  "new_huffman = \<lparr>hcount = replicate (maxBits + 1) 0, hbuf = [], hlen = 0\<rparr>"

fun count_lengths :: "nat list \<Rightarrow> nat list \<Rightarrow> zerr + nat list" where
  "count_lengths [] c = Inr c"
| "count_lengths (l # ls) c =
     ebind (arr_get c l) (\<lambda>n. ebind (arr_set c l (n + 1)) (\<lambda>c'. count_lengths ls c'))"

text \<open>The loop over the code lengths from \<open>l\<close> on.\<close>

function left_loop :: "nat list \<Rightarrow> nat \<Rightarrow> int \<Rightarrow> zerr + int" where
  "left_loop count l left =
     (if l \<le> maxBits then
        ebind (arr_get count l) (\<lambda>c.
          let left' = 2 * left - int c in if left' < 0 then Inr left' else left_loop count (l + 1) left')
      else Inr left)"
  by pat_completeness auto
termination by (relation "measure (\<lambda>(_, l, _). Suc maxBits - l)") auto

declare left_loop.simps [simp del]

definition next_offset :: "nat list \<Rightarrow> nat list \<Rightarrow> nat \<Rightarrow> zerr + nat list" where
  "next_offset count offs l =
     ebind (arr_get offs l) (\<lambda>off. ebind (arr_get count l) (\<lambda>c. arr_set offs (l + 1) (off + c)))"

definition symbol_offsets :: "nat list \<Rightarrow> zerr + nat list" where
  "symbol_offsets count =
     foldl (\<lambda>m l. ebind m (\<lambda>offs. next_offset count offs l)) (Inr (replicate (maxBits + 1) 0)) [1..<maxBits]"

fun place_symbols :: "nat \<Rightarrow> nat list \<Rightarrow> nat list \<Rightarrow> nat list \<Rightarrow> nat \<Rightarrow> zerr + nat list" where
  "place_symbols s [] offs buf n = Inr buf"
| "place_symbols s (l # ls) offs buf n =
     (if l = 0 then place_symbols (s + 1) ls offs buf n
      else
        ebind (arr_get offs l) (\<lambda>i.
          if i \<ge> n then Inl ZPanic
          else ebind (arr_set buf i s) (\<lambda>buf'. ebind (arr_set offs l (i + 1)) (\<lambda>offs'.
                 place_symbols (s + 1) ls offs' buf' n))))"

definition construct :: "huffman \<Rightarrow> nat list \<Rightarrow> zerr + int \<times> huffman" where
  "construct h lengths =
     ebind (count_lengths lengths (replicate (maxBits + 1) 0)) (\<lambda>count.
     ebind (arr_get count 0) (\<lambda>zeros.
       if zeros = length lengths then Inr (0, h\<lparr>hcount := count\<rparr>)
       else
         ebind (left_loop count 1 1) (\<lambda>left.
           if left < 0 then Inr (left, h\<lparr>hcount := count\<rparr>)
           else
             ebind (symbol_offsets count) (\<lambda>offs.
               let buf = (if length (hbuf h) < length lengths then replicate (length lengths) 0 else hbuf h)
               in ebind (place_symbols 0 lengths offs buf (length lengths)) (\<lambda>buf'.
                    Inr (left, \<lparr>hcount = count, hbuf = buf', hlen = length lengths\<rparr>))))))"

section \<open>Decoding a symbol\<close>

text \<open>One turn of the loop for each code length.\<close>

function decode_loop :: "huffman \<Rightarrow> nat \<Rightarrow> nat \<Rightarrow> nat \<Rightarrow> nat \<Rightarrow> bitReader \<Rightarrow> zerr + nat \<times> bitReader" where
  "decode_loop h l code first index b =
     (if l \<le> maxBits then
        ebind (bits 1 b) (\<lambda>(bt, b1).
        ebind (arr_get (hcount h) l) (\<lambda>count.
          let code1 = code OR bt in
          if int code1 - int count < int first then
            let i = int index + (int code1 - int first) in
            if 0 \<le> i \<and> i < int (hlen h) then ebind (arr_get (hbuf h) (nat i)) (\<lambda>s. Inr (s, b1)) else Inl ZPanic
          else decode_loop h (l + 1) (2 * code1) (2 * (first + count)) (index + count) b1))
      else Inl ZBadCode)"
  by pat_completeness auto
termination by (relation "measure (\<lambda>(h, l, _). Suc maxBits - l)") auto

declare decode_loop.simps [simp del]

definition decode :: "huffman \<Rightarrow> bitReader \<Rightarrow> zerr + nat \<times> bitReader" where
  "decode h b = decode_loop h 1 0 0 0 b"

section \<open>The canonical code\<close>

fun first_code :: "nat list \<Rightarrow> nat \<Rightarrow> nat" where
  "first_code lens 0 = 0"
| "first_code lens (Suc l) = 2 * (first_code lens l + (if l = 0 then 0 else count_list lens l))"

definition rank :: "nat list \<Rightarrow> nat \<Rightarrow> nat" where
  "rank lens s = count_list (take s lens) (lens ! s)"

definition code_value :: "nat list \<Rightarrow> nat \<Rightarrow> nat" where
  "code_value lens s = first_code lens (lens ! s) + rank lens s"

text \<open>The code word, most significant bit first.\<close>

definition code_word :: "nat list \<Rightarrow> nat \<Rightarrow> bool list" where
  "code_word lens s = rev (map (bit (code_value lens s)) [0..<lens ! s])"

definition matches :: "nat list \<Rightarrow> bool list \<Rightarrow> nat \<Rightarrow> bool" where
  "matches lens xs s \<longleftrightarrow> lens ! s \<noteq> 0 \<and> take (lens ! s) xs = code_word lens s"

definition ref_decode :: "nat list \<Rightarrow> bool list \<Rightarrow> zerr + nat \<times> bool list" where
  "ref_decode lens xs =
     (case find (matches lens xs) [0..<length lens] of
        Some s \<Rightarrow> Inr (s, drop (lens ! s) xs)
      | None \<Rightarrow> if length xs < maxBits then Inl ZTruncated else Inl ZBadCode)"

text \<open>How much of the code space is left: negative when over-subscribed, zero when complete.\<close>

definition ref_left :: "nat list \<Rightarrow> int" where
  "ref_left lens =
     (if count_list lens 0 = length lens then 0
      else 2 ^ maxBits - int (first_code lens maxBits + count_list lens maxBits))"

definition lens_ok :: "nat list \<Rightarrow> bool" where
  "lens_ok lens \<longleftrightarrow> (\<forall>l\<in>set lens. l \<le> maxBits)"

section \<open>Values of bit strings\<close>

definition msb_nat :: "bool list \<Rightarrow> nat" where
  "msb_nat xs = horner_sum of_bool 2 (rev xs)"

lemma msb_nat_Nil [simp]: "msb_nat [] = 0"
  by (simp add: msb_nat_def)

lemma msb_nat_snoc: "msb_nat (xs @ [b]) = 2 * msb_nat xs + of_bool b"
  by (simp add: msb_nat_def)

lemma msb_nat_bound: "msb_nat xs < 2 ^ length xs"
  by (induction xs rule: rev_induct) (auto simp: msb_nat_snoc)

lemma msb_nat_append: "msb_nat (xs @ ys) = msb_nat xs * 2 ^ length ys + msb_nat ys"
  by (induction ys rule: rev_induct) (auto simp: msb_nat_snoc append.assoc[symmetric] simp del: append.assoc append_assoc)

lemma msb_nat_word: "v < 2 ^ n \<Longrightarrow> msb_nat (rev (map (bit v) [0..<n])) = v"
  by (simp add: msb_nat_def horner_sum_bit_eq_take_bit take_bit_nat_eq_self)

lemma msb_nat_inject: "length xs = length ys \<Longrightarrow> msb_nat xs = msb_nat ys \<Longrightarrow> xs = ys"
proof (induction xs arbitrary: ys rule: rev_induct)
  case (snoc x xs)
  then obtain z zs where ys: "ys = zs @ [z]" by (cases ys rule: rev_cases) auto
  with snoc.prems have "2 * msb_nat xs + of_bool x = 2 * msb_nat zs + of_bool z" by (simp add: msb_nat_snoc)
  then have "x = z \<and> msb_nat xs = msb_nat zs" by (cases x; cases z) (auto, presburger+)
  with snoc ys show ?case by simp
qed simp

lemma msb_nat_take_Suc: "n < length xs \<Longrightarrow> msb_nat (take (Suc n) xs) = 2 * msb_nat (take n xs) + of_bool (xs ! n)"
  by (simp add: take_Suc_conv_app_nth msb_nat_snoc)

lemma msb_nat_take_mono:
  assumes "j \<le> k" "k \<le> length xs"
  shows "msb_nat (take j xs) * 2 ^ (k - j) \<le> msb_nat (take k xs)"
    "msb_nat (take k xs) < (msb_nat (take j xs) + 1) * 2 ^ (k - j)"
proof -
  have eq: "take k xs = take j xs @ take (k - j) (drop j xs)"
    using assms by (simp flip: take_add)
  have len: "length (take (k - j) (drop j xs)) = k - j" using assms by simp
  show "msb_nat (take j xs) * 2 ^ (k - j) \<le> msb_nat (take k xs)"
    unfolding eq msb_nat_append len by simp
  show "msb_nat (take k xs) < (msb_nat (take j xs) + 1) * 2 ^ (k - j)"
    unfolding eq msb_nat_append len using msb_nat_bound[of "take (k - j) (drop j xs)"] len by simp
qed

section \<open>Order of the codes\<close>

text \<open>The end of the codes of length \<open>l\<close>.\<close>

definition last_code :: "nat list \<Rightarrow> nat \<Rightarrow> nat" where
  "last_code lens l = first_code lens l + (if l = 0 then 0 else count_list lens l)"

lemma first_code_Suc: "first_code lens (Suc l) = 2 * last_code lens l"
  by (simp add: last_code_def)

lemma last_code_mono: "j < k \<Longrightarrow> last_code lens j * 2 ^ (k - j) \<le> first_code lens k"
proof (induction k)
  case (Suc k)
  show ?case
  proof (cases "j = k")
    case True
    then show ?thesis by (simp add: first_code_Suc del: first_code.simps)
  next
    case False
    with Suc have "last_code lens j * 2 ^ (k - j) \<le> last_code lens k" "Suc k - j = Suc (k - j)"
      by (auto simp: last_code_def)
    then show ?thesis by (simp add: first_code_Suc del: first_code.simps)
  qed
qed simp

lemma rank_less: "s < length lens \<Longrightarrow> rank lens s < count_list lens (lens ! s)"
proof -
  assume s: "s < length lens"
  have "count_list lens (lens ! s) = count_list (take s lens @ lens ! s # drop (Suc s) lens) (lens ! s)"
    using s by (simp add: id_take_nth_drop[symmetric])
  then show ?thesis by (simp add: rank_def)
qed

lemma rank_inject:
  assumes "s < length lens" "t < length lens" "lens ! s = lens ! t" "rank lens s = rank lens t"
  shows "s = t"
proof -
  have less: "rank lens i < rank lens j" if "i < j" "j < length lens" "lens ! i = lens ! j" for i j
  proof -
    have "take j lens = take i lens @ lens ! i # take (j - Suc i) (drop (Suc i) lens)"
      using that by (metis id_take_nth_drop take_Suc_conv_app_nth append_Cons append_assoc append_Nil
          less_trans take_add le_add_diff_inverse Suc_leI)
    then show ?thesis using that by (simp add: rank_def)
  qed
  with assms show ?thesis by (metis less_irrefl nat_neq_iff)
qed

lemma rank_surj: "r < count_list lens l \<Longrightarrow> \<exists>s<length lens. lens ! s = l \<and> rank lens s = r"
proof (induction lens rule: rev_induct)
  case (snoc x lens)
  show ?case
  proof (cases "r < count_list lens l")
    case True
    with snoc obtain s where "s < length lens" "lens ! s = l" "rank lens s = r" by blast
    then show ?thesis by (intro exI[of _ s]) (simp add: nth_append rank_def)
  next
    case False
    with snoc.prems have "x = l" "r = count_list lens l" by (auto split: if_splits)
    then show ?thesis by (intro exI[of _ "length lens"]) (simp add: nth_append rank_def)
  qed
qed simp


section \<open>Decoding with a table\<close>

text \<open>The codes fit: no length has more codes than there is room for.\<close>

definition fits :: "nat list \<Rightarrow> bool" where
  "fits lens \<longleftrightarrow> lens_ok lens \<and> last_code lens maxBits \<le> 2 ^ maxBits"

lemma fits_last: "fits lens \<Longrightarrow> l \<le> maxBits \<Longrightarrow> last_code lens l \<le> 2 ^ l"
proof (cases "l = maxBits")
  case False
  assume fits: "fits lens" and "l \<le> maxBits"
  with False have l: "l < maxBits" by simp
  have "last_code lens l * 2 ^ (maxBits - l) \<le> last_code lens maxBits"
    using last_code_mono[OF l, of lens] by (auto simp: last_code_def intro: le_trans)
  also have "\<dots> \<le> 2 ^ l * 2 ^ (maxBits - l)"
    using fits l by (simp add: fits_def flip: power_add)
  finally show ?thesis by simp
qed (simp add: fits_def)

lemma code_value_less: "s < length lens \<Longrightarrow> lens ! s \<noteq> 0 \<Longrightarrow> code_value lens s < last_code lens (lens ! s)"
  using rank_less[of s lens] by (simp add: code_value_def last_code_def)

lemma matches_iff:
  assumes "fits lens" "s < length lens"
  shows "matches lens xs s \<longleftrightarrow>
    lens ! s \<noteq> 0 \<and> lens ! s \<le> length xs \<and> msb_nat (take (lens ! s) xs) = code_value lens s"
proof (cases "lens ! s = 0")
  case False
  have "lens ! s \<le> maxBits" using assms by (simp add: fits_def lens_ok_def)
  then have v: "code_value lens s < 2 ^ (lens ! s)"
    using code_value_less[OF assms(2) False] fits_last[OF assms(1)] by (meson less_le_trans)
  have len: "length (code_word lens s) = lens ! s" and val: "msb_nat (code_word lens s) = code_value lens s"
    using v by (simp_all add: code_word_def msb_nat_word)
  show ?thesis
  proof
    assume m: "matches lens xs s"
    then have "length (take (lens ! s) xs) = lens ! s" using len unfolding matches_def by metis
    then have "lens ! s \<le> length xs" by simp
    with m val False show "lens ! s \<noteq> 0 \<and> lens ! s \<le> length xs \<and> msb_nat (take (lens ! s) xs) = code_value lens s"
      by (simp add: matches_def)
  next
    assume "lens ! s \<noteq> 0 \<and> lens ! s \<le> length xs \<and> msb_nat (take (lens ! s) xs) = code_value lens s"
    with len val show "matches lens xs s" by (simp add: matches_def msb_nat_inject)
  qed
qed (simp add: matches_def)

text \<open>Past the end of the codes of length \<open>k\<close>, no code of length at most \<open>k\<close> matches.\<close>

lemma no_short_match:
  assumes fits: "fits lens" and s: "s < length lens" "matches lens xs s" and k: "k \<le> length xs"
    and past: "last_code lens k \<le> msb_nat (take k xs)"
  shows "k < lens ! s"
proof (rule ccontr)
  assume "\<not> k < lens ! s"
  define j where "j = lens ! s"
  have j: "j \<noteq> 0" "j \<le> k" "msb_nat (take j xs) < last_code lens j"
    using s matches_iff[OF fits s(1)] code_value_less[OF s(1)] \<open>\<not> k < lens ! s\<close> by (auto simp: j_def)
  show False
  proof (cases "j = k")
    case True
    with j(3) past show False by simp
  next
    case False
    with j(2) have "j < k" by simp
    then have "last_code lens j * 2 ^ (k - j) \<le> first_code lens k" by (rule last_code_mono)
    also have "\<dots> \<le> msb_nat (take k xs)" using past by (simp add: last_code_def)
    also have "\<dots> < (msb_nat (take j xs) + 1) * 2 ^ (k - j)"
      using msb_nat_take_mono(2)[OF j(2) k] .
    also have "\<dots> \<le> last_code lens j * 2 ^ (k - j)" using j(3) by (intro mult_le_mono1) simp
    finally show False by simp
  qed
qed

text \<open>Before it, no longer code matches.\<close>

lemma no_long_match:
  assumes fits: "fits lens" and s: "s < length lens" "matches lens xs s" and k: "k \<le> length xs"
    and before: "msb_nat (take k xs) < last_code lens k"
  shows "lens ! s \<le> k"
proof (rule ccontr)
  assume "\<not> lens ! s \<le> k"
  define j where "j = lens ! s"
  have j: "k < j" "j \<le> length xs" "first_code lens j \<le> msb_nat (take j xs)"
    using s matches_iff[OF fits s(1)] \<open>\<not> lens ! s \<le> k\<close> by (auto simp: j_def code_value_def)
  have "last_code lens k * 2 ^ (j - k) \<le> msb_nat (take j xs)"
    using last_code_mono[OF j(1), of lens] j(3) by simp
  also have "\<dots> < (msb_nat (take k xs) + 1) * 2 ^ (j - k)"
    using msb_nat_take_mono(2)[of k j xs] j by simp
  also have "\<dots> \<le> last_code lens k * 2 ^ (j - k)" using before by (intro mult_le_mono1) simp
  finally show False by simp
qed

definition sym_index :: "nat list \<Rightarrow> nat \<Rightarrow> nat" where
  "sym_index lens l = (\<Sum>k=1..<l. count_list lens k)"

definition table :: "nat list \<Rightarrow> huffman \<Rightarrow> bool" where
  "table lens h \<longleftrightarrow> fits lens \<and> length (hcount h) = maxBits + 1 \<and>
     (\<forall>l. 1 \<le> l \<longrightarrow> l \<le> maxBits \<longrightarrow> hcount h ! l = count_list lens l) \<and>
     (\<forall>s<length lens. lens ! s \<noteq> 0 \<longrightarrow>
        sym_index lens (lens ! s) + rank lens s < min (hlen h) (length (hbuf h)) \<and> hbuf h ! (sym_index lens (lens ! s) + rank lens s) = s)"

text \<open>At most one code word begins the input, so the symbol found is the one that matches.\<close>

lemma matches_unique:
  assumes fits: "fits lens" and s: "s < length lens" "matches lens xs s" and t: "t < length lens" "matches lens xs t"
  shows "s = t"
proof -
  have le: "lens ! j \<le> lens ! i"
    if i: "i < length lens" "matches lens xs i" and j: "j < length lens" "matches lens xs j" for i j
    using no_long_match[OF fits j, of "lens ! i"] matches_iff[OF fits i(1)] i(2) code_value_less[OF i(1)] by simp
  have eq: "lens ! s = lens ! t" using le[OF s t] le[OF t s] by simp
  then have "code_value lens s = code_value lens t"
    using matches_iff[OF fits s(1)] matches_iff[OF fits t(1)] s(2) t(2) by simp
  with eq have "rank lens s = rank lens t" by (simp add: code_value_def)
  with rank_inject[OF s(1) t(1) eq] show ?thesis by simp
qed

lemma ref_decode_match:
  assumes fits: "fits lens" and s: "s < length lens" "matches lens xs s"
  shows "ref_decode lens xs = Inr (s, drop (lens ! s) xs)"
proof (cases "find (matches lens xs) [0..<length lens]")
  case None
  then show ?thesis using s by (simp add: find_None_iff)
next
  case (Some t)
  then have "t < length lens" "matches lens xs t" by (auto simp: find_Some_iff)
  with matches_unique[OF fits s] Some show ?thesis by (simp add: ref_decode_def)
qed

lemma ref_decode_found:
  assumes fits: "fits lens" and l: "1 \<le> l" "l \<le> length xs"
    and s: "s < length lens" "lens ! s = l" "msb_nat (take l xs) = first_code lens l + rank lens s"
  shows "ref_decode lens xs = Inr (s, drop l xs)"
  using ref_decode_match[OF fits s(1)] matches_iff[OF fits s(1)] l s by (simp add: code_value_def)

text \<open>No symbol is found when the input ends, or the lengths are exhausted, past all codes seen.\<close>

lemma ref_decode_none:
  assumes fits: "fits lens" and prev: "last_code lens (l - 1) \<le> msb_nat (take (l - 1) xs)" "l - 1 \<le> length xs"
    and stop: "length xs < l \<or> l = maxBits + 1" "l \<le> maxBits + 1"
  shows "ref_decode lens xs = (if length xs < maxBits then Inl ZTruncated else Inl ZBadCode)"
proof -
  have "\<not> matches lens xs t" if t: "t < length lens" for t
  proof
    assume m: "matches lens xs t"
    have "l - 1 < lens ! t" by (rule no_short_match[OF fits t m prev(2,1)])
    moreover have "lens ! t \<le> length xs" "lens ! t \<le> maxBits"
      using matches_iff[OF fits t] m fits t by (auto simp: fits_def lens_ok_def)
    ultimately show False using stop by auto
  qed
  then have "find (matches lens xs) [0..<length lens] = None" by (simp add: find_None_iff)
  then show ?thesis by (simp add: ref_decode_def)
qed

lemma or_bit: "2 * n OR of_bool b = 2 * n + of_bool b" for n :: nat
  by (cases b) (simp_all add: or_one_eq del: One_nat_def)

lemma ref_bits_1: "ref_bits (Suc 0) xs = (case xs of [] \<Rightarrow> Inl ZTruncated | x # ys \<Rightarrow> Inr (of_bool x, ys))"
  by (cases xs) (simp_all add: ref_bits_def lsb_nat_def)

lemma sym_index_Suc: "1 \<le> l \<Longrightarrow> sym_index lens (l + 1) = sym_index lens l + count_list lens l"
  by (simp add: sym_index_def)

lemma decode_loop_refines:
  assumes tab: "table lens h"
  shows "br_rel data b (drop (l - 1) xs) \<Longrightarrow> 1 \<le> l \<Longrightarrow> l \<le> maxBits + 1 \<Longrightarrow> l - 1 \<le> length xs \<Longrightarrow>
    last_code lens (l - 1) \<le> msb_nat (take (l - 1) xs) \<Longrightarrow>
    agree (rel_prod (=) (br_rel data))
      (decode_loop h l (2 * msb_nat (take (l - 1) xs)) (first_code lens l) (sym_index lens l) b) (ref_decode lens xs)"
proof (induction "maxBits + 1 - l" arbitrary: l b)
  case 0
  then have l: "l = maxBits + 1" by simp
  have "ref_decode lens xs = Inl ZBadCode"
    using ref_decode_none[of lens l xs] 0 l tab by (simp add: table_def)
  then show ?case by (simp add: decode_loop.simps l)
next
  case (Suc n)
  then have l: "l \<le> maxBits" by simp
  have fits: "fits lens" and cnt: "arr_get (hcount h) l = Inr (count_list lens l)"
    using tab l Suc.prems(2) by (simp_all add: table_def)
  note step = bits_refines[OF Suc.prems(1), of 1]
  show ?case
  proof (cases "l - 1 < length xs")
    case False
    then have "ref_decode lens xs = Inl ZTruncated" "drop (l - 1) xs = []"
      using ref_decode_none[of lens l xs] Suc.prems l fits by auto
    with step show ?thesis
      using l by (cases "bits 1 b") (auto simp: decode_loop.simps ref_bits_1)
  next
    case True
    then have dr: "drop (l - 1) xs = xs ! (l - 1) # drop l xs"
      using Suc.prems(2) by (simp add: Cons_nth_drop_Suc[symmetric])
    with step obtain b1 where b1: "bits 1 b = Inr (of_bool (xs ! (l - 1)), b1)" "br_rel data b1 (drop l xs)"
      by (cases "bits 1 b") (auto simp: ref_bits_1)
    define v where "v = msb_nat (take l xs)"
    have v: "2 * msb_nat (take (l - 1) xs) OR of_bool (xs ! (l - 1)) = v"
      using msb_nat_take_Suc[OF True] Suc.prems(2) by (simp add: v_def or_bit)
    have ge: "first_code lens l \<le> v"
    proof -
      have "first_code lens l = 2 * last_code lens (l - 1)"
        using Suc.prems(2) first_code_Suc[of lens "l - 1"] by simp
      then show ?thesis using Suc.prems(5) msb_nat_take_Suc[OF True] Suc.prems(2) by (simp add: v_def)
    qed
    show ?thesis
    proof (cases "v < first_code lens l + count_list lens l")
      case hit: True
      then have "v - first_code lens l < count_list lens l" using ge by simp
      then obtain s where s: "s < length lens" "lens ! s = l" "rank lens s = v - first_code lens l"
        using rank_surj by blast
      then have "ref_decode lens xs = Inr (s, drop l xs)"
        using ref_decode_found[OF fits Suc.prems(2) _ s(1,2)] True ge
        by (simp add: v_def)
      moreover have "sym_index lens l + rank lens s < hlen h" "sym_index lens l + rank lens s < length (hbuf h)" "hbuf h ! (sym_index lens l + rank lens s) = s"
        using tab s Suc.prems(2) by (auto simp: table_def)
      moreover have "nat (int (sym_index lens l) + (int v - int (first_code lens l))) = sym_index lens l + rank lens s"
        using s(3) ge by simp
      ultimately show ?thesis
        using l b1 cnt v hit s(3) ge by (simp add: decode_loop.simps[of h l] Let_def)
    next
      case miss: False
      have "agree (rel_prod (=) (br_rel data))
          (decode_loop h (l + 1) (2 * msb_nat (take l xs)) (first_code lens (l + 1)) (sym_index lens (l + 1)) b1)
          (ref_decode lens xs)"
        using Suc.hyps(1)[of "l + 1" b1] Suc.hyps(2) b1(2) l True miss Suc.prems(2)
        by (simp add: v_def last_code_def)
      moreover have "first_code lens (l + 1) = 2 * (first_code lens l + count_list lens l)"
        using Suc.prems(2) by simp
      ultimately show ?thesis
        using l b1 cnt v miss sym_index_Suc[OF Suc.prems(2), of lens]
        by (simp add: decode_loop.simps[of h l] Let_def v_def)
    qed
  qed
qed

lemma decode_refines:
  assumes "table lens h" "br_rel data b xs"
  shows "agree (rel_prod (=) (br_rel data)) (decode h b) (ref_decode lens xs)"
  using decode_loop_refines[OF assms(1), of data b 1 xs] assms(2)
  by (simp add: decode_def last_code_def sym_index_def)

lemma decode_loop_left: "decode_loop h l code first index b = Inr (s, b') \<Longrightarrow> br_left b' < br_left b"
proof (induction h l code first index b rule: decode_loop.induct)
  case (1 h l code first index b)
  from 1(2) obtain bt b1 count where b1: "l \<le> maxBits" "bits 1 b = Inr (bt, b1)" "arr_get (hcount h) l = Inr count"
    by (auto simp: decode_loop.simps[of h l] ebind_Inr split: if_splits)
  have less: "br_left b1 < br_left b" using bits_left[OF b1(2)] by simp
  show ?case
  proof (cases "int (code OR bt) - int count < int first")
    case True
    with 1(2) b1 less show ?thesis
      by (auto simp: decode_loop.simps[of h l] Let_def ebind_Inr split: if_splits)
  next
    case False
    with 1(2) b1
    have "decode_loop h (l + 1) (2 * (code OR bt)) (2 * (first + count)) (index + count) b1 = Inr (s, b')"
      by (simp add: decode_loop.simps[of h l] Let_def)
    from 1(1)[OF b1(1,2) refl b1(3) refl False this] less show ?thesis by simp
  qed
qed

lemma decode_left: "decode h b = Inr (s, b') \<Longrightarrow> br_left b' < br_left b"
  unfolding decode_def by (rule decode_loop_left)

section \<open>Building the table\<close>

lemma count_lengths_spec:
  "length c = maxBits + 1 \<Longrightarrow>
   count_lengths ls c =
     (if lens_ok ls then Inr (map (\<lambda>l. c ! l + count_list ls l) [0..<maxBits + 1]) else Inl ZPanic)"
proof (induction ls arbitrary: c)
  case Nil
  then show ?case by (auto simp: lens_ok_def intro!: nth_equalityI simp del: upt_Suc)
next
  case (Cons l ls)
  show ?case
  proof (cases "l \<le> maxBits")
    case True
    have "(c[l := Suc (c ! l)]) ! k + count_list ls k = c ! k + count_list (l # ls) k" if "k < maxBits + 1" for k
      using that Cons.prems by (cases "k = l") auto
    then show ?thesis
      using Cons True by (auto simp: lens_ok_def less_Suc_eq_le not_le simp del: upt_Suc)
  next
    case False
    then show ?thesis using Cons.prems by (simp add: lens_ok_def arr_get_def)
  qed
qed

text \<open>The same loop over the counts as a list.\<close>

fun left_list :: "nat list \<Rightarrow> int \<Rightarrow> int" where
  "left_list [] left = left"
| "left_list (c # cs) left = (let left' = 2 * left - int c in if left' < 0 then left' else left_list cs left')"

lemma left_loop_list:
  "length count = maxBits + 1 \<Longrightarrow> left_loop count l left = Inr (left_list (drop l count) left)"
proof (induction count l left rule: left_loop.induct)
  case (1 count l left)
  show ?case
  proof (cases "l \<le> maxBits")
    case True
    then have "drop l count = count ! l # drop (l + 1) count" using "1.prems" by (simp add: Cons_nth_drop_Suc)
    moreover have "arr_get count l = Inr (count ! l)" using True "1.prems" by simp
    ultimately show ?thesis
      using "1.IH"[OF True] "1.prems" True by (simp add: left_loop.simps[of count l] Let_def)
  qed (use "1.prems" in \<open>simp add: left_loop.simps[of count l]\<close>)
qed

lemma left_list_spec:
  "length cs \<le> maxBits \<Longrightarrow> l + length cs = maxBits \<Longrightarrow> cs = map (count_list lens) [l + 1..<maxBits + 1] \<Longrightarrow>
   int (last_code lens l) \<le> 2 ^ l \<Longrightarrow>
   sgn (left_list cs (2 ^ l - int (last_code lens l))) = sgn (2 ^ maxBits - int (last_code lens maxBits))"
proof (induction cs arbitrary: l)
  case Nil
  then show ?case by simp
next
  case (Cons c cs)
  have l: "l < maxBits" using Cons.prems(2) by simp
  have c: "c = count_list lens (Suc l)" and cs: "cs = map (count_list lens) [Suc l + 1..<maxBits + 1]"
    using Cons.prems(3) l by (simp_all add: upt_rec[of "Suc l"] del: upt_Suc)
  have left: "2 * (2 ^ l - int (last_code lens l)) - int c = 2 ^ Suc l - int (last_code lens (Suc l))"
    using c by (simp add: last_code_def[of lens "Suc l"] first_code_Suc del: first_code.simps)
  show ?case
  proof (cases "2 ^ Suc l - int (last_code lens (Suc l)) < 0")
    case True
    have "last_code lens (Suc l) * 2 ^ (maxBits - Suc l) \<le> last_code lens maxBits"
    proof (cases "Suc l = maxBits")
      case False
      with l have "Suc l < maxBits" by simp
      then show ?thesis using last_code_mono[of "Suc l" maxBits lens] by (simp add: last_code_def)
    qed simp
    moreover have "(2 ^ Suc l :: nat) * 2 ^ (maxBits - Suc l) < last_code lens (Suc l) * 2 ^ (maxBits - Suc l)"
      using True by (simp del: power_Suc)
    moreover have "(2 ^ Suc l :: nat) * 2 ^ (maxBits - Suc l) = 2 ^ maxBits"
      using l by (simp flip: power_add power_Suc)
    ultimately have "2 ^ maxBits < last_code lens maxBits" by linarith
    then have "2 ^ maxBits - int (last_code lens maxBits) < 0"
      by (metis diff_less_0_iff_less of_nat_less_iff of_nat_numeral of_nat_power)
    with True left show ?thesis by (simp add: Let_def)
  next
    case False
    then have "sgn (left_list cs (2 ^ Suc l - int (last_code lens (Suc l)))) = sgn (2 ^ maxBits - int (last_code lens maxBits))"
      using Cons.prems cs by (intro Cons.IH) auto
    with False show ?thesis unfolding left_list.simps Let_def left by simp
  qed
qed


lemma symbol_offsets_loop:
  assumes "length count = maxBits + 1" "\<And>k. 1 \<le> k \<Longrightarrow> k \<le> maxBits \<Longrightarrow> count ! k = count_list lens k" and "1 \<le> n" "n \<le> maxBits"
  shows "\<exists>offs. foldl (\<lambda>m l. ebind m (\<lambda>offs. next_offset count offs l)) (Inr (replicate (maxBits + 1) 0)) [1..<n] = Inr offs \<and>
    length offs = maxBits + 1 \<and> (\<forall>l. 1 \<le> l \<longrightarrow> l \<le> n \<longrightarrow> offs ! l = sym_index lens l)"
  using assms(3,4)
proof (induction n)
  case (Suc n)
  show ?case
  proof (cases "n = 0")
    case True
    then show ?thesis by (auto simp: sym_index_def maxBits_def)
  next
    case False
    then have up: "[1..<Suc n] = [1..<n] @ [n]" by simp
    from False Suc obtain offs where offs: "length offs = maxBits + 1" "\<forall>l. 1 \<le> l \<longrightarrow> l \<le> n \<longrightarrow> offs ! l = sym_index lens l"
      and fold: "foldl (\<lambda>m l. ebind m (\<lambda>offs. next_offset count offs l)) (Inr (replicate (maxBits + 1) 0)) [1..<n] = Inr offs"
      by auto
    have "next_offset count offs n = Inr (offs[n + 1 := sym_index lens (n + 1)])"
      using offs assms(1) assms(2)[of n] Suc.prems False by (simp add: next_offset_def sym_index_Suc[simplified])
    with offs False Suc.prems show ?thesis
      unfolding up foldl_append fold by (auto simp: nth_list_update le_Suc_eq)
  qed
qed simp

lemma symbol_offsets_spec:
  assumes "length count = maxBits + 1" "\<And>k. 1 \<le> k \<Longrightarrow> k \<le> maxBits \<Longrightarrow> count ! k = count_list lens k"
  obtains offs where "symbol_offsets count = Inr offs" "length offs = maxBits + 1"
    "\<And>l. 1 \<le> l \<Longrightarrow> l \<le> maxBits \<Longrightarrow> offs ! l = sym_index lens l"
  using symbol_offsets_loop[of count lens maxBits, OF assms] unfolding symbol_offsets_def by (auto simp: maxBits_def)

definition sym_pos :: "nat list \<Rightarrow> nat \<Rightarrow> nat" where
  "sym_pos lens s = sym_index lens (lens ! s) + rank lens s"

lemma sym_index_mono: "k < l \<Longrightarrow> 1 \<le> k \<Longrightarrow> sym_index lens k + count_list lens k \<le> sym_index lens l"
proof (induction l)
  case (Suc l)
  then show ?case by (cases "k = l") (auto simp: sym_index_def)
qed simp

lemma sym_index_le: "sym_index lens l \<le> length lens"
proof -
  have "sym_index lens l = length (filter (\<lambda>k. 1 \<le> k \<and> k < l) lens)"
  proof (induction lens)
    case (Cons x lens)
    have "sym_index (x # lens) l = (\<Sum>k=1..<l. count_list lens k + (if k = x then 1 else 0))"
      unfolding sym_index_def by (rule sum.cong) auto
    also have "\<dots> = sym_index lens l + (if x \<in> {1..<l} then 1 else 0)"
      by (simp add: sym_index_def sum.distrib)
    finally show ?case using Cons by simp
  qed (simp add: sym_index_def)
  then show ?thesis by simp
qed

lemma sym_pos_less: "s < length lens \<Longrightarrow> lens ! s \<noteq> 0 \<Longrightarrow> sym_pos lens s < length lens"
  using rank_less[of s lens] sym_index_mono[of "lens ! s" "Suc (lens ! s)" lens] sym_index_le[of lens "Suc (lens ! s)"]
  by (simp add: sym_pos_def)

lemma sym_pos_inject:
  assumes "s < length lens" "t < length lens" "lens ! s \<noteq> 0" "lens ! t \<noteq> 0" "sym_pos lens s = sym_pos lens t"
  shows "s = t"
proof -
  have "sym_pos lens i < sym_pos lens j" if "lens ! i < lens ! j" "i < length lens" "lens ! i \<noteq> 0" for i j
    using sym_index_mono[OF that(1), of lens] rank_less[OF that(2)] that(3) by (simp add: sym_pos_def)
  then have "lens ! s = lens ! t" using assms by (metis less_irrefl linorder_neqE_nat)
  with assms rank_inject[of s lens t] show ?thesis by (simp add: sym_pos_def)
qed

lemma place_symbols_spec:
  assumes "lens = pre @ ls" "lens_ok lens" "length offs = maxBits + 1" "length lens \<le> length buf"
    and "\<And>l. 1 \<le> l \<Longrightarrow> l \<le> maxBits \<Longrightarrow> offs ! l = sym_index lens l + count_list pre l"
    and "\<And>t. t < length pre \<Longrightarrow> lens ! t \<noteq> 0 \<Longrightarrow> buf ! sym_pos lens t = t"
  shows "\<exists>buf'. place_symbols (length pre) ls offs buf (length lens) = Inr buf' \<and> length buf' = length buf \<and>
    (\<forall>t<length lens. lens ! t \<noteq> 0 \<longrightarrow> buf' ! sym_pos lens t = t)"
  using assms
proof (induction ls arbitrary: pre offs buf)
  case (Cons l ls)
  have lens: "lens = (pre @ [l]) @ ls" and len: "length (pre @ [l]) = length pre + 1" using Cons.prems(1) by simp_all
  have here: "lens ! length pre = l" "length pre < length lens" using Cons.prems(1) by simp_all
  show ?case
  proof (cases "l = 0")
    case True
    have "\<exists>buf'. place_symbols (length (pre @ [l])) ls offs buf (length lens) = Inr buf' \<and> length buf' = length buf \<and>
      (\<forall>t<length lens. lens ! t \<noteq> 0 \<longrightarrow> buf' ! sym_pos lens t = t)"
      using Cons.prems True here by (intro Cons.IH[OF lens]) (auto simp: less_Suc_eq)
    with True show ?thesis by simp
  next
    case False
    have l: "l \<le> maxBits" using Cons.prems(1,2) by (simp add: lens_ok_def)
    have pos: "offs ! l = sym_pos lens (length pre)"
      using Cons.prems(1,5) False l by (simp add: sym_pos_def rank_def)
    have bound: "sym_pos lens (length pre) < length lens" using sym_pos_less here False by simp
    have keep: "buf[sym_pos lens (length pre) := length pre] ! sym_pos lens t = t"
      if "t < length (pre @ [l])" "lens ! t \<noteq> 0" for t
    proof (cases "t = length pre")
      case True
      with bound Cons.prems(4) show ?thesis by simp
    next
      case other: False
      with that have "sym_pos lens t \<noteq> sym_pos lens (length pre)"
        using sym_pos_inject[of t lens "length pre"] here False by auto
      with that other Cons.prems(6) show ?thesis by simp
    qed
    have "\<exists>buf'. place_symbols (length (pre @ [l])) ls (offs[l := offs ! l + 1]) (buf[offs ! l := length pre]) (length lens) = Inr buf' \<and> length buf' = length (buf[offs ! l := length pre]) \<and>
      (\<forall>t<length lens. lens ! t \<noteq> 0 \<longrightarrow> buf' ! sym_pos lens t = t)"
    proof (rule Cons.IH[OF lens Cons.prems(2)])
      show "offs[l := offs ! l + 1] ! k = sym_index lens k + count_list (pre @ [l]) k" if "1 \<le> k" "k \<le> maxBits" for k
        using Cons.prems(3,5) that l by (cases "k = l") auto
    qed (use Cons.prems keep pos in auto)
    with False l bound pos Cons.prems(3,4) show ?thesis by simp
  qed
qed simp

text \<open>What \<^verbatim>\<open>construct\<close> does with code lengths: the sign of what is left, and a table unless over-subscribed.\<close>

lemma all_zero: "count_list lens 0 = length lens \<Longrightarrow> x \<in> set lens \<Longrightarrow> x = 0"
proof (induction lens)
  case (Cons y lens)
  have "count_list lens 0 \<le> length lens" by (rule count_le_length)
  with Cons show ?case by (auto split: if_splits)
qed simp

lemma all_zero_count: "count_list lens 0 = length lens \<Longrightarrow> k \<noteq> 0 \<Longrightarrow> count_list lens k = 0"
  using all_zero[of lens k] by (auto simp: count_list_0_iff)

lemma all_zero_last: "count_list lens 0 = length lens \<Longrightarrow> last_code lens l = 0"
proof (induction l)
  case (Suc l)
  then show ?case using all_zero_count[of lens "Suc l"] by (simp add: last_code_def[of _ "Suc l"] first_code_Suc del: first_code.simps)
qed (simp add: last_code_def)

lemma ref_left_last: "count_list lens 0 \<noteq> length lens \<Longrightarrow> ref_left lens = 2 ^ maxBits - int (last_code lens maxBits)"
  by (simp add: ref_left_def last_code_def maxBits_def)

lemma ref_left_fits: "lens_ok lens \<Longrightarrow> 0 \<le> ref_left lens \<Longrightarrow> fits lens"
proof (cases "count_list lens 0 = length lens")
  case False
  assume "lens_ok lens" "0 \<le> ref_left lens"
  with False have "int (last_code lens maxBits) \<le> int (2 ^ maxBits)" by (simp add: ref_left_last)
  then show ?thesis using \<open>lens_ok lens\<close> by (simp only: of_nat_le_iff fits_def)
qed (simp add: fits_def all_zero_last)

lemma construct_spec:
  assumes "lens_ok lens"
  shows "\<exists>left h'. construct h lens = Inr (left, h') \<and> sgn left = sgn (ref_left lens) \<and> (0 \<le> left \<longrightarrow> table lens h')"
proof -
  define count where "count = map (count_list lens) [0..<maxBits + 1]"
  have cl: "count_lengths lens (replicate (maxBits + 1) 0) = Inr count"
    using assms by (auto simp: count_lengths_spec count_def intro!: map_cong simp del: upt_Suc replicate_Suc)
  have cnt: "count ! k = count_list lens k" if "k \<le> maxBits" for k
    using that by (simp add: count_def nth_append less_Suc_eq_le del: upt_Suc)
  have len: "length count = maxBits + 1" by (simp add: count_def)
  have zeros: "arr_get count 0 = Inr (count_list lens 0)" using cnt[of 0] len by simp
  show ?thesis
  proof (cases "count_list lens 0 = length lens")
    case True
    have "table lens (h\<lparr>hcount := count\<rparr>)"
      using assms True cnt len all_zero[OF True] by (auto simp: table_def fits_def all_zero_last dest!: nth_mem)
    then show ?thesis
      using True cl zeros by (simp add: construct_def ref_left_def)
  next
    case False
    define left where "left = left_list (drop 1 count) 1"
    have ll: "left_loop count 1 1 = Inr left" unfolding left_def by (rule left_loop_list[OF len])
    have "drop 1 count = map (count_list lens) [0 + 1..<maxBits + 1]"
      by (simp add: count_def drop_map drop_upt del: upt_Suc)
    then have sgn: "sgn left = sgn (ref_left lens)"
      using left_list_spec[of "drop 1 count" 0 lens] False
      by (simp add: left_def ref_left_last last_code_def[of _ 0] maxBits_def count_def)
    show ?thesis
    proof (cases "left < 0")
      case True
      then show ?thesis
        using False cl zeros ll sgn by (simp add: construct_def)
    next
      case nonneg: False
      with sgn have fits: "fits lens" using ref_left_fits[OF assms] by (simp add: sgn_if split: if_splits)
      define buf where "buf = (if length (hbuf h) < length lens then replicate (length lens) 0 else hbuf h)"
      obtain offs where offs: "symbol_offsets count = Inr offs" "length offs = maxBits + 1"
          "\<And>l. 1 \<le> l \<Longrightarrow> l \<le> maxBits \<Longrightarrow> offs ! l = sym_index lens l"
        using symbol_offsets_spec[OF len, of lens] cnt by metis
      have bl: "length lens \<le> length buf" by (simp add: buf_def)
      then obtain buf' where buf': "place_symbols 0 lens offs buf (length lens) = Inr buf'" "length buf' = length buf"
          "\<forall>t<length lens. lens ! t \<noteq> 0 \<longrightarrow> buf' ! sym_pos lens t = t"
        using place_symbols_spec[of lens "[]" lens offs buf] assms offs by auto
      have "table lens \<lparr>hcount = count, hbuf = buf', hlen = length lens\<rparr>"
        using fits cnt len bl buf'(2,3) sym_pos_less by (auto simp: table_def sym_pos_def)
      then show ?thesis
        using False cl zeros ll offs(1) sgn nonneg buf'(1)
        by (simp add: construct_def Let_def flip: buf_def)
    qed
  qed
qed

end
