(* ===== verification/Inflate_Window.thy ===== *)
theory Inflate_Window
  imports Inflate_Bits
begin

text \<open>
  \<^verbatim>\<open>pkg/ztoc/inflate.go\<close>, the sliding window and the running checksum.  The window is a ring of 32 KiB; it is
  related to the whole output produced so far, of which it keeps the end.  The checksum is updated a
  byte at a time from the table of \<^verbatim>\<open>hash/crc32\<close>; the reference divides the message bit by bit.
\<close>

section \<open>The window\<close>

definition winSize :: nat where "winSize = 32768"
definition winMask :: int where "winMask = int winSize - 1"

text \<open>
  The array, by index, initially zero; an index that is negative or not below \<open>winSize\<close> panics.
\<close>

record window =
  wbuf :: "nat \<Rightarrow> byte"
  wpos :: nat

definition new_window :: window where "new_window = \<lparr>wbuf = (\<lambda>_. 0), wpos = 0\<rparr>"

definition put :: "byte \<Rightarrow> window \<Rightarrow> zerr + window" where
  "put b w =
     (if wpos w < winSize then Inr (w\<lparr>wbuf := (wbuf w)(wpos w := b), wpos := nat ((int (wpos w) + 1) AND winMask)\<rparr>)
      else Inl ZPanic)"

definition win_index :: "window \<Rightarrow> int \<Rightarrow> zerr + byte" where
  "win_index w i = (if 0 \<le> i \<and> i < int winSize then Inr (wbuf w (nat i)) else Inl ZPanic)"

definition byteAt :: "nat \<Rightarrow> window \<Rightarrow> zerr + byte" where
  "byteAt dist w = win_index w ((int (wpos w) - int dist) AND winMask)"

fun etraverse :: "('a \<Rightarrow> 'e + 'b) \<Rightarrow> 'a list \<Rightarrow> 'e + 'b list" where
  "etraverse f [] = Inr []"
| "etraverse f (x # xs) = ebind (f x) (\<lambda>y. ebind (etraverse f xs) (\<lambda>ys. Inr (y # ys)))"

definition snapshot :: "nat \<Rightarrow> window \<Rightarrow> zerr + bytes" where
  "snapshot tot w =
     (let stored = (if tot > winSize then winSize else tot) in
      etraverse (\<lambda>i. let back = winSize - i in
             if back > stored then Inr 0 else win_index w ((int (wpos w) - int back) AND winMask)) [0..<winSize])"

section \<open>The checksum\<close>

definition crc_poly :: u32 where "crc_poly = 0xedb88320"

definition crc_shift :: "u32 \<Rightarrow> u32" where
  "crc_shift c = (if bit c 0 then drop_bit 1 c XOR crc_poly else drop_bit 1 c)"

definition crcTab :: "byte \<Rightarrow> u32" where
  "crcTab i = (crc_shift ^^ 8) (ucast i)"

definition crc_byte :: "u32 \<Rightarrow> byte \<Rightarrow> u32" where
  "crc_byte c b = crcTab (ucast c XOR b) XOR drop_bit 8 c"

text \<open>Division of the message by the polynomial, one bit after the other.\<close>

definition ref_crc :: "bytes \<Rightarrow> u32" where
  "ref_crc bs = foldl (\<lambda>c x. crc_shift (c XOR of_bool x)) 0xffffffff (all_bits bs)"

section \<open>The window keeps the end of the output\<close>

lemma etraverse_map: "(\<And>x. x \<in> set xs \<Longrightarrow> f x = Inr (g x)) \<Longrightarrow> etraverse f xs = Inr (map g xs)"
  by (induction xs) simp_all

lemma and_winMask: "0 \<le> k AND winMask" "k AND winMask < int winSize" "nat (k AND winMask) = nat (k mod int winSize)"
proof -
  have "k AND winMask = k mod int winSize"
    using take_bit_eq_mask[of 15 k] take_bit_eq_mod[of 15 k]
    by (simp add: winMask_def winSize_def mask_eq_exp_minus_1)
  then show "0 \<le> k AND winMask" "k AND winMask < int winSize" "nat (k AND winMask) = nat (k mod int winSize)"
    by (simp_all add: winSize_def)
qed

definition win_rel :: "window \<Rightarrow> bytes \<Rightarrow> bool" where
  "win_rel w out \<longleftrightarrow> wpos w = length out mod winSize \<and>
     (\<forall>i<length out. length out \<le> i + winSize \<longrightarrow> wbuf w (i mod winSize) = out ! i)"

lemma win_rel_new: "win_rel new_window []"
  by (simp add: win_rel_def new_window_def)

lemma mod_window_neq:
  assumes "i < n" "n < i + k" "0 < k" shows "i mod k \<noteq> n mod (k::nat)"
proof
  assume "i mod k = n mod k"
  then have "k dvd n - i" using assms by (metis less_or_eq_imp_le mod_eq_dvd_iff_nat)
  moreover have "0 < n - i" "n - i < k" using assms by auto
  ultimately show False by (auto dest: dvd_imp_le)
qed

lemma put_refines: "win_rel w out \<Longrightarrow> \<exists>w'. put b w = Inr w' \<and> win_rel w' (out @ [b])"
proof -
  assume rel: "win_rel w out"
  let ?w = "w\<lparr>wbuf := (wbuf w)(wpos w := b), wpos := nat ((int (wpos w) + 1) AND winMask)\<rparr>"
  have "wpos w < winSize" using rel by (simp add: win_rel_def winSize_def)
  then have put: "put b w = Inr ?w" by (simp add: put_def)
  have pos: "nat ((int (wpos w) + 1) AND winMask) = length (out @ [b]) mod winSize"
  proof -
    have "(int (wpos w) + 1) mod int winSize = int (length (out @ [b]) mod winSize)"
      using rel by (simp add: win_rel_def zmod_int mod_simps add.commute)
    then show ?thesis by (simp add: and_winMask)
  qed
  have "wbuf ?w (i mod winSize) = (out @ [b]) ! i"
    if i: "i < length (out @ [b])" "length (out @ [b]) \<le> i + winSize" for i
  proof (cases "i = length out")
    case True
    with rel show ?thesis by (simp add: win_rel_def)
  next
    case False
    with i have "i mod winSize \<noteq> length out mod winSize"
      by (intro mod_window_neq) (auto simp: winSize_def)
    with rel i False show ?thesis by (auto simp: win_rel_def nth_append)
  qed
  with pos have "win_rel ?w (out @ [b])" by (simp add: win_rel_def)
  with put show ?thesis by blast
qed

lemma ring_index:
  "win_rel w out \<Longrightarrow> d \<le> length out \<Longrightarrow> nat ((int (wpos w) - int d) AND winMask) = (length out - d) mod winSize"
proof -
  assume "win_rel w out" "d \<le> length out"
  then have "(int (wpos w) - int d) mod int winSize = int ((length out - d) mod winSize)"
    by (simp add: win_rel_def zmod_int mod_simps of_nat_diff)
  then show ?thesis by (simp add: and_winMask)
qed

lemma win_index_mask: "win_index w (k AND winMask) = Inr (wbuf w (nat (k AND winMask)))"
  using and_winMask(1,2)[of k] by (simp add: win_index_def)

lemma byteAt_refines:
  assumes "win_rel w out" "1 \<le> d" "d \<le> winSize" "d \<le> length out"
  shows "byteAt d w = Inr (out ! (length out - d))"
  using assms ring_index[OF assms(1,4)] by (simp add: byteAt_def win_index_mask win_rel_def)

text \<open>The last 32 KiB of the output, with zeros in front when there is less.\<close>

definition ref_window :: "bytes \<Rightarrow> bytes" where
  "ref_window out = replicate (winSize - length out) 0 @ drop (length out - winSize) out"

lemma length_ref_window [simp]: "length (ref_window out) = winSize"
  by (simp add: ref_window_def)

lemma snapshot_refines:
  assumes rel: "win_rel w out"
  shows "snapshot (length out) w = Inr (ref_window out)"
proof -
  let ?at = "\<lambda>i. let back = winSize - i in
    if back > (if length out > winSize then winSize else length out) then Inr 0
    else win_index w ((int (wpos w) - int back) AND winMask)"
  have at: "?at i = Inr (ref_window out ! i)" if i: "i < winSize" for i
  proof (cases "winSize - i > length out")
    case True
    with i show ?thesis by (auto simp: Let_def ref_window_def nth_append)
  next
    case False
    then have "?at i = Inr (wbuf w ((length out - (winSize - i)) mod winSize))"
      using i ring_index[OF rel, of "winSize - i"] by (auto simp: Let_def win_index_mask)
    also have "wbuf w ((length out - (winSize - i)) mod winSize) = out ! (length out - (winSize - i))"
      using rel False i by (simp add: win_rel_def)
    also have "\<dots> = ref_window out ! i"
    proof (cases "length out \<le> winSize")
      case True
      have "\<not> i < winSize - length out" using False i by linarith
      with True i show ?thesis by (simp add: ref_window_def nth_append add.commute)
    next
      case big: False
      with i show ?thesis
        by (simp add: ref_window_def)
    qed
    finally show ?thesis .
  qed
  have "snapshot (length out) w = etraverse ?at [0..<winSize]" by (simp add: snapshot_def)
  also have "\<dots> = Inr (map ((!) (ref_window out)) [0..<winSize])" by (rule etraverse_map) (use at in simp)
  also have "map ((!) (ref_window out)) [0..<winSize] = ref_window out"
    using map_nth[of "ref_window out"] by simp
  finally show ?thesis .
qed

section \<open>The table-driven checksum\<close>

lemma crc_shift_xor: "crc_shift (a XOR b) = crc_shift a XOR crc_shift b"
  by (simp add: crc_shift_def bit_simps drop_bit_xor) (simp add: ac_simps)

lemma crc_shifts_xor: "(crc_shift ^^ n) (a XOR b) = (crc_shift ^^ n) a XOR (crc_shift ^^ n) b"
  by (induction n) (simp_all add: crc_shift_xor)

lemma crc_shifts_clear: "take_bit n v = 0 \<Longrightarrow> (crc_shift ^^ n) v = drop_bit n v"
proof (induction n)
  case (Suc n)
  have b: "\<not> bit v n" "take_bit n v = 0"
    using Suc.prems bit_take_bit_iff[of "Suc n" v n] take_bit_take_bit[of n "Suc n" v] by auto
  then have "(crc_shift ^^ Suc n) v = crc_shift (drop_bit n v)" using Suc.IH by simp
  also have "\<dots> = drop_bit (Suc n) v"
    using b by (simp add: crc_shift_def bit_simps add.commute)
  finally show ?case .
qed simp


lemma drop_push_1: "(\<And>k. bit w k \<Longrightarrow> k < 31) \<Longrightarrow> drop_bit 1 (push_bit 1 w) = w" for w :: u32
  by (rule bit_eqI) (auto simp only: bit_drop_bit_eq bit_push_bit_iff o_def, auto)

lemma crc_bits:
  "length xs \<le> 32 \<Longrightarrow>
   foldl (\<lambda>c x. crc_shift (c XOR of_bool x)) c xs = (crc_shift ^^ length xs) (c XOR of_nat (lsb_nat xs))"
proof (induction xs arbitrary: c)
  case (Cons x xs)
  let ?v = "of_nat (lsb_nat xs) :: u32"
  have small: "lsb_nat xs < 2 ^ length xs"
    unfolding lsb_nat_def by (rule horner_sum_of_bool_2_less)
  have "of_nat (lsb_nat (x # xs)) = (of_bool x XOR push_bit 1 ?v :: u32)"
    by (cases x) (simp_all add: lsb_nat_def one_xor_eq)
  moreover have "crc_shift (push_bit 1 ?v) = ?v"
  proof -
    have "take_bit (length xs) ?v = ?v"
      using small by (simp add: take_bit_of_nat take_bit_nat_eq_self)
    then have "bit ?v k \<Longrightarrow> k < length xs" for k by (metis bit_take_bit_iff)
    then have "drop_bit 1 (push_bit 1 ?v) = ?v"
      using Cons.prems by (intro drop_push_1) fastforce
    moreover have "\<not> bit (push_bit 1 ?v) 0" by (simp only: bit_push_bit_iff) simp
    ultimately show ?thesis unfolding crc_shift_def by simp
  qed
  ultimately have "crc_shift (c XOR of_nat (lsb_nat (x # xs))) = crc_shift (c XOR of_bool x) XOR ?v"
    by (simp add: crc_shift_xor flip: xor.assoc)
  then show ?case
    using Cons by (simp add: funpow_swap1)
qed (simp add: lsb_nat_def)


lemma lsb_nat_byte: "of_nat (lsb_nat (byte_bits b)) = (ucast b :: u32)"
  by (simp add: byte_bits_def lsb_nat_bits) (simp add: take_bit_word_eq_self)

lemma crc_byte_eq: "crc_byte c b = foldl (\<lambda>c x. crc_shift (c XOR of_bool x)) c (byte_bits b)"
proof -
  let ?hi = "push_bit 8 (drop_bit 8 c)" and ?lo = "ucast (ucast c XOR b :: byte) :: u32"
  have "c XOR ucast b = ?lo XOR ?hi"
    by (rule bit_eqI) (auto simp: bit_simps dest: bit_imp_le_length)
  moreover have "(crc_shift ^^ 8) ?hi = drop_bit 8 ?hi"
    by (rule crc_shifts_clear) (simp add: take_bit_push_bit)
  moreover have "drop_bit 8 ?hi = drop_bit 8 c"
    by (rule bit_eqI) (auto simp: bit_simps dest: bit_imp_le_length)
  ultimately have "(crc_shift ^^ 8) (c XOR ucast b) = crc_byte c b"
    by (simp add: crc_byte_def crcTab_def crc_shifts_xor)
  then show ?thesis by (simp add: crc_bits lsb_nat_byte)
qed

lemma ref_crc_Nil [simp]: "ref_crc [] = 0xffffffff"
  by (simp add: ref_crc_def all_bits_def)

lemma ref_crc_snoc: "ref_crc (bs @ [b]) = crc_byte (ref_crc bs) b"
  by (simp add: ref_crc_def all_bits_append crc_byte_eq all_bits_Cons) (simp add: all_bits_def)

end
