(* ===== verification/Inflate.thy ===== *)
theory Inflate
  imports Inflate_Huffman Inflate_Window
begin

text \<open>
  \<^verbatim>\<open>pkg/ztoc/inflate.go\<close>, the inflater: gzip framing, deflate blocks, and the callback at every block
  boundary.  An index out of range and the use of a table that is not there are the error \<open>ZPanic\<close>.
  The state that the callback writes is the field \<open>zstate\<close>; counters of produced bytes are natural
  numbers.  The callback \<^verbatim>\<open>onBlock\<close>, which only tests set, is left out.
\<close>

section \<open>Constants\<close>

definition lengthBase :: "nat list" where
  "lengthBase = [3, 4, 5, 6, 7, 8, 9, 10, 11, 13, 15, 17, 19, 23, 27, 31,
     35, 43, 51, 59, 67, 83, 99, 115, 131, 163, 195, 227, 258]"

definition lengthExtra :: "nat list" where
  "lengthExtra = [0, 0, 0, 0, 0, 0, 0, 0, 1, 1, 1, 1, 2, 2, 2, 2,
     3, 3, 3, 3, 4, 4, 4, 4, 5, 5, 5, 5, 0]"

definition distBase :: "nat list" where
  "distBase = [1, 2, 3, 4, 5, 7, 9, 13, 17, 25, 33, 49, 65, 97, 129, 193,
     257, 385, 513, 769, 1025, 1537, 2049, 3073, 4097, 6145, 8193, 12289, 16385, 24577]"

definition distExtra :: "nat list" where
  "distExtra = [0, 0, 0, 0, 1, 1, 2, 2, 3, 3, 4, 4, 5, 5, 6, 6,
     7, 7, 8, 8, 9, 9, 10, 10, 11, 11, 12, 12, 13, 13]"

definition codeLengthOrder :: "nat list" where
  "codeLengthOrder = [16, 17, 18, 0, 8, 7, 9, 6, 10, 5, 11, 4, 12, 3, 13, 2, 14, 1, 15]"

definition maxLCodes :: nat where "maxLCodes = 286"
definition maxDCodes :: nat where "maxDCodes = 30"
definition fixLCodes :: nat where "fixLCodes = 288"
definition endOfBlock :: nat where "endOfBlock = 256"

section \<open>The inflater\<close>

record 'z inflater =
  ibr :: bitReader
  iwin :: window
  itotal :: nat
  memberStart :: nat
  icrc :: u32
  memberLen :: u32
  fixedLen :: "huffman option"
  fixedDist :: "huffman option"
  dynLen :: huffman
  dynDist :: huffman
  zstate :: 'z

definition emit_byte :: "byte \<Rightarrow> 'z inflater \<Rightarrow> zerr + 'z inflater" where
  "emit_byte b st =
     ebind (put b (iwin st)) (\<lambda>w.
       Inr (st\<lparr>iwin := w, icrc := crc_byte (icrc st) b, itotal := itotal st + 1, memberLen := memberLen st + 1\<rparr>))"

primrec copy_match :: "nat \<Rightarrow> nat \<Rightarrow> 'z inflater \<Rightarrow> zerr + 'z inflater" where
  "copy_match 0 dist st = Inr st"
| "copy_match (Suc n) dist st =
     ebind (byteAt dist (iwin st)) (\<lambda>b. ebind (emit_byte b st) (\<lambda>st'. copy_match n dist st'))"

text \<open>The length and the distance of a match whose length symbol has been read.\<close>

definition read_match :: "huffman \<Rightarrow> nat \<Rightarrow> bitReader \<Rightarrow> zerr + nat \<times> nat \<times> bitReader" where
  "read_match dc k b1 =
     (if k \<ge> length lengthBase then Inl ZLengthSymbol
      else
        ebind (arr_get lengthExtra k) (\<lambda>lext.
        ebind (bits lext b1) (\<lambda>(extra, b2).
        ebind (arr_get lengthBase k) (\<lambda>lbase.
        ebind (decode dc b2) (\<lambda>(dsym, b3).
          if dsym \<ge> length distBase then Inl ZDistanceSymbol
          else
            ebind (arr_get distExtra dsym) (\<lambda>dext.
            ebind (bits dext b3) (\<lambda>(dextra, b4).
            ebind (arr_get distBase dsym) (\<lambda>dbase.
              Inr (lbase + extra, dbase + dextra, b4)))))))))"

function codes2 :: "huffman \<Rightarrow> huffman \<Rightarrow> 'z inflater \<Rightarrow> zerr + 'z inflater" where
  "codes2 lc dc st =
     ebind (decode lc (ibr st)) (\<lambda>(sm, b1).
       if sm = endOfBlock then Inr (st\<lparr>ibr := b1\<rparr>)
       else if sm < endOfBlock then ebind (emit_byte (of_nat sm) (st\<lparr>ibr := b1\<rparr>)) (\<lambda>st'. codes2 lc dc st')
       else
         ebind (read_match dc (sm - 257) b1) (\<lambda>(len, dist, b2).
           if dist > itotal st - memberStart st then Inl ZDistanceTooFar
           else ebind (copy_match len dist (st\<lparr>ibr := b2\<rparr>)) (\<lambda>st'. codes2 lc dc st')))"
  by pat_completeness auto

lemma read_match_left: "read_match dc k b = Inr (len, dist, b') \<Longrightarrow> br_left b' < br_left b"
  by (auto simp: read_match_def ebind_Inr split: if_splits dest!: bits_left decode_left)

lemma emit_byte_ibr: "emit_byte b st = Inr st' \<Longrightarrow> ibr st' = ibr st"
  by (auto simp: emit_byte_def ebind_Inr)

lemma copy_match_ibr: "copy_match n dist st = Inr st' \<Longrightarrow> ibr st' = ibr st"
  by (induction n arbitrary: st) (auto simp: ebind_Inr dest: emit_byte_ibr)

termination codes2
  by (relation "measure (\<lambda>(lc, dc, st). br_left (ibr st))")
    (auto dest!: decode_left read_match_left emit_byte_ibr copy_match_ibr)

declare codes2.simps [simp del]

text \<open>The fixed tables, built on first use.\<close>

definition fixedLitLengths :: "nat list" where
  "fixedLitLengths = replicate 144 8 @ replicate 112 9 @ replicate 24 7 @ replicate 8 8"

definition fixedDistLengths :: "nat list" where
  "fixedDistLengths = replicate maxDCodes 5"

definition fixedTables :: "'z inflater \<Rightarrow> zerr + 'z inflater" where
  "fixedTables st =
     (case fixedLen st of
        Some _ \<Rightarrow> Inr st
      | None \<Rightarrow>
          ebind (construct new_huffman fixedLitLengths) (\<lambda>(_, hls).
            ebind (construct new_huffman fixedDistLengths) (\<lambda>(_, hds).
              Inr (st\<lparr>fixedLen := Some hls, fixedDist := Some hds\<rparr>))))"

definition codes :: "'z inflater \<Rightarrow> zerr + 'z inflater" where
  "codes st =
     (case (fixedLen st, fixedDist st) of
        (Some hls, Some hds) \<Rightarrow> codes2 hls hds st
      | _ \<Rightarrow> Inl ZPanic)"

section \<open>Dynamic tables\<close>

text \<open>
  The lengths of the code-length code, \<open>n\<close> of them from the \<open>i\<close>-th on, each stored at the index that
  \<^verbatim>\<open>codeLengthOrder\<close> has for it.
\<close>

primrec read_cl :: "nat \<Rightarrow> nat \<Rightarrow> nat list \<Rightarrow> bitReader \<Rightarrow> zerr + nat list \<times> bitReader" where
  "read_cl 0 i cl b = Inr (cl, b)"
| "read_cl (Suc n) i cl b =
     ebind (bits 3 b) (\<lambda>(v, b1).
     ebind (arr_get codeLengthOrder i) (\<lambda>k.
     ebind (arr_set cl k v) (\<lambda>cl'. read_cl n (i + 1) cl' b1)))"

primrec set_run :: "nat \<Rightarrow> nat \<Rightarrow> nat \<Rightarrow> nat list \<Rightarrow> zerr + nat list" where
  "set_run 0 i v lens = Inr lens"
| "set_run (Suc n) i v lens = ebind (arr_set lens i v) (\<lambda>lens'. set_run n (i + 1) v lens')"

text \<open>\<open>prev\<close> is the length to repeat, read after the check of the run.\<close>

definition repeat_length ::
    "nat \<Rightarrow> nat \<Rightarrow> zerr + nat \<Rightarrow> nat list \<Rightarrow> nat \<Rightarrow> bitReader \<Rightarrow> zerr + nat list \<times> nat \<times> bitReader" where
  "repeat_length nb base prev lens i b =
     ebind (bits nb b) (\<lambda>(n, b1).
       if i + (n + base) > length lens then Inl ZRepeatOverrun
       else
         ebind prev (\<lambda>v.
         ebind (set_run (n + base) i v lens) (\<lambda>lens'. Inr (lens', i + (n + base), b1))))"

text \<open>One code length symbol.\<close>

definition length_step :: "nat \<Rightarrow> nat list \<Rightarrow> nat \<Rightarrow> bitReader \<Rightarrow> zerr + nat list \<times> nat \<times> bitReader" where
  "length_step sm lens i b =
     (if sm < 16 then ebind (arr_set lens i sm) (\<lambda>lens'. Inr (lens', i + 1, b))
      else if sm = 16 then
        (if i = 0 then Inl ZRepeatNoPrevious else repeat_length 2 3 (arr_get lens (i - 1)) lens i b)
      else if sm = 17 then repeat_length 3 3 (Inr 0) lens i b
      else repeat_length 7 11 (Inr 0) lens i b)"

lemma length_step_left: "length_step sm lens i b = Inr (lens', i', b1) \<Longrightarrow> br_left b1 \<le> br_left b"
  by (auto simp: length_step_def repeat_length_def ebind_Inr split: if_splits dest!: bits_left)

function read_lengths :: "huffman \<Rightarrow> nat list \<Rightarrow> nat \<Rightarrow> bitReader \<Rightarrow> zerr + nat list \<times> bitReader" where
  "read_lengths cl lens i b =
     (if i < length lens then
        ebind (decode cl b) (\<lambda>(sm, b1).
          ebind (length_step sm lens i b1) (\<lambda>(lens', i', b2). read_lengths cl lens' i' b2))
      else Inr (lens, b))"
  by pat_completeness auto
termination
  by (relation "measure (\<lambda>(cl, lens, i, b). br_left b)") (auto dest!: decode_left length_step_left)

declare read_lengths.simps [simp del]

definition countNonzero :: "nat list \<Rightarrow> nat" where
  "countNonzero lens = length (filter (\<lambda>l. l \<noteq> 0) lens)"

definition dynamicTables :: "'z inflater \<Rightarrow> zerr + (huffman \<times> huffman) \<times> 'z inflater" where
  "dynamicTables st =
     ebind (bits 5 (ibr st)) (\<lambda>(n1, b1).
     ebind (bits 5 b1) (\<lambda>(n2, b2).
     ebind (bits 4 b2) (\<lambda>(n3, b3).
       let hlit = n1 + 257; hdist = n2 + 1; hclen = n3 + 4 in
       if hlit > maxLCodes \<or> hdist > maxDCodes then Inl ZTooManyCodes
       else
         ebind (read_cl hclen 0 (replicate 19 0) b3) (\<lambda>(clLengths, b4).
         ebind (construct new_huffman clLengths) (\<lambda>(left, clCode).
           if left \<noteq> 0 then Inl ZIncompleteCodeLength
           else
             ebind (read_lengths clCode (replicate (hlit + hdist) 0) 0 b4) (\<lambda>(lengths, b5).
             ebind (arr_get lengths 256) (\<lambda>eob.
               if eob = 0 then Inl ZMissingEndOfBlock
               else
                 ebind (arr_prefix lengths hlit) (\<lambda>litLengths.
                 ebind (construct (dynLen st) litLengths) (\<lambda>(r, hls).
                   if r \<noteq> 0 \<and> (r < 0 \<or> countNonzero litLengths \<noteq> 1) then Inl ZLiteralCode
                   else
                     ebind (arr_suffix lengths hlit) (\<lambda>distLengths.
                     ebind (construct (dynDist st) distLengths) (\<lambda>(r', hds).
                       if r' \<noteq> 0 \<and> (r' < 0 \<or> countNonzero distLengths \<noteq> 1) then Inl ZDistanceCode
                       else Inr ((hls, hds), st\<lparr>ibr := b5, dynLen := hls, dynDist := hds\<rparr>))))))))))))"

section \<open>Stored blocks\<close>

primrec copy_stored :: "nat \<Rightarrow> 'z inflater \<Rightarrow> zerr + 'z inflater" where
  "copy_stored 0 st = Inr st"
| "copy_stored (Suc n) st =
     ebind (readByte (ibr st)) (\<lambda>(x, b). ebind (emit_byte x (st\<lparr>ibr := b\<rparr>)) (\<lambda>st'. copy_stored n st'))"

definition word16 :: "byte \<Rightarrow> byte \<Rightarrow> int" where
  "word16 lo hi = uint lo OR push_bit 8 (uint hi)"

definition stored :: "'z inflater \<Rightarrow> zerr + 'z inflater" where
  "stored st =
     ebind (readByte (align (ibr st))) (\<lambda>(lo, b1).
     ebind (readByte b1) (\<lambda>(hi, b2).
     ebind (readByte b2) (\<lambda>(nlo, b3).
     ebind (readByte b3) (\<lambda>(nhi, b4).
       if word16 lo hi \<noteq> NOT (word16 nlo nhi) AND 0xffff then Inl ZStoredLength
       else copy_stored (nat (word16 lo hi)) (st\<lparr>ibr := b4\<rparr>)))))"

section \<open>Blocks\<close>

definition block_body :: "nat \<Rightarrow> 'z inflater \<Rightarrow> zerr + 'z inflater" where
  "block_body btype st =
     (if btype = 0 then stored st
      else if btype = 1 then ebind (fixedTables st) codes
      else if btype = 2 then ebind (dynamicTables st) (\<lambda>((lc, dc), st'). codes2 lc dc st')
      else Inl ZBlockType)"

definition at_boundary :: "('z inflater \<Rightarrow> zerr + 'z) option \<Rightarrow> 'z inflater \<Rightarrow> zerr + 'z inflater" where
  "at_boundary onBoundary st =
     (case onBoundary of None \<Rightarrow> Inr st | Some f \<Rightarrow> ebind (f st) (\<lambda>z. Inr (st\<lparr>zstate := z\<rparr>)))"

lemma at_boundary_ibr: "at_boundary onB st = Inr st' \<Longrightarrow> ibr st' = ibr st"
  by (auto simp: at_boundary_def ebind_Inr split: option.splits)

lemma codes2_left: "codes2 lc dc st = Inr st' \<Longrightarrow> br_left (ibr st') \<le> br_left (ibr st)"
proof (induction lc dc st rule: codes2.induct)
  case (1 lc dc st)
  from 1(3) obtain sm b1 where d: "decode lc (ibr st) = Inr (sm, b1)"
    by (auto simp: codes2.simps[of lc dc st] ebind_Inr)
  note less = decode_left[OF d]
  consider "sm = endOfBlock" | "sm < endOfBlock" | "sm > endOfBlock" by linarith
  then show ?case
  proof cases
    case 1
    with d "1.prems" less show ?thesis by (auto simp: codes2.simps[of lc dc st])
  next
    case 2
    with d "1.prems" obtain st1 where e: "emit_byte (of_nat sm) (st\<lparr>ibr := b1\<rparr>) = Inr st1" "codes2 lc dc st1 = Inr st'"
      by (auto simp: codes2.simps[of lc dc st] ebind_Inr)
    from "1.IH"(1)[OF d refl _ 2 e] 2 less emit_byte_ibr[OF e(1)] show ?thesis by simp
  next
    case 3
    from 3 d "1.prems" obtain len dist b2 st1 where
      s: "read_match dc (sm - 257) b1 = Inr (len, dist, b2)" "\<not> dist > itotal st - memberStart st"
        "copy_match len dist (st\<lparr>ibr := b2\<rparr>) = Inr st1" "codes2 lc dc st1 = Inr st'"
      by (auto simp: codes2.simps[of lc dc st] ebind_Inr split: if_splits)
    have "br_left (ibr st') \<le> br_left b2"
      using "1.IH"(2)[OF d refl _ _ s(1) refl refl s(2,3,4)] 3 copy_match_ibr[OF s(3)] by simp
    with less read_match_left[OF s(1)] show ?thesis by linarith
  qed
qed

lemma read_cl_left: "read_cl n i cl b = Inr (cl', b') \<Longrightarrow> br_left b' \<le> br_left b"
  by (induction n arbitrary: i cl b) (fastforce simp: ebind_Inr dest: bits_left)+

lemma read_lengths_left: "read_lengths cl lens i b = Inr (lens', b') \<Longrightarrow> br_left b' \<le> br_left b"
proof (induction cl lens i b rule: read_lengths.induct)
  case (1 cl lens i b)
  show ?case
  proof (cases "i < length lens")
    case True
    with 1(2) obtain sm b1 lens1 i1 b2 where
      s: "decode cl b = Inr (sm, b1)" "length_step sm lens i b1 = Inr (lens1, i1, b2)"
        "read_lengths cl lens1 i1 b2 = Inr (lens', b')"
      by (auto simp: read_lengths.simps[of cl lens] ebind_Inr)
    have "br_left b' \<le> br_left b2" by (rule 1(1)[OF True s(1) refl s(2) refl refl s(3)])
    with decode_left[OF s(1)] length_step_left[OF s(2)] show ?thesis by linarith
  next
    case False
    with 1(2) show ?thesis by (simp add: read_lengths.simps[of cl lens])
  qed
qed

lemma dynamicTables_left: "dynamicTables st = Inr (p, st') \<Longrightarrow> br_left (ibr st') \<le> br_left (ibr st)"
  by (auto simp: dynamicTables_def ebind_Inr Let_def split: if_splits
      dest!: bits_left read_cl_left read_lengths_left)

lemma copy_stored_left: "copy_stored n st = Inr st' \<Longrightarrow> br_left (ibr st') \<le> br_left (ibr st)"
  by (induction n arbitrary: st) (fastforce simp: ebind_Inr dest: readByte_left emit_byte_ibr)+

lemma stored_left: "stored st = Inr st' \<Longrightarrow> br_left (ibr st') \<le> br_left (ibr st)"
  using align_left[of "ibr st"]
  by (fastforce simp: stored_def ebind_Inr split: if_splits dest!: readByte_left copy_stored_left)

lemma fixedTables_ibr: "fixedTables st = Inr st' \<Longrightarrow> ibr st' = ibr st"
  by (auto simp: fixedTables_def ebind_Inr split: option.splits)

lemma codes_left: "codes st = Inr st' \<Longrightarrow> br_left (ibr st') \<le> br_left (ibr st)"
  by (cases "fixedLen st"; cases "fixedDist st") (auto simp: codes_def dest: codes2_left)

lemma block_body_left: "block_body btype st = Inr st' \<Longrightarrow> br_left (ibr st') \<le> br_left (ibr st)"
  by (auto simp: block_body_def ebind_Inr split: if_splits
      dest!: stored_left fixedTables_ibr codes_left codes2_left dynamicTables_left)

function inflateBlocks :: "('z inflater \<Rightarrow> zerr + 'z) option \<Rightarrow> 'z inflater \<Rightarrow> zerr + 'z inflater" where
  "inflateBlocks onBoundary st =
     ebind (at_boundary onBoundary st) (\<lambda>st0.
     ebind (bits 1 (ibr st0)) (\<lambda>(lst, b1).
     ebind (bits 2 b1) (\<lambda>(btype, b2).
     ebind (block_body btype (st0\<lparr>ibr := b2\<rparr>)) (\<lambda>st'.
       if lst = 1 then Inr st' else inflateBlocks onBoundary st'))))"
  by pat_completeness auto
termination
  by (relation "measure (\<lambda>(_, st). br_left (ibr st))") (auto dest!: at_boundary_ibr bits_left block_body_left)

declare inflateBlocks.simps [simp del]

section \<open>Gzip framing\<close>

primrec skip_bytes :: "nat \<Rightarrow> bitReader \<Rightarrow> zerr + bitReader" where
  "skip_bytes 0 b = Inr b"
| "skip_bytes (Suc n) b = ebind (readByte b) (\<lambda>(_, b1). skip_bytes n b1)"

function skipCString :: "bitReader \<Rightarrow> zerr + bitReader" where
  "skipCString b = ebind (readByte b) (\<lambda>(x, b1). if x = 0 then Inr b1 else skipCString b1)"
  by pat_completeness auto
termination by (relation "measure br_left") (auto dest!: readByte_left)

declare skipCString.simps [simp del]

definition skip_extra :: "bitReader \<Rightarrow> zerr + bitReader" where
  "skip_extra b =
     ebind (readByte b) (\<lambda>(lo, b1). ebind (readByte b1) (\<lambda>(hi, b2). skip_bytes (nat (word16 lo hi)) b2))"

definition readGzipHeader :: "bitReader \<Rightarrow> zerr + bitReader" where
  "readGzipHeader b =
     ebind (readByte b) (\<lambda>(id1, b1).
     ebind (readByte b1) (\<lambda>(id2, b2).
       if id1 \<noteq> 0x1f \<or> id2 \<noteq> 0x8b then Inl (ZMagic id1 id2)
       else
         ebind (readByte b2) (\<lambda>(cm, b3).
           if cm \<noteq> 8 then Inl (ZMethod cm)
           else
             ebind (readByte b3) (\<lambda>(flg, b4).
             ebind (skip_bytes 6 b4) (\<lambda>b5.
             ebind (if flg AND 4 \<noteq> 0 then skip_extra b5 else Inr b5) (\<lambda>b6.
             ebind (if flg AND 8 \<noteq> 0 then skipCString b6 else Inr b6) (\<lambda>b7.
             ebind (if flg AND 16 \<noteq> 0 then skipCString b7 else Inr b7) (\<lambda>b8.
               if flg AND 2 \<noteq> 0 then skip_bytes 2 b8 else Inr b8))))))))"

text \<open>Four bytes, least significant first; \<open>k\<close> counts up to four.\<close>

primrec read_le :: "nat \<Rightarrow> nat \<Rightarrow> u32 \<Rightarrow> bitReader \<Rightarrow> zerr + u32 \<times> bitReader" where
  "read_le 0 i v b = Inr (v, b)"
| "read_le (Suc n) i v b = ebind (readByte b) (\<lambda>(x, b1). read_le n (i + 1) (v OR push_bit (8 * i) (ucast x)) b1)"

definition readGzipTrailer :: "'z inflater \<Rightarrow> zerr + 'z inflater" where
  "readGzipTrailer st =
     ebind (read_le 4 0 0 (align (ibr st))) (\<lambda>(crc, b1).
     ebind (read_le 4 0 0 b1) (\<lambda>(isize, b2).
       if crc \<noteq> NOT (icrc st) then Inl (ZCrc (NOT (icrc st)) crc)
       else if isize \<noteq> memberLen st then Inl (ZIsize (memberLen st) isize)
       else Inr (st\<lparr>ibr := b2\<rparr>)))"

lemma skip_bytes_left: "skip_bytes n b = Inr b' \<Longrightarrow> br_left b' \<le> br_left b"
  by (induction n arbitrary: b) (fastforce simp: ebind_Inr dest: readByte_left)+

lemma skipCString_left: "skipCString b = Inr b' \<Longrightarrow> br_left b' \<le> br_left b"
proof (induction b rule: skipCString.induct)
  case (1 b)
  then obtain x b1 where b1: "readByte b = Inr (x, b1)" "(if x = 0 then Inr b1 else skipCString b1) = Inr b'"
    by (auto simp: skipCString.simps[of b] ebind_Inr)
  with 1(1)[OF b1(1) refl] readByte_left[OF b1(1)] show ?case by (auto split: if_splits)
qed

lemma read_le_left: "read_le n i v b = Inr (w, b') \<Longrightarrow> br_left b' \<le> br_left b"
  by (induction n arbitrary: i v b) (fastforce simp: ebind_Inr dest: readByte_left)+

lemma skip_extra_left: "skip_extra b = Inr b' \<Longrightarrow> br_left b' \<le> br_left b"
  by (fastforce simp: skip_extra_def ebind_Inr dest!: readByte_left skip_bytes_left)

lemma readGzipHeader_left: "readGzipHeader b = Inr b' \<Longrightarrow> br_left b' < br_left b"
  by (fastforce simp: readGzipHeader_def ebind_Inr split: if_splits
      dest!: readByte_left skip_bytes_left skipCString_left skip_extra_left)

lemma readGzipTrailer_left: "readGzipTrailer st = Inr st' \<Longrightarrow> br_left (ibr st') \<le> br_left (ibr st)"
  using align_left[of "ibr st"]
  by (fastforce simp: readGzipTrailer_def ebind_Inr split: if_splits dest!: read_le_left)

lemma inflateBlocks_left: "inflateBlocks onB st = Inr st' \<Longrightarrow> br_left (ibr st') \<le> br_left (ibr st)"
proof (induction onB st rule: inflateBlocks.induct)
  case (1 onB st)
  then obtain st0 lst b1 btype b2 st1 where a: "at_boundary onB st = Inr st0" and s: "bits 1 (ibr st0) = Inr (lst, b1)"
    "bits 2 b1 = Inr (btype, b2)" "block_body btype (st0\<lparr>ibr := b2\<rparr>) = Inr st1"
    "(if lst = 1 then Inr st1 else inflateBlocks onB st1) = Inr st'"
    by (auto simp: inflateBlocks.simps[of onB st] ebind_Inr)
  have "br_left (ibr st') \<le> br_left (ibr st1)"
    using 1(1)[OF a s(1) refl s(2) refl s(3)] s(4) by (auto split: if_splits)
  with bits_left[OF s(1)] bits_left[OF s(2)] block_body_left[OF s(3)] at_boundary_ibr[OF a] show ?case by simp
qed

definition member_start :: "'z inflater \<Rightarrow> bitReader \<Rightarrow> 'z inflater" where
  "member_start st b = st\<lparr>ibr := b, icrc := 0xffffffff, memberLen := 0, memberStart := itotal st\<rparr>"

function run :: "('z inflater \<Rightarrow> zerr + 'z) option \<Rightarrow> 'z inflater \<Rightarrow> zerr + 'z inflater" where
  "run onBoundary st =
     ebind (readGzipHeader (ibr st)) (\<lambda>b.
     ebind (inflateBlocks onBoundary (member_start st b)) (\<lambda>st1.
     ebind (readGzipTrailer st1) (\<lambda>st2.
       if eof (ibr st2) then Inr st2 else run onBoundary st2)))"
  by pat_completeness auto
termination
  by (relation "measure (\<lambda>(_, st). br_left (ibr st))")
    (auto simp: member_start_def dest!: readGzipHeader_left inflateBlocks_left readGzipTrailer_left)

declare run.simps [simp del]

end
