(* ===== verification/Inflate_Ref.thy ===== *)
theory Inflate_Ref
  imports Inflate
begin

text \<open>
  A reference decoder for gzip files: it works on the list of the remaining bits, keeps the whole output,
  finds symbols by their code words, and returns the boundaries of the deflate blocks (what remains, what
  has been produced, where the member began).  The inflater is shown to agree with it on every input,
  errors included, for every callback that keeps a relation to the boundaries passed so far.
\<close>

section \<open>The reference decoder\<close>

type_synonym boundary = "bool list \<times> bytes \<times> nat"

primrec ref_match :: "nat \<Rightarrow> nat \<Rightarrow> bytes \<Rightarrow> bytes" where
  "ref_match 0 d out = out"
| "ref_match (Suc n) d out = ref_match n d (out @ [out ! (length out - d)])"

lemma ref_bits_length: "ref_bits n xs = Inr (v, ys) \<Longrightarrow> length xs = length ys + n"
  by (auto simp: ref_bits_def split: if_splits)

lemma ref_byte_length: "ref_byte xs = Inr (v, ys) \<Longrightarrow> length xs = length ys + 8"
  by (auto simp: ref_byte_def split: if_splits)

lemma ref_decode_length: "ref_decode lens xs = Inr (s, ys) \<Longrightarrow> length ys < length xs"
proof -
  assume "ref_decode lens xs = Inr (s, ys)"
  then have "matches lens xs s" "ys = drop (lens ! s) xs"
    by (auto simp: ref_decode_def find_Some_iff split: option.splits if_splits)
  moreover from this have "length (take (lens ! s) xs) = lens ! s" "lens ! s \<noteq> 0"
    by (simp_all add: matches_def code_word_def)
  ultimately show ?thesis by (metis diff_less length_drop length_take less_nat_zero_code linorder_neqE_nat min_less_iff_conj neq0_conv)
qed

definition ref_read_match :: "nat list \<Rightarrow> nat \<Rightarrow> bool list \<Rightarrow> zerr + nat \<times> nat \<times> bool list" where
  "ref_read_match dist k xs1 =
     (if k \<ge> 29 then Inl ZLengthSymbol
      else
        ebind (ref_bits (lengthExtra ! k) xs1) (\<lambda>(extra, xs2).
        ebind (ref_decode dist xs2) (\<lambda>(d, xs3).
          if d \<ge> 30 then Inl ZDistanceSymbol
          else
            ebind (ref_bits (distExtra ! d) xs3) (\<lambda>(dextra, xs4).
              Inr (lengthBase ! k + extra, distBase ! d + dextra, xs4)))))"

lemma ref_read_match_length: "ref_read_match dist k xs = Inr (n, d, ys) \<Longrightarrow> length ys < length xs"
  by (auto simp: ref_read_match_def ebind_Inr split: if_splits dest!: ref_bits_length ref_decode_length)

text \<open>\<open>m\<close> is the length of the output before the current gzip member.\<close>

function ref_codes :: "nat list \<Rightarrow> nat list \<Rightarrow> nat \<Rightarrow> bool list \<Rightarrow> bytes \<Rightarrow> zerr + bool list \<times> bytes" where
  "ref_codes lit dist m xs out =
     ebind (ref_decode lit xs) (\<lambda>(s, xs1).
       if s = 256 then Inr (xs1, out)
       else if s < 256 then ref_codes lit dist m xs1 (out @ [of_nat s])
       else
         ebind (ref_read_match dist (s - 257) xs1) (\<lambda>(n, d, xs2).
           if d > length out - m then Inl ZDistanceTooFar
           else ref_codes lit dist m xs2 (ref_match n d out)))"
  by pat_completeness auto
termination
  by (relation "measure (\<lambda>(lit, dist, m, xs, out). length xs)")
    (auto dest!: ref_decode_length ref_read_match_length)

declare ref_codes.simps [simp del]

fun ref_cl :: "nat list \<Rightarrow> nat list \<Rightarrow> bool list \<Rightarrow> zerr + nat list \<times> bool list" where
  "ref_cl [] cl xs = Inr (cl, xs)"
| "ref_cl (k # ks) cl xs = ebind (ref_bits 3 xs) (\<lambda>(v, xs1). ref_cl ks (cl[k := v]) xs1)"

text \<open>\<open>n\<close> code lengths, given by symbols that stand for a length or a run of equal ones.\<close>

definition ref_run :: "nat \<Rightarrow> nat \<Rightarrow> nat \<Rightarrow> nat \<Rightarrow> nat list \<Rightarrow> bool list \<Rightarrow> zerr + nat list \<times> bool list" where
  "ref_run nb base v n acc xs =
     ebind (ref_bits nb xs) (\<lambda>(k, xs1).
       if length acc + (k + base) > n then Inl ZRepeatOverrun else Inr (acc @ replicate (k + base) v, xs1))"

definition ref_length :: "nat \<Rightarrow> nat \<Rightarrow> nat list \<Rightarrow> bool list \<Rightarrow> zerr + nat list \<times> bool list" where
  "ref_length s n acc xs =
     (if s < 16 then Inr (acc @ [s], xs)
      else if s = 16 then (if acc = [] then Inl ZRepeatNoPrevious else ref_run 2 3 (last acc) n acc xs)
      else if s = 17 then ref_run 3 3 0 n acc xs
      else ref_run 7 11 0 n acc xs)"

lemma ref_length_length: "ref_length s n acc xs = Inr (acc', ys) \<Longrightarrow> length ys \<le> length xs"
  by (auto simp: ref_length_def ref_run_def ebind_Inr split: if_splits dest!: ref_bits_length)

function ref_lengths :: "nat list \<Rightarrow> nat \<Rightarrow> nat list \<Rightarrow> bool list \<Rightarrow> zerr + nat list \<times> bool list" where
  "ref_lengths cl n acc xs =
     (if length acc < n then
        ebind (ref_decode cl xs) (\<lambda>(s, xs1). ebind (ref_length s n acc xs1) (\<lambda>(acc', xs2). ref_lengths cl n acc' xs2))
      else Inr (acc, xs))"
  by pat_completeness auto
termination
  by (relation "measure (\<lambda>(cl, n, acc, xs). length xs)") (auto dest!: ref_decode_length ref_length_length)

declare ref_lengths.simps [simp del]

definition usable :: "nat list \<Rightarrow> bool" where
  "usable lens \<longleftrightarrow> ref_left lens = 0 \<or> (0 < ref_left lens \<and> countNonzero lens = 1)"

definition ref_tables :: "bool list \<Rightarrow> zerr + (nat list \<times> nat list) \<times> bool list" where
  "ref_tables xs =
     ebind (ref_bits 5 xs) (\<lambda>(n1, xs1).
     ebind (ref_bits 5 xs1) (\<lambda>(n2, xs2).
     ebind (ref_bits 4 xs2) (\<lambda>(n3, xs3).
       if n1 + 257 > maxLCodes \<or> n2 + 1 > maxDCodes then Inl ZTooManyCodes
       else
         ebind (ref_cl (take (n3 + 4) codeLengthOrder) (replicate 19 0) xs3) (\<lambda>(cl, xs4).
           if ref_left cl \<noteq> 0 then Inl ZIncompleteCodeLength
           else
             ebind (ref_lengths cl (n1 + 257 + (n2 + 1)) [] xs4) (\<lambda>(lens, xs5).
               if lens ! 256 = 0 then Inl ZMissingEndOfBlock
               else if \<not> usable (take (n1 + 257) lens) then Inl ZLiteralCode
               else if \<not> usable (drop (n1 + 257) lens) then Inl ZDistanceCode
               else Inr ((take (n1 + 257) lens, drop (n1 + 257) lens), xs5))))))"

primrec ref_copy :: "nat \<Rightarrow> bool list \<Rightarrow> bytes \<Rightarrow> zerr + bool list \<times> bytes" where
  "ref_copy 0 xs out = Inr (xs, out)"
| "ref_copy (Suc n) xs out = ebind (ref_byte xs) (\<lambda>(x, xs1). ref_copy n xs1 (out @ [x]))"

definition ref_stored :: "bool list \<Rightarrow> bytes \<Rightarrow> zerr + bool list \<times> bytes" where
  "ref_stored xs out =
     ebind (ref_byte (ref_align xs)) (\<lambda>(lo, xs1).
     ebind (ref_byte xs1) (\<lambda>(hi, xs2).
     ebind (ref_byte xs2) (\<lambda>(nlo, xs3).
     ebind (ref_byte xs3) (\<lambda>(nhi, xs4).
       if nlo \<noteq> NOT lo \<or> nhi \<noteq> NOT hi then Inl ZStoredLength
       else ref_copy (unat lo + 256 * unat hi) xs4 out))))"

definition ref_block :: "nat \<Rightarrow> nat \<Rightarrow> bool list \<Rightarrow> bytes \<Rightarrow> zerr + bool list \<times> bytes" where
  "ref_block btype m xs out =
     (if btype = 0 then ref_stored xs out
      else if btype = 1 then ref_codes fixedLitLengths fixedDistLengths m xs out
      else if btype = 2 then ebind (ref_tables xs) (\<lambda>((lit, dist), xs1). ref_codes lit dist m xs1 out)
      else Inl ZBlockType)"


lemma ref_codes_length: "ref_codes lit dist m xs out = Inr (ys, out') \<Longrightarrow> length ys \<le> length xs"
proof (induction "length xs" arbitrary: xs out rule: less_induct)
  case less
  from less.prems obtain s xs1 where d: "ref_decode lit xs = Inr (s, xs1)"
    by (auto simp: ref_codes.simps[of lit dist m xs] ebind_Inr)
  have l1: "length xs1 < length xs" by (rule ref_decode_length[OF d])
  consider "s = 256" | "s < 256" | "s > 256" by linarith
  then show ?case
  proof cases
    case 1
    with d less.prems l1 show ?thesis by (auto simp: ref_codes.simps[of lit dist m xs])
  next
    case 2
    with d less.prems have "ref_codes lit dist m xs1 (out @ [of_nat s]) = Inr (ys, out')"
      by (simp add: ref_codes.simps[of lit dist m xs])
    with less.hyps[OF l1] l1 show ?thesis by fastforce
  next
    case 3
    with d less.prems obtain n e xs2 where m: "ref_read_match dist (s - 257) xs1 = Inr (n, e, xs2)"
        "ref_codes lit dist m xs2 (ref_match n e out) = Inr (ys, out')"
      by (auto simp: ref_codes.simps[of lit dist m xs] ebind_Inr split: if_splits)
    have "length xs2 < length xs" using ref_read_match_length[OF m(1)] l1 by simp
    with less.hyps[OF this m(2)] show ?thesis by simp
  qed
qed

lemma ref_cl_length: "ref_cl ks cl xs = Inr (cl', ys) \<Longrightarrow> length ys \<le> length xs"
  by (induction ks cl xs rule: ref_cl.induct) (fastforce simp: ebind_Inr dest: ref_bits_length)+

lemma ref_lengths_length: "ref_lengths cl n acc xs = Inr (lens, ys) \<Longrightarrow> length ys \<le> length xs"
proof (induction "length xs" arbitrary: acc xs rule: less_induct)
  case less
  show ?case
  proof (cases "length acc < n")
    case True
    with less.prems obtain s xs1 acc' xs2 where "ref_decode cl xs = Inr (s, xs1)"
      "ref_length s n acc xs1 = Inr (acc', xs2)" "ref_lengths cl n acc' xs2 = Inr (lens, ys)"
      by (auto simp: ref_lengths.simps[of cl n acc] ebind_Inr)
    with less.hyps[of xs2 acc'] show ?thesis by (fastforce dest!: ref_decode_length ref_length_length)
  next
    case False
    with less.prems show ?thesis by (simp add: ref_lengths.simps[of cl n acc])
  qed
qed

lemma ref_tables_length: "ref_tables xs = Inr (t, ys) \<Longrightarrow> length ys \<le> length xs"
  by (auto simp: ref_tables_def ebind_Inr split: if_splits
      dest!: ref_bits_length ref_cl_length ref_lengths_length)

lemma ref_copy_length: "ref_copy n xs out = Inr (ys, out') \<Longrightarrow> length ys \<le> length xs"
  by (induction n arbitrary: xs out) (fastforce simp: ebind_Inr dest: ref_byte_length)+

lemma ref_align_length: "length (ref_align xs) \<le> length xs"
  by (simp add: ref_align_def)

lemma ref_stored_length: "ref_stored xs out = Inr (ys, out') \<Longrightarrow> length ys \<le> length xs"
  using ref_align_length[of xs]
  by (fastforce simp: ref_stored_def ebind_Inr split: if_splits dest!: ref_byte_length ref_copy_length)

lemma ref_block_length: "ref_block btype m xs out = Inr (ys, out') \<Longrightarrow> length ys \<le> length xs"
  by (auto simp: ref_block_def ebind_Inr split: if_splits
      dest!: ref_stored_length ref_codes_length ref_tables_length)

text \<open>The blocks of a member, with the boundaries passed.\<close>

function ref_blocks :: "nat \<Rightarrow> bool list \<Rightarrow> bytes \<Rightarrow> boundary list \<Rightarrow> zerr + bool list \<times> bytes \<times> boundary list" where
  "ref_blocks m xs out tr =
     ebind (ref_bits 1 xs) (\<lambda>(lst, xs1).
     ebind (ref_bits 2 xs1) (\<lambda>(btype, xs2).
     ebind (ref_block btype m xs2 out) (\<lambda>(xs3, out1).
       if lst = 1 then Inr (xs3, out1, tr @ [(xs, out, m)]) else ref_blocks m xs3 out1 (tr @ [(xs, out, m)]))))"
  by pat_completeness auto
termination
  by (relation "measure (\<lambda>(m, xs, out, tr). length xs)") (auto dest!: ref_bits_length ref_block_length)

declare ref_blocks.simps [simp del]

primrec ref_skip :: "nat \<Rightarrow> bool list \<Rightarrow> zerr + bool list" where
  "ref_skip 0 xs = Inr xs"
| "ref_skip (Suc n) xs = ebind (ref_byte xs) (\<lambda>(_, xs1). ref_skip n xs1)"

function ref_cstring :: "bool list \<Rightarrow> zerr + bool list" where
  "ref_cstring xs = ebind (ref_byte xs) (\<lambda>(x, xs1). if x = 0 then Inr xs1 else ref_cstring xs1)"
  by pat_completeness auto
termination by (relation "measure length") (auto dest!: ref_byte_length)

declare ref_cstring.simps [simp del]

definition ref_extra :: "bool list \<Rightarrow> zerr + bool list" where
  "ref_extra xs =
     ebind (ref_byte xs) (\<lambda>(lo, xs1). ebind (ref_byte xs1) (\<lambda>(hi, xs2). ref_skip (unat lo + 256 * unat hi) xs2))"

definition ref_header :: "bool list \<Rightarrow> zerr + bool list" where
  "ref_header xs =
     ebind (ref_byte xs) (\<lambda>(id1, xs1).
     ebind (ref_byte xs1) (\<lambda>(id2, xs2).
       if id1 \<noteq> 0x1f \<or> id2 \<noteq> 0x8b then Inl (ZMagic id1 id2)
       else
         ebind (ref_byte xs2) (\<lambda>(cm, xs3).
           if cm \<noteq> 8 then Inl (ZMethod cm)
           else
             ebind (ref_byte xs3) (\<lambda>(flg, xs4).
             ebind (ref_skip 6 xs4) (\<lambda>xs5.
             ebind (if flg AND 4 \<noteq> 0 then ref_extra xs5 else Inr xs5) (\<lambda>xs6.
             ebind (if flg AND 8 \<noteq> 0 then ref_cstring xs6 else Inr xs6) (\<lambda>xs7.
             ebind (if flg AND 16 \<noteq> 0 then ref_cstring xs7 else Inr xs7) (\<lambda>xs8.
               if flg AND 2 \<noteq> 0 then ref_skip 2 xs8 else Inr xs8))))))))"

primrec ref_le :: "nat \<Rightarrow> bool list \<Rightarrow> zerr + u32 \<times> bool list" where
  "ref_le 0 xs = Inr (0, xs)"
| "ref_le (Suc n) xs = ebind (ref_byte xs) (\<lambda>(x, xs1). ebind (ref_le n xs1) (\<lambda>(v, xs2). Inr (ucast x + 256 * v, xs2)))"

definition ref_trailer :: "bytes \<Rightarrow> bool list \<Rightarrow> zerr + bool list" where
  "ref_trailer member xs =
     ebind (ref_le 4 (ref_align xs)) (\<lambda>(crc, xs1).
     ebind (ref_le 4 xs1) (\<lambda>(isize, xs2).
       if crc \<noteq> NOT (ref_crc member) then Inl (ZCrc (NOT (ref_crc member)) crc)
       else if isize \<noteq> of_nat (length member) then Inl (ZIsize (of_nat (length member)) isize)
       else Inr xs2))"

lemma ref_skip_length: "ref_skip n xs = Inr ys \<Longrightarrow> length ys \<le> length xs"
  by (induction n arbitrary: xs) (fastforce simp: ebind_Inr dest: ref_byte_length)+

lemma ref_cstring_length: "ref_cstring xs = Inr ys \<Longrightarrow> length ys \<le> length xs"
proof (induction xs rule: ref_cstring.induct)
  case (1 xs)
  then obtain x xs1 where x: "ref_byte xs = Inr (x, xs1)" "(if x = 0 then Inr xs1 else ref_cstring xs1) = Inr ys"
    by (auto simp: ref_cstring.simps[of xs] ebind_Inr)
  with 1(1)[OF x(1) refl] ref_byte_length[OF x(1)] show ?case by (auto split: if_splits)
qed

lemma ref_extra_length: "ref_extra xs = Inr ys \<Longrightarrow> length ys \<le> length xs"
  by (fastforce simp: ref_extra_def ebind_Inr dest!: ref_byte_length ref_skip_length)

lemma ref_header_length: "ref_header xs = Inr ys \<Longrightarrow> length ys < length xs"
  by (fastforce simp: ref_header_def ebind_Inr split: if_splits
      dest!: ref_byte_length ref_skip_length ref_cstring_length ref_extra_length)

lemma ref_le_length: "ref_le n xs = Inr (v, ys) \<Longrightarrow> length ys \<le> length xs"
  by (induction n arbitrary: xs v) (fastforce simp: ebind_Inr dest: ref_byte_length)+

lemma ref_trailer_length: "ref_trailer member xs = Inr ys \<Longrightarrow> length ys \<le> length xs"
  using ref_align_length[of xs]
  by (fastforce simp: ref_trailer_def ebind_Inr split: if_splits dest!: ref_le_length)

lemma ref_blocks_length: "ref_blocks m xs out tr = Inr (ys, p) \<Longrightarrow> length ys \<le> length xs"
proof (induction "length xs" arbitrary: xs out tr rule: less_induct)
  case less
  then obtain lst xs1 btype xs2 xs3 out1 where s: "ref_bits 1 xs = Inr (lst, xs1)" "ref_bits 2 xs1 = Inr (btype, xs2)"
    "ref_block btype m xs2 out = Inr (xs3, out1)"
    "(if lst = 1 then Inr (xs3, out1, tr @ [(xs, out, m)]) else ref_blocks m xs3 out1 (tr @ [(xs, out, m)])) = Inr (ys, p)"
    by (auto simp: ref_blocks.simps[of m xs] ebind_Inr)
  have "length xs3 < length xs" using s(1-3) by (fastforce dest!: ref_bits_length ref_block_length)
  with less.hyps[of xs3 out1 "tr @ [(xs, out, m)]"] s(4) show ?case by (auto split: if_splits)
qed

text \<open>The whole file: members until the input ends.\<close>

function ref_gunzip :: "bool list \<Rightarrow> bytes \<Rightarrow> boundary list \<Rightarrow> zerr + bool list \<times> bytes \<times> boundary list" where
  "ref_gunzip xs out tr =
     ebind (ref_header xs) (\<lambda>xs1.
     ebind (ref_blocks (length out) xs1 out tr) (\<lambda>(xs2, out1, tr1).
     ebind (ref_trailer (drop (length out) out1) xs2) (\<lambda>xs3.
       if xs3 = [] then Inr (xs3, out1, tr1) else ref_gunzip xs3 out1 tr1)))"
  by pat_completeness auto
termination
  by (relation "measure (\<lambda>(xs, out, tr). length xs)")
    (auto dest!: ref_header_length ref_blocks_length ref_trailer_length)

declare ref_gunzip.simps [simp del]

text \<open>The steps of a successful decoding.\<close>

lemma ref_blocks_cases:
  assumes "ref_blocks m xs out tr = Inr (ys, o1, tr1)"
  obtains lst xs1 btype xs2 xs3 o2 where "ref_bits 1 xs = Inr (lst, xs1)" "ref_bits 2 xs1 = Inr (btype, xs2)"
    "ref_block btype m xs2 out = Inr (xs3, o2)" "length xs3 < length xs"
    "(if lst = 1 then Inr (xs3, o2, tr @ [(xs, out, m)]) else ref_blocks m xs3 o2 (tr @ [(xs, out, m)])) = Inr (ys, o1, tr1)"
proof -
  obtain lst xs1 btype xs2 xs3 o2 where s: "ref_bits 1 xs = Inr (lst, xs1)" "ref_bits 2 xs1 = Inr (btype, xs2)"
    "ref_block btype m xs2 out = Inr (xs3, o2)"
    "(if lst = 1 then Inr (xs3, o2, tr @ [(xs, out, m)]) else ref_blocks m xs3 o2 (tr @ [(xs, out, m)])) = Inr (ys, o1, tr1)"
    using assms by (auto simp: ref_blocks.simps[of m xs] ebind_Inr)
  moreover have "length xs3 < length xs"
    using ref_bits_length[OF s(1)] ref_bits_length[OF s(2)] ref_block_length[OF s(3)] by simp
  ultimately show thesis by (intro that)
qed

lemma ref_gunzip_cases:
  assumes "ref_gunzip xs out tr = Inr (ys, o1, tr1)"
  obtains xs1 xs2 o2 tr2 xs3 where "ref_header xs = Inr xs1" "ref_blocks (length out) xs1 out tr = Inr (xs2, o2, tr2)"
    "ref_trailer (drop (length out) o2) xs2 = Inr xs3" "length xs3 < length xs"
    "(if xs3 = [] then Inr (xs3, o2, tr2) else ref_gunzip xs3 o2 tr2) = Inr (ys, o1, tr1)"
proof -
  obtain xs1 xs2 o2 tr2 xs3 where s: "ref_header xs = Inr xs1" "ref_blocks (length out) xs1 out tr = Inr (xs2, o2, tr2)"
    "ref_trailer (drop (length out) o2) xs2 = Inr xs3"
    "(if xs3 = [] then Inr (xs3, o2, tr2) else ref_gunzip xs3 o2 tr2) = Inr (ys, o1, tr1)"
    using assms by (auto simp: ref_gunzip.simps[of xs] ebind_Inr)
  moreover have "length xs3 < length xs"
    using ref_header_length[OF s(1)] ref_blocks_length[OF s(2)] ref_trailer_length[OF s(3)] by simp
  ultimately show thesis by (intro that)
qed

end
