(* ===== verification/Inflate_Sim.thy ===== *)
theory Inflate_Sim
  imports Inflate_Ref
begin

text \<open>
  The inflater agrees with the reference decoder.  The relation between their states is kept by every
  operation; errors are the same on both sides, so the inflater never panics.
\<close>

lemma agree_bind_eq:
  assumes "agree R m m'" "\<And>a b. m = Inr a \<Longrightarrow> m' = Inr b \<Longrightarrow> R a b \<Longrightarrow> agree S (f a) (f' b)"
  shows "agree S (ebind m f) (ebind m' f')"
  using assms by (cases m; cases m') auto

lemma agree_bind2:
  assumes "agree (rel_prod (=) R) m m'"
    "\<And>v b xs. m = Inr (v, b) \<Longrightarrow> m' = Inr (v, xs) \<Longrightarrow> R b xs \<Longrightarrow> agree S (f (v, b)) (f' (v, xs))"
  shows "agree S (ebind m f) (ebind m' f')"
  using assms by (cases m; cases m') auto

section \<open>The relation\<close>

definition fixed_ok :: "'z inflater \<Rightarrow> bool" where
  "fixed_ok st \<longleftrightarrow> fixedLen st = None \<or>
     (\<exists>hl hd. fixedLen st = Some hl \<and> fixedDist st = Some hd \<and> table fixedLitLengths hl \<and> table fixedDistLengths hd)"

definition st_rel :: "bytes \<Rightarrow> nat \<Rightarrow> 'z \<Rightarrow> 'z inflater \<Rightarrow> bool list \<times> bytes \<Rightarrow> bool" where
  "st_rel data m z st = (\<lambda>(xs, out).
     br_rel data (ibr st) xs \<and> win_rel (iwin st) out \<and> itotal st = length out \<and> memberStart st = m \<and>
     m \<le> length out \<and> icrc st = ref_crc (drop m out) \<and> memberLen st = of_nat (length out - m) \<and> fixed_ok st \<and>
     zstate st = z)"

lemma st_rel_br: "st_rel data m z st (xs, out) \<Longrightarrow> br_rel data (ibr st) xs"
  by (simp add: st_rel_def)

lemma st_rel_upd: "st_rel data m z st (xs, out) \<Longrightarrow> br_rel data b ys \<Longrightarrow> st_rel data m z (st\<lparr>ibr := b\<rparr>) (ys, out)"
  by (simp add: st_rel_def fixed_ok_def)

lemma emit_refines:
  assumes "st_rel data m z st (xs, out)"
  obtains st' where "emit_byte b st = Inr st'" "st_rel data m z st' (xs, out @ [b])"
proof -
  obtain w where w: "put b (iwin st) = Inr w" "win_rel w (out @ [b])"
    using assms put_refines[of "iwin st" out b] by (auto simp: st_rel_def)
  show thesis
    by (rule that[of "st\<lparr>iwin := w, icrc := crc_byte (icrc st) b, itotal := itotal st + 1, memberLen := memberLen st + 1\<rparr>"])
      (use assms w in \<open>auto simp: emit_byte_def st_rel_def ref_crc_snoc fixed_ok_def Suc_diff_le\<close>)
qed

lemma copy_match_refines:
  "st_rel data m z st (xs, out) \<Longrightarrow> 1 \<le> d \<Longrightarrow> d \<le> winSize \<Longrightarrow> d \<le> length out \<Longrightarrow>
   \<exists>st'. copy_match n d st = Inr st' \<and> st_rel data m z st' (xs, ref_match n d out)"
proof (induction n arbitrary: st out)
  case (Suc n)
  let ?b = "out ! (length out - d)"
  have at: "byteAt d (iwin st) = Inr ?b"
    using Suc.prems by (intro byteAt_refines) (auto simp: st_rel_def)
  obtain st1 where e: "emit_byte ?b st = Inr st1" "st_rel data m z st1 (xs, out @ [?b])"
    by (rule emit_refines[OF Suc.prems(1)])
  with Suc.IH[OF e(2)] Suc.prems at show ?case by simp
qed simp

section \<open>Constants\<close>

lemma lsb_nat_less: "length xs = n \<Longrightarrow> lsb_nat xs < 2 ^ n"
  unfolding lsb_nat_def using horner_sum_of_bool_2_less by blast

lemma ref_bits_less: "ref_bits n xs = Inr (v, ys) \<Longrightarrow> v < 2 ^ n"
  by (auto simp: ref_bits_def lsb_nat_less split: if_splits)

lemma length_tables [simp]:
  "length lengthBase = 29" "length distBase = 30" "length lengthExtra = 29" "length distExtra = 30" "length codeLengthOrder = 19"
  by (simp_all add: lengthBase_def distBase_def lengthExtra_def distExtra_def codeLengthOrder_def)

lemma order_less: "i < 19 \<Longrightarrow> codeLengthOrder ! i < 19"
proof -
  have "list_all (\<lambda>k. k < 19) codeLengthOrder" by (simp add: codeLengthOrder_def)
  then show "i < 19 \<Longrightarrow> codeLengthOrder ! i < 19" by (simp add: list_all_length)
qed

lemma extra_le: "s < 29 \<Longrightarrow> lengthExtra ! s \<le> 32" "d < 30 \<Longrightarrow> distExtra ! d \<le> 32"
proof -
  have "list_all (\<lambda>e. e \<le> 32) lengthExtra" "length lengthExtra = 29"
    "list_all (\<lambda>e. e \<le> 32) distExtra" "length distExtra = 30"
    by (simp_all add: lengthExtra_def distExtra_def)
  then show "s < 29 \<Longrightarrow> lengthExtra ! s \<le> 32" "d < 30 \<Longrightarrow> distExtra ! d \<le> 32"
    by (simp_all add: list_all_length)
qed

lemma dist_bounds:
  assumes "d < 30" "e < 2 ^ (distExtra ! d)"
  shows "1 \<le> distBase ! d + e" "distBase ! d + e \<le> winSize"
proof -
  have "list_all (\<lambda>(b, x). 1 \<le> b \<and> b + 2 ^ x \<le> winSize + 1) (zip distBase distExtra)"
    "length distExtra = 30"
    by (simp_all add: distBase_def distExtra_def winSize_def)
  with assms show "1 \<le> distBase ! d + e" "distBase ! d + e \<le> winSize"
    by (fastforce simp: list_all_length)+
qed

section \<open>Compressed blocks\<close>

lemma agree_if:
  "c \<longleftrightarrow> c' \<Longrightarrow> (c' \<Longrightarrow> agree S a a') \<Longrightarrow> (\<not> c' \<Longrightarrow> agree S b b') \<Longrightarrow>
   agree S (if c then a else b) (if c' then a' else b')"
  by simp

lemma agree_error: "agree S (Inl e) (Inl e)"
  by simp

definition match_rel :: "bytes \<Rightarrow> nat \<times> nat \<times> bitReader \<Rightarrow> nat \<times> nat \<times> bool list \<Rightarrow> bool" where
  "match_rel data = (\<lambda>(n, d, b) (n', d', xs). n' = n \<and> d' = d \<and> 1 \<le> d \<and> d \<le> winSize \<and> br_rel data b xs)"

lemma in_tables: "\<not> 29 \<le> k \<Longrightarrow> k < length lengthExtra" "\<not> 29 \<le> k \<Longrightarrow> k < length lengthBase"
  by simp_all

lemma read_match_refines:
  assumes dist: "table dist dc" and b1: "br_rel data b1 xs1"
  shows "agree (match_rel data) (read_match dc k b1) (ref_read_match dist k xs1)"
  unfolding read_match_def ref_read_match_def
proof (rule agree_if)
  assume k: "\<not> 29 \<le> k"
  show "agree (match_rel data)
     (ebind (arr_get lengthExtra k) (\<lambda>lext.
        ebind (bits lext b1) (\<lambda>(extra, b2).
        ebind (arr_get lengthBase k) (\<lambda>lbase.
        ebind (decode dc b2) (\<lambda>(dsym, b3).
          if dsym \<ge> length distBase then Inl ZDistanceSymbol
          else
            ebind (arr_get distExtra dsym) (\<lambda>dext.
            ebind (bits dext b3) (\<lambda>(dextra, b4).
            ebind (arr_get distBase dsym) (\<lambda>dbase.
              Inr (lbase + extra, dbase + dextra, b4)))))))))
     (ebind (ref_bits (lengthExtra ! k) xs1) (\<lambda>(extra, xs2).
        ebind (ref_decode dist xs2) (\<lambda>(d, xs3).
          if d \<ge> 30 then Inl ZDistanceSymbol
          else ebind (ref_bits (distExtra ! d) xs3) (\<lambda>(dextra, xs4).
              Inr (lengthBase ! k + extra, distBase ! d + dextra, xs4)))))"
    unfolding arr_in_range(1)[OF in_tables(1)[OF k]] arr_in_range(1)[OF in_tables(2)[OF k]] ebind_simps
    apply (rule agree_bind2[OF bits_refines[OF b1 extra_le(1)]])
    subgoal using k by simp
    apply (simp only: prod.case)
    apply (rule agree_bind2[OF decode_refines[OF dist]], assumption)
    apply (simp only: prod.case)
    apply (rule agree_if; simp?)
    apply (rule agree_bind2[OF bits_refines[OF _ extra_le(2)]], assumption)
    subgoal by simp
    subgoal for extra b2 xs2 d b3 xs3 e b4 xs4
      using dist_bounds[of d e] ref_bits_less[of "distExtra ! d" xs3 e xs4] by (simp add: match_rel_def)
    done
qed simp_all

lemma agree_bind_match:
  assumes "agree (match_rel data) m m'"
    "\<And>n d b xs. m' = Inr (n, d, xs) \<Longrightarrow> 1 \<le> d \<Longrightarrow> d \<le> winSize \<Longrightarrow> br_rel data b xs \<Longrightarrow> agree S (f (n, d, b)) (f' (n, d, xs))"
  shows "agree S (ebind m f) (ebind m' f')"
  using assms by (cases m; cases m') (auto simp: match_rel_def)

lemma codes2_refines:
  assumes lit: "table lit lc" and dist: "table dist dc"
  shows "st_rel data m z st (xs, out) \<Longrightarrow> agree (st_rel data m z) (codes2 lc dc st) (ref_codes lit dist m xs out)"
proof (induction "length xs" arbitrary: st xs out rule: less_induct)
  case less
  note rel = less.prems
  have tot: "itotal st = length out" "memberStart st = m" using rel by (simp_all add: st_rel_def)
  show ?case
    unfolding codes2.simps[of lc dc st] ref_codes.simps[of lit dist m xs] endOfBlock_def tot
    apply (rule agree_bind2[OF decode_refines[OF lit st_rel_br[OF rel]]])
    apply (simp only: prod.case)
    subgoal for s b1 xs1
      apply (rule agree_if[OF refl])
      subgoal using st_rel_upd[OF rel] by simp
      apply (rule agree_if[OF refl])
      subgoal
        apply (rule emit_refines[OF st_rel_upd[OF rel], of b1 xs1 "of_nat s"], assumption)
        using less.hyps ref_decode_length by auto
      apply (rule agree_bind_match[OF read_match_refines[OF dist]], assumption)
      apply (simp only: prod.case)
      apply (rule agree_if[OF refl agree_error])
      subgoal for n d b2 xs2
        using copy_match_refines[OF st_rel_upd[OF rel], of b2 xs2 d n] ref_read_match_length[of dist "s - 257" xs1 n d xs2]
          ref_decode_length[of lit xs s xs1]
        by (cases "d \<le> length out") (auto intro!: less.hyps)
      done
    done
qed


section \<open>Fixed tables\<close>

lemma count_list_replicate: "count_list (replicate n x) y = (if x = y then n else 0)"
  by (induction n) auto

lemma first_code_numeral:
  "first_code lens (numeral k) =
   2 * (first_code lens (pred_numeral k) + (if pred_numeral k = 0 then 0 else count_list lens (pred_numeral k)))"
  by (simp add: numeral_eq_Suc)

lemma fixed_lens: "lens_ok fixedLitLengths" "lens_ok fixedDistLengths" "0 \<le> ref_left fixedLitLengths" "0 \<le> ref_left fixedDistLengths"
proof -
  show "lens_ok fixedLitLengths" "lens_ok fixedDistLengths"
    by (auto simp: lens_ok_def fixedLitLengths_def fixedDistLengths_def maxBits_def maxDCodes_def)
  show "0 \<le> ref_left fixedLitLengths" "0 \<le> ref_left fixedDistLengths"
    by (simp_all add: ref_left_def fixedLitLengths_def fixedDistLengths_def maxBits_def maxDCodes_def
        count_list_replicate first_code_numeral)
qed

lemma sgn_nonneg: "sgn a = sgn (b :: int) \<Longrightarrow> 0 \<le> b \<Longrightarrow> 0 \<le> a"
  by (simp add: sgn_if split: if_splits)

lemma construct_table:
  assumes "lens_ok lens" "0 \<le> ref_left lens"
  obtains left h' where "construct h lens = Inr (left, h')" "table lens h'"
  using construct_spec[OF assms(1), of h] sgn_nonneg assms(2) by blast

lemma fixedTables_refines:
  assumes "st_rel data m z st p"
  obtains st' hl hd where "fixedTables st = Inr st'" "st_rel data m z st' p" "fixedLen st' = Some hl"
    "fixedDist st' = Some hd" "table fixedLitLengths hl" "table fixedDistLengths hd"
proof (cases "fixedLen st")
  case None
  obtain l1 hl where hl: "construct new_huffman fixedLitLengths = Inr (l1, hl)" "table fixedLitLengths hl"
    by (rule construct_table[OF fixed_lens(1,3)])
  obtain l2 hd where hd: "construct new_huffman fixedDistLengths = Inr (l2, hd)" "table fixedDistLengths hd"
    by (rule construct_table[OF fixed_lens(2,4)])
  show ?thesis
    by (rule that[of "st\<lparr>fixedLen := Some hl, fixedDist := Some hd\<rparr>" hl hd])
      (use None hl hd assms in \<open>auto simp: fixedTables_def st_rel_def fixed_ok_def split: prod.split\<close>)
next
  case (Some hl)
  then obtain hd where "fixedDist st = Some hd" "table fixedLitLengths hl" "table fixedDistLengths hd"
    using assms by (auto simp: st_rel_def fixed_ok_def split: prod.splits)
  with Some assms that[of st hl hd] show ?thesis by (simp add: fixedTables_def)
qed

section \<open>Dynamic tables\<close>

lemma read_cl_refines:
  "br_rel data b xs \<Longrightarrow> i + n \<le> 19 \<Longrightarrow> length cl = 19 \<Longrightarrow>
   agree (rel_prod (=) (br_rel data)) (read_cl n i cl b) (ref_cl (take n (drop i codeLengthOrder)) cl xs)"
proof (induction n arbitrary: i cl b xs)
  case (Suc n)
  then have i: "i < length codeLengthOrder" "codeLengthOrder ! i < length cl" using order_less[of i] by simp_all
  then have ks: "take (Suc n) (drop i codeLengthOrder) = codeLengthOrder ! i # take n (drop (i + 1) codeLengthOrder)"
    by (simp flip: Cons_nth_drop_Suc)
  show ?case
    unfolding read_cl.simps ks ref_cl.simps
    by (rule agree_bind2[OF bits_refines[OF Suc.prems(1)]]) (use i Suc.IH Suc.prems in auto)
qed simp

lemma ref_cl_ok: "ref_cl ks cl xs = Inr (cl', ys) \<Longrightarrow> lens_ok cl \<Longrightarrow> lens_ok cl'"
proof (induction ks arbitrary: cl xs)
  case (Cons k ks)
  then obtain v xs1 where v: "ref_bits 3 xs = Inr (v, xs1)" "ref_cl ks (cl[k := v]) xs1 = Inr (cl', ys)"
    by (auto simp: ebind_Inr)
  have "v \<le> maxBits" using ref_bits_less[OF v(1)] by (simp add: maxBits_def)
  then have "lens_ok (cl[k := v])" using Cons.prems(2) set_update_subset_insert[of cl k v] by (auto simp: lens_ok_def)
  with Cons.IH v(2) show ?case by blast
qed simp

lemma set_run_replicate:
  "k \<le> r \<Longrightarrow> set_run k (length acc) v (acc @ replicate r 0) = Inr (acc @ replicate k v @ replicate (r - k) 0)"
proof (induction k arbitrary: acc r)
  case (Suc k)
  then obtain r' where r: "r = Suc r'" by (cases r) auto
  have "set_run (Suc k) (length acc) v (acc @ replicate r 0) = set_run k (length (acc @ [v])) v ((acc @ [v]) @ replicate r' 0)"
    by (simp add: r list_update_append)
  also have "\<dots> = Inr ((acc @ [v]) @ replicate k v @ replicate (r' - k) 0)"
    using Suc.prems r by (intro Suc.IH) simp
  finally show ?case by (simp add: r)
qed simp

text \<open>The array of lengths holds those read so far, followed by zeros.\<close>

definition lens_rel :: "bytes \<Rightarrow> nat \<Rightarrow> nat list \<times> nat \<times> bitReader \<Rightarrow> nat list \<times> bool list \<Rightarrow> bool" where
  "lens_rel data n = (\<lambda>(lens, i, b) (acc, xs).
     i = length acc \<and> i \<le> n \<and> lens = acc @ replicate (n - i) 0 \<and> br_rel data b xs)"

lemma repeat_length_refines:
  assumes rel: "lens_rel data n (lens, i, b) (acc, xs)" and nb: "nb \<le> 32"
  shows "agree (lens_rel data n) (repeat_length nb base (Inr v) lens i b) (ref_run nb base v n acc xs)"
proof -
  have i: "i = length acc" "i \<le> n" and lens: "lens = acc @ replicate (n - i) 0" and b: "br_rel data b xs"
    using rel by (simp_all add: lens_rel_def)
  have len: "length lens = n" using i lens by simp
  show ?thesis
    unfolding repeat_length_def ref_run_def
    apply (rule agree_bind2[OF bits_refines[OF b nb]])
    apply (simp only: prod.case len i(1))
    apply (rule agree_if[OF refl agree_error])
    using i by (simp add: lens_rel_def lens set_run_replicate)
qed

lemma length_step_refines:
  assumes rel: "lens_rel data n (lens, i, b) (acc, xs)" and i: "i < n"
  shows "agree (lens_rel data n) (length_step s lens i b) (ref_length s n acc xs)"
proof -
  note run = repeat_length_refines[OF rel]
  have lens: "lens = acc @ replicate (n - i) 0" "i = length acc" using rel by (simp_all add: lens_rel_def)
  have "lens[i := s] = acc @ s # replicate (n - Suc i) 0"
    using i lens by (cases "n - i") (simp_all add: list_update_append Suc_diff_Suc[symmetric])
  then have one: "lens_rel data n (lens[i := s], i + 1, b) (acc @ [s], xs)"
    using rel i by (simp add: lens_rel_def)
  have "arr_get lens (i - 1) = Inr (last acc)" if "acc \<noteq> []"
    using that lens i by (simp add: nth_append last_conv_nth)
  moreover have "arr_set lens i s = Inr (lens[i := s])" using lens i by simp
  ultimately show ?thesis
    using run one lens(2) by (auto simp: length_step_def ref_length_def)
qed

lemma read_lengths_refines:
  assumes tab: "table cl h"
  shows "lens_rel data n (lens, i, b) (acc, xs) \<Longrightarrow>
    agree (rel_prod (=) (br_rel data)) (read_lengths h lens i b) (ref_lengths cl n acc xs)"
proof (induction "length xs" arbitrary: lens i b acc xs rule: less_induct)
  case less
  note rel = less.prems
  have eq: "length lens = n" "i = length acc" "i \<le> n" and b: "br_rel data b xs"
    using rel by (auto simp: lens_rel_def)
  show ?case
    unfolding read_lengths.simps[of h lens] ref_lengths.simps[of cl n acc] eq(1)
  proof (rule agree_if)
    assume i: "length acc < n"
    show "agree (rel_prod (=) (br_rel data))
      (ebind (decode h b) (\<lambda>(sm, b1). ebind (length_step sm lens i b1) (\<lambda>(lens', i', b2). read_lengths h lens' i' b2)))
      (ebind (ref_decode cl xs) (\<lambda>(s, xs1). ebind (ref_length s n acc xs1) (\<lambda>(acc', xs2). ref_lengths cl n acc' xs2)))"
    proof (rule agree_bind2[OF decode_refines[OF tab b]], simp only: prod.case)
      fix s b1 xs1
      assume d: "ref_decode cl xs = Inr (s, xs1)" and b1: "br_rel data b1 xs1"
      have "lens_rel data n (lens, i, b1) (acc, xs1)" using rel b1 by (simp add: lens_rel_def)
      note step = length_step_refines[OF this, of s]
      show "agree (rel_prod (=) (br_rel data))
        (ebind (length_step s lens i b1) (\<lambda>(lens', i', b2). read_lengths h lens' i' b2))
        (ebind (ref_length s n acc xs1) (\<lambda>(acc', xs2). ref_lengths cl n acc' xs2))"
      proof (rule agree_bind_eq[OF step])
        show "i < n" using i eq(2) by simp
        fix p q assume q: "ref_length s n acc xs1 = Inr q" and pq: "lens_rel data n p q"
        obtain lens' i' b2 where p: "p = (lens', i', b2)" by (cases p)
        obtain acc' xs2 where q': "q = (acc', xs2)" by (cases q)
        have "length xs2 < length xs" using ref_decode_length[OF d] ref_length_length q unfolding q' by fastforce
        with pq show "agree (rel_prod (=) (br_rel data))
            (case p of (lens', i', b2) \<Rightarrow> read_lengths h lens' i' b2) (case q of (acc', xs2) \<Rightarrow> ref_lengths cl n acc' xs2)"
          unfolding p q' by (simp add: less.hyps)
      qed
    qed
  qed (use eq b rel in \<open>auto simp: lens_rel_def\<close>)
qed


lemma ref_length_ok:
  assumes "ref_length s n acc xs = Inr (acc', ys)" "lens_ok acc" "length acc < n"
  shows "lens_ok acc' \<and> length acc' \<le> n"
proof -
  have "acc \<noteq> [] \<Longrightarrow> last acc \<le> maxBits" using assms(2) by (simp add: lens_ok_def)
  with assms show ?thesis
    by (auto simp: ref_length_def ref_run_def ebind_Inr lens_ok_def maxBits_def split: if_splits)
qed

lemma ref_lengths_ok:
  "ref_lengths cl n acc xs = Inr (lens, ys) \<Longrightarrow> lens_ok acc \<Longrightarrow> length acc \<le> n \<Longrightarrow> lens_ok lens \<and> length lens = n"
proof (induction "length xs" arbitrary: acc xs rule: less_induct)
  case less
  show ?case
  proof (cases "length acc < n")
    case True
    with less.prems obtain s xs1 acc' xs2 where s: "ref_decode cl xs = Inr (s, xs1)"
      "ref_length s n acc xs1 = Inr (acc', xs2)" "ref_lengths cl n acc' xs2 = Inr (lens, ys)"
      by (auto simp: ref_lengths.simps[of cl n acc] ebind_Inr)
    have "length xs2 < length xs" using ref_decode_length[OF s(1)] ref_length_length[OF s(2)] by simp
    from less.hyps[OF this s(3)] ref_length_ok[OF s(2) less.prems(2) True] show ?thesis by simp
  next
    case False
    with less.prems show ?thesis by (simp add: ref_lengths.simps[of cl n acc])
  qed
qed

text \<open>A table is built, or rejected, as the reference accepts its lengths.\<close>

lemma construct_usable:
  assumes "lens_ok lens"
  obtains left h' where "construct h lens = Inr (left, h')" "left = 0 \<longleftrightarrow> ref_left lens = 0"
    "left \<noteq> 0 \<and> (left < 0 \<or> countNonzero lens \<noteq> 1) \<longleftrightarrow> \<not> usable lens" "0 \<le> left \<Longrightarrow> table lens h'"
proof -
  obtain left h' where c: "construct h lens = Inr (left, h')" "sgn left = sgn (ref_left lens)" "0 \<le> left \<Longrightarrow> table lens h'"
    using construct_spec[OF assms, of h] by blast
  then have "left = 0 \<longleftrightarrow> ref_left lens = 0" "left < 0 \<longleftrightarrow> ref_left lens < 0"
    by (auto simp: sgn_if split: if_splits)
  then show ?thesis using c by (intro that[of left h']) (auto simp: usable_def)
qed

definition tables_rel :: "bytes \<Rightarrow> nat \<Rightarrow> 'z \<Rightarrow> bytes \<Rightarrow> (huffman \<times> huffman) \<times> 'z inflater \<Rightarrow> (nat list \<times> nat list) \<times> bool list \<Rightarrow> bool" where
  "tables_rel data m z out = (\<lambda>((lc, dc), st) ((lit, dist), xs). table lit lc \<and> table dist dc \<and> st_rel data m z st (xs, out))"

lemma usable_nonneg: "usable lens \<Longrightarrow> 0 \<le> ref_left lens"
  by (auto simp: usable_def)

lemma build_tables_refines:
  assumes rel: "st_rel data m z st (xs, out)" and b: "br_rel data b5 xs5" and lens: "lens_ok lens" and k: "k \<le> length lens"
  shows "agree (tables_rel data m z out)
    (ebind (arr_prefix lens k) (\<lambda>litLengths.
     ebind (construct (dynLen st) litLengths) (\<lambda>(r, hl).
       if r \<noteq> 0 \<and> (r < 0 \<or> countNonzero litLengths \<noteq> 1) then Inl ZLiteralCode
       else
         ebind (arr_suffix lens k) (\<lambda>distLengths.
         ebind (construct (dynDist st) distLengths) (\<lambda>(r', hd).
           if r' \<noteq> 0 \<and> (r' < 0 \<or> countNonzero distLengths \<noteq> 1) then Inl ZDistanceCode
           else Inr ((hl, hd), st\<lparr>ibr := b5, dynLen := hl, dynDist := hd\<rparr>))))))
    (if \<not> usable (take k lens) then Inl ZLiteralCode
     else if \<not> usable (drop k lens) then Inl ZDistanceCode
     else Inr ((take k lens, drop k lens), xs5))"
proof -
  have ok: "lens_ok (take k lens)" "lens_ok (drop k lens)"
    using lens by (auto simp: lens_ok_def dest: in_set_takeD in_set_dropD)
  obtain r hl where r: "construct (dynLen st) (take k lens) = Inr (r, hl)"
    "r \<noteq> 0 \<and> (r < 0 \<or> countNonzero (take k lens) \<noteq> 1) \<longleftrightarrow> \<not> usable (take k lens)" "0 \<le> r \<Longrightarrow> table (take k lens) hl"
    using construct_usable[OF ok(1)] by metis
  obtain r' hd where r': "construct (dynDist st) (drop k lens) = Inr (r', hd)"
    "r' \<noteq> 0 \<and> (r' < 0 \<or> countNonzero (drop k lens) \<noteq> 1) \<longleftrightarrow> \<not> usable (drop k lens)" "0 \<le> r' \<Longrightarrow> table (drop k lens) hd"
    using construct_usable[OF ok(2)] by metis
  have st: "st_rel data m z (st\<lparr>ibr := b5, dynLen := hl, dynDist := hd\<rparr>) (xs5, out)"
    using rel b by (simp add: st_rel_def fixed_ok_def)
  have "table (take k lens) hl" if "usable (take k lens)" using r(2,3) that by force
  moreover have "table (drop k lens) hd" if "usable (drop k lens)" using r'(2,3) that by force
  ultimately show ?thesis
    unfolding arr_in_range(3,4)[OF k] ebind_simps r(1) r'(1) prod.case r(2) r'(2) using st by (simp add: tables_rel_def)
qed

lemma dynamicTables_refines:
  assumes rel: "st_rel data m z st (xs, out)"
  shows "agree (tables_rel data m z out) (dynamicTables st) (ref_tables xs)"
  unfolding dynamicTables_def ref_tables_def Let_def
  apply (rule agree_bind2[OF bits_refines[OF st_rel_br[OF rel]]], simp)
  apply (simp only: prod.case)
  apply (rule agree_bind2[OF bits_refines], assumption, simp)
  apply (simp only: prod.case)
  apply (rule agree_bind2[OF bits_refines], assumption, simp)
  apply (simp only: prod.case)
  apply (rule agree_if[OF refl agree_error])
  subgoal for n1 b1 xs1 n2 b2 xs2 n3 b3 xs3
  apply (rule agree_bind2[OF read_cl_refines[of data b3 xs3 0 "n3 + 4", unfolded drop_0]], assumption)
  subgoal using ref_bits_less[of 4 xs2 n3 xs3] by simp
  subgoal by simp
  apply (simp only: prod.case)
  subgoal for cl b4 xs4
  proof -
    assume b4: "br_rel data b4 xs4" and cl: "ref_cl (take (n3 + 4) codeLengthOrder) (replicate 19 0) xs3 = Inr (cl, xs4)"
    have "lens_ok cl" using ref_cl_ok[OF cl] by (simp add: lens_ok_def)
    then obtain left h where h: "construct new_huffman cl = Inr (left, h)" "left = 0 \<longleftrightarrow> ref_left cl = 0" "0 \<le> left \<Longrightarrow> table cl h"
      using construct_usable by metis
    let ?n = "n1 + 257 + (n2 + 1)"
    have start: "lens_rel data ?n (replicate ?n 0, 0, b4) ([], xs4)" using b4 by (simp add: lens_rel_def)
    show ?thesis
      unfolding h(1) ebind_simps prod.case
    proof (rule agree_if)
      assume "\<not> ref_left cl \<noteq> 0"
      then have tab: "table cl h" using h by simp
      show "agree (tables_rel data m z out)
        (ebind (read_lengths h (replicate ?n 0) 0 b4) (\<lambda>(lengths, b5).
           ebind (arr_get lengths 256) (\<lambda>eob.
           if eob = 0 then Inl ZMissingEndOfBlock
           else
             ebind (arr_prefix lengths (n1 + 257)) (\<lambda>litLengths.
             ebind (construct (dynLen st) litLengths) (\<lambda>(r, hl).
                   if r \<noteq> 0 \<and> (r < 0 \<or> countNonzero litLengths \<noteq> 1) then Inl ZLiteralCode
                   else
                     ebind (arr_suffix lengths (n1 + 257)) (\<lambda>distLengths.
                     ebind (construct (dynDist st) distLengths) (\<lambda>(r', hds).
                       if r' \<noteq> 0 \<and> (r' < 0 \<or> countNonzero distLengths \<noteq> 1) then Inl ZDistanceCode
                       else Inr ((hl, hds), st\<lparr>ibr := b5, dynLen := hl, dynDist := hds\<rparr>))))))))
        (ebind (ref_lengths cl ?n [] xs4) (\<lambda>(lens, xs5).
           if lens ! 256 = 0 then Inl ZMissingEndOfBlock
           else if \<not> usable (take (n1 + 257) lens) then Inl ZLiteralCode
           else if \<not> usable (drop (n1 + 257) lens) then Inl ZDistanceCode
           else Inr ((take (n1 + 257) lens, drop (n1 + 257) lens), xs5)))"
        apply (rule agree_bind2[OF read_lengths_refines[OF tab start]])
        subgoal for lengths b5 xs5
          using ref_lengths_ok[of cl ?n "[]" xs4 lengths xs5] build_tables_refines[OF rel, of b5 xs5 lengths "n1 + 257"]
          by (simp add: lens_ok_def)
        done
    qed (use h in simp_all)
  qed
  done
  done


section \<open>Stored blocks\<close>

lemma word16_eq: "word16 lo hi = uint lo + 256 * uint hi"
proof -
  have "uint lo OR push_bit 8 (uint hi) = uint lo + push_bit 8 (uint hi)"
    by (rule disjunctive_add_eq_or[symmetric], rule bit_eqI) (auto simp: bit_simps dest: bit_imp_le_length)
  then show ?thesis by (simp add: word16_def push_bit_eq_mult)
qed

lemma nat_word16: "nat (word16 lo hi) = unat lo + 256 * unat hi"
proof -
  have "word16 lo hi = int (unat lo + 256 * unat hi)" by (simp add: word16_eq)
  then show ?thesis by (simp only: nat_int)
qed

lemma stored_check: "word16 lo hi \<noteq> NOT (word16 nlo nhi) AND 0xffff \<longleftrightarrow> nlo \<noteq> NOT lo \<or> nhi \<noteq> NOT hi"
proof -
  have lt: "0 \<le> uint x" "uint x < 256" for x :: byte
    using uint_bounded[of x] by simp_all
  have compl: "(- k - 1) mod n = n - 1 - k" if "0 \<le> k" "k < n" for k n :: int
    using that mod_pos_pos_trivial[of "n - 1 - k" n] mod_add_self2[of "- k - 1" n] by (simp add: algebra_simps)
  have not: "uint (NOT x) = 255 - uint x" for x :: byte
    using compl[OF lt[of x]] by (simp add: unsigned_not_eq take_bit_eq_mod not_int_def)
  have mask: "NOT k AND 0xffff = 65535 - k" if "0 \<le> k" "k < 65536" for k :: int
    using compl[OF that] take_bit_eq_mask[of 16 "NOT k"]
    by (simp add: mask_eq_exp_minus_1 take_bit_eq_mod not_int_def)
  have "word16 lo hi = NOT (word16 nlo nhi) AND 0xffff \<longleftrightarrow>
      uint lo + 256 * uint hi = 65535 - (uint nlo + 256 * uint nhi)"
    using lt[of nlo] lt[of nhi] by (subst mask) (auto simp: word16_eq)
  also have "\<dots> \<longleftrightarrow> uint nlo = uint (NOT lo) \<and> uint nhi = uint (NOT hi)"
    unfolding not
  proof
    assume eq: "uint lo + 256 * uint hi = 65535 - (uint nlo + 256 * uint nhi)"
    then have "uint hi + uint nhi = 255" using lt[of nlo] lt[of lo] by linarith
    with eq show "uint nlo = 255 - uint lo \<and> uint nhi = 255 - uint hi" by linarith
  qed linarith
  finally show ?thesis by (auto simp: word_uint_eq_iff)
qed

definition byte_rel :: "bytes \<Rightarrow> bitReader \<Rightarrow> bool list \<Rightarrow> bool" where
  "byte_rel data b xs \<longleftrightarrow> br_rel data b xs \<and> 8 dvd length xs"

lemma byte_refines:
  assumes "byte_rel data b xs"
  shows "agree (rel_prod (=) (byte_rel data)) (readByte b) (ref_byte xs)"
  using readByte_refines[of data b xs] assms
  by (cases "readByte b"; cases "ref_byte xs") (auto simp: byte_rel_def dest: ref_byte_dvd)

lemma align_byte: "br_rel data b xs \<Longrightarrow> byte_rel data (align b) (ref_align xs)"
  by (simp add: byte_rel_def align_refines ref_align_dvd)

lemma copy_stored_refines:
  "st_rel data m z st (xs, out) \<Longrightarrow> 8 dvd length xs \<Longrightarrow> agree (st_rel data m z) (copy_stored n st) (ref_copy n xs out)"
proof (induction n arbitrary: st xs out)
  case (Suc n)
  have b: "byte_rel data (ibr st) xs" using Suc.prems st_rel_br by (auto simp: byte_rel_def)
  show ?case
    unfolding copy_stored.simps ref_copy.simps
  proof (rule agree_bind2[OF byte_refines[OF b]], simp only: prod.case)
    fix x b1 xs1 assume b1: "byte_rel data b1 xs1"
    obtain st1 where "emit_byte x (st\<lparr>ibr := b1\<rparr>) = Inr st1" "st_rel data m z st1 (xs1, out @ [x])"
      using emit_refines[OF st_rel_upd[OF Suc.prems(1), of b1 xs1], of x] b1 unfolding byte_rel_def by blast
    with Suc.IH b1 show "agree (st_rel data m z) (ebind (emit_byte x (st\<lparr>ibr := b1\<rparr>)) (\<lambda>st'. copy_stored n st')) (ref_copy n xs1 (out @ [x]))"
      by (simp add: byte_rel_def)
  qed
qed simp

lemma stored_refines:
  assumes rel: "st_rel data m z st (xs, out)"
  shows "agree (st_rel data m z) (stored st) (ref_stored xs out)"
  unfolding stored_def ref_stored_def
  apply (rule agree_bind2[OF byte_refines[OF align_byte[OF st_rel_br[OF rel]]]])
  apply (simp only: prod.case)
  apply (rule agree_bind2[OF byte_refines], assumption)
  apply (simp only: prod.case)
  apply (rule agree_bind2[OF byte_refines], assumption)
  apply (simp only: prod.case)
  apply (rule agree_bind2[OF byte_refines], assumption)
  apply (simp only: prod.case)
  apply (rule agree_if[OF stored_check agree_error])
  using copy_stored_refines[OF st_rel_upd[OF rel]] by (simp add: nat_word16 byte_rel_def)

section \<open>Blocks\<close>

lemma block_body_refines:
  assumes rel: "st_rel data m z st (xs, out)"
  shows "agree (st_rel data m z) (block_body btype st) (ref_block btype m xs out)"
proof -
  obtain st' hl hd where fx: "fixedTables st = Inr st'" "st_rel data m z st' (xs, out)" "fixedLen st' = Some hl"
    "fixedDist st' = Some hd" "table fixedLitLengths hl" "table fixedDistLengths hd"
    by (rule fixedTables_refines[OF rel])
  have "agree (st_rel data m z) (ebind (fixedTables st) codes) (ref_codes fixedLitLengths fixedDistLengths m xs out)"
    using codes2_refines[OF fx(5,6,2)] fx by (simp add: codes_def)
  moreover have "agree (st_rel data m z) (ebind (dynamicTables st) (\<lambda>((lc, dc), st'). codes2 lc dc st'))
      (ebind (ref_tables xs) (\<lambda>((lit, dist), xs1). ref_codes lit dist m xs1 out))"
    by (rule agree_bind[OF dynamicTables_refines[OF rel]])
      (auto simp: tables_rel_def intro: codes2_refines)
  ultimately show ?thesis
    using stored_refines[OF rel] by (simp add: block_body_def ref_block_def)
qed

section \<open>Gzip framing\<close>

lemma agree_bind1:
  assumes "agree R m m'" "\<And>b xs. R b xs \<Longrightarrow> agree S (f b) (f' xs)"
  shows "agree S (ebind m f) (ebind m' f')"
  using assms by (rule agree_bind)

lemma skip_refines: "byte_rel data b xs \<Longrightarrow> agree (byte_rel data) (skip_bytes n b) (ref_skip n xs)"
proof (induction n arbitrary: b xs)
  case (Suc n)
  show ?case
    unfolding skip_bytes.simps ref_skip.simps
    by (rule agree_bind2[OF byte_refines[OF Suc.prems]]) (simp add: Suc.IH)
qed simp

lemma cstring_refines: "byte_rel data b xs \<Longrightarrow> agree (byte_rel data) (skipCString b) (ref_cstring xs)"
proof (induction "length xs" arbitrary: b xs rule: less_induct)
  case less
  show ?case
    unfolding skipCString.simps[of b] ref_cstring.simps[of xs]
    by (rule agree_bind2[OF byte_refines[OF less.prems]]) (auto intro!: less.hyps dest: ref_byte_length)
qed

lemma extra_refines: "byte_rel data b xs \<Longrightarrow> agree (byte_rel data) (skip_extra b) (ref_extra xs)"
  unfolding skip_extra_def ref_extra_def
  apply (rule agree_bind2[OF byte_refines], assumption)
  apply (simp only: prod.case)
  apply (rule agree_bind2[OF byte_refines], assumption)
  by (simp add: nat_word16 skip_refines)

lemma agree_option: "R b xs \<Longrightarrow> agree R m m' \<Longrightarrow> agree R (if c then m else Inr b) (if c then m' else Inr xs)"
  by simp

lemma header_refines: "byte_rel data b xs \<Longrightarrow> agree (byte_rel data) (readGzipHeader b) (ref_header xs)"
  unfolding readGzipHeader_def ref_header_def
  apply (rule agree_bind2[OF byte_refines], assumption)
  apply (simp only: prod.case)
  apply (rule agree_bind2[OF byte_refines], assumption)
  apply (simp only: prod.case)
  apply (rule agree_if[OF refl agree_error])
  apply (rule agree_bind2[OF byte_refines], assumption)
  apply (simp only: prod.case)
  apply (rule agree_if[OF refl agree_error])
  apply (rule agree_bind2[OF byte_refines], assumption)
  apply (simp only: prod.case)
  apply (rule agree_bind1[OF skip_refines], assumption)
  apply (rule agree_bind1[OF agree_option[OF _ extra_refines]], assumption, assumption)
  apply (rule agree_bind1[OF agree_option[OF _ cstring_refines]], assumption, assumption)
  apply (rule agree_bind1[OF agree_option[OF _ cstring_refines]], assumption, assumption)
  by (rule agree_option[OF _ skip_refines])

lemma le_step_take:
  fixes v :: u32 and x :: byte
  assumes "take_bit (8 * i) v = v"
  shows "take_bit (8 * (i + 1)) (v OR push_bit (8 * i) (ucast x)) = v OR push_bit (8 * i) (ucast x)"
proof (rule bit_eqI)
  fix j
  have "bit v j \<Longrightarrow> j < 8 * (i + 1)" using assms bit_take_bit_iff[of "8 * i" v j] by auto
  moreover have "bit x (j - 8 * i) \<Longrightarrow> j < 8 * (i + 1)" using bit_imp_le_length[of x "j - 8 * i"] by simp
  ultimately show "bit (take_bit (8 * (i + 1)) (v OR push_bit (8 * i) (ucast x))) j = bit (v OR push_bit (8 * i) (ucast x)) j"
    by (auto simp only: bit_take_bit_iff bit_or_iff bit_push_bit_iff bit_ucast_iff)
qed

lemma le_step_value: "(v OR push_bit (8 * i) (ucast x)) OR push_bit (8 * (i + 1)) k =
  v OR push_bit (8 * i) (ucast x + 256 * k)" for v k :: u32 and x :: byte
proof -
  have "ucast x AND push_bit 8 k = 0"
    by (rule bit_eqI) (auto simp: bit_and_iff bit_push_bit_iff bit_ucast_iff dest: bit_imp_le_length)
  then have "ucast x + push_bit 8 k = ucast x OR push_bit 8 k" by (rule disjunctive_add_eq_or)
  moreover have "256 * k = push_bit 8 k" by (simp add: push_bit_eq_mult mult.commute)
  ultimately show ?thesis
    by (simp only: push_bit_or push_bit_push_bit or.assoc distrib_left mult_1_right)
qed

definition le_rel :: "bytes \<Rightarrow> nat \<Rightarrow> u32 \<Rightarrow> u32 \<times> bitReader \<Rightarrow> u32 \<times> bool list \<Rightarrow> bool" where
  "le_rel data i v p q \<longleftrightarrow> fst p = v OR push_bit (8 * i) (fst q) \<and> byte_rel data (snd p) (snd q)"

lemma read_le_refines:
  "byte_rel data b xs \<Longrightarrow> i + n \<le> 4 \<Longrightarrow> take_bit (8 * i) v = v \<Longrightarrow>
   agree (le_rel data i v) (read_le n i v b) (ref_le n xs)"
proof (induction n arbitrary: i v b xs)
  case (Suc n)
  show ?case
    unfolding read_le.simps ref_le.simps
  proof (rule agree_bind2[OF byte_refines[OF Suc.prems(1)]], simp only: prod.case)
    fix x :: byte and b1 xs1 assume b1: "byte_rel data b1 xs1"
    have "i + 1 + n \<le> 4" using Suc.prems(2) by simp
    from Suc.IH[OF b1 this le_step_take[OF Suc.prems(3), of x]]
    show "agree (le_rel data i v) (read_le n (i + 1) (v OR push_bit (8 * i) (ucast x)) b1)
      (ebind (ref_le n xs1) (\<lambda>(v, xs2). Inr (ucast x + 256 * v, xs2)))"
      using le_step_value[of v i x]
      by (cases "ref_le n xs1"; cases "read_le n (i + 1) (v OR push_bit (8 * i) (ucast x)) b1") (auto simp: le_rel_def)
  qed
qed (simp add: le_rel_def)

lemma trailer_refines:
  assumes rel: "st_rel data m z st (xs, out)"
  shows "agree (\<lambda>st' ys. st_rel data m z st' (ys, out) \<and> 8 dvd length ys) (readGzipTrailer st) (ref_trailer (drop m out) xs)"
proof -
  have crc: "icrc st = ref_crc (drop m out)" "memberLen st = of_nat (length (drop m out))"
    using rel by (simp_all add: st_rel_def)
  show ?thesis
    unfolding readGzipTrailer_def ref_trailer_def crc
    apply (rule agree_bind_eq[OF read_le_refines[OF align_byte[OF st_rel_br[OF rel]]]], simp, simp)
    apply (clarsimp simp: le_rel_def split del: if_split)
    apply (rule agree_bind_eq[OF read_le_refines], assumption, simp, simp)
    apply (clarsimp simp: le_rel_def split del: if_split)
    apply (rule agree_if[OF refl], simp)
    apply (rule agree_if[OF refl], simp)
    using st_rel_upd[OF rel] by (simp add: byte_rel_def)
qed

section \<open>Boundaries\<close>

text \<open>The relation between members, when the checksum and the length of the last one are spent.\<close>

definition start_rel :: "bytes \<Rightarrow> 'z \<Rightarrow> 'z inflater \<Rightarrow> bool list \<times> bytes \<Rightarrow> bool" where
  "start_rel data z st = (\<lambda>(xs, out).
     br_rel data (ibr st) xs \<and> win_rel (iwin st) out \<and> itotal st = length out \<and> fixed_ok st \<and> zstate st = z)"

lemma st_rel_start: "st_rel data m z st (xs, out) \<Longrightarrow> start_rel data z st (xs, out)"
  by (simp add: st_rel_def start_rel_def)

text \<open>
  What a callback at block boundaries has to keep: a relation \<open>Z\<close> between what it has recorded and the
  boundaries passed, given a state of the inflater that is related to the reference.
\<close>

locale boundary_observer =
  fixes onB :: "('z inflater \<Rightarrow> zerr + 'z) option" and Z :: "'z \<Rightarrow> boundary list \<Rightarrow> bool" and data :: bytes
  assumes observe: "st_rel data m z st (xs, out) \<Longrightarrow> Z z tr \<Longrightarrow>
    \<exists>z'. at_boundary onB st = Inr (st\<lparr>zstate := z'\<rparr>) \<and> Z z' (tr @ [(xs, out, m)])"
begin

definition obs_rel :: "nat \<Rightarrow> 'z inflater \<Rightarrow> bool list \<times> bytes \<times> boundary list \<Rightarrow> bool" where
  "obs_rel m st = (\<lambda>(xs, out, tr). \<exists>z. st_rel data m z st (xs, out) \<and> Z z tr)"

lemma st_rel_zstate: "st_rel data m z st (xs, out) \<Longrightarrow> st_rel data m z' (st\<lparr>zstate := z'\<rparr>) (xs, out)"
  by (simp add: st_rel_def fixed_ok_def)

lemma blocks_refines:
  "obs_rel m st (xs, out, tr) \<Longrightarrow> agree (obs_rel m) (inflateBlocks onB st) (ref_blocks m xs out tr)"
proof (induction "length xs" arbitrary: st xs out tr rule: less_induct)
  case less
  then obtain z where rel: "st_rel data m z st (xs, out)" and Z: "Z z tr" by (auto simp: obs_rel_def)
  let ?tr = "tr @ [(xs, out, m)]"
  obtain z1 where at: "at_boundary onB st = Inr (st\<lparr>zstate := z1\<rparr>)" and Z1: "Z z1 ?tr" using observe[OF rel Z] by blast
  have rel1: "st_rel data m z1 (st\<lparr>zstate := z1\<rparr>) (xs, out)" by (rule st_rel_zstate[OF rel])
  show ?case
    unfolding inflateBlocks.simps[of onB st] ref_blocks.simps[of m xs] at ebind_simps
    apply (rule agree_bind2[OF bits_refines[OF st_rel_br[OF rel1]]], simp)
    apply (simp only: prod.case)
    apply (rule agree_bind2[OF bits_refines], assumption, simp)
    apply (simp only: prod.case)
    subgoal for lst b1 xs1 btype b2 xs2
      apply (rule agree_bind_eq[OF block_body_refines[OF st_rel_upd[OF rel1]]], assumption)
      subgoal for st' p
        using less.hyps[of "fst p" st' "snd p" ?tr] Z1
        by (cases p) (fastforce simp: obs_rel_def dest: ref_bits_length ref_block_length)
      done
    done
qed

lemma run_refines:
  "start_rel data z st (xs, out) \<Longrightarrow> 8 dvd length xs \<Longrightarrow> Z z tr \<Longrightarrow>
   agree (\<lambda>st' q. \<exists>m. obs_rel m st' q) (run onB st) (ref_gunzip xs out tr)"
proof (induction "length xs" arbitrary: z st xs out tr rule: less_induct)
  case less
  have b: "byte_rel data (ibr st) xs" using less.prems by (auto simp: byte_rel_def start_rel_def)
  have tot: "itotal st = length out" using less.prems by (simp add: start_rel_def)
  show ?case
    unfolding run.simps[of onB st] ref_gunzip.simps[of xs]
  proof (rule agree_bind_eq[OF header_refines[OF b]])
    fix b1 xs1 assume h: "ref_header xs = Inr xs1" and b1: "byte_rel data b1 xs1"
    have "obs_rel (length out) (member_start st b1) (xs1, out, tr)"
      using less.prems b1 tot by (auto simp: obs_rel_def st_rel_def start_rel_def member_start_def byte_rel_def fixed_ok_def)
    note blocks = blocks_refines[OF this]
    show "agree (\<lambda>st' q. \<exists>m. obs_rel m st' q)
      (ebind (inflateBlocks onB (member_start st b1)) (\<lambda>st1. ebind (readGzipTrailer st1) (\<lambda>st2.
         if eof (ibr st2) then Inr st2 else run onB st2)))
      (ebind (ref_blocks (length out) xs1 out tr) (\<lambda>(xs2, out1, tr1). ebind (ref_trailer (drop (length out) out1) xs2) (\<lambda>xs3.
         if xs3 = [] then Inr (xs3, out1, tr1) else ref_gunzip xs3 out1 tr1)))"
    proof (rule agree_bind_eq[OF blocks])
      fix st1 q assume q: "ref_blocks (length out) xs1 out tr = Inr q" and "obs_rel (length out) st1 q"
      then obtain xs2 out1 tr1 z1 where q': "q = (xs2, out1, tr1)" and rel1: "st_rel data (length out) z1 st1 (xs2, out1)" "Z z1 tr1"
        by (cases q) (auto simp: obs_rel_def)
      have lt: "length xs2 < length xs"
        using ref_blocks_length[OF q[unfolded q']] ref_header_length[OF h] by linarith
      have "agree (\<lambda>st' q. \<exists>m. obs_rel m st' q)
        (ebind (readGzipTrailer st1) (\<lambda>st2. if eof (ibr st2) then Inr st2 else run onB st2))
        (ebind (ref_trailer (drop (length out) out1) xs2) (\<lambda>xs3.
           if xs3 = [] then Inr (xs3, out1, tr1) else ref_gunzip xs3 out1 tr1))"
      proof (intro agree_bind_eq[OF trailer_refines[OF rel1(1)]] agree_if)
        fix st2 xs3
        assume t: "ref_trailer (drop (length out) out1) xs2 = Inr xs3"
          and rel2: "st_rel data (length out) z1 st2 (xs3, out1) \<and> 8 dvd length xs3"
        show "eof (ibr st2) = (xs3 = [])" by (rule eof_refines[OF st_rel_br[OF conjunct1[OF rel2]]])
        show "agree (\<lambda>st' q. \<exists>m. obs_rel m st' q) (Inr st2) (Inr (xs3, out1, tr1))"
          using rel2 rel1(2) by (auto simp: obs_rel_def)
        have lt3: "length xs3 < length xs" using lt ref_trailer_length[OF t] by linarith
        show "agree (\<lambda>st' q. \<exists>m. obs_rel m st' q) (run onB st2) (ref_gunzip xs3 out1 tr1)"
          by (rule less.hyps[OF lt3 st_rel_start[OF conjunct1[OF rel2]] conjunct2[OF rel2] rel1(2)])
      qed
      then show "agree (\<lambda>st' q. \<exists>m. obs_rel m st' q)
        (ebind (readGzipTrailer st1) (\<lambda>st2. if eof (ibr st2) then Inr st2 else run onB st2))
        (case q of (xs2, out1, tr1) \<Rightarrow> ebind (ref_trailer (drop (length out) out1) xs2) (\<lambda>xs3.
           if xs3 = [] then Inr (xs3, out1, tr1) else ref_gunzip xs3 out1 tr1))"
        by (simp add: q')
    qed
  qed
qed

end

end
