(* ===== verification/Zinfo.thy ===== *)
theory Zinfo
  imports Inflate_Sim
begin

text \<open>
  \<^verbatim>\<open>pkg/ztoc/zinfo.go\<close> and \<^verbatim>\<open>build.go\<close>: the index of a gzip file.  While the file is inflated, the callback
  records a checkpoint at block boundaries that are far enough apart.  The callback meets the contract of
  boundary observers, so that the checkpoints are those selected from the reference decoder's boundaries.
\<close>

section \<open>Checkpoints\<close>

record checkpoint =
  cpIn :: int
  cpOut :: nat
  cpBits :: u8
  cpWindow :: bytes

record zinfo =
  checkpoints :: "checkpoint list"
  spanSize :: int

type_synonym recorder = "checkpoint list \<times> nat"

text \<open>The callback: the checkpoints so far and the output offset of the last one.\<close>

definition record_boundary :: "int \<Rightarrow> recorder inflater \<Rightarrow> zerr + recorder" where
  "record_boundary span st =
     (case zstate st of (cps, lst) \<Rightarrow>
       if itotal st \<noteq> 0 \<and> int (itotal st) - int lst \<le> span then Inr (cps, lst)
       else
         case offset (ibr st) of (off, bts) \<Rightarrow>
           ebind (snapshot (itotal st) (iwin st)) (\<lambda>win.
             Inr (cps @ [\<lparr>cpIn = off, cpOut = itotal st, cpBits = bts, cpWindow = win\<rparr>], itotal st)))"

definition new_inflater :: "bytes \<Rightarrow> 'z \<Rightarrow> 'z inflater" where
  "new_inflater data z =
     \<lparr>ibr = \<lparr>brIn = data, incnt = 0, hold = 0, nbits = 0\<rparr>, iwin = new_window, itotal = 0, memberStart = 0,
      icrc = 0, memberLen = 0, fixedLen = None, fixedDist = None, dynLen = new_huffman, dynDist = new_huffman, zstate = z\<rparr>"

definition buildGzipZinfo :: "bytes \<Rightarrow> int \<Rightarrow> zerr + zinfo" where
  "buildGzipZinfo data span =
     ebind (run (Some (record_boundary span)) (new_inflater data ([], 0))) (\<lambda>st.
       if fst (zstate st) = [] then Inl ZNoCheckpoints
       else Inr \<lparr>checkpoints = fst (zstate st), spanSize = span\<rparr>)"

definition maxSpanID :: "zinfo \<Rightarrow> int" where
  "maxSpanID z = int (length (checkpoints z)) - 1"

text \<open>The compressed bytes of span \<open>i\<close>; SHA-256 is the argument \<open>H\<close>.\<close>

definition span_start :: "checkpoint \<Rightarrow> int" where
  "span_start cp = (if cpBits cp \<noteq> 0 then cpIn cp - 1 else cpIn cp)"

fun span_digests :: "(bytes \<Rightarrow> 'd) \<Rightarrow> bytes \<Rightarrow> int \<Rightarrow> nat \<Rightarrow> checkpoint list \<Rightarrow> zerr + 'd list" where
  "span_digests H data sz i [] = Inr []"
| "span_digests H data sz i (cp # cps) =
     (let start = span_start cp;
          fin = (case cps of [] \<Rightarrow> sz | cp' # _ \<Rightarrow> cpIn cp')
      in if start < 0 \<or> fin > int (length data) \<or> start > fin then Inl (ZSpanRange i)
         else ebind (span_digests H data sz (i + 1) cps) (\<lambda>ds. Inr (H (slice (nat start) (nat fin) data) # ds)))"

definition spanDigests :: "(bytes \<Rightarrow> 'd) \<Rightarrow> zinfo \<Rightarrow> bytes \<Rightarrow> int \<Rightarrow> zerr + 'd list" where
  "spanDigests H z data sz = span_digests H data sz 0 (checkpoints z)"

section \<open>Little-endian serialisation\<close>

definition le_bytes :: "nat \<Rightarrow> nat \<Rightarrow> bytes" where
  "le_bytes n v = rev (be_bytes n v)"

definition pack_checkpoint :: "checkpoint \<Rightarrow> bytes" where
  "pack_checkpoint cp =
     le_bytes 8 (unat (of_int (cpIn cp) :: u64)) @ le_bytes 8 (cpOut cp) @ [cpBits cp] @ cpWindow cp"

definition marshalCheckpoints :: "zinfo \<Rightarrow> bytes" where
  "marshalCheckpoints z =
     le_bytes 4 (length (checkpoints z)) @ le_bytes 8 (unat (of_int (spanSize z) :: u64)) @
     concat (map pack_checkpoint (checkpoints z))"

section \<open>The observer\<close>

text \<open>The checkpoint of a boundary, in terms of the bits that remain and the output so far.\<close>

definition ref_checkpoint :: "bytes \<Rightarrow> boundary \<Rightarrow> checkpoint" where
  "ref_checkpoint data = (\<lambda>(xs, out, m).
     \<lparr>cpIn = int (length data - length xs div 8), cpOut = length out, cpBits = of_nat (length xs mod 8), cpWindow = ref_window out\<rparr>)"

definition ref_select :: "bytes \<Rightarrow> int \<Rightarrow> recorder \<Rightarrow> boundary \<Rightarrow> recorder" where
  "ref_select data span = (\<lambda>(cps, lst) (xs, out, m).
     if out \<noteq> [] \<and> int (length out) - int lst \<le> span then (cps, lst)
     else (cps @ [ref_checkpoint data (xs, out, m)], length out))"

definition ref_recorder :: "bytes \<Rightarrow> int \<Rightarrow> boundary list \<Rightarrow> recorder" where
  "ref_recorder data span tr = foldl (ref_select data span) ([], 0) tr"

lemma offset_ref:
  assumes "br_rel data b xs"
  shows "offset b = (int (length data - length xs div 8), of_nat (length xs mod 8))"
proof -
  have ok: "br_ok b" and nb: "nbits b < 8" and data: "brIn b = data" and xs: "xs = left_bits b"
    using assms by (simp_all add: br_rel_def)
  have "length xs = nbits b + 8 * (length data - incnt b)" using length_left_bits[OF ok] data xs by simp
  then have "length xs div 8 = length data - incnt b" "length xs mod 8 = nbits b" using nb by simp_all
  moreover have "incnt b \<le> length data" using ok data by (simp add: br_ok_def)
  moreover have "drop_bit 3 (nbits b) = 0" using nb by (simp add: drop_bit_eq_div)
  moreover have "nbits b AND 7 = nbits b"
    using nb take_bit_nat_eq_self[of "nbits b" 3] by (simp add: take_bit_eq_mask mask_eq_exp_minus_1)
  ultimately show ?thesis by (simp add: offset_def)
qed

lemma record_boundary_ref:
  assumes "st_rel data m z st (xs, out)"
  shows "record_boundary span st = Inr (ref_select data span z (xs, out, m))"
  using assms offset_ref[of data "ibr st" xs] snapshot_refines[of "iwin st" out]
  by (cases z) (auto simp: record_boundary_def ref_select_def ref_checkpoint_def st_rel_def)

definition boundary_ok :: "bytes \<Rightarrow> boundary \<Rightarrow> bool" where
  "boundary_ok data = (\<lambda>(xs, out, m). (\<exists>n. xs = drop n (all_bits data)) \<and> m \<le> length out)"

lemma boundary_ok_rel: "st_rel data m z st (xs, out) \<Longrightarrow> boundary_ok data (xs, out, m)"
  by (auto simp: boundary_ok_def st_rel_def br_rel_def)

interpretation zrec: boundary_observer "Some (record_boundary span)"
    "\<lambda>z tr. z = ref_recorder data span tr \<and> (\<forall>p\<in>set tr. boundary_ok data p)" data
proof unfold_locales
  fix m z st xs out tr
  assume rel: "st_rel data m z st (xs, out)" and z: "z = ref_recorder data span tr \<and> (\<forall>p\<in>set tr. boundary_ok data p)"
  let ?z = "ref_select data span z (xs, out, m)"
  have "at_boundary (Some (record_boundary span)) st = Inr (st\<lparr>zstate := ?z\<rparr>)"
    by (simp add: at_boundary_def record_boundary_ref[OF rel])
  moreover have "?z = ref_recorder data span (tr @ [(xs, out, m)])" using z by (simp add: ref_recorder_def)
  ultimately show "\<exists>z'. at_boundary (Some (record_boundary span)) st = Inr (st\<lparr>zstate := z'\<rparr>) \<and>
      z' = ref_recorder data span (tr @ [(xs, out, m)]) \<and> (\<forall>p\<in>set (tr @ [(xs, out, m)]). boundary_ok data p)"
    using z boundary_ok_rel[OF rel] by (intro exI[of _ ?z]) simp
qed

lemma new_inflater_rel: "start_rel data z (new_inflater data z) (all_bits data, [])"
  by (simp add: start_rel_def new_inflater_def br_rel_init win_rel_new fixed_ok_def)

lemma run_agrees:
  "agree (\<lambda>st' q. \<exists>m. zrec.obs_rel data span m st' q)
     (run (Some (record_boundary span)) (new_inflater data ([], 0))) (ref_gunzip (all_bits data) [] [])"
  by (rule zrec.run_refines[OF new_inflater_rel]) (simp_all add: ref_recorder_def)

text \<open>The build fails as the reference decoder does, and otherwise has the selected checkpoints.\<close>

lemma buildGzipZinfo_ref:
  "buildGzipZinfo data span =
   ebind (ref_gunzip (all_bits data) [] []) (\<lambda>(_, _, tr).
     if fst (ref_recorder data span tr) = [] then Inl ZNoCheckpoints
     else Inr \<lparr>checkpoints = fst (ref_recorder data span tr), spanSize = span\<rparr>)"
  unfolding buildGzipZinfo_def using run_agrees[of data span]
  by (cases "run (Some (record_boundary span)) (new_inflater data ([], 0))"; cases "ref_gunzip (all_bits data) [] []")
    (auto simp: zrec.obs_rel_def st_rel_def)

lemma boundaries_ok:
  "ref_gunzip (all_bits data) [] [] = Inr (zs, out, tr) \<Longrightarrow> p \<in> set tr \<Longrightarrow> boundary_ok data p"
  using run_agrees[of data 0]
  by (cases "run (Some (record_boundary 0)) (new_inflater data ([], 0))") (auto simp: zrec.obs_rel_def)

end
