(* ===== verification/Ztoc.thy ===== *)
theory Ztoc
  imports Flatbuffer Zinfo Tar_Header
begin

text \<open>
  \<^verbatim>\<open>pkg/ztoc/ztoc.go\<close>, \<^verbatim>\<open>toc.go\<close>, \<^verbatim>\<open>build.go\<close> and \<^verbatim>\<open>marshal.go\<close>: the seekable table of contents of a gzip layer,
  how it is built from the layer, and its FlatBuffer form.  The readers of \<^verbatim>\<open>compress/gzip\<close> and
  \<^verbatim>\<open>archive/tar\<close>, the text form of a time, \<^verbatim>\<open>sort.Slice\<close> and SHA-256 are fields of the record \<open>ztocLib\<close>.
  Strings are byte sequences and 64-bit integers are \<open>int\<close>, with \<open>i64\<close> where the code can wrap around.
\<close>

section \<open>Types\<close>

datatype ztocErr =
    ZtSpanSize int | ZtNegativeSize int | ZtOpen | ZtRead | ZtInflate zerr | ZtGzip | ZtTarHeader | ZtEntryType byte string
  | ZtAlgorithm string | ZtBadFlatbuffer | ZtRecovered | ZtOrdering | ZtPanic

definition Version09 :: string where "Version09 = ''0.9''"
definition CompressionGzip :: string where "CompressionGzip = ''gzip''"
definition CompressionUncompressed :: string where "CompressionUncompressed = ''uncompressed''"
definition DefaultSpanSize :: int where "DefaultSpanSize = push_bit 22 1"
definition DefaultBuildToolIdentifier :: string where "DefaultBuildToolIdentifier = ''rules_img ztoc (pure Go)''"

record fileMetadata =
  fmName :: string
  fmType :: string
  fmUncompressedOffset :: int
  fmUncompressedSize :: int
  fmTarHeaderOffset :: int
  fmLinkname :: string
  fmMode :: int
  fmUID :: int
  fmGID :: int
  fmUname :: string
  fmGname :: string
  fmModTime :: gotime
  fmDevmajor :: int
  fmDevminor :: int
  fmPAXHeaders :: "(string, string) gomap option"

record compressionInfo =
  ciMaxSpanID :: int
  ciSpanDigests :: "string list"
  ciCheckpoints :: bytes
  ciAlgorithm :: string

record ztoc =
  zTOC :: "fileMetadata list"
  zCompressionInfo :: compressionInfo
  zVersion :: string
  zBuildTool :: string
  zCompressedSize :: int
  zUncompressedSize :: int

text \<open>
  What a pass of \<^verbatim>\<open>tar.Reader.Next\<close> over a stream yields: each header with the number of bytes read through
  the counting reader when it is returned, whether the last error is \<^verbatim>\<open>io.EOF\<close>, and the final count.
\<close>

record tarScan =
  tsHeaders :: "(tarHeader \<times> int) list"
  tsEOF :: bool
  tsFinal :: int

record ztocLib =
  gzipTarScan :: "bytes \<Rightarrow> tarScan option"
  marshalText :: "gotime \<Rightarrow> bytes"
  unmarshalText :: "bytes \<Rightarrow> gotime"
  sortSlice :: "fileMetadata list \<Rightarrow> fileMetadata list"
  sumSHA256 :: "bytes \<Rightarrow> string"

definition i64 :: "int \<Rightarrow> int" where "i64 x = sint (of_int x :: u64)"

section \<open>The table of contents\<close>

definition tarEntryType :: "tarHeader \<Rightarrow> ztocErr + string" where
  "tarEntryType hdr =
     (if hTypeflag hdr = TypeLink then Inr ''hardlink''
      else if hTypeflag hdr = TypeSymlink then Inr ''symlink''
      else if hTypeflag hdr = TypeDir then Inr ''dir''
      else if hTypeflag hdr = TypeReg \<or> hTypeflag hdr = 0 then Inr ''reg''
      else if hTypeflag hdr = TypeChar then Inr ''char''
      else if hTypeflag hdr = TypeBlock then Inr ''block''
      else if hTypeflag hdr = 0x36 then Inr ''fifo''
      else Inl (ZtEntryType (hTypeflag hdr) (hName hdr)))"

definition toc_entry :: "tarHeader \<Rightarrow> string \<Rightarrow> int \<Rightarrow> fileMetadata" where
  "toc_entry hdr fileType pos =
     \<lparr>fmName = hName hdr, fmType = fileType, fmUncompressedOffset = pos, fmUncompressedSize = hSize hdr, fmTarHeaderOffset = 0,
      fmLinkname = hLinkname hdr, fmMode = hMode hdr, fmUID = hUid hdr, fmGID = hGid hdr, fmUname = hUname hdr,
      fmGname = hGname hdr, fmModTime = hModTime hdr, fmDevmajor = hDevmajor hdr, fmDevminor = hDevminor hdr,
      fmPAXHeaders = hPAXRecords hdr\<rparr>"

fun toc_entries :: "bool \<Rightarrow> (tarHeader \<times> int) list \<Rightarrow> ztocErr + fileMetadata list" where
  "toc_entries atEOF [] = (if atEOF then Inr [] else Inl ZtTarHeader)"
| "toc_entries atEOF ((hdr, pos) # hs) =
     ebind (tarEntryType hdr) (\<lambda>fileType.
     ebind (toc_entries atEOF hs) (\<lambda>md. Inr (toc_entry hdr fileType pos # md)))"

definition buildTOC :: "ztocLib \<Rightarrow> bytes \<Rightarrow> ztocErr + fileMetadata list \<times> int" where
  "buildTOC L data =
     (case gzipTarScan L data of
        None \<Rightarrow> Inl ZtGzip
      | Some sc \<Rightarrow> ebind (toc_entries (tsEOF sc) (tsHeaders sc)) (\<lambda>md. Inr (md, tsFinal sc)))"

definition alignToTarBlock :: "int \<Rightarrow> int" where
  "alignToTarBlock x = (let r = x - 512 * go_quot x 512 in if r \<noteq> 0 then i64 (x + (512 - r)) else x)"

section \<open>Building\<close>

record ztocConfig =
  cfgSpanSize :: int
  cfgBuildTool :: string

definition defaultConfig :: ztocConfig where
  "defaultConfig = \<lparr>cfgSpanSize = DefaultSpanSize, cfgBuildTool = DefaultBuildToolIdentifier\<rparr>"

datatype ztocOption = WithSpanSize int | WithBuildToolIdentifier string

fun apply_ztocOption :: "ztocConfig \<Rightarrow> ztocOption \<Rightarrow> ztocConfig" where
  "apply_ztocOption c (WithSpanSize n) = c\<lparr>cfgSpanSize := n\<rparr>"
| "apply_ztocOption c (WithBuildToolIdentifier s) = c\<lparr>cfgBuildTool := s\<rparr>"

definition inflate_result :: "zerr + 'a \<Rightarrow> ztocErr + 'a" where
  "inflate_result r = (case r of Inl e \<Rightarrow> Inl (ZtInflate e) | Inr x \<Rightarrow> Inr x)"

definition Build :: "ztocLib \<Rightarrow> bytes \<Rightarrow> int \<Rightarrow> ztocOption list \<Rightarrow> ztocErr + ztoc" where
  "Build L blob sz opts =
     (let cfg = foldl apply_ztocOption defaultConfig opts in
      if cfgSpanSize cfg \<le> 0 then Inl (ZtSpanSize (cfgSpanSize cfg))
      else if sz < 0 then Inl (ZtNegativeSize sz)
      else if int (length blob) < sz then Inl ZtRead
      else
        let data = take (nat sz) blob in
        ebind (inflate_result (buildGzipZinfo data (cfgSpanSize cfg))) (\<lambda>z.
        ebind (inflate_result (spanDigests (sumSHA256 L) z data sz)) (\<lambda>digests.
        ebind (buildTOC L data) (\<lambda>(toc, uncompressedSize).
          Inr \<lparr>zTOC = toc,
               zCompressionInfo = \<lparr>ciMaxSpanID = maxSpanID z, ciSpanDigests = digests, ciCheckpoints = marshalCheckpoints z,
                                   ciAlgorithm = CompressionGzip\<rparr>,
               zVersion = Version09, zBuildTool = cfgBuildTool cfg, zCompressedSize = sz,
               zUncompressedSize = uncompressedSize\<rparr>))))"

definition BuildFromFile :: "ztocLib \<Rightarrow> (string \<Rightarrow> bytes option) \<Rightarrow> string \<Rightarrow> ztocOption list \<Rightarrow> ztocErr + ztoc" where
  "BuildFromFile L fs path opts =
     (case fs path of None \<Rightarrow> Inl ZtOpen | Some blob \<Rightarrow> Build L blob (int (length blob)) opts)"

section \<open>Marshalling\<close>

definition algoGzip :: i8 where "algoGzip = 1"
definition algoUncompressed :: i8 where "algoUncompressed = 2"

definition vo :: "nat \<Rightarrow> u16" where "vo k = of_nat (4 + 2 * k)"

definition fb_string :: "string \<Rightarrow> u32 fb" where "fb_string s = createString (str_bytes s)"

definition marshal_xattr :: "string \<times> string \<Rightarrow> u32 fb" where
  "marshal_xattr = (\<lambda>(k, v).
     fbind (fb_string k) (\<lambda>keyOff. fbind (fb_string v) (\<lambda>valOff.
       fthen (startObject 2) (fthen (fseq [prependUOffsetTSlot 0 keyOff 0, prependUOffsetTSlot 1 valOff 0]) endObject))))"

definition marshalXattrs :: "(string, string) gomap option \<Rightarrow> u32 fb" where
  "marshalXattrs pax =
     (let ks = sort (map fst (map_entries pax)) in
      fbind (ftraverse marshal_xattr (map (\<lambda>k. (k, the (map_of (map_entries pax) k))) ks)) createRefVector)"

definition marshalFileMetadata :: "ztocLib \<Rightarrow> fileMetadata \<Rightarrow> u32 fb" where
  "marshalFileMetadata L me =
     fbind (fb_string (fmName me)) (\<lambda>name. fbind (fb_string (fmType me)) (\<lambda>typ.
     fbind (fb_string (fmLinkname me)) (\<lambda>linkname. fbind (fb_string (fmUname me)) (\<lambda>uname.
     fbind (fb_string (fmGname me)) (\<lambda>gname. fbind (createString (marshalText L (fmModTime me))) (\<lambda>modTime.
     fbind (marshalXattrs (fmPAXHeaders me)) (\<lambda>xattrs.
       fthen (startObject 14) (fthen (fseq
         [prependUOffsetTSlot 0 name 0, prependUOffsetTSlot 1 typ 0,
          prependInt64Slot 2 (of_int (fmUncompressedOffset me)) 0, prependInt64Slot 3 (of_int (fmUncompressedSize me)) 0,
          prependUOffsetTSlot 4 linkname 0, prependInt64Slot 5 (of_int (fmMode me)) 0,
          prependUint32Slot 6 (of_int (fmUID me)) 0, prependUint32Slot 7 (of_int (fmGID me)) 0,
          prependUOffsetTSlot 8 uname 0, prependUOffsetTSlot 9 gname 0, prependUOffsetTSlot 10 modTime 0,
          prependInt64Slot 11 (of_int (fmDevmajor me)) 0, prependInt64Slot 12 (of_int (fmDevminor me)) 0,
          prependUOffsetTSlot 13 xattrs 0]) endObject))))))))"

definition marshalTOC :: "ztocLib \<Rightarrow> fileMetadata list \<Rightarrow> u32 fb" where
  "marshalTOC L toc =
     fbind (ftraverse (marshalFileMetadata L) (rev toc)) (\<lambda>offs.
     fbind (createRefVector (rev offs)) (\<lambda>metadata.
       fthen (startObject 1) (fthen (fseq [prependUOffsetTSlot 0 metadata 0]) endObject)))"

definition compressionAlgorithmToEnum :: "string \<Rightarrow> ztocErr + i8" where
  "compressionAlgorithmToEnum algo =
     (if algo = CompressionGzip then Inr algoGzip else if algo = CompressionUncompressed then Inr algoUncompressed
      else Inl (ZtAlgorithm algo))"

definition compressionAlgorithmFromEnum :: "i8 \<Rightarrow> string" where
  "compressionAlgorithmFromEnum v = (if v = algoUncompressed then CompressionUncompressed else CompressionGzip)"

definition marshal_info :: "compressionInfo \<Rightarrow> (ztocErr + u32) fb" where
  "marshal_info ci =
     fbind (createByteVector (ciCheckpoints ci)) (\<lambda>checkpointsVec.
     fbind (ftraverse fb_string (ciSpanDigests ci)) (\<lambda>spanOffs.
     fbind (createRefVector spanOffs) (\<lambda>digests.
       fthen (startObject 4) (fthen (fseq
         [prependInt32Slot 1 (of_int (ciMaxSpanID ci)) 0, prependUOffsetTSlot 2 digests 0,
          prependUOffsetTSlot 3 checkpointsVec 0])
         (if ciAlgorithm ci = [] then fbind endObject (\<lambda>off. fret (Inr off))
          else case compressionAlgorithmToEnum (ciAlgorithm ci) of
                 Inl e \<Rightarrow> fret (Inl e)
               | Inr algo \<Rightarrow> fthen (prependInt8Slot 0 algo algoGzip) (fbind endObject (\<lambda>off. fret (Inr off))))))))"

definition marshal_root :: "ztocLib \<Rightarrow> ztoc \<Rightarrow> (ztocErr + unit) fb" where
  "marshal_root L z =
     fbind (fb_string (zVersion z)) (\<lambda>version. fbind (fb_string (zBuildTool z)) (\<lambda>buildTool.
     fbind (marshalTOC L (zTOC z)) (\<lambda>toc.
     fbind (marshal_info (zCompressionInfo z)) (\<lambda>info.
       case info of Inl e \<Rightarrow> fret (Inl e)
       | Inr compressionInfo \<Rightarrow>
           fthen (startObject 6) (fthen (fseq
             [prependUOffsetTSlot 0 version 0, prependUOffsetTSlot 1 buildTool 0, prependUOffsetTSlot 4 toc 0,
              prependInt64Slot 2 (of_int (zCompressedSize z)) 0, prependInt64Slot 3 (of_int (zUncompressedSize z)) 0,
              prependUOffsetTSlot 5 compressionInfo 0])
             (fbind endObject (\<lambda>root. fthen (fb_finish root) (fret (Inr ())))))))))"

definition Marshal :: "ztocLib \<Rightarrow> ztoc \<Rightarrow> ztocErr + bytes" where
  "Marshal L z =
     (case marshal_root L z (newFbBuilder 1024) of
        None \<Rightarrow> Inl ZtPanic
      | Some (Inl e, b) \<Rightarrow> Inl e
      | Some (Inr (), b) \<Rightarrow> Inr (finishedBytes b))"

section \<open>Unmarshalling\<close>

definition go_string :: "bytes \<Rightarrow> string" where "go_string bs = map (\<lambda>x. char_of (unat x)) bs"

definition textField :: "fbTable \<Rightarrow> u16 \<Rightarrow> string option" where
  "textField t k = map_option go_string (stringField t k)"

definition scalarInt64 :: "fbTable \<Rightarrow> nat \<Rightarrow> u64 option" where
  "scalarInt64 t k = do { p \<leftarrow> tbl_offset t (vo k); if p \<noteq> 0 then getInt64 t (tpos t + p) else Some 0 }"

definition scalarInt32 :: "fbTable \<Rightarrow> nat \<Rightarrow> u32 option" where
  "scalarInt32 t k = do { p \<leftarrow> tbl_offset t (vo k); if p \<noteq> 0 then getInt32 t (tpos t + p) else Some 0 }"

definition scalarUint32 :: "fbTable \<Rightarrow> nat \<Rightarrow> u32 option" where
  "scalarUint32 t k = do { p \<leftarrow> tbl_offset t (vo k); if p \<noteq> 0 then getUint32 t (tpos t + p) else Some 0 }"

text \<open>The loops over the elements of a vector of references: a table each, or a string each.\<close>

fun read_elems :: "(fbTable \<Rightarrow> 'a option) \<Rightarrow> fbTable \<Rightarrow> u32 \<Rightarrow> nat list \<Rightarrow> 'a list option" where
  "read_elems f t start [] = Some []"
| "read_elems f t start (i # is) = do {
     p \<leftarrow> indirect t (start + of_nat i * 4);
     x \<leftarrow> f (t\<lparr>tpos := p\<rparr>);
     xs \<leftarrow> read_elems f t start is;
     Some (x # xs) }"

fun read_strings :: "fbTable \<Rightarrow> u32 \<Rightarrow> nat list \<Rightarrow> string list option" where
  "read_strings t start [] = Some []"
| "read_strings t start (i # is) = do {
     s \<leftarrow> byteVector t (start + of_nat i * 4);
     xs \<leftarrow> read_strings t start is;
     Some (go_string s # xs) }"

definition unmarshal_xattr :: "fbTable \<Rightarrow> (string \<times> string) option" where
  "unmarshal_xattr x = do { k \<leftarrow> textField x (vo 0); v \<leftarrow> textField x (vo 1); Some (k, v) }"

definition unmarshalXattrs :: "fbTable \<Rightarrow> (string, string) gomap option" where
  "unmarshalXattrs t = do {
     k \<leftarrow> tbl_offset t (vo 13);
     if k \<noteq> 0 then do {
       (start, n) \<leftarrow> vectorRange t k 4;
       kvs \<leftarrow> read_elems unmarshal_xattr t start [0..<n];
       Some (foldl (\<lambda>m (k, v). AList.update k v m) [] kvs) }
     else Some [] }"

definition unmarshalFileMetadata :: "ztocLib \<Rightarrow> fbTable \<Rightarrow> fileMetadata option" where
  "unmarshalFileMetadata L t = do {
     name \<leftarrow> textField t (vo 0);
     typ \<leftarrow> textField t (vo 1);
     off \<leftarrow> scalarInt64 t 2;
     sz \<leftarrow> scalarInt64 t 3;
     linkname \<leftarrow> textField t (vo 4);
     mode \<leftarrow> scalarInt64 t 5;
     uid \<leftarrow> scalarUint32 t 6;
     gid \<leftarrow> scalarUint32 t 7;
     uname \<leftarrow> textField t (vo 8);
     gname \<leftarrow> textField t (vo 9);
     major \<leftarrow> scalarInt64 t 11;
     minor \<leftarrow> scalarInt64 t 12;
     mt \<leftarrow> byteVectorField t (vo 10);
     pax \<leftarrow> unmarshalXattrs t;
     Some \<lparr>fmName = name, fmType = typ, fmUncompressedOffset = sint off, fmUncompressedSize = sint sz, fmTarHeaderOffset = 0,
           fmLinkname = linkname, fmMode = sint mode, fmUID = uint uid, fmGID = uint gid, fmUname = uname, fmGname = gname,
           fmModTime = unmarshalText L mt, fmDevmajor = sint major, fmDevminor = sint minor, fmPAXHeaders = Some pax\<rparr> }"

text \<open>The pass that derives the offsets of the tar headers and rejects entries that overlap.\<close>

fun header_offsets :: "int \<Rightarrow> fileMetadata list \<Rightarrow> ztocErr + fileMetadata list" where
  "header_offsets nxt [] = Inr []"
| "header_offsets nxt (e # es) =
     (if nxt > fmUncompressedOffset e then Inl ZtOrdering
      else ebind (header_offsets (alignToTarBlock (i64 (fmUncompressedOffset e + fmUncompressedSize e))) es)
             (\<lambda>es'. Inr (e\<lparr>fmTarHeaderOffset := nxt\<rparr> # es')))"

definition unmarshalTOC :: "ztocLib \<Rightarrow> fbTable \<Rightarrow> (ztocErr + fileMetadata list) option" where
  "unmarshalTOC L t = do {
     k \<leftarrow> tbl_offset t (vo 0);
     md \<leftarrow> (if k \<noteq> 0 then do {
              (start, n) \<leftarrow> vectorRange t k 4;
              read_elems (unmarshalFileMetadata L) t start [0..<n] }
            else Some []);
     Some (header_offsets 0 (sortSlice L md)) }"

definition unmarshalCompressionInfo :: "fbTable \<Rightarrow> compressionInfo option" where
  "unmarshalCompressionInfo t = do {
     maxSpan \<leftarrow> scalarInt32 t 1;
     ka \<leftarrow> tbl_offset t (vo 0);
     algo \<leftarrow> (if ka \<noteq> 0 then map_option compressionAlgorithmFromEnum (getInt8 t (tpos t + ka)) else Some CompressionGzip);
     kd \<leftarrow> tbl_offset t (vo 2);
     digests \<leftarrow> (if kd \<noteq> 0 then do {
                   (start, n) \<leftarrow> vectorRange t kd 4;
                   read_strings t start [0..<n] }
                 else Some []);
     kc \<leftarrow> tbl_offset t (vo 3);
     cps \<leftarrow> (if kc \<noteq> 0 then byteVector t (kc + tpos t) else Some []);
     Some \<lparr>ciMaxSpanID = sint maxSpan, ciSpanDigests = digests, ciCheckpoints = cps, ciAlgorithm = algo\<rparr> }"

definition empty_info :: compressionInfo where
  "empty_info = \<lparr>ciMaxSpanID = 0, ciSpanDigests = [], ciCheckpoints = [], ciAlgorithm = []\<rparr>"

definition unmarshal_root :: "ztocLib \<Rightarrow> fbTable \<Rightarrow> (ztocErr + ztoc) option" where
  "unmarshal_root L root = do {
     version \<leftarrow> textField root (vo 0);
     tool \<leftarrow> textField root (vo 1);
     csize \<leftarrow> scalarInt64 root 2;
     usize \<leftarrow> scalarInt64 root 3;
     kt \<leftarrow> tbl_offset root (vo 4);
     toc \<leftarrow> (if kt \<noteq> 0 then do { p \<leftarrow> indirect root (kt + tpos root); unmarshalTOC L (root\<lparr>tpos := p\<rparr>) } else Some (Inr []));
     (case toc of
        Inl e \<Rightarrow> Some (Inl e)
      | Inr md \<Rightarrow> do {
          ki \<leftarrow> tbl_offset root (vo 5);
          info \<leftarrow> (if ki \<noteq> 0 then do { p \<leftarrow> indirect root (ki + tpos root); unmarshalCompressionInfo (root\<lparr>tpos := p\<rparr>) }
                   else Some empty_info);
          Some (Inr \<lparr>zTOC = md, zCompressionInfo = info, zVersion = version, zBuildTool = tool,
                     zCompressedSize = sint csize, zUncompressedSize = sint usize\<rparr>) }) }"

text \<open>\<^verbatim>\<open>Unmarshal\<close> of a slice and the bytes between its length and its capacity; a panic is recovered.\<close>

definition Unmarshal :: "ztocLib \<Rightarrow> bytes \<Rightarrow> bytes \<Rightarrow> ztocErr + ztoc" where
  "Unmarshal L data spare =
     (case getRootTable data spare of
        None \<Rightarrow> Inl ZtBadFlatbuffer
      | Some root \<Rightarrow> case unmarshal_root L root of None \<Rightarrow> Inl ZtRecovered | Some r \<Rightarrow> r)"

end
