(* ===== verification/Flatbuffer_Rep.thy ===== *)
theory Flatbuffer_Rep
  imports Flatbuffer
begin

text \<open>
  What the builder of \<^verbatim>\<open>Flatbuffer\<close> writes.  The part of its buffer in use only grows at the front, so a
  fact about the bytes at a distance from the end stays true; the operations are specified by triples over
  such facts, with a bound on how many bytes each adds.
\<close>

section \<open>Bytes at an offset from the end\<close>

lemma unat_u32: "n < 2 ^ 32 \<Longrightarrow> unat (of_nat n :: u32) = n"
  by (simp add: unat_of_nat)

lemma unat_u16: "n < 2 ^ 16 \<Longrightarrow> unat (of_nat n :: u16) = n"
  by (simp add: unat_of_nat)

definition at_off :: "bytes \<Rightarrow> nat \<Rightarrow> bytes \<Rightarrow> bool" where
  "at_off buf off bs \<longleftrightarrow> (\<exists>pre post. buf = pre @ bs @ post \<and> off = length bs + length post)"

lemma at_off_prepend: "at_off buf off bs \<Longrightarrow> at_off (xs @ buf) off bs"
  unfolding at_off_def by (metis append.assoc)

lemma at_off_front: "off = length bs + length buf \<Longrightarrow> at_off (bs @ buf) off bs"
  by (auto simp: at_off_def)

lemma at_off_le: "at_off buf off bs \<Longrightarrow> length bs \<le> off \<and> off \<le> length buf"
  by (auto simp: at_off_def)

lemma at_off_append: "at_off buf off (xs @ ys) \<longleftrightarrow> at_off buf off xs \<and> at_off buf (off - length xs) ys \<and> length xs \<le> off"
proof
  assume "at_off buf off (xs @ ys)"
  then obtain pre post where b: "buf = pre @ xs @ ys @ post" "off = length xs + length ys + length post"
    by (auto simp: at_off_def)
  then have "buf = (pre @ xs) @ ys @ post" by simp
  with b show "at_off buf off xs \<and> at_off buf (off - length xs) ys \<and> length xs \<le> off"
    unfolding at_off_def by (metis add.assoc add_diff_cancel_left' length_append le_add1)
next
  assume *: "at_off buf off xs \<and> at_off buf (off - length xs) ys \<and> length xs \<le> off"
  then obtain pre post where a: "buf = pre @ xs @ post" "off = length xs + length post" by (auto simp: at_off_def)
  from * obtain pre' post' where b: "buf = pre' @ ys @ post'" "off - length xs = length ys + length post'"
    by (auto simp: at_off_def)
  have "length post = length (ys @ post')" using a b by simp
  moreover have "(pre @ xs) @ post = pre' @ ys @ post'" using a(1) b(1) by simp
  ultimately have "post = ys @ post'" by (metis append_eq_append_conv)
  with a show "at_off buf off (xs @ ys)" by (auto simp: at_off_def)
qed

lemma at_off_read: "at_off buf off bs \<Longrightarrow> length bs = n \<Longrightarrow> read_at n (length buf - off) buf = Some bs"
  by (auto simp: at_off_def read_at_def slice_def)

lemma at_off_slice: "at_off buf off bs \<Longrightarrow> slice (length buf - off) (length buf - off + length bs) (buf @ rest) = bs"
  by (auto simp: at_off_def slice_def)

lemma at_off_concat_nth:
  "at_off buf off (concat (map enc xs)) \<Longrightarrow> (\<And>x. length (enc x) = w) \<Longrightarrow> i < length xs \<Longrightarrow>
   at_off buf (off - w * i) (enc (xs ! i))"
proof (induction xs arbitrary: off i)
  case (Cons x xs)
  then have a: "at_off buf off (enc x)" "at_off buf (off - w) (concat (map enc xs))" by (auto simp: at_off_append)
  show ?case
  proof (cases i)
    case (Suc k)
    with Cons.IH[OF a(2) Cons.prems(2), of k] Cons.prems(3) show ?thesis by simp
  qed (simp add: a(1))
qed simp

section \<open>The builder's buffer\<close>

abbreviation fb_buf :: "fbBuilder \<Rightarrow> bytes" where "fb_buf \<equiv> finishedBytes"

definition fb_room :: "fbBuilder \<Rightarrow> bool" where
  "fb_room b \<longleftrightarrow> 0 \<le> fbHead b \<and> fbHead b \<le> int (length (fbBytes b)) \<and> fbMinalign b \<in> {1, 2, 4, 8}"

definition keeps :: "fbBuilder \<Rightarrow> fbBuilder \<Rightarrow> bool" where
  "keeps b b' \<longleftrightarrow> fbVtable b' = fbVtable b \<and> fbObjectEnd b' = fbObjectEnd b \<and> fbVtables b' = fbVtables b"

lemma keeps_refl [simp]: "keeps b b"
  by (simp add: keeps_def)

lemma keeps_trans: "keeps a b \<Longrightarrow> keeps b c \<Longrightarrow> keeps a c"
  by (simp add: keeps_def)

lemma length_fb_buf: "fb_room b \<Longrightarrow> int (length (fb_buf b)) = int (length (fbBytes b)) - fbHead b"
  by (auto simp: fb_room_def finishedBytes_def of_nat_diff nat_le_iff)

lemma fb_offset_buf: "fb_room b \<Longrightarrow> fb_offset b = of_nat (length (fb_buf b))"
proof -
  assume "fb_room b"
  then have "fb_offset b = of_int (int (length (fb_buf b)))" by (simp add: fb_offset_def length_fb_buf)
  then show ?thesis by simp
qed

lemma growBuffer_ok:
  assumes "fb_room b"
  shows "fb_room (growBuffer b)" "fb_buf (growBuffer b) = fb_buf b" "keeps b (growBuffer b)" "fbHead b \<le> fbHead (growBuffer b)"
proof -
  define n where "n = (if length (fbBytes b) * 2 = 0 then 1 else length (fbBytes b) * 2)"
  have n: "length (fbBytes b) \<le> n" by (simp add: n_def)
  have g: "growBuffer b = b\<lparr>fbBytes := replicate (n - length (fbBytes b)) 0 @ fbBytes b, fbHead := fbHead b + int (n - length (fbBytes b))\<rparr>"
    using n unfolding growBuffer_def Let_def n_def[symmetric] by (simp add: copy_at_def min_def)
  show "fb_room (growBuffer b)" using assms by (simp add: fb_room_def g)
  show "fb_buf (growBuffer b) = fb_buf b"
    using assms by (simp add: finishedBytes_def g fb_room_def nat_add_distrib)
  show "keeps b (growBuffer b)" "fbHead b \<le> fbHead (growBuffer b)" by (simp_all add: keeps_def g)
qed

lemma grow_until_ok:
  "fb_room b \<Longrightarrow> fb_room (grow_until need b) \<and> fb_buf (grow_until need b) = fb_buf b \<and> keeps b (grow_until need b) \<and>
   fbHead b \<le> fbHead (grow_until need b) \<and> need \<le> fbHead (grow_until need b)"
proof (induction need b rule: grow_until.induct)
  case (1 need b)
  show ?case
  proof (cases "fbHead b < need")
    case True
    with 1(1)[OF True growBuffer_ok(1)[OF 1(2)]] growBuffer_ok[OF 1(2)] show ?thesis
      by (simp add: grow_until.simps[of need b]) (blast intro: keeps_trans order_trans)
  qed (simp add: grow_until.simps[of need b] 1)
qed

lemma place_ok:
  assumes "fb_room b" "int (length bs) \<le> fbHead b"
  shows "\<exists>b'. place bs b = Some ((), b') \<and> fb_room b' \<and> fb_buf b' = bs @ fb_buf b \<and> keeps b b' \<and>
    fbHead b' = fbHead b - int (length bs)"
proof -
  let ?h = "nat (fbHead b - int (length bs))"
  let ?b' = "b\<lparr>fbBytes := copy_at ?h bs (fbBytes b), fbHead := fbHead b - int (length bs)\<rparr>"
  have h: "?h + length bs = nat (fbHead b)" "?h + length bs \<le> length (fbBytes b)"
    using assms by (auto simp: fb_room_def nat_diff_distrib)
  then have "drop ?h (copy_at ?h bs (fbBytes b)) = bs @ drop (nat (fbHead b)) (fbBytes b)"
    by (simp add: copy_at_def)
  then have "fb_buf ?b' = bs @ fb_buf b" by (simp add: finishedBytes_def)
  moreover have "place bs b = Some ((), ?b')" using assms by (simp add: place_def fb_room_def Let_def)
  ultimately show ?thesis using assms by (intro exI[of _ ?b']) (auto simp: fb_room_def keeps_def)
qed

lemma align_bits: "(NOT x + 1) AND (2 ^ n - 1) = (- x) mod 2 ^ n" for x :: int
proof -
  have "(NOT x + 1) AND (2 ^ n - 1) = (NOT x + 1) AND mask n" by (simp add: mask_eq_exp_minus_1)
  also have "\<dots> = take_bit n (NOT x + 1)" by (simp add: take_bit_eq_mask)
  also have "\<dots> = (- x) mod 2 ^ n" by (simp add: not_int_def take_bit_eq_mod)
  finally show ?thesis .
qed

lemma align_size_mod:
  assumes "sz \<in> {1, 2, 4, 8}"
  shows "align_size sz k b = (- (int (length (fbBytes b)) - fbHead b + k)) mod sz"
proof -
  obtain n where "sz = 2 ^ n" using assms power_one_right[of 2] by (auto intro: that[of 0] that[of 1] that[of 2] that[of 3])
  then show ?thesis by (simp only: align_size_def align_bits)
qed

lemma prep_ok:
  assumes room: "fb_room b" and sz: "sz \<in> {1, 2, 4, 8}" and k: "0 \<le> k"
  shows "\<exists>b' n. prep sz k b = Some ((), b') \<and> fb_room b' \<and> fb_buf b' = replicate n 0 @ fb_buf b \<and> int n < sz \<and>
    sz + k \<le> fbHead b' \<and> fbHead b - int n \<le> fbHead b' \<and> keeps b b' \<and> (int (length (fb_buf b')) + k) mod sz = 0"
proof -
  define b1 where "b1 = (if sz > fbMinalign b then b\<lparr>fbMinalign := sz\<rparr> else b)"
  have b1: "fb_room b1" "fb_buf b1 = fb_buf b" "keeps b b1" "fbHead b1 = fbHead b" using room sz
    by (auto simp: b1_def fb_room_def keeps_def finishedBytes_def)
  define a where "a = align_size sz k b1"
  have a: "a = (- (int (length (fb_buf b)) + k)) mod sz"
    using align_size_mod[OF sz, of k b1] length_fb_buf[OF b1(1)] b1(2) by (simp add: a_def)
  then have pos: "0 \<le> a" "a < sz" using sz by auto
  define b2 where "b2 = grow_until (a + sz + k) b1"
  have b2: "fb_room b2" "fb_buf b2 = fb_buf b" "keeps b b2" "a + sz + k \<le> fbHead b2" "fbHead b \<le> fbHead b2"
    using grow_until_ok[OF b1(1), of "a + sz + k"] b1 by (auto simp: b2_def intro: keeps_trans)
  obtain b' where b': "place (replicate (nat a) 0) b2 = Some ((), b')" "fb_room b'"
    "fb_buf b' = replicate (nat a) 0 @ fb_buf b2" "keeps b2 b'" "fbHead b' = fbHead b2 - int (nat a)"
    using place_ok[OF b2(1), of "replicate (nat a) 0"] b2(4) pos sz k by fastforce
  have "prep sz k b = Some ((), b')" using b'(1) by (simp add: prep_def b1_def[symmetric] a_def[symmetric] b2_def[symmetric])
  moreover have "(int (length (fb_buf b')) + k) mod sz = 0"
  proof -
    have "int (length (fb_buf b')) + k = (int (length (fb_buf b)) + k) + a" using b'(3) b2(2) pos by simp
    also have "\<dots> mod sz = ((int (length (fb_buf b)) + k) + - (int (length (fb_buf b)) + k)) mod sz"
      unfolding a by (rule mod_add_right_eq)
    finally show ?thesis by simp
  qed
  ultimately show ?thesis using b' b2 pos by (intro exI[of _ b'] exI[of _ "nat a"]) (auto intro: keeps_trans)
qed


text \<open>Reserving an aligned place and writing there.\<close>

lemma fbind_Some: "m b = Some (x, b') \<Longrightarrow> fbind m f b = f x b'"
  by (simp add: fbind_def)

lemma prepend_ok:
  assumes room: "fb_room b" and bs: "sz \<in> {1, 2, 4, 8}" "int (length bs) = sz"
  shows "\<exists>b' n. fthen (prep sz 0) (place bs) b = Some ((), b') \<and> fb_room b' \<and> fb_buf b' = bs @ replicate n 0 @ fb_buf b \<and>
    int n < sz \<and> keeps b b' \<and> int (length (fb_buf b')) mod sz = 0"
proof -
  obtain b1 n where b1: "prep sz 0 b = Some ((), b1)" "fb_room b1" "fb_buf b1 = replicate n 0 @ fb_buf b" "int n < sz"
    "sz \<le> fbHead b1" "keeps b b1" "int (length (fb_buf b1)) mod sz = 0"
    using prep_ok[OF room bs(1), of 0] by auto
  obtain b' where b': "place bs b1 = Some ((), b')" "fb_room b'" "fb_buf b' = bs @ fb_buf b1" "keeps b1 b'"
    using place_ok[OF b1(2), of bs] b1(5) bs(2) by auto
  have "int (length (fb_buf b')) = sz + int (length (fb_buf b1))" using b'(3) bs(2) by simp
  then have "int (length (fb_buf b')) mod sz = 0" using b1(7) by simp
  with b1 b' show ?thesis by (intro exI[of _ b'] exI[of _ n]) (auto simp: fbind_Some intro: keeps_trans)
qed

lemma prepend_ref_ok:
  assumes room: "fb_room b" and off: "unat off \<le> length (fb_buf b)" "length (fb_buf b) + 7 < 2 ^ 32"
  shows "\<exists>b' n. prependUOffsetT off b = Some ((), b') \<and> fb_room b' \<and> keeps b b' \<and> n < 4 \<and>
    fbHead b - int n - 4 \<le> fbHead b' \<and> (length (fb_buf b) + n) mod 4 = 0 \<and>
    fb_buf b' = LE32 (of_nat (length (fb_buf b') - unat off)) @ replicate n 0 @ fb_buf b"
proof -
  obtain b1 n where b1: "prep 4 0 b = Some ((), b1)" "fb_room b1" "fb_buf b1 = replicate n 0 @ fb_buf b" "int n < 4"
    "4 \<le> fbHead b1" "keeps b b1" "fbHead b - int n \<le> fbHead b1" "int (n + length (fb_buf b)) mod 4 = 0"
    using prep_ok[OF room, of 4 0] by auto
  have al: "(length (fb_buf b) + n) mod 4 = 0" using b1(8) by presburger
  have o1: "fb_offset b1 = of_nat (n + length (fb_buf b))" using fb_offset_buf[OF b1(2)] b1(3) by simp
  then have "unat (fb_offset b1) = n + length (fb_buf b)" using off(2) b1(4) unat_u32[of "n + length (fb_buf b)"] by simp
  then have le: "off \<le> fb_offset b1" using off(1) by (simp add: word_le_nat_alt)
  have val: "fb_offset b1 - off + 4 = of_nat (n + length (fb_buf b) - unat off + 4)"
    using off(1) by (simp add: o1 of_nat_diff)
  obtain b' where b': "place (LE32 (fb_offset b1 - off + 4)) b1 = Some ((), b')" "fb_room b'" "keeps b1 b'"
    "fb_buf b' = LE32 (fb_offset b1 - off + 4) @ fb_buf b1" "fbHead b' = fbHead b1 - 4"
    using place_ok[OF b1(2), of "LE32 (fb_offset b1 - off + 4)"] b1(5) by auto
  then have "length (fb_buf b') - unat off = n + length (fb_buf b) - unat off + 4" using off(1) b1(3) by simp
  then have "fb_buf b' = LE32 (of_nat (length (fb_buf b') - unat off)) @ replicate n 0 @ fb_buf b"
    using b'(4) val b1(3) by (simp only:)
  moreover have "prependUOffsetT off b = Some ((), b')"
    using b1(1) b'(1) le by (simp add: prependUOffsetT_def fbind_Some place_ref_def placeUint32_def not_less)
  ultimately show ?thesis using b' b1 al by (intro exI[of _ b'] exI[of _ n]) (auto intro: keeps_trans)
qed

section \<open>Triples\<close>

text \<open>A vtable in the buffer, with the entries of its slots.\<close>

definition vtable_at :: "bytes \<Rightarrow> u32 \<Rightarrow> u16 list \<Rightarrow> bool" where
  "vtable_at buf vo es \<longleftrightarrow>
     (\<exists>sz. at_off buf (unat vo) (LE16 (of_nat (2 * length es + 4)) @ LE16 sz @ concat (map LE16 es))) \<and>
     length es < 1000 \<and> (\<forall>e\<in>set es. unat e < unat vo)"

lemma vtable_at_prepend: "vtable_at buf vo es \<Longrightarrow> vtable_at (xs @ buf) vo es"
  by (auto simp: vtable_at_def dest: at_off_prepend)

definition fb_ok :: "fbBuilder \<Rightarrow> bool" where
  "fb_ok b \<longleftrightarrow> fb_room b \<and> (\<forall>vo\<in>set (fbVtables b). \<exists>es. vtable_at (fb_buf b) vo es)"

lemma fb_ok_keeps: "fb_ok b \<Longrightarrow> keeps b b' \<Longrightarrow> fb_room b' \<Longrightarrow> fb_buf b' = xs @ fb_buf b \<Longrightarrow> fb_ok b'"
  by (auto simp: fb_ok_def keeps_def dest: vtable_at_prepend)

text \<open>
  From a builder that satisfies \<open>P\<close>, and if the buffer stays below 4 GiB with \<open>c\<close> bytes more, the
  computation returns, puts at most \<open>c\<close> bytes in front of the buffer, and establishes \<open>Q\<close>.
\<close>

definition fb_spec :: "nat \<Rightarrow> (fbBuilder \<Rightarrow> bool) \<Rightarrow> 'a fb \<Rightarrow> ('a \<Rightarrow> fbBuilder \<Rightarrow> bool) \<Rightarrow> bool" where
  "fb_spec c P m Q \<longleftrightarrow>
     (\<forall>b. fb_ok b \<longrightarrow> P b \<longrightarrow> length (fb_buf b) + c < 2 ^ 32 \<longrightarrow>
       (\<exists>r b' xs. m b = Some (r, b') \<and> fb_ok b' \<and> fb_buf b' = xs @ fb_buf b \<and> length xs \<le> c \<and> Q r b'))"

lemma fb_specI:
  assumes "\<And>b. fb_ok b \<Longrightarrow> P b \<Longrightarrow> length (fb_buf b) + c < 2 ^ 32 \<Longrightarrow>
    \<exists>r b' xs. m b = Some (r, b') \<and> fb_ok b' \<and> fb_buf b' = xs @ fb_buf b \<and> length xs \<le> c \<and> Q r b'"
  shows "fb_spec c P m Q"
  using assms by (auto simp: fb_spec_def)

lemma fb_specE:
  assumes "fb_spec c P m Q" "fb_ok b" "P b" "length (fb_buf b) + c < 2 ^ 32"
  obtains r b' xs where "m b = Some (r, b')" "fb_ok b'" "fb_buf b' = xs @ fb_buf b" "length xs \<le> c" "Q r b'"
  using assms by (auto simp: fb_spec_def)

lemma spec_weaken:
  assumes "fb_spec c P m Q" "\<And>b. P' b \<Longrightarrow> P b" "\<And>r b. Q r b \<Longrightarrow> Q' r b" "c \<le> c'"
  shows "fb_spec c' P' m Q'"
proof (rule fb_specI)
  fix b assume "fb_ok b" "P' b" "length (fb_buf b) + c' < 2 ^ 32"
  with assms(2,4) have "fb_ok b" "P b" "length (fb_buf b) + c < 2 ^ 32" by simp_all
  from fb_specE[OF assms(1) this] assms(3,4) show
    "\<exists>r b' xs. m b = Some (r, b') \<and> fb_ok b' \<and> fb_buf b' = xs @ fb_buf b \<and> length xs \<le> c' \<and> Q' r b'"
    by (metis order_trans)
qed

lemma spec_ret: "(\<And>b. P b \<Longrightarrow> Q x b) \<Longrightarrow> fb_spec c P (fret x) Q"
  by (simp add: fb_spec_def fret_def)

lemma spec_bind:
  assumes m: "fb_spec c1 P m R" and f: "\<And>r. fb_spec c2 (R r) (f r) Q"
  shows "fb_spec (c1 + c2) P (fbind m f) Q"
proof (rule fb_specI)
  fix b assume b: "fb_ok b" "P b" "length (fb_buf b) + (c1 + c2) < 2 ^ 32"
  then obtain r b1 xs where b1: "m b = Some (r, b1)" "fb_ok b1" "fb_buf b1 = xs @ fb_buf b" "length xs \<le> c1" "R r b1"
    by (auto elim: fb_specE[OF m])
  with b have "length (fb_buf b1) + c2 < 2 ^ 32" by simp
  from fb_specE[OF f b1(2,5) this] obtain s b2 ys where "f r b1 = Some (s, b2)" "fb_ok b2" "fb_buf b2 = ys @ fb_buf b1"
    "length ys \<le> c2" "Q s b2" .
  with b1 show "\<exists>r b' xs. fbind m f b = Some (r, b') \<and> fb_ok b' \<and> fb_buf b' = xs @ fb_buf b \<and> length xs \<le> c1 + c2 \<and> Q r b'"
    by (intro exI[of _ s] exI[of _ b2] exI[of _ "ys @ xs"]) (simp add: fbind_Some)
qed

text \<open>Facts about the buffer that survive writing in front of it.\<close>

definition stable :: "(bytes \<Rightarrow> bool) \<Rightarrow> bool" where
  "stable R \<longleftrightarrow> (\<forall>buf xs. R buf \<longrightarrow> R (xs @ buf))"

lemma stable_at_off [intro]: "stable (\<lambda>buf. at_off buf off bs)"
  by (simp add: stable_def at_off_prepend)

lemma stable_conj [intro]: "stable P \<Longrightarrow> stable Q \<Longrightarrow> stable (\<lambda>buf. P buf \<and> Q buf)"
  by (simp add: stable_def)

lemma stable_const [intro]: "stable (\<lambda>buf. p)"
  by (simp add: stable_def)

lemma stable_ex [intro]: "(\<And>x. stable (P x)) \<Longrightarrow> stable (\<lambda>buf. \<exists>x. P x buf)"
  by (fastforce simp: stable_def)

lemma stable_all [intro]: "(\<And>x. stable (P x)) \<Longrightarrow> stable (\<lambda>buf. \<forall>x. P x buf)"
  by (fastforce simp: stable_def)

lemma stable_imp [intro]: "stable P \<Longrightarrow> stable (\<lambda>buf. q \<longrightarrow> P buf)"
  by (simp add: stable_def)

lemma stable_within [intro]: "stable (\<lambda>buf. k \<le> length buf)"
  by (simp add: stable_def)

lemma spec_frame:
  assumes "fb_spec c P m Q" "stable R"
  shows "fb_spec c (\<lambda>b. P b \<and> R (fb_buf b)) m (\<lambda>r b. Q r b \<and> R (fb_buf b))"
proof (rule fb_specI)
  fix b assume "fb_ok b" "P b \<and> R (fb_buf b)" "length (fb_buf b) + c < 2 ^ 32"
  with fb_specE[OF assms(1), of b] obtain r b' xs where "m b = Some (r, b')" "fb_ok b'" "fb_buf b' = xs @ fb_buf b"
    "length xs \<le> c" "Q r b'" "R (fb_buf b)" by metis
  moreover from this have "R (fb_buf b')" using assms(2) by (simp add: stable_def)
  ultimately show "\<exists>r b' xs. m b = Some (r, b') \<and> fb_ok b' \<and> fb_buf b' = xs @ fb_buf b \<and> length xs \<le> c \<and> Q r b' \<and> R (fb_buf b')"
    by blast
qed

text \<open>A computation that only writes, keeping a fact about the buffer.\<close>

lemma spec_then:
  assumes "fb_spec c1 (\<lambda>b. P (fb_buf b)) m (\<lambda>r b. Q r (fb_buf b))" "stable P"
    and "\<And>r. fb_spec c2 (\<lambda>b. Q r (fb_buf b) \<and> P (fb_buf b)) (f r) R"
  shows "fb_spec (c1 + c2) (\<lambda>b. P (fb_buf b)) (fbind m f) R"
  by (rule spec_bind[OF spec_weaken[OF spec_frame[OF assms(1,2)]] assms(3)]) auto


section \<open>Strings and vectors\<close>

lemma set_nested_ok:
  "set_nested v b = Some ((), b\<lparr>fbNested := v\<rparr>)" "fb_room (b\<lparr>fbNested := v\<rparr>) = fb_room b"
  "fb_buf (b\<lparr>fbNested := v\<rparr>) = fb_buf b" "keeps b (b\<lparr>fbNested := v\<rparr>)" "fbHead (b\<lparr>fbNested := v\<rparr>) = fbHead b"
  "keeps c (b\<lparr>fbNested := v\<rparr>) = keeps c b" "fb_offset (b\<lparr>fbNested := v\<rparr>) = fb_offset b"
  by (simp_all add: set_nested_def fb_room_def finishedBytes_def keeps_def fb_offset_def)

lemma endVector_ok:
  assumes "fb_room b" "4 \<le> fbHead b"
  shows "\<exists>b'. endVector n b = Some (of_nat (length (fb_buf b')), b') \<and> fb_room b' \<and> keeps b b' \<and>
    fb_buf b' = LE32 (of_nat n) @ fb_buf b"
proof -
  obtain b1 where b1: "placeUint32 (of_nat n) b = Some ((), b1)" "fb_room b1" "keeps b b1" "fb_buf b1 = LE32 (of_nat n) @ fb_buf b"
    using place_ok[OF assms(1), of "LE32 (of_nat n)"] assms(2) by (auto simp: placeUint32_def)
  then show ?thesis
    by (intro exI[of _ "b1\<lparr>fbNested := False\<rparr>"])
      (simp add: endVector_def fbind_Some set_nested_ok get_offset_def fb_offset_buf)
qed

definition str_at :: "bytes \<Rightarrow> nat \<Rightarrow> bytes \<Rightarrow> bool" where
  "str_at buf off s \<longleftrightarrow> at_off buf off (LE32 (of_nat (length s)) @ s) \<and> 0 < off \<and> off < 2 ^ 32 \<and> length s < 2 ^ 32"

lemma stable_str_at [intro]: "stable (\<lambda>buf. str_at buf off s)"
  unfolding str_at_def by (intro stable_conj stable_at_off stable_const)

lemma fbind_assoc: "fbind m (\<lambda>x. fbind (f x) g) = fbind (fbind m f) g"
  by (auto simp: fbind_def fun_eq_iff split: option.splits)

text \<open>Writing without reserving: \<open>place\<close> and sequences of it.\<close>

definition writes :: "unit fb \<Rightarrow> bytes \<Rightarrow> bool" where
  "writes m bs \<longleftrightarrow> (\<forall>b. fb_room b \<longrightarrow> int (length bs) \<le> fbHead b \<longrightarrow>
     (\<exists>b'. m b = Some ((), b') \<and> fb_room b' \<and> fb_buf b' = bs @ fb_buf b \<and> keeps b b' \<and> fbHead b' = fbHead b - int (length bs)))"

lemma writes_place: "writes (place bs) bs"
  using place_ok by (auto simp: writes_def)

lemma writes_then: "writes m xs \<Longrightarrow> writes n ys \<Longrightarrow> writes (fthen m n) (ys @ xs)"
proof -
  assume m: "writes m xs" and n: "writes n ys"
  show ?thesis unfolding writes_def
  proof (intro allI impI)
    fix b assume b: "fb_room b" "int (length (ys @ xs)) \<le> fbHead b"
    then obtain b1 where b1: "m b = Some ((), b1)" "fb_room b1" "fb_buf b1 = xs @ fb_buf b" "keeps b b1" "fbHead b1 = fbHead b - int (length xs)"
      using m unfolding writes_def by fastforce
    with b obtain b2 where "n b1 = Some ((), b2)" "fb_room b2" "fb_buf b2 = ys @ fb_buf b1" "keeps b1 b2" "fbHead b2 = fbHead b1 - int (length ys)"
      using n unfolding writes_def by fastforce
    with b1 show "\<exists>b'. fthen m n b = Some ((), b') \<and> fb_room b' \<and> fb_buf b' = (ys @ xs) @ fb_buf b \<and> keeps b b' \<and>
        fbHead b' = fbHead b - int (length (ys @ xs))"
      by (intro exI[of _ b2]) (auto simp: fbind_Some intro: keeps_trans)
  qed
qed

text \<open>The offset returned is that of the front of the buffer.\<close>

lemma written_at:
  fixes res :: "(u32 \<times> fbBuilder) option"
  assumes "res = Some (of_nat (length (fb_buf b')), b')" "fb_ok b'" "fb_buf b' = xs @ buf" "length xs \<le> c"
    and lim: "length (fb_buf b') < 2 ^ 32" and R: "R (fb_buf b') (length (fb_buf b'))"
  shows "\<exists>r b' xs. res = Some (r, b') \<and> fb_ok b' \<and> fb_buf b' = xs @ buf \<and> length xs \<le> c \<and> R (fb_buf b') (unat r)"
proof -
  have "R (fb_buf b') (unat (of_nat (length (fb_buf b')) :: u32))" using unat_u32[OF lim] R by simp
  with assms(1-4) show ?thesis
    by (intro exI[of _ "of_nat (length (fb_buf b'))"] exI[of _ b'] exI[of _ xs] conjI)
qed

text \<open>A vector: its elements, aligned, with their number in front.\<close>

lemma vector_spec:
  assumes m: "writes m (s @ rest)"
  shows "fb_spec (length s + length rest + 7) P
    (fthen (set_nested True) (fthen (prep 4 (int (length (s @ rest)))) (fthen m (endVector (length s)))))
    (\<lambda>off b. str_at (fb_buf b) (unat off) s)"
proof (rule fb_specI)
  fix b assume ok: "fb_ok b" and lim: "length (fb_buf b) + (length s + length rest + 7) < 2 ^ 32"
  let ?b0 = "b\<lparr>fbNested := True\<rparr>" and ?k = "int (length (s @ rest))"
  have "fb_room ?b0" using ok by (simp add: fb_ok_def set_nested_ok)
  from prep_ok[OF this, of 4 ?k] obtain b1 n where b1: "prep 4 ?k ?b0 = Some ((), b1)"
    "fb_room b1" "fb_buf b1 = replicate n 0 @ fb_buf b" "n < 4" "4 + ?k \<le> fbHead b1" "keeps b b1"
    by (auto simp: set_nested_ok keeps_def)
  obtain b2 where b2: "m b1 = Some ((), b2)" "fb_room b2" "fb_buf b2 = (s @ rest) @ fb_buf b1" "keeps b1 b2" "fbHead b2 = fbHead b1 - ?k"
    using m b1(2,5) unfolding writes_def by fastforce
  obtain b3 where b3: "endVector (length s) b2 = Some (of_nat (length (fb_buf b3)), b3)" "fb_room b3" "keeps b2 b3"
    "fb_buf b3 = LE32 (of_nat (length s)) @ fb_buf b2"
    using endVector_ok[OF b2(2), of "length s"] b1(5) b2(5) by auto
  let ?xs = "(LE32 (of_nat (length s)) @ s) @ rest @ replicate n 0"
  have buf: "fb_buf b3 = ?xs @ fb_buf b" using b3 b2 b1 by simp
  have "keeps b b3" using b1(6) b2(4) b3(3) by (simp add: keeps_def)
  then have ok3: "fb_ok b3" by (rule fb_ok_keeps[OF ok _ b3(2) buf])
  have len: "length (fb_buf b3) < 2 ^ 32" "0 < length (fb_buf b3)" "length s < 2 ^ 32" using buf b1(4) lim by simp_all
  then have str: "str_at (fb_buf b3) (length (fb_buf b3)) s"
    unfolding str_at_def using at_off_front[of _ "LE32 (of_nat (length s)) @ s" "rest @ replicate n 0 @ fb_buf b"] buf by (simp add: add.assoc)
  have run: "fthen (set_nested True) (fthen (prep 4 ?k) (fthen m (endVector (length s)))) b = Some (of_nat (length (fb_buf b3)), b3)"
    using b1(1) b2(1) b3(1) by (simp add: fbind_Some set_nested_ok)
  have "length ?xs \<le> length s + length rest + 7" using b1(4) by simp
  from written_at[where R = "\<lambda>buf off. str_at buf off s", OF run ok3 buf this len(1) str]
  show "\<exists>r b' xs. fthen (set_nested True) (fthen (prep 4 ?k) (fthen m (endVector (length s)))) b = Some (r, b') \<and> fb_ok b' \<and>
      fb_buf b' = xs @ fb_buf b \<and> length xs \<le> length s + length rest + 7 \<and> str_at (fb_buf b') (unat r) s" .
qed

lemma createString_spec:
  "fb_spec (length s + 8) P (createString s) (\<lambda>off b. str_at (fb_buf b) (unat off) s)"
proof -
  have "createString s = fthen (set_nested True) (fthen (prep 4 (int (length (s @ [0])))) (fthen (fthen (placeByte 0) (place s)) (endVector (length s))))"
    by (simp add: createString_def fbind_assoc[symmetric])
  then show ?thesis
    using vector_spec[OF writes_then[OF writes_place[of "[0]"] writes_place[of s]], of P] by (simp add: placeByte_def add.commute)
qed

lemma createByteVector_spec:
  "fb_spec (length s + 7) P (createByteVector s) (\<lambda>off b. str_at (fb_buf b) (unat off) s)"
  using vector_spec[of "place s" s "[]"] writes_place[of s] by (simp add: createByteVector_def)


text \<open>A vector of references to what was written before.\<close>

fun ref_bytes :: "nat \<Rightarrow> nat list \<Rightarrow> bytes" where
  "ref_bytes l0 [] = []"
| "ref_bytes l0 (t # ts) = LE32 (of_nat (l0 + 4 * (length ts + 1) - t)) @ ref_bytes l0 ts"

lemma length_ref_bytes [simp]: "length (ref_bytes l0 ts) = 4 * length ts"
  by (induction ts) simp_all

lemma ref_bytes_nth:
  "at_off buf (l0 + 4 * length ts) (ref_bytes l0 ts) \<Longrightarrow> i < length ts \<Longrightarrow>
   at_off buf (l0 + 4 * (length ts - i)) (LE32 (of_nat (l0 + 4 * (length ts - i) - ts ! i)))"
proof (induction ts arbitrary: i)
  case (Cons t ts)
  then show ?case by (cases i) (simp_all add: at_off_append)
qed simp

definition vec_at :: "bytes \<Rightarrow> nat \<Rightarrow> nat list \<Rightarrow> bool" where
  "vec_at buf off ts \<longleftrightarrow>
     (\<exists>l0. off = l0 + 4 * length ts + 4 \<and> at_off buf off (LE32 (of_nat (length ts)) @ ref_bytes l0 ts) \<and>
           (\<forall>t\<in>set ts. 0 < t \<and> t \<le> l0)) \<and> off < 2 ^ 32"

lemma stable_vec_at [intro]: "stable (\<lambda>buf. vec_at buf off ts)"
  unfolding vec_at_def by (intro stable_conj stable_ex stable_at_off stable_const)

lemma fseq_snoc: "fseq (ms @ [m]) = fthen (fseq ms) m"
proof (induction ms)
  case Nil
  then show ?case by (simp add: fbind_def fret_def fun_eq_iff split: option.split)
next
  case (Cons k ms)
  then show ?case by (simp add: fbind_assoc)
qed

lemma prepend_refs:
  "fb_room b \<Longrightarrow> length (fb_buf b) mod 4 = 0 \<Longrightarrow> 4 * int (length ts) + 4 \<le> fbHead b \<Longrightarrow>
   (\<forall>t\<in>set ts. unat t \<le> length (fb_buf b)) \<Longrightarrow> length (fb_buf b) + 4 * length ts + 7 < 2 ^ 32 \<Longrightarrow>
   \<exists>b'. fseq (map prependUOffsetT (rev ts)) b = Some ((), b') \<and> fb_room b' \<and> keeps b b' \<and> 4 \<le> fbHead b' \<and>
     fbHead b - 4 * int (length ts) \<le> fbHead b' \<and>
     fb_buf b' = ref_bytes (length (fb_buf b)) (map unat ts) @ fb_buf b"
proof (induction ts)
  case Nil
  then show ?case by (simp add: fret_def)
next
  case (Cons t ts)
  then obtain b1 where b1: "fseq (map prependUOffsetT (rev ts)) b = Some ((), b1)" "fb_room b1" "keeps b b1"
    "fbHead b - 4 * int (length ts) \<le> fbHead b1" "fb_buf b1 = ref_bytes (length (fb_buf b)) (map unat ts) @ fb_buf b" by auto
  have l1: "length (fb_buf b1) = 4 * length ts + length (fb_buf b)" using b1(5) by simp
  have off: "unat t \<le> length (fb_buf b1)" "length (fb_buf b1) + 7 < 2 ^ 32" using Cons.prems(4,5) l1 by auto
  obtain b2 n where b2: "prependUOffsetT t b1 = Some ((), b2)" "fb_room b2" "keeps b1 b2" "n < 4" "(length (fb_buf b1) + n) mod 4 = 0"
    "fbHead b1 - int n - 4 \<le> fbHead b2" "fb_buf b2 = LE32 (of_nat (length (fb_buf b2) - unat t)) @ replicate n 0 @ fb_buf b1"
    using prepend_ref_ok[OF b1(2) off] by (elim exE conjE) (rule that)
  have "n = 0" using b2(4,5) l1 Cons.prems(2) by presburger
  with b2(7) have l2: "fb_buf b2 = LE32 (of_nat (length (fb_buf b2) - unat t)) @ fb_buf b1" by simp
  from arg_cong[OF this, of length] have "length (fb_buf b2) = length (fb_buf b) + 4 * (length ts + 1)" using l1 by simp
  with l2 have "fb_buf b2 = ref_bytes (length (fb_buf b)) (map unat (t # ts)) @ fb_buf b" using b1(5) by simp
  moreover have "fseq (map prependUOffsetT (rev (t # ts))) b = Some ((), b2)"
    using b1(1) b2(1) by (simp add: fseq_snoc fbind_Some)
  ultimately show ?case using b1 b2 \<open>n = 0\<close> Cons.prems(3)
    by (intro exI[of _ b2]) (auto intro: keeps_trans)
qed

lemma createRefVector_spec:
  "fb_spec (4 * length ts + 10) (\<lambda>b. \<forall>t\<in>set ts. 0 < unat t \<and> unat t \<le> length (fb_buf b)) (createRefVector ts)
     (\<lambda>off b. vec_at (fb_buf b) (unat off) (map unat ts))"
proof (rule fb_specI)
  fix b assume ok: "fb_ok b" and ts: "\<forall>t\<in>set ts. 0 < unat t \<and> unat t \<le> length (fb_buf b)"
    and lim: "length (fb_buf b) + (4 * length ts + 10) < 2 ^ 32"
  let ?b0 = "b\<lparr>fbNested := True\<rparr>" and ?k = "int (4 * length ts)"
  have r0: "fb_room ?b0" using ok by (simp add: fb_ok_def set_nested_ok)
  obtain b1 n where b1: "prep 4 ?k ?b0 = Some ((), b1)" "fb_room b1" "fb_buf b1 = replicate n 0 @ fb_buf b" "n < 4"
    "4 + ?k \<le> fbHead b1" "keeps b b1" "(int (length (fb_buf b1)) + ?k) mod 4 = 0"
    using prep_ok[OF r0, of 4 ?k] by (auto simp: set_nested_ok keeps_def)
  obtain b2 n' where b2: "prep 4 ?k b1 = Some ((), b2)" "fb_room b2" "fb_buf b2 = replicate n' 0 @ fb_buf b1" "n' < 4"
    "4 + ?k \<le> fbHead b2" "keeps b1 b2" "(int (length (fb_buf b2)) + ?k) mod 4 = 0"
    using prep_ok[OF b1(2), of 4 ?k] by auto
  have al: "length (fb_buf b2) mod 4 = 0" using b2(7) by presburger
  have "n' = 0" using b1(7) b2(3,4,7) by simp presburger
  then have buf2: "fb_buf b2 = replicate n 0 @ fb_buf b" using b1(3) b2(3) by simp
  have l2: "length (fb_buf b2) = n + length (fb_buf b)" by (simp add: buf2)
  have "\<forall>t\<in>set ts. unat t \<le> length (fb_buf b2)" using ts l2 by auto
  moreover have "length (fb_buf b2) + 4 * length ts + 7 < 2 ^ 32" using lim l2 b1(4) by simp
  moreover have "4 * int (length ts) + 4 \<le> fbHead b2" using b2(5) by simp
  ultimately obtain b3 where b3: "fseq (map prependUOffsetT (rev ts)) b2 = Some ((), b3)" "fb_room b3" "keeps b2 b3" "4 \<le> fbHead b3"
    "fb_buf b3 = ref_bytes (length (fb_buf b2)) (map unat ts) @ fb_buf b2"
    using prepend_refs[OF b2(2) al] by blast
  obtain b4 where b4: "endVector (length ts) b3 = Some (of_nat (length (fb_buf b4)), b4)" "fb_room b4" "keeps b3 b4"
    "fb_buf b4 = LE32 (of_nat (length ts)) @ fb_buf b3"
    using endVector_ok[OF b3(2,4)] by blast
  let ?ys = "LE32 (of_nat (length ts)) @ ref_bytes (length (fb_buf b2)) (map unat ts)"
  have buf4: "fb_buf b4 = ?ys @ fb_buf b2" using b4(4) b3(5) by simp
  then have buf: "fb_buf b4 = (?ys @ replicate n 0) @ fb_buf b" using buf2 by simp
  have "keeps b b4" using b1(6) b2(6) b3(3) b4(3) by (simp add: keeps_def)
  then have ok4: "fb_ok b4" by (rule fb_ok_keeps[OF ok _ b4(2) buf])
  have l4: "length (fb_buf b4) = length (fb_buf b2) + 4 * length ts + 4" "length (fb_buf b4) < 2 ^ 32"
    using buf4 lim l2 b1(4) by simp_all
  have "at_off (fb_buf b4) (length (fb_buf b4)) ?ys" unfolding buf4 by (intro at_off_front) simp
  then have vec: "vec_at (fb_buf b4) (length (fb_buf b4)) (map unat ts)"
    unfolding vec_at_def using l4 ts l2 by (intro conjI exI[of _ "length (fb_buf b2)"]) auto
  have run: "createRefVector ts b = Some (of_nat (length (fb_buf b4)), b4)"
    using b1(1) b2(1) b3(1) b4(1)
    by (simp add: createRefVector_def startVector_def fbind_Some set_nested_ok get_offset_def)
  have "length (?ys @ replicate n 0) \<le> 4 * length ts + 10" using b1(4) by simp
  from written_at[where R = "\<lambda>buf off. vec_at buf off (map unat ts)", OF run ok4 buf this l4(2) vec]
  show "\<exists>r b' xs. createRefVector ts b = Some (r, b') \<and> fb_ok b' \<and> fb_buf b' = xs @ fb_buf b \<and>
      length xs \<le> 4 * length ts + 10 \<and> vec_at (fb_buf b') (unat r) (map unat ts)" .
qed

end
