(* ===== verification/Flatbuffer_Table.thy ===== *)
theory Flatbuffer_Table
  imports Flatbuffer_Rep
begin

text \<open>
  Tables: what the slots of an object under construction hold, that \<^verbatim>\<open>writeVtable\<close> leaves a table with
  those fields whether it writes a vtable or shares an earlier one, and what the reader finds in it.
\<close>

section \<open>Field values\<close>

datatype fbval = VRef nat | V64 u64 | V32 u32 | V8 i8

fun is_default :: "fbval \<Rightarrow> bool" where
  "is_default (VRef t) \<longleftrightarrow> t = 0"
| "is_default (V64 x) \<longleftrightarrow> x = 0"
| "is_default (V32 x) \<longleftrightarrow> x = 0"
| "is_default (V8 x) \<longleftrightarrow> x = 1"

fun val_bytes :: "nat \<Rightarrow> fbval \<Rightarrow> bytes" where
  "val_bytes loc (VRef t) = LE32 (of_nat (loc - t))"
| "val_bytes loc (V64 x) = LE64 x"
| "val_bytes loc (V32 x) = LE32 x"
| "val_bytes loc (V8 x) = [x]"

fun val_ok :: "fbval \<Rightarrow> bytes \<Rightarrow> bool" where
  "val_ok (VRef t) buf \<longleftrightarrow> t \<le> length buf"
| "val_ok _ buf \<longleftrightarrow> True"

definition field_at :: "bytes \<Rightarrow> nat \<Rightarrow> fbval \<Rightarrow> bool" where
  "field_at buf loc v \<longleftrightarrow> at_off buf loc (val_bytes loc v) \<and> val_ok v (replicate loc 0)"

lemma stable_field_at [intro]: "stable (\<lambda>buf. field_at buf loc v)"
  unfolding field_at_def by (intro stable_conj stable_at_off stable_const)

lemma stable_val_ok [intro]: "stable (val_ok v)"
  by (cases v) (auto simp: stable_def)

text \<open>A computation that puts one aligned value in front of the buffer.\<close>

definition puts :: "unit fb \<Rightarrow> fbval \<Rightarrow> bool" where
  "puts m v \<longleftrightarrow> (\<forall>b. fb_room b \<longrightarrow> val_ok v (fb_buf b) \<longrightarrow> length (fb_buf b) + 15 < 2 ^ 32 \<longrightarrow>
     (\<exists>b' k. m b = Some ((), b') \<and> fb_room b' \<and> keeps b b' \<and> k < 8 \<and>
        fb_buf b' = val_bytes (length (fb_buf b')) v @ replicate k 0 @ fb_buf b))"

lemma puts_scalar:
  assumes "sz \<in> {1, 2, 4, 8}" "\<And>loc. int (length (val_bytes loc v)) = sz" "\<And>loc loc'. val_bytes loc v = val_bytes loc' v"
  shows "puts (fthen (prep sz 0) (place (val_bytes 0 v))) v"
  unfolding puts_def
proof (intro allI impI)
  fix b assume "fb_room b"
  from prepend_ok[OF this assms(1), of "val_bytes 0 v"] assms(2) obtain b' n where
    b': "fthen (prep sz 0) (place (val_bytes 0 v)) b = Some ((), b')" "fb_room b'" "keeps b b'" "int n < sz"
    "fb_buf b' = val_bytes 0 v @ replicate n 0 @ fb_buf b" by blast
  moreover have "n < 8" using b'(4) assms(1) by auto
  moreover have "val_bytes 0 v = val_bytes (length (fb_buf b')) v" by (rule assms(3))
  ultimately show "\<exists>b' k. fthen (prep sz 0) (place (val_bytes 0 v)) b = Some ((), b') \<and> fb_room b' \<and> keeps b b' \<and> k < 8 \<and>
      fb_buf b' = val_bytes (length (fb_buf b')) v @ replicate k 0 @ fb_buf b"
    by (metis (no_types, lifting))
qed

lemma puts_prepend:
  "puts (prependInt64 x) (V64 x)" "puts (prependInt32 y) (V32 y)" "puts (prependUint32 y) (V32 y)" "puts (prependInt8 z) (V8 z)"
  using puts_scalar[of 8 "V64 x"] puts_scalar[of 4 "V32 y"] puts_scalar[of 1 "V8 z"]
  by (simp_all add: prependInt64_def placeInt64_def prependInt32_def placeInt32_def prependUint32_def placeUint32_def
      prependInt8_def placeByte_def)

lemma puts_ref: "puts (prependUOffsetT t) (VRef (unat t))"
  unfolding puts_def
proof (intro allI impI)
  fix b assume b: "fb_room b" "val_ok (VRef (unat t)) (fb_buf b)" "length (fb_buf b) + 15 < 2 ^ 32"
  then have "unat t \<le> length (fb_buf b)" "length (fb_buf b) + 7 < 2 ^ 32" by simp_all
  from prepend_ref_ok[OF b(1) this] obtain b' n where b': "prependUOffsetT t b = Some ((), b')" "fb_room b'" "keeps b b'" "n < 4"
    "fb_buf b' = LE32 (of_nat (length (fb_buf b') - unat t)) @ replicate n 0 @ fb_buf b"
    by (elim exE conjE) (rule that)
  then have "fb_buf b' = val_bytes (length (fb_buf b')) (VRef (unat t)) @ replicate n 0 @ fb_buf b" by simp
  with b'(1-4) show "\<exists>b' k. prependUOffsetT t b = Some ((), b') \<and> fb_room b' \<and> keeps b b' \<and> k < 8 \<and>
      fb_buf b' = val_bytes (length (fb_buf b')) (VRef (unat t)) @ replicate k 0 @ fb_buf b"
    by (intro exI[of _ b'] exI[of _ n] conjI) simp_all
qed

section \<open>An object under construction\<close>

definition slot_holds :: "bytes \<Rightarrow> nat \<Rightarrow> u32 \<Rightarrow> fbval option \<Rightarrow> bool" where
  "slot_holds buf lo v fv =
     (case fv of None \<Rightarrow> v = 0
      | Some x \<Rightarrow> if is_default x then v = 0 else lo < unat v \<and> field_at buf (unat v) x)"

lemma slot_holds_prepend: "slot_holds buf lo v fv \<Longrightarrow> slot_holds (xs @ buf) lo v fv"
  using stable_field_at by (auto simp: slot_holds_def stable_def split: option.splits if_splits)

definition obj_open :: "nat \<Rightarrow> (nat \<times> fbval) list \<Rightarrow> fbBuilder \<Rightarrow> bool" where
  "obj_open n fvs b \<longleftrightarrow>
     length (fbVtable b) = n \<and> unat (fbObjectEnd b) \<le> length (fb_buf b) \<and>
     length (fb_buf b) \<le> unat (fbObjectEnd b) + 15 * length fvs \<and>
     (\<forall>i<n. slot_holds (fb_buf b) (unat (fbObjectEnd b)) (fbVtable b ! i) (map_of fvs i))"

lemma startObject_spec: "fb_spec 0 (\<lambda>b. P (fb_buf b)) (startObject n) (\<lambda>r b. obj_open n [] b \<and> P (fb_buf b))"
proof (rule fb_specI)
  fix b assume b: "fb_ok b" "P (fb_buf b)" "length (fb_buf b) + 0 < 2 ^ 32"
  let ?b = "b\<lparr>fbNested := True, fbVtable := replicate n 0, fbObjectEnd := fb_offset b\<rparr>"
  have room: "fb_room b" using b(1) by (simp add: fb_ok_def)
  have buf: "fb_buf ?b = fb_buf b" by (simp add: finishedBytes_def)
  have "unat (fb_offset b) = length (fb_buf b)" using fb_offset_buf[OF room] b(3) unat_u32[of "length (fb_buf b)"] by simp
  then have "obj_open n [] ?b" by (simp add: obj_open_def buf slot_holds_def)
  moreover have "fb_ok ?b" using b(1) by (simp add: fb_ok_def fb_room_def buf)
  ultimately show "\<exists>r b' xs. startObject n b = Some (r, b') \<and> fb_ok b' \<and> fb_buf b' = xs @ fb_buf b \<and> length xs \<le> 0 \<and>
      obj_open n [] b' \<and> P (fb_buf b')"
    using b(2) buf by (simp add: startObject_def)
qed

lemma val_bytes_length: "0 < length (val_bytes loc v) \<and> length (val_bytes loc v) \<le> 8"
  by (cases v) (simp_all only: val_bytes.simps le_lengths, simp_all)

lemma slot_spec:
  assumes m: "puts m v" and i: "i < n" "i \<notin> fst ` set fvs"
  shows "fb_spec 15 (\<lambda>b. obj_open n fvs b \<and> val_ok v (fb_buf b)) (if is_default v then fret () else fthen m (slot i))
     (\<lambda>r b. obj_open n ((i, v) # fvs) b)"
proof (cases "is_default v")
  case True
  have "obj_open n ((i, v) # fvs) b" if "obj_open n fvs b" for b
    using that True i by (auto simp: obj_open_def slot_holds_def map_of_eq_None_iff[symmetric])
  with True show ?thesis by (auto intro!: spec_ret)
next
  case False
  show ?thesis
  proof (rule fb_specI)
    fix b assume b: "fb_ok b" "obj_open n fvs b \<and> val_ok v (fb_buf b)" "length (fb_buf b) + 15 < 2 ^ 32"
    then have room: "fb_room b" by (simp add: fb_ok_def)
    obtain b1 k where b1: "m b = Some ((), b1)" "fb_room b1" "keeps b b1" "k < 8"
      "fb_buf b1 = val_bytes (length (fb_buf b1)) v @ replicate k 0 @ fb_buf b"
      using m room b(2,3) unfolding puts_def by blast
    let ?xs = "val_bytes (length (fb_buf b1)) v @ replicate k 0"
    have buf: "fb_buf b1 = ?xs @ fb_buf b" using b1(5) by simp
    have xs: "length ?xs \<le> 15" "0 < length ?xs" using val_bytes_length[of "length (fb_buf b1)" v] b1(4) by auto
    have len: "length (fb_buf b1) = length ?xs + length (fb_buf b)" using arg_cong[OF buf, of length] by simp
    let ?o = "fb_offset b1" and ?b2 = "b1\<lparr>fbVtable := (fbVtable b1)[i := fb_offset b1]\<rparr>"
    have o: "unat ?o = length (fb_buf b1)"
      using fb_offset_buf[OF b1(2)] unat_u32[of "length (fb_buf b1)"] len xs(1) b(3) by simp
    have eq: "fb_buf ?b2 = fb_buf b1" "fbVtable b1 = fbVtable b" "fbObjectEnd b1 = fbObjectEnd b" "fbVtables b1 = fbVtables b"
      using b1(3) by (simp_all add: finishedBytes_def keeps_def)
    have "at_off (fb_buf b1) (length (fb_buf b1)) (val_bytes (length (fb_buf b1)) v)"
      using b1(5) by (metis at_off_front append.assoc length_append)
    moreover have "val_ok v (replicate (length (fb_buf b1)) 0)" using b(2) len by (cases v) auto
    ultimately have fld: "field_at (fb_buf b1) (unat ?o) v" by (simp add: field_at_def o)
    have "slot_holds (fb_buf b1) (unat (fbObjectEnd b)) (((fbVtable b)[i := ?o]) ! j) (map_of ((i, v) # fvs) j)" if "j < n" for j
    proof (cases "j = i")
      case True
      have "unat (fbObjectEnd b) < length (fb_buf b1)" using b(2) xs(2) len unfolding obj_open_def by linarith
      with that i(1) b(2) True show ?thesis using False fld by (simp add: slot_holds_def obj_open_def o)
    next
      case False
      with that b(2) have "slot_holds (fb_buf b) (unat (fbObjectEnd b)) (fbVtable b ! j) (map_of fvs j)" by (simp add: obj_open_def)
      from slot_holds_prepend[OF this, of ?xs, unfolded buf[symmetric]] False show ?thesis by simp
    qed
    moreover have "fbVtable ?b2 = (fbVtable b)[i := ?o]" "fbObjectEnd ?b2 = fbObjectEnd b" by (simp_all add: eq)
    moreover have "unat (fbObjectEnd b) \<le> length (fb_buf b1)" "length (fb_buf b1) \<le> unat (fbObjectEnd b) + 15 * length ((i, v) # fvs)"
      using b(2) xs(1) len unfolding obj_open_def by auto
    ultimately have "obj_open n ((i, v) # fvs) ?b2"
      using b(2) unfolding obj_open_def by (simp only: eq(1) length_list_update) blast
    moreover have "fb_ok ?b2"
      using fb_ok_keeps[OF b(1) b1(3,2) buf] eq by (simp add: fb_ok_def fb_room_def)
    moreover have "fthen m (slot i) b = Some ((), ?b2)"
      using b1(1) i(1) b(2) eq(2) by (simp add: fbind_Some slot_def obj_open_def)
    ultimately show "\<exists>r b' xs. (if is_default v then fret () else fthen m (slot i)) b = Some (r, b') \<and> fb_ok b' \<and>
        fb_buf b' = xs @ fb_buf b \<and> length xs \<le> 15 \<and> obj_open n ((i, v) # fvs) b'"
      using False xs(1) buf eq(1) by (intro exI[of _ "()"] exI[of _ ?b2] exI[of _ ?xs]) simp
  qed
qed


text \<open>The calls that fill an object's slots, one after the other.\<close>

lemma slots_spec:
  "list_all2 (\<lambda>(i, v) op. i < n \<and> (\<exists>m. puts m v \<and> op = (if is_default v then fret () else fthen m (slot i)))) ivs ops \<Longrightarrow>
   distinct (map fst ivs) \<Longrightarrow> set (map fst ivs) \<inter> fst ` set fvs = {} \<Longrightarrow>
   fb_spec (15 * length ops) (\<lambda>b. obj_open n fvs b \<and> (\<forall>v\<in>snd ` set ivs. val_ok v (fb_buf b))) (fseq ops)
     (\<lambda>r b. obj_open n (rev ivs @ fvs) b)"
proof (induction ivs ops arbitrary: fvs rule: list_all2_induct)
  case Nil
  then show ?case by (auto intro: spec_ret)
next
  case (Cons iv ivs op ops)
  obtain i v where iv: "iv = (i, v)" by (cases iv)
  obtain m where m: "puts m v" "op = (if is_default v then fret () else fthen m (slot i))" "i < n" using Cons.hyps(1) iv by auto
  have "stable (\<lambda>buf. \<forall>v\<in>snd ` set ivs. val_ok v buf)" using stable_val_ok by (auto simp: stable_def)
  from spec_frame[OF slot_spec[OF m(1,3), of fvs] this] Cons.prems iv
  have "fb_spec 15 (\<lambda>b. obj_open n fvs b \<and> (\<forall>v\<in>snd ` set (iv # ivs). val_ok v (fb_buf b))) op
      (\<lambda>r b. obj_open n (iv # fvs) b \<and> (\<forall>v\<in>snd ` set ivs. val_ok v (fb_buf b)))"
    by (auto simp: m(2) conj_assoc)
  from spec_bind[OF this, of "15 * length ops" "\<lambda>_. fseq ops"] Cons.IH[of "iv # fvs"] Cons.prems iv
  show ?case by simp
qed

section \<open>Tables\<close>

definition tbl_entry :: "u16 list \<Rightarrow> nat \<Rightarrow> u16" where
  "tbl_entry es i = (if i < length es then es ! i else 0)"

definition entry_holds :: "bytes \<Rightarrow> nat \<Rightarrow> u16 \<Rightarrow> fbval option \<Rightarrow> bool" where
  "entry_holds buf off e fv =
     (case fv of None \<Rightarrow> e = 0
      | Some x \<Rightarrow> if is_default x then e = 0 else e \<noteq> 0 \<and> unat e \<le> off \<and> field_at buf (off - unat e) x)"

definition table_at :: "bytes \<Rightarrow> nat \<Rightarrow> nat \<Rightarrow> (nat \<times> fbval) list \<Rightarrow> bool" where
  "table_at buf n off fvs \<longleftrightarrow>
     (\<exists>vo es. at_off buf off (LE32 (vo - of_nat off)) \<and> vtable_at buf vo es \<and> 0 < off \<and> off < 2 ^ 32 \<and>
        (\<forall>i<n. entry_holds buf off (tbl_entry es i) (map_of fvs i)))"

lemma entry_holds_prepend: "entry_holds buf off e fv \<Longrightarrow> entry_holds (xs @ buf) off e fv"
  using stable_field_at by (auto simp: entry_holds_def stable_def split: option.splits if_splits)

lemma stable_table_at [intro]: "stable (\<lambda>buf. table_at buf n off fvs)"
  unfolding table_at_def stable_def by (meson at_off_prepend vtable_at_prepend entry_holds_prepend)

text \<open>The search for a shared vtable never leaves the buffer.\<close>

lemma length_entries: "length (concat (map LE16 es)) = 2 * length es"
  by (induction es) simp_all

lemma vtable_slice:
  assumes "vtable_at buf vo es"
  shows "unat vo \<le> length buf" "read_at 2 (length buf - unat vo) buf = Some (LE16 (of_nat (2 * length es + 4)))"
    "unat (of_nat (2 * length es + 4) :: u16) = 2 * length es + 4" "length buf - unat vo + (2 * length es + 4) \<le> length buf"
    "slice (length buf - unat vo + 4) (length buf - unat vo + (2 * length es + 4)) buf = concat (map LE16 es)"
proof -
  obtain sz where at: "at_off buf (unat vo) (LE16 (of_nat (2 * length es + 4)) @ LE16 sz @ concat (map LE16 es))" and es: "length es < 1000"
    using assms by (auto simp: vtable_at_def)
  note len = length_entries[of es]
  show "unat vo \<le> length buf" using at_off_le[OF at] by simp
  have "at_off buf (unat vo) (LE16 (of_nat (2 * length es + 4)))" using at by (simp add: at_off_append)
  from at_off_read[OF this] show "read_at 2 (length buf - unat vo) buf = Some (LE16 (of_nat (2 * length es + 4)))" by simp
  show "unat (of_nat (2 * length es + 4) :: u16) = 2 * length es + 4" using es by (intro unat_u16) simp
  have le: "4 + 2 * length es \<le> unat vo" using at_off_le[OF at] len by simp
  then show "length buf - unat vo + (2 * length es + 4) \<le> length buf" using at_off_le[OF at] by linarith
  have "at_off buf (unat vo - 4) (concat (map LE16 es))" using at by (simp add: at_off_append diff_diff_eq)
  from at_off_slice[OF this, of "[]"] have "slice (length buf - (unat vo - 4)) (length buf - (unat vo - 4) + 2 * length es) buf = concat (map LE16 es)"
    using len by simp
  moreover have "length buf - (unat vo - 4) = length buf - unat vo + 4" using le at_off_le[OF at] by linarith
  ultimately show "slice (length buf - unat vo + 4) (length buf - unat vo + (2 * length es + 4)) buf = concat (map LE16 es)"
    by (simp add: ac_simps)
qed

lemma find_vtable_ok:
  "(\<And>vo. vo \<in> set offs \<Longrightarrow> \<exists>es. vtable_at post vo es) \<Longrightarrow> buf = us @ post \<Longrightarrow>
   \<exists>e. find_vtable vt obj buf offs = Some e \<and>
     (e = 0 \<or> e \<in> set offs \<and> (\<exists>es. vtable_at post e es \<and> vtableEqual vt obj (concat (map LE16 es))))"
proof (induction offs)
  case (Cons vo offs)
  obtain es where es0: "vtable_at post vo es" using Cons.prems(1) by auto
  then have es: "vtable_at buf vo es" unfolding Cons.prems(2) by (rule vtable_at_prepend)
  obtain w k where w: "read_at 2 k buf = Some (LE16 w)" "unat w = 2 * length es + 4" and k: "length buf - unat vo = k"
    using vtable_slice(2,3)[OF es] by blast
  note s = vtable_slice[OF es, unfolded k]
  have "find_vtable vt obj buf (vo # offs) =
      (if vtableEqual vt obj (concat (map LE16 es)) then Some vo else find_vtable vt obj buf offs)"
    using s(1,4) w(2) by (simp add: k w(1) s(5) Let_def)
  then show ?case using Cons es0 by auto
qed simp

lemma slice_concat: "i < length es \<Longrightarrow> slice (i * 2) (i * 2 + 2) (concat (map LE16 es)) = LE16 (es ! i)"
proof (induction es arbitrary: i)
  case (Cons e es)
  then show ?case by (cases i) (auto simp: slice_def)
qed simp

lemma vtableEqual_entries:
  assumes "vtableEqual vt obj (concat (map LE16 es))"
  shows "length es = length vt" "\<And>i. i < length vt \<Longrightarrow> (es ! i = 0 \<and> vt ! i = 0) \<or> u32_of_u16 (es ! i) = obj - vt ! i"
proof -
  show len: "length es = length vt" using assms by (simp add: vtableEqual_def length_entries)
  show "(es ! i = 0 \<and> vt ! i = 0) \<or> u32_of_u16 (es ! i) = obj - vt ! i" if i: "i < length vt" for i
  proof -
    let ?x = "le16 (slice (i * 2) (i * 2 + 2) (concat (map LE16 es)))"
    have "?x = 0 \<and> vt ! i = 0 \<or> u32_of_u16 ?x = obj - vt ! i"
      using assms i unfolding vtableEqual_def list_all_iff Let_def set_upt by auto
    then show ?thesis using slice_concat[of i es] i len by (simp only: le_dec_enc)
  qed
qed


text \<open>Writing the entries of a new vtable: the buffer is aligned, so nothing comes between them.\<close>

lemma prepend_entry:
  assumes "fb_room b" "even (length (fb_buf b))"
  shows "\<exists>b'. prependVOffsetT e b = Some ((), b') \<and> fb_room b' \<and> keeps b b' \<and> fb_buf b' = LE16 e @ fb_buf b"
proof -
  obtain b' n where b': "fthen (prep 2 0) (place (LE16 e)) b = Some ((), b')" "fb_room b'" "keeps b b'" "int n < 2"
    "fb_buf b' = LE16 e @ replicate n 0 @ fb_buf b" "int (length (fb_buf b')) mod 2 = 0"
    using prepend_ok[OF assms(1), of 2 "LE16 e"] by auto
  then have "int (2 + n + length (fb_buf b)) mod 2 = 0" by simp
  then have "n = 0" using b'(4) assms(2) by presburger
  with b' show ?thesis by (intro exI[of _ b']) (simp add: prependVOffsetT_def placeUint16_def)
qed

lemma prepend_entries:
  "fb_room b \<Longrightarrow> even (length (fb_buf b)) \<Longrightarrow>
   \<exists>b'. fseq (map (\<lambda>v. prependVOffsetT (f v)) (rev vs)) b = Some ((), b') \<and> fb_room b' \<and> keeps b b' \<and>
     fb_buf b' = concat (map LE16 (map f vs)) @ fb_buf b"
proof (induction vs)
  case Nil
  then show ?case by (simp add: fret_def)
next
  case (Cons v vs)
  then obtain b1 where b1: "fseq (map (\<lambda>v. prependVOffsetT (f v)) (rev vs)) b = Some ((), b1)" "fb_room b1" "keeps b b1"
    "fb_buf b1 = concat (map LE16 (map f vs)) @ fb_buf b" by blast
  have "even (length (fb_buf b1))" using Cons.prems(2) b1(4) length_entries[of "map f vs"] by simp
  from prepend_entry[OF b1(2) this, of "f v"] obtain b2 where "prependVOffsetT (f v) b1 = Some ((), b2)" "fb_room b2" "keeps b1 b2"
    "fb_buf b2 = LE16 (f v) @ fb_buf b1" by blast
  with b1 show ?case by (intro exI[of _ b2]) (auto simp: fseq_snoc fbind_Some intro: keeps_trans)
qed

text \<open>Overwriting the reserved reference to the vtable.\<close>

lemma patch_ok:
  assumes "fb_room b" "fb_buf b = pre @ old @ post" "length old = 4" "unat obj = 4 + length post"
  shows "\<exists>b'. patch_object obj x b = Some ((), b') \<and> fb_room b' \<and> keeps b b' \<and> fb_buf b' = pre @ LE32 x @ post"
proof -
  define h where "h = nat (fbHead b)"
  have h: "fbHead b = int h" "h \<le> length (fbBytes b)" using assms(1) by (auto simp: fb_room_def h_def)
  define us where "us = take h (fbBytes b)"
  have "fbBytes b = us @ fb_buf b" by (simp add: us_def finishedBytes_def h_def)
  then have all: "fbBytes b = us @ pre @ old @ post" using assms(2) by simp
  have us: "length us = h" using h(2) by (simp add: us_def)
  have start: "int (length (fbBytes b)) - int (unat obj) = int (length us + length pre)" using assms(3,4) all by simp
  let ?b' = "b\<lparr>fbBytes := us @ pre @ LE32 x @ post\<rparr>"
  have "patch_object obj x b = Some ((), ?b')"
    unfolding patch_object_def start Let_def using assms(3) by (simp add: all copy_at_def)
  moreover have "fb_buf ?b' = pre @ LE32 x @ post" using us by (simp add: finishedBytes_def h(1))
  moreover have "fb_room ?b'" using assms(1,3) all by (simp add: fb_room_def)
  ultimately show ?thesis by (intro exI[of _ ?b']) (simp add: keeps_def)
qed

definition vt_bytes :: "u16 \<Rightarrow> u16 list \<Rightarrow> bytes" where
  "vt_bytes sz es = LE16 (of_nat (2 * length es + 4)) @ LE16 sz @ concat (map LE16 es)"

lemma length_vt_bytes [simp]: "length (vt_bytes sz es) = 2 * length es + 4"
  by (simp add: vt_bytes_def length_entries)

lemma write_new_vtable_ok:
  assumes room: "fb_room b" and buf: "fb_buf b = old @ post" "length old = 4" "unat obj = 4 + length post"
    and al: "even (length (fb_buf b))" and lim: "length (fb_buf b) + (2 * length (fbVtable b) + 4) < 2 ^ 32"
  shows "\<exists>b'. write_new_vtable obj b = Some ((), b') \<and> fb_room b' \<and> fbVtables b' = fbVtables b @ [of_nat (length (fb_buf b'))] \<and>
    fb_buf b' = vt_bytes (u16_of_u32 (obj - fbObjectEnd b)) (map (vtable_entry obj) (fbVtable b)) @
      LE32 (of_nat (length (fb_buf b')) - obj) @ post"
proof -
  let ?es = "map (vtable_entry obj) (fbVtable b)"
  obtain b1 where b1: "fseq (map (\<lambda>v. prependVOffsetT (vtable_entry obj v)) (rev (fbVtable b))) b = Some ((), b1)" "fb_room b1" "keeps b b1"
    "fb_buf b1 = concat (map LE16 ?es) @ fb_buf b"
    using prepend_entries[OF room al, of "vtable_entry obj" "fbVtable b"] by blast
  have l1: "length (fb_buf b1) = 2 * length (fbVtable b) + length (fb_buf b)" using b1(4) length_entries[of ?es] by simp
  then have "even (length (fb_buf b1))" using al by simp
  from prepend_entry[OF b1(2) this] obtain b2 where b2: "prependVOffsetT (u16_of_u32 (obj - fbObjectEnd b)) b1 = Some ((), b2)" "fb_room b2" "keeps b1 b2"
    "fb_buf b2 = LE16 (u16_of_u32 (obj - fbObjectEnd b)) @ fb_buf b1" by blast
  then have "even (length (fb_buf b2))" using \<open>even (length (fb_buf b1))\<close> by simp
  from prepend_entry[OF b2(2) this] obtain b3 where b3: "prependVOffsetT (of_nat ((length (fbVtable b) + 2) * 2)) b2 = Some ((), b3)" "fb_room b3" "keeps b2 b3"
    "fb_buf b3 = LE16 (of_nat ((length (fbVtable b) + 2) * 2)) @ fb_buf b2" by blast
  have "(length (fbVtable b) + 2) * 2 = 2 * length ?es + 4" by simp
  then have b3': "fb_buf b3 = vt_bytes (u16_of_u32 (obj - fbObjectEnd b)) ?es @ old @ post"
    unfolding vt_bytes_def using b3(4) b2(4) b1(4) buf(1) by (simp add: add.commute mult.commute)
  from patch_ok[OF b3(2) this buf(2,3), of "fb_offset b3 - obj"] obtain b4 where b4: "patch_object obj (fb_offset b3 - obj) b3 = Some ((), b4)"
    "fb_room b4" "keeps b3 b4" "fb_buf b4 = vt_bytes (u16_of_u32 (obj - fbObjectEnd b)) ?es @ LE32 (fb_offset b3 - obj) @ post" by blast
  have len: "length (fb_buf b4) = length (fb_buf b3)" using b3' b4(4) buf(2) by simp
  have o3: "fb_offset b3 = of_nat (length (fb_buf b4))" "fb_offset b4 = of_nat (length (fb_buf b4))"
    using fb_offset_buf[OF b3(2)] fb_offset_buf[OF b4(2)] len by simp_all
  let ?b' = "b4\<lparr>fbVtables := fbVtables b4 @ [fb_offset b4]\<rparr>"
  have eq: "fb_buf ?b' = fb_buf b4" by (simp add: finishedBytes_def)
  have "write_new_vtable obj b = Some ((), ?b')"
    using b1(1) b2(1) b3(1) b4(1) by (simp add: write_new_vtable_def fbind_Some)
  moreover have "fbVtables b4 = fbVtables b" using b1(3) b2(3) b3(3) b4(3) by (simp add: keeps_def)
  moreover have "fb_room ?b'" using b4(2) by (simp add: fb_room_def)
  moreover have "fb_buf ?b' = vt_bytes (u16_of_u32 (obj - fbObjectEnd b)) ?es @ LE32 (of_nat (length (fb_buf ?b')) - obj) @ post"
    using b4(4) unfolding eq o3(1) .
  moreover have "fbVtables ?b' = fbVtables b @ [of_nat (length (fb_buf ?b'))]"
    unfolding eq using \<open>fbVtables b4 = fbVtables b\<close> o3(2) by simp
  ultimately show ?thesis by (intro exI[of _ ?b'] conjI)
qed


lemma trim_vtable_zeros: obtains j where "vt = trim_vtable vt @ replicate j 0"
proof
  have "vt = rev (takeWhile (\<lambda>v. v = 0) (rev vt) @ dropWhile (\<lambda>v. v = 0) (rev vt))" by simp
  then have "vt = trim_vtable vt @ rev (takeWhile (\<lambda>v. v = 0) (rev vt))" unfolding trim_vtable_def by (metis rev_append)
  moreover have "rev (takeWhile (\<lambda>v. v = 0) (rev vt)) = replicate (length (takeWhile (\<lambda>v. v = 0) (rev vt))) 0"
    by (rule replicate_eqI) (auto dest: set_takeWhileD)
  ultimately show "vt = trim_vtable vt @ replicate (length (takeWhile (\<lambda>v. v = 0) (rev vt))) 0" by simp
qed

lemma unat_u32_u16: "unat (u32_of_u16 e) = unat e"
proof -
  have "unat e < 2 ^ 16" using unsigned_less[of e] by simp
  then have "unat e < 2 ^ 32" by simp
  then show ?thesis by (simp add: unsigned_ucast_eq take_bit_nat_eq_self)
qed

lemma u16_of_u32_u16: "u16_of_u32 (u32_of_u16 e) = e"
  by (simp add: unsigned_ucast_eq take_bit_word_eq_self)

lemma vtable_entry_0 [simp]: "vtable_entry obj 0 = 0"
  by (simp add: vtable_entry_def)

lemma vtable_entry_val:
  assumes "v \<noteq> 0" "unat v \<le> unat obj" "unat obj - unat v < 2 ^ 16"
  shows "unat (vtable_entry obj v) = unat obj - unat v"
proof -
  have "unat (obj - v) = unat obj - unat v" using assms(2) by (simp add: unat_sub word_le_nat_alt)
  then show ?thesis using assms(1,3) by (simp add: vtable_entry_def unsigned_ucast_eq take_bit_nat_eq_self)
qed

lemma vtable_entry_le: "v \<noteq> 0 \<Longrightarrow> unat v \<le> unat obj \<Longrightarrow> unat (vtable_entry obj v) < unat obj"
proof -
  assume v: "v \<noteq> 0" "unat v \<le> unat obj"
  then have "unat (obj - v) = unat obj - unat v" by (simp add: unat_sub word_le_nat_alt)
  then have "unat (vtable_entry obj v) \<le> unat obj - unat v" using v(1) by (simp add: vtable_entry_def unsigned_ucast_eq take_bit_nat_less_eq_self)
  moreover have "0 < unat v" using v(1) by (simp add: unat_gt_0)
  ultimately show ?thesis using v(2) by linarith
qed

lemma nth_zeros: "vt = us @ replicate j 0 \<Longrightarrow> i < length vt \<Longrightarrow> vt ! i = (if i < length us then us ! i else (0 :: u32))"
  by (auto simp: nth_append)

lemma tbl_entry_trim: "i < length vt \<Longrightarrow> tbl_entry (map (vtable_entry obj) (trim_vtable vt)) i = vtable_entry obj (vt ! i)"
proof -
  assume i: "i < length vt"
  obtain j where "vt = trim_vtable vt @ replicate j 0" by (rule trim_vtable_zeros)
  from nth_zeros[OF this i] have "vt ! i = (if i < length (trim_vtable vt) then trim_vtable vt ! i else 0)" .
  then show ?thesis by (simp add: tbl_entry_def)
qed

lemma length_trim_vtable: "length (trim_vtable vt) \<le> length vt"
  by (rule trim_vtable_zeros[of vt]) (metis length_append le_add1)

lemma set_trim_vtable: "set (trim_vtable vt) \<subseteq> set vt"
  by (rule trim_vtable_zeros[of vt]) (metis set_append Un_upper1)

text \<open>The entries of a shared vtable are those a new one would have.\<close>

lemma shared_entries:
  assumes eq: "vtableEqual (trim_vtable vt) obj (concat (map LE16 es))" and es: "\<forall>e\<in>set es. unat e < unat obj"
    and vt: "\<forall>v\<in>set vt. unat v < unat obj" and i: "i < length vt"
  shows "tbl_entry es i = vtable_entry obj (vt ! i)"
proof -
  note e = vtableEqual_entries[OF eq]
  have "tbl_entry es i = tbl_entry (map (vtable_entry obj) (trim_vtable vt)) i"
  proof (cases "i < length (trim_vtable vt)")
    case True
    let ?v = "trim_vtable vt ! i"
    have lt: "unat (es ! i) < unat obj" using es True e(1) by simp
    have "es ! i = vtable_entry obj ?v"
    proof (cases "?v = 0")
      case True
      then have "es ! i = 0 \<or> u32_of_u16 (es ! i) = obj" using e(2)[OF \<open>i < length (trim_vtable vt)\<close>] by simp
      moreover have "u32_of_u16 (es ! i) \<noteq> obj" using lt unat_u32_u16[of "es ! i"] by auto
      ultimately show ?thesis using True by simp
    next
      case False
      then have "u32_of_u16 (es ! i) = obj - ?v" using e(2)[OF \<open>i < length (trim_vtable vt)\<close>] by simp
      from arg_cong[OF this, of "ucast :: u32 \<Rightarrow> u16"] show ?thesis using False by (simp add: vtable_entry_def u16_of_u32_u16)
    qed
    with True e(1) show ?thesis by (simp add: tbl_entry_def)
  next
    case False
    with e(1) show ?thesis by (simp add: tbl_entry_def)
  qed
  with tbl_entry_trim[OF i] show ?thesis by simp
qed


text \<open>The object is linked to a vtable, a new or a shared one, with the entries of its slots.\<close>

lemma link_vtable_ok:
  assumes room: "fb_room b" and buf: "fb_buf b = LE32 0 @ post" "unat obj = 4 + length post" "even (length post)"
    and vts: "\<And>vo. vo \<in> set (fbVtables b) \<Longrightarrow> \<exists>es. vtable_at post vo es" and tr: "fbVtable b = trim_vtable vt"
    and vt: "\<forall>v\<in>set vt. unat v < unat obj" "length vt < 1000" and lim: "length (fb_buf b) + (2 * length vt + 4) < 2 ^ 32"
  shows "\<exists>b' vo es pre. fbind (find_existing obj)
      (\<lambda>existing. if existing = 0 then write_new_vtable obj else use_existing obj existing) b = Some ((), b') \<and>
    fb_room b' \<and> (\<forall>vo\<in>set (fbVtables b'). \<exists>es. vtable_at (fb_buf b') vo es) \<and>
    fb_buf b' = pre @ LE32 (vo - obj) @ post \<and> length pre \<le> 2 * length vt + 4 \<and>
    vtable_at (fb_buf b') vo es \<and> (\<forall>i<length vt. tbl_entry es i = vtable_entry obj (vt ! i))"
proof -
  define us where "us = take (nat (fbHead b)) (fbBytes b) @ LE32 0"
  have bytes: "fbBytes b = us @ post" using buf(1) by (simp add: us_def finishedBytes_def) (metis append_take_drop_id)
  have "\<exists>es. vtable_at post vo es" if "vo \<in> set (rev (fbVtables b))" for vo using vts that by simp
  from find_vtable_ok[of "rev (fbVtables b)" post "fbBytes b" us "fbVtable b" obj, OF this bytes]
  obtain e where e: "find_vtable (fbVtable b) obj (fbBytes b) (rev (fbVtables b)) = Some e"
    and found: "e = 0 \<or> e \<in> set (fbVtables b) \<and> (\<exists>es. vtable_at post e es \<and> vtableEqual (fbVtable b) obj (concat (map LE16 es)))"
    by auto
  have run: "fbind (find_existing obj) f b = f e b" for f :: "u32 \<Rightarrow> unit fb" by (simp add: fbind_def find_existing_def e)
  show ?thesis
  proof (cases "e = 0")
    case True
    let ?es = "map (vtable_entry obj) (trim_vtable vt)" and ?sz = "u16_of_u32 (obj - fbObjectEnd b)"
    have "even (length (fb_buf b))" "length (fb_buf b) + (2 * length (fbVtable b) + 4) < 2 ^ 32"
      using buf lim length_trim_vtable[of vt] by (simp_all add: tr)
    from write_new_vtable_ok[OF room buf(1) _ buf(2) this] obtain b' where b': "write_new_vtable obj b = Some ((), b')" "fb_room b'"
      "fbVtables b' = fbVtables b @ [of_nat (length (fb_buf b'))]"
      "fb_buf b' = vt_bytes ?sz ?es @ LE32 (of_nat (length (fb_buf b')) - obj) @ post"
      unfolding tr by (auto simp del: length_map)
    let ?vo = "of_nat (length (fb_buf b')) :: u32"
    have len: "length (fb_buf b') = 2 * length (trim_vtable vt) + 8 + length post" using arg_cong[OF b'(4), of length] by simp
    have vo: "unat ?vo = length (fb_buf b')" using len lim buf(1) length_trim_vtable[of vt] by (intro unat_u32) simp
    have "unat x < unat ?vo" if x: "x \<in> set ?es" for x
    proof -
      obtain v where v: "x = vtable_entry obj v" "v \<in> set vt" using x set_trim_vtable[of vt] by auto
      then have "unat x < unat obj" using vt(1) vtable_entry_le[of v obj] buf(2) by (cases "v = 0") force+
      then show ?thesis using vo len buf(2) by simp
    qed
    moreover have "at_off (fb_buf b') (length (fb_buf b')) (vt_bytes ?sz ?es)"
      by (subst b'(4)) (rule at_off_front, use len in simp)
    ultimately have new: "vtable_at (fb_buf b') ?vo ?es"
      using vt(2) length_trim_vtable[of vt] unfolding vtable_at_def vo vt_bytes_def by auto
    have old: "\<exists>es. vtable_at (fb_buf b') vo es" if "vo \<in> set (fbVtables b)" for vo
      using vts[OF that] vtable_at_prepend[of post vo _ "vt_bytes ?sz ?es @ LE32 (?vo - obj)"] b'(4) by auto
    show ?thesis unfolding run
      by (intro exI[of _ b'] exI[of _ ?vo] exI[of _ ?es] exI[of _ "vt_bytes ?sz ?es"] conjI)
        (use True b' new old length_trim_vtable[of vt] tbl_entry_trim[of _ vt obj] in auto)
  next
    case False
    with found obtain es where es: "vtable_at post e es" "vtableEqual (trim_vtable vt) obj (concat (map LE16 es))" by (auto simp: tr)
    have h: "int (length (fbBytes b)) - int (unat obj) = fbHead b" using length_fb_buf[OF room] buf(1,2) by simp
    obtain b' where b': "patch_object obj (e - obj) b = Some ((), b')" "fb_room b'" "keeps b b'" "fb_buf b' = LE32 (e - obj) @ post"
      using patch_ok[OF room, of "[]" "LE32 0" post obj "e - obj"] buf(1,2) by auto
    have go: "use_existing obj e b = Some ((), b')" using b'(1) unfolding use_existing_def h by simp
    have vts': "\<exists>es. vtable_at (fb_buf b') vo es" if "vo \<in> set (fbVtables b')" for vo
      unfolding b'(4) using vts[of vo] that b'(3) vtable_at_prepend[of post vo _ "LE32 (e - obj)"] by (auto simp: keeps_def)
    have at: "vtable_at (fb_buf b') e es" unfolding b'(4) by (rule vtable_at_prepend[OF es(1)])
    have "unat e \<le> length post" by (rule vtable_slice(1)[OF es(1)])
    then have "\<forall>x\<in>set es. unat x < unat obj" using es(1) buf(2) unfolding vtable_at_def by fastforce
    then have "tbl_entry es i = vtable_entry obj (vt ! i)" if "i < length vt" for i using shared_entries[OF es(2) _ vt(1) that] by blast
    with False go b' vts' at show ?thesis unfolding run
      by (intro exI[of _ b'] exI[of _ e] exI[of _ es] exI[of _ "[]"] conjI) simp_all
  qed
qed


lemma slot_entry:
  assumes "slot_holds buf lo v fv" "fb = pad @ buf" "lo \<le> length buf" "length buf < unat obj" "unat obj < lo + 2 ^ 16"
  shows "entry_holds fb (unat obj) (vtable_entry obj v) fv"
proof (cases "\<exists>x. fv = Some x \<and> \<not> is_default x")
  case True
  then obtain x where x: "fv = Some x" "\<not> is_default x" by blast
  with assms(1) have v: "lo < unat v" "field_at buf (unat v) x" by (auto simp: slot_holds_def)
  then have le: "unat v \<le> length buf" using at_off_le by (auto simp: field_at_def)
  have "v \<noteq> 0" using v(1) by auto
  with le assms(4,5) v(1) have e: "unat (vtable_entry obj v) = unat obj - unat v" by (intro vtable_entry_val) auto
  then have "vtable_entry obj v \<noteq> 0" using le assms(4) by auto
  moreover have "field_at fb (unat v) x" using v(2) stable_field_at unfolding assms(2) stable_def by blast
  ultimately show ?thesis using x e le assms(4) by (simp add: entry_holds_def)
next
  case False
  with assms(1) show ?thesis by (cases fv) (auto simp: slot_holds_def entry_holds_def)
qed

lemma slot_holds_less:
  assumes "slot_holds buf lo v fv" "length buf < k"
  shows "unat v < k"
  using assms at_off_le by (fastforce simp: slot_holds_def field_at_def split: option.splits if_splits)

lemma fbind_apply: "fbind (fbind m f) g b = (case fbind m f b of None \<Rightarrow> None | Some (x, b') \<Rightarrow> g x b')"
  by (simp add: fbind_def)

lemma endObject_spec:
  assumes n: "n < 1000" "length fvs < 1000"
  shows "fb_spec (2 * n + 11) (obj_open n fvs) endObject (\<lambda>off b. table_at (fb_buf b) n (unat off) fvs)"
proof (rule fb_specI)
  fix b assume ok: "fb_ok b" and op: "obj_open n fvs b" and lim: "length (fb_buf b) + (2 * n + 11) < 2 ^ 32"
  let ?vt = "fbVtable b" and ?lo = "unat (fbObjectEnd b)"
  have room: "fb_room b" using ok by (simp add: fb_ok_def)
  obtain b1 k where b1: "prependSOffsetT 0 b = Some ((), b1)" "fb_room b1" "keeps b b1" "k < 4"
    "fb_buf b1 = LE32 0 @ replicate k 0 @ fb_buf b" "int (length (fb_buf b1)) mod 4 = 0"
    using prepend_ok[OF room, of 4 "LE32 0"] by (auto simp: prependSOffsetT_def placeInt32_def placeUint32_def)
  let ?post = "replicate k 0 @ fb_buf b" and ?obj = "fb_offset b1" and ?b2 = "b1\<lparr>fbVtable := trim_vtable (fbVtable b1)\<rparr>"
  have obj: "unat ?obj = 4 + length ?post"
    using fb_offset_buf[OF b1(2)] b1(5) lim b1(4) unat_u32[of "length (fb_buf b1)"] by simp
  have b2: "fb_room ?b2" "fb_buf ?b2 = LE32 0 @ ?post" "fbVtable ?b2 = trim_vtable ?vt" "fbVtables ?b2 = fbVtables b"
    using b1(2,3,5) by (simp_all add: fb_room_def keeps_def finishedBytes_def)
  have l2: "length (fb_buf ?b2) = 4 + k + length (fb_buf b)" using b2(2) by simp
  have al: "even (length ?post)" using b1(5,6) by simp presburger
  have vts: "\<exists>es. vtable_at ?post vo es" if "vo \<in> set (fbVtables ?b2)" for vo
  proof -
    obtain es where "vtable_at (fb_buf b) vo es" using ok \<open>vo \<in> set (fbVtables ?b2)\<close> unfolding fb_ok_def b2(4) by blast
    from vtable_at_prepend[OF this] show ?thesis by (rule exI)
  qed
  have slots: "slot_holds (fb_buf b) ?lo (?vt ! i) (map_of fvs i)" if "i < n" for i using op that by (simp add: obj_open_def)
  have nvt: "length ?vt = n" using op by (simp add: obj_open_def)
  have "unat v < unat ?obj" if "v \<in> set ?vt" for v
  proof -
    obtain i where i: "i < n" "v = ?vt ! i" using \<open>v \<in> set ?vt\<close> nvt by (auto simp: in_set_conv_nth)
    from slot_holds_less[OF slots[OF i(1)], of "unat ?obj"] i(2) obj show ?thesis by simp
  qed
  then have "\<exists>b' vo es pre. fbind (find_existing ?obj)
      (\<lambda>existing. if existing = 0 then write_new_vtable ?obj else use_existing ?obj existing) ?b2 = Some ((), b') \<and>
    fb_room b' \<and> (\<forall>vo\<in>set (fbVtables b'). \<exists>es. vtable_at (fb_buf b') vo es) \<and>
    fb_buf b' = pre @ LE32 (vo - ?obj) @ ?post \<and> length pre \<le> 2 * length ?vt + 4 \<and>
    vtable_at (fb_buf b') vo es \<and> (\<forall>i<length ?vt. tbl_entry es i = vtable_entry ?obj (?vt ! i))"
    using n(1) nvt lim l2 b1(4) by (intro link_vtable_ok[OF b2(1,2) obj al vts b2(3)]) auto
  then obtain b3 vo es pre where b3: "fbind (find_existing ?obj)
      (\<lambda>existing. if existing = 0 then write_new_vtable ?obj else use_existing ?obj existing) ?b2 = Some ((), b3)"
    "fb_room b3" "\<forall>vo\<in>set (fbVtables b3). \<exists>es. vtable_at (fb_buf b3) vo es"
    "fb_buf b3 = pre @ LE32 (vo - ?obj) @ ?post" "length pre \<le> 2 * n + 4" "vtable_at (fb_buf b3) vo es"
    "\<And>i. i < n \<Longrightarrow> tbl_entry es i = vtable_entry ?obj (?vt ! i)" unfolding nvt by (elim exE conjE) (rule that, auto)
  let ?b4 = "b3\<lparr>fbVtable := []\<rparr>"
  have eq: "fb_buf ?b4 = fb_buf b3" by (simp add: finishedBytes_def)
  have "endObject b = Some (?obj, ?b4)"
    using b1(1) b3(1) by (auto simp: endObject_def writeVtable_def fbind_def get_offset_def trim_slots_def clear_slots_def fret_def
        split: option.splits)
  moreover have "fb_ok ?b4" using b3(2,3) by (simp add: fb_ok_def fb_room_def eq)
  moreover have "fb_buf ?b4 = (pre @ LE32 (vo - ?obj) @ replicate k 0) @ fb_buf b" by (simp add: eq b3(4))
  moreover have "length (pre @ LE32 (vo - ?obj) @ replicate k 0) \<le> 2 * n + 11" using b3(5) b1(4) by simp
  moreover have "table_at (fb_buf ?b4) n (unat ?obj) fvs"
  proof -
    have "at_off (LE32 (vo - ?obj) @ ?post) (unat ?obj) (LE32 (vo - ?obj))" by (rule at_off_front) (simp add: obj)
    then have "at_off (fb_buf b3) (unat ?obj) (LE32 (vo - of_nat (unat ?obj)))" unfolding b3(4) by (simp add: at_off_prepend)
    moreover have "entry_holds (fb_buf b3) (unat ?obj) (tbl_entry es i) (map_of fvs i)" if "i < n" for i
      unfolding b3(7)[OF that]
      by (rule slot_entry[OF slots[OF that], of _ "pre @ LE32 (vo - ?obj) @ replicate k 0"])
        (use b3(4) op obj b1(4) n(2) in \<open>auto simp: obj_open_def\<close>)
    ultimately show ?thesis
      unfolding table_at_def eq using b3(6) obj lim b1(4) by (intro exI[of _ vo] exI[of _ es]) auto
  qed
  ultimately show "\<exists>r b' xs. endObject b = Some (r, b') \<and> fb_ok b' \<and> fb_buf b' = xs @ fb_buf b \<and> length xs \<le> 2 * n + 11 \<and>
      table_at (fb_buf b') n (unat r) fvs"
    by blast
qed

end
