(* ===== verification/Flatbuffer_Read.thy ===== *)
theory Flatbuffer_Read
  imports Flatbuffer_Table
begin

text \<open>
  What the reader of \<^verbatim>\<open>Flatbuffer\<close> returns on a buffer with the structures of \<^verbatim>\<open>Flatbuffer_Rep\<close> and
  \<^verbatim>\<open>Flatbuffer_Table\<close>: fields, strings, vectors, and whole objects written by the builder.
\<close>

section \<open>Objects\<close>

lemma map_of_rev_distinct: "distinct (map fst xs) \<Longrightarrow> map_of (rev xs) = map_of xs"
  by (subst map_of_inject_set) (simp_all flip: rev_map)

definition slot_calls :: "nat \<Rightarrow> (nat \<times> fbval) list \<Rightarrow> unit fb list \<Rightarrow> bool" where
  "slot_calls n ivs ops \<longleftrightarrow>
     list_all2 (\<lambda>(i, v) op. i < n \<and> (\<exists>m. puts m v \<and> op = (if is_default v then fret () else fthen m (slot i)))) ivs ops"

lemma slot_calls_Nil [simp]: "slot_calls n [] []"
  by (simp add: slot_calls_def)

lemma slot_call_one:
  "i < n \<Longrightarrow> puts m v \<Longrightarrow> slot_calls n ivs ops \<Longrightarrow> op = (if is_default v then fret () else fthen m (slot i)) \<Longrightarrow>
   slot_calls n ((i, v) # ivs) (op # ops)"
  unfolding slot_calls_def by auto

lemma slot_call_Cons:
  assumes "i < n" "slot_calls n ivs ops"
  shows "slot_calls n ((i, V64 x) # ivs) (prependInt64Slot i x 0 # ops)"
    "slot_calls n ((i, V32 y) # ivs) (prependInt32Slot i y 0 # ops)"
    "slot_calls n ((i, V32 y) # ivs) (prependUint32Slot i y 0 # ops)"
    "slot_calls n ((i, V8 z) # ivs) (prependInt8Slot i z 1 # ops)"
    "slot_calls n ((i, VRef (unat t)) # ivs) (prependUOffsetTSlot i t 0 # ops)"
proof -
  note one = slot_call_one[OF assms(1) _ assms(2)]
  show "slot_calls n ((i, V64 x) # ivs) (prependInt64Slot i x 0 # ops)"
    by (rule one[OF puts_prepend(1)]) (simp add: prependInt64Slot_def)
  show "slot_calls n ((i, V32 y) # ivs) (prependInt32Slot i y 0 # ops)"
    by (rule one[OF puts_prepend(2)]) (simp add: prependInt32Slot_def)
  show "slot_calls n ((i, V32 y) # ivs) (prependUint32Slot i y 0 # ops)"
    by (rule one[OF puts_prepend(3)]) (simp add: prependUint32Slot_def)
  show "slot_calls n ((i, V8 z) # ivs) (prependInt8Slot i z 1 # ops)"
    by (rule one[OF puts_prepend(4)]) (simp add: prependInt8Slot_def)
  show "slot_calls n ((i, VRef (unat t)) # ivs) (prependUOffsetTSlot i t 0 # ops)"
    by (rule one[OF puts_ref]) (simp add: prependUOffsetTSlot_def unat_eq_zero)
qed

lemma slot_calls_snoc: "slot_calls n ivs ops \<Longrightarrow> slot_calls n [iv] [op] \<Longrightarrow> slot_calls n (ivs @ [iv]) (ops @ [op])"
  unfolding slot_calls_def by (rule list_all2_appendI)

lemma object_spec:
  assumes calls: "slot_calls n ivs ops" and n: "n < 1000" "length ivs < 1000" "distinct (map fst ivs)"
  shows "fb_spec (15 * length ops + 2 * n + 11) (\<lambda>b. \<forall>v\<in>snd ` set ivs. val_ok v (fb_buf b))
    (fthen (startObject n) (fthen (fseq ops) endObject)) (\<lambda>off b. table_at (fb_buf b) n (unat off) ivs)"
proof -
  note slots = slots_spec[OF calls[unfolded slot_calls_def] n(3), of "[]"]
  have fin: "fb_spec (2 * n + 11) (obj_open n (rev ivs)) endObject (\<lambda>off b. table_at (fb_buf b) n (unat off) ivs)"
    using endObject_spec[OF n(1), of "rev ivs"] n(2) map_of_rev_distinct[OF n(3)] by (simp add: table_at_def)
  have "fb_spec (15 * length ops + (2 * n + 11)) (\<lambda>b. obj_open n [] b \<and> (\<forall>v\<in>snd ` set ivs. val_ok v (fb_buf b)))
      (fthen (fseq ops) endObject) (\<lambda>off b. table_at (fb_buf b) n (unat off) ivs)"
    by (rule spec_bind[OF slots]) (simp_all add: fin)
  from spec_bind[OF startObject_spec[of "\<lambda>buf. \<forall>v\<in>snd ` set ivs. val_ok v buf" n] this] show ?thesis by (simp add: add.assoc)
qed

section \<open>Reading\<close>

definition view :: "bytes \<Rightarrow> bytes \<Rightarrow> nat \<Rightarrow> fbTable" where
  "view buf spare off = \<lparr>tbuf = buf, tspare = spare, tpos = of_nat (length buf - off)\<rparr>"

lemma view_simps [simp]: "tbuf (view buf spare off) = buf" "tspare (view buf spare off) = spare"
  "tpos (view buf spare off) = of_nat (length buf - off)"
  by (simp_all add: view_def)

lemma get_at:
  assumes "length buf < 2 ^ 32"
  shows "at_off buf off (LE16 x) \<Longrightarrow> get16 buf (of_nat (length buf - off)) = Some x"
    "at_off buf off (LE32 y) \<Longrightarrow> get32 buf (of_nat (length buf - off)) = Some y"
    "at_off buf off (LE64 z) \<Longrightarrow> get64 buf (of_nat (length buf - off)) = Some z"
proof -
  have u: "unat (of_nat (length buf - off) :: u32) = length buf - off" using assms by (intro unat_u32) simp
  show "at_off buf off (LE16 x) \<Longrightarrow> get16 buf (of_nat (length buf - off)) = Some x"
    unfolding get16_def u by (simp add: at_off_read)
  show "at_off buf off (LE32 y) \<Longrightarrow> get32 buf (of_nat (length buf - off)) = Some y"
    unfolding get32_def u by (simp add: at_off_read)
  show "at_off buf off (LE64 z) \<Longrightarrow> get64 buf (of_nat (length buf - off)) = Some z"
    unfolding get64_def u by (simp add: at_off_read)
qed

lemma pos_sub: "off \<le> L \<Longrightarrow> (of_nat (L - off) :: u32) = of_nat L - of_nat off"
  by (rule of_nat_diff)

lemma tbl_offset_at:
  assumes lim: "length buf < 2 ^ 32" and soff: "at_off buf off (LE32 (vo - of_nat off))" and vt: "vtable_at buf vo es" and i: "i < 1000"
  shows "tbl_offset (view buf spare off) (of_nat (4 + 2 * i)) = Some (u32_of_u16 (tbl_entry es i))"
proof -
  obtain sz where at: "at_off buf (unat vo) (LE16 (of_nat (2 * length es + 4)) @ LE16 sz @ concat (map LE16 es))" and es: "length es < 1000"
    using vt by (auto simp: vtable_at_def)
  have le: "unat vo \<le> length buf" "4 + 2 * length es \<le> unat vo" "off \<le> length buf"
    using at_off_le[OF at] at_off_le[OF soff] length_entries[of es] by auto
  have pos: "(of_nat (length buf - off) :: u32) - (vo - of_nat off) = of_nat (length buf - unat vo)"
    using le by (simp add: pos_sub)
  obtain w :: u16 where w: "unat w = 4 + 2 * i" "w = of_nat (4 + 2 * i)" using i unat_u16[of "4 + 2 * i"] by simp
  obtain l :: u16 where l: "unat l = 2 * length es + 4" "l = of_nat (2 * length es + 4)" using es unat_u16[of "2 * length es + 4"] by simp
  have "at_off buf (unat vo) (LE16 l)" using at unfolding l(2)[symmetric] by (simp add: at_off_append)
  then have len: "get16 buf (of_nat (length buf - unat vo)) = Some l" by (rule get_at[OF lim])
  have cond: "w < l \<longleftrightarrow> i < length es" using w(1) l(1) by (simp add: word_less_nat_alt)
  have entry: "get16 buf (of_nat (length buf - unat vo) + u32_of_u16 w) = Some (es ! i)" if i': "i < length es"
  proof -
    have "at_off buf (unat vo - 4) (concat (map LE16 es))" using at by (simp add: at_off_append diff_diff_eq)
    from at_off_concat_nth[OF this, of 2 i] i' have "at_off buf (unat vo - 4 - 2 * i) (LE16 (es ! i))" by simp
    from get_at(1)[OF lim this] have "get16 buf (of_nat (length buf - (unat vo - 4 - 2 * i))) = Some (es ! i)" .
    moreover have "u32_of_u16 w = of_nat (4 + 2 * i)"
      using w(1) unat_u32[of "4 + 2 * i"] i unat_u32_u16[of w] by (simp add: word_unat_eq_iff)
    then have "of_nat (length buf - unat vo) + u32_of_u16 w = (of_nat (length buf - unat vo + (4 + 2 * i)) :: u32)" by simp
    moreover have "length buf - unat vo + (4 + 2 * i) = length buf - (unat vo - 4 - 2 * i)" using le i' by linarith
    ultimately show ?thesis by metis
  qed
  have "get32 buf (of_nat (length buf - off)) = Some (vo - of_nat off)" by (rule get_at(2)[OF lim soff])
  then have "tbl_offset (view buf spare off) w = (if w < l then map_option u32_of_u16 (get16 buf (of_nat (length buf - unat vo) + u32_of_u16 w)) else Some 0)"
    unfolding tbl_offset_def view_simps by (simp only: Option.bind.bind_lunit pos len)
  then show ?thesis unfolding w(2)[symmetric] using entry cond by (simp add: tbl_entry_def)
qed

text \<open>What a field of a table holds, as the reader sees it.\<close>

lemma table_field:
  assumes "table_at buf n off fvs" "length buf < 2 ^ 32" "i < n" "i < 1000"
  obtains k where "tbl_offset (view buf spare off) (of_nat (4 + 2 * i)) = Some k"
    "case map_of fvs i of None \<Rightarrow> k = 0
     | Some x \<Rightarrow> if is_default x then k = 0
               else k \<noteq> 0 \<and> (\<exists>loc. k + of_nat (length buf - off) = of_nat (length buf - loc) \<and> field_at buf loc x)"
proof -
  obtain vo es where t: "at_off buf off (LE32 (vo - of_nat off))" "vtable_at buf vo es"
    "entry_holds buf off (tbl_entry es i) (map_of fvs i)" using assms(1,3) by (auto simp: table_at_def)
  let ?e = "tbl_entry es i"
  have off: "off \<le> length buf" using at_off_le[OF t(1)] by simp
  have "u32_of_u16 ?e + of_nat (length buf - off) = of_nat (length buf - (off - unat ?e))" if e: "unat ?e \<le> off"
  proof -
    have "u32_of_u16 ?e = of_nat (unat ?e)" by simp
    moreover have "length buf - (off - unat ?e) = unat ?e + (length buf - off)" using e off by linarith
    ultimately show ?thesis by simp
  qed
  moreover have "u32_of_u16 ?e = 0 \<longleftrightarrow> ?e = 0" using unat_u32_u16[of ?e] by (metis unat_eq_zero)
  moreover note t(3)
  ultimately show thesis
    by (intro that[OF tbl_offset_at[OF assms(2) t(1,2) assms(4)]])
      (auto simp only: entry_holds_def split: option.splits if_splits)
qed

lemma ref_target:
  assumes "length buf < 2 ^ 32" "field_at buf loc (VRef t)"
  shows "get32 buf (of_nat (length buf - loc)) = Some (of_nat (loc - t))"
    "of_nat (length buf - loc) + of_nat (loc - t) = (of_nat (length buf - t) :: u32)" "t \<le> loc" "loc \<le> length buf"
proof -
  have f: "at_off buf loc (LE32 (of_nat (loc - t)))" "t \<le> loc"
    using assms(2) unfolding field_at_def val_bytes.simps val_ok.simps length_replicate by blast+
  show "get32 buf (of_nat (length buf - loc)) = Some (of_nat (loc - t))" by (rule get_at(2)[OF assms(1) f(1)])
  show "t \<le> loc" by (rule f(2))
  show "loc \<le> length buf" using at_off_le[OF f(1)] by simp
  then show "of_nat (length buf - loc) + of_nat (loc - t) = (of_nat (length buf - t) :: u32)"
    using f(2) by (simp add: pos_sub of_nat_diff)
qed

lemma indirect_at:
  "length buf < 2 ^ 32 \<Longrightarrow> field_at buf loc (VRef t) \<Longrightarrow>
   indirect (view buf spare off) (of_nat (length buf - loc)) = Some (of_nat (length buf - t))"
  using ref_target by (simp add: indirect_def)

lemma byteVector_at:
  assumes lim: "length buf < 2 ^ 32" and f: "field_at buf loc (VRef t)" and str: "str_at buf t s"
  shows "byteVector (view buf spare off) (of_nat (length buf - loc)) = Some s"
proof -
  note r = ref_target[OF lim f]
  have at: "at_off buf t (LE32 (of_nat (length s)) @ s)" using str by (simp add: str_at_def)
  then have s: "at_off buf t (LE32 (of_nat (length s)))" "at_off buf (t - 4) s" "4 \<le> t" by (auto simp: at_off_append)
  have le: "4 + length s \<le> t" "t \<le> length buf" using at_off_le[OF at] by auto
  let ?p = "length buf - (t - 4)"
  have p: "?p = length buf - t + 4" using le s(3) by linarith
  have start: "of_nat (length buf - t) + 4 = (of_nat ?p :: u32)" by (simp add: p)
  have fin: "(of_nat ?p :: u32) + of_nat (length s) = of_nat (?p + length s)" by simp
  have u: "unat (of_nat ?p :: u32) = ?p" "unat (of_nat (?p + length s) :: u32) = ?p + length s"
    using lim le by (intro unat_u32; simp add: p)+
  have "byteVector (view buf spare off) (of_nat (length buf - loc)) =
      (if (of_nat ?p :: u32) \<le> of_nat (?p + length s) \<and> unat (of_nat (?p + length s) :: u32) \<le> length buf + length spare
       then Some (slice (unat (of_nat ?p :: u32)) (unat (of_nat (?p + length s) :: u32)) (buf @ spare)) else None)"
    unfolding byteVector_def view_simps by (simp only: r(1,2) get_at(2)[OF lim s(1)] Option.bind.bind_lunit Let_def start fin)
  also have "\<dots> = Some (slice ?p (?p + length s) (buf @ spare))"
  proof -
    have "?p \<le> ?p + length s" "?p + length s \<le> length buf + length spare" using le p by linarith+
    then show ?thesis unfolding word_le_nat_alt u by simp
  qed
  also have "\<dots> = Some s" using at_off_slice[OF s(2), of spare] by simp
  finally show ?thesis .
qed

lemma vec_elem:
  assumes "vec_at buf t ts" "i < length ts"
  shows "field_at buf (t - 4 - 4 * i) (VRef (ts ! i))" "4 + 4 * i \<le> t"
proof -
  obtain l0 where v: "t = l0 + 4 * length ts + 4" "at_off buf t (LE32 (of_nat (length ts)) @ ref_bytes l0 ts)" "\<forall>x\<in>set ts. x \<le> l0"
    using assms(1) by (auto simp: vec_at_def)
  then have "at_off buf (l0 + 4 * length ts) (ref_bytes l0 ts)" by (simp add: at_off_append)
  from ref_bytes_nth[OF this assms(2)] have "at_off buf (l0 + 4 * (length ts - i)) (LE32 (of_nat (l0 + 4 * (length ts - i) - ts ! i)))" .
  moreover have "t - 4 - 4 * i = l0 + 4 * (length ts - i)" using v(1) assms(2) by (simp add: right_diff_distrib')
  moreover have "ts ! i \<le> l0" using v(3) assms(2) by simp
  ultimately show "field_at buf (t - 4 - 4 * i) (VRef (ts ! i))" by (simp add: field_at_def)
  show "4 + 4 * i \<le> t" using v(1) assms(2) by simp
qed

lemma vectorRange_at:
  assumes lim: "length buf < 2 ^ 32" and f: "field_at buf loc (VRef t)" and vec: "vec_at buf t ts"
    and k: "k + of_nat (length buf - off) = of_nat (length buf - loc)"
  shows "vectorRange (view buf spare off) k 4 = Some (of_nat (length buf - (t - 4)), length ts)"
proof -
  note r = ref_target[OF lim f]
  obtain l0 where v: "t = l0 + 4 * length ts + 4" "at_off buf t (LE32 (of_nat (length ts)) @ ref_bytes l0 ts)" "t < 2 ^ 32"
    using vec by (auto simp: vec_at_def)
  then have s: "at_off buf t (LE32 (of_nat (length ts)))" by (simp add: at_off_append)
  have le: "4 + 4 * length ts \<le> t" "t \<le> length buf" using v(1) at_off_le[OF v(2)] by auto
  let ?p = "length buf - (t - 4)"
  have p: "?p = length buf - t + 4" using le by linarith
  have start: "of_nat (length buf - t) + 4 = (of_nat ?p :: u32)" by (simp add: p)
  have u: "unat (of_nat ?p :: u32) = ?p" "unat (of_nat (length ts) :: u32) = length ts"
    using lim le by (intro unat_u32; simp add: p)+
  have "vectorLen (view buf spare off) k = Some (length ts)"
    unfolding vectorLen_def view_simps k by (simp only: r(1,2) get_at(2)[OF lim s] Option.bind.bind_lunit option.map u)
  moreover have "vector_start (view buf spare off) k = Some (of_nat ?p)"
    unfolding vector_start_def view_simps k by (simp only: r(1,2) option.map start)
  moreover have "?p + length ts * 4 \<le> length buf" using le p by linarith
  ultimately show ?thesis unfolding vectorRange_def view_simps by (simp only: Option.bind.bind_lunit u) simp
qed

lemma vec_pos:
  assumes "vec_at buf t ts" "i < length ts" "t \<le> length buf"
  shows "of_nat (length buf - (t - 4)) + of_nat i * 4 = (of_nat (length buf - (t - 4 - 4 * i)) :: u32)"
proof -
  have "length buf - (t - 4 - 4 * i) = length buf - (t - 4) + i * 4" using vec_elem(2)[OF assms(1,2)] assms(3) by linarith
  then show ?thesis by simp
qed

end
