(* ===== verification/Ztoc_Marshal.thy ===== *)
theory Ztoc_Marshal
  imports Ztoc Flatbuffer_Read
begin

text \<open>
  What \<^verbatim>\<open>Marshal\<close> writes: predicates that relate the parts of a ztoc to the bytes at an offset, and the triples
  of the marshalling functions, with the number of bytes each needs at most.
\<close>

section \<open>Strings\<close>

lemma unat_of_char: "unat (of_char c :: byte) = of_char c"
proof -
  have "of_char c < (256 :: nat)" by simp
  then have "unat (of_nat (of_char c) :: byte) = of_char c" by (simp add: unat_of_nat)
  then show ?thesis by (simp only: of_nat_of_char)
qed

lemma go_string_str_bytes [simp]: "go_string (str_bytes s) = s"
  by (simp add: go_string_def str_bytes_def comp_def unat_of_char)

abbreviation text_at :: "bytes \<Rightarrow> nat \<Rightarrow> string \<Rightarrow> bool" where
  "text_at buf off s \<equiv> str_at buf off (str_bytes s)"

lemma fb_string_spec: "fb_spec (length s + 8) P (fb_string s) (\<lambda>off b. text_at (fb_buf b) (unat off) s)"
  using createString_spec[of "str_bytes s" P] by (simp add: fb_string_def)

lemma str_at_off: "str_at buf off s \<Longrightarrow> 0 < off \<and> off \<le> length buf"
  by (auto simp: str_at_def dest: at_off_le)

lemma vec_at_off: "vec_at buf off ts \<Longrightarrow> 0 < off \<and> off \<le> length buf"
  by (auto simp: vec_at_def dest: at_off_le)

lemma table_at_off: "table_at buf n off fvs \<Longrightarrow> 0 < off \<and> off \<le> length buf"
  by (auto simp: table_at_def dest: at_off_le)

section \<open>Sequences\<close>

text \<open>A fact about the buffer that holds before a computation can be used after it.\<close>

lemma spec_keep:
  assumes "fb_spec c (\<lambda>b. True) m (\<lambda>r b. Q r (fb_buf b))" "stable R" "\<And>r. fb_spec d (\<lambda>b. R (fb_buf b) \<and> Q r (fb_buf b)) (f r) S"
  shows "fb_spec (c + d) (\<lambda>b. R (fb_buf b)) (fbind m f) S"
  by (rule spec_bind[OF spec_weaken[OF spec_frame[OF assms(1,2)]] assms(3)]) auto

lemma spec_start:
  "fb_spec c (\<lambda>b. R (fb_buf b)) m Q \<Longrightarrow> (\<And>buf. R buf) \<Longrightarrow> fb_spec c (\<lambda>b. True) m Q"
  by (rule spec_weaken) auto

lemma ftraverse_spec:
  assumes "\<And>x. x \<in> set xs \<Longrightarrow> fb_spec (c x) (\<lambda>b. True) (f x) (\<lambda>off b. R (fb_buf b) (unat off) x)"
    and "\<And>off x. stable (\<lambda>buf. R buf off x)"
  shows "fb_spec (sum_list (map c xs)) (\<lambda>b. True) (ftraverse f xs) (\<lambda>offs b. list_all2 (\<lambda>off x. R (fb_buf b) (unat off) x) offs xs)"
  using assms(1)
proof (induction xs)
  case Nil
  then show ?case by (auto intro: spec_ret)
next
  case (Cons x xs)
  have tail: "fb_spec (sum_list (map c xs) + 0) (\<lambda>b. R (fb_buf b) (unat y) x) (fbind (ftraverse f xs) (\<lambda>ys. fret (y # ys)))
      (\<lambda>offs b. list_all2 (\<lambda>off x. R (fb_buf b) (unat off) x) offs (x # xs))" for y
    using Cons by (intro spec_keep[where R = "\<lambda>buf. R buf (unat y) x", OF _ assms(2)]) (auto intro: spec_ret)
  show ?case
    using spec_bind[OF Cons.prems[of x] tail] by simp
qed

lemma offsets_ok:
  assumes "list_all2 (\<lambda>off x. R buf (unat off) x) offs xs" "\<And>off x. R buf off x \<Longrightarrow> 0 < off \<and> off \<le> length buf"
  shows "\<forall>t\<in>set offs. 0 < unat t \<and> unat t \<le> length buf"
proof
  fix t assume "t \<in> set offs"
  then obtain i where "i < length offs" "t = offs ! i" by (auto simp: in_set_conv_nth)
  with assms show "0 < unat t \<and> unat t \<le> length buf" by (auto simp: list_all2_conv_all_nth)
qed

text \<open>A vector of references to the elements of a list.\<close>

definition elems_at :: "(bytes \<Rightarrow> nat \<Rightarrow> 'a \<Rightarrow> bool) \<Rightarrow> bytes \<Rightarrow> nat \<Rightarrow> 'a list \<Rightarrow> bool" where
  "elems_at R buf off xs \<longleftrightarrow> (\<exists>ts. vec_at buf off ts \<and> list_all2 (\<lambda>t x. R buf t x) ts xs)"

lemma stable_list_all2: "(\<And>off x. stable (\<lambda>buf. R buf off x)) \<Longrightarrow> stable (\<lambda>buf. list_all2 (\<lambda>t x. R buf t x) ts xs)"
  by (auto simp: stable_def elim!: list_all2_mono)

lemma stable_elems_at: "(\<And>off x. stable (\<lambda>buf. R buf off x)) \<Longrightarrow> stable (\<lambda>buf. elems_at R buf off xs)"
  unfolding elems_at_def by (intro stable_ex stable_conj stable_vec_at stable_list_all2)

lemma createRefs_spec:
  fixes offs :: "u32 list"
  assumes st: "\<And>off x. stable (\<lambda>buf. R buf off x)" and off: "\<And>buf off x. R buf off x \<Longrightarrow> 0 < off \<and> off \<le> length buf"
  shows "fb_spec (4 * length xs + 10) (\<lambda>b. list_all2 (\<lambda>off x. R (fb_buf b) (unat off) x) offs xs) (createRefVector offs)
    (\<lambda>off b. elems_at R (fb_buf b) (unat off) xs)"
proof (cases "length offs = length xs")
  case True
  let ?Q = "\<lambda>buf. list_all2 (\<lambda>off x. R buf (unat off) x) offs xs"
  have "stable ?Q" using st by (auto simp: stable_def elim!: list_all2_mono)
  from spec_frame[OF createRefVector_spec[of offs] this] show ?thesis
  proof (rule spec_weaken)
    fix b assume "?Q (fb_buf b)"
    with offsets_ok[of R "fb_buf b" offs xs, OF this off]
    show "(\<forall>t\<in>set offs. 0 < unat t \<and> unat t \<le> length (fb_buf b)) \<and> ?Q (fb_buf b)" by simp
  qed (auto simp: True elems_at_def list_all2_map1 intro!: exI[of _ "map unat offs"])
next
  case False
  then have "\<not> list_all2 (\<lambda>off x. R buf (unat off) x) offs xs" for buf using list_all2_lengthD by blast
  then show ?thesis by (auto intro: fb_specI)
qed

lemma elems_spec:
  assumes "\<And>x. x \<in> set xs \<Longrightarrow> fb_spec (c x) (\<lambda>b. True) (f x) (\<lambda>off b. R (fb_buf b) (unat off) x)"
    and st: "\<And>off x. stable (\<lambda>buf. R buf off x)" and off: "\<And>buf off x. R buf off x \<Longrightarrow> 0 < off \<and> off \<le> length buf"
  shows "fb_spec (sum_list (map c xs) + (4 * length xs + 10)) (\<lambda>b. True) (fbind (ftraverse f xs) createRefVector)
    (\<lambda>off b. elems_at R (fb_buf b) (unat off) xs)"
  by (rule spec_bind[OF ftraverse_spec[OF assms(1) st] createRefs_spec[OF st off]])

section \<open>File metadata\<close>

definition xattr_at :: "bytes \<Rightarrow> nat \<Rightarrow> string \<times> string \<Rightarrow> bool" where
  "xattr_at buf off kv \<longleftrightarrow>
     (\<exists>k v. table_at buf 2 off [(0, VRef k), (1, VRef v)] \<and> text_at buf k (fst kv) \<and> text_at buf v (snd kv))"

lemma stable_xattr_at: "stable (\<lambda>buf. xattr_at buf off kv)"
  unfolding xattr_at_def by (intro stable_ex stable_conj stable_table_at stable_str_at)

definition xattr_size :: "string \<times> string \<Rightarrow> nat" where
  "xattr_size kv = length (fst kv) + length (snd kv) + 61"

lemma marshal_xattr_spec: "fb_spec (xattr_size kv) (\<lambda>b. True) (marshal_xattr kv) (\<lambda>off b. xattr_at (fb_buf b) (unat off) kv)"
proof -
  obtain k v where kv: "kv = (k, v)" by (cases kv)
  let ?R = "\<lambda>ko vo buf. text_at buf ko k \<and> text_at buf vo v"
  have obj: "fb_spec 45 (\<lambda>b. ?R (unat ko) (unat vo) (fb_buf b))
      (fthen (startObject 2) (fthen (fseq [prependUOffsetTSlot 0 ko 0, prependUOffsetTSlot 1 vo 0]) endObject))
      (\<lambda>off b. table_at (fb_buf b) 2 (unat off) [(0, VRef (unat ko)), (1, VRef (unat vo))] \<and> ?R (unat ko) (unat vo) (fb_buf b))" for ko vo
  proof -
    have "slot_calls 2 [(0, VRef (unat ko)), (1, VRef (unat vo))] [prependUOffsetTSlot 0 ko 0, prependUOffsetTSlot 1 vo 0]"
      by (intro slot_call_Cons slot_calls_Nil) simp_all
    from spec_frame[OF object_spec[OF this] stable_conj[OF stable_str_at stable_str_at]]
    show ?thesis by (rule spec_weaken) (auto dest: str_at_off)
  qed
  have "fb_spec ((length k + 8) + ((length v + 8) + 45)) (\<lambda>b. True) (marshal_xattr kv) (\<lambda>off b. xattr_at (fb_buf b) (unat off) kv)"
    unfolding marshal_xattr_def kv prod.case
    by (rule spec_bind[OF fb_string_spec], rule spec_keep[OF fb_string_spec stable_str_at], rule spec_weaken[OF obj])
      (auto simp: xattr_at_def)
  then show ?thesis by (rule spec_weaken) (simp_all add: xattr_size_def kv)
qed

definition xattrs_size :: "(string, string) gomap option \<Rightarrow> nat" where
  "xattrs_size pax = sum_list (map xattr_size (sorted_entries pax)) + (4 * length (sorted_entries pax) + 10)"

lemma marshalXattrs_spec:
  "fb_spec (xattrs_size pax) (\<lambda>b. True) (marshalXattrs pax) (\<lambda>off b. elems_at xattr_at (fb_buf b) (unat off) (sorted_entries pax))"
proof -
  have "marshalXattrs pax = fbind (ftraverse marshal_xattr (sorted_entries pax)) createRefVector"
    by (simp add: marshalXattrs_def sorted_entries_def Let_def)
  moreover have "0 < off \<and> off \<le> length buf" if "xattr_at buf off kv" for buf off kv
    using that table_at_off by (auto simp: xattr_at_def)
  ultimately show ?thesis
    using elems_spec[of "sorted_entries pax" xattr_size marshal_xattr xattr_at, OF marshal_xattr_spec stable_xattr_at] by (simp add: xattrs_size_def)
qed

lemma elems_at_off: "elems_at R buf off xs \<Longrightarrow> 0 < off \<and> off \<le> length buf"
  by (auto simp: elems_at_def dest: vec_at_off)

definition fm_fields :: "fileMetadata \<Rightarrow> nat \<Rightarrow> nat \<Rightarrow> nat \<Rightarrow> nat \<Rightarrow> nat \<Rightarrow> nat \<Rightarrow> nat \<Rightarrow> (nat \<times> fbval) list" where
  "fm_fields me name typ linkname uname gname modTime xattrs =
     [(0, VRef name), (1, VRef typ), (2, V64 (of_int (fmUncompressedOffset me))), (3, V64 (of_int (fmUncompressedSize me))),
      (4, VRef linkname), (5, V64 (of_int (fmMode me))), (6, V32 (of_int (fmUID me))), (7, V32 (of_int (fmGID me))),
      (8, VRef uname), (9, VRef gname), (10, VRef modTime), (11, V64 (of_int (fmDevmajor me))),
      (12, V64 (of_int (fmDevminor me))), (13, VRef xattrs)]"

definition fm_parts :: "ztocLib \<Rightarrow> fileMetadata \<Rightarrow> nat \<Rightarrow> nat \<Rightarrow> nat \<Rightarrow> nat \<Rightarrow> nat \<Rightarrow> nat \<Rightarrow> nat \<Rightarrow> bytes \<Rightarrow> bool" where
  "fm_parts L me name typ linkname uname gname modTime xattrs buf \<longleftrightarrow>
     text_at buf name (fmName me) \<and> text_at buf typ (fmType me) \<and> text_at buf linkname (fmLinkname me) \<and>
     text_at buf uname (fmUname me) \<and> text_at buf gname (fmGname me) \<and> str_at buf modTime (marshalText L (fmModTime me)) \<and>
     elems_at xattr_at buf xattrs (sorted_entries (fmPAXHeaders me))"

lemma stable_fm_parts: "stable (fm_parts L me name ftype linkname uname gname modTime xattrs)"
  unfolding fm_parts_def by (intro stable_conj stable_str_at stable_elems_at stable_xattr_at)

definition fm_at :: "ztocLib \<Rightarrow> bytes \<Rightarrow> nat \<Rightarrow> fileMetadata \<Rightarrow> bool" where
  "fm_at L buf off me \<longleftrightarrow>
     (\<exists>name typ linkname uname gname modTime xattrs.
        table_at buf 14 off (fm_fields me name typ linkname uname gname modTime xattrs) \<and>
        fm_parts L me name typ linkname uname gname modTime xattrs buf)"

lemma fm_atI:
  "table_at buf 14 off (fm_fields me name ftype linkname uname gname modTime xattrs) \<Longrightarrow>
   fm_parts L me name ftype linkname uname gname modTime xattrs buf \<Longrightarrow> fm_at L buf off me"
  unfolding fm_at_def by (intro exI conjI)

lemma fm_partsI:
  "text_at buf name (fmName me) \<Longrightarrow> text_at buf ftype (fmType me) \<Longrightarrow> text_at buf linkname (fmLinkname me) \<Longrightarrow>
   text_at buf uname (fmUname me) \<Longrightarrow> text_at buf gname (fmGname me) \<Longrightarrow> str_at buf modTime (marshalText L (fmModTime me)) \<Longrightarrow>
   elems_at xattr_at buf xattrs (sorted_entries (fmPAXHeaders me)) \<Longrightarrow>
   fm_parts L me name ftype linkname uname gname modTime xattrs buf"
  by (simp add: fm_parts_def)

lemma fm_parts_off:
  assumes "fm_parts L me name ftype linkname uname gname modTime xattrs buf"
  shows "name \<le> length buf \<and> ftype \<le> length buf \<and> linkname \<le> length buf \<and> uname \<le> length buf \<and> gname \<le> length buf \<and>
    modTime \<le> length buf \<and> xattrs \<le> length buf"
  using assms by (auto simp: fm_parts_def dest: str_at_off elems_at_off)

lemma stable_fm_at: "stable (\<lambda>buf. fm_at L buf off me)"
  unfolding fm_at_def by (intro stable_ex stable_conj stable_table_at stable_fm_parts)

definition fm_size :: "ztocLib \<Rightarrow> fileMetadata \<Rightarrow> nat" where
  "fm_size L me = length (fmName me) + length (fmType me) + length (fmLinkname me) + length (fmUname me) + length (fmGname me) +
     length (marshalText L (fmModTime me)) + xattrs_size (fmPAXHeaders me) + 297"

lemma fm_object_spec:
  fixes name ftype linkname uname gname modTime xattrs :: u32 and me :: fileMetadata
  defines "fs \<equiv> fm_fields me (unat name) (unat ftype) (unat linkname) (unat uname) (unat gname) (unat modTime) (unat xattrs)"
  assumes st: "stable R" and off: "\<And>buf. R buf \<Longrightarrow> unat name \<le> length buf \<and> unat ftype \<le> length buf \<and> unat linkname \<le> length buf \<and>
    unat uname \<le> length buf \<and> unat gname \<le> length buf \<and> unat modTime \<le> length buf \<and> unat xattrs \<le> length buf"
  shows "fb_spec 249 (\<lambda>b. R (fb_buf b)) (fthen (startObject 14) (fthen (fseq
         [prependUOffsetTSlot 0 name 0, prependUOffsetTSlot 1 ftype 0,
          prependInt64Slot 2 (of_int (fmUncompressedOffset me)) 0, prependInt64Slot 3 (of_int (fmUncompressedSize me)) 0,
          prependUOffsetTSlot 4 linkname 0, prependInt64Slot 5 (of_int (fmMode me)) 0,
          prependUint32Slot 6 (of_int (fmUID me)) 0, prependUint32Slot 7 (of_int (fmGID me)) 0,
          prependUOffsetTSlot 8 uname 0, prependUOffsetTSlot 9 gname 0, prependUOffsetTSlot 10 modTime 0,
          prependInt64Slot 11 (of_int (fmDevmajor me)) 0, prependInt64Slot 12 (of_int (fmDevminor me)) 0,
          prependUOffsetTSlot 13 xattrs 0]) endObject))
    (\<lambda>off b. table_at (fb_buf b) 14 (unat off) fs \<and> R (fb_buf b))" (is "fb_spec _ _ (fthen _ (fthen (fseq ?ops) _)) _")
proof -
  have "slot_calls 14 fs ?ops" unfolding fs_def fm_fields_def by (intro slot_call_Cons slot_calls_Nil) simp_all
  from spec_frame[OF object_spec[OF this] st] show ?thesis
    by (rule spec_weaken) (auto simp: fs_def fm_fields_def dest: off)
qed

lemma marshalFileMetadata_spec:
  "fb_spec (fm_size L me) (\<lambda>b. True) (marshalFileMetadata L me) (\<lambda>off b. fm_at L (fb_buf b) (unat off) me)"
proof -
  have "fb_spec ((length (fmName me) + 8) + ((length (fmType me) + 8) + ((length (fmLinkname me) + 8) + ((length (fmUname me) + 8) +
      ((length (fmGname me) + 8) + ((length (marshalText L (fmModTime me)) + 8) + (xattrs_size (fmPAXHeaders me) + 249)))))))
      (\<lambda>b. True) (marshalFileMetadata L me) (\<lambda>off b. fm_at L (fb_buf b) (unat off) me)"
    unfolding marshalFileMetadata_def
    apply (rule spec_bind[OF fb_string_spec])
    apply (rule spec_keep[OF fb_string_spec stable_str_at])
    apply (rule spec_keep[OF fb_string_spec], (intro stable_conj stable_str_at)[1])
    apply (rule spec_keep[OF fb_string_spec], (intro stable_conj stable_str_at)[1])
    apply (rule spec_keep[OF fb_string_spec], (intro stable_conj stable_str_at)[1])
    apply (rule spec_keep[OF createString_spec], (intro stable_conj stable_str_at)[1])
    apply (rule spec_keep[OF marshalXattrs_spec], (intro stable_conj stable_str_at)[1])
    subgoal for name ftype linkname uname gname modTime xattrs
      by (rule spec_weaken[OF fm_object_spec[where R = "fm_parts L me (unat name) (unat ftype) (unat linkname) (unat uname) (unat gname)
          (unat modTime) (unat xattrs)", OF stable_fm_parts fm_parts_off]]) (auto intro: fm_atI fm_partsI)
    done
  then show ?thesis by (rule spec_weaken) (simp_all add: fm_size_def)
qed


section \<open>The table of contents\<close>

definition toc_at :: "ztocLib \<Rightarrow> bytes \<Rightarrow> nat \<Rightarrow> fileMetadata list \<Rightarrow> bool" where
  "toc_at L buf off md \<longleftrightarrow> (\<exists>m. table_at buf 1 off [(0, VRef m)] \<and> elems_at (fm_at L) buf m md)"

lemma stable_toc_at: "stable (\<lambda>buf. toc_at L buf off md)"
  unfolding toc_at_def by (intro stable_ex stable_conj stable_table_at stable_elems_at stable_fm_at)

definition toc_size :: "ztocLib \<Rightarrow> fileMetadata list \<Rightarrow> nat" where
  "toc_size L md = sum_list (map (fm_size L) md) + (4 * length md + 38)"

lemma fm_at_off: "fm_at L buf off me \<Longrightarrow> 0 < off \<and> off \<le> length buf"
  using table_at_off by (auto simp: fm_at_def)

text \<open>An object whose fields refer to structures written before.\<close>

lemma refs_object_spec:
  assumes calls: "slot_calls n ivs ops" and n: "n < 1000" "length ivs < 1000" "distinct (map fst ivs)"
    and st: "stable R" and ok: "\<And>buf. R buf \<Longrightarrow> \<forall>v\<in>snd ` set ivs. val_ok v buf"
  shows "fb_spec (15 * length ops + 2 * n + 11) (\<lambda>b. R (fb_buf b)) (fthen (startObject n) (fthen (fseq ops) endObject))
    (\<lambda>off b. table_at (fb_buf b) n (unat off) ivs \<and> R (fb_buf b))"
  using spec_frame[OF object_spec[OF calls n] st] by (rule spec_weaken) (use ok in auto)

lemma marshalTOC_spec:
  "fb_spec (toc_size L md) (\<lambda>b. True) (marshalTOC L md) (\<lambda>off b. toc_at L (fb_buf b) (unat off) md)"
proof -
  let ?R = "\<lambda>m buf. elems_at (fm_at L) buf m md"
  have obj: "fb_spec 28 (\<lambda>b. ?R (unat m) (fb_buf b)) (fthen (startObject 1) (fthen (fseq [prependUOffsetTSlot 0 m 0]) endObject))
      (\<lambda>off b. table_at (fb_buf b) 1 (unat off) [(0, VRef (unat m))] \<and> ?R (unat m) (fb_buf b))" for m
  proof -
    have "slot_calls 1 [(0, VRef (unat m))] [prependUOffsetTSlot 0 m 0]" by (intro slot_call_Cons slot_calls_Nil) simp
    from refs_object_spec[where R = "?R (unat m)", OF this _ _ _ stable_elems_at[OF stable_fm_at]] show ?thesis
      by (rule spec_weaken) (auto dest: elems_at_off)
  qed
  have vec: "fb_spec (4 * length md + 10) (\<lambda>b. list_all2 (\<lambda>off x. fm_at L (fb_buf b) (unat off) x) offs (rev md))
      (createRefVector (rev offs)) (\<lambda>off b. ?R (unat off) (fb_buf b))" for offs
    by (rule spec_weaken[OF createRefs_spec[where R = "fm_at L" and xs = md, OF stable_fm_at fm_at_off]])
      (auto simp: list_all2_rev1)
  have "fb_spec (sum_list (map (fm_size L) (rev md)) + ((4 * length md + 10) + 28)) (\<lambda>b. True) (marshalTOC L md)
      (\<lambda>off b. toc_at L (fb_buf b) (unat off) md)"
    unfolding marshalTOC_def
    by (rule spec_bind[OF ftraverse_spec[where R = "fm_at L", OF marshalFileMetadata_spec stable_fm_at] spec_bind[OF vec spec_weaken[OF obj]]])
      (auto simp: toc_at_def)
  then show ?thesis by (rule spec_weaken) (simp_all add: toc_size_def rev_map[symmetric] sum_list_rev)
qed

section \<open>Compression information\<close>

definition algo_known :: "string \<Rightarrow> bool" where
  "algo_known a \<longleftrightarrow> a = [] \<or> a = CompressionGzip \<or> a = CompressionUncompressed"

definition info_fields :: "compressionInfo \<Rightarrow> nat \<Rightarrow> nat \<Rightarrow> (nat \<times> fbval) list" where
  "info_fields ci d c =
     [(1, V32 (of_int (ciMaxSpanID ci))), (2, VRef d), (3, VRef c)] @
     (if ciAlgorithm ci = [] then [] else [(0, V8 (if ciAlgorithm ci = CompressionGzip then algoGzip else algoUncompressed))])"

definition info_parts :: "compressionInfo \<Rightarrow> nat \<Rightarrow> nat \<Rightarrow> bytes \<Rightarrow> bool" where
  "info_parts ci d c buf \<longleftrightarrow> elems_at (\<lambda>buf off s. text_at buf off s) buf d (ciSpanDigests ci) \<and> str_at buf c (ciCheckpoints ci)"

lemma stable_info_parts: "stable (info_parts ci d c)"
  unfolding info_parts_def by (intro stable_conj stable_elems_at stable_str_at)

definition info_at :: "bytes \<Rightarrow> nat \<Rightarrow> compressionInfo \<Rightarrow> bool" where
  "info_at buf off ci \<longleftrightarrow> (\<exists>d c. table_at buf 4 off (info_fields ci d c) \<and> info_parts ci d c buf)"

lemma stable_info_at: "stable (\<lambda>buf. info_at buf off ci)"
  unfolding info_at_def by (intro stable_ex stable_conj stable_table_at stable_info_parts)

definition info_size :: "compressionInfo \<Rightarrow> nat" where
  "info_size ci = length (ciCheckpoints ci) + sum_list (map (\<lambda>s. length s + 8) (ciSpanDigests ci)) + 4 * length (ciSpanDigests ci) + 96"


lemma digests_spec:
  "fb_spec (sum_list (map (\<lambda>s. length s + 8) ss) + (4 * length ss + 10)) (\<lambda>b. True) (fbind (ftraverse fb_string ss) createRefVector)
     (\<lambda>off b. elems_at (\<lambda>buf off s. text_at buf off s) (fb_buf b) (unat off) ss)"
  by (rule elems_spec[OF fb_string_spec stable_str_at str_at_off])

text \<open>The slots of an object, and then either its end or an error.\<close>

lemma object_fbind:
  "fthen (startObject n) (fthen (fseq ops) (fbind endObject g)) = fbind (fthen (startObject n) (fthen (fseq ops) endObject)) g"
  by (simp add: fbind_assoc[symmetric])

lemma object_snoc: "fthen (startObject n) (fthen (fseq ops) (fthen op k)) = fthen (startObject n) (fthen (fseq (ops @ [op])) k)"
  by (simp add: fseq_snoc fbind_assoc[symmetric])

lemma object_abort_spec:
  assumes calls: "slot_calls n ivs ops" and n: "distinct (map fst ivs)" and ok: "\<And>buf. R buf \<Longrightarrow> \<forall>v\<in>snd ` set ivs. val_ok v buf"
  shows "fb_spec (15 * length ops) (\<lambda>b. R (fb_buf b)) (fthen (startObject n) (fthen (fseq ops) (fret x))) (\<lambda>r b. r = x)"
proof -
  note slots = slots_spec[OF calls[unfolded slot_calls_def] n, of "[]"]
  have "fb_spec (15 * length ops + 0) (\<lambda>b. obj_open n [] b \<and> R (fb_buf b)) (fthen (fseq ops) (fret x)) (\<lambda>r b. r = x)"
    by (rule spec_bind[OF spec_weaken[OF slots] spec_ret]) (use ok in auto)
  from spec_bind[OF startObject_spec[of R n] this] show ?thesis by simp
qed

lemma info_object_spec:
  fixes d c :: u32 and ci :: compressionInfo
  defines "ops \<equiv> [prependInt32Slot 1 (of_int (ciMaxSpanID ci)) 0, prependUOffsetTSlot 2 d 0, prependUOffsetTSlot 3 c 0]"
  shows "fb_spec 79 (\<lambda>b. info_parts ci (unat d) (unat c) (fb_buf b)) (fthen (startObject 4) (fthen (fseq ops)
     (if ciAlgorithm ci = [] then fbind endObject (\<lambda>off. fret (Inr off))
      else case compressionAlgorithmToEnum (ciAlgorithm ci) of
             Inl e \<Rightarrow> fret (Inl e)
           | Inr algo \<Rightarrow> fthen (prependInt8Slot 0 algo algoGzip) (fbind endObject (\<lambda>off. fret (Inr off))))))
     (\<lambda>r b. case r of Inl e \<Rightarrow> \<not> algo_known (ciAlgorithm ci) \<and> e = ZtAlgorithm (ciAlgorithm ci)
              | Inr off \<Rightarrow> algo_known (ciAlgorithm ci) \<and> info_at (fb_buf b) (unat off) ci)"
    (is "fb_spec _ ?P (fthen _ (fthen _ ?k)) ?Q")
proof -
  let ?ivs = "[(1, V32 (of_int (ciMaxSpanID ci))), (2, VRef (unat d)), (3, VRef (unat c))]"
  have calls: "slot_calls 4 ?ivs ops" unfolding ops_def by (intro slot_call_Cons slot_calls_Nil) simp_all
  have ok: "\<forall>v\<in>snd ` set ?ivs. val_ok v buf" if "info_parts ci (unat d) (unat c) buf" for buf
    using that str_at_off elems_at_off by (fastforce simp: info_parts_def)
  have len: "length ops = 3" by (simp add: ops_def)
  have obj: "fb_spec 79 ?P (fbind (fthen (startObject 4) (fthen (fseq ops') endObject)) (\<lambda>off. fret (Inr off))) ?Q"
    if calls': "slot_calls 4 (info_fields ci (unat d) (unat c)) ops'" and known: "algo_known (ciAlgorithm ci)"
      and n: "length ops' \<le> 4" for ops'
  proof -
    have obj: "fb_spec (15 * length ops' + 2 * 4 + 11) ?P (fthen (startObject 4) (fthen (fseq ops') endObject))
        (\<lambda>off b. table_at (fb_buf b) 4 (unat off) (info_fields ci (unat d) (unat c)) \<and> info_parts ci (unat d) (unat c) (fb_buf b))"
      by (rule refs_object_spec[OF calls' _ _ _ stable_info_parts]) (use ok in \<open>auto simp: info_fields_def\<close>)
    have ret: "fb_spec 0 (\<lambda>b. table_at (fb_buf b) 4 (unat off) (info_fields ci (unat d) (unat c)) \<and> info_parts ci (unat d) (unat c) (fb_buf b))
        (fret (Inr off)) ?Q" for off
      by (rule spec_ret) (use known in \<open>auto simp: info_at_def\<close>)
    from spec_bind[OF obj ret] show ?thesis by (rule spec_weaken) (use n in simp_all)
  qed
  let ?algo = "if ciAlgorithm ci = CompressionGzip then algoGzip else algoUncompressed"
  consider "ciAlgorithm ci = []" | "ciAlgorithm ci \<noteq> []" "algo_known (ciAlgorithm ci)" | "ciAlgorithm ci \<noteq> []" "\<not> algo_known (ciAlgorithm ci)"
    by blast
  then show ?thesis
  proof cases
    case 1
    then have "slot_calls 4 (info_fields ci (unat d) (unat c)) ops" "algo_known (ciAlgorithm ci)"
      using calls by (simp_all add: info_fields_def algo_known_def)
    from obj[OF this] len 1 show ?thesis by (simp add: object_fbind)
  next
    case 2
    then have algo: "compressionAlgorithmToEnum (ciAlgorithm ci) = Inr ?algo" "info_fields ci (unat d) (unat c) = ?ivs @ [(0, V8 ?algo)]"
      by (auto simp: algo_known_def compressionAlgorithmToEnum_def info_fields_def)
    have "slot_calls 4 [(0, V8 ?algo)] [prependInt8Slot 0 ?algo algoGzip]"
      unfolding algoGzip_def by (intro slot_call_Cons slot_calls_Nil) simp
    from slot_calls_snoc[OF calls this] have "slot_calls 4 (info_fields ci (unat d) (unat c)) (ops @ [prependInt8Slot 0 ?algo algoGzip])"
      by (simp only: algo(2))
    from obj[OF this 2(2)] len have "fb_spec 79 ?P (fthen (startObject 4) (fthen (fseq (ops @ [prependInt8Slot 0 ?algo algoGzip]))
        (fbind endObject (\<lambda>off. fret (Inr off))))) ?Q" by (simp only: object_fbind) simp
    then show ?thesis using 2(1) by (simp only: algo(1) sum.case if_False object_snoc)
  next
    case 3
    then have "compressionAlgorithmToEnum (ciAlgorithm ci) = Inl (ZtAlgorithm (ciAlgorithm ci))"
      by (auto simp: algo_known_def compressionAlgorithmToEnum_def)
    moreover have "fb_spec 45 ?P (fthen (startObject 4) (fthen (fseq ops) (fret (Inl (ZtAlgorithm (ciAlgorithm ci)))))) ?Q"
      using object_abort_spec[where R = "info_parts ci (unat d) (unat c)" and x = "Inl (ZtAlgorithm (ciAlgorithm ci)) :: ztocErr + u32", OF calls _ ok]
      by (rule spec_weaken) (use 3 len in auto)
    ultimately show ?thesis using 3(1) by (simp only: if_False sum.case) (erule spec_weaken; simp)
  qed
qed


lemma marshal_info_spec:
  "fb_spec (info_size ci) (\<lambda>b. True) (marshal_info ci)
     (\<lambda>r b. case r of Inl e \<Rightarrow> \<not> algo_known (ciAlgorithm ci) \<and> e = ZtAlgorithm (ciAlgorithm ci)
              | Inr off \<Rightarrow> algo_known (ciAlgorithm ci) \<and> info_at (fb_buf b) (unat off) ci)"
proof -
  have "fb_spec ((length (ciCheckpoints ci) + 7) +
      ((sum_list (map (\<lambda>s. length s + 8) (ciSpanDigests ci)) + (4 * length (ciSpanDigests ci) + 10)) + 79)) (\<lambda>b. True) (marshal_info ci)
     (\<lambda>r b. case r of Inl e \<Rightarrow> \<not> algo_known (ciAlgorithm ci) \<and> e = ZtAlgorithm (ciAlgorithm ci)
              | Inr off \<Rightarrow> algo_known (ciAlgorithm ci) \<and> info_at (fb_buf b) (unat off) ci)"
    unfolding marshal_info_def fbind_assoc[of "ftraverse fb_string (ciSpanDigests ci)"]
    by (rule spec_bind[OF createByteVector_spec], rule spec_keep[OF digests_spec stable_str_at], rule spec_weaken[OF info_object_spec])
      (auto simp: info_parts_def)
  then show ?thesis by (rule spec_weaken) (simp_all add: info_size_def)
qed

section \<open>The root\<close>

definition root_fields :: "ztoc \<Rightarrow> nat \<Rightarrow> nat \<Rightarrow> nat \<Rightarrow> nat \<Rightarrow> (nat \<times> fbval) list" where
  "root_fields z version tool toc info =
     [(0, VRef version), (1, VRef tool), (4, VRef toc), (2, V64 (of_int (zCompressedSize z))), (3, V64 (of_int (zUncompressedSize z))),
      (5, VRef info)]"

definition root_parts :: "ztocLib \<Rightarrow> ztoc \<Rightarrow> nat \<Rightarrow> nat \<Rightarrow> nat \<Rightarrow> nat \<Rightarrow> bytes \<Rightarrow> bool" where
  "root_parts L z version tool toc info buf \<longleftrightarrow>
     text_at buf version (zVersion z) \<and> text_at buf tool (zBuildTool z) \<and> toc_at L buf toc (zTOC z) \<and> info_at buf info (zCompressionInfo z)"

lemma stable_root_parts: "stable (root_parts L z version tool toc info)"
  unfolding root_parts_def by (intro stable_conj stable_str_at stable_toc_at stable_info_at)

definition root_at :: "ztocLib \<Rightarrow> bytes \<Rightarrow> nat \<Rightarrow> ztoc \<Rightarrow> bool" where
  "root_at L buf off z \<longleftrightarrow>
     (\<exists>version tool toc info. table_at buf 6 off (root_fields z version tool toc info) \<and> root_parts L z version tool toc info buf)"

lemma stable_root_at: "stable (\<lambda>buf. root_at L buf off z)"
  unfolding root_at_def by (intro stable_ex stable_conj stable_table_at stable_root_parts)

lemma toc_at_off: "toc_at L buf off md \<Longrightarrow> 0 < off \<and> off \<le> length buf"
  using table_at_off by (auto simp: toc_at_def)

lemma info_at_off: "info_at buf off ci \<Longrightarrow> 0 < off \<and> off \<le> length buf"
  using table_at_off by (auto simp: info_at_def)

lemma root_object_spec:
  fixes version tool toc info :: u32
  shows "fb_spec 113 (\<lambda>b. root_parts L z (unat version) (unat tool) (unat toc) (unat info) (fb_buf b))
    (fthen (startObject 6) (fthen (fseq
             [prependUOffsetTSlot 0 version 0, prependUOffsetTSlot 1 tool 0, prependUOffsetTSlot 4 toc 0,
              prependInt64Slot 2 (of_int (zCompressedSize z)) 0, prependInt64Slot 3 (of_int (zUncompressedSize z)) 0,
              prependUOffsetTSlot 5 info 0]) endObject))
    (\<lambda>off b. root_at L (fb_buf b) (unat off) z)" (is "fb_spec _ _ (fthen _ (fthen (fseq ?ops) _)) _")
proof -
  have "slot_calls 6 (root_fields z (unat version) (unat tool) (unat toc) (unat info)) ?ops"
    unfolding root_fields_def by (intro slot_call_Cons slot_calls_Nil) simp_all
  from refs_object_spec[OF this _ _ _ stable_root_parts[of L z "unat version" "unat tool" "unat toc" "unat info"]]
  show ?thesis
    by (rule spec_weaken) (auto simp: root_fields_def root_parts_def root_at_def dest: str_at_off toc_at_off info_at_off)
qed

text \<open>Finishing: the buffer starts with the reference to the root table.\<close>

lemma fb_finish_spec:
  "fb_spec 14 (\<lambda>b. unat root \<le> length (fb_buf b)) (fb_finish root)
     (\<lambda>r b. \<exists>rest. fb_buf b = LE32 (of_nat (length (fb_buf b) - unat root)) @ rest)"
proof (rule fb_specI)
  fix b assume ok: "fb_ok b" and root: "unat root \<le> length (fb_buf b)" and lim: "length (fb_buf b) + 14 < 2 ^ 32"
  have room: "fb_room b" "fbMinalign b \<in> {1, 2, 4, 8}" using ok by (auto simp: fb_ok_def fb_room_def)
  obtain b1 n where b1: "prep (fbMinalign b) 4 b = Some ((), b1)" "fb_room b1" "fb_buf b1 = replicate n 0 @ fb_buf b" "n < 8" "keeps b b1"
    using prep_ok[OF room, of 4] room(2) by fastforce
  have "unat root \<le> length (fb_buf b1)" "length (fb_buf b1) + 7 < 2 ^ 32" using b1(3,4) root lim by simp_all
  from prepend_ref_ok[OF b1(2) this] obtain b2 k where b2: "prependUOffsetT root b1 = Some ((), b2)" "fb_room b2" "keeps b1 b2" "k < 4"
    "fb_buf b2 = LE32 (of_nat (length (fb_buf b2) - unat root)) @ replicate k 0 @ fb_buf b1"
    by (elim exE conjE) (rule that)
  let ?xs = "LE32 (of_nat (length (fb_buf b2) - unat root)) @ replicate k 0 @ replicate n 0"
  have buf: "fb_buf b2 = ?xs @ fb_buf b" using b2(5) b1(3) by simp
  have "fb_ok b2" by (rule fb_ok_keeps[OF ok keeps_trans[OF b1(5) b2(3)] b2(2) buf])
  moreover have "fb_finish root b = Some ((), b2)" using b1(1) b2(1) by (simp add: fb_finish_def fbind_Some)
  moreover have "length ?xs \<le> 14" using b1(4) b2(4) by simp
  moreover have "\<exists>rest. fb_buf b2 = LE32 (of_nat (length (fb_buf b2) - unat root)) @ rest" using b2(5) by (rule exI)
  ultimately show "\<exists>r b' xs. fb_finish root b = Some (r, b') \<and> fb_ok b' \<and> fb_buf b' = xs @ fb_buf b \<and> length xs \<le> 14 \<and>
      (\<exists>rest. fb_buf b' = LE32 (of_nat (length (fb_buf b') - unat root)) @ rest)"
    using buf by - (rule exI[of _ "()"], rule exI[of _ b2], rule exI[of _ ?xs], intro conjI)
qed

definition ztoc_size :: "ztocLib \<Rightarrow> ztoc \<Rightarrow> nat" where
  "ztoc_size L z = length (zVersion z) + length (zBuildTool z) + toc_size L (zTOC z) + info_size (zCompressionInfo z) + 143"

definition marshalled :: "ztocLib \<Rightarrow> ztoc \<Rightarrow> bytes \<Rightarrow> bool" where
  "marshalled L z buf \<longleftrightarrow> (\<exists>root rest. root_at L buf root z \<and> buf = LE32 (of_nat (length buf - root)) @ rest)"

lemma root_at_off: "root_at L buf off z \<Longrightarrow> 0 < off \<and> off \<le> length buf"
  using table_at_off by (auto simp: root_at_def)


lemma marshal_root_spec:
  "fb_spec (ztoc_size L z) (\<lambda>b. True) (marshal_root L z)
     (\<lambda>r b. case r of Inl e \<Rightarrow> \<not> algo_known (ciAlgorithm (zCompressionInfo z)) \<and> e = ZtAlgorithm (ciAlgorithm (zCompressionInfo z))
              | Inr u \<Rightarrow> algo_known (ciAlgorithm (zCompressionInfo z)) \<and> marshalled L z (fb_buf b))" (is "fb_spec _ _ _ ?Q")
proof -
  let ?ci = "zCompressionInfo z"
  let ?ops = "\<lambda>version tool toc info.
     [prependUOffsetTSlot 0 version 0, prependUOffsetTSlot 1 tool 0, prependUOffsetTSlot 4 toc 0,
      prependInt64Slot 2 (of_int (zCompressedSize z)) 0, prependInt64Slot 3 (of_int (zUncompressedSize z)) 0, prependUOffsetTSlot 5 info 0]"
  have fin: "fb_spec (14 + 0) (\<lambda>b. algo_known (ciAlgorithm ?ci) \<and> root_at L (fb_buf b) (unat root) z) (fthen (fb_finish root) (fret (Inr ()))) ?Q" for root
  proof (rule spec_bind)
    show "fb_spec 14 (\<lambda>b. algo_known (ciAlgorithm ?ci) \<and> root_at L (fb_buf b) (unat root) z) (fb_finish root)
      (\<lambda>r b. algo_known (ciAlgorithm ?ci) \<and> marshalled L z (fb_buf b))"
      by (rule spec_weaken[OF spec_frame[OF fb_finish_spec stable_conj[OF stable_const stable_root_at]]])
        (auto simp: marshalled_def dest: root_at_off)
  qed (auto intro: spec_ret)
  have root: "fb_spec (113 + 14) (\<lambda>b. algo_known (ciAlgorithm ?ci) \<and> root_parts L z (unat version) (unat tool) (unat toc) (unat info) (fb_buf b))
      (fthen (startObject 6) (fthen (fseq (?ops version tool toc info)) (fbind endObject (\<lambda>root. fthen (fb_finish root) (fret (Inr ())))))) ?Q"
    for version tool toc info
    unfolding object_fbind
    by (rule spec_bind[OF spec_weaken[OF spec_frame[OF root_object_spec stable_const] _ _ order_refl] fin[unfolded add_0_right]]) auto
  have step: "fb_spec (info_size ?ci + (113 + 14)) (\<lambda>b. (text_at (fb_buf b) (unat version) (zVersion z) \<and> text_at (fb_buf b) (unat tool) (zBuildTool z)) \<and>
        toc_at L (fb_buf b) (unat toc) (zTOC z))
      (fbind (marshal_info ?ci) (\<lambda>info. case info of Inl e \<Rightarrow> fret (Inl e)
       | Inr info \<Rightarrow> fthen (startObject 6) (fthen (fseq (?ops version tool toc info)) (fbind endObject (\<lambda>root. fthen (fb_finish root) (fret (Inr ()))))))) ?Q"
    for version tool toc
  proof (rule spec_keep[where Q = "\<lambda>r buf. case r of Inl e \<Rightarrow> \<not> algo_known (ciAlgorithm ?ci) \<and> e = ZtAlgorithm (ciAlgorithm ?ci)
              | Inr off \<Rightarrow> algo_known (ciAlgorithm ?ci) \<and> info_at buf (unat off) ?ci", OF marshal_info_spec])
    show "stable (\<lambda>buf. (text_at buf (unat version) (zVersion z) \<and> text_at buf (unat tool) (zBuildTool z)) \<and> toc_at L buf (unat toc) (zTOC z))"
      by (intro stable_conj stable_str_at stable_toc_at)
  next
    fix r :: "ztocErr + u32"
    let ?k = "\<lambda>info. case info of Inl e \<Rightarrow> fret (Inl e)
       | Inr info \<Rightarrow> fthen (startObject 6) (fthen (fseq (?ops version tool toc info)) (fbind endObject (\<lambda>root. fthen (fb_finish root) (fret (Inr ())))))"
    show "fb_spec (113 + 14) (\<lambda>b. ((text_at (fb_buf b) (unat version) (zVersion z) \<and> text_at (fb_buf b) (unat tool) (zBuildTool z)) \<and>
        toc_at L (fb_buf b) (unat toc) (zTOC z)) \<and> (case r of Inl e \<Rightarrow> \<not> algo_known (ciAlgorithm ?ci) \<and> e = ZtAlgorithm (ciAlgorithm ?ci)
              | Inr off \<Rightarrow> algo_known (ciAlgorithm ?ci) \<and> info_at (fb_buf b) (unat off) ?ci)) (?k r) ?Q"
    proof (cases r)
      case (Inl e)
      then show ?thesis unfolding sum.case Inl by (intro spec_ret) auto
    next
      case (Inr info)
      show ?thesis unfolding sum.case Inr by (rule spec_weaken[OF root[of version tool toc info]]) (auto simp: root_parts_def)
    qed
  qed
  have "fb_spec ((length (zVersion z) + 8) + ((length (zBuildTool z) + 8) + (toc_size L (zTOC z) + (info_size ?ci + (113 + 14)))))
      (\<lambda>b. True) (marshal_root L z) ?Q"
    unfolding marshal_root_def
    by (rule spec_bind[OF fb_string_spec], rule spec_keep[OF fb_string_spec stable_str_at],
        rule spec_keep[OF marshalTOC_spec stable_conj[OF stable_str_at stable_str_at]], rule step)
  then show ?thesis by (rule spec_weaken) (simp_all add: ztoc_size_def)
qed

text \<open>
  \<^verbatim>\<open>Marshal\<close> returns whenever the algorithm is known and the file stays below 4 GiB; the file is a FlatBuffer
  whose root table stands for the ztoc.
\<close>

lemma newFbBuilder_ok: "fb_ok (newFbBuilder n)" "fb_buf (newFbBuilder n) = []"
  by (simp_all add: fb_ok_def fb_room_def newFbBuilder_def finishedBytes_def Let_def)

lemma Marshal_result:
  assumes "ztoc_size L z < 2 ^ 32"
  shows "case Marshal L z of
      Inl e \<Rightarrow> \<not> algo_known (ciAlgorithm (zCompressionInfo z)) \<and> e = ZtAlgorithm (ciAlgorithm (zCompressionInfo z))
    | Inr data \<Rightarrow> algo_known (ciAlgorithm (zCompressionInfo z)) \<and> marshalled L z data \<and> length data \<le> ztoc_size L z"
proof -
  have "length (fb_buf (newFbBuilder 1024)) + ztoc_size L z < 2 ^ 32" using assms by (simp add: newFbBuilder_ok)
  from fb_specE[OF marshal_root_spec newFbBuilder_ok(1) TrueI this] obtain r b xs where
    r: "marshal_root L z (newFbBuilder 1024) = Some (r, b)" "fb_buf b = xs @ fb_buf (newFbBuilder 1024)" "length xs \<le> ztoc_size L z"
    "case r of Inl e \<Rightarrow> \<not> algo_known (ciAlgorithm (zCompressionInfo z)) \<and> e = ZtAlgorithm (ciAlgorithm (zCompressionInfo z))
              | Inr u \<Rightarrow> algo_known (ciAlgorithm (zCompressionInfo z)) \<and> marshalled L z (fb_buf b)" .
  have buf: "fb_buf b = xs" using r(2) unfolding newFbBuilder_ok(2) by (simp only: append_Nil2)
  show ?thesis
  proof (cases r)
    case (Inl e)
    have "Marshal L z = Inl e" unfolding Marshal_def r(1) Inl by (simp only: option.case prod.case sum.case)
    with r(4) Inl show ?thesis by (simp only: sum.case simp_thms)
  next
    case (Inr u)
    have "Marshal L z = Inr xs" unfolding Marshal_def r(1) Inr buf[symmetric] by (cases u) (simp only: option.case prod.case sum.case unit.case)
    with r(3,4) Inr buf show ?thesis by (simp only: sum.case)
  qed
qed

end
