(* ===== verification/Ztoc_Unmarshal.thy ===== *)
theory Ztoc_Unmarshal
  imports Ztoc_Marshal
begin

text \<open>
  What \<^verbatim>\<open>Unmarshal\<close> reads from a buffer that \<^verbatim>\<open>Marshal\<close> wrote: the fields of each table, the elements of each
  vector, and with them every part of the ztoc.
\<close>

section \<open>Fields\<close>

lemma vo_field:
  assumes "table_at buf n off fvs" "length buf < 2 ^ 32" "i < n" "n \<le> 1000" "map_of fvs i = Some x"
  obtains (absent) "tbl_offset (view buf spare off) (vo i) = Some 0" "is_default x"
  | (present) k loc where "tbl_offset (view buf spare off) (vo i) = Some k" "k \<noteq> 0" "\<not> is_default x"
      "k + of_nat (length buf - off) = of_nat (length buf - loc)" "field_at buf loc x"
proof -
  from assms(3,4) have "i < 1000" by simp
  then obtain k where "tbl_offset (view buf spare off) (of_nat (4 + 2 * i)) = Some k"
    "case map_of fvs i of None \<Rightarrow> k = 0
     | Some x \<Rightarrow> if is_default x then k = 0
               else k \<noteq> 0 \<and> (\<exists>loc. k + of_nat (length buf - off) = of_nat (length buf - loc) \<and> field_at buf loc x)"
    by (rule table_field[OF assms(1-3)])
  with assms(5) show thesis
    unfolding vo_def[symmetric] by (cases "is_default x") (auto intro: absent present)
qed

lemma scalarInt64_at:
  assumes "table_at buf n off fvs" "length buf < 2 ^ 32" "i < n" "n \<le> 1000" "map_of fvs i = Some (V64 x)"
  shows "scalarInt64 (view buf spare off) i = Some x"
  using assms
proof (cases rule: vo_field[OF assms, where spare = spare, case_names absent present])
  case (present k loc)
  then have "get64 buf (of_nat (length buf - loc)) = Some x" using get_at(3)[OF assms(2)] by (simp add: field_at_def)
  with present(1,2,4) show ?thesis
    unfolding scalarInt64_def getInt64_def view_simps by (simp only: Option.bind.bind_lunit add.commute if_True) (simp add: present)
qed (simp add: scalarInt64_def)

lemma scalar32_at:
  assumes "table_at buf n off fvs" "length buf < 2 ^ 32" "i < n" "n \<le> 1000" "map_of fvs i = Some (V32 x)"
  shows "scalarInt32 (view buf spare off) i = Some x" "scalarUint32 (view buf spare off) i = Some x"
proof -
  have "scalarInt32 (view buf spare off) i = Some x \<and> scalarUint32 (view buf spare off) i = Some x"
  proof (cases rule: vo_field[OF assms, where spare = spare, case_names absent present])
    case (present k loc)
    then have "get32 buf (of_nat (length buf - loc)) = Some x" using get_at(2)[OF assms(2)] by (simp add: field_at_def)
    with present(1,2,4) show ?thesis
      unfolding scalarInt32_def scalarUint32_def getInt32_def getUint32_def view_simps
      by (simp only: Option.bind.bind_lunit add.commute if_True) (simp add: present)
  qed (simp add: scalarInt32_def scalarUint32_def)
  then show "scalarInt32 (view buf spare off) i = Some x" "scalarUint32 (view buf spare off) i = Some x" by simp_all
qed

text \<open>A field that refers to a string, a vector or a table.\<close>

lemma ref_field:
  assumes "table_at buf n off fvs" "length buf < 2 ^ 32" "i < n" "n \<le> 1000" "map_of fvs i = Some (VRef t)" "0 < t"
  obtains k loc where "tbl_offset (view buf spare off) (vo i) = Some k" "k \<noteq> 0"
    "k + of_nat (length buf - off) = of_nat (length buf - loc)" "field_at buf loc (VRef t)"
  using vo_field[OF assms(1-5), of spare] assms(6) by (metis is_default.simps(1) less_irrefl)

lemma stringField_at:
  assumes "table_at buf n off fvs" "length buf < 2 ^ 32" "i < n" "n \<le> 1000" "map_of fvs i = Some (VRef t)" "str_at buf t s"
  shows "stringField (view buf spare off) (vo i) = Some s" "byteVectorField (view buf spare off) (vo i) = Some s"
proof -
  have "0 < t" using str_at_off[OF assms(6)] by simp
  from ref_field[OF assms(1-5) this, where spare = spare] obtain k loc where
    k: "tbl_offset (view buf spare off) (vo i) = Some k" "k \<noteq> 0" "k + of_nat (length buf - off) = of_nat (length buf - loc)"
      "field_at buf loc (VRef t)" .
  from byteVector_at[OF assms(2) k(4) assms(6), of spare off] k(2) show "stringField (view buf spare off) (vo i) = Some s"
    "byteVectorField (view buf spare off) (vo i) = Some s"
    unfolding stringField_def byteVectorField_def k(1) Option.bind.bind_lunit view_simps k(3) by simp_all
qed

lemma textField_at:
  assumes "table_at buf n off fvs" "length buf < 2 ^ 32" "i < n" "n \<le> 1000" "map_of fvs i = Some (VRef t)" "text_at buf t s"
  shows "textField (view buf spare off) (vo i) = Some s"
  using stringField_at(1)[OF assms, of spare] by (simp add: textField_def)

lemma view_tpos: "(view buf spare off)\<lparr>tpos := of_nat (length buf - t)\<rparr> = view buf spare t"
  by (simp add: view_def)

section \<open>Vectors\<close>

lemma read_elems_at:
  assumes lim: "length buf < 2 ^ 32" and vec: "vec_at buf t ts"
    and f: "\<And>i. i < length ts \<Longrightarrow> f (view buf spare (ts ! i)) = Some (xs ! i)" and len: "length xs = length ts"
  shows "read_elems f (view buf spare off) (of_nat (length buf - (t - 4))) [0..<length ts] = Some xs"
proof -
  have t: "t \<le> length buf" using vec_at_off[OF vec] by simp
  have "read_elems f (view buf spare off) (of_nat (length buf - (t - 4))) [k..<length ts] = Some (drop k xs)" if "k \<le> length ts" for k
    using that
  proof (induction rule: inc_induct)
    case base
    then show ?case by (simp add: len)
  next
    case (step k)
    note e = vec_elem(1)[OF vec step(2)]
    from indirect_at[OF lim e] have ind: "indirect (view buf spare off) (of_nat (length buf - (t - 4)) + of_nat k * 4) = Some (of_nat (length buf - ts ! k))"
      unfolding vec_pos[OF vec step(2) t] .
    have "drop k xs = xs ! k # drop (Suc k) xs" using step(2) len by (simp add: Cons_nth_drop_Suc)
    moreover have "[k..<length ts] = k # [Suc k..<length ts]" using step(2) by (simp add: upt_rec)
    ultimately show ?case using step(3) f[OF step(2)] by (simp only: read_elems.simps ind Option.bind.bind_lunit view_tpos)
  qed
  from this[of 0] show ?thesis by simp
qed

lemma read_strings_at:
  assumes lim: "length buf < 2 ^ 32" and vec: "vec_at buf t ts" and f: "list_all2 (\<lambda>t s. text_at buf t s) ts xs"
  shows "read_strings (view buf spare off) (of_nat (length buf - (t - 4))) [0..<length ts] = Some xs"
proof -
  have t: "t \<le> length buf" using vec_at_off[OF vec] by simp
  have len: "length xs = length ts" using f by (simp add: list_all2_lengthD)
  have "read_strings (view buf spare off) (of_nat (length buf - (t - 4))) [k..<length ts] = Some (drop k xs)" if "k \<le> length ts" for k
    using that
  proof (induction rule: inc_induct)
    case base
    then show ?case by (simp add: len)
  next
    case (step k)
    have "text_at buf (ts ! k) (xs ! k)" using list_all2_nthD[OF f, of k] step(2) by simp
    from byteVector_at[OF lim vec_elem(1)[OF vec step(2)] this]
    have s: "byteVector (view buf spare off) (of_nat (length buf - (t - 4)) + of_nat k * 4) = Some (str_bytes (xs ! k))"
      unfolding vec_pos[OF vec step(2) t] .
    have "drop k xs = xs ! k # drop (Suc k) xs" using step(2) len by (simp add: Cons_nth_drop_Suc)
    moreover have "[k..<length ts] = k # [Suc k..<length ts]" using step(2) by (simp add: upt_rec)
    ultimately show ?case using step(3) by (simp only: read_strings.simps s Option.bind.bind_lunit go_string_str_bytes)
  qed
  from this[of 0] show ?thesis by simp
qed

text \<open>The elements of a vector field.\<close>

lemma vector_field:
  assumes tab: "table_at buf n off fvs" "length buf < 2 ^ 32" "i < n" "n \<le> 1000" "map_of fvs i = Some (VRef t)" and vec: "vec_at buf t ts"
  obtains k where "tbl_offset (view buf spare off) (vo i) = Some k" "k \<noteq> 0"
    "vectorRange (view buf spare off) k 4 = Some (of_nat (length buf - (t - 4)), length ts)"
proof -
  have "0 < t" using vec_at_off[OF vec] by simp
  from ref_field[OF tab this, where spare = spare] obtain k loc where
    k: "tbl_offset (view buf spare off) (vo i) = Some k" "k \<noteq> 0" "k + of_nat (length buf - off) = of_nat (length buf - loc)"
      "field_at buf loc (VRef t)" .
  from that[OF k(1,2) vectorRange_at[OF tab(2) k(4) vec k(3)]] show thesis .
qed


section \<open>File metadata\<close>

definition in_i64 :: "int \<Rightarrow> bool" where
  "in_i64 x \<longleftrightarrow> - (2 ^ 63) \<le> x \<and> x < 2 ^ 63"

lemma sint_i64: "in_i64 x \<Longrightarrow> sint (of_int x :: u64) = x"
  by (simp add: in_i64_def signed_of_int signed_take_bit_int_eq_self)

lemma uint_of_int_u32: "uint (of_int x :: u32) = x mod 2 ^ 32"
  by (simp add: unsigned_of_int take_bit_eq_mod)

text \<open>Metadata as it is read back: the identifiers keep 32 bits, the records are in the order of their keys.\<close>

definition norm_fm :: "fileMetadata \<Rightarrow> fileMetadata" where
  "norm_fm me = me\<lparr>fmTarHeaderOffset := 0, fmUID := fmUID me mod 2 ^ 32, fmGID := fmGID me mod 2 ^ 32,
                   fmPAXHeaders := Some (sorted_entries (fmPAXHeaders me))\<rparr>"

definition fm_ok :: "ztocLib \<Rightarrow> fileMetadata \<Rightarrow> bool" where
  "fm_ok L me \<longleftrightarrow> in_i64 (fmUncompressedOffset me) \<and> in_i64 (fmUncompressedSize me) \<and> in_i64 (fmMode me) \<and>
     in_i64 (fmDevmajor me) \<and> in_i64 (fmDevminor me) \<and> distinct_keys (map_entries (fmPAXHeaders me)) \<and>
     unmarshalText L (marshalText L (fmModTime me)) = fmModTime me"

lemma update_fresh: "k \<notin> fst ` set al \<Longrightarrow> AList.update k v al = al @ [(k, v)]"
  by (induction al) auto

lemma foldl_update_fresh:
  "distinct (map fst (acc @ kvs)) \<Longrightarrow> foldl (\<lambda>m (k, v). AList.update k v m) acc kvs = acc @ kvs"
proof (induction kvs arbitrary: acc)
  case (Cons kv kvs)
  obtain k v where kv: "kv = (k, v)" by (cases kv)
  have "k \<notin> fst ` set acc" using Cons.prems kv by auto
  then have "AList.update k v acc = acc @ [(k, v)]" by (rule update_fresh)
  with Cons kv show ?case by simp
qed simp

lemma unmarshal_xattr_at:
  assumes "xattr_at buf off kv" "length buf < 2 ^ 32"
  shows "unmarshal_xattr (view buf spare off) = Some kv"
proof -
  obtain k v where t: "table_at buf 2 off [(0, VRef k), (1, VRef v)]" "text_at buf k (fst kv)" "text_at buf v (snd kv)"
    using assms(1) by (auto simp: xattr_at_def)
  have "textField (view buf spare off) (vo 0) = Some (fst kv)" "textField (view buf spare off) (vo 1) = Some (snd kv)"
    by (rule textField_at[OF t(1) assms(2) _ _ _ t(2)]; simp) (rule textField_at[OF t(1) assms(2) _ _ _ t(3)]; simp)
  then show ?thesis by (simp add: unmarshal_xattr_def)
qed

lemma elems_read:
  assumes "elems_at R buf t xs" "length buf < 2 ^ 32" "\<And>off x. R buf off x \<Longrightarrow> x \<in> set xs \<Longrightarrow> f (view buf spare off) = Some (g x)"
  obtains ts where "vec_at buf t ts" "length ts = length xs"
    "\<And>off. read_elems f (view buf spare off) (of_nat (length buf - (t - 4))) [0..<length ts] = Some (map g xs)"
proof -
  obtain ts where ts: "vec_at buf t ts" "list_all2 (\<lambda>t x. R buf t x) ts xs" using assms(1) by (auto simp: elems_at_def)
  have len: "length ts = length xs" using ts(2) by (rule list_all2_lengthD)
  have "f (view buf spare (ts ! i)) = Some (map g xs ! i)" if "i < length ts" for i
    using assms(3)[OF list_all2_nthD[OF ts(2) that]] that len by simp
  from that[OF ts(1) len read_elems_at[OF assms(2) ts(1) this]] len show thesis by simp
qed

lemma distinct_sorted_entries: "distinct_keys (map_entries m) \<Longrightarrow> distinct (map fst (sorted_entries m))"
  by (simp add: sorted_entries_def comp_def)

lemma unmarshalXattrs_at:
  assumes tab: "table_at buf 14 off fvs" "map_of fvs 13 = Some (VRef t)" and el: "elems_at xattr_at buf t (sorted_entries m)"
    and lim: "length buf < 2 ^ 32" and d: "distinct_keys (map_entries m)"
  shows "unmarshalXattrs (view buf spare off) = Some (sorted_entries m)"
proof -
  obtain ts where ts: "vec_at buf t ts"
    "\<And>off. read_elems unmarshal_xattr (view buf spare off) (of_nat (length buf - (t - 4))) [0..<length ts] = Some (map (\<lambda>x. x) (sorted_entries m))"
    using elems_read[where R = xattr_at and f = unmarshal_xattr and g = "\<lambda>x. x" and spare = spare, OF el lim unmarshal_xattr_at[OF _ lim]] by blast
  obtain k where k: "tbl_offset (view buf spare off) (vo 13) = Some k" "k \<noteq> 0"
    "vectorRange (view buf spare off) k 4 = Some (of_nat (length buf - (t - 4)), length ts)"
    by (rule vector_field[OF tab(1) lim _ _ tab(2) ts(1)]) simp_all
  have "foldl (\<lambda>m (k, v). AList.update k v m) [] (sorted_entries m) = sorted_entries m"
    using foldl_update_fresh[of "[]" "sorted_entries m"] distinct_sorted_entries[OF d] by simp
  then show ?thesis
    unfolding unmarshalXattrs_def using k(2) by (simp only: k(1,3) Option.bind.bind_lunit prod.case ts(2) list.map_ident) simp
qed

lemma unmarshalFileMetadata_at:
  assumes "fm_at L buf off me" and lim: "length buf < 2 ^ 32" and ok: "fm_ok L me"
  shows "unmarshalFileMetadata L (view buf spare off) = Some (norm_fm me)"
proof -
  obtain name ftype linkname uname gname modTime xattrs where
    tab: "table_at buf 14 off (fm_fields me name ftype linkname uname gname modTime xattrs)" (is "table_at _ _ _ ?fs")
    and parts: "fm_parts L me name ftype linkname uname gname modTime xattrs buf" using assms(1) by (auto simp: fm_at_def)
  have m: "map_of ?fs 0 = Some (VRef name)" "map_of ?fs 1 = Some (VRef ftype)"
    "map_of ?fs 2 = Some (V64 (of_int (fmUncompressedOffset me)))" "map_of ?fs 3 = Some (V64 (of_int (fmUncompressedSize me)))"
    "map_of ?fs 4 = Some (VRef linkname)" "map_of ?fs 5 = Some (V64 (of_int (fmMode me)))" "map_of ?fs 6 = Some (V32 (of_int (fmUID me)))"
    "map_of ?fs 7 = Some (V32 (of_int (fmGID me)))" "map_of ?fs 8 = Some (VRef uname)" "map_of ?fs 9 = Some (VRef gname)"
    "map_of ?fs 10 = Some (VRef modTime)" "map_of ?fs 11 = Some (V64 (of_int (fmDevmajor me)))"
    "map_of ?fs 12 = Some (V64 (of_int (fmDevminor me)))" "map_of ?fs 13 = Some (VRef xattrs)"
    by (simp_all add: fm_fields_def)
  note str_f = textField_at[OF tab lim _ _ _] and num = scalarInt64_at[OF tab lim _ _ _] and num32 = scalar32_at(2)[OF tab lim _ _ _]
  note p = parts[unfolded fm_parts_def]
  have reads: "textField (view buf spare off) (vo 0) = Some (fmName me)" "textField (view buf spare off) (vo 1) = Some (fmType me)"
    "textField (view buf spare off) (vo 4) = Some (fmLinkname me)" "textField (view buf spare off) (vo 8) = Some (fmUname me)"
    "textField (view buf spare off) (vo 9) = Some (fmGname me)"
    "scalarInt64 (view buf spare off) 2 = Some (of_int (fmUncompressedOffset me))"
    "scalarInt64 (view buf spare off) 3 = Some (of_int (fmUncompressedSize me))"
    "scalarInt64 (view buf spare off) 5 = Some (of_int (fmMode me))" "scalarUint32 (view buf spare off) 6 = Some (of_int (fmUID me))"
    "scalarUint32 (view buf spare off) 7 = Some (of_int (fmGID me))" "scalarInt64 (view buf spare off) 11 = Some (of_int (fmDevmajor me))"
    "scalarInt64 (view buf spare off) 12 = Some (of_int (fmDevminor me))"
    using p by (auto intro!: str_f[OF _ _ m(1)] str_f[OF _ _ m(2), unfolded One_nat_def] str_f[OF _ _ m(5)] str_f[OF _ _ m(9)] str_f[OF _ _ m(10)] num m num32)
  have "byteVectorField (view buf spare off) (vo 10) = Some (marshalText L (fmModTime me))"
    using p by (auto intro!: stringField_at(2)[OF tab lim _ _ m(11)])
  moreover have "unmarshalXattrs (view buf spare off) = Some (sorted_entries (fmPAXHeaders me))"
    using p ok by (intro unmarshalXattrs_at[OF tab m(14) _ lim]) (auto simp: fm_ok_def)
  ultimately show ?thesis
    unfolding unmarshalFileMetadata_def using ok
    by (simp only: reads Option.bind.bind_lunit) (simp add: fm_ok_def sint_i64 uint_of_int_u32 norm_fm_def)
qed


section \<open>The whole ztoc\<close>

lemma unmarshalTOC_at:
  assumes "toc_at L buf off md" and lim: "length buf < 2 ^ 32" and ok: "\<And>me. me \<in> set md \<Longrightarrow> fm_ok L me"
  shows "unmarshalTOC L (view buf spare off) = Some (header_offsets 0 (sortSlice L (map norm_fm md)))"
proof -
  obtain m where tab: "table_at buf 1 off [(0, VRef m)]" and el: "elems_at (fm_at L) buf m md" using assms(1) by (auto simp: toc_at_def)
  have "unmarshalFileMetadata L (view buf spare off') = Some (norm_fm x)" if "fm_at L buf off' x" "x \<in> set md" for off' x
    by (rule unmarshalFileMetadata_at[OF that(1) lim ok[OF that(2)]])
  then obtain ts where ts: "vec_at buf m ts"
    "\<And>off. read_elems (unmarshalFileMetadata L) (view buf spare off) (of_nat (length buf - (m - 4))) [0..<length ts] = Some (map norm_fm md)"
    using elems_read[where R = "fm_at L" and f = "unmarshalFileMetadata L" and g = norm_fm and spare = spare, OF el lim] by blast
  obtain k where k: "tbl_offset (view buf spare off) (vo 0) = Some k" "k \<noteq> 0"
    "vectorRange (view buf spare off) k 4 = Some (of_nat (length buf - (m - 4)), length ts)"
    by (rule vector_field[OF tab lim _ _ _ ts(1)]) simp_all
  show ?thesis unfolding unmarshalTOC_def using k(2) by (simp only: k(1,3) Option.bind.bind_lunit prod.case ts(2) if_True simp_thms)
qed

definition norm_info :: "compressionInfo \<Rightarrow> compressionInfo" where
  "norm_info ci = (if ciAlgorithm ci = [] then ci\<lparr>ciAlgorithm := CompressionGzip\<rparr> else ci)"

definition info_ok :: "compressionInfo \<Rightarrow> bool" where
  "info_ok ci \<longleftrightarrow> algo_known (ciAlgorithm ci) \<and> - (2 ^ 31) \<le> ciMaxSpanID ci \<and> ciMaxSpanID ci < 2 ^ 31"

lemma sint_i32: "- (2 ^ 31) \<le> x \<Longrightarrow> x < 2 ^ 31 \<Longrightarrow> sint (of_int x :: u32) = x"
  by (simp add: signed_of_int signed_take_bit_int_eq_self)

text \<open>The compression algorithm: absent for gzip, otherwise one byte.\<close>

lemma algorithm_at:
  assumes tab: "table_at buf 4 off (info_fields ci d c)" and lim: "length buf < 2 ^ 32" and known: "algo_known (ciAlgorithm ci)"
  shows "\<exists>ka. tbl_offset (view buf spare off) (vo 0) = Some ka \<and>
    (if ka \<noteq> 0 then map_option compressionAlgorithmFromEnum (getInt8 (view buf spare off) (of_nat (length buf - off) + ka))
     else Some CompressionGzip) = Some (ciAlgorithm (norm_info ci))"
proof (cases "ciAlgorithm ci = []")
  case True
  then have none: "map_of (info_fields ci d c) 0 = None" by (simp add: info_fields_def)
  obtain k where "tbl_offset (view buf spare off) (of_nat (4 + 2 * 0)) = Some k"
    "case map_of (info_fields ci d c) 0 of None \<Rightarrow> k = 0
     | Some x \<Rightarrow> if is_default x then k = 0
               else k \<noteq> 0 \<and> (\<exists>loc. k + of_nat (length buf - off) = of_nat (length buf - loc) \<and> field_at buf loc x)"
    by (rule table_field[OF tab lim, of 0 spare]) simp_all
  with none True show ?thesis by (simp add: vo_def norm_info_def)
next
  case False
  let ?a = "if ciAlgorithm ci = CompressionGzip then algoGzip else algoUncompressed"
  have neq: "CompressionGzip \<noteq> CompressionUncompressed" by (simp add: CompressionGzip_def CompressionUncompressed_def)
  have m: "map_of (info_fields ci d c) 0 = Some (V8 ?a)" using False by (simp add: info_fields_def)
  have alg: "compressionAlgorithmFromEnum ?a = ciAlgorithm ci" "is_default (V8 ?a) \<Longrightarrow> ciAlgorithm ci = CompressionGzip" "norm_info ci = ci"
    using known False neq by (auto simp: algo_known_def compressionAlgorithmFromEnum_def algoGzip_def algoUncompressed_def norm_info_def split: if_splits)
  show ?thesis
  proof (cases rule: vo_field[OF tab lim _ _ m, where spare = spare, case_names i4 n absent present])
    case (present k loc)
    then have at: "at_off buf loc [?a]" by (simp add: field_at_def)
    have u: "unat (of_nat (length buf - loc) :: u32) = length buf - loc" using lim by (intro unat_u32) simp
    have "loc \<le> length buf" "0 < loc" using at_off_le[OF at] by auto
    then have "buf ! (length buf - loc) = ?a" "length buf - loc < length buf" using at by (auto simp: at_off_def nth_append)
    then have "getInt8 (view buf spare off) (of_nat (length buf - loc)) = Some ?a" unfolding getInt8_def view_simps u by simp
    moreover have "of_nat (length buf - off) + k = of_nat (length buf - loc)" using present(4) by (simp add: add.commute)
    ultimately show ?thesis using present(1,2) alg(1,3) by (intro exI[of _ k]) (simp only: simp_thms if_True option.map)
  next
    case absent
    have "ciAlgorithm (norm_info ci) = CompressionGzip" unfolding alg(3) by (rule alg(2)[OF absent(2)])
    then show ?thesis by (intro exI[of _ 0]) (simp add: absent(1))
  qed simp_all
qed

lemma unmarshalCompressionInfo_at:
  assumes "info_at buf off ci" and lim: "length buf < 2 ^ 32" and ok: "info_ok ci"
  shows "unmarshalCompressionInfo (view buf spare off) = Some (norm_info ci)"
proof -
  obtain d c where tab: "table_at buf 4 off (info_fields ci d c)" and parts: "info_parts ci d c buf"
    using assms(1) by (auto simp: info_at_def)
  let ?fs = "info_fields ci d c"
  have m: "map_of ?fs 1 = Some (V32 (of_int (ciMaxSpanID ci)))" "map_of ?fs 2 = Some (VRef d)" "map_of ?fs 3 = Some (VRef c)"
    by (simp_all add: info_fields_def)
  have mx: "scalarInt32 (view buf spare off) 1 = Some (of_int (ciMaxSpanID ci))" by (rule scalar32_at(1)[OF tab lim _ _ m(1)]) simp_all
  obtain ka where ka: "tbl_offset (view buf spare off) (vo 0) = Some ka"
    "(if ka \<noteq> 0 then map_option compressionAlgorithmFromEnum (getInt8 (view buf spare off) (of_nat (length buf - off) + ka))
     else Some CompressionGzip) = Some (ciAlgorithm (norm_info ci))"
    using algorithm_at[OF tab lim] ok by (auto simp: info_ok_def)
  obtain ts where ts: "vec_at buf d ts" "list_all2 (\<lambda>t s. text_at buf t s) ts (ciSpanDigests ci)"
    using parts by (auto simp: info_parts_def elems_at_def)
  obtain kd where kd: "tbl_offset (view buf spare off) (vo 2) = Some kd" "kd \<noteq> 0"
    "vectorRange (view buf spare off) kd 4 = Some (of_nat (length buf - (d - 4)), length ts)"
    by (rule vector_field[OF tab lim _ _ m(2) ts(1)]) simp_all
  have c: "str_at buf c (ciCheckpoints ci)" using parts by (simp add: info_parts_def)
  then have pos: "0 < c" using str_at_off by blast
  obtain kc loc where kc: "tbl_offset (view buf spare off) (vo 3) = Some kc" "kc \<noteq> 0"
    "kc + of_nat (length buf - off) = of_nat (length buf - loc)" "field_at buf loc (VRef c)"
    by (rule ref_field[OF tab lim _ _ m(3) pos, where spare = spare]) simp_all
  have "unmarshalCompressionInfo (view buf spare off) =
      Some \<lparr>ciMaxSpanID = sint (of_int (ciMaxSpanID ci) :: u32), ciSpanDigests = ciSpanDigests ci, ciCheckpoints = ciCheckpoints ci,
            ciAlgorithm = ciAlgorithm (norm_info ci)\<rparr>"
    unfolding unmarshalCompressionInfo_def
    by (simp only: mx ka kd kc view_simps Option.bind.bind_lunit prod.case read_strings_at[OF lim ts] byteVector_at[OF lim kc(4) c] if_True simp_thms)
  also have "\<dots> = Some (norm_info ci)" using ok by (simp add: info_ok_def sint_i32 norm_info_def)
  finally show ?thesis .
qed


definition ztoc_ok :: "ztocLib \<Rightarrow> ztoc \<Rightarrow> bool" where
  "ztoc_ok L z \<longleftrightarrow> (\<forall>me\<in>set (zTOC z). fm_ok L me) \<and> info_ok (zCompressionInfo z) \<and> in_i64 (zCompressedSize z) \<and>
     in_i64 (zUncompressedSize z)"

text \<open>The ztoc as it is read back, before the offsets of the headers are derived.\<close>

definition norm_ztoc :: "ztoc \<Rightarrow> fileMetadata list \<Rightarrow> ztoc" where
  "norm_ztoc z md = z\<lparr>zTOC := md, zCompressionInfo := norm_info (zCompressionInfo z)\<rparr>"

lemma unmarshal_root_at:
  assumes "root_at L buf off z" and lim: "length buf < 2 ^ 32" and ok: "ztoc_ok L z"
  shows "unmarshal_root L (view buf spare off) =
    Some (ebind (header_offsets 0 (sortSlice L (map norm_fm (zTOC z)))) (\<lambda>md. Inr (norm_ztoc z md)))"
proof -
  obtain version tool toc info where tab: "table_at buf 6 off (root_fields z version tool toc info)" (is "table_at _ _ _ ?fs")
    and parts: "root_parts L z version tool toc info buf" using assms(1) by (auto simp: root_at_def)
  have m: "map_of ?fs 0 = Some (VRef version)" "map_of ?fs 1 = Some (VRef tool)" "map_of ?fs 4 = Some (VRef toc)" "map_of ?fs 5 = Some (VRef info)"
    "map_of ?fs 2 = Some (V64 (of_int (zCompressedSize z)))" "map_of ?fs 3 = Some (V64 (of_int (zUncompressedSize z)))"
    by (simp_all add: root_fields_def)
  have p: "text_at buf version (zVersion z)" "text_at buf tool (zBuildTool z)" "toc_at L buf toc (zTOC z)" "info_at buf info (zCompressionInfo z)"
    using parts by (simp_all add: root_parts_def)
  have r: "textField (view buf spare off) (vo 0) = Some (zVersion z)" "textField (view buf spare off) (vo 1) = Some (zBuildTool z)"
    "scalarInt64 (view buf spare off) 2 = Some (of_int (zCompressedSize z))" "scalarInt64 (view buf spare off) 3 = Some (of_int (zUncompressedSize z))"
    using textField_at[OF tab lim _ _ m(1) p(1)] textField_at[OF tab lim _ _ m(2) p(2)] scalarInt64_at[OF tab lim _ _ m(5)]
      scalarInt64_at[OF tab lim _ _ m(6)] by simp_all
  have pos: "0 < toc" "0 < info" using toc_at_off[OF p(3)] info_at_off[OF p(4)] by simp_all
  obtain kt loct where kt: "tbl_offset (view buf spare off) (vo 4) = Some kt" "kt \<noteq> 0"
    "kt + of_nat (length buf - off) = of_nat (length buf - loct)" "field_at buf loct (VRef toc)"
    by (rule ref_field[OF tab lim _ _ m(3) pos(1), where spare = spare]) simp_all
  obtain ki loci where ki: "tbl_offset (view buf spare off) (vo 5) = Some ki" "ki \<noteq> 0"
    "ki + of_nat (length buf - off) = of_nat (length buf - loci)" "field_at buf loci (VRef info)"
    by (rule ref_field[OF tab lim _ _ m(4) pos(2), where spare = spare]) simp_all
  have toc': "unmarshalTOC L (view buf spare toc) = Some (header_offsets 0 (sortSlice L (map norm_fm (zTOC z))))" (is "_ = Some ?h")
    using ok by (intro unmarshalTOC_at[OF p(3) lim]) (simp add: ztoc_ok_def)
  have info': "unmarshalCompressionInfo (view buf spare info) = Some (norm_info (zCompressionInfo z))"
    using ok by (intro unmarshalCompressionInfo_at[OF p(4) lim]) (simp add: ztoc_ok_def)
  have "unmarshal_root L (view buf spare off) = (case ?h of Inl e \<Rightarrow> Some (Inl e)
      | Inr md \<Rightarrow> Some (Inr \<lparr>zTOC = md, zCompressionInfo = norm_info (zCompressionInfo z), zVersion = zVersion z, zBuildTool = zBuildTool z,
          zCompressedSize = sint (of_int (zCompressedSize z) :: u64), zUncompressedSize = sint (of_int (zUncompressedSize z) :: u64)\<rparr>))"
    unfolding unmarshal_root_def
    by (simp only: r kt ki view_simps Option.bind.bind_lunit indirect_at[OF lim kt(4)] indirect_at[OF lim ki(4)] view_tpos toc' info' if_True simp_thms)
  then show ?thesis using ok by (cases ?h) (simp_all add: ztoc_ok_def sint_i64 norm_ztoc_def)
qed

lemma getRootTable_at:
  assumes "root_at L buf root z" "buf = LE32 (of_nat (length buf - root)) @ rest" "length buf < 2 ^ 32"
  shows "getRootTable buf spare = Some (view buf spare root)"
proof -
  have "at_off buf (length buf) (LE32 (of_nat (length buf - root)))"
    using at_off_front[of "length buf" "LE32 (of_nat (length buf - root))" rest] assms(2) by (metis length_append)
  from at_off_read[OF this] have "read_at 4 0 buf = Some (LE32 (of_nat (length buf - root)))" by simp
  moreover have "unat (of_nat (length buf - root) :: u32) = length buf - root" using assms(3) by (intro unat_u32) simp
  ultimately show ?thesis unfolding getRootTable_def by (simp only: option.case le_dec_enc) (simp add: view_def)
qed

lemma Unmarshal_marshalled:
  assumes "marshalled L z data" "length data < 2 ^ 32" "ztoc_ok L z"
  shows "Unmarshal L data spare = ebind (header_offsets 0 (sortSlice L (map norm_fm (zTOC z)))) (\<lambda>md. Inr (norm_ztoc z md))"
proof -
  obtain root rest where r: "root_at L data root z" "data = LE32 (of_nat (length data - root)) @ rest"
    using assms(1) unfolding marshalled_def by (elim exE conjE)
  show ?thesis
    unfolding Unmarshal_def getRootTable_at[OF r assms(2)] option.case unmarshal_root_at[OF r(1) assms(2,3)] by (rule refl)
qed

end
