(* ===== verification/Zinfo_Resume.thy ===== *)
theory Zinfo_Resume
  imports Zinfo
begin

text \<open>
  A deflate stream refers back at most 32 KiB and never before its gzip member.  Hence decoding from a
  block boundary depends on what went before only through the window of a checkpoint: two decoders
  whose outputs end alike go on alike.
\<close>

section \<open>Shared history\<close>

text \<open>The bytes a back-reference of the first decoder can reach are also at the end of the second's output.\<close>

definition reach :: "nat \<Rightarrow> bytes \<Rightarrow> nat" where
  "reach m out = min winSize (length out - m)"

definition share :: "nat \<Rightarrow> bytes \<Rightarrow> nat \<Rightarrow> bytes \<Rightarrow> bool" where
  "share m out m' out' \<longleftrightarrow> m \<le> length out \<and> m' \<le> length out' \<and> reach m out \<le> length out' - m' \<and>
     (\<forall>d. 1 \<le> d \<longrightarrow> d \<le> reach m out \<longrightarrow> out ! (length out - d) = out' ! (length out' - d))"

lemma share_snoc: "share m out m' out' \<Longrightarrow> share m (out @ [b]) m' (out' @ [b])"
proof -
  assume sh: "share m out m' out'"
  have "(out @ [b]) ! (Suc (length out) - d) = (out' @ [b]) ! (Suc (length out') - d)"
    if d: "1 \<le> d" "d \<le> reach m (out @ [b])" for d
  proof (cases "d = 1")
    case False
    with d have d': "1 \<le> d - 1" "d - 1 \<le> reach m out" by (auto simp: reach_def)
    then have "d - 1 \<le> length out" "d - 1 \<le> length out'" using sh by (auto simp: share_def reach_def)
    with d' sh d False show ?thesis by (auto simp: share_def nth_append Suc_diff_le)
  qed simp
  with sh show ?thesis by (auto simp: share_def reach_def)
qed

lemma share_append: "share m out m' out' \<Longrightarrow> share m (out @ bs) m' (out' @ bs)"
proof (induction bs arbitrary: out out')
  case (Cons b bs)
  then show ?case using share_snoc[OF Cons.prems, of b] Cons.IH[of "out @ [b]" "out' @ [b]"] by simp
qed simp

lemma share_match:
  "share m out m' out' \<Longrightarrow> 1 \<le> d \<Longrightarrow> d \<le> reach m out \<Longrightarrow>
   \<exists>bs. ref_match n d out = out @ bs \<and> ref_match n d out' = out' @ bs"
proof (induction n arbitrary: out out')
  case (Suc n)
  define b where "b = out ! (length out - d)"
  have b': "b = out' ! (length out' - d)" using Suc.prems by (simp add: share_def b_def)
  have "d \<le> reach m (out @ [b])" using Suc.prems(3) by (auto simp: reach_def)
  from Suc.IH[OF share_snoc[OF Suc.prems(1), of b] Suc.prems(2) this]
  show ?case by (auto simp flip: b_def b')
qed simp

text \<open>The distances of the format are within the window.\<close>

lemma ref_read_match_bounds: "ref_read_match dist k xs = Inr (n, d, ys) \<Longrightarrow> 1 \<le> d \<and> d \<le> winSize"
  by (auto simp: ref_read_match_def ebind_Inr not_le split: if_splits dest!: ref_bits_less dest: dist_bounds)

lemma ref_codes_share:
  "share m out m' out' \<Longrightarrow> ref_codes lit dist m xs out = Inr (ys, o1) \<Longrightarrow>
   \<exists>bs. o1 = out @ bs \<and> ref_codes lit dist m' xs out' = Inr (ys, out' @ bs)"
proof (induction "length xs" arbitrary: xs out out' rule: less_induct)
  case less
  note sh = less.prems(1)
  from less.prems(2) obtain s xs1 where d: "ref_decode lit xs = Inr (s, xs1)"
    by (auto simp: ref_codes.simps[of lit dist m xs] ebind_Inr)
  have l1: "length xs1 < length xs" by (rule ref_decode_length[OF d])
  consider "s = 256" | "s < 256" | "s > 256" by linarith
  then show ?case
  proof cases
    case 1
    with d less.prems show ?thesis by (auto simp: ref_codes.simps[of _ _ _ xs])
  next
    case 2
    with d less.prems have r: "ref_codes lit dist m xs1 (out @ [of_nat s]) = Inr (ys, o1)"
      by (simp add: ref_codes.simps[of lit dist m xs])
    from less.hyps[OF l1 share_snoc[OF sh] r] obtain bs where
      "o1 = out @ of_nat s # bs" "ref_codes lit dist m' xs1 (out' @ [of_nat s]) = Inr (ys, out' @ of_nat s # bs)" by auto
    with d 2 show ?thesis by (simp add: ref_codes.simps[of lit dist m' xs])
  next
    case 3
    with d less.prems obtain n e xs2 where mt: "ref_read_match dist (s - 257) xs1 = Inr (n, e, xs2)"
        and e: "\<not> e > length out - m" and r: "ref_codes lit dist m xs2 (ref_match n e out) = Inr (ys, o1)"
      by (auto simp: ref_codes.simps[of lit dist m xs] ebind_Inr split: if_splits)
    have e': "1 \<le> e" "e \<le> reach m out" using ref_read_match_bounds[OF mt] e by (auto simp: reach_def)
    obtain bs where bs: "ref_match n e out = out @ bs" "ref_match n e out' = out' @ bs"
      using share_match[OF sh e'] by blast
    have l2: "length xs2 < length xs" using ref_read_match_length[OF mt] l1 by simp
    from less.hyps[OF l2 share_append[OF sh, of bs] r[unfolded bs]] obtain cs where
      "o1 = out @ bs @ cs" "ref_codes lit dist m' xs2 (out' @ bs) = Inr (ys, out' @ bs @ cs)" by auto
    moreover have "\<not> e > length out' - m'" using e'(2) sh by (auto simp: share_def)
    ultimately show ?thesis
      using d 3 mt bs by (simp add: ref_codes.simps[of lit dist m' xs])
  qed
qed

lemma ref_copy_append: "ref_copy n xs out = Inr (ys, o1) \<Longrightarrow> \<exists>bs. o1 = out @ bs \<and> ref_copy n xs out' = Inr (ys, out' @ bs)"
proof (induction n arbitrary: xs out out')
  case (Suc n)
  then obtain x xs1 where "ref_byte xs = Inr (x, xs1)" "ref_copy n xs1 (out @ [x]) = Inr (ys, o1)"
    by (auto simp: ebind_Inr)
  with Suc.IH[of xs1 "out @ [x]" "out' @ [x]"] show ?case by auto
qed simp

lemma ref_stored_append:
  "ref_stored xs out = Inr (ys, o1) \<Longrightarrow> \<exists>bs. o1 = out @ bs \<and> ref_stored xs out' = Inr (ys, out' @ bs)"
  unfolding ref_stored_def by (auto simp: ebind_Inr split: if_splits dest: ref_copy_append[where out' = out'])

lemma ref_block_share:
  "share m out m' out' \<Longrightarrow> ref_block btype m xs out = Inr (ys, o1) \<Longrightarrow>
   \<exists>bs. o1 = out @ bs \<and> ref_block btype m' xs out' = Inr (ys, out' @ bs)"
  by (auto simp: ref_block_def ebind_Inr split: if_splits dest: ref_stored_append[where out' = out'] ref_codes_share)

lemma ref_blocks_share:
  "share m out m' out' \<Longrightarrow> ref_blocks m xs out tr = Inr (ys, o1, tr1) \<Longrightarrow>
   \<exists>bs tr2. o1 = out @ bs \<and> ref_blocks m' xs out' tr' = Inr (ys, out' @ bs, tr2)"
proof (induction "length xs" arbitrary: xs out out' tr tr' rule: less_induct)
  case less
  from less.prems(2) obtain lst xs1 btype xs2 xs3 o2 where s: "ref_bits 1 xs = Inr (lst, xs1)" "ref_bits 2 xs1 = Inr (btype, xs2)"
    "ref_block btype m xs2 out = Inr (xs3, o2)" and lt: "length xs3 < length xs" and nx:
    "(if lst = 1 then Inr (xs3, o2, tr @ [(xs, out, m)]) else ref_blocks m xs3 o2 (tr @ [(xs, out, m)])) = Inr (ys, o1, tr1)"
    by (rule ref_blocks_cases)
  obtain bs where bs: "o2 = out @ bs" "ref_block btype m' xs2 out' = Inr (xs3, out' @ bs)"
    using ref_block_share[OF less.prems(1) s(3)] by blast
  have step: "ref_blocks m' xs out' tr' =
      (if lst = 1 then Inr (xs3, out' @ bs, tr' @ [(xs, out', m')]) else ref_blocks m' xs3 (out' @ bs) (tr' @ [(xs, out', m')]))"
    using s(1,2) bs(2) by (simp add: ref_blocks.simps[of m' xs])
  show ?case
  proof (cases "lst = 1")
    case True
    with nx bs step show ?thesis by auto
  next
    case False
    from less.hyps[OF lt share_append[OF less.prems(1), of bs], of _ "tr' @ [(xs, out', m')]"] False nx bs step
    show ?thesis by fastforce
  qed
qed

text \<open>A member does not see the ones before it.\<close>

lemma ref_gunzip_shift:
  "ref_gunzip xs out tr = Inr (ys, o1, tr1) \<Longrightarrow> \<exists>bs tr2. o1 = out @ bs \<and> ref_gunzip xs out' tr' = Inr (ys, out' @ bs, tr2)"
proof (induction "length xs" arbitrary: xs out out' tr tr' rule: less_induct)
  case less
  from less.prems(1) obtain xs1 xs2 o2 tr2 xs3 where s: "ref_header xs = Inr xs1" "ref_blocks (length out) xs1 out tr = Inr (xs2, o2, tr2)"
    "ref_trailer (drop (length out) o2) xs2 = Inr xs3" and lt: "length xs3 < length xs" and nx:
    "(if xs3 = [] then Inr (xs3, o2, tr2) else ref_gunzip xs3 o2 tr2) = Inr (ys, o1, tr1)"
    by (rule ref_gunzip_cases)
  have "share (length out) out (length out') out'" by (simp add: share_def reach_def)
  from ref_blocks_share[OF this s(2), of tr'] obtain bs tr3 where
    bs: "o2 = out @ bs" "ref_blocks (length out') xs1 out' tr' = Inr (xs2, out' @ bs, tr3)" by blast
  have step: "ref_gunzip xs out' tr' = (if xs3 = [] then Inr (xs3, out' @ bs, tr3) else ref_gunzip xs3 (out' @ bs) tr3)"
    using s bs by (simp add: ref_gunzip.simps[of xs])
  show ?case
  proof (cases "xs3 = []")
    case True
    with nx bs step show ?thesis by auto
  next
    case False
    from less.hyps[OF lt, of o2 tr2 "out' @ bs" tr3] False nx bs step show ?thesis by fastforce
  qed
qed


section \<open>Boundaries\<close>

text \<open>From a boundary of a member, the blocks that follow give the rest of the member.\<close>

lemma ref_blocks_boundary:
  "ref_blocks m xs out tr = Inr (ys, o1, tr1) \<Longrightarrow> (xs', out', m') \<in> set tr1 \<Longrightarrow> (xs', out', m') \<notin> set tr \<Longrightarrow>
   m \<le> length out \<Longrightarrow> m' = m \<and> m \<le> length out' \<and> (\<exists>tr2. ref_blocks m xs' out' [] = Inr (ys, o1, tr2))"
proof (induction "length xs" arbitrary: xs out tr rule: less_induct)
  case less
  note run = less.prems(1)
  from less.prems(1) obtain lst xs1 btype xs2 xs3 o2 where s: "ref_bits 1 xs = Inr (lst, xs1)" "ref_bits 2 xs1 = Inr (btype, xs2)"
    "ref_block btype m xs2 out = Inr (xs3, o2)" and lt: "length xs3 < length xs" and nx:
    "(if lst = 1 then Inr (xs3, o2, tr @ [(xs, out, m)]) else ref_blocks m xs3 o2 (tr @ [(xs, out, m)])) = Inr (ys, o1, tr1)"
    by (rule ref_blocks_cases)
  have same: "share m out m out" using less.prems(4) by (auto simp: share_def reach_def)
  show ?case
  proof (cases "(xs', out', m') = (xs, out, m)")
    case True
    with ref_blocks_share[OF same run, of "[]"] less.prems(4) show ?thesis by auto
  next
    case False
    with less.prems(2,3) nx have go: "ref_blocks m xs3 o2 (tr @ [(xs, out, m)]) = Inr (ys, o1, tr1)" by (auto split: if_splits)
    obtain bs where "o2 = out @ bs" using ref_block_share[OF same s(3)] by blast
    then show ?thesis using less.hyps[OF lt go less.prems(2)] False less.prems(3,4) by auto
  qed
qed

lemma ref_blocks_trace: "ref_blocks m xs out tr = Inr (ys, o1, tr1) \<Longrightarrow> set tr \<subseteq> set tr1"
proof (induction "length xs" arbitrary: xs out tr rule: less_induct)
  case less
  from less.prems(1) obtain lst xs1 btype xs2 xs3 o2 where s: "ref_bits 1 xs = Inr (lst, xs1)" "ref_bits 2 xs1 = Inr (btype, xs2)"
    "ref_block btype m xs2 out = Inr (xs3, o2)" and lt: "length xs3 < length xs" and nx:
    "(if lst = 1 then Inr (xs3, o2, tr @ [(xs, out, m)]) else ref_blocks m xs3 o2 (tr @ [(xs, out, m)])) = Inr (ys, o1, tr1)"
    by (rule ref_blocks_cases)
  with less.hyps[OF lt, of o2 "tr @ [(xs, out, m)]"] nx show ?case by (auto split: if_splits)
qed

text \<open>From a boundary of the file: the rest of its member, its trailer, and the members after it.\<close>

lemma ref_gunzip_boundary:
  "ref_gunzip xs out tr = Inr (zs, o1, tr1) \<Longrightarrow> (xs', out', m') \<in> set tr1 \<Longrightarrow> (xs', out', m') \<notin> set tr \<Longrightarrow>
   m' \<le> length out' \<and> (\<exists>ys o2 tr2 xs3. ref_blocks m' xs' out' [] = Inr (ys, o2, tr2) \<and>
     ref_trailer (drop m' o2) ys = Inr xs3 \<and> (if xs3 = [] then o1 = o2 else \<exists>tr3 tr4. ref_gunzip xs3 o2 tr3 = Inr (zs, o1, tr4)))"
proof (induction "length xs" arbitrary: xs out tr rule: less_induct)
  case less
  from less.prems(1) obtain xs1 xs2 o2 tr2 xs3 where s: "ref_header xs = Inr xs1" "ref_blocks (length out) xs1 out tr = Inr (xs2, o2, tr2)"
    "ref_trailer (drop (length out) o2) xs2 = Inr xs3" and lt: "length xs3 < length xs" and nx:
    "(if xs3 = [] then Inr (xs3, o2, tr2) else ref_gunzip xs3 o2 tr2) = Inr (zs, o1, tr1)"
    by (rule ref_gunzip_cases)
  show ?case
  proof (cases "(xs', out', m') \<in> set tr2")
    case True
    from ref_blocks_boundary[OF s(2) True less.prems(3)] obtain tr5 where
      "m' = length out" "m' \<le> length out'" "ref_blocks m' xs' out' [] = Inr (xs2, o2, tr5)" by auto
    with s(3) nx show ?thesis by (auto split: if_splits)
  next
    case False
    with nx less.prems(2) have go: "ref_gunzip xs3 o2 tr2 = Inr (zs, o1, tr1)" by (auto split: if_splits)
    from less.hyps[OF lt go less.prems(2) False] show ?thesis .
  qed
qed

section \<open>Resuming at a checkpoint\<close>

text \<open>
  How a reader seeks: it decodes from the bit position of a checkpoint with the window as history, skips
  the trailer of the member, and reads the members that follow.
\<close>

definition resume :: "bytes \<Rightarrow> checkpoint \<Rightarrow> zerr + bytes" where
  "resume data cp =
     ebind (ref_blocks 0 (drop (nat (8 * cpIn cp - int (unat (cpBits cp)))) (all_bits data)) (cpWindow cp) [])
       (\<lambda>(ys, o1, _). ebind (ref_skip 8 (ref_align ys)) (\<lambda>zs.
          if zs = [] then Inr (drop winSize o1)
          else ebind (ref_gunzip zs [] []) (\<lambda>(_, o2, _). Inr (drop winSize o1 @ o2))))"

lemma ref_le_skip: "ref_le n xs = Inr (v, ys) \<Longrightarrow> ref_skip n xs = Inr ys"
  by (induction n arbitrary: xs v) (auto simp: ebind_Inr)

lemma ref_skip_add: "ref_skip n xs = Inr ys \<Longrightarrow> ref_skip k ys = Inr zs \<Longrightarrow> ref_skip (n + k) xs = Inr zs"
  by (induction n arbitrary: xs) (auto simp: ebind_Inr)

lemma ref_trailer_skip: "ref_trailer member xs = Inr ys \<Longrightarrow> ref_skip 8 (ref_align xs) = Inr ys"
proof -
  assume "ref_trailer member xs = Inr ys"
  then obtain c xs1 k where "ref_le 4 (ref_align xs) = Inr (c, xs1)" "ref_le 4 xs1 = Inr (k, ys)"
    by (auto simp: ref_trailer_def ebind_Inr split: if_splits)
  then show ?thesis using ref_skip_add[of 4 "ref_align xs" xs1 4 ys] by (simp add: ref_le_skip)
qed

lemma share_window: "m \<le> length out \<Longrightarrow> share m out 0 (ref_window out)"
proof -
  assume m: "m \<le> length out"
  have "out ! (length out - d) = ref_window out ! (winSize - d)" if "1 \<le> d" "d \<le> reach m out" for d
  proof -
    have d: "d \<le> winSize" "d \<le> length out" using that by (auto simp: reach_def)
    show ?thesis
    proof (cases "length out \<le> winSize")
      case True
      with d that(1) have "\<not> winSize - d < winSize - length out" by linarith
      with True d that(1) show ?thesis by (simp add: ref_window_def nth_append)
    next
      case False
      with d that(1) show ?thesis by (simp add: ref_window_def)
    qed
  qed
  with m show ?thesis by (auto simp: share_def reach_def)
qed

lemma checkpoint_position:
  assumes "boundary_ok data (xs, out, m)"
  shows "drop (nat (8 * cpIn (ref_checkpoint data (xs, out, m)) - int (unat (cpBits (ref_checkpoint data (xs, out, m)))))) (all_bits data) = xs"
proof -
  obtain n where n: "xs = drop n (all_bits data)" using assms by (auto simp: boundary_ok_def)
  have le: "length xs \<le> 8 * length data" using n by simp
  have "unat (of_nat (length xs mod 8) :: u8) = length xs mod 8" by (simp add: unat_of_nat)
  moreover have "8 * int (length data - length xs div 8) - int (length xs mod 8) = int (8 * length data - length xs)"
  proof -
    have "length xs div 8 \<le> length data" using le by (simp add: div_le_mono[of "length xs" "8 * length data" 8, simplified])
    moreover have "8 * (length xs div 8) + length xs mod 8 = length xs" by simp
    ultimately show ?thesis using le by linarith
  qed
  ultimately have "nat (8 * cpIn (ref_checkpoint data (xs, out, m)) - int (unat (cpBits (ref_checkpoint data (xs, out, m))))) = 8 * length data - length xs"
    by (simp add: ref_checkpoint_def)
  moreover have "drop (8 * length data - length xs) (all_bits data) = xs"
    using n by (cases "n \<le> 8 * length data") auto
  ultimately show ?thesis by simp
qed

lemma resume_boundary:
  assumes gz: "ref_gunzip (all_bits data) [] [] = Inr (zs, o1, tr)" and p: "(xs, out, m) \<in> set tr"
  shows "resume data (ref_checkpoint data (xs, out, m)) = Inr (drop (length out) o1)"
proof -
  note pos = checkpoint_position[OF boundaries_ok[OF gz p]]
  from ref_gunzip_boundary[OF gz p] obtain ys o2 tr2 xs3 where
    m: "m \<le> length out" and blocks: "ref_blocks m xs out [] = Inr (ys, o2, tr2)"
    and trailer: "ref_trailer (drop m o2) ys = Inr xs3"
    and rest: "if xs3 = [] then o1 = o2 else \<exists>tr3 tr4. ref_gunzip xs3 o2 tr3 = Inr (zs, o1, tr4)"
    by auto
  obtain bs tr5 where bs: "o2 = out @ bs" "ref_blocks 0 xs (ref_window out) [] = Inr (ys, ref_window out @ bs, tr5)"
    using ref_blocks_share[OF share_window[OF m] blocks, of "[]"] by blast
  have win: "cpWindow (ref_checkpoint data (xs, out, m)) = ref_window out" by (simp add: ref_checkpoint_def)
  show ?thesis
  proof (cases "xs3 = []")
    case True
    with rest bs show ?thesis
      unfolding resume_def pos win by (simp add: ref_trailer_skip[OF trailer])
  next
    case False
    with rest obtain tr3 tr4 where "ref_gunzip xs3 o2 tr3 = Inr (zs, o1, tr4)" by auto
    then obtain cs tr6 where "o1 = o2 @ cs" "ref_gunzip xs3 [] [] = Inr (zs, cs, tr6)"
      using ref_gunzip_shift[of xs3 o2 tr3 zs o1 tr4 "[]" "[]"] by auto
    with False bs show ?thesis
      unfolding resume_def pos win by (simp add: ref_trailer_skip[OF trailer])
  qed
qed

section \<open>The order of the boundaries\<close>

definition later :: "boundary \<Rightarrow> boundary \<Rightarrow> bool" where
  "later p q \<longleftrightarrow> length (fst q) < length (fst p) \<and> length (fst (snd p)) \<le> length (fst (snd q))"

definition trace_ok :: "boundary list \<Rightarrow> bool list \<Rightarrow> bytes \<Rightarrow> bool" where
  "trace_ok tr xs out \<longleftrightarrow> sorted_wrt later tr \<and>
     (\<forall>p\<in>set tr. length xs < length (fst p) \<and> length (fst (snd p)) \<le> length out)"

lemma trace_ok_mono: "trace_ok tr xs out \<Longrightarrow> length ys \<le> length xs \<Longrightarrow> length out \<le> length o1 \<Longrightarrow> trace_ok tr ys o1"
  by (auto simp: trace_ok_def)

lemma trace_ok_snoc: "trace_ok tr xs out \<Longrightarrow> length ys < length xs \<Longrightarrow> trace_ok (tr @ [(xs, out, m)]) ys out"
  by (auto simp: trace_ok_def sorted_wrt_append later_def)

lemma ref_blocks_trace_ok:
  "ref_blocks m xs out tr = Inr (ys, o1, tr1) \<Longrightarrow> trace_ok tr xs out \<Longrightarrow> m \<le> length out \<Longrightarrow> trace_ok tr1 ys o1"
proof (induction "length xs" arbitrary: xs out tr rule: less_induct)
  case less
  from less.prems(1) obtain lst xs1 btype xs2 xs3 o2 where s: "ref_bits 1 xs = Inr (lst, xs1)" "ref_bits 2 xs1 = Inr (btype, xs2)"
    "ref_block btype m xs2 out = Inr (xs3, o2)" and lt: "length xs3 < length xs" and nx:
    "(if lst = 1 then Inr (xs3, o2, tr @ [(xs, out, m)]) else ref_blocks m xs3 o2 (tr @ [(xs, out, m)])) = Inr (ys, o1, tr1)"
    by (rule ref_blocks_cases)
  have "share m out m out" using less.prems(3) by (auto simp: share_def reach_def)
  then obtain bs where o2: "o2 = out @ bs" using ref_block_share[OF _ s(3)] by blast
  then have tr: "trace_ok (tr @ [(xs, out, m)]) xs3 o2"
    using trace_ok_mono[OF trace_ok_snoc[OF less.prems(2) lt]] by simp
  show ?case
    using less.hyps[OF lt _ tr] nx tr o2 less.prems(3) by (auto split: if_splits)
qed

lemma ref_gunzip_trace_ok:
  "ref_gunzip xs out tr = Inr (ys, o1, tr1) \<Longrightarrow> trace_ok tr xs out \<Longrightarrow> trace_ok tr1 ys o1"
proof (induction "length xs" arbitrary: xs out tr rule: less_induct)
  case less
  from less.prems(1) obtain xs1 xs2 o2 tr2 xs3 where s: "ref_header xs = Inr xs1" "ref_blocks (length out) xs1 out tr = Inr (xs2, o2, tr2)"
    "ref_trailer (drop (length out) o2) xs2 = Inr xs3" and lt: "length xs3 < length xs" and nx:
    "(if xs3 = [] then Inr (xs3, o2, tr2) else ref_gunzip xs3 o2 tr2) = Inr (ys, o1, tr1)"
    by (rule ref_gunzip_cases)
  have "trace_ok tr xs1 out" using trace_ok_mono[OF less.prems(2)] ref_header_length[OF s(1)] by simp
  then have "trace_ok tr2 xs2 o2" using ref_blocks_trace_ok[OF s(2)] by simp
  then have tr: "trace_ok tr2 xs3 o2" using trace_ok_mono ref_trailer_length[OF s(3)] by blast
  from less.hyps[OF lt _ tr] nx tr show ?case by (auto split: if_splits)
qed

end
