(* ===== verification/Zinfo_Props.thy ===== *)
theory Zinfo_Props
  imports Zinfo_Resume
begin

text \<open>
  The properties of the inflater and of the index of a gzip file: agreement with the reference decoder,
  the canonical Huffman code, the absence of panics, resumption at every checkpoint, the spacing of the
  checkpoints and the spans they cut the file into.
\<close>

section \<open>No panics\<close>

definition safe :: "zerr + 'a \<Rightarrow> bool" where
  "safe m \<longleftrightarrow> m \<noteq> Inl ZPanic"

lemma safe_bind: "safe m \<Longrightarrow> (\<And>a. m = Inr a \<Longrightarrow> safe (f a)) \<Longrightarrow> safe (ebind m f)"
  by (cases m) (auto simp: safe_def)

lemma safe_Inr: "safe (Inr a)"
  by (simp add: safe_def)

lemma safe_if: "(c \<Longrightarrow> safe a) \<Longrightarrow> (\<not> c \<Longrightarrow> safe b) \<Longrightarrow> safe (if c then a else b)"
  by simp

lemma safe_basic: "safe (ref_bits n xs)" "safe (ref_byte xs)" "safe (ref_decode lens xs)"
  by (auto simp: safe_def ref_bits_def ref_byte_def ref_decode_def split: option.splits)

lemma safe_case2: "(\<And>a b. p = (a, b) \<Longrightarrow> safe (f a b)) \<Longrightarrow> safe (case p of (a, b) \<Rightarrow> f a b)"
  by (cases p) simp

lemmas safe_rules = safe_bind safe_Inr safe_if safe_basic safe_case2

lemma safe_errors:
  "safe (Inl ZTruncated)" "safe (Inl ZLengthSymbol)" "safe (Inl ZDistanceSymbol)" "safe (Inl ZDistanceTooFar)"
  "safe (Inl ZRepeatOverrun)" "safe (Inl ZRepeatNoPrevious)" "safe (Inl ZTooManyCodes)" "safe (Inl ZIncompleteCodeLength)"
  "safe (Inl ZMissingEndOfBlock)" "safe (Inl ZLiteralCode)" "safe (Inl ZDistanceCode)" "safe (Inl ZStoredLength)"
  "safe (Inl ZBlockType)" "safe (Inl (ZMagic x y))" "safe (Inl (ZMethod x))" "safe (Inl (ZCrc c d))" "safe (Inl (ZIsize c d))"
  "safe (Inl ZNoCheckpoints)"
  by (simp_all add: safe_def)

lemma safe_read_match: "safe (ref_read_match dist k xs)"
  unfolding ref_read_match_def by (intro safe_rules safe_errors)

lemma safe_codes: "safe (ref_codes lit dist m xs out)"
proof (induction "length xs" arbitrary: xs out rule: less_induct)
  case less
  show ?case
    unfolding ref_codes.simps[of lit dist m xs]
    by (intro safe_rules safe_errors safe_read_match less)
      (auto dest!: ref_decode_length ref_read_match_length)
qed

lemma safe_cl: "safe (ref_cl ks cl xs)"
  by (induction ks cl xs rule: ref_cl.induct) (auto intro!: safe_rules)

lemma safe_length: "safe (ref_length s n acc xs)"
  unfolding ref_length_def ref_run_def by (intro safe_rules safe_errors)

lemma safe_lengths: "safe (ref_lengths cl n acc xs)"
proof (induction "length xs" arbitrary: acc xs rule: less_induct)
  case less
  show ?case
    unfolding ref_lengths.simps[of cl n acc]
    by (intro safe_rules safe_length less) (auto dest!: ref_decode_length ref_length_length)
qed

lemma safe_copy: "safe (ref_copy n xs out)"
  by (induction n arbitrary: xs out) (auto intro!: safe_rules)

lemma safe_tables: "safe (ref_tables xs)"
  unfolding ref_tables_def by (intro safe_rules safe_errors safe_cl safe_lengths)

lemma safe_block: "safe (ref_block btype m xs out)"
proof -
  have "safe (ebind (ref_tables xs) (\<lambda>((lit, dist), xs1). ref_codes lit dist m xs1 out))"
    by (rule safe_bind[OF safe_tables]) (auto intro: safe_codes)
  moreover have "safe (ref_stored xs out)"
    unfolding ref_stored_def by (intro safe_rules safe_errors safe_copy)
  ultimately show ?thesis by (simp add: ref_block_def safe_codes safe_errors)
qed

lemma safe_blocks: "safe (ref_blocks m xs out tr)"
proof (induction "length xs" arbitrary: xs out tr rule: less_induct)
  case less
  show ?case
    unfolding ref_blocks.simps[of m xs]
    by (intro safe_rules safe_block less) (auto dest!: ref_bits_length ref_block_length)
qed

lemma safe_skip: "safe (ref_skip n xs)"
  by (induction n arbitrary: xs) (auto intro!: safe_rules)

lemma safe_cstring: "safe (ref_cstring xs)"
proof (induction "length xs" arbitrary: xs rule: less_induct)
  case less
  show ?case
    unfolding ref_cstring.simps[of xs]
    by (intro safe_rules less) (auto dest!: ref_byte_length)
qed

lemma safe_header: "safe (ref_header xs)"
  unfolding ref_header_def ref_extra_def by (intro safe_rules safe_errors safe_skip safe_cstring)

lemma safe_le: "safe (ref_le n xs)"
  by (induction n arbitrary: xs) (auto intro!: safe_rules)

lemma safe_trailer: "safe (ref_trailer member xs)"
  unfolding ref_trailer_def by (intro safe_rules safe_errors safe_le)

lemma safe_gunzip: "safe (ref_gunzip xs out tr)"
proof (induction "length xs" arbitrary: xs out tr rule: less_induct)
  case less
  show ?case
    unfolding ref_gunzip.simps[of xs]
    by (intro safe_rules safe_header safe_blocks safe_trailer less)
      (auto dest!: ref_header_length ref_blocks_length ref_trailer_length)
qed

section \<open>The selected checkpoints\<close>

text \<open>The first boundary has produced nothing, so there is always a checkpoint.\<close>

lemma ref_blocks_start:
  "ref_blocks m xs out tr = Inr (ys, o1, tr1) \<Longrightarrow> (xs, out, m) \<in> set tr1"
proof -
  assume run: "ref_blocks m xs out tr = Inr (ys, o1, tr1)"
  from ref_blocks_cases[OF this] obtain lst xs1 btype xs2 xs3 o2 where "ref_bits 1 xs = Inr (lst, xs1)"
    "(if lst = 1 then Inr (xs3, o2, tr @ [(xs, out, m)]) else ref_blocks m xs3 o2 (tr @ [(xs, out, m)])) = Inr (ys, o1, tr1)"
    by metis
  then show ?thesis using ref_blocks_trace[of m xs3 o2 "tr @ [(xs, out, m)]"] by (auto split: if_splits)
qed

lemma ref_gunzip_trace: "ref_gunzip xs out tr = Inr (ys, o1, tr1) \<Longrightarrow> set tr \<subseteq> set tr1"
proof (induction "length xs" arbitrary: xs out tr rule: less_induct)
  case less
  from less.prems(1) obtain xs1 xs2 o2 tr2 xs3 where s: "ref_header xs = Inr xs1" "ref_blocks (length out) xs1 out tr = Inr (xs2, o2, tr2)"
    "ref_trailer (drop (length out) o2) xs2 = Inr xs3" and lt: "length xs3 < length xs" and nx:
    "(if xs3 = [] then Inr (xs3, o2, tr2) else ref_gunzip xs3 o2 tr2) = Inr (ys, o1, tr1)"
    by (rule ref_gunzip_cases)
  from less.hyps[OF lt, of o2 tr2] nx ref_blocks_trace[OF s(2)] show ?case by (auto split: if_splits)
qed

lemma ref_gunzip_start: "ref_gunzip xs out tr = Inr (ys, o1, tr1) \<Longrightarrow> \<exists>xs1. (xs1, out, length out) \<in> set tr1"
proof -
  assume run: "ref_gunzip xs out tr = Inr (ys, o1, tr1)"
  then obtain xs1 xs2 o2 tr2 xs3 where s: "ref_blocks (length out) xs1 out tr = Inr (xs2, o2, tr2)"
    "(if xs3 = [] then Inr (xs3, o2, tr2) else ref_gunzip xs3 o2 tr2) = Inr (ys, o1, tr1)"
    by (rule ref_gunzip_cases) blast
  then have "set tr2 \<subseteq> set tr1" using ref_gunzip_trace[of xs3 o2 tr2] by (auto split: if_splits)
  with ref_blocks_start[OF s(1)] show ?thesis by blast
qed

lemma ref_recorder_snoc: "ref_recorder data span (tr @ [p]) = ref_select data span (ref_recorder data span tr) p"
  by (simp add: ref_recorder_def)

lemma ref_recorder_start:
  "(xs, [], m) \<in> set tr \<Longrightarrow> \<exists>cp\<in>set (fst (ref_recorder data span tr)). cpOut cp = 0"
proof (induction tr rule: rev_induct)
  case (snoc p tr)
  then show ?case
    by (cases "ref_recorder data span tr"; cases p)
      (auto simp: ref_recorder_snoc ref_select_def ref_checkpoint_def split: if_splits)
qed simp

text \<open>How the recorder's list grows: a subsequence of the boundaries, far enough apart.\<close>

definition spaced :: "int \<Rightarrow> checkpoint \<Rightarrow> checkpoint \<Rightarrow> bool" where
  "spaced span c d \<longleftrightarrow> cpIn c \<le> cpIn d \<and> cpOut c \<le> cpOut d \<and> (cpOut d \<noteq> 0 \<longrightarrow> span < int (cpOut d) - int (cpOut c))"

lemma ref_recorder_spec:
  assumes "sorted_wrt later tr"
  shows "set (fst (ref_recorder data span tr)) \<subseteq> ref_checkpoint data ` set tr \<and>
    sorted_wrt (spaced span) (fst (ref_recorder data span tr)) \<and>
    (\<forall>cp\<in>set (fst (ref_recorder data span tr)). cpOut cp \<le> snd (ref_recorder data span tr))"
  using assms
proof (induction tr rule: rev_induct)
  case Nil
  then show ?case by (simp add: ref_recorder_def)
next
  case (snoc p tr)
  obtain cps lst where rec: "ref_recorder data span tr = (cps, lst)" by fastforce
  obtain xs out m where p: "p = (xs, out, m)" by (cases p)
  from snoc have IH: "set cps \<subseteq> ref_checkpoint data ` set tr" "sorted_wrt (spaced span) cps" "\<forall>cp\<in>set cps. cpOut cp \<le> lst"
    and later: "\<forall>q\<in>set tr. later q p" by (auto simp: sorted_wrt_append rec)
  show ?case
  proof (cases "out \<noteq> [] \<and> int (length out) - int lst \<le> span")
    case True
    with IH show ?thesis by (auto simp: ref_recorder_snoc rec ref_select_def p)
  next
    case False
    have sp: "spaced span cp (ref_checkpoint data p)" if cp: "cp \<in> set cps" for cp
    proof -
      obtain q where q: "q \<in> set tr" "cp = ref_checkpoint data q" using IH(1) cp by auto
      then have l: "later q p" using later by simp
      have "cpIn cp \<le> cpIn (ref_checkpoint data p)"
        using l by (cases q) (auto simp: q(2) p later_def ref_checkpoint_def intro: diff_le_mono2 div_le_mono)
      moreover have "cpOut cp \<le> cpOut (ref_checkpoint data p)"
        using l by (cases q) (auto simp: q(2) p later_def ref_checkpoint_def)
      moreover have "cpOut cp \<le> lst" using IH(3) cp by simp
      ultimately show ?thesis using False by (auto simp: spaced_def p ref_checkpoint_def)
    qed
    then have "cpOut cp \<le> length out" if "cp \<in> set cps" for cp
      using that by (fastforce simp: spaced_def p ref_checkpoint_def)
    with IH sp False show ?thesis
      by (auto simp: ref_recorder_snoc rec ref_select_def p sorted_wrt_append) (auto simp: ref_checkpoint_def)
  qed
qed


text \<open>The checkpoints before any output, and those after, which are far apart.\<close>

lemma spaced_parts:
  assumes "sorted_wrt (spaced span) cps" "cps \<noteq> []" "cpOut (hd cps) = 0"
  shows "\<exists>starts rest. cps = starts @ rest \<and> starts \<noteq> [] \<and> (\<forall>cp\<in>set starts. cpOut cp = 0) \<and>
    (\<forall>cp\<in>set rest. 0 < cpOut cp) \<and> sorted_wrt (\<lambda>c d. span < int (cpOut d) - int (cpOut c)) (last starts # rest)"
proof -
  define starts rest where "starts = takeWhile (\<lambda>cp. cpOut cp = 0) cps" and "rest = dropWhile (\<lambda>cp. cpOut cp = 0) cps"
  have cps: "cps = starts @ rest" by (simp add: starts_def rest_def)
  have ne: "starts \<noteq> []" using assms(2,3) by (cases cps) (auto simp: starts_def)
  have zero: "\<forall>cp\<in>set starts. cpOut cp = 0" by (auto simp: starts_def dest: set_takeWhileD)
  have sp: "sorted_wrt (spaced span) rest" "\<forall>c\<in>set starts. \<forall>d\<in>set rest. spaced span c d"
    using assms(1) unfolding cps sorted_wrt_append by auto
  have pos: "\<forall>cp\<in>set rest. 0 < cpOut cp"
  proof (cases rest)
    case (Cons r rs)
    then have "0 < cpOut r" using hd_dropWhile[of "\<lambda>cp. cpOut cp = 0" cps] by (simp add: rest_def)
    then show ?thesis using sp(1) Cons by (fastforce simp: spaced_def)
  qed simp
  have "sorted_wrt (\<lambda>c d. span < int (cpOut d) - int (cpOut c)) rest"
    by (rule sorted_wrt_mono_rel[OF _ sp(1)]) (use pos in \<open>auto simp: spaced_def\<close>)
  moreover have "\<forall>d\<in>set rest. span < int (cpOut d) - int (cpOut (last starts))"
    using sp(2) pos ne by (auto simp: spaced_def)
  ultimately show ?thesis using cps ne zero pos by (intro exI[of _ starts] exI[of _ rest]) simp
qed

section \<open>Spans\<close>

text \<open>The position of a checkpoint in the file, in bits.\<close>

definition bit_pos :: "checkpoint \<Rightarrow> int" where
  "bit_pos cp = 8 * cpIn cp - uint (cpBits cp)"

text \<open>
  The bytes of each span: every byte that holds a bit from its checkpoint on, up to the next checkpoint or
  the end of the file.
\<close>

fun spans :: "bytes \<Rightarrow> checkpoint list \<Rightarrow> bytes list" where
  "spans data [] = []"
| "spans data [cp] = [drop (nat (bit_pos cp div 8)) data]"
| "spans data (cp # cp' # cps) =
     slice (nat (bit_pos cp div 8)) (nat ((bit_pos cp' + 7) div 8)) data # spans data (cp' # cps)"

lemma length_spans: "length (spans data cps) = length cps"
  by (induction data cps rule: spans.induct) simp_all

text \<open>A checkpoint of a boundary starts within the file.\<close>

definition cp_within :: "bytes \<Rightarrow> checkpoint \<Rightarrow> bool" where
  "cp_within data cp \<longleftrightarrow> uint (cpBits cp) < 8 \<and> 0 \<le> bit_pos cp \<and> cpIn cp \<le> int (length data)"

lemma cp_within_bytes:
  assumes "cp_within data cp"
  shows "span_start cp = bit_pos cp div 8" "cpIn cp = (bit_pos cp + 7) div 8" "0 \<le> span_start cp" "span_start cp \<le> cpIn cp"
proof -
  have b: "0 \<le> uint (cpBits cp)" "uint (cpBits cp) < 8" "0 \<le> bit_pos cp" using assms by (simp_all add: cp_within_def)
  show start: "span_start cp = bit_pos cp div 8"
  proof (cases "cpBits cp = 0")
    case False
    then have "0 < uint (cpBits cp)" using b(1) by (simp add: order_less_le uint_0_iff)
    with b False show ?thesis by (simp add: span_start_def bit_pos_def)
  qed (simp add: span_start_def bit_pos_def)
  show "cpIn cp = (bit_pos cp + 7) div 8" unfolding bit_pos_def using b(1,2) by linarith
  show "0 \<le> span_start cp" using start b by simp
  show "span_start cp \<le> cpIn cp" by (simp add: span_start_def)
qed

lemma checkpoint_within:
  assumes "boundary_ok data p"
  shows "cp_within data (ref_checkpoint data p)"
proof -
  obtain xs out m where p: "p = (xs, out, m)" by (cases p)
  obtain n where "xs = drop n (all_bits data)" using assms by (auto simp: boundary_ok_def p)
  then have le: "length xs \<le> 8 * length data" by simp
  have "length xs mod 8 < 256" by (rule less_trans[of _ 8]) simp_all
  then have bits: "uint (cpBits (ref_checkpoint data p)) = int (length xs mod 8)"
    by (simp add: ref_checkpoint_def p unsigned_of_nat take_bit_nat_eq_self)
  obtain q r where q: "length xs div 8 = q" and r: "length xs mod 8 = r" by simp
  then have "length xs = 8 * q + r" "r < 8" by (auto simp: minus_mod_eq_mult_div[symmetric])
  with le have "8 * q + r \<le> 8 * length data" "q \<le> length data" by linarith+
  then show ?thesis using bits \<open>r < 8\<close>
    by (simp add: cp_within_def bit_pos_def r) (simp add: ref_checkpoint_def p q of_nat_diff)
qed

lemma span_digests_spans:
  "sorted_wrt (spaced span) cps \<Longrightarrow> (\<And>cp. cp \<in> set cps \<Longrightarrow> cp_within data cp) \<Longrightarrow>
   span_digests H data (int (length data)) i cps = Inr (map H (spans data cps))"
proof (induction data cps arbitrary: i rule: spans.induct)
  case (2 data cp)
  then have "cp_within data cp" by simp
  note b = cp_within_bytes[OF this] and this
  then have "0 \<le> span_start cp" "span_start cp \<le> int (length data)" by (auto simp: cp_within_def)
  then show ?case using b(1) by (simp add: slice_def)
next
  case (3 data cp cp' cps)
  from 3 have w: "cp_within data cp" "cp_within data cp'" by simp_all
  have le: "0 \<le> span_start cp" "span_start cp \<le> cpIn cp'" "cpIn cp' \<le> int (length data)"
    using 3(2) w cp_within_bytes(3,4)[OF w(1)] by (auto simp: spaced_def cp_within_def)
  have "span_digests H data (int (length data)) (Suc i) (cp' # cps) = Inr (map H (spans data (cp' # cps)))"
    using 3(1)[of "Suc i"] 3(2,3) by simp
  with le cp_within_bytes(1)[OF w(1)] cp_within_bytes(2)[OF w(2)] show ?case
    by (simp only: span_digests.simps(2)[of _ _ _ i] Let_def list.case spans.simps) simp
qed simp

text \<open>What an index holds, in terms of the boundaries the reference decoder reports.\<close>

lemma build_result:
  assumes "buildGzipZinfo data span = Inr z"
  obtains out tr zs where "ref_gunzip (all_bits data) [] [] = Inr (zs, out, tr)" "checkpoints z = fst (ref_recorder data span tr)"
    "sorted_wrt (spaced span) (checkpoints z)" "set (checkpoints z) \<subseteq> ref_checkpoint data ` set tr"
    "\<forall>p\<in>set tr. boundary_ok data p" "checkpoints z \<noteq> []" "cpOut (hd (checkpoints z)) = 0"
proof -
  obtain zs out tr where gz: "ref_gunzip (all_bits data) [] [] = Inr (zs, out, tr)"
    and z: "z = \<lparr>checkpoints = fst (ref_recorder data span tr), spanSize = span\<rparr>" "fst (ref_recorder data span tr) \<noteq> []"
    using assms by (auto simp: buildGzipZinfo_ref ebind_Inr split: if_splits)
  have "trace_ok tr zs out" by (rule ref_gunzip_trace_ok[OF gz]) (simp add: trace_ok_def)
  then have "sorted_wrt later tr" by (simp add: trace_ok_def)
  note spec = ref_recorder_spec[OF this, of data span]
  obtain xs1 where "(xs1, [], 0) \<in> set tr" using ref_gunzip_start[OF gz] by auto
  then have "\<exists>cp\<in>set (fst (ref_recorder data span tr)). cpOut cp = 0" by (rule ref_recorder_start)
  then have "cpOut (hd (fst (ref_recorder data span tr))) = 0"
    using spec by (cases "fst (ref_recorder data span tr)") (auto simp: spaced_def)
  with spec gz z boundaries_ok[OF gz] show thesis
    by (intro that[OF gz]) auto
qed

lemma build_spans:
  assumes "buildGzipZinfo data span = Inr z"
  shows "spanDigests H z data (int (length data)) = Inr (map H (spans data (checkpoints z)))"
    "maxSpanID z = int (length (spans data (checkpoints z))) - 1"
proof -
  from assms obtain out tr zs where s: "sorted_wrt (spaced span) (checkpoints z)"
      "set (checkpoints z) \<subseteq> ref_checkpoint data ` set tr" "\<forall>p\<in>set tr. boundary_ok data p"
    by (rule build_result) blast
  have "cp_within data cp" if "cp \<in> set (checkpoints z)" for cp
    using that s(2,3) checkpoint_within by fast
  from span_digests_spans[OF s(1) this, of H 0]
  show "spanDigests H z data (int (length data)) = Inr (map H (spans data (checkpoints z)))"
    by (simp add: spanDigests_def)
  show "maxSpanID z = int (length (spans data (checkpoints z))) - 1"
    by (simp add: maxSpanID_def length_spans)
qed

lemma ref_decode_iff:
  assumes "fits lens"
  shows "ref_decode lens xs = Inr (s, ys) \<longleftrightarrow> s < length lens \<and> lens ! s \<noteq> 0 \<and> xs = code_word lens s @ ys"
proof
  assume "ref_decode lens xs = Inr (s, ys)"
  then have "s < length lens" "matches lens xs s" "ys = drop (lens ! s) xs"
    by (auto simp: ref_decode_def find_Some_iff split: option.splits if_splits)
  then show "s < length lens \<and> lens ! s \<noteq> 0 \<and> xs = code_word lens s @ ys"
    using append_take_drop_id[of "lens ! s" xs] by (simp add: matches_def)
next
  assume *: "s < length lens \<and> lens ! s \<noteq> 0 \<and> xs = code_word lens s @ ys"
  have len: "length (code_word lens s) = lens ! s" by (simp add: code_word_def)
  with * have "matches lens xs s" by (simp add: matches_def)
  with ref_decode_match[OF assms, of s xs] * len show "ref_decode lens xs = Inr (s, ys)" by simp
qed

section \<open>Properties\<close>

text \<open>
  C3. Indexing a gzip file fails exactly when, and as, the reference decoder of RFC 1951 and RFC 1952
  fails on it; otherwise the checkpoints are those selected from the boundaries of its deflate blocks,
  each with the last 32 KiB of the output before it, and there is at least one.
\<close>
theorem zinfo_matches_reference:
  "buildGzipZinfo data span =
   ebind (ref_gunzip (all_bits data) [] []) (\<lambda>(_, _, tr).
     Inr \<lparr>checkpoints = fst (ref_recorder data span tr), spanSize = span\<rparr>)"
proof (cases "ref_gunzip (all_bits data) [] []")
  case (Inr q)
  obtain zs out tr where q: "q = (zs, out, tr)" by (cases q)
  obtain xs1 where "(xs1, [], 0) \<in> set tr" using ref_gunzip_start[OF Inr[unfolded q]] by auto
  then have "fst (ref_recorder data span tr) \<noteq> []" using ref_recorder_start[of xs1 0 tr data span] by auto
  then show ?thesis by (simp add: buildGzipZinfo_ref Inr q)
qed (simp add: buildGzipZinfo_ref)

text \<open>
  C4. Reading can start at any checkpoint of the index: decoding from its bit position with its window as
  history gives the uncompressed file from its output offset to the end, across gzip members.
\<close>
theorem checkpoint_resumes:
  assumes "buildGzipZinfo data span = Inr z" "cp \<in> set (checkpoints z)"
  shows "\<exists>zs out tr. ref_gunzip (all_bits data) [] [] = Inr (zs, out, tr) \<and> resume data cp = Inr (drop (cpOut cp) out)"
proof -
  from assms(1) obtain out tr zs where gz: "ref_gunzip (all_bits data) [] [] = Inr (zs, out, tr)"
      and sub: "set (checkpoints z) \<subseteq> ref_checkpoint data ` set tr"
    by (rule build_result)
  with assms(2) obtain xs o1 m where p: "(xs, o1, m) \<in> set tr" "cp = ref_checkpoint data (xs, o1, m)" by fast
  have "cpOut cp = length o1" by (simp add: p(2) ref_checkpoint_def)
  with resume_boundary[OF gz p(1)] gz p(2) show ?thesis by auto
qed

text \<open>
  C33. No input makes the inflater panic: no index into the input, the window, the code lengths, the tables of
  extra bits or a Huffman table is out of range, no slice of the code lengths is, and no table is used that has
  not been built.
\<close>
theorem inflate_never_panics: "buildGzipZinfo data span \<noteq> Inl ZPanic"
proof -
  have "safe (buildGzipZinfo data span)"
    unfolding buildGzipZinfo_ref by (intro safe_rules safe_errors safe_gunzip)
  then show ?thesis by (simp add: safe_def)
qed

text \<open>
  C34. The checkpoints of an index are in file order.  Some, at least one, are at output offset zero: one
  for every boundary before the first byte of output, however close they are.  From the last of these on, any
  two are more than a span size of output apart.  Every span the digests are computed from lies within the
  file and holds exactly the bytes with a bit between its checkpoint and the next.
\<close>
theorem spans_digested:
  assumes "buildGzipZinfo data span = Inr z"
  shows "(\<exists>starts rest. checkpoints z = starts @ rest \<and> starts \<noteq> [] \<and>
      (\<forall>cp\<in>set starts. cpOut cp = 0) \<and> (\<forall>cp\<in>set rest. 0 < cpOut cp) \<and>
      sorted_wrt (\<lambda>c d. span < int (cpOut d) - int (cpOut c)) (last starts # rest)) \<and>
    sorted_wrt (\<lambda>c d. cpIn c \<le> cpIn d \<and> cpOut c \<le> cpOut d) (checkpoints z) \<and>
    spanDigests H z data (int (length data)) = Inr (map H (spans data (checkpoints z))) \<and>
    maxSpanID z = int (length (spans data (checkpoints z))) - 1"
proof -
  from assms obtain out tr zs where s: "sorted_wrt (spaced span) (checkpoints z)"
      "checkpoints z \<noteq> []" "cpOut (hd (checkpoints z)) = 0"
    by (rule build_result) blast
  have "sorted_wrt (\<lambda>c d. cpIn c \<le> cpIn d \<and> cpOut c \<le> cpOut d) (checkpoints z)"
    by (rule sorted_wrt_mono_rel[OF _ s(1)]) (simp add: spaced_def)
  with spaced_parts[OF s] build_spans[OF assms] show ?thesis by simp
qed

text \<open>
  C35. The Huffman decoder reads exactly the canonical code of its code lengths: from a table built without
  over-subscription a symbol is decoded, leaving a given rest, if and only if the input is the code word of
  that symbol followed by that rest.
\<close>
theorem decode_canonical:
  assumes "lens_ok lens" "0 \<le> ref_left lens" "construct h lens = Inr (left, h')" "br_rel data b xs"
  shows "(\<exists>b'. decode h' b = Inr (s, b') \<and> br_rel data b' ys) \<longleftrightarrow>
         s < length lens \<and> lens ! s \<noteq> 0 \<and> xs = code_word lens s @ ys"
proof -
  have tab: "table lens h'"
    using construct_spec[OF assms(1), of h] assms(3) sgn_nonneg[OF _ assms(2)] by auto
  then have fits: "fits lens" by (simp add: table_def)
  have "(\<exists>b'. decode h' b = Inr (s, b') \<and> br_rel data b' ys) \<longleftrightarrow> ref_decode lens xs = Inr (s, ys)"
    using decode_refines[OF tab assms(4)] by (cases "decode h' b"; cases "ref_decode lens xs") (auto simp: br_rel_def)
  then show ?thesis using ref_decode_iff[OF fits] by simp
qed


section \<open>Witnesses\<close>

text \<open>A gzip file with one stored block, the text \<^verbatim>\<open>hi\<close>.\<close>

definition demo_gz :: bytes where
  "demo_gz = [31, 139, 8, 0, 0, 0, 0, 0, 0, 3, 1, 2, 0, 253, 255, 104, 105, 172, 42, 147, 216, 2, 0, 0, 0]"

lemma demo_gunzip:
  "ref_gunzip (all_bits demo_gz) [] [] = Inr ([], [104, 105], [(drop 80 (all_bits demo_gz), [], 0)])"
  by code_simp

lemma demo_zinfo:
  obtains z cp where "buildGzipZinfo demo_gz 100 = Inr z" "cp \<in> set (checkpoints z)" "cpOut cp = 0"
proof
  let ?cp = "ref_checkpoint demo_gz (drop 80 (all_bits demo_gz), [], 0)"
  have "ref_recorder demo_gz 100 [(drop 80 (all_bits demo_gz), [], 0)] = ([?cp], 0)"
    by (simp add: ref_recorder_def ref_select_def)
  then show "buildGzipZinfo demo_gz 100 = Inr \<lparr>checkpoints = [?cp], spanSize = 100\<rparr>"
    by (simp add: buildGzipZinfo_ref demo_gunzip)
  show "?cp \<in> set (checkpoints \<lparr>checkpoints = [?cp], spanSize = 100\<rparr>)" by simp
  show "cpOut ?cp = 0" by (simp add: ref_checkpoint_def)
qed

theorem checkpoint_resumes_witness:
  "\<exists>z cp. buildGzipZinfo demo_gz 100 = Inr z \<and> cp \<in> set (checkpoints z) \<and> resume demo_gz cp = Inr [104, 105]"
proof -
  obtain z cp where z: "buildGzipZinfo demo_gz 100 = Inr z" "cp \<in> set (checkpoints z)" "cpOut cp = 0"
    by (rule demo_zinfo)
  have "resume demo_gz cp = Inr [104, 105]"
    using checkpoint_resumes[OF z(1,2)] z(3) by (auto simp: demo_gunzip)
  with z show ?thesis by blast
qed

text \<open>Two stored blocks, \<^verbatim>\<open>hi\<close> twice, with a span size of one byte: a checkpoint at each of them.\<close>

definition demo_gz2 :: bytes where
  "demo_gz2 = [31, 139, 8, 0, 0, 0, 0, 0, 0, 3, 0, 2, 0, 253, 255, 104, 105, 1, 2, 0, 253, 255, 104, 105,
     12, 200, 154, 1, 4, 0, 0, 0]"

lemma demo_gunzip2:
  "ref_gunzip (all_bits demo_gz2) [] [] = Inr ([], [104, 105, 104, 105],
     [(drop 80 (all_bits demo_gz2), [], 0), (drop 136 (all_bits demo_gz2), [104, 105], 0)])"
  by code_simp

theorem spans_digested_witness:
  "\<exists>z c d. buildGzipZinfo demo_gz2 1 = Inr z \<and> checkpoints z = [c, d] \<and> cpOut c = 0 \<and> 1 < int (cpOut d) - int (cpOut c) \<and>
     spanDigests (\<lambda>x. x) z demo_gz2 (int (length demo_gz2)) = Inr (spans demo_gz2 [c, d])"
proof -
  let ?c = "ref_checkpoint demo_gz2 (drop 80 (all_bits demo_gz2), [], 0)"
  let ?d = "ref_checkpoint demo_gz2 (drop 136 (all_bits demo_gz2), [104, 105], 0)"
  let ?z = "\<lparr>checkpoints = [?c, ?d], spanSize = 1\<rparr>"
  have "ref_recorder demo_gz2 1 [(drop 80 (all_bits demo_gz2), [], 0), (drop 136 (all_bits demo_gz2), [104, 105], 0)] = ([?c, ?d], 2)"
    by (simp add: ref_recorder_def ref_select_def)
  then have z: "buildGzipZinfo demo_gz2 1 = Inr ?z"
    by (simp add: buildGzipZinfo_ref demo_gunzip2)
  have "cpOut ?c = 0" "cpOut ?d = 2" by (simp_all add: ref_checkpoint_def)
  with spans_digested[OF z, of "\<lambda>x. x"] z show ?thesis
    by (intro exI[of _ ?z] exI[of _ ?c] exI[of _ ?d]) (auto simp: append_eq_Cons_conv Cons_eq_append_conv)
qed

text \<open>Three symbols with codes 0, 10 and 11; the input begins with the code of the third.\<close>

theorem decode_canonical_witness:
  "\<exists>left h' b b'. construct new_huffman [1, 2, 2] = Inr (left, h') \<and> decode h' b = Inr (2, b') \<and>
     br_rel [3] b (code_word [1, 2, 2] 2 @ replicate 6 False) \<and> br_rel [3] b' (replicate 6 False)"
proof -
  have lens: "lens_ok [1, 2, 2]" "0 \<le> ref_left [1, 2, 2]" by code_simp+
  obtain left h' where c: "construct new_huffman [1, 2, 2] = Inr (left, h')"
    by (rule construct_table[OF lens])
  let ?b = "\<lparr>brIn = [3], incnt = 0, hold = 0, nbits = 0\<rparr>"
  have "all_bits [3] = code_word [1, 2, 2] 2 @ replicate 6 False" by code_simp
  with br_rel_init[of "[3]"] have b: "br_rel [3] ?b (code_word [1, 2, 2] 2 @ replicate 6 False)" by simp
  have "\<exists>b'. decode h' ?b = Inr (2, b') \<and> br_rel [3] b' (replicate 6 False)"
    using decode_canonical[OF lens c b, of 2 "replicate 6 False"] by simp
  with c b show ?thesis by blast
qed

end
