(* ===== verification/Ztoc_Props.thy ===== *)
theory Ztoc_Props
  imports Ztoc_Unmarshal Zinfo_Props "HOL-Library.Multiset"
begin

text \<open>
  The properties of the ztoc format: a ztoc is read back as it was written, one built from a layer also gets
  the offsets of its tar headers, and what a damaged file can make the reader return.
\<close>

section \<open>Sorting\<close>

text \<open>What \<^verbatim>\<open>sort.Slice\<close> promises: the same elements, in the order of their offsets; ties in any order.\<close>

definition sort_ok :: "ztocLib \<Rightarrow> bool" where
  "sort_ok L \<longleftrightarrow> (\<forall>md. mset (sortSlice L md) = mset md \<and> sorted (map fmUncompressedOffset (sortSlice L md)))"

lemma sortSlice_strict:
  assumes "sort_ok L" "sorted_wrt (<) (map fmUncompressedOffset md)"
  shows "sortSlice L md = md"
proof -
  let ?k = fmUncompressedOffset and ?s = "sortSlice L md"
  have s: "mset ?s = mset md" "sorted (map ?k ?s)" using assms(1) by (simp_all add: sort_ok_def)
  have "sorted (map ?k md)" using assms(2) by (rule strict_sorted_imp_sorted)
  moreover have "mset (map ?k ?s) = mset (map ?k md)" using s(1) by simp
  ultimately have eq: "map ?k ?s = map ?k md" using s(2) by (metis properties_for_sort)
  have "distinct (map ?k md)" using assms(2) by (simp add: strict_sorted_iff)
  then have "inj_on ?k (set md)" by (simp add: distinct_map)
  moreover have "set ?s = set md" using s(1) by (rule mset_eq_setD)
  ultimately show ?thesis using eq by (intro map_inj_on[of ?k]) simp_all
qed

lemma norm_fm_offset [simp]: "fmUncompressedOffset (norm_fm me) = fmUncompressedOffset me"
  by (simp add: norm_fm_def)

lemma sortSlice_norm:
  assumes "sort_ok L" "sorted_wrt (<) (map fmUncompressedOffset md)"
  shows "sortSlice L (map norm_fm md) = map norm_fm md"
  by (rule sortSlice_strict[OF assms(1)]) (use assms(2) in \<open>simp add: comp_def\<close>)

section \<open>Header offsets\<close>

definition round512 :: "int \<Rightarrow> int" where
  "round512 x = 512 * ((x + 511) div 512)"

lemma i64_id: "in_i64 x \<Longrightarrow> i64 x = x"
  by (simp add: i64_def sint_i64)

lemma alignToTarBlock_round:
  assumes "0 \<le> x" "x < 2 ^ 62"
  shows "alignToTarBlock x = round512 x"
proof -
  have q: "go_quot x 512 = x div 512" using assms(1) by (cases "x = 0") (simp_all add: go_quot_def)
  obtain n r where x: "x = 512 * n + r" "0 \<le> r" "r < 512" "x div 512 = n"
    by (rule that[of "x div 512" "x mod 512"]) simp_all
  have r: "x - 512 * go_quot x 512 = r" unfolding q x(4) using x(1) by simp
  show ?thesis
  proof (cases "r = 0")
    case True
    have up: "(x + 511) div 512 = n" by (rule int_div_pos_eq[of _ _ _ "511"]) (use x(1) True in simp_all)
    show ?thesis unfolding alignToTarBlock_def Let_def r round512_def up using True x(1) by simp
  next
    case False
    have up: "(x + 511) div 512 = n + 1" by (rule int_div_pos_eq[of _ _ _ "r - 1"]) (use x(1-3) False in simp_all)
    have id: "i64 (x + (512 - r)) = x + (512 - r)" by (rule i64_id) (use x assms in \<open>simp add: in_i64_def\<close>)
    show ?thesis unfolding alignToTarBlock_def Let_def r round512_def up id using False x(1) by simp
  qed
qed

text \<open>
  A well-formed archive, as the tar reader walks it: every header takes at least a block, from the block
  boundary after the data before it to the start of its own data.
\<close>

fun scan_from :: "int \<Rightarrow> (tarHeader \<times> int) list \<Rightarrow> bool" where
  "scan_from nxt [] \<longleftrightarrow> True"
| "scan_from nxt ((hdr, pos) # hs) \<longleftrightarrow>
     nxt + 512 \<le> pos \<and> 0 \<le> hSize hdr \<and> pos + hSize hdr < 2 ^ 62 \<and> scan_from (round512 (pos + hSize hdr)) hs"

text \<open>The block boundaries at which the headers of a list of entries start.\<close>

fun header_starts :: "int \<Rightarrow> fileMetadata list \<Rightarrow> int list" where
  "header_starts nxt [] = []"
| "header_starts nxt (me # md) = nxt # header_starts (round512 (fmUncompressedOffset me + fmUncompressedSize me)) md"


lemma round512_ge: "x \<le> round512 x"
  unfolding round512_def by linarith

lemma toc_entries_fields:
  "toc_entries True hs = Inr md \<Longrightarrow> map (\<lambda>me. (fmUncompressedOffset me, fmUncompressedSize me)) md = map (\<lambda>(h, pos). (pos, hSize h)) hs"
proof (induction hs arbitrary: md)
  case (Cons p hs)
  obtain hdr pos where p: "p = (hdr, pos)" by (cases p)
  from Cons.prems obtain ft md' where "md = toc_entry hdr ft pos # md'" "toc_entries True hs = Inr md'"
    by (auto simp: p ebind_Inr)
  with Cons.IH p show ?case by (simp add: toc_entry_def)
qed simp

lemma toc_entries_eof: "toc_entries atEOF hs = Inr md \<Longrightarrow> toc_entries True hs = Inr md"
proof (induction hs arbitrary: md)
  case (Cons p hs)
  then show ?case by (cases p) (auto simp: ebind_Inr)
qed (simp split: if_splits)

text \<open>The same condition on the entries of the table of contents.\<close>

fun entries_from :: "int \<Rightarrow> fileMetadata list \<Rightarrow> bool" where
  "entries_from nxt [] \<longleftrightarrow> True"
| "entries_from nxt (me # md) \<longleftrightarrow>
     nxt + 512 \<le> fmUncompressedOffset me \<and> 0 \<le> fmUncompressedSize me \<and> fmUncompressedOffset me + fmUncompressedSize me < 2 ^ 62 \<and>
     entries_from (round512 (fmUncompressedOffset me + fmUncompressedSize me)) md"

lemma scan_entries:
  "scan_from nxt hs \<Longrightarrow> map (\<lambda>me. (fmUncompressedOffset me, fmUncompressedSize me)) md = map (\<lambda>(h, pos). (pos, hSize h)) hs \<Longrightarrow>
   entries_from nxt md"
proof (induction hs arbitrary: nxt md)
  case (Cons p hs)
  then show ?case by (cases p; cases md) auto
qed simp

lemma entries_sorted:
  "entries_from nxt md \<Longrightarrow> sorted_wrt (<) (map fmUncompressedOffset md) \<and> (\<forall>me\<in>set md. nxt < fmUncompressedOffset me)"
proof (induction nxt md rule: entries_from.induct)
  case (2 nxt me md)
  let ?e = "round512 (fmUncompressedOffset me + fmUncompressedSize me)"
  have "fmUncompressedOffset me \<le> ?e" "nxt < fmUncompressedOffset me"
    using 2(2) round512_ge[of "fmUncompressedOffset me + fmUncompressedSize me"] by simp_all
  with 2 show ?case by fastforce
qed simp

definition with_headers :: "fileMetadata list \<Rightarrow> int list \<Rightarrow> fileMetadata list" where
  "with_headers md hs = map2 (\<lambda>me h. me\<lparr>fmTarHeaderOffset := h\<rparr>) md hs"

lemma header_offsets_entries:
  "entries_from nxt md \<Longrightarrow> 0 \<le> nxt \<Longrightarrow> header_offsets nxt (map norm_fm md) = Inr (with_headers (map norm_fm md) (header_starts nxt md))"
proof (induction nxt md rule: entries_from.induct)
  case (1 nxt)
  then show ?case by (simp add: with_headers_def)
next
  case (2 nxt me md)
  let ?x = "fmUncompressedOffset me + fmUncompressedSize me"
  have x: "0 \<le> ?x" "?x < 2 ^ 62" "nxt \<le> fmUncompressedOffset me" using 2(2,3) by auto
  then have "i64 ?x = ?x" by (intro i64_id) (simp add: in_i64_def)
  with alignToTarBlock_round[OF x(1,2)] have al: "alignToTarBlock (i64 ?x) = round512 ?x" by simp
  have f: "fmUncompressedSize (norm_fm me) = fmUncompressedSize me" by (simp add: norm_fm_def)
  have "0 \<le> round512 ?x" using x(1) round512_ge[of ?x] by linarith
  with 2 have "header_offsets (round512 ?x) (map norm_fm md) = Inr (with_headers (map norm_fm md) (header_starts (round512 ?x) md))" by simp
  then show ?case using x(3) by (simp add: al f with_headers_def)
qed

section \<open>What an entry says of a tar header\<close>

definition type_names :: "(byte \<times> string) list" where
  "type_names = [(TypeLink, ''hardlink''), (TypeSymlink, ''symlink''), (TypeDir, ''dir''), (TypeReg, ''reg''), (0, ''reg''),
     (TypeChar, ''char''), (TypeBlock, ''block''), (0x36, ''fifo'')]"

text \<open>
  The entry of a header whose data begins at \<open>pos\<close> and which itself begins at \<open>start\<close>, field by field; user and
  group identifiers have 32 bits, and the PAX records are the same map.
\<close>

definition describes :: "tarHeader \<times> int \<Rightarrow> int \<Rightarrow> fileMetadata \<Rightarrow> bool" where
  "describes = (\<lambda>(hdr, pos) start me.
     fmName me = hName hdr \<and> map_of type_names (hTypeflag hdr) = Some (fmType me) \<and>
     fmTarHeaderOffset me = start \<and> fmUncompressedOffset me = pos \<and> fmUncompressedSize me = hSize hdr \<and>
     fmLinkname me = hLinkname hdr \<and> fmMode me = hMode hdr \<and>
     fmUID me = hUid hdr mod 2 ^ 32 \<and> fmGID me = hGid hdr mod 2 ^ 32 \<and> fmUname me = hUname hdr \<and> fmGname me = hGname hdr \<and>
     fmModTime me = hModTime hdr \<and> fmDevmajor me = hDevmajor hdr \<and> fmDevminor me = hDevminor hdr \<and>
     map_of (map_entries (fmPAXHeaders me)) = map_of (map_entries (hPAXRecords hdr)))"

text \<open>The block boundaries at which the headers of an archive start.\<close>

fun block_starts :: "int \<Rightarrow> (tarHeader \<times> int) list \<Rightarrow> int list" where
  "block_starts nxt [] = []"
| "block_starts nxt ((hdr, pos) # hs) = nxt # block_starts (round512 (pos + hSize hdr)) hs"

lemma sorted_entries_map: "map_of (sorted_entries pax) = map_of (map_entries pax)"
proof
  fix k
  let ?es = "map_entries pax"
  have "map_of (map (\<lambda>k. (k, the (map_of ?es k))) ks) k = (if k \<in> set ks then Some (the (map_of ?es k)) else None)" for ks
    by (induction ks) auto
  moreover have "map_of ?es k = None" if "k \<notin> fst ` set ?es" using that by (simp add: map_of_eq_None_iff)
  moreover have "\<exists>v. map_of ?es k = Some v" if "k \<in> fst ` set ?es" using that by (metis map_of_eq_None_iff not_None_eq)
  ultimately show "map_of (sorted_entries pax) k = map_of ?es k" by (auto simp: sorted_entries_def)
qed

lemma tarEntryType_names: "tarEntryType hdr = Inr ft \<Longrightarrow> map_of type_names (hTypeflag hdr) = Some ft"
  by (auto simp: tarEntryType_def type_names_def typeflags split: if_splits)

lemma toc_describes:
  "toc_entries atEOF hs = Inr md \<Longrightarrow>
   list_all2 (\<lambda>(hp, start) me. describes hp start me) (zip hs (block_starts nxt hs))
     (with_headers (map norm_fm md) (header_starts nxt md))"
proof (induction hs arbitrary: md nxt)
  case (Cons p hs)
  obtain hdr pos where p: "p = (hdr, pos)" by (cases p)
  from Cons.prems obtain ft md' where md: "md = toc_entry hdr ft pos # md'" "toc_entries atEOF hs = Inr md'"
    and ft: "tarEntryType hdr = Inr ft"
    by (auto simp: p ebind_Inr)
  from Cons.IH[OF md(2), of "round512 (pos + hSize hdr)"] tarEntryType_names[OF ft] show ?case
    by (simp add: p md(1) with_headers_def describes_def)
      (simp add: norm_fm_def toc_entry_def sorted_entries_map map_entries_def)
qed (auto simp: with_headers_def split: if_splits)

section \<open>Properties\<close>

text \<open>
  C5. A ztoc is read back as it was written: for values within their widths and entries in the order of their
  offsets, unmarshalling what \<^verbatim>\<open>Marshal\<close> wrote gives every field again, with user and group identifiers
  modulo two to the 32, the PAX records ordered by key and the header offsets derived, whatever bytes follow
  the file in memory; it fails exactly when the entries overlap.
\<close>
theorem ztoc_roundtrip:
  assumes "sort_ok L" "ztoc_ok L z" "sorted_wrt (<) (map fmUncompressedOffset (zTOC z))" "ztoc_size L z < 2 ^ 32"
  shows "\<exists>data. Marshal L z = Inr data \<and> length data \<le> ztoc_size L z \<and>
    (\<forall>spare. Unmarshal L data spare = ebind (header_offsets 0 (map norm_fm (zTOC z))) (\<lambda>md. Inr (norm_ztoc z md)))"
proof -
  have "algo_known (ciAlgorithm (zCompressionInfo z))" using assms(2) by (simp add: ztoc_ok_def info_ok_def)
  with Marshal_result[OF assms(4)] obtain data where data: "Marshal L z = Inr data" "marshalled L z data" "length data \<le> ztoc_size L z"
    by (cases "Marshal L z") auto
  have "length data < 2 ^ 32" using data(3) assms(4) by simp
  from Unmarshal_marshalled[OF data(2) this assms(2)] sortSlice_norm[OF assms(1,3)] data show ?thesis by simp
qed

text \<open>
  C16. A ztoc built from a gzip layer, written and read again, describes the archive: its entries are those of
  the tar headers, in their order, each with the fields of its header, the offset of its data and the offset of
  the header, which is the block boundary after the data of the entry before it; the sizes are those of the file
  and of the stream; and the compression information holds the checkpoints of the index of the file for
  the configured span size and the digests of the spans between them.
\<close>
theorem built_ztoc_readable:
  assumes "Build L blob sz opts = Inr z" "gzipTarScan L (take (nat sz) blob) = Some sc" "scan_from 0 (tsHeaders sc)"
    and "sort_ok L" "ztoc_ok L z" "ztoc_size L z < 2 ^ 32"
  shows "\<exists>data z' zi. Marshal L z = Inr data \<and> (\<forall>spare. Unmarshal L data spare = Inr z') \<and>
    list_all2 (\<lambda>(hp, start) me. describes hp start me) (zip (tsHeaders sc) (block_starts 0 (tsHeaders sc))) (zTOC z') \<and>
    zCompressedSize z' = sz \<and> zUncompressedSize z' = tsFinal sc \<and>
    buildGzipZinfo (take (nat sz) blob) (cfgSpanSize (foldl apply_ztocOption defaultConfig opts)) = Inr zi \<and>
    zCompressionInfo z' = \<lparr>ciMaxSpanID = int (length (checkpoints zi)) - 1,
      ciSpanDigests = map (sumSHA256 L) (spans (take (nat sz) blob) (checkpoints zi)),
      ciCheckpoints = marshalCheckpoints zi, ciAlgorithm = CompressionGzip\<rparr>"
proof -
  let ?data = "take (nat sz) blob"
  have len: "int (length ?data) = sz"
    using assms(1) by (auto simp: Build_def Let_def split: if_splits)
  obtain zi digests where zi: "buildGzipZinfo ?data (cfgSpanSize (foldl apply_ztocOption defaultConfig opts)) = Inr zi" "spanDigests (sumSHA256 L) zi ?data sz = Inr digests"
    and z: "zCompressedSize z = sz" "zUncompressedSize z = tsFinal sc"
    "zCompressionInfo z = \<lparr>ciMaxSpanID = maxSpanID zi, ciSpanDigests = digests, ciCheckpoints = marshalCheckpoints zi, ciAlgorithm = CompressionGzip\<rparr>"
    using assms(1,2) by (auto simp: Build_def Let_def ebind_Inr buildTOC_def inflate_result_def split: if_splits sum.splits)
  have digests: "digests = map (sumSHA256 L) (spans ?data (checkpoints zi))"
    using build_spans(1)[OF zi(1), of "sumSHA256 L"] zi(2) len by simp
  have toc: "toc_entries (tsEOF sc) (tsHeaders sc) = Inr (zTOC z)" "ciAlgorithm (zCompressionInfo z) = CompressionGzip"
    using assms(1,2) by (auto simp: Build_def Let_def ebind_Inr buildTOC_def split: if_splits)
  then have "toc_entries True (tsHeaders sc) = Inr (zTOC z)" using toc_entries_eof by metis
  from scan_entries[OF assms(3) toc_entries_fields[OF this]] have e: "entries_from 0 (zTOC z)" .
  have "algo_known (ciAlgorithm (zCompressionInfo z))" using toc(2) by (simp add: algo_known_def)
  with Marshal_result[OF assms(6)] obtain data where data: "Marshal L z = Inr data" "marshalled L z data" "length data \<le> ztoc_size L z"
    by (cases "Marshal L z") auto
  have "length data < 2 ^ 32" using data(3) assms(6) by simp
  from Unmarshal_marshalled[OF data(2) this assms(5)] sortSlice_norm[OF assms(4)] entries_sorted[OF e] header_offsets_entries[OF e]
  have "Unmarshal L data spare = Inr (norm_ztoc z (with_headers (map norm_fm (zTOC z)) (header_starts 0 (zTOC z))))" for spare by simp
  moreover have "CompressionGzip \<noteq> []" by (simp add: CompressionGzip_def)
  ultimately show ?thesis
    using data(1) zi(1) z digests toc_describes[OF toc(1), of 0]
    by (intro exI[of _ data] exI[of _ "norm_ztoc z (with_headers (map norm_fm (zTOC z)) (header_starts 0 (zTOC z)))"] exI[of _ zi])
      (simp add: norm_ztoc_def norm_info_def maxSpanID_def)
qed

text \<open>
  \<^verbatim>\<open>Marshal\<close> never panics on a ztoc whose file stays below 4 GiB, for any contents: it returns the file, of
  a size bounded by the sizes of the parts, or the error that the compression algorithm is unknown.
\<close>
lemma Marshal_returns:
  assumes "ztoc_size L z < 2 ^ 32"
  shows "if algo_known (ciAlgorithm (zCompressionInfo z)) then \<exists>data. Marshal L z = Inr data \<and> length data \<le> ztoc_size L z
    else Marshal L z = Inl (ZtAlgorithm (ciAlgorithm (zCompressionInfo z)))"
  using Marshal_result[OF assms] by (auto split: sum.splits)

text \<open>A file of 24 bytes whose version string is declared to lie in the three bytes after its end.\<close>

definition past_end :: bytes where
  "past_end = [12, 0, 0, 0, 6, 0, 8, 0, 4, 0, 0, 0, 8, 0, 0, 0, 4, 0, 0, 0, 3, 0, 0, 0]"

lemma past_end_get:
  "get32 past_end 12 = Some 8" "get16 past_end 4 = Some 6" "get16 past_end 8 = Some 4" "get32 past_end 16 = Some 4"
  "get32 past_end 20 = Some 3" "length past_end = 24"
  by code_simp+

lemma past_end_root: "getRootTable past_end spare = Some \<lparr>tbuf = past_end, tspare = spare, tpos = 12\<rparr>"
proof -
  have "read_at 4 0 past_end = Some [12, 0, 0, 0]" "le32 [12, 0, 0, 0] = 12" by code_simp+
  then show ?thesis by (simp add: getRootTable_def past_end_get(6))
qed

lemma past_end_fields:
  "tbl_offset \<lparr>tbuf = past_end, tspare = spare, tpos = 12\<rparr> (vo k) = Some (if k = 0 then 4 else 0)" if "k \<in> {0, 1, 2, 3, 4, 5}"
proof -
  have "vo k = 4 \<and> k = 0 \<or> 6 \<le> vo k \<and> k \<noteq> 0" using that by (auto simp: vo_def)
  then show ?thesis by (auto simp: tbl_offset_def past_end_get)
qed

text \<open>
  C36. The reader slices strings up to the capacity of its input, not its length: for a malformed file in a
  larger buffer \<^verbatim>\<open>Unmarshal\<close> returns bytes that are not part of the file, and only without such bytes is the
  file rejected.
\<close>
theorem unmarshal_reads_past_end:
  "Unmarshal L past_end (x # y # w # rest) =
     Inr \<lparr>zTOC = [], zCompressionInfo = empty_info, zVersion = go_string [x, y, w], zBuildTool = [],
          zCompressedSize = 0, zUncompressedSize = 0\<rparr> \<and>
   Unmarshal L past_end [] = Inl ZtRecovered"
proof -
  have read: "unmarshal_root L \<lparr>tbuf = past_end, tspare = spare, tpos = 12\<rparr> =
      map_option (\<lambda>v. Inr \<lparr>zTOC = [], zCompressionInfo = empty_info, zVersion = go_string v, zBuildTool = [],
          zCompressedSize = 0, zUncompressedSize = 0\<rparr>) (if 3 \<le> length spare then Some (take 3 spare) else None)" for spare
    by (simp add: unmarshal_root_def textField_def stringField_def scalarInt64_def past_end_fields byteVector_def past_end_get slice_def
      go_string_def del: One_nat_def)
  show ?thesis by (simp add: Unmarshal_def past_end_root read)
qed

section \<open>Witnesses\<close>

definition demo_header :: tarHeader where
  "demo_header = zero_header\<lparr>hTypeflag := TypeReg, hName := ''a'', hSize := 2, hUid := 7\<rparr>"

definition demo_lib :: ztocLib where
  "demo_lib = \<lparr>gzipTarScan = (\<lambda>_. Some \<lparr>tsHeaders = [(demo_header, 512)], tsEOF = True, tsFinal = 2048\<rparr>),
     marshalText = (\<lambda>_. []), unmarshalText = (\<lambda>_. 0), sortSlice = sort_key fmUncompressedOffset, sumSHA256 = (\<lambda>_. ''d'')\<rparr>"

definition demo_ztoc :: ztoc where
  "demo_ztoc = \<lparr>zTOC = [toc_entry demo_header ''reg'' 512], zCompressionInfo = \<lparr>ciMaxSpanID = 0, ciSpanDigests = [''d''],
     ciCheckpoints = [1, 2], ciAlgorithm = CompressionUncompressed\<rparr>, zVersion = Version09, zBuildTool = ''t'',
     zCompressedSize = 25, zUncompressedSize = 2048\<rparr>"

lemma demo_sort_ok: "sort_ok demo_lib"
  by (simp add: sort_ok_def demo_lib_def)

lemma demo_entry_ok: "fm_ok demo_lib (toc_entry demo_header ''reg'' 512)"
  by (simp add: fm_ok_def toc_entry_def demo_header_def zero_header_def demo_lib_def in_i64_def map_entries_def)

lemma demo_toc_size: "toc_size demo_lib [toc_entry demo_header ''reg'' 512] = 353"
  by (simp add: toc_size_def fm_size_def toc_entry_def demo_header_def zero_header_def demo_lib_def xattrs_size_def sorted_entries_def map_entries_def)

lemma demo_ztoc_ok: "ztoc_ok demo_lib demo_ztoc" "ztoc_size demo_lib demo_ztoc < 2 ^ 32"
  using demo_entry_ok demo_toc_size
  by (simp_all add: ztoc_ok_def demo_ztoc_def info_ok_def algo_known_def in_i64_def ztoc_size_def info_size_def Version09_def)

theorem ztoc_roundtrip_witness:
  "\<exists>data. Marshal demo_lib demo_ztoc = Inr data \<and>
     Unmarshal demo_lib data [] = Inr (demo_ztoc\<lparr>zTOC := [norm_fm (toc_entry demo_header ''reg'' 512)]\<rparr>)"
proof -
  have *: "header_offsets 0 (map norm_fm (zTOC demo_ztoc)) = Inr [norm_fm (toc_entry demo_header ''reg'' 512)]"
    by (simp add: demo_ztoc_def norm_fm_def toc_entry_def)
  have "sorted_wrt (<) (map fmUncompressedOffset (zTOC demo_ztoc))" by (simp add: demo_ztoc_def)
  from ztoc_roundtrip[OF demo_sort_ok demo_ztoc_ok(1) this demo_ztoc_ok(2)] show ?thesis
    unfolding * by (auto simp: norm_ztoc_def norm_info_def demo_ztoc_def CompressionUncompressed_def)
qed

lemma Marshal_returns_witness:
  "\<exists>data. Marshal demo_lib demo_ztoc = Inr data \<and> length data \<le> ztoc_size demo_lib demo_ztoc"
  using Marshal_returns[OF demo_ztoc_ok(2)] by (simp add: algo_known_def demo_ztoc_def)

text \<open>The index of the demonstration file has one checkpoint, whose window stays symbolic.\<close>

lemma demo_build:
  obtains z where "Build demo_lib demo_gz 25 [WithSpanSize 100] = Inr z" "ztoc_ok demo_lib z" "ztoc_size demo_lib z < 2 ^ 32"
    "zTOC z = [toc_entry demo_header ''reg'' 512]"
proof -
  let ?cp = "ref_checkpoint demo_gz (drop 80 (all_bits demo_gz), [], 0)"
  let ?zi = "\<lparr>checkpoints = [?cp], spanSize = 100\<rparr>"
  have "ref_recorder demo_gz 100 [(drop 80 (all_bits demo_gz), [], 0)] = ([?cp], 0)"
    by (simp add: ref_recorder_def ref_select_def)
  then have zi: "buildGzipZinfo demo_gz 100 = Inr ?zi" by (simp add: buildGzipZinfo_ref demo_gunzip)
  have bits: "length (all_bits demo_gz) = 200" by (simp add: demo_gz_def)
  have dig: "spanDigests (sumSHA256 demo_lib) ?zi demo_gz 25 = Inr [''d'']"
    by (simp add: spanDigests_def span_start_def ref_checkpoint_def bits demo_lib_def) (simp add: demo_gz_def)
  have len: "length demo_gz = 25" by (simp add: demo_gz_def)
  let ?z = "\<lparr>zTOC = [toc_entry demo_header ''reg'' 512], zCompressionInfo = \<lparr>ciMaxSpanID = 0, ciSpanDigests = [''d''],
     ciCheckpoints = marshalCheckpoints ?zi, ciAlgorithm = CompressionGzip\<rparr>, zVersion = Version09,
     zBuildTool = DefaultBuildToolIdentifier, zCompressedSize = 25, zUncompressedSize = 2048\<rparr>"
  have toc: "buildTOC demo_lib demo_gz = Inr ([toc_entry demo_header ''reg'' 512], 2048)"
    by (simp add: buildTOC_def demo_lib_def tarEntryType_def demo_header_def typeflags)
  show thesis
  proof (rule that[of ?z])
    show "Build demo_lib demo_gz 25 [WithSpanSize 100] = Inr ?z"
      by (simp add: Build_def defaultConfig_def len zi dig toc inflate_result_def maxSpanID_def)
    show "ztoc_ok demo_lib ?z" using demo_entry_ok by (simp add: ztoc_ok_def info_ok_def algo_known_def in_i64_def)
    have "length (marshalCheckpoints ?zi) = winSize + 29"
      by (simp add: marshalCheckpoints_def pack_checkpoint_def le_bytes_def ref_checkpoint_def)
    then show "ztoc_size demo_lib ?z < 2 ^ 32"
      by (simp add: ztoc_size_def demo_toc_size info_size_def Version09_def DefaultBuildToolIdentifier_def winSize_def)
    show "zTOC ?z = [toc_entry demo_header ''reg'' 512]" by simp
  qed
qed

theorem built_ztoc_readable_witness:
  "\<exists>z data z' me. Build demo_lib demo_gz 25 [WithSpanSize 100] = Inr z \<and> Marshal demo_lib z = Inr data \<and>
     Unmarshal demo_lib data [] = Inr z' \<and> zTOC z' = [me] \<and> fmName me = ''a'' \<and> fmType me = ''reg'' \<and>
     fmUncompressedOffset me = 512 \<and> fmUID me = 7 \<and> fmTarHeaderOffset me = 0 \<and> zUncompressedSize z' = 2048"
proof -
  obtain z where z: "Build demo_lib demo_gz 25 [WithSpanSize 100] = Inr z" "ztoc_ok demo_lib z" "ztoc_size demo_lib z < 2 ^ 32"
    "zTOC z = [toc_entry demo_header ''reg'' 512]" by (rule demo_build)
  let ?sc = "\<lparr>tsHeaders = [(demo_header, 512)], tsEOF = True, tsFinal = 2048\<rparr>"
  have sc: "gzipTarScan demo_lib (take (nat 25) demo_gz) = Some ?sc" by (simp add: demo_lib_def)
  have "scan_from 0 (tsHeaders ?sc)" by (simp add: demo_header_def)
  from built_ztoc_readable[OF z(1) sc this demo_sort_ok z(2,3)] z(1) show ?thesis
    by (fastforce simp: list_all2_Cons1 describes_def type_names_def demo_header_def typeflags zero_header_def)
qed

end
