(* ===== verification/Mtree.thy ===== *)
theory Mtree
  imports Tar_Header Go_Path
begin

text \<open>
  \<^verbatim>\<open>pkg/mtree/mtree.go\<close> and \<^verbatim>\<open>parse.go\<close>: the rendering of layers as an mtree specification, entry by entry or as
  the file system that the layers, applied as OCI changesets, leave behind.  The library \<^verbatim>\<open>go-mtree\<close> with its
  \<^verbatim>\<open>govis\<close> escaping, \<^verbatim>\<open>archive/tar\<close>, \<^verbatim>\<open>sort.Slice\<close> and SHA-256 are fields of the record \<open>mtreeLib\<close>.
\<close>

section \<open>Types\<close>

datatype mtErr =
    MtKind int | MtTar | MtDigest string | MtParse | MtPath | MtVis | MtLayout string | MtWrite | MtGzip | MtZstd | MtPanic

type_synonym keyval = string

definition LayoutTar :: string where "LayoutTar = ''tar''"
definition LayoutOCIChangeset :: string where "LayoutOCIChangeset = ''oci_layer_filesystem_applied_changeset''"
definition schilyXattrPrefix :: string where "schilyXattrPrefix = ''SCHILY.xattr.''"
definition whiteoutPrefix :: string where "whiteoutPrefix = ''.wh.''"
definition whiteoutOpaque :: string where "whiteoutOpaque = ''.wh..wh..opq''"

record mtOptions =
  optPathPrefix :: string
  optKeywords :: "string list"
  optLayout :: string

definition DefaultOptions :: mtOptions where
  "DefaultOptions = \<lparr>optPathPrefix = ''./'',
     optKeywords = [''type'', ''size'', ''mode'', ''uid'', ''uname'', ''gid'', ''gname'', ''sha256'', ''time'', ''link'', ''nlink''],
     optLayout = LayoutTar\<rparr>"

text \<open>An entry of \<^verbatim>\<open>go-mtree\<close>: the fields the package sets or reads.\<close>

datatype mtType = SignatureType | FullType | RelativeType | OtherType

datatype mtEntry = MtEntry (eName: string) (eKeywords: "keyval list") (eType: mtType) (eRaw: string) (ePos: nat) (eParent: "mtEntry option")

datatype inputKind = TarInput | MtreeInput | OtherInput int

record mtInput =
  inKind :: inputKind
  inReader :: bytes
  inDigester :: "(tarHeader \<Rightarrow> bytes \<Rightarrow> mtErr + bytes) option"

text \<open>
  A node of the in-memory tree; the missing value of \<open>tnChildren\<close> is the nil map, which reads as empty and
  panics on assignment.
\<close>

datatype treeNode = TreeNode (tnName: string) (tnKeyvals: "keyval list") (tnIsDir: bool) (tnSynthesized: bool)
  (tnSourceInput: nat) (tnChildren: "(string \<times> treeNode) list option")

text \<open>
  \<open>tarEntries\<close> is a pass of \<^verbatim>\<open>tar.Reader.Next\<close>: the headers with their contents, and whether the pass ends
  with \<^verbatim>\<open>io.EOF\<close>.  The two sort fields are \<^verbatim>\<open>sort.Slice\<close> with the order of paths and of keywords; the sort
  of the nodes also stands for the order in which Go iterates over a map.
\<close>

record mtreeLib =
  tarEntries :: "bytes \<Rightarrow> (tarHeader \<times> bytes) list \<times> bool"
  vis :: "string \<Rightarrow> string option"
  unvis :: "string \<Rightarrow> string option"
  parseSpec :: "bytes \<Rightarrow> mtEntry list option"
  allKeys :: "mtEntry \<Rightarrow> keyval list"
  kvKeyword :: "keyval \<Rightarrow> string"
  kvValue :: "keyval \<Rightarrow> string"
  keywordPrefix :: "string \<Rightarrow> string"
  writeTo :: "mtEntry list \<Rightarrow> bytes option"
  sortNodes :: "(string \<times> treeNode) list \<Rightarrow> (string \<times> treeNode) list"
  sortKeyvals :: "keyval list \<Rightarrow> keyval list"
  mtSHA256 :: "bytes \<Rightarrow> bytes"
  gzipHeaderOk :: "bytes \<Rightarrow> bool"
  zstdHeaderOk :: "bytes \<Rightarrow> bool"

section \<open>Go strings\<close>

definition HasPrefix :: "string \<Rightarrow> string \<Rightarrow> bool" where
  "HasPrefix s pre \<longleftrightarrow> take (length pre) s = pre"

definition TrimPrefix :: "string \<Rightarrow> string \<Rightarrow> string" where
  "TrimPrefix s pre = (if HasPrefix s pre then drop (length pre) s else s)"

definition TrimSuffix :: "string \<Rightarrow> string \<Rightarrow> string" where
  "TrimSuffix s suf = (if HasSuffix s suf then take (length s - length suf) s else s)"

fun show_oct :: "nat \<Rightarrow> string" where
  "show_oct n = (if n < 8 then [char_of (48 + n)] else show_oct (n div 8) @ [char_of (48 + n mod 8)])"

declare show_oct.simps [simp del]

text \<open>The verbs \<^verbatim>\<open>%#o\<close>, which adds a leading zero to a number other than zero, and \<^verbatim>\<open>%x\<close> of a byte slice.\<close>

definition sharp_oct :: "nat \<Rightarrow> string" where
  "sharp_oct n = (if n = 0 then ''0'' else CHR ''0'' # show_oct n)"

definition hex_digit :: "nat \<Rightarrow> char" where
  "hex_digit n = char_of (if n < 10 then 48 + n else 87 + n)"

definition show_hex :: "bytes \<Rightarrow> string" where
  "show_hex bs = concat (map (\<lambda>x. [hex_digit (unat x div 16), hex_digit (unat x mod 16)]) bs)"

text \<open>\<^verbatim>\<open>base64.StdEncoding\<close>.\<close>

definition b64_char :: "nat \<Rightarrow> char" where
  "b64_char n = ''ABCDEFGHIJKLMNOPQRSTUVWXYZabcdefghijklmnopqrstuvwxyz0123456789+/'' ! (n mod 64)"

fun base64_encode :: "bytes \<Rightarrow> string" where
  "base64_encode [] = []"
| "base64_encode [x] =
     (let n = unat x * 16 in [b64_char (n div 64), b64_char n, CHR ''='', CHR ''=''])"
| "base64_encode [x, y] =
     (let n = (unat x * 256 + unat y) * 4 in [b64_char (n div 4096), b64_char (n div 64), b64_char n, CHR ''=''])"
| "base64_encode (x # y # z # rest) =
     (let n = unat x * 65536 + unat y * 256 + unat z
      in [b64_char (n div 262144), b64_char (n div 4096), b64_char (n div 64), b64_char n] @ base64_encode rest)"

section \<open>File modes\<close>

text \<open>\<^verbatim>\<open>os.FileMode\<close> and \<^verbatim>\<open>tar.Header.FileInfo().Mode()\<close>.\<close>

definition ModeDir :: u32 where "ModeDir = push_bit 31 1"
definition ModeSymlink :: u32 where "ModeSymlink = push_bit 27 1"
definition ModeDevice :: u32 where "ModeDevice = push_bit 26 1"
definition ModeNamedPipe :: u32 where "ModeNamedPipe = push_bit 25 1"
definition ModeSocket :: u32 where "ModeSocket = push_bit 24 1"
definition ModeSetuid :: u32 where "ModeSetuid = push_bit 23 1"
definition ModeSetgid :: u32 where "ModeSetgid = push_bit 22 1"
definition ModeCharDevice :: u32 where "ModeCharDevice = push_bit 21 1"
definition ModeSticky :: u32 where "ModeSticky = push_bit 20 1"

unbundle bit_operations_syntax

definition TypeRegA :: byte where "TypeRegA = 0"
definition TypeFifo :: byte where "TypeFifo = 0x36"
definition TypeCont :: byte where "TypeCont = 0x37"

definition mode_Perm :: "u32 \<Rightarrow> u32" where "mode_Perm m = m AND 0x1FF"

definition has :: "u32 \<Rightarrow> u32 \<Rightarrow> bool" where "has m flag \<longleftrightarrow> m AND flag \<noteq> 0"

definition format_bits :: "u32 \<Rightarrow> u32" where
  "format_bits m =
     (let f = m AND NOT 0xFFF in
      if f = 0x4000 then ModeDir else if f = 0x1000 then ModeNamedPipe else if f = 0xA000 then ModeSymlink
      else if f = 0x6000 then ModeDevice else if f = 0x2000 then ModeDevice OR ModeCharDevice
      else if f = 0xC000 then ModeSocket else 0)"

definition typeflag_bits :: "byte \<Rightarrow> u32" where
  "typeflag_bits t =
     (if t = TypeSymlink then ModeSymlink else if t = TypeChar then ModeDevice OR ModeCharDevice
      else if t = TypeBlock then ModeDevice else if t = TypeDir then ModeDir
      else if t = TypeFifo then ModeNamedPipe else 0)"

definition header_mode :: "tarHeader \<Rightarrow> u32" where
  "header_mode hdr =
     (let h = (of_int (hMode hdr) :: u32) in
      mode_Perm h
      OR (if has h 0x800 then ModeSetuid else 0)
      OR (if has h 0x400 then ModeSetgid else 0)
      OR (if has h 0x200 then ModeSticky else 0)
      OR format_bits h
      OR typeflag_bits (hTypeflag hdr))"

section \<open>Paths and headers\<close>

definition cleanPath :: "string \<Rightarrow> string" where
  "cleanPath name = (let n = path_Clean (TrimSuffix name ''/'') in if n = [] \<or> n = ''.'' then ''.'' else n)"

definition isRegularFile :: "tarHeader \<Rightarrow> bool" where
  "isRegularFile hdr \<longleftrightarrow> hTypeflag hdr = TypeReg \<or> hTypeflag hdr = TypeRegA"

definition mtreeType :: "tarHeader \<Rightarrow> string" where
  "mtreeType hdr =
     (let t = hTypeflag hdr; m = header_mode hdr in
      if t = TypeDir then ''dir'' else if t = TypeSymlink then ''link'' else if t = TypeChar then ''char''
      else if t = TypeBlock then ''block'' else if t = TypeFifo then ''fifo''
      else if t = TypeReg \<or> t = TypeRegA \<or> t = TypeLink \<or> t = TypeCont then ''file''
      else if has m ModeDir then ''dir'' else if has m ModeSymlink then ''link'' else if has m ModeNamedPipe then ''fifo''
      else if has m ModeDevice then (if has m ModeCharDevice then ''char'' else ''block'')
      else ''file'')"

definition vis_or_err :: "mtreeLib \<Rightarrow> string \<Rightarrow> mtErr + string" where
  "vis_or_err L s = (case vis L s of None \<Rightarrow> Inl MtVis | Some e \<Rightarrow> Inr e)"

fun xattr_kvs :: "mtreeLib \<Rightarrow> (string, string) gomap \<Rightarrow> string list \<Rightarrow> mtErr + keyval list" where
  "xattr_kvs L records [] = Inr []"
| "xattr_kvs L records (name # names) =
     ebind (vis_or_err L name) (\<lambda>encKey.
     ebind (xattr_kvs L records names) (\<lambda>kvs.
       Inr ((''xattr.'' @ encKey @ ''='' @
             base64_encode (str_bytes (case map_of records (schilyXattrPrefix @ name) of None \<Rightarrow> [] | Some v \<Rightarrow> v))) # kvs)))"

definition xattrKeywords :: "mtreeLib \<Rightarrow> tarHeader \<Rightarrow> mtErr + keyval list" where
  "xattrKeywords L hdr =
     (let records = map_entries (hPAXRecords hdr);
          names = map (\<lambda>k. TrimPrefix k schilyXattrPrefix) (filter (\<lambda>k. HasPrefix k schilyXattrPrefix) (map fst records))
      in xattr_kvs L records (sort names))"

definition keyword_perm :: "tarHeader \<Rightarrow> u32" where
  "keyword_perm hdr =
     (let mode = header_mode hdr in
      mode_Perm mode
      OR (if has mode ModeSetuid then push_bit 11 1 else 0)
      OR (if has mode ModeSetgid then push_bit 10 1 else 0)
      OR (if has mode ModeSticky then push_bit 9 1 else 0))"

definition header_keyword :: "mtreeLib \<Rightarrow> tarHeader \<Rightarrow> bytes \<Rightarrow> int \<Rightarrow> string \<Rightarrow> mtErr + keyval list" where
  "header_keyword L hdr digest nlink kw =
     (if kw = ''type'' then Inr [''type='' @ mtreeType hdr]
      else if kw = ''size'' then
        Inr (if mtreeType hdr \<noteq> ''dir''
             then [''size='' @ show_int (if hTypeflag hdr = TypeSymlink then int (length (hLinkname hdr)) else hSize hdr)] else [])
      else if kw = ''mode'' then Inr [''mode='' @ sharp_oct (unat (keyword_perm hdr))]
      else if kw = ''uid'' then Inr [''uid='' @ show_int (hUid hdr)]
      else if kw = ''gid'' then Inr [''gid='' @ show_int (hGid hdr)]
      else if kw = ''uname'' then Inr (if hUname hdr \<noteq> [] then [''uname='' @ hUname hdr] else [])
      else if kw = ''gname'' then Inr (if hGname hdr \<noteq> [] then [''gname='' @ hGname hdr] else [])
      else if kw = ''sha256'' then Inr (if digest \<noteq> [] then [''sha256digest='' @ show_hex digest] else [])
      else if kw = ''time'' then Inr [''time='' @ show_int (time_Unix (hModTime hdr))]
      else if kw = ''link'' then
        (if hTypeflag hdr = TypeSymlink \<and> hLinkname hdr \<noteq> []
         then ebind (vis_or_err L (hLinkname hdr)) (\<lambda>encoded. Inr [''link='' @ encoded]) else Inr [])
      else if kw = ''nlink'' then Inr [''nlink='' @ show_int nlink]
      else if kw = ''xattr'' then xattrKeywords L hdr
      else Inr [])"

fun keywordsForHeader :: "mtreeLib \<Rightarrow> tarHeader \<Rightarrow> bytes \<Rightarrow> int \<Rightarrow> string list \<Rightarrow> mtErr + keyval list" where
  "keywordsForHeader L hdr digest nlink [] = Inr []"
| "keywordsForHeader L hdr digest nlink (kw # kws) =
     ebind (header_keyword L hdr digest nlink kw) (\<lambda>ks.
     ebind (keywordsForHeader L hdr digest nlink kws) (\<lambda>rest. Inr (ks @ rest)))"

definition optionKeyword :: "string \<Rightarrow> string" where
  "optionKeyword opt = (if opt = ''sha256'' then ''sha256digest'' else opt)"

definition filterKeyvals :: "mtreeLib \<Rightarrow> keyval list \<Rightarrow> string list \<Rightarrow> keyval list" where
  "filterKeyvals L parsed options =
     concat (map (\<lambda>opt.
       if opt = ''xattr'' then sortKeyvals L (filter (\<lambda>kv. keywordPrefix L (kvKeyword L kv) = ''xattr'') parsed)
       else filter (\<lambda>kv. kvKeyword L kv = optionKeyword opt) parsed) options)"

definition hasTypeDir :: "mtreeLib \<Rightarrow> keyval list \<Rightarrow> bool" where
  "hasTypeDir L kvs =
     (case find (\<lambda>kv. kvKeyword L kv = ''type'') kvs of None \<Rightarrow> False | Some kv \<Rightarrow> kvValue L kv = ''dir'')"

section \<open>Collecting entries\<close>

record collectedEntry =
  cePath :: string
  ceHdr :: "tarHeader option"
  ceDigest :: bytes
  ceKeyvals :: "keyval list"
  ceIsDir :: bool
  ceInput :: nat

definition HashContent :: "mtreeLib \<Rightarrow> tarHeader \<Rightarrow> bytes \<Rightarrow> mtErr + bytes" where
  "HashContent L _ content = Inr (mtSHA256 L content)"

definition content_digest :: "(tarHeader \<Rightarrow> bytes \<Rightarrow> mtErr + bytes) option \<Rightarrow> tarHeader \<Rightarrow> bytes \<Rightarrow> mtErr + bytes" where
  "content_digest digester hdr content =
     (case digester of
        Some f \<Rightarrow> if isRegularFile hdr \<and> hSize hdr > 0
                  then (case f hdr content of Inl e \<Rightarrow> Inl (MtDigest (hName hdr)) | Inr d \<Rightarrow> Inr d) else Inr []
      | None \<Rightarrow> Inr [])"

fun collect_entries :: "(tarHeader \<Rightarrow> bytes \<Rightarrow> mtErr + bytes) option \<Rightarrow> nat \<Rightarrow> bool \<Rightarrow> (tarHeader \<times> bytes) list \<Rightarrow> mtErr + collectedEntry list" where
  "collect_entries digester input atEOF [] = (if atEOF then Inr [] else Inl MtTar)"
| "collect_entries digester input atEOF ((hdr, content) # rest) =
     ebind (content_digest digester hdr content) (\<lambda>digest.
     ebind (collect_entries digester input atEOF rest) (\<lambda>out.
       Inr (\<lparr>cePath = cleanPath (hName hdr), ceHdr = Some hdr, ceDigest = digest, ceKeyvals = [], ceIsDir = False,
             ceInput = input\<rparr> # out)))"

definition collectTar :: "mtreeLib \<Rightarrow> bytes \<Rightarrow> (tarHeader \<Rightarrow> bytes \<Rightarrow> mtErr + bytes) option \<Rightarrow> nat \<Rightarrow> mtErr + collectedEntry list" where
  "collectTar L r digester input = (case tarEntries L r of (es, atEOF) \<Rightarrow> collect_entries digester input atEOF es)"

definition unescape_backslash :: "string \<Rightarrow> string" where
  "unescape_backslash s = map (\<lambda>c. if c = CHR 0x5C then CHR ''/'' else c) s"

fun mtreeEntryPath :: "mtreeLib \<Rightarrow> mtEntry \<Rightarrow> mtErr + string" where
  "mtreeEntryPath L (MtEntry name kws typ raw pos parent) =
     (case unvis L (unescape_backslash name) of
        None \<Rightarrow> Inl MtPath
      | Some d \<Rightarrow>
          (case parent of
             None \<Rightarrow> Inr (cleanPath d)
           | Some p \<Rightarrow>
               if typ = FullType then Inr (cleanPath d)
               else ebind (mtreeEntryPath L p) (\<lambda>parentPath. Inr (path_Join_all [parentPath, cleanPath d]))))"

fun collect_spec :: "mtreeLib \<Rightarrow> mtOptions \<Rightarrow> nat \<Rightarrow> mtEntry list \<Rightarrow> mtErr + collectedEntry list" where
  "collect_spec L opts input [] = Inr []"
| "collect_spec L opts input (e # es) =
     (if eType e \<noteq> FullType \<and> eType e \<noteq> RelativeType then collect_spec L opts input es
      else ebind (mtreeEntryPath L e) (\<lambda>p0.
        let p = cleanPath p0 in
        if p = ''.'' then collect_spec L opts input es
        else ebind (collect_spec L opts input es) (\<lambda>out.
          Inr (\<lparr>cePath = p, ceHdr = None, ceDigest = [], ceKeyvals = filterKeyvals L (allKeys L e) (optKeywords opts),
                ceIsDir = hasTypeDir L (allKeys L e), ceInput = input\<rparr> # out))))"

definition collectMtree :: "mtreeLib \<Rightarrow> bytes \<Rightarrow> mtOptions \<Rightarrow> nat \<Rightarrow> mtErr + collectedEntry list" where
  "collectMtree L r opts input =
     (case parseSpec L r of None \<Rightarrow> Inl MtParse | Some es \<Rightarrow> collect_spec L opts input es)"

record parsedEntry =
  pePath :: string
  peKeywords :: "(string, string) gomap"

fun parse_entries :: "mtreeLib \<Rightarrow> mtEntry list \<Rightarrow> mtErr + parsedEntry list" where
  "parse_entries L [] = Inr []"
| "parse_entries L (e # es) =
     (if eType e \<noteq> FullType \<and> eType e \<noteq> RelativeType then parse_entries L es
      else ebind (mtreeEntryPath L e) (\<lambda>p0.
        let p = cleanPath p0 in
        if p = ''.'' then parse_entries L es
        else ebind (parse_entries L es) (\<lambda>out.
          Inr (\<lparr>pePath = p, peKeywords = foldl (\<lambda>m kv. AList.update (kvKeyword L kv) (kvValue L kv) m) [] (allKeys L e)\<rparr> # out))))"

definition ParseEntries :: "mtreeLib \<Rightarrow> bytes \<Rightarrow> mtErr + parsedEntry list" where
  "ParseEntries L r = (case parseSpec L r of None \<Rightarrow> Inl MtParse | Some es \<Rightarrow> parse_entries L es)"

section \<open>Hard links\<close>

text \<open>
  The map \<open>inodes\<close> is complete before the first link is counted, so a pointer into it is the path it is
  stored under (\<open>Inl\<close>); a link without a target has an inode of its own (\<open>Inr\<close>).
\<close>

record inode =
  inHdr :: tarHeader
  inDigest :: bytes
  inNlink :: int

type_synonym inodeMap = "(string, inode) gomap"
type_synonym linkMap = "(nat, string + inode) gomap"

fun regular_inodes :: "collectedEntry list \<Rightarrow> inodeMap \<Rightarrow> inodeMap" where
  "regular_inodes [] m = m"
| "regular_inodes (ce # ces) m =
     regular_inodes ces
       (case ceHdr ce of
          None \<Rightarrow> m
        | Some hdr \<Rightarrow> if isRegularFile hdr then AList.update (cePath ce) \<lparr>inHdr = hdr, inDigest = ceDigest ce, inNlink = 1\<rparr> m else m)"

fun link_inodes :: "nat \<Rightarrow> collectedEntry list \<Rightarrow> inodeMap \<times> linkMap \<Rightarrow> inodeMap \<times> linkMap" where
  "link_inodes i [] (m, links) = (m, links)"
| "link_inodes i (ce # ces) (m, links) =
     link_inodes (Suc i) ces
       (case ceHdr ce of
          None \<Rightarrow> (m, links)
        | Some hdr \<Rightarrow>
            if hTypeflag hdr = TypeLink then
              (case map_of m (cleanPath (hLinkname hdr)) of
                 Some n \<Rightarrow> (AList.update (cleanPath (hLinkname hdr)) (n\<lparr>inNlink := inNlink n + 1\<rparr>) m,
                            AList.update i (Inl (cleanPath (hLinkname hdr))) links)
               | None \<Rightarrow> (m, AList.update i (Inr \<lparr>inHdr = hdr, inDigest = [], inNlink = 1\<rparr>) links))
            else (m, links))"

definition groupHardlinks :: "collectedEntry list \<Rightarrow> inodeMap \<times> linkMap" where
  "groupHardlinks collected = link_inodes 0 collected (regular_inodes collected [], [])"

definition deref :: "inodeMap \<Rightarrow> string + inode \<Rightarrow> inode option" where
  "deref m r = (case r of Inl p \<Rightarrow> map_of m p | Inr n \<Rightarrow> Some n)"

text \<open>\<open>None\<close> of a lookup in \<open>hardlinkOf\<close> is the nil pointer, whose field access panics.\<close>

definition materialize :: "mtreeLib \<Rightarrow> mtOptions \<Rightarrow> inodeMap \<Rightarrow> linkMap \<Rightarrow> nat \<Rightarrow> collectedEntry \<Rightarrow> mtErr + string \<times> bool \<times> keyval list" where
  "materialize L opts inodes hardlinkOf i ce =
     (case ceHdr ce of
        None \<Rightarrow> Inr (cePath ce, ceIsDir ce, ceKeyvals ce)
      | Some hdr \<Rightarrow>
          if hTypeflag hdr = TypeLink then
            (case Option.bind (map_of hardlinkOf i) (deref inodes) of
               None \<Rightarrow> Inl MtPanic
             | Some n \<Rightarrow> ebind (keywordsForHeader L (inHdr n) (inDigest n) (inNlink n) (optKeywords opts)) (\<lambda>kvs.
                           Inr (cePath ce, False, kvs)))
          else
            let nlink = (case map_of inodes (cePath ce) of None \<Rightarrow> 1 | Some n \<Rightarrow> inNlink n) in
            ebind (keywordsForHeader L hdr (ceDigest ce) nlink (optKeywords opts)) (\<lambda>kvs.
              Inr (cePath ce, hTypeflag hdr = TypeDir, kvs)))"

section \<open>The tree of the changeset layout\<close>

definition newDir :: treeNode where
  "newDir = TreeNode [] [] True True 0 (Some [])"

definition get_child :: "string \<Rightarrow> treeNode \<Rightarrow> treeNode option" where
  "get_child c n = (case tnChildren n of None \<Rightarrow> None | Some cs \<Rightarrow> map_of cs c)"

definition with_children :: "treeNode \<Rightarrow> (string \<times> treeNode) list option \<Rightarrow> treeNode" where
  "with_children n cs = TreeNode (tnName n) (tnKeyvals n) (tnIsDir n) (tnSynthesized n) (tnSourceInput n) cs"

definition set_child :: "string \<Rightarrow> treeNode \<Rightarrow> treeNode \<Rightarrow> treeNode option" where
  "set_child c child n =
     (case tnChildren n of None \<Rightarrow> None | Some cs \<Rightarrow> Some (with_children n (Some (AList.update c child cs))))"

text \<open>
  \<^verbatim>\<open>ensureDir\<close> returns a pointer to the deepest directory, which its callers change: here the change is the
  argument \<open>f\<close>.
\<close>

definition dir_child :: "string \<Rightarrow> nat \<Rightarrow> treeNode \<Rightarrow> treeNode" where
  "dir_child seg input cur =
     (case get_child seg cur of
        None \<Rightarrow> TreeNode seg [] True True input (Some [])
      | Some child \<Rightarrow> if \<not> tnIsDir child then TreeNode (tnName child) [] True True input (Some []) else child)"

fun ensureDir :: "string list \<Rightarrow> nat \<Rightarrow> (treeNode \<Rightarrow> treeNode option) \<Rightarrow> treeNode \<Rightarrow> treeNode option" where
  "ensureDir [] input f cur = f cur"
| "ensureDir (seg # segs) input f cur =
     Option.bind (ensureDir segs input f (dir_child seg input cur)) (\<lambda>child. set_child seg child cur)"

fun removeLowerLayerEntries :: "nat \<Rightarrow> treeNode \<Rightarrow> treeNode \<times> bool"
  and prune_children :: "nat \<Rightarrow> (string \<times> treeNode) list \<Rightarrow> (string \<times> treeNode) list" where
  "removeLowerLayerEntries threshold (TreeNode nm kvs d s src None) = (TreeNode nm kvs d s src None, src \<ge> threshold)"
| "removeLowerLayerEntries threshold (TreeNode nm kvs d s src (Some cs)) =
     (let cs' = prune_children threshold cs in (TreeNode nm kvs d s src (Some cs'), src \<ge> threshold \<or> cs' \<noteq> []))"
| "prune_children threshold [] = []"
| "prune_children threshold ((name, child) # cs) =
     (case removeLowerLayerEntries threshold child of
        (child', keep) \<Rightarrow> if keep then (name, child') # prune_children threshold cs else prune_children threshold cs)"

definition put_node :: "string \<Rightarrow> bool \<Rightarrow> keyval list \<Rightarrow> nat \<Rightarrow> treeNode \<Rightarrow> treeNode option" where
  "put_node base isDir kvs input parent =
     (let old = (case get_child base parent of None \<Rightarrow> TreeNode base [] False False 0 None | Some n \<Rightarrow> n)
      in set_child base
           (TreeNode (tnName old) kvs isDir False input
              (if isDir \<and> tnChildren old = None then Some [] else tnChildren old)) parent)"

definition apply_entry :: "string \<times> bool \<times> keyval list \<Rightarrow> nat \<Rightarrow> treeNode \<Rightarrow> treeNode option" where
  "apply_entry = (\<lambda>(p, isDir, kvs) input root.
     if p = ''.'' then Some root
     else
       let comps = split_on CHR ''/'' p; base = last comps; parentComps = butlast comps in
       if base = whiteoutOpaque then
         ensureDir parentComps input (\<lambda>parent. Some (with_children parent (map_option (prune_children input) (tnChildren parent)))) root
       else if HasPrefix base whiteoutPrefix then
         ensureDir parentComps input
           (\<lambda>parent. Some (with_children parent (map_option (AList.delete (TrimPrefix base whiteoutPrefix)) (tnChildren parent)))) root
       else ensureDir parentComps input (put_node base isDir kvs input) root)"

fun collectNodes :: "string \<Rightarrow> treeNode \<Rightarrow> (string \<times> treeNode) list"
  and collect_children :: "string \<Rightarrow> (string \<times> treeNode) list \<Rightarrow> (string \<times> treeNode) list" where
  "collectNodes pre (TreeNode nm kvs d s src None) = []"
| "collectNodes pre (TreeNode nm kvs d s src (Some cs)) = collect_children pre cs"
| "collect_children pre [] = []"
| "collect_children pre ((name, child) # cs) =
     (let p = (if pre \<noteq> [] then pre @ ''/'' @ name else name)
      in (p, child) # (if tnIsDir child then collectNodes p child else []) @ collect_children pre cs)"

section \<open>Writing\<close>

definition buildEntry :: "mtreeLib \<Rightarrow> mtOptions \<Rightarrow> string \<Rightarrow> bool \<Rightarrow> keyval list \<Rightarrow> mtErr + mtEntry" where
  "buildEntry L opts p isDir kvs =
     ebind (vis_or_err L p) (\<lambda>encoded.
       Inr (MtEntry (optPathPrefix opts @ encoded @ (if isDir \<and> optPathPrefix opts = [] then ''/'' else [])) kvs FullType [] 0 None))"

definition appendEntry :: "mtEntry list \<Rightarrow> mtEntry \<Rightarrow> mtEntry list" where
  "appendEntry es e = es @ [MtEntry (eName e) (eKeywords e) (eType e) (eRaw e) (length es) (eParent e)]"

fun write_tar :: "mtreeLib \<Rightarrow> mtOptions \<Rightarrow> inodeMap \<Rightarrow> linkMap \<Rightarrow> nat \<Rightarrow> collectedEntry list \<Rightarrow> mtEntry list \<Rightarrow> mtErr + mtEntry list" where
  "write_tar L opts inodes links i [] dh = Inr dh"
| "write_tar L opts inodes links i (ce # ces) dh =
     ebind (materialize L opts inodes links i ce) (\<lambda>(p, isDir, kvs).
     ebind (buildEntry L opts p isDir kvs) (\<lambda>e. write_tar L opts inodes links (Suc i) ces (appendEntry dh e)))"

fun apply_all :: "mtreeLib \<Rightarrow> mtOptions \<Rightarrow> inodeMap \<Rightarrow> linkMap \<Rightarrow> nat \<Rightarrow> collectedEntry list \<Rightarrow> treeNode \<Rightarrow> mtErr + treeNode" where
  "apply_all L opts inodes links i [] root = Inr root"
| "apply_all L opts inodes links i (ce # ces) root =
     ebind (materialize L opts inodes links i ce) (\<lambda>m.
       case apply_entry m (ceInput ce) root of
         None \<Rightarrow> Inl MtPanic
       | Some root' \<Rightarrow> apply_all L opts inodes links (Suc i) ces root')"

fun write_nodes :: "mtreeLib \<Rightarrow> mtOptions \<Rightarrow> (string \<times> treeNode) list \<Rightarrow> mtEntry list \<Rightarrow> mtErr + mtEntry list" where
  "write_nodes L opts [] dh = Inr dh"
| "write_nodes L opts ((p, n) # ns) dh =
     ebind (buildEntry L opts p (tnIsDir n) (if tnSynthesized n then [''type=dir''] else tnKeyvals n)) (\<lambda>e.
       write_nodes L opts ns (appendEntry dh e))"

definition writeChangeset :: "mtreeLib \<Rightarrow> mtOptions \<Rightarrow> mtEntry list \<Rightarrow> collectedEntry list \<Rightarrow> inodeMap \<Rightarrow> linkMap \<Rightarrow> mtErr + mtEntry list" where
  "writeChangeset L opts dh collected inodes links =
     ebind (apply_all L opts inodes links 0 collected newDir) (\<lambda>root.
       write_nodes L opts (sortNodes L (collectNodes [] root)) dh)"

fun collect_inputs :: "mtreeLib \<Rightarrow> mtOptions \<Rightarrow> nat \<Rightarrow> mtInput list \<Rightarrow> mtErr + collectedEntry list" where
  "collect_inputs L opts idx [] = Inr []"
| "collect_inputs L opts idx (inp # ins) =
     ebind (case inKind inp of
              TarInput \<Rightarrow> collectTar L (inReader inp) (inDigester inp) idx
            | MtreeInput \<Rightarrow> collectMtree L (inReader inp) opts idx
            | OtherInput k \<Rightarrow> Inl (MtKind k)) (\<lambda>es.
     ebind (collect_inputs L opts (Suc idx) ins) (\<lambda>rest. Inr (es @ rest)))"

definition render :: "mtreeLib \<Rightarrow> mtOptions \<Rightarrow> collectedEntry list \<Rightarrow> mtErr + mtEntry list" where
  "render L opts collected =
     (case groupHardlinks collected of (inodes, links) \<Rightarrow>
        let dh = appendEntry [] (MtEntry [] [] SignatureType ''#mtree v2.0'' 0 None) in
        if optLayout opts = [] \<or> optLayout opts = LayoutTar then write_tar L opts inodes links 0 collected dh
        else if optLayout opts = LayoutOCIChangeset then writeChangeset L opts dh collected inodes links
        else Inl (MtLayout (optLayout opts)))"

definition WriteMulti :: "mtreeLib \<Rightarrow> mtOptions \<Rightarrow> mtInput list \<Rightarrow> mtErr + bytes" where
  "WriteMulti L opts inputs =
     ebind (collect_inputs L opts 0 inputs) (\<lambda>collected.
     ebind (render L opts collected) (\<lambda>dh.
       case writeTo L dh of None \<Rightarrow> Inl MtWrite | Some out \<Rightarrow> Inr out))"

definition Write_mtree :: "mtreeLib \<Rightarrow> bytes \<Rightarrow> mtOptions \<Rightarrow> (tarHeader \<Rightarrow> bytes \<Rightarrow> mtErr + bytes) option \<Rightarrow> mtErr + bytes" where
  "Write_mtree L r opts digester = WriteMulti L opts [\<lparr>inKind = TarInput, inReader = r, inDigester = digester\<rparr>]"

definition WriteFromUncompressedTar :: "mtreeLib \<Rightarrow> bytes \<Rightarrow> mtErr + bytes" where
  "WriteFromUncompressedTar L r = Write_mtree L r DefaultOptions (Some (HashContent L))"

text \<open>The reader \<^verbatim>\<open>Decompress\<close> picks for a stream.\<close>

datatype sniffed = PlainReader bytes | GzipReader bytes | ZstdReader bytes

definition Decompress :: "mtreeLib \<Rightarrow> bytes \<Rightarrow> mtErr + sniffed" where
  "Decompress L r =
     (let magic = take 4 r in
      if 2 \<le> length magic \<and> magic ! 0 = 0x1f \<and> magic ! 1 = 0x8b then
        (if gzipHeaderOk L r then Inr (GzipReader r) else Inl MtGzip)
      else if 4 \<le> length magic \<and> magic ! 0 = 0x28 \<and> magic ! 1 = 0xb5 \<and> magic ! 2 = 0x2f \<and> magic ! 3 = 0xfd then
        (if zstdHeaderOk L r then Inr (ZstdReader r) else Inl MtZstd)
      else Inr (PlainReader r))"

end
