(* ===== verification/Mtree_Tree.thy ===== *)
theory Mtree_Tree
  imports Mtree "HOL-Library.Sublist"
begin

text \<open>
  The tree of the changeset layout seen as a file system, a map from paths to what they hold, and what each
  operation on the tree does to that map.
\<close>

section \<open>Descending a tree\<close>

record nodeInfo =
  niKeyvals :: "keyval list"
  niIsDir :: bool
  niSynthesized :: bool
  niSource :: nat

type_synonym fs = "string list \<Rightarrow> nodeInfo option"

definition info :: "treeNode \<Rightarrow> nodeInfo" where
  "info n = \<lparr>niKeyvals = tnKeyvals n, niIsDir = tnIsDir n, niSynthesized = tnSynthesized n, niSource = tnSourceInput n\<rparr>"

lemma info_sel [simp]: "niIsDir (info n) = tnIsDir n" "niSource (info n) = tnSourceInput n" "niKeyvals (info n) = tnKeyvals n"
  "niSynthesized (info n) = tnSynthesized n"
  by (simp_all add: info_def)

fun look :: "treeNode \<Rightarrow> string list \<Rightarrow> treeNode option" where
  "look n [] = Some n"
| "look n (c # cs) = (if tnIsDir n then (case get_child c n of None \<Rightarrow> None | Some ch \<Rightarrow> look ch cs) else None)"

definition fs_of :: "treeNode \<Rightarrow> fs" where
  "fs_of n p = map_option info (look n p)"

lemma fs_of_Nil [simp]: "fs_of n [] = Some (info n)"
  by (simp add: fs_of_def)

lemma fs_of_Cons: "fs_of n (c # p) = (if tnIsDir n then (case get_child c n of None \<Rightarrow> None | Some ch \<Rightarrow> fs_of ch p) else None)"
  by (simp add: fs_of_def split: option.split)

lemma with_children_sel [simp]:
  "tnName (with_children n cs) = tnName n" "tnKeyvals (with_children n cs) = tnKeyvals n" "tnIsDir (with_children n cs) = tnIsDir n"
  "tnSynthesized (with_children n cs) = tnSynthesized n" "tnSourceInput (with_children n cs) = tnSourceInput n"
  "tnChildren (with_children n cs) = cs" "info (with_children n cs) = info n"
  by (simp_all add: with_children_def info_def)

lemma get_child_with [simp]: "get_child c (with_children n (Some cs)) = map_of cs c"
  by (simp add: get_child_def)

text \<open>Only directories have something below them.\<close>

lemma fs_below_dir: "fs_of n (p @ c # q) = Some v \<Longrightarrow> \<exists>d. fs_of n p = Some d \<and> niIsDir d"
proof (induction p arbitrary: n)
  case Nil
  then show ?case by (simp add: fs_of_Cons split: if_splits)
next
  case (Cons a p)
  then show ?case by (auto simp: fs_of_Cons split: if_splits option.splits)
qed

text \<open>The directories on the way to a path are created where there is none, as directories of the current layer.\<close>

definition new_dir :: "nat \<Rightarrow> nodeInfo" where
  "new_dir input = \<lparr>niKeyvals = [], niIsDir = True, niSynthesized = True, niSource = input\<rparr>"

definition make_dirs :: "string list \<Rightarrow> nat \<Rightarrow> fs \<Rightarrow> fs" where
  "make_dirs segs input F p =
     (if p \<noteq> [] \<and> prefix p segs \<and> (\<forall>v. F p = Some v \<longrightarrow> \<not> niIsDir v) then Some (new_dir input) else F p)"

lemma make_dirs_Nil: "make_dirs [] input F = F"
  by (simp add: make_dirs_def fun_eq_iff)

section \<open>Invariants of all nodes\<close>

lemma child_smaller: "tnChildren n = Some cs \<Longrightarrow> (c, ch) \<in> set cs \<Longrightarrow> size ch < size n"
proof (cases n)
  case (TreeNode nm kvs d s src cso)
  assume "tnChildren n = Some cs" "(c, ch) \<in> set cs"
  then have "size ch \<le> size_list (size_prod (\<lambda>_. 0) size) cs"
    by (intro size_list_estimation'[of "(c, ch)"]) simp_all
  then show "size ch < size n" using TreeNode \<open>tnChildren n = Some cs\<close> by simp
qed

lemma node_induct [case_names node]:
  assumes "\<And>n. (\<And>cs c ch. tnChildren n = Some cs \<Longrightarrow> (c, ch) \<in> set cs \<Longrightarrow> P ch) \<Longrightarrow> P n"
  shows "P n"
proof (induction n rule: measure_induct_rule[of size])
  case (less n)
  show ?case by (rule assms) (rule less[OF child_smaller])
qed

fun all_nodes :: "(treeNode \<Rightarrow> bool) \<Rightarrow> treeNode \<Rightarrow> bool"
  and all_children :: "(treeNode \<Rightarrow> bool) \<Rightarrow> (string \<times> treeNode) list \<Rightarrow> bool" where
  "all_nodes P (TreeNode nm kvs d s src None) \<longleftrightarrow> P (TreeNode nm kvs d s src None)"
| "all_nodes P (TreeNode nm kvs d s src (Some cs)) \<longleftrightarrow> P (TreeNode nm kvs d s src (Some cs)) \<and> all_children P cs"
| "all_children P [] \<longleftrightarrow> True"
| "all_children P ((c, ch) # cs) \<longleftrightarrow> all_nodes P ch \<and> all_children P cs"

lemma all_children_iff: "all_children P cs \<longleftrightarrow> (\<forall>(c, ch)\<in>set cs. all_nodes P ch)"
  by (induction cs) auto

lemma all_nodes_iff: "all_nodes P n \<longleftrightarrow> P n \<and> (\<forall>cs. tnChildren n = Some cs \<longrightarrow> (\<forall>(c, ch)\<in>set cs. all_nodes P ch))"
proof (cases n)
  case (TreeNode nm kvs d s src cso)
  then show ?thesis by (cases cso) (simp_all add: all_children_iff)
qed

lemma all_nodes_child: "all_nodes P n \<Longrightarrow> get_child c n = Some ch \<Longrightarrow> all_nodes P ch"
  by (auto simp: all_nodes_iff[of P n] get_child_def split: option.splits dest: map_of_SomeD)

lemma all_nodes_with:
  "all_nodes P (with_children n (Some cs)) \<longleftrightarrow> P (with_children n (Some cs)) \<and> (\<forall>(c, ch)\<in>set cs. all_nodes P ch)"
  by (subst all_nodes_iff) simp

lemma set_update_subset: "set (AList.update k v m) \<subseteq> insert (k, v) (set m)"
  by (induction m) auto

text \<open>
  What the operations need of an invariant: a new directory has it, a directory has a map of children, and
  it is kept when a child with an accepted name is put into a directory or children are taken away.
\<close>

locale node_invariant =
  fixes P :: "treeNode \<Rightarrow> bool" and okn :: "string \<Rightarrow> bool"
  assumes fresh: "P (TreeNode nm [] True True i (Some []))"
    and dir_children: "P n \<Longrightarrow> tnIsDir n \<Longrightarrow> tnChildren n \<noteq> None"
    and update: "P n \<Longrightarrow> tnIsDir n \<Longrightarrow> tnChildren n = Some cs \<Longrightarrow> okn c \<Longrightarrow> P (with_children n (Some (AList.update c ch cs)))"
    and take_away: "P n \<Longrightarrow> tnChildren n = Some cs \<Longrightarrow> subseq (map fst cs') (map fst cs) \<Longrightarrow> P (with_children n (Some cs'))"
begin

abbreviation inv :: "treeNode \<Rightarrow> bool" where "inv \<equiv> all_nodes P"

lemma inv_fresh: "inv (TreeNode nm [] True True i (Some []))"
  by (simp add: fresh)

lemma dir_child_inv: "inv n \<Longrightarrow> inv (dir_child seg input n) \<and> tnIsDir (dir_child seg input n)"
  by (auto simp: dir_child_def fresh dest: all_nodes_child split: option.split)

lemma set_child_inv:
  assumes "inv n" "tnIsDir n" "inv ch" "okn c"
  obtains cs where "tnChildren n = Some cs" "set_child c ch n = Some (with_children n (Some (AList.update c ch cs)))"
    "inv (with_children n (Some (AList.update c ch cs)))"
proof -
  have P: "P n" using assms(1) by (simp add: all_nodes_iff[of P n])
  then obtain cs where cs: "tnChildren n = Some cs" using dir_children assms(2) by blast
  have "inv (with_children n (Some (AList.update c ch cs)))"
    using update[OF P assms(2) cs assms(4)] set_update_subset[of c ch cs] assms(1,3) cs
    by (auto simp: all_nodes_with all_nodes_iff[of P n])
  with cs show thesis by (intro that) (simp_all add: set_child_def)
qed

text \<open>The directories on the way exist afterwards, and the change happens below the last one.\<close>

lemma ensureDir_spec:
  assumes "inv n" "tnIsDir n" "\<forall>c\<in>set segs. okn c"
    and "\<And>m. inv m \<Longrightarrow> tnIsDir m \<Longrightarrow> (\<And>q. q \<noteq> [] \<Longrightarrow> fs_of m q = fs_of n (segs @ q)) \<Longrightarrow>
           \<exists>m'. f m = Some m' \<and> inv m' \<and> tnIsDir m' \<and> Q (fs_of m) (fs_of m')"
  shows "\<exists>n'. ensureDir segs input f n = Some n' \<and> inv n' \<and> tnIsDir n' \<and>
    Q (\<lambda>q. make_dirs segs input (fs_of n) (segs @ q)) (\<lambda>q. fs_of n' (segs @ q)) \<and>
    (\<forall>p. \<not> prefix segs p \<longrightarrow> fs_of n' p = make_dirs segs input (fs_of n) p)"
  using assms
proof (induction segs arbitrary: n)
  case Nil
  then show ?case by (simp add: make_dirs_Nil)
next
  case (Cons seg segs)
  let ?ch = "dir_child seg input n"
  let ?D = "make_dirs (seg # segs) input (fs_of n)" and ?E = "make_dirs segs input (fs_of ?ch)"
  have ch: "inv ?ch" "tnIsDir ?ch" using dir_child_inv[OF Cons.prems(1)] by blast+
  have view: "fs_of n [seg] = Some (info ?ch) \<or> (\<forall>v. fs_of n [seg] = Some v \<longrightarrow> \<not> niIsDir v) \<and> info ?ch = new_dir input"
    using Cons.prems(2) by (auto simp: dir_child_def fs_of_Cons info_def new_dir_def split: option.split)
  have same: "fs_of ?ch q = fs_of n (seg # q)" if "q \<noteq> []" for q
    using that Cons.prems(2) by (auto simp: dir_child_def fs_of_Cons get_child_def neq_Nil_conv split: option.split)
  have D: "?D (seg # q) = ?E q" for q
    using view same[of q] ch(2) by (cases "q = []") (auto simp: make_dirs_def)
  have "\<exists>n'. ensureDir segs input f ?ch = Some n' \<and> inv n' \<and> tnIsDir n' \<and>
    Q (\<lambda>q. ?E (segs @ q)) (\<lambda>q. fs_of n' (segs @ q)) \<and> (\<forall>p. \<not> prefix segs p \<longrightarrow> fs_of n' p = ?E p)"
    using Cons.prems(3) same by (intro Cons.IH[OF ch] Cons.prems(4)) simp_all
  then obtain ch' where ih: "ensureDir segs input f ?ch = Some ch'" "inv ch'" "tnIsDir ch'"
    "Q (\<lambda>q. ?E (segs @ q)) (\<lambda>q. fs_of ch' (segs @ q))" "\<forall>p. \<not> prefix segs p \<longrightarrow> fs_of ch' p = ?E p" by auto
  obtain cs where n': "tnChildren n = Some cs" "set_child seg ch' n = Some (with_children n (Some (AList.update seg ch' cs)))"
    "inv (with_children n (Some (AList.update seg ch' cs)))"
    using set_child_inv[OF Cons.prems(1,2) ih(2), of seg] Cons.prems(3) by auto
  let ?n' = "with_children n (Some (AList.update seg ch' cs))"
  have fs': "fs_of ?n' (c # q) = (if c = seg then fs_of ch' q else fs_of n (c # q))" for c q
    using Cons.prems(2) n'(1) by (simp add: fs_of_Cons alist_simps) (simp add: get_child_def)
  have "fs_of ?n' p = ?D p" if p: "\<not> prefix (seg # segs) p" for p
  proof (cases p)
    case (Cons c q)
    then show ?thesis
      using p ih(5) D[of q] fs'[of c q] by (cases "c = seg") (simp_all add: make_dirs_def)
  qed (simp add: make_dirs_def)
  moreover have "Q (\<lambda>q. ?D ((seg # segs) @ q)) (\<lambda>q. fs_of ?n' ((seg # segs) @ q))"
    using ih(4) by (simp only: append_Cons D fs' refl if_True)
  ultimately show ?case using ih(1-3) n'(2,3) Cons.prems(2) by auto
qed

lemma inv_take_away:
  assumes "inv n" "tnChildren n = Some cs" "subseq (map fst cs') (map fst cs)" "\<And>c ch. (c, ch) \<in> set cs' \<Longrightarrow> inv ch"
  shows "inv (with_children n (Some cs'))"
  using assms take_away by (auto simp: all_nodes_with all_nodes_iff[of P n])

end

section \<open>Pruning\<close>

lemma prune_children_eq:
  "prune_children t cs =
   map (\<lambda>(c, ch). (c, fst (removeLowerLayerEntries t ch))) (filter (\<lambda>(c, ch). snd (removeLowerLayerEntries t ch)) cs)"
  by (induction cs) (auto split: prod.splits)

lemma remove_eq:
  "removeLowerLayerEntries t n =
   (with_children n (map_option (prune_children t) (tnChildren n)),
    t \<le> tnSourceInput n \<or> (\<exists>cs. tnChildren n = Some cs \<and> prune_children t cs \<noteq> []))"
proof (cases n)
  case (TreeNode nm kvs d s src cso)
  then show ?thesis by (cases cso) (auto simp: with_children_def Let_def)
qed

lemma prune_subseq: "subseq (map fst (prune_children t cs)) (map fst cs)"
proof -
  have "map fst (prune_children t cs) = map fst (filter (\<lambda>(c, ch). snd (removeLowerLayerEntries t ch)) cs)"
    by (simp add: prune_children_eq comp_def case_prod_beta)
  then show ?thesis by (simp add: subseq_map)
qed

lemma map_of_prune:
  assumes "distinct_keys cs"
  shows "map_of (prune_children t cs) c =
    (case map_of cs c of None \<Rightarrow> None
     | Some ch \<Rightarrow> if snd (removeLowerLayerEntries t ch) then Some (fst (removeLowerLayerEntries t ch)) else None)"
  using assms
proof (induction cs)
  case (Cons p cs)
  obtain k ch where p: "p = (k, ch)" by (cases p)
  have "map_of (prune_children t cs) k = None" if "k \<notin> fst ` set cs"
    using that by (auto simp: map_of_eq_None_iff prune_children_eq image_iff split: prod.splits)
  with Cons p show ?case by (auto split: prod.splits)
qed simp

context node_invariant
begin

lemma inv_prune: "inv n \<Longrightarrow> inv (fst (removeLowerLayerEntries t n))"
proof (induction n rule: node_induct)
  case (node n)
  show ?case
  proof (cases "tnChildren n")
    case None
    then show ?thesis using node(2) by (cases n) (simp add: remove_eq with_children_def)
  next
    case (Some cs)
    have "inv ch" if mem: "(c, ch) \<in> set (prune_children t cs)" for c ch
    proof -
      from mem obtain ch0 where "(c, ch0) \<in> set cs" "ch = fst (removeLowerLayerEntries t ch0)" by (auto simp: prune_children_eq)
      then show ?thesis using node Some by (auto simp: all_nodes_iff[of P n])
    qed
    from inv_take_away[OF node(2) Some prune_subseq this] Some show ?thesis by (simp add: remove_eq)
  qed
qed

text \<open>The changes the layout makes to a directory keep the invariant.\<close>

lemma inv_opaque: "inv m \<Longrightarrow> inv (with_children m (map_option (prune_children t) (tnChildren m)))"
  using inv_prune[of m t] by (simp add: remove_eq)

lemma inv_whiteout: "inv m \<Longrightarrow> inv (with_children m (map_option (AList.delete c) (tnChildren m)))"
proof (cases "tnChildren m")
  case None
  assume "inv m"
  with None show ?thesis by (cases m) (simp add: with_children_def)
next
  case (Some cs)
  assume m: "inv m"
  have del: "AList.delete c cs = filter (\<lambda>(k, _). c \<noteq> k) cs" by (simp add: AList.delete_eq)
  have "subseq (map fst (AList.delete c cs)) (map fst cs)" unfolding del by (intro subseq_map) simp
  moreover have "set (AList.delete c cs) \<subseteq> set cs" unfolding del by auto
  ultimately show ?thesis
    using m Some by (auto intro!: inv_take_away[OF m Some] simp: all_nodes_iff[of P m])
qed

lemma inv_put:
  assumes "inv m" "tnIsDir m" "okn base"
    and node: "\<And>nm cs. (nm, cs) = (case get_child base m of None \<Rightarrow> (base, None) | Some n \<Rightarrow> (tnName n, tnChildren n)) \<Longrightarrow>
      inv (TreeNode nm kvs isDir False input (if isDir \<and> cs = None then Some [] else cs))"
  shows "\<exists>m' cs ch. tnChildren m = Some cs \<and> put_node base isDir kvs input m = Some m' \<and> inv m' \<and> tnIsDir m' \<and>
    m' = with_children m (Some (AList.update base ch cs)) \<and>
    ch = (let old = (case get_child base m of None \<Rightarrow> TreeNode base [] False False 0 None | Some n \<Rightarrow> n) in
      TreeNode (tnName old) kvs isDir False input (if isDir \<and> tnChildren old = None then Some [] else tnChildren old))"
proof -
  let ?old = "case get_child base m of None \<Rightarrow> TreeNode base [] False False 0 None | Some n \<Rightarrow> n"
  let ?ch = "TreeNode (tnName ?old) kvs isDir False input (if isDir \<and> tnChildren ?old = None then Some [] else tnChildren ?old)"
  have "inv ?ch" by (rule node) (simp split: option.split)
  then obtain cs where "tnChildren m = Some cs" "set_child base ?ch m = Some (with_children m (Some (AList.update base ?ch cs)))"
    "inv (with_children m (Some (AList.update base ?ch cs)))"
    using set_child_inv[OF assms(1,2)] assms(3) by blast
  then show ?thesis using assms(2) by (simp add: put_node_def Let_def)
qed

end

end
