(* ===== verification/Mtree_Changeset.thy ===== *)
theory Mtree_Changeset
  imports Mtree_Tree
begin

text \<open>
  The changeset layout against the rules for applying OCI layers, stated on file systems: what an entry, a
  whiteout and an opaque whiteout do to the map from paths to entries.
\<close>

section \<open>The two invariants\<close>

definition wf_local :: "treeNode \<Rightarrow> bool" where
  "wf_local n \<longleftrightarrow> (tnIsDir n \<longrightarrow> tnChildren n \<noteq> None) \<and> (\<forall>cs. tnChildren n = Some cs \<longrightarrow> distinct_keys cs)"

definition good_seg :: "string \<Rightarrow> bool" where
  "good_seg k \<longleftrightarrow> k \<noteq> [] \<and> CHR ''/'' \<notin> set k"

definition tidy_local :: "treeNode \<Rightarrow> bool" where
  "tidy_local n \<longleftrightarrow> wf_local n \<and> (\<not> tnIsDir n \<longrightarrow> tnChildren n = None \<or> tnChildren n = Some []) \<and>
     (\<forall>cs. tnChildren n = Some cs \<longrightarrow> (\<forall>k\<in>fst ` set cs. good_seg k))"

lemma subseq_set: "subseq xs ys \<Longrightarrow> set xs \<subseteq> set ys"
  by (induction rule: list_emb.induct) auto

lemma subseq_distinct: "subseq xs ys \<Longrightarrow> distinct ys \<Longrightarrow> distinct xs"
proof (induction rule: list_emb.induct)
  case (list_emb_Cons2 x y xs ys)
  then show ?case using subseq_set[of xs ys] by auto
qed auto

lemma subseq_keys: "subseq (map fst cs') (map fst cs) \<Longrightarrow> (k, v) \<in> set cs' \<Longrightarrow> \<exists>w. (k, w) \<in> set cs"
  using subseq_set[of "map fst cs'" "map fst cs"] by force

interpretation structural: node_invariant wf_local "\<lambda>_. True"
proof
  show "wf_local (TreeNode nm [] True True i (Some []))" for nm i by (simp add: wf_local_def)
  show "wf_local n \<Longrightarrow> tnIsDir n \<Longrightarrow> tnChildren n \<noteq> None" for n by (simp add: wf_local_def)
  show "wf_local n \<Longrightarrow> tnIsDir n \<Longrightarrow> tnChildren n = Some cs \<Longrightarrow> True \<Longrightarrow> wf_local (with_children n (Some (AList.update c ch cs)))" for n cs c ch
    by (simp add: wf_local_def distinct_keys_update)
  show "wf_local n \<Longrightarrow> tnChildren n = Some cs \<Longrightarrow> subseq (map fst cs') (map fst cs) \<Longrightarrow> wf_local (with_children n (Some cs'))" for n cs cs'
    by (auto simp: wf_local_def intro: subseq_distinct)
qed

interpretation tidy: node_invariant tidy_local good_seg
proof
  show "tidy_local (TreeNode nm [] True True i (Some []))" for nm i by (simp add: tidy_local_def wf_local_def)
  show "tidy_local n \<Longrightarrow> tnIsDir n \<Longrightarrow> tnChildren n \<noteq> None" for n by (simp add: tidy_local_def wf_local_def)
  show "tidy_local n \<Longrightarrow> tnIsDir n \<Longrightarrow> tnChildren n = Some cs \<Longrightarrow> good_seg c \<Longrightarrow>
      tidy_local (with_children n (Some (AList.update c ch cs)))" for n cs c ch
    using set_update_subset[of c ch cs] by (fastforce simp: tidy_local_def wf_local_def distinct_keys_update)
  show "tidy_local n \<Longrightarrow> tnChildren n = Some cs \<Longrightarrow> subseq (map fst cs') (map fst cs) \<Longrightarrow> tidy_local (with_children n (Some cs'))" for n cs cs'
    using subseq_keys[of cs' cs] by (fastforce simp: tidy_local_def wf_local_def intro: subseq_distinct)
qed

section \<open>No panic\<close>

lemma put_wf:
  assumes "structural.inv m" "tnIsDir m"
  shows "\<exists>m'. put_node base isDir kvs input m = Some m' \<and> structural.inv m' \<and> tnIsDir m'"
proof -
  have "structural.inv (TreeNode nm kvs isDir False input (if isDir \<and> cs = None then Some [] else cs))"
    if "(nm, cs) = (case get_child base m of None \<Rightarrow> (base, None) | Some n \<Rightarrow> (tnName n, tnChildren n))" for nm cs
  proof (cases "get_child base m")
    case (Some n)
    with assms(1) have "structural.inv n" by (rule all_nodes_child)
    then show ?thesis using Some that
      by (subst all_nodes_iff) (auto simp: wf_local_def all_nodes_iff[of _ n])
  qed (use that in \<open>simp add: wf_local_def\<close>)
  from structural.inv_put[OF assms TrueI this] show ?thesis by blast
qed

lemma apply_entry_wf:
  assumes "structural.inv root" "tnIsDir root"
  shows "\<exists>root'. apply_entry m input root = Some root' \<and> structural.inv root' \<and> tnIsDir root'"
proof -
  obtain p isDir kvs where m: "m = (p, isDir, kvs)" by (cases m)
  have run: "\<exists>n'. ensureDir segs input f root = Some n' \<and> structural.inv n' \<and> tnIsDir n'"
    if "\<And>m. structural.inv m \<Longrightarrow> tnIsDir m \<Longrightarrow> \<exists>m'. f m = Some m' \<and> structural.inv m' \<and> tnIsDir m'" for segs f
    using structural.ensureDir_spec[OF assms, of segs f "\<lambda>_ _. True" input] that by blast
  show ?thesis
    unfolding m apply_entry_def prod.case Let_def
    using assms structural.inv_opaque structural.inv_whiteout put_wf by (auto intro!: run)
qed

section \<open>Pruning as seen from outside\<close>

definition newer :: "nat \<Rightarrow> fs \<Rightarrow> string list \<Rightarrow> bool" where
  "newer t F q \<longleftrightarrow> (\<exists>r v. F (q @ r) = Some v \<and> t \<le> niSource v)"

lemma newer_child: "tnIsDir n \<Longrightarrow> newer t (fs_of n) (c # q) \<longleftrightarrow> (\<exists>ch. get_child c n = Some ch \<and> newer t (fs_of ch) q)"
  unfolding newer_def by (cases "get_child c n") (simp_all add: fs_of_Cons)

lemma newer_self: "tnIsDir n \<Longrightarrow> newer t (fs_of n) [] \<longleftrightarrow> t \<le> tnSourceInput n \<or> (\<exists>c. newer t (fs_of n) [c])"
  unfolding newer_def by (metis append_Cons append_Nil fs_of_Nil info_sel(2) neq_Nil_conv option.inject)

lemma tidy_keys: "tidy.inv n \<Longrightarrow> tnChildren n = Some cs \<Longrightarrow> distinct_keys cs"
  by (auto simp: all_nodes_iff[of _ n] tidy_local_def wf_local_def)

lemma tidy_leaf: "tidy.inv n \<Longrightarrow> \<not> tnIsDir n \<Longrightarrow> tnChildren n = None \<or> tnChildren n = Some []"
  by (auto simp: all_nodes_iff[of _ n] tidy_local_def)

lemma pruned_fs:
  "tidy.inv n \<Longrightarrow> (snd (removeLowerLayerEntries t n) \<longleftrightarrow> newer t (fs_of n) []) \<and>
   (\<forall>q. fs_of (fst (removeLowerLayerEntries t n)) q = (if q \<noteq> [] \<and> \<not> newer t (fs_of n) q then None else fs_of n q))"
proof (induction n rule: node_induct)
  case (node n)
  show ?case
  proof (cases "tnIsDir n")
    case False
    then have "fs_of n q = None" if "q \<noteq> []" for q using that by (cases q) (simp_all add: fs_of_Cons)
    then have "newer t (fs_of n) [] \<longleftrightarrow> t \<le> tnSourceInput n"
      unfolding newer_def by (metis append_Nil fs_of_Nil info_sel(2) option.distinct(1) option.inject)
    moreover have "fs_of (fst (removeLowerLayerEntries t n)) q = fs_of n q" for q
      using False by (cases q) (simp_all add: remove_eq fs_of_Cons)
    ultimately show ?thesis
      using tidy_leaf[OF node(2) False] \<open>\<And>q. q \<noteq> [] \<Longrightarrow> fs_of n q = None\<close> by (auto simp: remove_eq)
  next
    case True
    then obtain cs where cs: "tnChildren n = Some cs" using tidy.dir_children[of n] node(2) by (auto simp: all_nodes_iff[of _ n])
    note keys = tidy_keys[OF node(2) cs]
    have get: "get_child c n = map_of cs c" for c by (simp add: get_child_def cs)
    have ih: "snd (removeLowerLayerEntries t ch) \<longleftrightarrow> newer t (fs_of ch) []"
      "fs_of (fst (removeLowerLayerEntries t ch)) q = (if q \<noteq> [] \<and> \<not> newer t (fs_of ch) q then None else fs_of ch q)"
      if "map_of cs c = Some ch" for c ch q
      using node(1)[OF cs map_of_SomeD[OF that]] all_nodes_child[OF node(2), of c ch] that by (simp_all add: get)
    have "prune_children t cs \<noteq> [] \<longleftrightarrow> (\<exists>c. map_of (prune_children t cs) c \<noteq> None)"
      by (auto simp: alist_empty_iff fun_eq_iff)
    also have "\<dots> \<longleftrightarrow> (\<exists>c. newer t (fs_of n) [c])"
    proof -
      have "map_of (prune_children t cs) c \<noteq> None \<longleftrightarrow> newer t (fs_of n) [c]" for c
        using True ih(1)[of c] by (cases "map_of cs c") (simp_all add: map_of_prune[OF keys] newer_child get)
      then show ?thesis by simp
    qed
    finally have keep: "snd (removeLowerLayerEntries t n) \<longleftrightarrow> newer t (fs_of n) []"
      using cs True by (simp add: remove_eq newer_self)
    have "fs_of (fst (removeLowerLayerEntries t n)) q = (if q \<noteq> [] \<and> \<not> newer t (fs_of n) q then None else fs_of n q)" for q
    proof (cases q)
      case (Cons c r)
      have "newer t (fs_of ch) r \<Longrightarrow> newer t (fs_of ch) []" for ch unfolding newer_def by auto
      then show ?thesis
        using True ih by (auto simp: Cons remove_eq cs fs_of_Cons map_of_prune[OF keys] get newer_child split: option.split)
    qed (simp add: remove_eq)
    with keep show ?thesis by blast
  qed
qed

section \<open>Applying a layer to a file system\<close>

text \<open>
  An entry is put at its path; whatever lay below a path that is no longer a directory is gone.  A whiteout
  removes the named sibling and everything below it.  An opaque whiteout removes from a directory all that
  comes from lower layers: what is itself of the current layer stays, with the directories on the way to it.
\<close>

definition put_fs :: "string list \<Rightarrow> bool \<Rightarrow> keyval list \<Rightarrow> nat \<Rightarrow> fs \<Rightarrow> fs" where
  "put_fs p isDir kvs input F q =
     (if q = p then Some \<lparr>niKeyvals = kvs, niIsDir = isDir, niSynthesized = False, niSource = input\<rparr>
      else if strict_prefix p q \<and> \<not> isDir then None else F q)"

definition whiteout_fs :: "string list \<Rightarrow> fs \<Rightarrow> fs" where
  "whiteout_fs p F q = (if prefix p q then None else F q)"

definition opaque_fs :: "string list \<Rightarrow> nat \<Rightarrow> fs \<Rightarrow> fs" where
  "opaque_fs d input F q = (if strict_prefix d q \<and> \<not> newer input F q then None else F q)"

type_synonym layerEntry = "(string \<times> bool \<times> keyval list) \<times> nat"

definition segs_of :: "string \<Rightarrow> string list" where "segs_of p = split_on CHR ''/'' p"

definition changeset_step :: "layerEntry \<Rightarrow> fs \<Rightarrow> fs" where
  "changeset_step = (\<lambda>((p, isDir, kvs), input) F.
     if p = ''.'' then F
     else
       let path = segs_of p; D = make_dirs (butlast path) input F in
       if last path = whiteoutOpaque then opaque_fs (butlast path) input D
       else if HasPrefix (last path) whiteoutPrefix then whiteout_fs (butlast path @ [TrimPrefix (last path) whiteoutPrefix]) D
       else put_fs path isDir kvs input D)"

fun changeset :: "fs \<Rightarrow> layerEntry list \<Rightarrow> fs" where
  "changeset F [] = F"
| "changeset F (e # es) = changeset (changeset_step e F) es"

definition empty_fs :: fs where
  "empty_fs p = (if p = [] then Some (new_dir 0) else None)"

text \<open>Entries that replace a directory with contents by something else; relative paths.\<close>

definition replaces_dir :: "layerEntry \<Rightarrow> fs \<Rightarrow> bool" where
  "replaces_dir = (\<lambda>((p, isDir, kvs), input) F.
     p \<noteq> ''.'' \<and> \<not> isDir \<and> \<not> HasPrefix (last (segs_of p)) whiteoutPrefix \<and> (\<exists>q. strict_prefix (segs_of p) q \<and> F q \<noteq> None))"

fun no_replacement :: "fs \<Rightarrow> layerEntry list \<Rightarrow> bool" where
  "no_replacement F [] \<longleftrightarrow> True"
| "no_replacement F (e # es) \<longleftrightarrow> \<not> replaces_dir e F \<and> no_replacement (changeset_step e F) es"

definition relative_path :: "string \<Rightarrow> bool" where
  "relative_path p \<longleftrightarrow> (\<forall>c\<in>set (segs_of p). c \<noteq> [])"

lemma relative_good: "relative_path p \<Longrightarrow> c \<in> set (segs_of p) \<Longrightarrow> good_seg c"
  by (auto simp: relative_path_def good_seg_def segs_of_def dest: split_on_no_sep)

lemma segs_of_nonempty [simp]: "segs_of p \<noteq> []"
  by (simp add: segs_of_def)

section \<open>The tree implements it\<close>

text \<open>From the directory an operation changes to the whole file system.\<close>

lemma whole_fs:
  assumes "\<And>q. F' (d @ q) = G (d @ q)" "\<And>p. \<not> prefix d p \<Longrightarrow> F' p = G p"
  shows "F' = G"
  using assms by (metis ext prefixE)

lemma refine_at:
  assumes "tidy.inv root" "tnIsDir root" "\<forall>c\<in>set d. good_seg c"
    and "\<And>m. tidy.inv m \<Longrightarrow> tnIsDir m \<Longrightarrow> (\<And>q. q \<noteq> [] \<Longrightarrow> fs_of m q = fs_of root (d @ q)) \<Longrightarrow>
      \<exists>m'. f m = Some m' \<and> tidy.inv m' \<and> tnIsDir m' \<and> fs_of m' = op (fs_of m)"
    and below: "\<And>q. G (d @ q) = op (\<lambda>q. make_dirs d input (fs_of root) (d @ q)) q"
    and outside: "\<And>p. \<not> prefix d p \<Longrightarrow> G p = make_dirs d input (fs_of root) p"
  shows "\<exists>root'. ensureDir d input f root = Some root' \<and> tidy.inv root' \<and> tnIsDir root' \<and> fs_of root' = G"
proof -
  from tidy.ensureDir_spec[OF assms(1-3), of f "\<lambda>F F'. F' = op F" input] assms(4)
  obtain root' where r: "ensureDir d input f root = Some root'" "tidy.inv root'" "tnIsDir root'"
    "(\<lambda>q. fs_of root' (d @ q)) = op (\<lambda>q. make_dirs d input (fs_of root) (d @ q))"
    "\<forall>p. \<not> prefix d p \<longrightarrow> fs_of root' p = make_dirs d input (fs_of root) p" by auto
  have "fs_of root' = G" using r(4,5) below outside by (intro whole_fs[of _ d]) (auto simp: fun_eq_iff)
  with r show ?thesis by blast
qed

lemma opaque_refines:
  assumes "tidy.inv root" "tnIsDir root" "\<forall>c\<in>set d. good_seg c"
  shows "\<exists>root'. ensureDir d input (\<lambda>parent. Some (with_children parent (map_option (prune_children input) (tnChildren parent)))) root =
      Some root' \<and> tidy.inv root' \<and> tnIsDir root' \<and> fs_of root' = opaque_fs d input (make_dirs d input (fs_of root))"
proof (rule refine_at[OF assms, where op = "\<lambda>F q. if q \<noteq> [] \<and> \<not> newer input F q then None else F q"])
  fix m assume m: "tidy.inv m" "tnIsDir m"
  from tidy.inv_opaque[OF m(1)] pruned_fs[OF m(1), of input] m(2)
  show "\<exists>m'. Some (with_children m (map_option (prune_children input) (tnChildren m))) = Some m' \<and> tidy.inv m' \<and> tnIsDir m' \<and>
    fs_of m' = (\<lambda>q. if q \<noteq> [] \<and> \<not> newer input (fs_of m) q then None else fs_of m q)"
    by (auto simp: remove_eq)
qed (auto simp: opaque_fs_def newer_def strict_prefix_def)

lemma whiteout_refines:
  assumes "tidy.inv root" "tnIsDir root" "\<forall>c\<in>set d. good_seg c"
  shows "\<exists>root'. ensureDir d input (\<lambda>parent. Some (with_children parent (map_option (AList.delete c) (tnChildren parent)))) root =
      Some root' \<and> tidy.inv root' \<and> tnIsDir root' \<and> fs_of root' = whiteout_fs (d @ [c]) (make_dirs d input (fs_of root))"
proof (rule refine_at[OF assms, where op = "\<lambda>F q. if prefix [c] q then None else F q"])
  fix m assume m: "tidy.inv m" "tnIsDir m"
  then obtain cs where cs: "tnChildren m = Some cs" using tidy.dir_children[of m] by (auto simp: all_nodes_iff[of _ m])
  have "fs_of (with_children m (Some (AList.delete c cs))) q = (if prefix [c] q then None else fs_of m q)" for q
    using m(2) cs by (cases q) (auto simp: fs_of_Cons get_child_def alist_simps)
  with tidy.inv_whiteout[OF m(1), of c] m(2) cs
  show "\<exists>m'. Some (with_children m (map_option (AList.delete c) (tnChildren m))) = Some m' \<and> tidy.inv m' \<and> tnIsDir m' \<and>
    fs_of m' = (\<lambda>q. if prefix [c] q then None else fs_of m q)" by auto
qed (auto simp: whiteout_fs_def dest: append_prefixD)

lemma put_node_refines:
  assumes "tidy.inv root" "tnIsDir root" "\<forall>c\<in>set d. good_seg c" "good_seg base"
    and free: "isDir \<or> (\<forall>q. strict_prefix (d @ [base]) q \<longrightarrow> fs_of root q = None)"
  shows "\<exists>root'. ensureDir d input (put_node base isDir kvs input) root = Some root' \<and> tidy.inv root' \<and> tnIsDir root' \<and>
    fs_of root' = put_fs (d @ [base]) isDir kvs input (make_dirs d input (fs_of root))"
proof (rule refine_at[OF assms(1-3), where op = "put_fs [base] isDir kvs input"])
  fix m assume m: "tidy.inv m" "tnIsDir m" and view: "\<And>q. q \<noteq> [] \<Longrightarrow> fs_of m q = fs_of root (d @ q)"
  have gone: "fs_of m (base # c # q) = None" if "\<not> isDir" for c q
    using free that view[of "base # c # q"] by (auto simp: strict_prefix_def)
  have nodes: "tidy.inv (TreeNode nm kvs isDir False input (if isDir \<and> cs = None then Some [] else cs))"
    if eq: "(nm, cs) = (case get_child base m of None \<Rightarrow> (base, None) | Some n \<Rightarrow> (tnName n, tnChildren n))" for nm cs
  proof (cases "get_child base m")
    case (Some n)
    with m(1) have n: "tidy.inv n" by (rule all_nodes_child)
    have "cs = None \<or> cs = Some []" if nodir: "\<not> isDir"
    proof (cases "tnIsDir n")
      case True
      then obtain cs' where cs': "tnChildren n = Some cs'" using tidy.dir_children[of n] n by (auto simp: all_nodes_iff[of _ n])
      have "map_of cs' c = None" for c
        using gone[OF nodir, of c "[]"] True Some m(2) cs' by (simp add: fs_of_Cons get_child_def split: option.splits)
      then have "cs' = []" by (simp add: alist_empty_iff fun_eq_iff)
      with eq Some cs' show ?thesis by simp
    qed (use eq Some tidy_leaf[OF n] in auto)
    then show ?thesis using n Some eq
      by (subst all_nodes_iff) (auto simp: tidy_local_def wf_local_def all_nodes_iff[of _ n])
  qed (use eq in \<open>simp add: tidy_local_def wf_local_def\<close>)
  from tidy.inv_put[OF m assms(4) this] obtain m' cs ch where m': "put_node base isDir kvs input m = Some m'" "tidy.inv m'" "tnIsDir m'"
    "tnChildren m = Some cs" "m' = with_children m (Some (AList.update base ch cs))"
    "ch = (let old = (case get_child base m of None \<Rightarrow> TreeNode base [] False False 0 None | Some n \<Rightarrow> n) in
      TreeNode (tnName old) kvs isDir False input (if isDir \<and> tnChildren old = None then Some [] else tnChildren old))" by blast
  have ch: "info ch = \<lparr>niKeyvals = kvs, niIsDir = isDir, niSynthesized = False, niSource = input\<rparr>" "tnIsDir ch = isDir"
    by (simp_all add: m'(6) info_def Let_def)
  have below: "fs_of ch (c # q) = (if isDir then fs_of m (base # c # q) else None)" for c q
  proof (cases "get_child base m")
    case (Some n)
    then have n: "tidy.inv n" using m(1) by (simp add: all_nodes_child)
    show ?thesis
      using Some m(2) tidy_leaf[OF n] by (cases "tnIsDir n") (auto simp: m'(6) fs_of_Cons get_child_def Let_def)
  qed (use m(2) in \<open>simp add: m'(6) fs_of_Cons get_child_def Let_def\<close>)
  have "fs_of m' q = put_fs [base] isDir kvs input (fs_of m) q" for q
  proof (cases q)
    case (Cons a r)
    then show ?thesis
      using m(2) m'(4) ch below by (cases r) (auto simp: m'(5) fs_of_Cons put_fs_def get_child_def alist_simps strict_prefix_def)
  qed (simp add: m'(5) put_fs_def)
  with m'(1-3) show "\<exists>m'. put_node base isDir kvs input m = Some m' \<and> tidy.inv m' \<and> tnIsDir m' \<and> fs_of m' = put_fs [base] isDir kvs input (fs_of m)"
    by blast
qed (auto simp: put_fs_def strict_prefix_def dest: append_prefixD)

lemma apply_entry_refines:
  assumes "tidy.inv root" "tnIsDir root" "relative_path (fst m)" "\<not> replaces_dir (m, input) (fs_of root)"
  shows "\<exists>root'. apply_entry m input root = Some root' \<and> tidy.inv root' \<and> tnIsDir root' \<and> fs_of root' = changeset_step (m, input) (fs_of root)"
proof -
  obtain p isDir kvs where m: "m = (p, isDir, kvs)" by (cases m)
  have segs: "\<forall>c\<in>set (butlast (segs_of p)). good_seg c" "good_seg (last (segs_of p))"
    using relative_good[OF assms(3)] by (auto simp: m dest: in_set_butlastD)
  have path: "butlast (segs_of p) @ [last (segs_of p)] = segs_of p" by simp
  note refines = opaque_refines[OF assms(1,2) segs(1)] whiteout_refines[OF assms(1,2) segs(1)]
    put_node_refines[OF assms(1,2) segs(1,2), unfolded path]
  show ?thesis
    using assms refines
    by (auto simp: m apply_entry_def changeset_step_def Let_def segs_of_def[symmetric] replaces_dir_def)
qed

section \<open>A directory replaced and restored\<close>

text \<open>Putting an entry as a file and then as a directory is the same as putting the directory: the node keeps its children.\<close>

lemma put_node_twice:
  "put_node base False k i m = Some m1 \<Longrightarrow> put_node base True k' j m1 = put_node base True k' j m"
  by (auto simp: put_node_def set_child_def Let_def get_child_def with_children_def alist_simps split: option.splits)

lemma put_node_view:
  assumes "structural.inv m" "tnIsDir m"
  shows "\<exists>m'. put_node base isDir kvs input m = Some m' \<and> structural.inv m' \<and> tnIsDir m' \<and>
    (\<forall>c q. fs_of m (base # c # q) \<noteq> None \<longrightarrow> fs_of m' (base # c # q) = (if isDir then fs_of m (base # c # q) else None))"
proof -
  from put_wf[OF assms, of base isDir kvs input] obtain m' where
    m': "put_node base isDir kvs input m = Some m'" "structural.inv m'" "tnIsDir m'" by blast
  have "fs_of m' (base # c # q) = (if isDir then fs_of m (base # c # q) else None)" if "fs_of m (base # c # q) \<noteq> None" for c q
    using that m'(1) assms(2)
    by (auto simp: put_node_def set_child_def Let_def fs_of_Cons get_child_def alist_simps split: option.splits if_splits)
  with m' show ?thesis by blast
qed

lemma ensureDir_twice:
  assumes "\<forall>m m'. f m = Some m' \<longrightarrow> tnIsDir m \<longrightarrow> tnIsDir m'"
  shows "ensureDir d i f n = Some n' \<Longrightarrow> ensureDir d j g n' = ensureDir d i (\<lambda>m. Option.bind (f m) g) n \<and> (tnIsDir n \<longrightarrow> tnIsDir n')"
proof (induction d arbitrary: n n')
  case (Cons seg d)
  let ?ch = "dir_child seg i n"
  have dir: "tnIsDir ?ch" by (simp add: dir_child_def split: option.split)
  from Cons.prems obtain ch' cs where ch': "ensureDir d i f ?ch = Some ch'" "tnChildren n = Some cs"
    "n' = with_children n (Some (AList.update seg ch' cs))"
    by (auto simp: bind_eq_Some_conv set_child_def split: option.splits)
  note IH = Cons.IH[OF ch'(1)]
  have "dir_child seg j n' = ch'" using IH dir by (simp add: ch'(3) dir_child_def alist_simps)
  moreover have "set_child seg c n' = set_child seg c n" for c
    by (simp add: ch'(2,3) set_child_def with_children_def)
  ultimately show ?case using IH ch'(3) by simp
qed (auto simp: assms)

lemma ensureDir_put_view:
  assumes "structural.inv root" "tnIsDir root" "fs_of root (d @ base # c # q) = Some v"
  shows "\<exists>root'. ensureDir d i (put_node base isDir kvs input) root = Some root' \<and>
    fs_of root' (d @ base # c # q) = (if isDir then Some v else None)"
proof -
  let ?Q = "\<lambda>F F'. F (base # c # q) \<noteq> None \<longrightarrow> F' (base # c # q) = (if isDir then F (base # c # q) else None)"
  have "\<exists>m'. put_node base isDir kvs input m = Some m' \<and> structural.inv m' \<and> tnIsDir m' \<and> ?Q (fs_of m) (fs_of m')"
    if "structural.inv m" "tnIsDir m" for m
    using put_node_view[OF that, of base isDir kvs input] by blast
  from structural.ensureDir_spec[OF assms(1,2), of d _ ?Q i] this obtain root' where
    "ensureDir d i (put_node base isDir kvs input) root = Some root'"
    "?Q (\<lambda>q. make_dirs d i (fs_of root) (d @ q)) (\<lambda>q. fs_of root' (d @ q))" by blast
  moreover have "make_dirs d i (fs_of root) (d @ base # c # q) = Some v" using assms(3) by (simp add: make_dirs_def)
  ultimately show ?thesis by auto
qed

lemma replaced_and_restored:
  assumes "structural.inv root" "tnIsDir root" "fs_of root (segs_of p @ c # q) = Some v"
    and "p \<noteq> ''.''" "\<not> HasPrefix (last (segs_of p)) whiteoutPrefix"
  shows "\<exists>root1 root2. apply_entry (p, False, k) i root = Some root1 \<and> fs_of root1 (segs_of p @ c # q) = None \<and>
    apply_entry (p, True, k') j root1 = Some root2 \<and> fs_of root2 (segs_of p @ c # q) = Some v"
proof -
  define d base where "d = butlast (segs_of p)" and "base = last (segs_of p)"
  have seg: "segs_of p = d @ [base]" by (simp add: d_def base_def)
  have wh: "base \<noteq> whiteoutOpaque" using assms(5) by (auto simp: base_def HasPrefix_def whiteoutPrefix_def whiteoutOpaque_def)
  have put: "apply_entry (p, isDir, kvs) input n = ensureDir d input (put_node base isDir kvs input) n" for isDir kvs input n
    using assms(4,5) wh by (simp add: apply_entry_def d_def base_def Let_def flip: segs_of_def)
  have v: "fs_of root (d @ base # c # q) = Some v" using assms(3) seg by simp
  from ensureDir_put_view[OF assms(1,2) v, of i False k i] obtain root1 where
    1: "apply_entry (p, False, k) i root = Some root1" "fs_of root1 (segs_of p @ c # q) = None" by (auto simp: put seg)
  have "\<forall>m m'. put_node base False k i m = Some m' \<longrightarrow> tnIsDir m \<longrightarrow> tnIsDir m'"
    by (auto simp: put_node_def set_child_def Let_def split: option.splits)
  from ensureDir_twice[OF this, of d i root root1 j "put_node base True k' j"] 1(1)
  have "apply_entry (p, True, k') j root1 = ensureDir d i (\<lambda>m. Option.bind (put_node base False k i m) (put_node base True k' j)) root"
    by (simp add: put)
  moreover have "Option.bind (put_node base False k i m) (put_node base True k' j) = put_node base True k' j m" for m
    by (cases "put_node base False k i m")
      (auto simp: put_node_twice, simp add: put_node_def set_child_def Let_def split: option.splits)
  ultimately have "apply_entry (p, True, k') j root1 = ensureDir d i (put_node base True k' j) root" by simp
  with ensureDir_put_view[OF assms(1,2) v, of i True k' j] 1 seg show ?thesis by auto
qed

text \<open>By the rules for applying layers nothing is left below the path.\<close>

lemma changeset_replaced:
  assumes "p \<noteq> ''.''" "\<not> HasPrefix (last (segs_of p)) whiteoutPrefix"
  shows "changeset F [((p, False, k), i), ((p, True, k'), j)] (segs_of p @ c # q) = None"
proof -
  have "last (segs_of p) \<noteq> whiteoutOpaque" using assms(2) by (auto simp: HasPrefix_def whiteoutPrefix_def whiteoutOpaque_def)
  moreover have "\<not> prefix (segs_of p @ c # q) (butlast (segs_of p))"
    by (auto simp: prefix_def dest: arg_cong[of _ _ length])
  ultimately show ?thesis
    using assms by (simp add: changeset_step_def put_fs_def make_dirs_def strict_prefix_def Let_def)
qed

end
