(* ===== verification/Mtree_Props.thy ===== *)
theory Mtree_Props
  imports Mtree_Changeset "HOL-Library.Multiset"
begin

text \<open>
  The properties of the mtree writer: the changeset layout lists the file system that the layers leave behind,
  it never panics, hard links show the entry they point at, and three ways in which the result is not what the
  package means: links resolved over all layers at once, replaced directories that reappear, and escaped paths.
\<close>

section \<open>The nodes of a tree by path\<close>

fun tree_nodes :: "treeNode \<Rightarrow> (string list \<times> treeNode) list"
  and children_nodes :: "(string \<times> treeNode) list \<Rightarrow> (string list \<times> treeNode) list" where
  "tree_nodes (TreeNode nm kvs d s src None) = []"
| "tree_nodes (TreeNode nm kvs d s src (Some cs)) = children_nodes cs"
| "children_nodes [] = []"
| "children_nodes ((c, ch) # cs) =
     ([c], ch) # map (\<lambda>(p, m). (c # p, m)) (if tnIsDir ch then tree_nodes ch else []) @ children_nodes cs"

abbreviation join_path :: "string list \<Rightarrow> string" where "join_path p \<equiv> join_with ''/'' p"

definition path_str :: "string \<Rightarrow> string list \<Rightarrow> string" where
  "path_str pre p = (if pre = [] then join_path p else pre @ ''/'' @ join_path p)"

lemma tree_nodes_nonempty:
  "(p, m) \<in> set (tree_nodes n) \<Longrightarrow> p \<noteq> []"
  "(p, m) \<in> set (children_nodes cs) \<Longrightarrow> p \<noteq> []"
  by (induction n and cs arbitrary: p and p rule: tree_nodes_children_nodes.induct) auto

lemma collect_nodes_paths:
  "tidy.inv n \<Longrightarrow> collectNodes pre n = map (\<lambda>(p, m). (path_str pre p, m)) (tree_nodes n)"
  "all_children tidy_local cs \<Longrightarrow> \<forall>k\<in>fst ` set cs. good_seg k \<Longrightarrow>
     collect_children pre cs = map (\<lambda>(p, m). (path_str pre p, m)) (children_nodes cs)"
proof (induction pre n and pre cs rule: collectNodes_collect_children.induct)
  case (4 pre c ch cs)
  let ?p = "if pre \<noteq> [] then pre @ ''/'' @ c else c"
  have c: "c \<noteq> []" using 4(4) by (simp add: good_seg_def)
  have p: "?p = path_str pre [c]" by (simp add: path_str_def)
  have "path_str ?p q = path_str pre (c # q)" if "q \<noteq> []" for q
    using that c by (simp add: path_str_def join_with_Cons)
  then have "map (\<lambda>(q, m). (path_str ?p q, m)) (tree_nodes ch) = map (\<lambda>(q, m). (path_str pre (c # q), m)) (tree_nodes ch)"
    by (auto simp del: if_split dest: tree_nodes_nonempty(1))
  then show ?case using 4 p by (simp add: Let_def comp_def case_prod_beta)
qed (auto simp: tidy_local_def)

lemma look_child: "tnIsDir n \<Longrightarrow> look n [c] = get_child c n"
  by (simp split: option.split)

lemma tree_nodes_look:
  "tidy.inv n \<Longrightarrow> tnIsDir n \<Longrightarrow> (p, m) \<in> set (tree_nodes n) \<longleftrightarrow> p \<noteq> [] \<and> look n p = Some m"
  "all_children tidy_local cs \<Longrightarrow> distinct_keys cs \<Longrightarrow>
     (p, m) \<in> set (children_nodes cs) \<longleftrightarrow> (\<exists>c q ch. p = c # q \<and> map_of cs c = Some ch \<and> look ch q = Some m)"
proof (induction n and cs arbitrary: p and p rule: tree_nodes_children_nodes.induct)
  case (1 nm kvs d s src)
  then show ?case by (simp add: tidy_local_def wf_local_def)
next
  case (2 nm kvs d s src cs)
  have "distinct_keys cs" "all_children tidy_local cs" using 2(2) tidy_local_def[of "TreeNode nm kvs d s src (Some cs)"] by (simp_all add: wf_local_def)
  note IH = 2(1)[OF this(2,1)]
  show ?case
  proof (cases p)
    case (Cons a q)
    then show ?thesis using 2(3) IH by (cases "map_of cs a") (simp_all add: get_child_def)
  qed (use IH in simp)
next
  case (4 c ch cs)
  have ch: "(\<exists>q. p = c # q \<and> q \<noteq> [] \<and> (q, m) \<in> set (if tnIsDir ch then tree_nodes ch else [])) \<longleftrightarrow>
      (\<exists>q. p = c # q \<and> q \<noteq> [] \<and> look ch q = Some m)"
  proof (cases "tnIsDir ch")
    case True
    then show ?thesis using 4 by auto
  next
    case False
    then have "look ch q = None" if "q \<noteq> []" for q using that by (cases q) simp_all
    with False show ?thesis by auto
  qed
  have "(p, m) \<in> set (children_nodes ((c, ch) # cs)) \<longleftrightarrow> p = [c] \<and> m = ch \<or>
      (\<exists>q. p = c # q \<and> q \<noteq> [] \<and> (q, m) \<in> set (if tnIsDir ch then tree_nodes ch else [])) \<or> (p, m) \<in> set (children_nodes cs)"
    using tree_nodes_nonempty(1)[of _ m ch] by auto
  also have "\<dots> \<longleftrightarrow> (\<exists>q. p = c # q \<and> look ch q = Some m) \<or> (p, m) \<in> set (children_nodes cs)"
    unfolding ch by (metis look.simps(1) option.inject)
  also have "\<dots> \<longleftrightarrow> (\<exists>k q ch'. p = k # q \<and> map_of ((c, ch) # cs) k = Some ch' \<and> look ch' q = Some m)"
  proof (cases p)
    case (Cons k q)
    have none: "map_of cs c = None" using 4(4) by (simp add: map_of_eq_None_iff)
    have "(p, m) \<in> set (children_nodes cs) \<longleftrightarrow> (\<exists>c q ch. p = c # q \<and> map_of cs c = Some ch \<and> look ch q = Some m)"
      using 4 by (simp del: map_of_eq_Some_iff)
    then show ?thesis using Cons none by (cases "k = c") (simp_all del: map_of_eq_Some_iff)
  qed (use 4 in simp)
  finally show ?case .
qed simp

lemma distinct_tree_nodes:
  "tidy.inv n \<Longrightarrow> distinct (map fst (tree_nodes n))"
  "all_children tidy_local cs \<Longrightarrow> distinct_keys cs \<Longrightarrow> distinct (map fst (children_nodes cs))"
proof (induction n and cs rule: tree_nodes_children_nodes.induct)
  case (4 c ch cs)
  have d: "distinct (map fst (if tnIsDir ch then tree_nodes ch else []))" using 4(1,3) by simp
  have head: "c' \<in> fst ` set cs" if "(c' # q, m) \<in> set (children_nodes cs)" for c' q m
    using tree_nodes_look(2)[of cs "c' # q" m] 4(3,4) that by (force dest: map_of_SomeD)
  have prefixed: "map fst (map (\<lambda>(p, m). (c # p, m)) ns) = map ((#) c) (map fst ns)" for ns :: "(string list \<times> treeNode) list"
    by (simp add: case_prod_beta)
  have "distinct (map fst (map (\<lambda>(p, m). (c # p, m)) (if tnIsDir ch then tree_nodes ch else [])))"
    using d by (simp add: prefixed distinct_map del: map_map)
  moreover have "[c] \<notin> fst ` (\<lambda>(p, m). (c # p, m)) ` set (if tnIsDir ch then tree_nodes ch else [])"
    using tree_nodes_nonempty(1)[of "[]" _ ch] by auto
  ultimately show ?case using 4 head by (auto simp: rev_image_eqI)
qed (auto simp: tidy_local_def wf_local_def)

section \<open>The listing\<close>

text \<open>What \<^verbatim>\<open>sort.Slice\<close> promises for the order of the paths.\<close>

definition sort_nodes_ok :: "mtreeLib \<Rightarrow> bool" where
  "sort_nodes_ok L \<longleftrightarrow> (\<forall>ns. mset (sortNodes L ns) = mset ns \<and> sorted (map fst (sortNodes L ns)))"

lemma segs_of_join: "p \<noteq> [] \<Longrightarrow> \<forall>c\<in>set p. good_seg c \<Longrightarrow> segs_of (join_path p) = p"
proof (induction p)
  case (Cons c p)
  then show ?case
    by (cases p) (simp_all add: segs_of_def split_on_free split_on_append good_seg_def)
qed simp

lemma look_good: "tidy.inv n \<Longrightarrow> look n p = Some m \<Longrightarrow> c \<in> set p \<Longrightarrow> good_seg c"
proof (induction p arbitrary: n)
  case (Cons k p)
  then obtain ch where ch: "get_child k n = Some ch" "look ch p = Some m" by (auto split: if_splits option.splits)
  then have "good_seg k" using Cons.prems(1)
    by (force simp: get_child_def all_nodes_iff[of _ n] tidy_local_def split: option.splits dest: map_of_SomeD)
  with Cons ch all_nodes_child[OF Cons.prems(1) ch(1)] show ?case by auto
qed simp

text \<open>The paths a file system holds, in the order of their names.\<close>

definition listing :: "fs \<Rightarrow> string list list \<Rightarrow> bool" where
  "listing F ps \<longleftrightarrow> distinct ps \<and> set ps = {p. p \<noteq> [] \<and> F p \<noteq> None} \<and> sorted (map join_path ps)"

lemma collected_listing:
  assumes "sort_nodes_ok L" "tidy.inv root" "tnIsDir root"
  obtains ps where "listing (fs_of root) ps"
    "map (\<lambda>(s, n). (s, info n)) (sortNodes L (collectNodes [] root)) = map (\<lambda>p. (join_path p, the (fs_of root p))) ps"
proof -
  let ?ns = "sortNodes L (collectNodes [] root)"
  have col: "collectNodes [] root = map (\<lambda>(p, m). (join_path p, m)) (tree_nodes root)"
    using collect_nodes_paths(1)[OF assms(2), of "[]"] by (simp add: path_str_def)
  have mset: "mset ?ns = mset (collectNodes [] root)" and sorted: "sorted (map fst ?ns)"
    using assms(1) by (simp_all add: sort_nodes_ok_def)
  then have set: "set ?ns = set (collectNodes [] root)" by (metis mset_eq_setD)
  have node: "look root (segs_of s) = Some m" "join_path (segs_of s) = s" if "(s, m) \<in> set ?ns" for s m
  proof -
    have "(s, m) \<in> set (collectNodes [] root)" using that set by simp
    then obtain p where p: "s = join_path p" "(p, m) \<in> set (tree_nodes root)" by (auto simp: col)
    then have l: "look root p = Some m" "p \<noteq> []" using tree_nodes_look(1)[OF assms(2,3)] by auto
    with look_good[OF assms(2) l(1)] p show "look root (segs_of s) = Some m" "join_path (segs_of s) = s"
      by (auto simp: segs_of_join)
  qed
  have held: "p \<in> segs_of ` fst ` set ?ns \<longleftrightarrow> p \<noteq> [] \<and> fs_of root p \<noteq> None" for p
  proof
    assume "p \<in> segs_of ` fst ` set ?ns"
    then show "p \<noteq> [] \<and> fs_of root p \<noteq> None" using node(1) by (auto simp: fs_of_def)
  next
    assume p: "p \<noteq> [] \<and> fs_of root p \<noteq> None"
    then obtain m where m: "look root p = Some m" by (auto simp: fs_of_def)
    then have "(p, m) \<in> set (tree_nodes root)" using tree_nodes_look(1)[OF assms(2,3)] p by simp
    then have "(join_path p, m) \<in> set (collectNodes [] root)" unfolding col by (simp add: rev_image_eqI)
    then have "(join_path p, m) \<in> set ?ns" unfolding set .
    moreover have "segs_of (join_path p) = p" using p look_good[OF assms(2) m] by (simp add: segs_of_join)
    ultimately show "p \<in> segs_of ` fst ` set ?ns" by force
  qed
  have "distinct (map fst (collectNodes [] root))"
  proof -
    have "segs_of (join_path p) = p" if "(p, m) \<in> set (tree_nodes root)" for p m
      using tree_nodes_look(1)[OF assms(2,3), of p m] that look_good[OF assms(2), of p m] by (intro segs_of_join) auto
    then have "inj_on join_path (set (map fst (tree_nodes root)))" by (intro inj_on_inverseI[of _ segs_of]) auto
    with distinct_tree_nodes(1)[OF assms(2)] have "distinct (map join_path (map fst (tree_nodes root)))"
      by (simp only: distinct_map[of join_path])
    moreover have "map fst (collectNodes [] root) = map join_path (map fst (tree_nodes root))"
      by (simp add: col comp_def case_prod_beta)
    ultimately show ?thesis by simp
  qed
  then have "distinct (map fst ?ns)" using mset by (metis mset_eq_imp_distinct_iff mset_map)
  moreover have "inj_on segs_of (fst ` set ?ns)" using node(2) by (intro inj_on_inverseI[of _ join_path]) auto
  ultimately have "distinct (map segs_of (map fst ?ns))" by (simp only: distinct_map[of segs_of] set_map)
  moreover have "map join_path (map segs_of (map fst ?ns)) = map fst ?ns" using node(2) by (auto simp: map_idI)
  moreover have "set (map segs_of (map fst ?ns)) = {p. p \<noteq> [] \<and> fs_of root p \<noteq> None}"
    unfolding set_map using held by blast
  ultimately have "listing (fs_of root) (map segs_of (map fst ?ns))"
    unfolding listing_def using sorted by (simp only: conj_assoc simp_thms)
  moreover have "map (\<lambda>(s, n). (s, info n)) ?ns = map (\<lambda>p. (join_path p, the (fs_of root p))) (map segs_of (map fst ?ns))"
    using node by (auto simp: fs_of_def)
  ultimately show thesis by (rule that)
qed

section \<open>Applying all entries\<close>

fun materialize_all :: "mtreeLib \<Rightarrow> mtOptions \<Rightarrow> inodeMap \<Rightarrow> linkMap \<Rightarrow> nat \<Rightarrow> collectedEntry list \<Rightarrow> mtErr + layerEntry list" where
  "materialize_all L opts inodes links i [] = Inr []"
| "materialize_all L opts inodes links i (ce # ces) =
     ebind (materialize L opts inodes links i ce) (\<lambda>m.
     ebind (materialize_all L opts inodes links (Suc i) ces) (\<lambda>ms. Inr ((m, ceInput ce) # ms)))"

lemma apply_all_total:
  "structural.inv root \<Longrightarrow> tnIsDir root \<Longrightarrow>
   (\<exists>root'. apply_all L opts inodes links i ces root = Inr root' \<and> (\<exists>ms. materialize_all L opts inodes links i ces = Inr ms)) \<or>
   (\<exists>e. apply_all L opts inodes links i ces root = Inl e \<and> materialize_all L opts inodes links i ces = Inl e)"
proof (induction ces arbitrary: i root)
  case (Cons ce ces)
  show ?case
  proof (cases "materialize L opts inodes links i ce")
    case (Inr m)
    obtain root' where "apply_entry m (ceInput ce) root = Some root'" "structural.inv root'" "tnIsDir root'"
      using apply_entry_wf[OF Cons.prems] by blast
    with Cons.IH[of root' "Suc i"] Inr show ?thesis by auto
  qed simp
qed simp

lemma apply_all_refines:
  "tidy.inv root \<Longrightarrow> tnIsDir root \<Longrightarrow> materialize_all L opts inodes links i ces = Inr ms \<Longrightarrow>
   \<forall>e\<in>set ms. relative_path (fst (fst e)) \<Longrightarrow> no_replacement (fs_of root) ms \<Longrightarrow>
   \<exists>root'. apply_all L opts inodes links i ces root = Inr root' \<and> tidy.inv root' \<and> tnIsDir root' \<and> fs_of root' = changeset (fs_of root) ms"
proof (induction ces arbitrary: i root ms)
  case (Cons ce ces)
  from Cons.prems(3) obtain m ms' where m: "materialize L opts inodes links i ce = Inr m"
    "materialize_all L opts inodes links (Suc i) ces = Inr ms'" "ms = (m, ceInput ce) # ms'" by (auto simp: ebind_Inr)
  obtain root' where r: "apply_entry m (ceInput ce) root = Some root'" "tidy.inv root'" "tnIsDir root'"
    "fs_of root' = changeset_step (m, ceInput ce) (fs_of root)"
    using apply_entry_refines[OF Cons.prems(1,2), of m "ceInput ce"] Cons.prems(4,5) m(3) by auto
  from Cons.IH[OF r(2,3) m(2)] Cons.prems(4,5) m r show ?case by auto
qed simp

text \<open>The entry of the specification for a path and what it holds, at its position.\<close>

definition listed_entry :: "mtreeLib \<Rightarrow> mtOptions \<Rightarrow> nat \<times> string \<times> nodeInfo \<Rightarrow> mtEntry" where
  "listed_entry L opts = (\<lambda>(i, s, v).
     MtEntry (optPathPrefix opts @ the (vis L s) @ (if niIsDir v \<and> optPathPrefix opts = [] then ''/'' else []))
       (if niSynthesized v then [''type=dir''] else niKeyvals v) FullType [] i None)"

lemma write_nodes_listed:
  assumes "\<And>s. vis L s \<noteq> None"
  shows "write_nodes L opts ns dh = Inr (dh @ map (listed_entry L opts) (enumerate (length dh) (map (\<lambda>(s, n). (s, info n)) ns)))"
proof (induction ns arbitrary: dh)
  case (Cons x ns)
  obtain s n where x: "x = (s, n)" by (cases x)
  from assms obtain e where "vis L s = Some e" by blast
  then show ?case
    using Cons by (simp add: x buildEntry_def vis_or_err_def appendEntry_def listed_entry_def)
qed simp

definition signature_entry :: mtEntry where
  "signature_entry = MtEntry [] [] SignatureType ''#mtree v2.0'' 0 None"

lemma fs_of_newDir: "fs_of newDir = empty_fs"
proof
  fix p
  show "fs_of newDir p = empty_fs p"
    by (cases p) (simp_all add: empty_fs_def newDir_def new_dir_def info_def fs_of_Cons get_child_def)
qed

section \<open>Hard links\<close>

definition regular_at :: "string \<Rightarrow> collectedEntry \<Rightarrow> bool" where
  "regular_at p ce \<longleftrightarrow> cePath ce = p \<and> (\<exists>hdr. ceHdr ce = Some hdr \<and> isRegularFile hdr)"

definition link_to_path :: "string \<Rightarrow> collectedEntry \<Rightarrow> bool" where
  "link_to_path p ce \<longleftrightarrow> (\<exists>hdr. ceHdr ce = Some hdr \<and> hTypeflag hdr = TypeLink \<and> cleanPath (hLinkname hdr) = p)"

definition link_count :: "string \<Rightarrow> collectedEntry list \<Rightarrow> int" where
  "link_count p ces = int (length (filter (link_to_path p) ces))"

lemma regular_inodes_spec:
  "map_of (regular_inodes ces m) p =
   (case filter (regular_at p) ces of
      [] \<Rightarrow> map_of m p
    | rs \<Rightarrow> Some \<lparr>inHdr = the (ceHdr (last rs)), inDigest = ceDigest (last rs), inNlink = 1\<rparr>)"
proof (induction ces arbitrary: m)
  case (Cons ce ces)
  let ?m = "case ceHdr ce of None \<Rightarrow> m
    | Some hdr \<Rightarrow> if isRegularFile hdr then AList.update (cePath ce) \<lparr>inHdr = hdr, inDigest = ceDigest ce, inNlink = 1\<rparr> m else m"
  have "map_of ?m p = (if regular_at p ce then Some \<lparr>inHdr = the (ceHdr ce), inDigest = ceDigest ce, inNlink = 1\<rparr> else map_of m p)"
    by (auto simp: regular_at_def alist_simps split: option.split)
  then show ?case using Cons[of ?m] by (auto split: list.split)
qed simp

text \<open>The inode a link is given: that of its target, when there is one.\<close>

definition link_ref :: "inodeMap \<Rightarrow> collectedEntry \<Rightarrow> (string + inode) option" where
  "link_ref m ce =
     (case ceHdr ce of
        Some hdr \<Rightarrow> if hTypeflag hdr = TypeLink
          then Some (if map_of m (cleanPath (hLinkname hdr)) = None then Inr \<lparr>inHdr = hdr, inDigest = [], inNlink = 1\<rparr>
                     else Inl (cleanPath (hLinkname hdr)))
          else None
      | None \<Rightarrow> None)"

definition link_update :: "nat \<Rightarrow> collectedEntry \<Rightarrow> inodeMap \<times> linkMap \<Rightarrow> inodeMap \<times> linkMap" where
  "link_update i ce st = link_inodes i [ce] st"

lemma link_inodes_Cons: "link_inodes i (ce # ces) st = link_inodes (Suc i) ces (link_update i ce st)"
  by (cases st) (simp add: link_update_def split: prod.split option.split)

lemma link_update_spec:
  assumes "link_update i ce (m, links) = (m', links')"
  shows "map_of m' q = map_option (\<lambda>n. n\<lparr>inNlink := inNlink n + (if link_to_path q ce then 1 else 0)\<rparr>) (map_of m q)"
    "map_of links' k = (if k = i \<and> link_ref m ce \<noteq> None then link_ref m ce else map_of links k)"
  using assms
  by (auto simp: link_update_def link_to_path_def link_ref_def alist_simps option.map_ident split: option.splits if_splits)

lemma link_ref_cong: "(\<And>q. map_of m q = None \<longleftrightarrow> map_of m' q = None) \<Longrightarrow> link_ref m ce = link_ref m' ce"
  by (auto simp: link_ref_def split: option.split)

lemma link_inodes_spec:
  assumes "link_inodes i ces (m, links) = (m', links')"
  shows "map_of m' p = map_option (\<lambda>n. n\<lparr>inNlink := inNlink n + link_count p ces\<rparr>) (map_of m p) \<and>
    (\<forall>k. map_of links' k =
      (if i \<le> k \<and> k < i + length ces \<and> link_ref m (ces ! (k - i)) \<noteq> None then link_ref m (ces ! (k - i)) else map_of links k))"
  using assms
proof (induction ces arbitrary: i m links)
  case Nil
  then show ?case by (auto simp: link_count_def option.map_ident)
next
  case (Cons ce ces)
  obtain m1 links1 where st: "link_update i ce (m, links) = (m1, links1)" by fastforce
  with Cons.prems have run: "link_inodes (Suc i) ces (m1, links1) = (m', links')" by (simp only: link_inodes_Cons)
  note st = link_update_spec[OF st] and IH = Cons.IH[OF run]
  have ref: "link_ref m1 ce' = link_ref m ce'" for ce' by (rule link_ref_cong) (simp add: st(1))
  have "map_of m' p = map_option (\<lambda>n. n\<lparr>inNlink := inNlink n + link_count p (ce # ces)\<rparr>) (map_of m p)"
    using IH by (cases "map_of m p") (simp_all add: st(1) link_count_def)
  moreover have "map_of links' k = (if i \<le> k \<and> k < i + length (ce # ces) \<and> link_ref m ((ce # ces) ! (k - i)) \<noteq> None
      then link_ref m ((ce # ces) ! (k - i)) else map_of links k)" for k
  proof (cases "k \<le> i")
    case True
    then show ?thesis using IH st(2)[of k] by (cases "k = i") simp_all
  next
    case False
    then have "(ce # ces) ! (k - i) = ces ! (k - Suc i)" by (simp add: nth_Cons')
    with False IH st(2)[of k] show ?thesis by (auto simp: ref)
  qed
  ultimately show ?case by blast
qed

lemma groupHardlinks_spec:
  assumes "groupHardlinks ces = (inodes, links)"
  shows "map_of inodes p = (case filter (regular_at p) ces of [] \<Rightarrow> None
      | rs \<Rightarrow> Some \<lparr>inHdr = the (ceHdr (last rs)), inDigest = ceDigest (last rs), inNlink = 1 + link_count p ces\<rparr>)"
    and "k < length ces \<Longrightarrow> map_of links k = link_ref (regular_inodes ces []) (ces ! k)"
  using link_inodes_spec[of 0 ces "regular_inodes ces []" "[]" inodes links p] assms
  by (auto simp: groupHardlinks_def regular_inodes_spec split: list.split)

section \<open>Errors\<close>

text \<open>A result that is not a panic.\<close>

definition calm :: "mtErr + 'a \<Rightarrow> bool" where
  "calm m \<longleftrightarrow> m \<noteq> Inl MtPanic"

lemma calm_bind: "calm m \<Longrightarrow> (\<And>a. m = Inr a \<Longrightarrow> calm (f a)) \<Longrightarrow> calm (ebind m f)"
  by (cases m) (auto simp: calm_def)

lemma calm_basic:
  "calm (Inr a)" "calm (Inl MtTar)" "calm (Inl (MtDigest s))" "calm (Inl MtVis)" "calm (Inl MtPath)" "calm (Inl MtParse)"
  "calm (Inl (MtKind k))" "calm (Inl (MtLayout s))" "calm (Inl MtWrite)"
  by (simp_all add: calm_def)

lemma calm_if: "(c \<Longrightarrow> calm a) \<Longrightarrow> (\<not> c \<Longrightarrow> calm b) \<Longrightarrow> calm (if c then a else b)"
  by simp

lemma calm_option: "(x = None \<Longrightarrow> calm a) \<Longrightarrow> (\<And>y. x = Some y \<Longrightarrow> calm (f y)) \<Longrightarrow> calm (case x of None \<Rightarrow> a | Some y \<Rightarrow> f y)"
  by (cases x) auto

lemma calm_prod: "(\<And>a b. p = (a, b) \<Longrightarrow> calm (f a b)) \<Longrightarrow> calm (case p of (a, b) \<Rightarrow> f a b)"
  by (cases p) simp

lemmas calm_rules = calm_bind calm_basic calm_if calm_option calm_prod

lemma calm_vis: "calm (vis_or_err L s)"
  unfolding vis_or_err_def by (intro calm_rules)

lemma calm_xattrs: "calm (xattr_kvs L records names)"
proof (induction names)
  case (Cons n names)
  then show ?case unfolding xattr_kvs.simps by (intro calm_rules calm_vis)
qed (simp add: calm_basic)

lemma calm_keywords: "calm (keywordsForHeader L hdr digest nlink kws)"
proof (induction kws)
  case (Cons kw kws)
  then show ?case
    unfolding keywordsForHeader.simps header_keyword_def xattrKeywords_def Let_def by (intro calm_rules calm_vis calm_xattrs)
qed (simp add: calm_basic)

lemma calm_materialize:
  assumes "groupHardlinks ces = (inodes, links)" "k < length ces"
  shows "calm (materialize L opts inodes links k (ces ! k))"
proof -
  have "Option.bind (map_of links k) (deref inodes) \<noteq> None" if "ceHdr (ces ! k) = Some hdr" "hTypeflag hdr = TypeLink" for hdr
    using that groupHardlinks_spec(1)[OF assms(1), of "cleanPath (hLinkname hdr)"] groupHardlinks_spec(2)[OF assms]
    by (auto simp: link_ref_def deref_def regular_inodes_spec split: list.splits)
  then show ?thesis
    unfolding materialize_def Let_def by (intro calm_rules calm_keywords) blast
qed

lemma calm_materialize_all:
  "(\<And>k. k < length ces \<Longrightarrow> calm (materialize L opts inodes links (i + k) (ces ! k))) \<Longrightarrow> calm (materialize_all L opts inodes links i ces)"
proof (induction ces arbitrary: i)
  case (Cons ce ces)
  have "calm (materialize L opts inodes links i ce)" using Cons.prems[of 0] by simp
  moreover have "calm (materialize_all L opts inodes links (Suc i) ces)"
    by (rule Cons.IH) (use Cons.prems[of "Suc k" for k] in simp)
  ultimately show ?case by (auto intro!: calm_rules)
qed (simp add: calm_basic)

lemma calm_build: "calm (buildEntry L opts p isDir kvs)"
  unfolding buildEntry_def by (intro calm_rules calm_vis)

lemma calm_write_nodes: "calm (write_nodes L opts ns dh)"
proof (induction ns arbitrary: dh)
  case (Cons n ns)
  then show ?case by (cases n) (auto intro!: calm_rules calm_build)
qed (simp add: calm_basic)

lemma calm_write_tar:
  "(\<And>k. k < length ces \<Longrightarrow> calm (materialize L opts inodes links (i + k) (ces ! k))) \<Longrightarrow> calm (write_tar L opts inodes links i ces dh)"
proof (induction ces arbitrary: i dh)
  case (Cons ce ces)
  have "calm (materialize L opts inodes links i ce)" using Cons.prems[of 0] by simp
  moreover have "calm (write_tar L opts inodes links (Suc i) ces dh')" for dh'
    by (rule Cons.IH) (use Cons.prems[of "Suc k" for k] in simp)
  ultimately show ?case by (auto intro!: calm_rules calm_build)
qed (simp add: calm_basic)

lemma newDir_inv: "structural.inv newDir" "tidy.inv newDir" "tnIsDir newDir"
  by (simp_all add: newDir_def wf_local_def tidy_local_def)

lemma calm_render: "calm (render L opts ces)"
proof -
  obtain inodes links where g: "groupHardlinks ces = (inodes, links)" by fastforce
  have m: "calm (materialize L opts inodes links (0 + k) (ces ! k))" if "k < length ces" for k
    using calm_materialize[OF g that] by simp
  have "calm (apply_all L opts inodes links 0 ces newDir)"
    using apply_all_total[OF newDir_inv(1,3), of L opts inodes links 0 ces] calm_materialize_all[OF m] by (auto simp: calm_def)
  then have "calm (writeChangeset L opts dh ces inodes links)" for dh
    unfolding writeChangeset_def by (intro calm_rules calm_write_nodes)
  then show ?thesis unfolding render_def g prod.case Let_def by (intro calm_if calm_basic calm_write_tar[OF m])
qed

lemma calm_collect: "calm (collect_entries digester input atEOF es)"
proof (induction es)
  case (Cons e es)
  have "calm (content_digest digester hdr content)" for hdr content
    by (auto simp: content_digest_def calm_def split: option.split sum.split)
  with Cons show ?case by (cases e) (auto intro!: calm_rules)
qed (simp add: calm_basic)

lemma calm_path: "calm (mtreeEntryPath L e)"
  by (induction e rule: mtreeEntryPath.induct[of _ L]) (auto intro!: calm_rules split: option.split)

lemma calm_spec: "calm (collect_spec L opts input es)"
proof (induction es)
  case (Cons e es)
  then show ?case unfolding collect_spec.simps Let_def by (intro calm_rules calm_path)
qed (simp add: calm_basic)

lemma calm_inputs: "calm (collect_inputs L opts idx ins)"
proof (induction ins arbitrary: idx)
  case (Cons inp ins)
  have "calm (collectTar L r d i)" "calm (collectMtree L r opts i)" for r d i
    by (auto simp: collectTar_def collectMtree_def calm_collect calm_spec calm_basic split: prod.split option.split)
  with Cons show ?case by (auto intro!: calm_bind calm_basic split: inputKind.split)
qed (simp add: calm_basic)

section \<open>Properties\<close>

text \<open>
  C6. The changeset layout lists the file system that applying the layers in order leaves behind, under two
  conditions: the paths are relative, and no entry replaces a directory that has contents by something else
  (there the code differs, see the replaced directory below).  After the signature there is one entry for every
  path that the rules for entries, whiteouts and opaque whiteouts leave, sorted by path, with the keywords of the
  entry last put there or \<^verbatim>\<open>type=dir\<close> for a directory nobody described.  The entries applied are those that
  \<^verbatim>\<open>materialize\<close> makes of the collected ones, hard links already carrying the keywords of their targets; how
  links are resolved across layers is not part of the statement.
\<close>
theorem changeset_layout_applies_layers:
  assumes "optLayout opts = LayoutOCIChangeset" "groupHardlinks collected = (inodes, links)"
    and "materialize_all L opts inodes links 0 collected = Inr ms" "\<forall>e\<in>set ms. relative_path (fst (fst e))"
    and "no_replacement empty_fs ms" "sort_nodes_ok L" "\<forall>s. vis L s \<noteq> None"
  shows "\<exists>ps. listing (changeset empty_fs ms) ps \<and>
    render L opts collected =
      Inr (signature_entry # map (listed_entry L opts) (enumerate 1 (map (\<lambda>p. (join_path p, the (changeset empty_fs ms p))) ps)))"
proof -
  from apply_all_refines[OF newDir_inv(2,3) assms(3,4)] assms(5)
  obtain root where root: "apply_all L opts inodes links 0 collected newDir = Inr root" "tidy.inv root" "tnIsDir root"
    "fs_of root = changeset empty_fs ms" by (auto simp: fs_of_newDir)
  from collected_listing[OF assms(6) root(2,3)] obtain ps where ps: "listing (fs_of root) ps"
    "map (\<lambda>(s, n). (s, info n)) (sortNodes L (collectNodes [] root)) = map (\<lambda>p. (join_path p, the (fs_of root p))) ps" .
  have "optLayout opts \<noteq> []" "optLayout opts \<noteq> LayoutTar" using assms(1) by (simp_all add: LayoutOCIChangeset_def LayoutTar_def)
  then have "render L opts collected = write_nodes L opts (sortNodes L (collectNodes [] root)) [signature_entry]"
    using assms(1,2) root(1) by (simp add: render_def writeChangeset_def appendEntry_def signature_entry_def)
  then have "render L opts collected = Inr (signature_entry # map (listed_entry L opts) (enumerate 1 (map (\<lambda>p. (join_path p, the (fs_of root p))) ps)))"
    using write_nodes_listed[of L opts "sortNodes L (collectNodes [] root)" "[signature_entry]"] assms(7) ps(2) by simp
  with ps(1) show ?thesis unfolding root(4) by blast
qed

text \<open>
  C37. Writing an mtree specification never panics: no input makes it assign into a nil map of children or
  follow a hard link that has no inode; it returns the specification or one of its errors.
\<close>
theorem mtree_never_panics: "WriteMulti L opts inputs \<noteq> Inl MtPanic"
proof -
  have "calm (WriteMulti L opts inputs)"
    unfolding WriteMulti_def by (intro calm_rules calm_inputs calm_render)
  then show ?thesis by (simp add: calm_def)
qed

text \<open>
  A hard link is written as a copy of its target: it gets the keywords of the last regular file at the
  path it names, and both count as many links as there are hard links to that path, plus one.
\<close>
lemma hardlink_copies_target:
  assumes "groupHardlinks ces = (inodes, links)" "i < length ces" "ceHdr (ces ! i) = Some h" "hTypeflag h = TypeLink"
    and "filter (regular_at (cleanPath (hLinkname h))) ces = rs @ [r]" "ceHdr r = Some hdr"
  shows "materialize L opts inodes links i (ces ! i) =
      ebind (keywordsForHeader L hdr (ceDigest r) (1 + link_count (cleanPath (hLinkname h)) ces) (optKeywords opts))
        (\<lambda>kvs. Inr (cePath (ces ! i), False, kvs)) \<and>
    materialize L opts inodes links j r =
      ebind (keywordsForHeader L hdr (ceDigest r) (1 + link_count (cleanPath (hLinkname h)) ces) (optKeywords opts))
        (\<lambda>kvs. Inr (cePath r, False, kvs))"
proof -
  let ?p = "cleanPath (hLinkname h)"
  have node: "map_of inodes ?p = Some \<lparr>inHdr = hdr, inDigest = ceDigest r, inNlink = 1 + link_count ?p ces\<rparr>"
    using groupHardlinks_spec(1)[OF assms(1), of ?p] assms(5,6) by (cases rs) simp_all
  have "r \<in> set (filter (regular_at ?p) ces)" using assms(5) by simp
  then have r: "cePath r = ?p" "isRegularFile hdr" using assms(6) by (auto simp: regular_at_def)
  have "map_of (regular_inodes ces []) ?p \<noteq> None" using assms(5) by (simp add: regular_inodes_spec split: list.split)
  then have "map_of links i = Some (Inl ?p)"
    using groupHardlinks_spec(2)[OF assms(1,2)] assms(3,4) by (simp add: link_ref_def)
  moreover have "hTypeflag hdr \<noteq> TypeLink" "hTypeflag hdr \<noteq> TypeDir"
    using r(2) by (auto simp: isRegularFile_def TypeRegA_def typeflags)
  ultimately show ?thesis using assms(3,4,6) node r(1) by (simp add: materialize_def deref_def)
qed

text \<open>Entries of mtree inputs, which need no tar header.\<close>

definition spec_entry :: "string \<Rightarrow> bool \<Rightarrow> nat \<Rightarrow> collectedEntry" where
  "spec_entry p isDir input =
     \<lparr>cePath = p, ceHdr = None, ceDigest = [], ceKeyvals = [], ceIsDir = isDir, ceInput = input\<rparr>"

lemma apply_all_append:
  "apply_all L opts inodes links i (xs @ ys) root =
   ebind (apply_all L opts inodes links i xs root) (apply_all L opts inodes links (i + length xs) ys)"
proof (induction xs arbitrary: i root)
  case (Cons x xs)
  show ?case
  proof (cases "materialize L opts inodes links i x")
    case (Inr m)
    then show ?thesis using Cons by (cases "apply_entry m (ceInput x) root") simp_all
  qed simp
qed simp

lemma apply_all_wf:
  "apply_all L opts inodes links i ces root = Inr root' \<Longrightarrow> structural.inv root \<Longrightarrow> tnIsDir root \<Longrightarrow>
   structural.inv root' \<and> tnIsDir root'"
proof (induction ces arbitrary: i root)
  case (Cons ce ces)
  then obtain m root1 where "apply_entry m (ceInput ce) root = Some root1" "apply_all L opts inodes links (Suc i) ces root1 = Inr root'"
    by (auto simp: ebind_Inr split: option.splits)
  with Cons.IH[of "Suc i" root1] apply_entry_wf[OF Cons.prems(2,3), of m "ceInput ce"] show ?case by auto
qed simp

lemma collect_child:
  "(c, ch) \<in> set cs \<Longrightarrow> c \<noteq> [] \<Longrightarrow> (path_str pre [c], ch) \<in> set (collect_children pre cs) \<and>
   (tnIsDir ch \<longrightarrow> set (collectNodes (path_str pre [c]) ch) \<subseteq> set (collect_children pre cs))"
  by (induction cs) (auto simp: path_str_def Let_def)

lemma look_collected:
  "look n (c # q) = Some m \<Longrightarrow> [] \<notin> set (c # q) \<Longrightarrow> (path_str pre (c # q), m) \<in> set (collectNodes pre n)"
proof (induction q arbitrary: n c pre)
  case Nil
  then obtain cs where "tnChildren n = Some cs" "(c, m) \<in> set cs"
    by (auto simp: get_child_def split: if_splits option.splits dest: map_of_SomeD)
  with Nil collect_child[of c m cs pre] show ?case by (cases n) auto
next
  case (Cons a q)
  then obtain cs ch where ch: "tnChildren n = Some cs" "(c, ch) \<in> set cs" "look ch (a # q) = Some m"
    by (auto simp: get_child_def simp del: look.simps(2) split: if_splits option.splits dest: map_of_SomeD simp: look.simps(2)[of n])
  then have "tnIsDir ch" by (simp split: if_splits)
  moreover have "path_str (path_str pre [c]) (a # q) = path_str pre (c # a # q)"
    using Cons.prems(2) by (auto simp: path_str_def join_with_Cons)
  moreover have "(path_str (path_str pre [c]) (a # q), m) \<in> set (collectNodes (path_str pre [c]) ch)"
    using Cons.IH[OF ch(3)] Cons.prems(2) by simp
  moreover have "collectNodes pre n = collect_children pre cs" using ch(1) by (cases n) auto
  ultimately show ?case using collect_child[OF ch(2), of pre] Cons.prems(2) by auto
qed

text \<open>
  C38. A replaced directory reappears: whatever entries have been applied before, if the tree shows something below
  a path, then an entry that makes the path a file hides it, and a later entry that makes the path a directory
  again brings it back, unchanged and into the collected listing.  By the rules for applying layers nothing is
  left below the path, whatever was there before.
\<close>
theorem replaced_directory_reappears:
  assumes "apply_all L opts inodes links 0 ces newDir = Inr root" "fs_of root (segs_of p @ c # q) = Some v"
    and "p \<noteq> ''.''" "\<not> HasPrefix (last (segs_of p)) whiteoutPrefix" "[] \<notin> set (segs_of p @ c # q)"
    and "materialize L opts inodes links (length ces) e = Inr (p, False, k)"
    and "materialize L opts inodes links (Suc (length ces)) e' = Inr (p, True, k')"
  shows "\<exists>root1 root2. apply_all L opts inodes links 0 (ces @ [e]) newDir = Inr root1 \<and> fs_of root1 (segs_of p @ c # q) = None \<and>
    apply_all L opts inodes links 0 (ces @ [e, e']) newDir = Inr root2 \<and> fs_of root2 (segs_of p @ c # q) = Some v \<and>
    join_path (segs_of p @ c # q) \<in> fst ` set (collectNodes [] root2) \<and>
    (\<forall>F. changeset F [((p, False, k), ceInput e), ((p, True, k'), ceInput e')] (segs_of p @ c # q) = None)"
proof -
  have wf: "structural.inv root" "tnIsDir root" using apply_all_wf[OF assms(1)] newDir_inv by blast+
  from replaced_and_restored[OF wf assms(2-4), of k "ceInput e" k' "ceInput e'"] obtain root1 root2 where
    r: "apply_entry (p, False, k) (ceInput e) root = Some root1" "fs_of root1 (segs_of p @ c # q) = None"
      "apply_entry (p, True, k') (ceInput e') root1 = Some root2" "fs_of root2 (segs_of p @ c # q) = Some v" by blast
  obtain a as where a: "segs_of p @ c # q = a # as" by (cases "segs_of p") simp_all
  obtain m where "look root2 (a # as) = Some m" using r(4) unfolding a fs_of_def by blast
  from look_collected[OF this, of "[]"] assms(5) have "join_path (segs_of p @ c # q) \<in> fst ` set (collectNodes [] root2)"
    unfolding a by (force simp: path_str_def)
  with assms(1,6,7) r changeset_replaced[OF assms(3,4)] show ?thesis by (simp add: apply_all_append del: changeset.simps)
qed

text \<open>A file of a given size and a hard link to it, as entries of tar inputs.\<close>

definition size_entry :: "int \<Rightarrow> nat \<Rightarrow> collectedEntry" where
  "size_entry n input = \<lparr>cePath = ''a'', ceHdr = Some (zero_header\<lparr>hTypeflag := TypeReg, hName := ''a'', hSize := n\<rparr>),
     ceDigest = [], ceKeyvals = [], ceIsDir = False, ceInput = input\<rparr>"

definition link_entry :: "nat \<Rightarrow> collectedEntry" where
  "link_entry input = \<lparr>cePath = ''b'', ceHdr = Some (zero_header\<lparr>hTypeflag := TypeLink, hName := ''b'', hLinkname := ''a''\<rparr>),
     ceDigest = [], ceKeyvals = [], ceIsDir = False, ceInput = input\<rparr>"

lemma size_keyword:
  "keywordsForHeader L (zero_header\<lparr>hTypeflag := TypeReg, hName := ''a'', hSize := n\<rparr>) d nlink [''size''] = Inr [''size='' @ show_int n]"
  by (simp add: header_keyword_def mtreeType_def typeflags TypeFifo_def TypeRegA_def)

lemma clean_a: "cleanPath ''a'' = ''a''"
  by code_simp

lemma group_example:
  "groupHardlinks [size_entry m 0, link_entry 0, size_entry n 1] =
   ([(''a'', \<lparr>inHdr = zero_header\<lparr>hTypeflag := TypeReg, hName := ''a'', hSize := n\<rparr>, inDigest = [], inNlink = 2\<rparr>)], [(1, Inl ''a'')])"
  by (simp add: groupHardlinks_def size_entry_def link_entry_def isRegularFile_def clean_a zero_header_def typeflags TypeRegA_def)

text \<open>
  Hard links are resolved over all layers at once: a link to a file of its own layer is written with the
  keywords of the file that a later layer puts at the same path.
\<close>
lemma hardlink_shows_later_layer:
  "let ces = [size_entry m 0, link_entry 0, size_entry n 1];
       opts = \<lparr>optPathPrefix = [], optKeywords = [''size''], optLayout = LayoutTar\<rparr>
   in materialize_all L opts (fst (groupHardlinks ces)) (snd (groupHardlinks ces)) 0 ces =
      Inr [((''a'', False, [''size='' @ show_int m]), 0), ((''b'', False, [''size='' @ show_int n]), 0), ((''a'', False, [''size='' @ show_int n]), 1)]"
  unfolding Let_def group_example fst_conv snd_conv
  by (simp add: materialize_def size_entry_def link_entry_def deref_def size_keyword del: keywordsForHeader.simps)

text \<open>
  What \<^verbatim>\<open>vis\<close> with octal escapes promises: a character is kept or replaced by backslashes and octal digits, and
  slash, dot and the octal digits are kept; \<^verbatim>\<open>unvis\<close> leaves a text without a backslash alone.
\<close>

definition vis_octal :: "mtreeLib \<Rightarrow> bool" where
  "vis_octal L \<longleftrightarrow>
     (\<exists>f. (\<forall>s. vis L s = Some (concat (map f s))) \<and> (\<forall>c. f c = [c] \<or> set (f c) \<subseteq> insert CHR 0x5C (set ''01234567'')) \<and>
        (\<forall>c\<in>set ''/.01234567''. f c = [c])) \<and>
     (\<forall>s. CHR 0x5C \<notin> set s \<longrightarrow> unvis L s = Some s)"

text \<open>Cleaning a path adds at most slashes and dots.\<close>

lemma clean_comps_chars: "set (concat (foldl (clean_comp r) st ps)) \<subseteq> set (concat st) \<union> set (concat ps)"
proof (induction ps arbitrary: st)
  case (Cons p ps)
  have "set (concat (clean_comp r st p)) \<subseteq> set (concat st) \<union> set p" by (auto simp: clean_comp.simps split: list.splits)
  with Cons[of "clean_comp r st p"] show ?case by auto
qed simp

lemma set_join_path: "set (join_path ps) \<subseteq> insert CHR ''/'' (set (concat ps))"
proof (induction ps)
  case (Cons p ps)
  then show ?case by (cases ps) auto
qed simp

lemma set_split_on: "set (concat (split_on c s)) \<subseteq> set s"
proof (induction c s rule: split_on.induct)
  case (2 c x xs)
  then show ?case by (cases "split_on c xs") (simp_all, blast+)
qed simp

lemma path_Clean_chars: "set (path_Clean s) \<subseteq> set s \<union> set ''/.''"
proof -
  define st where "st = foldl (clean_comp (rooted s)) [] (split_on CHR ''/'' s)"
  have "set (join_path (rev st)) \<subseteq> insert CHR ''/'' (set (concat st))" using set_join_path[of "rev st"] by simp
  moreover have "set (concat st) \<subseteq> set s"
    using clean_comps_chars[of "rooted s" "[]" "split_on CHR ''/'' s"] set_split_on[of "CHR ''/''" s] by (auto simp: st_def)
  ultimately have "set (join_path (rev st)) \<subseteq> set s \<union> set ''/.''" by auto
  then show ?thesis unfolding path_Clean_def Let_def st_def[symmetric] by simp
qed

lemma cleanPath_chars: "set (cleanPath s) \<subseteq> set s \<union> set ''/.''"
proof -
  have "set (TrimSuffix s ''/'') \<subseteq> set s" by (auto simp: TrimSuffix_def dest: in_set_takeD)
  with path_Clean_chars[of "TrimSuffix s ''/''"] show ?thesis by (auto simp: cleanPath_def Let_def)
qed

text \<open>
  C39. A path with an escaped character is not read back: for every path whose encoding contains a backslash, the
  entry written for it is parsed as another path, because the backslash is turned into a slash before the name
  is decoded; whatever the options, if their path prefix consists of dots and slashes as the default one does.
\<close>
theorem escaped_path_misread:
  assumes "vis_octal L" "vis L p = Some enc" "CHR 0x5C \<in> set enc" "set (optPathPrefix opts) \<subseteq> set ''/.''"
  shows "\<exists>e p'. buildEntry L opts p isDir kvs = Inr e \<and> mtreeEntryPath L e = Inr p' \<and> p' \<noteq> p"
proof -
  obtain f where f: "vis L p = Some (concat (map f p))" "\<And>c. f c = [c] \<or> set (f c) \<subseteq> insert CHR 0x5C (set ''01234567'')"
    "\<And>c. c \<in> set ''/.01234567'' \<Longrightarrow> f c = [c]" "\<And>s. CHR 0x5C \<notin> set s \<Longrightarrow> unvis L s = Some s"
    using assms(1) unfolding vis_octal_def by blast
  then have enc: "enc = concat (map f p)" using assms(2) by simp
  define slashed where "slashed = unescape_backslash (optPathPrefix opts @ enc @ (if isDir \<and> optPathPrefix opts = [] then ''/'' else []))"
  from assms(3) enc obtain c where c: "c \<in> set p" "CHR 0x5C \<in> set (f c)" by auto
  have kept: "c \<notin> set ''/.01234567''"
  proof
    assume mem: "c \<in> set ''/.01234567''"
    with f(3) c(2) have "c = CHR 0x5C" by fastforce
    with mem show False by simp
  qed
  have "c \<notin> set (f d) \<or> c = CHR 0x5C" for d
  proof (cases "f d = [d]")
    case True
    with c(2) show ?thesis by (cases "c = d") auto
  next
    case False
    with f(2)[of d] have "set (f d) \<subseteq> insert CHR 0x5C (set ''01234567'')" by blast
    moreover have "c \<notin> set ''01234567''" using kept by simp
    ultimately show ?thesis by blast
  qed
  then have "c \<notin> set enc \<or> c = CHR 0x5C" unfolding enc by auto
  moreover have free: "CHR 0x5C \<notin> set slashed" by (auto simp: slashed_def unescape_backslash_def)
  moreover have "set slashed \<subseteq> set ''/.'' \<union> set enc"
    using assms(4) by (auto simp: slashed_def unescape_backslash_def split: if_splits)
  moreover have "c \<notin> set ''/.''" using kept by simp
  ultimately have "c \<notin> set slashed" by blast
  with cleanPath_chars[of slashed] \<open>c \<notin> set ''/.''\<close> have "c \<notin> set (cleanPath slashed)" by blast
  moreover have "unvis L slashed = Some slashed" using f(4)[OF free] .
  ultimately show ?thesis
    using assms(2) c(1) by (auto simp: buildEntry_def vis_or_err_def slashed_def)
qed

section \<open>Witnesses\<close>

definition demo_mtree :: mtreeLib where
  "demo_mtree = \<lparr>tarEntries = (\<lambda>_. ([], True)), vis = (\<lambda>s. Some (concat (map (\<lambda>c. if c = CHR '' '' then [CHR 0x5C] @ ''040'' else [c]) s))),
     unvis = (\<lambda>s. if CHR 0x5C \<in> set s then None else Some s), parseSpec = (\<lambda>_. Some []), allKeys = eKeywords, kvKeyword = (\<lambda>s. s),
     kvValue = (\<lambda>s. s), keywordPrefix = (\<lambda>s. s), writeTo = (\<lambda>_. Some []), sortNodes = sort_key fst, sortKeyvals = sort,
     mtSHA256 = (\<lambda>x. x), gzipHeaderOk = (\<lambda>_. True), zstdHeaderOk = (\<lambda>_. True)\<rparr>"

text \<open>A directory with a file, which a second layer removes.\<close>

definition demo_entries :: "collectedEntry list" where
  "demo_entries = [spec_entry ''d'' True 0, spec_entry ''d/x'' False 0, spec_entry ''d/.wh.x'' False 1]"

definition demo_options :: mtOptions where
  "demo_options = \<lparr>optPathPrefix = ''./'', optKeywords = [], optLayout = LayoutOCIChangeset\<rparr>"

theorem changeset_layout_applies_layers_witness:
  "\<exists>ms ps. listing (changeset empty_fs ms) ps \<and> ms \<noteq> [] \<and>
    render demo_mtree demo_options demo_entries =
      Inr (signature_entry # map (listed_entry demo_mtree demo_options) (enumerate 1 (map (\<lambda>p. (join_path p, the (changeset empty_fs ms p))) ps)))"
proof -
  let ?ms = "[((''d'', True, []), 0), ((''d/x'', False, []), 0), ((''d/.wh.x'', False, []), 1)] :: layerEntry list"
  have g: "groupHardlinks demo_entries = ([], [])" by (simp add: groupHardlinks_def demo_entries_def spec_entry_def)
  have seg: "segs_of ''d'' = [''d'']" "segs_of ''d/x'' = [''d'', ''x'']" "segs_of ''d/.wh.x'' = [''d'', ''.wh.x'']"
    by (simp_all add: segs_of_def)
  have wh: "\<not> HasPrefix ''d'' whiteoutPrefix" "whiteoutOpaque \<noteq> ''d''" "HasPrefix ''.wh.x'' whiteoutPrefix"
    by (simp_all add: HasPrefix_def whiteoutPrefix_def whiteoutOpaque_def)
  have "changeset_step ((''d'', True, []), 0) empty_fs = put_fs [''d''] True [] 0 empty_fs"
    using wh by (simp add: changeset_step_def seg make_dirs_Nil)
  then have no: "no_replacement empty_fs ?ms"
    using wh by (auto simp: replaces_dir_def seg put_fs_def empty_fs_def strict_prefix_def)
  have "materialize_all demo_mtree demo_options [] [] 0 demo_entries = Inr ?ms"
    by (simp add: demo_entries_def spec_entry_def materialize_def)
  moreover have "\<forall>e\<in>set ?ms. relative_path (fst (fst e))" by (simp add: relative_path_def seg)
  moreover have "sort_nodes_ok demo_mtree" "\<forall>s. vis demo_mtree s \<noteq> None" by (simp_all add: sort_nodes_ok_def demo_mtree_def)
  moreover have "optLayout demo_options = LayoutOCIChangeset" by (simp add: demo_options_def)
  ultimately show ?thesis
    using changeset_layout_applies_layers[OF _ g, of demo_options demo_mtree ?ms] no by (intro exI[of _ ?ms]) simp
qed

lemma hardlink_copies_target_witness:
  "\<exists>inodes links. groupHardlinks [size_entry 1 0, link_entry 0, size_entry 2 1] = (inodes, links) \<and>
    materialize demo_mtree demo_options inodes links 1 (link_entry 0) = Inr (''b'', False, [])"
proof -
  let ?ces = "[size_entry 1 0, link_entry 0, size_entry 2 1]"
  obtain inodes links where g: "groupHardlinks ?ces = (inodes, links)" by fastforce
  let ?h = "zero_header\<lparr>hTypeflag := TypeLink, hName := ''b'', hLinkname := ''a''\<rparr>"
  have "ceHdr (?ces ! 1) = Some ?h" by (simp add: link_entry_def)
  moreover have "filter (regular_at (cleanPath (hLinkname ?h))) ?ces = [size_entry 1 0] @ [size_entry 2 1]"
    by (simp add: regular_at_def clean_a size_entry_def link_entry_def isRegularFile_def)
  moreover have "ceHdr (size_entry 2 1) = Some (zero_header\<lparr>hTypeflag := TypeReg, hName := ''a'', hSize := 2\<rparr>)"
    by (simp add: size_entry_def)
  ultimately have "materialize demo_mtree demo_options inodes links 1 (?ces ! 1) = Inr (cePath (?ces ! 1), False, [])"
    using hardlink_copies_target[OF g, of 1 ?h "[size_entry 1 0]" "size_entry 2 1"] by (simp add: demo_options_def)
  with g show ?thesis by (auto simp: link_entry_def)
qed

theorem replaced_directory_reappears_witness:
  "\<exists>root. apply_all demo_mtree demo_options [] [] 0
       [spec_entry ''d'' True 0, spec_entry ''d/x'' False 0, spec_entry ''d'' False 1, spec_entry ''d'' True 2] newDir = Inr root \<and>
     ''d/x'' \<in> fst ` set (collectNodes [] root)"
proof -
  let ?x = "TreeNode ''x'' [] False False 0 None"
  let ?root = "TreeNode [] [] True True 0 (Some [(''d'', TreeNode ''d'' [] True False 0 (Some [(''x'', ?x)]))])"
  let ?ces = "[spec_entry ''d'' True 0, spec_entry ''d/x'' False 0]"
  have "apply_entry (''d'', True, []) 0 newDir = Some (TreeNode [] [] True True 0 (Some [(''d'', TreeNode ''d'' [] True False 0 (Some []))]))"
    "apply_entry (''d/x'', False, []) 0 (TreeNode [] [] True True 0 (Some [(''d'', TreeNode ''d'' [] True False 0 (Some []))])) = Some ?root"
    by code_simp+
  then have run: "apply_all demo_mtree demo_options [] [] 0 ?ces newDir = Inr ?root" by (simp add: spec_entry_def materialize_def)
  have seg: "segs_of ''d'' = [''d'']" by (simp add: segs_of_def)
  have "fs_of ?root (segs_of ''d'' @ ''x'' # []) = Some (info ?x)" by (simp add: seg fs_of_def get_child_def)
  from replaced_directory_reappears[OF run this, of "spec_entry ''d'' False 1" "[]" "spec_entry ''d'' True 2" "[]"] show ?thesis
    by (auto simp: seg spec_entry_def materialize_def HasPrefix_def whiteoutPrefix_def)
qed

lemma demo_octal: "vis_octal demo_mtree"
  unfolding vis_octal_def
  by (intro conjI exI[of _ "\<lambda>c. if c = CHR '' '' then [CHR 0x5C] @ ''040'' else [c]"]) (auto simp: demo_mtree_def)

theorem escaped_path_misread_witness:
  "\<exists>e p'. buildEntry demo_mtree DefaultOptions ''a b'' False [] = Inr e \<and> mtreeEntryPath demo_mtree e = Inr p' \<and> p' \<noteq> ''a b''"
  by (rule escaped_path_misread[OF demo_octal, of _ "''a'' @ [CHR 0x5C] @ ''040b''"]) (simp_all add: demo_mtree_def DefaultOptions_def)

end
