(* ===== verification/Merkle.thy ===== *)
theory Merkle
  imports Tar_Header Go_Path
begin

text \<open>
  \<^verbatim>\<open>pkg/tree/merkle/treehasher.go\<close> and \<^verbatim>\<open>types.go\<close>: the Merkle hash of a directory tree, computed from the deepest
  directories up.  A hash is a function \<open>H\<close> of all bytes written to it.  A file system that lists directories
  is a tree whose nodes say what \<^verbatim>\<open>Info\<close>, \<^verbatim>\<open>ReadDir\<close> and \<^verbatim>\<open>Open\<close> answer; \<open>None\<close> is an error.
\<close>

section \<open>Nodes and their text\<close>

record fileNode =
  fnName :: string
  fnSize :: int
  fnContentHash :: bytes
  fnMtime :: gotime
  fnMode :: u32

record directoryNode =
  dnName :: string
  dnHash :: bytes

record directory =
  dirFiles :: "fileNode list"
  dirDirectories :: "directoryNode list"

definition FileNodeUUID :: byte where "FileNodeUUID = 0x01"
definition DirectoryNodeUUID :: byte where "DirectoryNodeUUID = 0x02"
definition DirectryUUID :: byte where "DirectryUUID = 0xff"

definition metadataString_Fingerprint :: "string \<Rightarrow> bytes" where
  "metadataString_Fingerprint m = PutUint64 (of_nat (length m)) @ str_bytes m"

definition metadataBytes_Fingerprint :: "bytes \<Rightarrow> bytes" where
  "metadataBytes_Fingerprint m = PutUint64 (of_nat (length m)) @ m"

definition metadataSlice_Fingerprint :: "('a \<Rightarrow> bytes) \<Rightarrow> 'a list \<Rightarrow> bytes" where
  "metadataSlice_Fingerprint fp m = PutUint64 (of_nat (length m)) @ concat (map fp m)"

definition metadataSize_Fingerprint :: "int \<Rightarrow> bytes" where
  "metadataSize_Fingerprint m = PutUint64 (of_int m)"

definition metadataMode_Fingerprint :: "u32 \<Rightarrow> bytes" where
  "metadataMode_Fingerprint m = PutUint32 m"

definition metadataTime_Fingerprint :: "gotime \<Rightarrow> bytes" where
  "metadataTime_Fingerprint m = PutUint64 (of_int (time_Unix m))"

definition FileNode_Fingerprint :: "fileNode \<Rightarrow> bytes" where
  "FileNode_Fingerprint n =
     [FileNodeUUID] @ metadataString_Fingerprint (fnName n) @ metadataSize_Fingerprint (fnSize n) @
     metadataBytes_Fingerprint (fnContentHash n) @ metadataTime_Fingerprint (fnMtime n) @ metadataMode_Fingerprint (fnMode n)"

definition DirectoryNode_Fingerprint :: "directoryNode \<Rightarrow> bytes" where
  "DirectoryNode_Fingerprint n =
     [DirectoryNodeUUID] @ metadataString_Fingerprint (dnName n) @ metadataBytes_Fingerprint (dnHash n)"

definition directory_text :: "directory \<Rightarrow> bytes" where
  "directory_text n =
     [DirectryUUID] @ metadataSlice_Fingerprint FileNode_Fingerprint (dirFiles n) @
     metadataSlice_Fingerprint DirectoryNode_Fingerprint (dirDirectories n)"

definition Directory_Hash :: "(bytes \<Rightarrow> bytes) \<Rightarrow> directory \<Rightarrow> bytes" where
  "Directory_Hash H n = H (directory_text n)"

section \<open>The file system\<close>

type_synonym fileInfo = "string \<times> int"

datatype fsNode =
    FsFile "fileInfo option" "bytes option"
  | FsDir "fileInfo option" "(string \<times> fsNode) list option"
  | FsOther "fileInfo option"

fun fs_info :: "fsNode \<Rightarrow> fileInfo option" where
  "fs_info (FsFile i c) = i"
| "fs_info (FsDir i cs) = i"
| "fs_info (FsOther i) = i"

definition DefaultFileNode :: "bytes \<Rightarrow> fileInfo \<Rightarrow> fileNode" where
  "DefaultFileNode contentHash info =
     \<lparr>fnName = fst info, fnSize = snd info, fnContentHash = contentHash, fnMtime = 0, fnMode = 493\<rparr>"

datatype merkleErr =
    MkReadDir string | MkInfo string | MkType string | MkNameMismatch | MkOpen string | MkEmptyDir string

record treeHasher =
  fileNodes :: "(string, fileNode) gomap"
  dirNodes :: "(string, directoryNode) gomap"
  unfinishedDirByLevel :: "(nat, (string, (string \<times> fsNode) list) gomap) gomap"
  rootChildren :: "(string \<times> fsNode) list"

definition NewTreeHasher :: treeHasher where
  "NewTreeHasher = \<lparr>fileNodes = [], dirNodes = [], unfinishedDirByLevel = [], rootChildren = []\<rparr>"

section \<open>Collecting\<close>

text \<open>\<^verbatim>\<open>path.Base\<close>: the last component, without trailing slashes.\<close>

definition path_Base :: "string \<Rightarrow> string" where
  "path_Base p =
     (if p = [] then ''.''
      else let q = rev (dropWhile (\<lambda>c. c = CHR ''/'') (rev p));
               b = rev (takeWhile (\<lambda>c. c \<noteq> CHR ''/'') (rev q))
           in if b = [] then ''/'' else b)"

definition collectRegularFile :: "(bytes \<Rightarrow> bytes) \<Rightarrow> string \<Rightarrow> fileInfo \<Rightarrow> bytes option \<Rightarrow> treeHasher \<Rightarrow> merkleErr + treeHasher" where
  "collectRegularFile H p info content t =
     (if path_Base p \<noteq> fst info then Inl MkNameMismatch
      else case content of
             None \<Rightarrow> Inl (MkOpen p)
           | Some c \<Rightarrow> Inr (t\<lparr>fileNodes := AList.update p (DefaultFileNode (H c) info) (fileNodes t)\<rparr>))"

definition walkdDirCollector :: "(bytes \<Rightarrow> bytes) \<Rightarrow> string \<Rightarrow> fsNode \<Rightarrow> treeHasher \<Rightarrow> merkleErr + treeHasher" where
  "walkdDirCollector H p d t =
     (if p = ''.'' then
        (case d of FsDir _ (Some children) \<Rightarrow> Inr (t\<lparr>rootChildren := children\<rparr>) | _ \<Rightarrow> Inl (MkReadDir p))
      else
        let level = length (split_on CHR ''/'' p) in
        case fs_info d of
          None \<Rightarrow> Inl (MkInfo p)
        | Some info \<Rightarrow>
            (case d of
               FsFile _ content \<Rightarrow> collectRegularFile H p info content t
             | FsOther _ \<Rightarrow> Inl (MkType p)
             | FsDir _ None \<Rightarrow> Inl (MkReadDir p)
             | FsDir _ (Some children) \<Rightarrow>
                 Inr (t\<lparr>unfinishedDirByLevel :=
                   AList.update level (AList.update p children (inner (unfinishedDirByLevel t) level)) (unfinishedDirByLevel t)\<rparr>)))"

text \<open>\<^verbatim>\<open>fs.WalkDir\<close>: the callback on a node, then on everything below a directory, in the order \<^verbatim>\<open>ReadDir\<close> lists it.\<close>

fun walkDir :: "(bytes \<Rightarrow> bytes) \<Rightarrow> string \<Rightarrow> fsNode \<Rightarrow> treeHasher \<Rightarrow> merkleErr + treeHasher"
  and walk_children :: "(bytes \<Rightarrow> bytes) \<Rightarrow> string \<Rightarrow> (string \<times> fsNode) list \<Rightarrow> treeHasher \<Rightarrow> merkleErr + treeHasher" where
  "walkDir H p (FsDir i (Some cs)) t = ebind (walkdDirCollector H p (FsDir i (Some cs)) t) (walk_children H p cs)"
| "walkDir H p (FsDir i None) t = walkdDirCollector H p (FsDir i None) t"
| "walkDir H p (FsFile i c) t = walkdDirCollector H p (FsFile i c) t"
| "walkDir H p (FsOther i) t = walkdDirCollector H p (FsOther i) t"
| "walk_children H p [] t = Inr t"
| "walk_children H p ((c, d) # cs) t = ebind (walkDir H (path_Join_all [p, c]) d t) (walk_children H p cs)"

section \<open>Building\<close>

definition zero_fileNode :: fileNode where
  "zero_fileNode = \<lparr>fnName = [], fnSize = 0, fnContentHash = [], fnMtime = 0, fnMode = 0\<rparr>"

definition zero_directoryNode :: directoryNode where
  "zero_directoryNode = \<lparr>dnName = [], dnHash = []\<rparr>"

text \<open>The nodes of the children of a directory; \<open>at\<close> is the path under which a child was collected.\<close>

fun child_nodes :: "(string \<Rightarrow> string) \<Rightarrow> treeHasher \<Rightarrow> (string \<times> fsNode) list \<Rightarrow> merkleErr + fileNode list \<times> directoryNode list" where
  "child_nodes at t [] = Inr ([], [])"
| "child_nodes at t ((c, d) # cs) =
     (case d of
        FsFile _ _ \<Rightarrow> ebind (child_nodes at t cs) (\<lambda>(files, dirs).
          Inr ((case map_of (fileNodes t) (at c) of None \<Rightarrow> zero_fileNode | Some n \<Rightarrow> n) # files, dirs))
      | FsDir _ _ \<Rightarrow> ebind (child_nodes at t cs) (\<lambda>(files, dirs).
          Inr (files, (case map_of (dirNodes t) (at c) of None \<Rightarrow> zero_directoryNode | Some n \<Rightarrow> n) # dirs))
      | FsOther _ \<Rightarrow> Inl (MkType c))"

definition sorted_directory :: "fileNode list \<times> directoryNode list \<Rightarrow> directory" where
  "sorted_directory = (\<lambda>(files, dirs). \<lparr>dirFiles = sort_key fnName files, dirDirectories = sort_key dnName dirs\<rparr>)"

definition build_dir :: "(bytes \<Rightarrow> bytes) \<Rightarrow> string \<Rightarrow> (string \<times> fsNode) list \<Rightarrow> treeHasher \<Rightarrow> merkleErr + treeHasher" where
  "build_dir H p children t =
     ebind (child_nodes (\<lambda>c. path_Join_all [p, c]) t children) (\<lambda>(files, dirs).
       if files = [] \<and> dirs = [] then Inl (MkEmptyDir p)
       else Inr (t\<lparr>dirNodes := AList.update p
              \<lparr>dnName = path_Base p, dnHash = Directory_Hash H (sorted_directory (files, dirs))\<rparr> (dirNodes t)\<rparr>))"

fun build_level :: "(bytes \<Rightarrow> bytes) \<Rightarrow> (string, (string \<times> fsNode) list) gomap \<Rightarrow> treeHasher \<Rightarrow> merkleErr + treeHasher" where
  "build_level H [] t = Inr t"
| "build_level H ((p, children) # ds) t = ebind (build_dir H p children t) (build_level H ds)"

fun build_levels :: "(bytes \<Rightarrow> bytes) \<Rightarrow> nat \<Rightarrow> treeHasher \<Rightarrow> merkleErr + treeHasher" where
  "build_levels H 0 t = Inr t"
| "build_levels H (Suc l) t = ebind (build_level H (inner (unfinishedDirByLevel t) (Suc l)) t) (build_levels H l)"

definition Build_tree :: "(bytes \<Rightarrow> bytes) \<Rightarrow> fsNode \<Rightarrow> treeHasher \<Rightarrow> merkleErr + bytes" where
  "Build_tree H fsys t0 =
     ebind (walkDir H ''.'' fsys (t0\<lparr>fileNodes := [], dirNodes := [], unfinishedDirByLevel := [], rootChildren := []\<rparr>)) (\<lambda>t1.
       let maxLevel = foldl (\<lambda>m l. if l > m then l else m) 0 (map fst (unfinishedDirByLevel t1)) in
       ebind (build_levels H maxLevel t1) (\<lambda>t2.
       ebind (child_nodes (\<lambda>c. c) t2 (rootChildren t2)) (\<lambda>nodes.
         Inr (Directory_Hash H (sorted_directory nodes)))))"

end
