(* ===== verification/Merkle_Walk.thy ===== *)
theory Merkle_Walk
  imports Merkle "HOL-Library.Sublist"
begin

text \<open>
  What the walk over a tree records: the node of every file and the children of every directory, each under its
  path and its depth, and exactly when it succeeds.
\<close>

section \<open>Paths\<close>

definition good_name :: "string \<Rightarrow> bool" where
  "good_name c \<longleftrightarrow> c \<noteq> [] \<and> CHR ''/'' \<notin> set c \<and> c \<noteq> ''.'' \<and> c \<noteq> ''..''"

abbreviation slashed :: "string list \<Rightarrow> string" where "slashed p \<equiv> join_with ''/'' p"

abbreviation segs :: "string \<Rightarrow> string list" where "segs s \<equiv> split_on CHR ''/'' s"

lemma segs_slashed: "p \<noteq> [] \<Longrightarrow> \<forall>c\<in>set p. good_name c \<Longrightarrow> segs (slashed p) = p"
proof (induction p)
  case (Cons c p)
  then show ?case by (cases p) (simp_all add: split_on_free split_on_append good_name_def)
qed simp

lemma slashed_segs: "slashed (segs s) = s"
  using join_split_on[of "CHR ''/''" s] by simp

lemma slashed_not_dot: "p \<noteq> [] \<Longrightarrow> \<forall>c\<in>set p. good_name c \<Longrightarrow> slashed p \<noteq> ''.''"
proof (cases p rule: rev_cases)
  case (snoc q c)
  assume p: "\<forall>c\<in>set p. good_name c" "p \<noteq> []"
  show ?thesis
  proof
    assume "slashed p = ''.''"
    then have "segs (slashed p) = [''.'']" by simp
    then have "p = [''.'']" using segs_slashed[OF p(2,1)] by simp
    then show False using p(1) by (simp add: good_name_def)
  qed
qed simp

lemma clean_good: "\<forall>c\<in>set p. good_name c \<Longrightarrow> foldl (clean_comp r) st p = rev p @ st"
  by (induction p arbitrary: st) (simp_all add: clean_comp.simps good_name_def)

lemma slashed_nonempty: "p \<noteq> [] \<Longrightarrow> \<forall>c\<in>set p. good_name c \<Longrightarrow> slashed p \<noteq> [] \<and> \<not> rooted (slashed p)"
proof (cases p)
  case (Cons c q)
  assume "\<forall>c\<in>set p. good_name c"
  then have "good_name c" using Cons by simp
  then obtain a c' where "c = a # c'" "a \<noteq> CHR ''/''" by (cases c) (auto simp: good_name_def)
  then show ?thesis using Cons by (cases q) (simp_all add: rooted_def)
qed simp

lemma path_Clean_good: "p \<noteq> [] \<Longrightarrow> \<forall>c\<in>set p. good_name c \<Longrightarrow> path_Clean (slashed p) = slashed p"
  using slashed_nonempty[of p] by (simp add: path_Clean_def segs_slashed clean_good)

lemma slashed_snoc: "p \<noteq> [] \<Longrightarrow> slashed (p @ [c]) = slashed p @ ''/'' @ c"
proof (induction p)
  case (Cons a p)
  then show ?case by (cases p) simp_all
qed simp

lemma path_Join_good:
  assumes "p \<noteq> []" "\<forall>c\<in>set p. good_name c" "good_name c"
  shows "path_Join_all [slashed p, c] = slashed (p @ [c])"
proof -
  have "slashed p \<noteq> []" "c \<noteq> []" using slashed_nonempty[OF assms(1,2)] assms(3) by (simp_all add: good_name_def)
  then have "path_Join_all [slashed p, c] = path_Clean (slashed (p @ [c]))"
    using assms(1) by (simp add: path_Join_all_def slashed_snoc)
  then show ?thesis using assms by (simp add: path_Clean_good)
qed

lemma path_Join_root: "good_name c \<Longrightarrow> path_Join_all [''.'', c] = c"
proof -
  assume c: "good_name c"
  have s: "segs (''./'' @ c) = [''.'', c]" using c by (simp add: good_name_def split_on_free)
  have "path_Join_all [''.'', c] = path_Clean (''./'' @ c)" using c by (simp add: path_Join_all_def good_name_def)
  also have "\<dots> = c" using c s by (simp add: path_Clean_def rooted_def clean_comp.simps good_name_def)
  finally show ?thesis .
qed

lemma path_Base_good: "good_name c \<Longrightarrow> path_Base (slashed (p @ [c])) = c"
proof -
  assume c: "good_name c"
  then have rc: "rev c \<noteq> []" "hd (rev c) \<noteq> CHR ''/''" by (auto simp: good_name_def) (metis hd_in_set rev_is_Nil_conv set_rev)
  have tail: "\<exists>x. slashed (p @ [c]) = x @ c \<and> (x = [] \<or> last x = CHR ''/'')"
    by (cases "p = []") (auto simp: slashed_snoc)
  then obtain x where x: "slashed (p @ [c]) = x @ c" "x = [] \<or> last x = CHR ''/''" by blast
  have "dropWhile (\<lambda>c. c = CHR ''/'') (rev (x @ c)) = rev (x @ c)" using rc by (cases "rev c") simp_all
  moreover have "takeWhile (\<lambda>c. c \<noteq> CHR ''/'') (rev (x @ c)) = rev c"
  proof -
    have "takeWhile (\<lambda>c. c \<noteq> CHR ''/'') (rev c @ rev x) = rev c @ takeWhile (\<lambda>c. c \<noteq> CHR ''/'') (rev x)"
      by (rule takeWhile_append2) (use c in \<open>auto simp: good_name_def\<close>)
    then show ?thesis using x(2) by (cases x rule: rev_cases) simp_all
  qed
  ultimately show ?thesis using c by (simp add: path_Base_def x(1) good_name_def)
qed

section \<open>Trees\<close>

fun fs_ok :: "fsNode \<Rightarrow> bool" and children_ok :: "(string \<times> fsNode) list \<Rightarrow> bool" where
  "fs_ok (FsDir i (Some cs)) \<longleftrightarrow> children_ok cs"
| "fs_ok (FsDir i None) \<longleftrightarrow> True"
| "fs_ok (FsFile i ct) \<longleftrightarrow> True"
| "fs_ok (FsOther i) \<longleftrightarrow> True"
| "children_ok [] \<longleftrightarrow> True"
| "children_ok ((c, d) # cs) \<longleftrightarrow> good_name c \<and> c \<notin> fst ` set cs \<and> fs_ok d \<and> children_ok cs"

fun descend :: "fsNode \<Rightarrow> string list \<Rightarrow> fsNode option" where
  "descend n [] = Some n"
| "descend (FsDir i (Some cs)) (c # q) = (case map_of cs c of None \<Rightarrow> None | Some d \<Rightarrow> descend d q)"
| "descend (FsDir i None) (c # q) = None"
| "descend (FsFile i ct) (c # q) = None"
| "descend (FsOther i) (c # q) = None"

text \<open>The node of a file and the children of a directory at a path.\<close>

definition file_at :: "(bytes \<Rightarrow> bytes) \<Rightarrow> fsNode \<Rightarrow> string list \<Rightarrow> fileNode option" where
  "file_at H n q = (case descend n q of Some (FsFile (Some i) (Some ct)) \<Rightarrow> Some (DefaultFileNode (H ct) i) | _ \<Rightarrow> None)"

definition dir_at :: "fsNode \<Rightarrow> string list \<Rightarrow> (string \<times> fsNode) list option" where
  "dir_at n q = (case descend n q of Some (FsDir i (Some cs)) \<Rightarrow> Some cs | _ \<Rightarrow> None)"

text \<open>When the walk below a node succeeds; \<open>c\<close> is the name of the node in its directory.\<close>

fun walkable :: "string \<Rightarrow> fsNode \<Rightarrow> bool" and all_walkable :: "(string \<times> fsNode) list \<Rightarrow> bool" where
  "walkable c (FsFile i ct) \<longleftrightarrow> i \<noteq> None \<and> ct \<noteq> None \<and> fst (the i) = c"
| "walkable c (FsDir i (Some cs)) \<longleftrightarrow> i \<noteq> None \<and> all_walkable cs"
| "walkable c (FsDir i None) \<longleftrightarrow> False"
| "walkable c (FsOther i) \<longleftrightarrow> False"
| "all_walkable [] \<longleftrightarrow> True"
| "all_walkable ((c, d) # cs) \<longleftrightarrow> walkable c d \<and> all_walkable cs"

section \<open>The walk\<close>

text \<open>A map of the paths below \<open>p\<close> from one of the paths within a tree.\<close>

definition below :: "string list \<Rightarrow> (string list \<Rightarrow> 'a option) \<Rightarrow> string \<Rightarrow> 'a option" where
  "below p f s = (if prefix p (segs s) then f (drop (length p) (segs s)) else None)"

definition at_children :: "(fsNode \<Rightarrow> string list \<Rightarrow> 'a option) \<Rightarrow> (string \<times> fsNode) list \<Rightarrow> string list \<Rightarrow> 'a option" where
  "at_children f cs q = (case q of [] \<Rightarrow> None | c # r \<Rightarrow> (case map_of cs c of None \<Rightarrow> None | Some d \<Rightarrow> f d r))"

definition unfinished :: "treeHasher \<Rightarrow> nat \<Rightarrow> string \<Rightarrow> (string \<times> fsNode) list option" where
  "unfinished t l s = map_of (inner (unfinishedDirByLevel t) l) s"

definition at_level :: "nat \<Rightarrow> (string \<Rightarrow> 'a option) \<Rightarrow> string \<Rightarrow> 'a option" where
  "at_level l f s = (if l = length (segs s) then f s else None)"

definition recorded :: "(bytes \<Rightarrow> bytes) \<Rightarrow> string list \<Rightarrow> (string list \<Rightarrow> fileNode option) \<Rightarrow> (string list \<Rightarrow> (string \<times> fsNode) list option) \<Rightarrow>
    treeHasher \<Rightarrow> treeHasher \<Rightarrow> bool" where
  "recorded H p files dirs t t' \<longleftrightarrow>
     map_of (fileNodes t') = map_of (fileNodes t) ++ below p files \<and>
     (\<forall>l. unfinished t' l = unfinished t l ++ at_level l (below p dirs)) \<and>
     dirNodes t' = dirNodes t \<and> rootChildren t' = rootChildren t \<and>
     ((\<forall>l. distinct_keys (inner (unfinishedDirByLevel t) l)) \<longrightarrow> (\<forall>l. distinct_keys (inner (unfinishedDirByLevel t') l)))"

lemma below_snoc:
  assumes "c \<notin> fst ` set cs"
  shows "below p (at_children f ((c, d) # cs)) = below (p @ [c]) (f d) ++ below p (at_children f cs)"
proof
  fix s
  have none: "map_of cs c = None" using assms by (simp add: map_of_eq_None_iff)
  show "below p (at_children f ((c, d) # cs)) s = (below (p @ [c]) (f d) ++ below p (at_children f cs)) s"
  proof (cases "prefix p (segs s)")
    case True
    then obtain r where r: "segs s = p @ r" by (auto elim: prefixE)
    show ?thesis by (cases r) (auto simp: below_def at_children_def map_add_def r none split: option.split)
  next
    case False
    then have "\<not> prefix (p @ [c]) (segs s)" by (auto dest: append_prefixD)
    with False show ?thesis by (simp add: below_def map_add_def)
  qed
qed

lemma at_level_add: "at_level l (f ++ g) = at_level l f ++ at_level l g"
  by (auto simp: at_level_def map_add_def fun_eq_iff split: option.split)

lemma recorded_trans:
  "recorded H p f d t t1 \<Longrightarrow> recorded H p' f' d' t1 t2 \<Longrightarrow> below p'' f'' = below p f ++ below p' f' \<Longrightarrow>
   below p'' d'' = below p d ++ below p' d' \<Longrightarrow> recorded H p'' f'' d'' t t2"
  by (simp add: recorded_def at_level_add map_add_assoc)

lemma below_empty: "below p (\<lambda>_. None) = Map.empty"
  by (simp add: below_def fun_eq_iff)

lemma below_here: "p \<noteq> [] \<Longrightarrow> \<forall>c\<in>set p. good_name c \<Longrightarrow> below p (\<lambda>q. if q = [] then v else None) = (\<lambda>s. if s = slashed p then v else None)"
proof
  fix s assume p: "p \<noteq> []" "\<forall>c\<in>set p. good_name c"
  have "prefix p (segs s) \<and> drop (length p) (segs s) = [] \<longleftrightarrow> segs s = p" by (auto elim!: prefixE)
  moreover have "segs s = p \<longleftrightarrow> s = slashed p" using segs_slashed[OF p] slashed_segs[of s] by auto
  ultimately show "below p (\<lambda>q. if q = [] then v else None) s = (if s = slashed p then v else None)"
    by (auto simp: below_def)
qed

lemma file_at_file: "file_at H (FsFile i ct) = (\<lambda>q. if q = [] then (case (i, ct) of (Some i, Some ct) \<Rightarrow> Some (DefaultFileNode (H ct) i) | _ \<Rightarrow> None) else None)"
proof
  fix q show "file_at H (FsFile i ct) q = (if q = [] then (case (i, ct) of (Some i, Some ct) \<Rightarrow> Some (DefaultFileNode (H ct) i) | _ \<Rightarrow> None) else None)"
    by (cases q) (auto simp: file_at_def split: option.split)
qed

lemma dir_at_file: "dir_at (FsFile i ct) = (\<lambda>_. None)"
proof
  fix q show "dir_at (FsFile i ct) q = None" by (cases q) (simp_all add: dir_at_def)
qed

lemma file_at_dir: "file_at H (FsDir i (Some cs)) = at_children (file_at H) cs"
proof
  fix q show "file_at H (FsDir i (Some cs)) q = at_children (file_at H) cs q"
    by (cases q) (auto simp: file_at_def at_children_def split: option.split)
qed

lemma dir_at_dir: "dir_at (FsDir i (Some cs)) = (\<lambda>q. if q = [] then Some cs else None) ++ at_children dir_at cs"
proof
  fix q show "dir_at (FsDir i (Some cs)) q = ((\<lambda>q. if q = [] then Some cs else None) ++ at_children dir_at cs) q"
    by (cases q) (auto simp: dir_at_def at_children_def map_add_def split: option.split)
qed

lemma below_add: "below p (f ++ g) = below p f ++ below p g"
  by (auto simp: below_def map_add_def fun_eq_iff split: option.split)

lemma level_update: "inner (AList.update l v m) k = (if k = l then v else inner m k)"
  by (simp add: inner_def alist_simps)

lemma collect_dir:
  assumes "p \<noteq> []" "\<forall>c\<in>set p. good_name c" "i \<noteq> None"
  shows "\<exists>t'. walkdDirCollector H (slashed p) (FsDir i (Some cs)) t = Inr t' \<and>
    recorded H p (\<lambda>_. None) (\<lambda>q. if q = [] then Some cs else None) t t'"
  using assms slashed_not_dot[OF assms(1,2)] segs_slashed[OF assms(1,2)]
  by (auto simp: walkdDirCollector_def recorded_def below_empty below_here unfinished_def level_update alist_simps at_level_def
      fun_eq_iff map_add_def distinct_keys_update Let_def)

lemma collect_file:
  assumes "p \<noteq> []" "\<forall>c\<in>set p. good_name c"
  shows "if walkable (last p) (FsFile i ct)
    then \<exists>t'. walkdDirCollector H (slashed p) (FsFile i ct) t = Inr t' \<and> recorded H p (file_at H (FsFile i ct)) (dir_at (FsFile i ct)) t t'
    else \<exists>e. walkdDirCollector H (slashed p) (FsFile i ct) t = Inl e"
proof -
  have base: "path_Base (slashed p) = last p"
    using assms path_Base_good[of "last p" "butlast p"] by simp
  show ?thesis
    using slashed_not_dot[OF assms]
    by (auto simp: walkdDirCollector_def collectRegularFile_def base recorded_def file_at_file dir_at_file below_empty below_here[OF assms]
        alist_simps fun_eq_iff map_add_def at_level_def unfinished_def Let_def split: option.split)
qed

lemma walk_spec:
  "p \<noteq> [] \<Longrightarrow> \<forall>c\<in>set p. good_name c \<Longrightarrow> fs_ok n \<Longrightarrow> s = slashed p \<Longrightarrow>
   if walkable (last p) n then \<exists>t'. walkDir H s n t = Inr t' \<and> recorded H p (file_at H n) (dir_at n) t t' else \<exists>e. walkDir H s n t = Inl e"
  "\<forall>c\<in>set p. good_name c \<Longrightarrow> children_ok cs \<Longrightarrow> s = (if p = [] then ''.'' else slashed p) \<Longrightarrow>
   if all_walkable cs then \<exists>t'. walk_children H s cs t = Inr t' \<and> recorded H p (at_children (file_at H) cs) (at_children dir_at cs) t t'
   else \<exists>e. walk_children H s cs t = Inl e"
proof (induction H s n t and H s cs t arbitrary: p and p rule: walkDir_walk_children.induct)
  case (1 H s i cs t)
  show ?case
  proof (cases i)
    case None
    then show ?thesis using 1(5) slashed_not_dot[OF 1(2,3)] by (simp add: walkdDirCollector_def Let_def)
  next
    case (Some inf)
    obtain t1 where t1: "walkdDirCollector H s (FsDir i (Some cs)) t = Inr t1"
      "recorded H p (\<lambda>_. None) (\<lambda>q. if q = [] then Some cs else None) t t1"
      using collect_dir[OF 1(2,3), of i H cs t] Some 1(5) by auto
    have "children_ok cs" using 1(4) by simp
    from 1(1)[OF t1(1) 1(3) this] 1(2,5) have IH: "if all_walkable cs
      then \<exists>t'. walk_children H s cs t1 = Inr t' \<and> recorded H p (at_children (file_at H) cs) (at_children dir_at cs) t1 t'
      else \<exists>e. walk_children H s cs t1 = Inl e" by simp
    have "recorded H p (file_at H (FsDir i (Some cs))) (dir_at (FsDir i (Some cs))) t t'"
      if "recorded H p (at_children (file_at H) cs) (at_children dir_at cs) t1 t'" for t'
      by (rule recorded_trans[OF t1(2) that]) (simp_all add: file_at_dir dir_at_dir below_empty below_add)
    with IH t1(1) Some show ?thesis by (auto split: if_splits)
  qed
next
  case (2 H s i t)
  then show ?case using slashed_not_dot[OF 2(1,2)] by (auto simp: walkdDirCollector_def Let_def split: option.split)
next
  case (3 H s i ct t)
  then show ?case using collect_file[OF 3(1,2)] by simp
next
  case (4 H s i t)
  then show ?case using slashed_not_dot[OF 4(1,2)] by (auto simp: walkdDirCollector_def Let_def split: option.split)
next
  case (5 H s t)
  then show ?case by (simp add: recorded_def below_def at_children_def fun_eq_iff map_add_def at_level_def split: list.split)
next
  case (6 H s c d cs t)
  have c: "good_name c" "c \<notin> fst ` set cs" "fs_ok d" "children_ok cs" using 6(4) by simp_all
  have join: "path_Join_all [s, c] = slashed (p @ [c])"
    using 6(3,5) c(1) path_Join_good[of p c] path_Join_root[of c] by (cases "p = []") simp_all
  have good: "\<forall>c\<in>set (p @ [c]). good_name c" using 6(3) c(1) by simp
  from 6(1)[OF _ good c(3) join] have here: "if walkable c d
    then \<exists>t'. walkDir H (path_Join_all [s, c]) d t = Inr t' \<and> recorded H (p @ [c]) (file_at H d) (dir_at d) t t'
    else \<exists>e. walkDir H (path_Join_all [s, c]) d t = Inl e" by simp
  show ?case
  proof (cases "walkable c d")
    case True
    then obtain t1 where t1: "walkDir H (path_Join_all [s, c]) d t = Inr t1" "recorded H (p @ [c]) (file_at H d) (dir_at d) t t1"
      using here by auto
    have "recorded H p (at_children (file_at H) ((c, d) # cs)) (at_children dir_at ((c, d) # cs)) t t'"
      if "recorded H p (at_children (file_at H) cs) (at_children dir_at cs) t1 t'" for t'
      by (rule recorded_trans[OF t1(2) that]) (rule below_snoc[OF c(2)])+
    with 6(2)[OF t1(1) 6(3) c(4) 6(5)] t1(1) True show ?thesis by (auto split: if_splits)
  next
    case False
    with here show ?thesis by auto
  qed
qed

end
