(* ===== verification/Merkle_Props.thy ===== *)
theory Merkle_Props
  imports Merkle_Walk
begin

text \<open>
  The properties of the tree hasher: the level-by-level construction computes the recursive Merkle hash and
  fails exactly on trees it does not support, and without collisions of the hash function the result determines
  the tree.
\<close>

section \<open>The recursive hash\<close>

fun ref_hash :: "(bytes \<Rightarrow> bytes) \<Rightarrow> fsNode \<Rightarrow> bytes"
  and ref_nodes :: "(bytes \<Rightarrow> bytes) \<Rightarrow> (string \<times> fsNode) list \<Rightarrow> fileNode list \<times> directoryNode list" where
  "ref_hash H (FsDir i (Some cs)) = Directory_Hash H (sorted_directory (ref_nodes H cs))"
| "ref_hash H (FsDir i None) = []"
| "ref_hash H (FsFile i ct) = []"
| "ref_hash H (FsOther i) = []"
| "ref_nodes H [] = ([], [])"
| "ref_nodes H ((c, d) # cs) =
     (let (files, dirs) = ref_nodes H cs in
      case d of
        FsFile i ct \<Rightarrow> (DefaultFileNode (H (the ct)) (the i) # files, dirs)
      | FsDir i kids \<Rightarrow> (files, \<lparr>dnName = c, dnHash = ref_hash H d\<rparr> # dirs)
      | FsOther i \<Rightarrow> (files, dirs))"

text \<open>
  The trees that are supported: files and directories only, all readable, every file under its own name, and
  no empty directory except the root.
\<close>

fun hashable :: "string \<Rightarrow> fsNode \<Rightarrow> bool" and all_hashable :: "(string \<times> fsNode) list \<Rightarrow> bool" where
  "hashable c (FsFile i ct) \<longleftrightarrow> i \<noteq> None \<and> ct \<noteq> None \<and> fst (the i) = c"
| "hashable c (FsDir i (Some cs)) \<longleftrightarrow> i \<noteq> None \<and> cs \<noteq> [] \<and> all_hashable cs"
| "hashable c (FsDir i None) \<longleftrightarrow> False"
| "hashable c (FsOther i) \<longleftrightarrow> False"
| "all_hashable [] \<longleftrightarrow> True"
| "all_hashable ((c, d) # cs) \<longleftrightarrow> hashable c d \<and> all_hashable cs"

lemma dir_at_Nil: "dir_at d [] \<noteq> Some [] \<longleftrightarrow> (\<forall>i. d \<noteq> FsDir i (Some []))"
  by (auto simp: dir_at_def split: fsNode.splits option.splits)

lemma hashable_iff:
  "fs_ok d \<Longrightarrow> hashable c d \<longleftrightarrow> walkable c d \<and> (\<forall>q. dir_at d q \<noteq> Some [])"
  "children_ok cs \<Longrightarrow> all_hashable cs \<longleftrightarrow> all_walkable cs \<and> (\<forall>q. at_children dir_at cs q \<noteq> Some [])"
proof (induction c d and cs rule: hashable_all_hashable.induct)
  case (1 c i ct)
  then show ?case by (simp add: dir_at_file)
next
  case (2 c i cs)
  have "dir_at (FsDir i (Some cs)) q = Some [] \<longleftrightarrow> q = [] \<and> cs = [] \<or> at_children dir_at cs q = Some []" for q
    by (cases q) (auto simp: dir_at_dir map_add_def at_children_def split: option.split)
  then show ?case using 2 by auto
next
  case (6 c d cs)
  have none: "map_of cs c = None" using 6(3) by (simp add: map_of_eq_None_iff)
  have "(\<forall>q. at_children dir_at ((c, d) # cs) q \<noteq> Some []) \<longleftrightarrow>
      (\<forall>q. dir_at d q \<noteq> Some []) \<and> (\<forall>q. at_children dir_at cs q \<noteq> Some [])"
  proof safe
    fix q assume all: "\<forall>q. at_children dir_at ((c, d) # cs) q \<noteq> Some []"
    show "dir_at d q = Some [] \<Longrightarrow> False" using all[rule_format, of "c # q"] by (simp add: at_children_def)
    show "at_children dir_at cs q = Some [] \<Longrightarrow> False"
      using all[rule_format, of q] none by (cases q) (auto simp: at_children_def split: if_splits)
  next
    fix q assume "\<forall>q. dir_at d q \<noteq> Some []" "\<forall>q. at_children dir_at cs q \<noteq> Some []" "at_children dir_at ((c, d) # cs) q = Some []"
    then show False by (cases q) (auto simp: at_children_def split: if_splits option.splits, metis at_children_def list.simps(5) option.simps(5))
  qed
  with 6 show ?case by auto
qed (simp_all add: at_children_def split: list.split)

section \<open>The levels\<close>

lemma descend_append: "descend n (p @ q) = Option.bind (descend n p) (\<lambda>d. descend d q)"
proof (induction n p rule: descend.induct)
  case (2 i cs c p)
  then show ?case by (simp split: option.split)
qed simp_all

lemma children_ok_mem: "children_ok cs \<Longrightarrow> (c, d) \<in> set cs \<Longrightarrow> good_name c \<and> fs_ok d \<and> map_of cs c = Some d"
  by (induction cs) (auto simp: rev_image_eqI)

lemma children_ok_distinct: "children_ok cs \<Longrightarrow> distinct_keys cs"
proof (induction cs)
  case (Cons p cs)
  then show ?case by (cases p) simp
qed simp

lemma descend_ok: "fs_ok n \<Longrightarrow> descend n q = Some d \<Longrightarrow> fs_ok d \<and> (\<forall>c\<in>set q. good_name c)"
proof (induction n q rule: descend.induct)
  case (2 i cs c q)
  then obtain e where e: "map_of cs c = Some e" "descend e q = Some d" by (auto split: option.splits)
  then show ?case using 2 children_ok_mem[of cs c e] by (auto dest: map_of_SomeD)
qed simp_all

lemma all_walkable_mem: "all_walkable cs \<Longrightarrow> (c, d) \<in> set cs \<Longrightarrow> walkable c d"
  by (induction cs) auto

lemma descend_walkable: "walkable b n \<Longrightarrow> descend n (q @ [c]) = Some d \<Longrightarrow> walkable c d"
proof (induction n q arbitrary: b rule: descend.induct)
  case (1 n)
  then show ?case
    by (cases "(b, n)" rule: walkable.cases) (auto split: option.splits dest: all_walkable_mem map_of_SomeD)
next
  case (2 i cs a q)
  then show ?case by (auto split: option.splits dest: all_walkable_mem map_of_SomeD)
qed simp_all

lemma ref_nodes_empty: "all_walkable cs \<Longrightarrow> ref_nodes H cs = ([], []) \<longleftrightarrow> cs = []"
proof (cases cs)
  case (Cons p cs')
  assume "all_walkable cs"
  then show ?thesis using Cons by (cases p; cases "snd p") (auto split: prod.splits)
qed simp

text \<open>The children of a directory, once the deeper directories are there.\<close>

lemma child_nodes_ref:
  assumes "all_walkable cs"
    and "\<And>c i ct. (c, FsFile (Some i) (Some ct)) \<in> set cs \<Longrightarrow> map_of (fileNodes t) (at c) = Some (DefaultFileNode (H ct) i)"
    and "\<And>c i kids. (c, FsDir i (Some kids)) \<in> set cs \<Longrightarrow>
      map_of (dirNodes t) (at c) = Some \<lparr>dnName = c, dnHash = ref_hash H (FsDir i (Some kids))\<rparr>"
  shows "child_nodes at t cs = Inr (ref_nodes H cs)"
  using assms
proof (induction cs)
  case (Cons p cs)
  obtain c d where p: "p = (c, d)" by (cases p)
  have w: "walkable c d" "all_walkable cs" using Cons.prems(1) p by simp_all
  have IH: "child_nodes at t cs = Inr (ref_nodes H cs)" by (rule Cons.IH) (simp_all only: w(2) Cons.prems list.set_intros)
  show ?case
  proof (cases d)
    case (FsFile i ct)
    then obtain i' ct' where "d = FsFile (Some i') (Some ct')" using w(1) by auto
    with Cons.prems(2)[of c i' ct'] IH p show ?thesis by (simp split: prod.split)
  next
    case (FsDir i kids)
    then obtain kids' where "d = FsDir i (Some kids')" using w(1) by (cases kids) auto
    with Cons.prems(3)[of c i kids'] IH p show ?thesis by (simp split: prod.split)
  next
    case (FsOther i)
    then show ?thesis using w(1) by simp
  qed
qed simp

text \<open>What is known of the hasher once all directories deeper than a level are built.\<close>

definition dir_val :: "(bytes \<Rightarrow> bytes) \<Rightarrow> fsNode \<Rightarrow> string \<Rightarrow> directoryNode" where
  "dir_val H R s = \<lparr>dnName = last (segs s), dnHash = ref_hash H (the (descend R (segs s)))\<rparr>"

definition collected :: "(bytes \<Rightarrow> bytes) \<Rightarrow> fsNode \<Rightarrow> treeHasher \<Rightarrow> bool" where
  "collected H R t \<longleftrightarrow> (\<forall>s. map_of (fileNodes t) s = file_at H R (segs s)) \<and>
     (\<forall>l s. unfinished t l s = at_level l (\<lambda>s. dir_at R (segs s)) s) \<and> dir_at R [] = Some (rootChildren t) \<and>
     (\<forall>l. distinct_keys (inner (unfinishedDirByLevel t) l))"

definition built :: "(bytes \<Rightarrow> bytes) \<Rightarrow> fsNode \<Rightarrow> nat \<Rightarrow> treeHasher \<Rightarrow> bool" where
  "built H R l t \<longleftrightarrow> collected H R t \<and> (\<forall>s. l < length (segs s) \<and> dir_at R (segs s) \<noteq> None \<longrightarrow> map_of (dirNodes t) s = Some (dir_val H R s))"

lemma built_update: "built H R l t \<Longrightarrow> built H R l (t\<lparr>dirNodes := AList.update s (dir_val H R s) (dirNodes t)\<rparr>)"
  by (simp add: built_def collected_def unfinished_def alist_simps)

lemma dir_at_Some: "dir_at n q = Some cs \<longleftrightarrow> (\<exists>i. descend n q = Some (FsDir i (Some cs)))"
  by (auto simp: dir_at_def split: option.splits fsNode.splits)

lemma segs_good: "fs_ok R \<Longrightarrow> dir_at R (segs s) = Some cs \<Longrightarrow> (\<forall>c\<in>set (segs s). good_name c) \<and> children_ok cs"
  using descend_ok[of R "segs s"] by (auto simp: dir_at_Some)

lemma nodes_below:
  assumes "fs_ok R" "walkable b R" "built H R (length p) t" "\<forall>c\<in>set p. good_name c" "dir_at R p = Some cs"
    and "\<And>c. good_name c \<Longrightarrow> at c = slashed (p @ [c])"
  shows "child_nodes at t cs = Inr (ref_nodes H cs)"
proof (rule child_nodes_ref)
  obtain i where d: "descend R p = Some (FsDir i (Some cs))" using assms(5) by (auto simp: dir_at_Some)
  have ok: "children_ok cs" using descend_ok[OF assms(1) d] by simp
  show "all_walkable cs"
  proof (cases p rule: rev_cases)
    case Nil
    then show ?thesis using d assms(2) by simp
  next
    case (snoc q c)
    then show ?thesis using descend_walkable[OF assms(2)] d by fastforce
  qed
  have child: "good_name c" "descend R (p @ [c]) = Some e" "segs (at c) = p @ [c]" if "(c, e) \<in> set cs" for c e
  proof -
    show c: "good_name c" using children_ok_mem[OF ok that] by blast
    show "descend R (p @ [c]) = Some e" using children_ok_mem[OF ok that] d by (simp add: descend_append)
    show "segs (at c) = p @ [c]" unfolding assms(6)[OF c] by (rule segs_slashed) (use assms(4) c in auto)
  qed
  show "map_of (fileNodes t) (at c) = Some (DefaultFileNode (H ct) j)" if m: "(c, FsFile (Some j) (Some ct)) \<in> set cs" for c j ct
    using assms(3) child(2,3)[OF m] by (simp add: built_def collected_def file_at_def)
  show "map_of (dirNodes t) (at c) = Some \<lparr>dnName = c, dnHash = ref_hash H (FsDir j (Some kids))\<rparr>"
    if m: "(c, FsDir j (Some kids)) \<in> set cs" for c j kids
    using assms(3) child(2,3)[OF m] by (simp add: built_def dir_at_def dir_val_def)
qed

lemma build_dir_ref:
  assumes "fs_ok R" "walkable b R" "built H R (length (segs s)) t" "dir_at R (segs s) = Some cs"
  shows "build_dir H s cs t = (if cs = [] then Inl (MkEmptyDir s)
    else Inr (t\<lparr>dirNodes := AList.update s (dir_val H R s) (dirNodes t)\<rparr>))"
proof -
  let ?p = "segs s"
  have good: "\<forall>c\<in>set ?p. good_name c" using segs_good[OF assms(1,4)] by blast
  obtain i where d: "descend R ?p = Some (FsDir i (Some cs))" using assms(4) by (auto simp: dir_at_Some)
  have nodes: "child_nodes (\<lambda>c. path_Join_all [s, c]) t cs = Inr (ref_nodes H cs)"
    using path_Join_good[OF _ good] by (intro nodes_below[OF assms(1-3) good assms(4)]) (simp add: slashed_segs)
  have "walkable (last ?p) (FsDir i (Some cs))"
    using descend_walkable[OF assms(2), of "butlast ?p" "last ?p"] d by simp
  then have "ref_nodes H cs = ([], []) \<longleftrightarrow> cs = []" by (intro ref_nodes_empty) simp
  moreover have "path_Base s = last ?p"
    using path_Base_good[of "last ?p" "butlast ?p"] good by (simp add: slashed_segs)
  moreover have "dir_val H R s = \<lparr>dnName = last ?p, dnHash = Directory_Hash H (sorted_directory (ref_nodes H cs))\<rparr>"
    by (simp add: dir_val_def d)
  ultimately show ?thesis using nodes by (cases "ref_nodes H cs") (auto simp: build_dir_def)
qed

lemma build_level_ref:
  assumes "fs_ok R" "walkable b R"
  shows "built H R l t \<Longrightarrow> \<forall>(s, cs)\<in>set ds. length (segs s) = l \<and> dir_at R (segs s) = Some cs \<Longrightarrow>
    if \<exists>s. (s, []) \<in> set ds then \<exists>e. build_level H ds t = Inl e
    else \<exists>t'. build_level H ds t = Inr t' \<and> built H R l t' \<and> unfinishedDirByLevel t' = unfinishedDirByLevel t \<and>
      (\<forall>s. map_of (dirNodes t') s = (if s \<in> fst ` set ds then Some (dir_val H R s) else map_of (dirNodes t) s))"
proof (induction ds arbitrary: t)
  case (Cons p ds)
  obtain s cs where p: "p = (s, cs)" by (cases p)
  let ?t = "t\<lparr>dirNodes := AList.update s (dir_val H R s) (dirNodes t)\<rparr>"
  have dir: "build_dir H s cs t = (if cs = [] then Inl (MkEmptyDir s) else Inr ?t)"
    using build_dir_ref[OF assms, of H s t cs] Cons.prems p by simp
  show ?case
  proof (cases "cs = []")
    case True
    then show ?thesis using dir p by (auto simp: image_iff)
  next
    case False
    have "if \<exists>s. (s, []) \<in> set ds then \<exists>e. build_level H ds ?t = Inl e
      else \<exists>t'. build_level H ds ?t = Inr t' \<and> built H R l t' \<and> unfinishedDirByLevel t' = unfinishedDirByLevel ?t \<and>
        (\<forall>s'. map_of (dirNodes t') s' = (if s' \<in> fst ` set ds then Some (dir_val H R s') else map_of (dirNodes ?t) s'))"
      using Cons.IH[OF built_update[OF Cons.prems(1), of s]] Cons.prems(2) by simp
    moreover have "(\<exists>s. (s, []) \<in> set (p # ds)) \<longleftrightarrow> (\<exists>s. (s, []) \<in> set ds)" using False p by auto
    ultimately show ?thesis using dir False p by (auto simp: alist_simps split: if_splits)
  qed
qed simp

lemma level_entries:
  assumes "collected H R t" "(s, cs) \<in> set (inner (unfinishedDirByLevel t) l)"
  shows "length (segs s) = l" "dir_at R (segs s) = Some cs"
proof -
  have "distinct_keys (inner (unfinishedDirByLevel t) l)" using assms(1) by (simp add: collected_def)
  then have "unfinished t l s = Some cs" using assms(2) by (simp add: unfinished_def)
  then show "length (segs s) = l" "dir_at R (segs s) = Some cs"
    using assms(1) by (simp_all add: collected_def at_level_def split: if_splits)
qed

lemma level_complete:
  "collected H R t \<Longrightarrow> dir_at R (segs s) = Some cs \<Longrightarrow> (s, cs) \<in> set (inner (unfinishedDirByLevel t) (length (segs s)))"
  using map_of_SomeD[of "inner (unfinishedDirByLevel t) (length (segs s))" s cs]
  by (simp add: collected_def unfinished_def at_level_def del: map_of_eq_Some_iff)

lemma build_levels_ref:
  assumes "fs_ok R" "walkable b R"
  shows "built H R l t \<Longrightarrow>
    if \<exists>s. length (segs s) \<le> l \<and> dir_at R (segs s) = Some [] then \<exists>e. build_levels H l t = Inl e
    else \<exists>t'. build_levels H l t = Inr t' \<and> built H R 0 t'"
proof (induction l arbitrary: t)
  case (Suc l)
  let ?ds = "inner (unfinishedDirByLevel t) (Suc l)"
  have t: "collected H R t" using Suc.prems by (simp add: built_def)
  have ds: "\<forall>(s, cs)\<in>set ?ds. length (segs s) = Suc l \<and> dir_at R (segs s) = Some cs" using level_entries[OF t] by auto
  have here: "(\<exists>s. (s, []) \<in> set ?ds) \<longleftrightarrow> (\<exists>s. length (segs s) = Suc l \<and> dir_at R (segs s) = Some [])"
    using ds level_complete[OF t, where cs = "[]"] by (auto, metis)
  show ?case
  proof (cases "\<exists>s. (s, []) \<in> set ?ds")
    case True
    with build_level_ref[OF assms Suc.prems ds] here show ?thesis by (auto split: if_splits)
  next
    case False
    then obtain t1 where t1: "build_level H ?ds t = Inr t1" "built H R (Suc l) t1"
      "\<forall>s. map_of (dirNodes t1) s = (if s \<in> fst ` set ?ds then Some (dir_val H R s) else map_of (dirNodes t) s)"
      using build_level_ref[OF assms Suc.prems ds] by auto
    have "map_of (dirNodes t1) s = Some (dir_val H R s)" if s: "l < length (segs s)" "dir_at R (segs s) \<noteq> None" for s
    proof (cases "length (segs s) = Suc l")
      case True
      obtain cs where "dir_at R (segs s) = Some cs" using s(2) by blast
      with level_complete[OF t this] True have "s \<in> fst ` set ?ds" by (auto simp: rev_image_eqI)
      with t1(3) show ?thesis by simp
    next
      case False
      then have "Suc l < length (segs s)" using s(1) by simp
      with t1(2) s(2) show ?thesis by (simp add: built_def)
    qed
    then have "built H R l t1" using t1(2) by (simp add: built_def)
    moreover have "(\<exists>s. length (segs s) \<le> Suc l \<and> dir_at R (segs s) = Some []) \<longleftrightarrow> (\<exists>s. length (segs s) \<le> l \<and> dir_at R (segs s) = Some [])"
      using False here by (auto simp: le_Suc_eq)
    ultimately show ?thesis using Suc.IH[of t1] t1(1) by simp
  qed
next
  case 0
  have "length (segs s) \<noteq> 0" for s by simp
  with 0 show ?case by auto
qed

section \<open>The whole build\<close>

lemma foldl_max: "m \<le> foldl (\<lambda>m l. if l > m then l else m) m ls \<and> (\<forall>l\<in>set ls. l \<le> foldl (\<lambda>m l. if l > m then l else m) (m :: nat) ls)"
proof (induction ls arbitrary: m)
  case (Cons l ls)
  show ?case using Cons[of "if l > m then l else m"] by (auto split: if_splits)
qed simp

lemma inner_key: "inner m l \<noteq> [] \<Longrightarrow> l \<in> fst ` set m"
  by (simp add: inner_def in_keys_iff split: option.splits)

abbreviation root_of :: "(string \<times> fsNode) list \<Rightarrow> fsNode" where
  "root_of cs \<equiv> FsDir (Some ([], 0)) (Some cs)"

lemma dir_at_root: "q \<noteq> [] \<Longrightarrow> dir_at (FsDir i (Some cs)) q = at_children dir_at cs q"
  by (cases q) (auto simp: dir_at_def at_children_def split: option.split)

lemma walk_root:
  assumes "children_ok cs"
  shows "if all_walkable cs
    then \<exists>t. walkDir H ''.'' (FsDir i (Some cs)) (t0\<lparr>fileNodes := [], dirNodes := [], unfinishedDirByLevel := [], rootChildren := []\<rparr>) = Inr t \<and>
      collected H (root_of cs) t
    else \<exists>e. walkDir H ''.'' (FsDir i (Some cs)) (t0\<lparr>fileNodes := [], dirNodes := [], unfinishedDirByLevel := [], rootChildren := []\<rparr>) = Inl e"
proof -
  let ?t = "t0\<lparr>fileNodes := [], dirNodes := [], unfinishedDirByLevel := [], rootChildren := cs\<rparr>"
  have "walkDir H ''.'' (FsDir i (Some cs)) (t0\<lparr>fileNodes := [], dirNodes := [], unfinishedDirByLevel := [], rootChildren := []\<rparr>) =
      walk_children H ''.'' cs ?t" by (simp add: walkdDirCollector_def)
  moreover have "collected H (root_of cs) t" if "recorded H [] (at_children (file_at H) cs) (at_children dir_at cs) ?t t" for t
  proof -
    have "unfinished ?t l = Map.empty" "distinct_keys (inner (unfinishedDirByLevel ?t) l)" for l
      by (simp_all add: unfinished_def inner_def fun_eq_iff)
    moreover have "dir_at (root_of cs) [] = Some cs" by (simp add: dir_at_def)
    ultimately show ?thesis using that by (simp add: recorded_def collected_def below_def file_at_dir dir_at_root at_level_def)
  qed
  ultimately show ?thesis using walk_spec(2)[of "[]" cs "''.''" H ?t] assms by (auto split: if_splits)
qed

lemma empty_dir_path:
  assumes "children_ok cs"
  shows "(\<exists>q. at_children dir_at cs q = Some []) \<longleftrightarrow> (\<exists>s. dir_at (root_of cs) (segs s) = Some [])"
proof
  assume "\<exists>q. at_children dir_at cs q = Some []"
  then obtain q where q: "at_children dir_at cs q = Some []" by blast
  then have "q \<noteq> []" by (auto simp: at_children_def)
  with q have d: "dir_at (root_of cs) q = Some []" by (simp add: dir_at_root)
  then have "\<forall>c\<in>set q. good_name c" using descend_ok[of "root_of cs" q] assms by (auto simp: dir_at_Some)
  with d \<open>q \<noteq> []\<close> show "\<exists>s. dir_at (root_of cs) (segs s) = Some []" using segs_slashed[of q] by metis
next
  assume "\<exists>s. dir_at (root_of cs) (segs s) = Some []"
  then show "\<exists>q. at_children dir_at cs q = Some []" by (auto simp: dir_at_root)
qed

definition max_level :: "treeHasher \<Rightarrow> nat" where
  "max_level t = foldl (\<lambda>m l. if l > m then l else m) 0 (map fst (unfinishedDirByLevel t))"

lemma level_bound:
  assumes "collected H R t" "dir_at R (segs s) = Some cs"
  shows "length (segs s) \<le> max_level t"
proof -
  have "inner (unfinishedDirByLevel t) (length (segs s)) \<noteq> []" using level_complete[OF assms] by auto
  then have "length (segs s) \<in> set (map fst (unfinishedDirByLevel t))" using inner_key by fastforce
  then show ?thesis using foldl_max unfolding max_level_def by blast
qed

lemma collected_built: "collected H R t \<Longrightarrow> built H R (max_level t) t"
  using level_bound by (fastforce simp: built_def)

lemma Build_tree_ref:
  assumes "children_ok cs"
  shows "if all_hashable cs then Build_tree H (FsDir i (Some cs)) t0 = Inr (ref_hash H (FsDir i (Some cs)))
    else \<exists>e. Build_tree H (FsDir i (Some cs)) t0 = Inl e"
proof (cases "all_walkable cs")
  case False
  then show ?thesis using walk_root[OF assms, of H i t0] hashable_iff(2)[OF assms] by (auto simp: Build_tree_def)
next
  case True
  let ?R = "root_of cs"
  have R: "fs_ok ?R" "walkable [] ?R" using assms True by simp_all
  obtain t1 where t1: "walkDir H ''.'' (FsDir i (Some cs)) (t0\<lparr>fileNodes := [], dirNodes := [], unfinishedDirByLevel := [], rootChildren := []\<rparr>) = Inr t1"
    "collected H ?R t1" using walk_root[OF assms, of H i t0] True by auto
  let ?max = "max_level t1"
  have max: "built H ?R ?max t1" by (rule collected_built[OF t1(2)])
  have "(\<exists>s. length (segs s) \<le> ?max \<and> dir_at ?R (segs s) = Some []) \<longleftrightarrow> (\<exists>s. dir_at ?R (segs s) = Some [])"
    using level_bound[OF t1(2)] by blast
  also have "\<dots> \<longleftrightarrow> \<not> all_hashable cs" using empty_dir_path[OF assms] hashable_iff(2)[OF assms] True by simp
  finally have "(\<exists>s. length (segs s) \<le> ?max \<and> dir_at ?R (segs s) = Some []) \<longleftrightarrow> \<not> all_hashable cs" .
  note levels = build_levels_ref[OF R max, unfolded this]
  show ?thesis
  proof (cases "all_hashable cs")
    case False
    then show ?thesis using levels t1(1) by (auto simp: Build_tree_def Let_def max_level_def)
  next
    case hashable: True
    then obtain t2 where t2: "build_levels H ?max t1 = Inr t2" "built H ?R 0 t2" using levels by auto
    have root: "rootChildren t2 = cs" using t2(2) by (simp add: built_def collected_def dir_at_def)
    have "child_nodes (\<lambda>c. c) t2 cs = Inr (ref_nodes H cs)"
      by (rule nodes_below[OF R, of H "[]"]) (use t2(2) in \<open>simp_all add: dir_at_def\<close>)
    then show ?thesis using hashable t1(1) t2(1) root by (simp add: Build_tree_def Let_def max_level_def)
  qed
qed

section \<open>Reading a tree off its hash\<close>

lemma metadataString_enc: "metadataString_Fingerprint = enc_string"
  by (simp add: fun_eq_iff metadataString_Fingerprint_def enc_string_def)

interpretation bytes_code: prefix_code metadataBytes_Fingerprint "\<lambda>m. length m < 2 ^ 64"
proof
  fix a b xs ys :: bytes
  assume l: "length a < 2 ^ 64" "length b < 2 ^ 64" and eq: "metadataBytes_Fingerprint a @ xs = metadataBytes_Fingerprint b @ ys"
  from eq have "(of_nat (length a) :: u64) = of_nat (length b) \<and> a @ xs = b @ ys"
    by (simp only: metadataBytes_Fingerprint_def append_assoc u64.prefix_eq_iff)
  with l have "length a = length b" "a @ xs = b @ ys" by (simp_all add: of_nat_u64_inject)
  then show "a = b \<and> xs = ys" by simp
qed

context prefix_code
begin

lemma slice_inject:
  assumes "length as < 2 ^ 64" "length bs < 2 ^ 64" "list_all ok as" "list_all ok bs"
    and eq: "metadataSlice_Fingerprint enc as @ xs = metadataSlice_Fingerprint enc bs @ ys"
  shows "as = bs \<and> xs = ys"
proof -
  from eq have "(of_nat (length as) :: u64) = of_nat (length bs) \<and> concat (map enc as) @ xs = concat (map enc bs) @ ys"
    by (simp only: metadataSlice_Fingerprint_def append_assoc u64.prefix_eq_iff)
  with assms(1-4) show ?thesis by (intro prefix_list) (simp_all only: of_nat_u64_inject)
qed

end

definition file_fits :: "fileNode \<Rightarrow> bool" where
  "file_fits n \<longleftrightarrow> short (fnName n) \<and> int64 (fnSize n) \<and> length (fnContentHash n) < 2 ^ 64 \<and> fnMtime n = 0"

definition dir_fits :: "directoryNode \<Rightarrow> bool" where
  "dir_fits n \<longleftrightarrow> short (dnName n) \<and> length (dnHash n) < 2 ^ 64"

interpretation file_code: prefix_code FileNode_Fingerprint file_fits
proof
  fix a b :: fileNode and xs ys
  assume ok: "file_fits a" "file_fits b" and eq: "FileNode_Fingerprint a @ xs = FileNode_Fingerprint b @ ys"
  from eq ok have f: "fnName a = fnName b \<and> (of_int (fnSize a) :: u64) = of_int (fnSize b) \<and> fnContentHash a = fnContentHash b \<and>
      fnMode a = fnMode b \<and> xs = ys"
    by (simp add: FileNode_Fingerprint_def metadataString_enc metadataSize_Fingerprint_def metadataTime_Fingerprint_def
        metadataMode_Fingerprint_def file_fits_def str_code.prefix_eq_iff u64.prefix_eq_iff u32.prefix_eq_iff bytes_code.prefix_eq_iff
        u64.enc_inject u32.enc_inject)
  moreover have "fnSize a = fnSize b"
    using f ok of_int_u64_inject[of "fnSize a" "fnSize b"] by (simp add: file_fits_def int64_def)
  ultimately show "a = b \<and> xs = ys" using ok by (simp add: file_fits_def)
qed

interpretation dir_code: prefix_code DirectoryNode_Fingerprint dir_fits
proof
  fix a b :: directoryNode and xs ys
  assume "dir_fits a" "dir_fits b" "DirectoryNode_Fingerprint a @ xs = DirectoryNode_Fingerprint b @ ys"
  then show "a = b \<and> xs = ys"
    by (simp add: DirectoryNode_Fingerprint_def metadataString_enc dir_fits_def str_code.prefix_eq_iff bytes_code.prefix_eq_iff)
qed

text \<open>Children in the order \<^verbatim>\<open>ReadDir\<close> lists them, with names, sizes and counts within their widths.\<close>

fun listed :: "fsNode \<Rightarrow> bool" and listed_children :: "(string \<times> fsNode) list \<Rightarrow> bool" where
  "listed (FsDir i (Some cs)) \<longleftrightarrow> length cs < 2 ^ 64 \<and> sorted_wrt (<) (map fst cs) \<and> listed_children cs"
| "listed (FsDir i None) \<longleftrightarrow> True"
| "listed (FsFile i ct) \<longleftrightarrow> int64 (snd (the i))"
| "listed (FsOther i) \<longleftrightarrow> True"
| "listed_children [] \<longleftrightarrow> True"
| "listed_children ((c, d) # cs) \<longleftrightarrow> short c \<and> listed d \<and> listed_children cs"

text \<open>A tree without what \<^verbatim>\<open>Info\<close> says of its directories, which the hash does not cover.\<close>

fun erase :: "fsNode \<Rightarrow> fsNode" and erase_children :: "(string \<times> fsNode) list \<Rightarrow> (string \<times> fsNode) list" where
  "erase (FsDir i (Some cs)) = FsDir None (Some (erase_children cs))"
| "erase (FsDir i None) = FsDir None None"
| "erase (FsFile i ct) = FsFile i ct"
| "erase (FsOther i) = FsOther i"
| "erase_children [] = []"
| "erase_children ((c, d) # cs) = (c, erase d) # erase_children cs"

text \<open>Everything that is hashed for a tree.\<close>

fun hashed :: "(bytes \<Rightarrow> bytes) \<Rightarrow> fsNode \<Rightarrow> bytes set" and hashed_children :: "(bytes \<Rightarrow> bytes) \<Rightarrow> (string \<times> fsNode) list \<Rightarrow> bytes set" where
  "hashed H (FsDir i (Some cs)) = insert (directory_text (sorted_directory (ref_nodes H cs))) (hashed_children H cs)"
| "hashed H (FsDir i None) = {}"
| "hashed H (FsFile i ct) = {the ct}"
| "hashed H (FsOther i) = {}"
| "hashed_children H [] = {}"
| "hashed_children H ((c, d) # cs) = hashed H d \<union> hashed_children H cs"

lemma hashed_mem: "(c, d) \<in> set cs \<Longrightarrow> hashed H d \<subseteq> hashed_children H cs"
  by (induction cs) auto

lemma erase_children_map: "erase_children cs = map (\<lambda>(c, d). (c, erase d)) cs"
  by (induction cs) auto

fun is_file :: "fsNode \<Rightarrow> bool" where
  "is_file (FsFile i ct) = True" | "is_file (FsDir i cs) = False" | "is_file (FsOther i) = False"

fun file_node :: "(bytes \<Rightarrow> bytes) \<Rightarrow> string \<times> fsNode \<Rightarrow> fileNode" where
  "file_node H (c, FsFile i ct) = DefaultFileNode (H (the ct)) (the i)"
| "file_node H (c, FsDir i cs) = zero_fileNode"
| "file_node H (c, FsOther i) = zero_fileNode"

lemma ref_nodes_eq:
  "all_hashable cs \<Longrightarrow> ref_nodes H cs = (map (file_node H) (filter (\<lambda>(c, d). is_file d) cs),
     map (\<lambda>(c, d). \<lparr>dnName = c, dnHash = ref_hash H d\<rparr>) (filter (\<lambda>(c, d). \<not> is_file d) cs))"
proof (induction cs)
  case (Cons p cs)
  obtain c d where p: "p = (c, d)" by (cases p)
  with Cons show ?case by (cases d) simp_all
qed simp

lemma all_hashable_mem: "all_hashable cs \<Longrightarrow> (c, d) \<in> set cs \<Longrightarrow> hashable c d"
  by (induction cs) auto

lemma listed_mem: "listed_children cs \<Longrightarrow> (c, d) \<in> set cs \<Longrightarrow> short c \<and> listed d"
  by (induction cs) auto

lemma file_node_name: "hashable c d \<Longrightarrow> is_file d \<Longrightarrow> fnName (file_node H (c, d)) = c"
  by (cases d) (simp_all add: DefaultFileNode_def)

lemma sorted_filter_key:
  assumes "sorted_wrt (<) (map fst cs)" "\<And>c d. (c, d) \<in> set cs \<Longrightarrow> P (c, d) \<Longrightarrow> k (f (c, d)) = (c :: string)"
  shows "sort_key k (map f (filter P cs)) = map f (filter P cs)"
proof (rule sort_key_id_if_sorted)
  have "map k (map f (filter P cs)) = map fst (filter P cs)" using assms(2) by auto
  moreover have "sorted (map fst (filter P cs))"
  proof (rule strict_sorted_imp_sorted)
    have "sorted_wrt (\<lambda>x y. fst x < fst y) (filter P cs)" using assms(1) by (intro sorted_wrt_filter) (simp add: sorted_wrt_map)
    then show "sorted_wrt (<) (map fst (filter P cs))" by (simp add: sorted_wrt_map)
  qed
  ultimately show "sorted (map k (map f (filter P cs)))" by (simp only:)
qed

lemma sorted_directory_ref:
  assumes "all_hashable cs" "sorted_wrt (<) (map fst cs)"
  shows "sorted_directory (ref_nodes H cs) = \<lparr>dirFiles = fst (ref_nodes H cs), dirDirectories = snd (ref_nodes H cs)\<rparr>"
proof -
  have "sort_key fnName (map (file_node H) (filter (\<lambda>(c, d). is_file d) cs)) = map (file_node H) (filter (\<lambda>(c, d). is_file d) cs)"
    by (rule sorted_filter_key[OF assms(2)]) (use all_hashable_mem[OF assms(1)] file_node_name in auto)
  moreover have "sort_key dnName (map (\<lambda>(c, d). \<lparr>dnName = c, dnHash = ref_hash H d\<rparr>) (filter (\<lambda>(c, d). \<not> is_file d) cs)) =
      map (\<lambda>(c, d). \<lparr>dnName = c, dnHash = ref_hash H d\<rparr>) (filter (\<lambda>(c, d). \<not> is_file d) cs)"
    by (rule sorted_filter_key[OF assms(2)]) simp
  ultimately show ?thesis by (simp add: ref_nodes_eq[OF assms(1)] sorted_directory_def)
qed

lemma ref_hash_nodes:
  assumes "inj_on H (hashed H (FsDir i (Some cs)) \<union> hashed H (FsDir j (Some cs')))" "\<And>x. length (H x) < 2 ^ 64"
    and "all_hashable cs" "listed (FsDir i (Some cs))" "all_hashable cs'" "listed (FsDir j (Some cs'))"
    and "ref_hash H (FsDir i (Some cs)) = ref_hash H (FsDir j (Some cs'))"
  shows "ref_nodes H cs = ref_nodes H cs'"
proof -
  have ok: "length (fst (ref_nodes H cs)) < 2 ^ 64 \<and> length (snd (ref_nodes H cs)) < 2 ^ 64 \<and>
      list_all file_fits (fst (ref_nodes H cs)) \<and> list_all dir_fits (snd (ref_nodes H cs))"
    if "all_hashable cs" "listed (FsDir i (Some cs))" for cs i
  proof -
    have l: "length (filter P cs) < 2 ^ 64" for P using that(2) length_filter_le[of P cs] by (simp del: length_filter_le)
    have f: "file_fits (file_node H (c, d))" if m: "(c, d) \<in> set cs" "is_file d" for c d
      using listed_mem[of cs c d] all_hashable_mem[OF \<open>all_hashable cs\<close> m(1)] \<open>listed (FsDir i (Some cs))\<close> m assms(2)
      by (cases d) (auto simp: file_fits_def DefaultFileNode_def)
    have g: "dir_fits \<lparr>dnName = c, dnHash = ref_hash H d\<rparr>" if m: "(c, d) \<in> set cs" "\<not> is_file d" for c d
      using listed_mem[of cs c d] \<open>listed (FsDir i (Some cs))\<close> m assms(2)
      by (cases "(H, d)" rule: ref_hash.cases) (auto simp: dir_fits_def Directory_Hash_def)
    show ?thesis using l f g by (auto simp: ref_nodes_eq[OF that(1)] list_all_iff)
  qed
  have "sorted_wrt (<) (map fst cs)" "sorted_wrt (<) (map fst cs')" using assms(4,6) by simp_all
  note sd = sorted_directory_ref[OF assms(3) this(1)] sorted_directory_ref[OF assms(5) this(2)]
  have "directory_text (sorted_directory (ref_nodes H cs)) = directory_text (sorted_directory (ref_nodes H cs'))"
  proof (rule inj_onD[OF assms(1)])
    show "H (directory_text (sorted_directory (ref_nodes H cs))) = H (directory_text (sorted_directory (ref_nodes H cs')))"
      using assms(7) by (simp only: ref_hash.simps Directory_Hash_def)
  qed (simp_all only: hashed.simps Un_iff insert_iff simp_thms)
  then have eq: "metadataSlice_Fingerprint FileNode_Fingerprint (fst (ref_nodes H cs)) @ metadataSlice_Fingerprint DirectoryNode_Fingerprint (snd (ref_nodes H cs)) @ [] =
      metadataSlice_Fingerprint FileNode_Fingerprint (fst (ref_nodes H cs')) @ metadataSlice_Fingerprint DirectoryNode_Fingerprint (snd (ref_nodes H cs')) @ []"
    by (simp add: sd directory_text_def)
  note o1 = ok[OF assms(3,4)] and o2 = ok[OF assms(5,6)]
  from file_code.slice_inject[OF _ _ _ _ eq] o1 o2 have f: "fst (ref_nodes H cs) = fst (ref_nodes H cs')"
    and d: "metadataSlice_Fingerprint DirectoryNode_Fingerprint (snd (ref_nodes H cs)) @ [] = metadataSlice_Fingerprint DirectoryNode_Fingerprint (snd (ref_nodes H cs')) @ []"
    by blast+
  from dir_code.slice_inject[OF _ _ _ _ d] o1 o2 f show ?thesis by (simp add: prod_eq_iff)
qed

lemma same_pairs:
  assumes "sorted_wrt (<) (map fst xs)" "sorted_wrt (<) (map fst ys)" "set xs = set (ys :: (string \<times> 'a) list)"
  shows "xs = ys"
proof -
  have "map fst xs = map fst ys" using assms by (intro strict_sorted_equal) (simp_all add: set_map)
  moreover have "inj_on fst (set xs)" using assms(1) by (simp add: strict_sorted_iff distinct_map)
  ultimately show ?thesis using assms(3) by (intro map_inj_on[of fst]) simp_all
qed

lemma erase_from_nodes:
  assumes inj: "inj_on H (hashed_children H cs \<union> hashed_children H cs')" and nodes: "ref_nodes H cs = ref_nodes H cs'"
    and ok: "all_hashable cs" "all_hashable cs'" "listed_children cs" "listed_children cs'"
    and IH: "\<And>c d d'. (c, d) \<in> set cs \<Longrightarrow> \<not> is_file d \<Longrightarrow> (c, d') \<in> set cs' \<Longrightarrow> \<not> is_file d' \<Longrightarrow> hashable c d' \<Longrightarrow> listed d' \<Longrightarrow>
      ref_hash H d = ref_hash H d' \<Longrightarrow> erase d = erase d'"
  shows "set (erase_children cs) = set (erase_children cs')"
proof -
  let ?F = "\<lambda>cs. {p \<in> set cs. is_file (snd p)}" and ?D = "\<lambda>cs. {p \<in> set cs. \<not> is_file (snd p)}"
  have files: "file_node H ` ?F cs = file_node H ` ?F cs'"
    and dirs: "(\<lambda>(c, d). (c, ref_hash H d)) ` ?D cs = (\<lambda>(c, d). (c, ref_hash H d)) ` ?D cs'"
  proof -
    have "set (fst (ref_nodes H cs)) = set (fst (ref_nodes H cs'))"
      "(\<lambda>n. (dnName n, dnHash n)) ` set (snd (ref_nodes H cs)) = (\<lambda>n. (dnName n, dnHash n)) ` set (snd (ref_nodes H cs'))"
      using nodes by simp_all
    then show "file_node H ` ?F cs = file_node H ` ?F cs'"
      "(\<lambda>(c, d). (c, ref_hash H d)) ` ?D cs = (\<lambda>(c, d). (c, ref_hash H d)) ` ?D cs'"
      by (simp_all add: ref_nodes_eq[OF ok(1)] ref_nodes_eq[OF ok(2)] case_prod_beta image_image)
  qed
  have same_file: "p = p'" if m: "p \<in> ?F xs" "p' \<in> ?F ys" "all_hashable xs" "all_hashable ys" "file_node H p = file_node H p'"
    "hashed_children H xs \<union> hashed_children H ys \<subseteq> hashed_children H cs \<union> hashed_children H cs'" for p p' xs ys
  proof -
    obtain c d c' d' where p: "p = (c, d)" "p' = (c', d')" by (cases p; cases p')
    obtain i ct i' ct' where d: "d = FsFile i ct" "d' = FsFile i' ct'" using m(1,2) p by (cases d; cases d') simp_all
    have h: "hashable c d" "hashable c' d'" using m p all_hashable_mem by blast+
    have "the ct \<in> hashed_children H xs" "the ct' \<in> hashed_children H ys"
      using m(1,2) hashed_mem[of c d xs H] hashed_mem[of c' d' ys H] by (auto simp: p d)
    then have "the ct = the ct'" using inj m(5,6) by (auto simp: p d DefaultFileNode_def inj_on_def)
    then show ?thesis using h m(5) by (auto simp: p d DefaultFileNode_def prod_eq_iff)
  qed
  have "?F cs \<subseteq> ?F cs'" "?F cs' \<subseteq> ?F cs"
  proof -
    show "?F cs \<subseteq> ?F cs'"
    proof
      fix p assume p: "p \<in> ?F cs"
      then have "file_node H p \<in> file_node H ` ?F cs'" using files by blast
      then obtain p' where "p' \<in> ?F cs'" "file_node H p = file_node H p'" by blast
      with same_file[OF p this(1) ok(1,2) this(2)] show "p \<in> ?F cs'" by blast
    qed
    show "?F cs' \<subseteq> ?F cs"
    proof
      fix p assume p: "p \<in> ?F cs'"
      then have "file_node H p \<in> file_node H ` ?F cs" using files by blast
      then obtain p' where "p' \<in> ?F cs" "file_node H p = file_node H p'" by blast
      with same_file[OF p this(1) ok(2,1) this(2)] show "p \<in> ?F cs" by blast
    qed
  qed
  moreover have "\<exists>d'. (c, d') \<in> ?D cs' \<and> erase d = erase d'" if "(c, d) \<in> ?D cs" for c d
  proof -
    have "(c, ref_hash H d) \<in> (\<lambda>(c, d). (c, ref_hash H d)) ` ?D cs'" using that dirs by force
    then obtain d' where d': "(c, d') \<in> ?D cs'" "ref_hash H d = ref_hash H d'" by auto
    then show ?thesis using IH[of c d d'] that all_hashable_mem[OF ok(2), of c d'] listed_mem[OF ok(4), of c d'] by auto
  qed
  moreover have "\<exists>d. (c, d) \<in> ?D cs \<and> erase d = erase d'" if "(c, d') \<in> ?D cs'" for c d'
  proof -
    have "(c, ref_hash H d') \<in> (\<lambda>(c, d). (c, ref_hash H d)) ` ?D cs" using that dirs by force
    then obtain d where d: "(c, d) \<in> ?D cs" "ref_hash H d = ref_hash H d'" by auto
    then show ?thesis using IH[of c d d'] that all_hashable_mem[OF ok(2), of c d'] listed_mem[OF ok(4), of c d'] by auto
  qed
  ultimately show ?thesis unfolding erase_children_map set_map by (fastforce simp: image_iff)
qed

lemma erase_sorted: "listed (FsDir i (Some cs)) \<Longrightarrow> sorted_wrt (<) (map fst (erase_children cs))"
  by (simp add: erase_children_map comp_def case_prod_beta)

lemma ref_hash_determines:
  assumes "\<And>x. length (H x) < 2 ^ 64"
  shows "hashable c d \<Longrightarrow> listed d \<Longrightarrow> \<not> is_file d \<Longrightarrow> hashable c' d' \<Longrightarrow> listed d' \<Longrightarrow> \<not> is_file d' \<Longrightarrow>
    ref_hash H d = ref_hash H d' \<Longrightarrow> inj_on H (hashed H d \<union> hashed H d') \<Longrightarrow> erase d = erase d'"
proof (induction "size d" arbitrary: c d c' d' rule: less_induct)
  case less
  obtain i cs where d: "d = FsDir i (Some cs)" using less.prems(1,3) by (cases "(c, d)" rule: hashable.cases) auto
  obtain j cs' where d': "d' = FsDir j (Some cs')" using less.prems(4,6) by (cases "(c', d')" rule: hashable.cases) auto
  have ok: "all_hashable cs" "all_hashable cs'" "listed_children cs" "listed_children cs'" using less.prems d d' by simp_all
  have nodes: "ref_nodes H cs = ref_nodes H cs'"
    by (rule ref_hash_nodes[OF _ assms ok(1) _ ok(2)]) (use less.prems d d' in simp_all)
  have "set (erase_children cs) = set (erase_children cs')"
  proof (rule erase_from_nodes[OF _ nodes ok])
    show inj: "inj_on H (hashed_children H cs \<union> hashed_children H cs')"
      by (rule inj_on_subset[OF less.prems(8)]) (auto simp: d d')
    fix b e e' assume e: "(b, e) \<in> set cs" "\<not> is_file e" "(b, e') \<in> set cs'" "\<not> is_file e'" "hashable b e'" "listed e'" "ref_hash H e = ref_hash H e'"
    have "size e \<le> size_list (size_prod (\<lambda>_. 0) size) cs" using e(1) by (intro size_list_estimation'[of "(b, e)"]) simp_all
    then have "size e < size d" by (simp add: d)
    then show "erase e = erase e'"
      using less.hyps[of e b b e'] e all_hashable_mem[OF ok(1) e(1)] listed_mem[OF ok(3) e(1)]
        inj_on_subset[OF inj, of "hashed H e \<union> hashed H e'"] hashed_mem[OF e(1), of H] hashed_mem[OF e(3), of H] by blast
  qed
  then have "erase_children cs = erase_children cs'"
    using erase_sorted less.prems(2,5) d d' by (intro same_pairs) blast+
  then show ?case by (simp add: d d')
qed

section \<open>Properties\<close>

text \<open>
  C7. Building the hash of a tree level by level, from the deepest directories up, gives the recursive Merkle
  hash: of a directory, the hash of its files and subdirectories sorted by name.  It fails exactly when some
  node below the root cannot be read, is neither a file nor a directory, is a file under another name, or is an
  empty directory; what an earlier build left in the hasher does not matter.
\<close>
theorem tree_hash_is_merkle:
  assumes "children_ok cs"
  shows "if all_hashable cs then Build_tree H (FsDir i (Some cs)) t0 = Inr (ref_hash H (FsDir i (Some cs)))
    else \<exists>e. Build_tree H (FsDir i (Some cs)) t0 = Inl e"
  by (rule Build_tree_ref[OF assms])

text \<open>
  C40. As long as the hash function has no collision among what is hashed for two trees, the hash of a tree
  determines the tree: trees with equal hashes have the same files under the same paths, with the same sizes and
  contents, and the same directories.
\<close>
theorem tree_hash_determines_tree:
  assumes "inj_on H (hashed H (FsDir i (Some cs)) \<union> hashed H (FsDir j (Some cs')))" "\<forall>x. length (H x) < 2 ^ 64"
    and "children_ok cs" "listed (FsDir i (Some cs))" "children_ok cs'" "listed (FsDir j (Some cs'))"
    and "Build_tree H (FsDir i (Some cs)) t = Inr h" "Build_tree H (FsDir j (Some cs')) t' = Inr h"
  shows "erase (FsDir i (Some cs)) = erase (FsDir j (Some cs'))"
proof -
  have h: "all_hashable cs" "all_hashable cs'" "ref_hash H (FsDir i (Some cs)) = ref_hash H (FsDir j (Some cs'))"
    using Build_tree_ref[OF assms(3), of H i t] Build_tree_ref[OF assms(5), of H j t'] assms(7,8) by (auto split: if_splits)
  show ?thesis
  proof (cases "cs = [] \<or> cs' = []")
    case True
    have "ref_nodes H cs = ref_nodes H cs'"
      by (rule ref_hash_nodes[OF assms(1) _ h(1) assms(4) h(2) assms(6) h(3)]) (use assms(2) in blast)
    moreover have "all_walkable cs" "all_walkable cs'" using h hashable_iff(2) assms(3,5) by blast+
    ultimately have "cs = []" "cs' = []" using True ref_nodes_empty by (metis ref_nodes.simps(1))+
    then show ?thesis by simp
  next
    case False
    let ?d = "FsDir (Some ([], 0)) (Some cs)" and ?d' = "FsDir (Some ([], 0)) (Some cs')"
    have "erase ?d = erase ?d'"
      by (rule ref_hash_determines[of H "[]" _ "[]"]) (use assms(1,2,4,6) h False in simp_all)
    then show ?thesis by simp
  qed
qed

section \<open>Witnesses\<close>

definition demo_tree :: "int \<Rightarrow> (string \<times> fsNode) list" where
  "demo_tree n = [(''a'', FsFile (Some (''a'', 1)) (Some [7])), (''d'', FsDir (Some (''d'', n)) (Some [(''x'', FsFile (Some (''x'', 1)) (Some [9]))]))]"

lemma demo_tree_ok: "children_ok (demo_tree n)" "all_hashable (demo_tree n)" "listed (FsDir i (Some (demo_tree n)))"
  by (simp_all add: demo_tree_def good_name_def short_def int64_def less_char_def)

theorem tree_hash_is_merkle_witness:
  "Build_tree (\<lambda>x. take 4 x) (FsDir None (Some (demo_tree 0))) NewTreeHasher = Inr (ref_hash (\<lambda>x. take 4 x) (FsDir None (Some (demo_tree 0))))"
  using tree_hash_is_merkle[OF demo_tree_ok(1), of 0 "\<lambda>x. take 4 x" None NewTreeHasher] demo_tree_ok(2) by simp

lemma demo_hashed: "x \<in> hashed (take 1000) (FsDir None (Some (demo_tree n))) \<Longrightarrow> length x \<le> 1000"
  by (auto simp: demo_tree_def directory_text_def sorted_directory_def metadataSlice_Fingerprint_def FileNode_Fingerprint_def
      DirectoryNode_Fingerprint_def metadataString_Fingerprint_def metadataBytes_Fingerprint_def metadataSize_Fingerprint_def
      metadataTime_Fingerprint_def metadataMode_Fingerprint_def DefaultFileNode_def Directory_Hash_def)

theorem tree_hash_determines_tree_witness:
  "erase (FsDir None (Some (demo_tree 0))) = erase (FsDir None (Some (demo_tree 5)))"
proof -
  let ?H = "take 1000" and ?t = "\<lambda>n. FsDir None (Some (demo_tree n))"
  have "inj_on ?H (hashed ?H (?t 0) \<union> hashed ?H (?t 5))" 
  proof (rule inj_onI)
    fix x y assume m: "x \<in> hashed ?H (?t 0) \<union> hashed ?H (?t 5)" "y \<in> hashed ?H (?t 0) \<union> hashed ?H (?t 5)" and eq: "?H x = ?H y"
    have "length x \<le> 1000" "length y \<le> 1000" using m demo_hashed by blast+
    with eq show "x = y" by simp
  qed
  moreover have "\<forall>x. length (take 1000 x :: bytes) < 2 ^ 64" by (simp add: min_less_iff_disj)
  moreover have "Build_tree ?H (?t n) NewTreeHasher = Inr (ref_hash ?H (?t n))" for n
    using Build_tree_ref[OF demo_tree_ok(1), of n ?H None NewTreeHasher] demo_tree_ok(2) by simp
  moreover have "ref_hash ?H (?t 5) = ref_hash ?H (?t 0)" by (simp add: demo_tree_def)
  ultimately show ?thesis
    using tree_hash_determines_tree[OF _ _ demo_tree_ok(1,3) demo_tree_ok(1,3), of ?H None 0 None 5 NewTreeHasher _ NewTreeHasher] by metis
qed

end
