(* ===== verification/Spec2Isabelle.thy ===== *)
theory Spec2Isabelle
  imports Registry_Server Registry_Witnesses Compact_Witnesses Content_Manifest Tarcas_Witnesses Digestfs Slot_Pool_Props Ztoc_Props Mtree_Props Merkle_Props
begin

text \<open>
  A verification library for \<^verbatim>\<open>rules_img\<close>, the Bazel rules and the \<^verbatim>\<open>img\<close> tool that build container
  images and push them to registries.

  \<^bold>\<open>The program.\<close>  The tool writes the files of a layer into a tar archive, stores equal contents
  once and links the other names to them (\<^verbatim>\<open>pkg/tarcas\<close>), compresses the archive while it hashes and
  counts it, possibly continuing an archive of an earlier run (\<^verbatim>\<open>pkg/compress\<close>), records which contents a
  layer holds (\<^verbatim>\<open>pkg/contentmanifest\<close>), and writes beside the layer a compact stream from which the
  archive can be rebuilt out of a content-addressed store (\<^verbatim>\<open>pkg/compactstream\<close>).  Images are served by
  an in-process registry with a garbage collector (\<^verbatim>\<open>pkg/registry\<close>), and requests to remote registries
  pass a pool that bounds how many are in flight (\<^verbatim>\<open>pkg/registryopts/concurrency.go\<close>).  All paths are
  under \<^verbatim>\<open>src/img_tool\<close>.

  \<^bold>\<open>Shared vocabulary.\<close>  \<^verbatim>\<open>Prelude\<close> has byte strings, Go slices, big-endian integers, maps as
  association lists, readers, decimal printing, and the locales \<open>prefix_code\<close> and \<open>fixed_codec\<close> that the
  encodings of the formats interpret.  \<^verbatim>\<open>Go_Path\<close> has \<^verbatim>\<open>path.Clean\<close>, \<^verbatim>\<open>path.Dir\<close> and \<^verbatim>\<open>path.Join\<close>.

  \<^bold>\<open>Registry.\<close>
  \<^item> \<^verbatim>\<open>Registry_Store\<close> (\<^verbatim>\<open>store.go\<close>): the in-memory store of manifests and tags, the classification of
    a manifest and the references parsed from it.  JSON decoding and SHA-256 are fields of the record \<open>lib\<close>.
  \<^item> \<^verbatim>\<open>Registry_Collector\<close> (\<^verbatim>\<open>collector.go\<close>): touches, forgets, the mark phase and the sweep, with the
    clock as an argument.  \<^verbatim>\<open>Registry_Mark\<close>, \<^verbatim>\<open>Registry_Sweep\<close> and \<^verbatim>\<open>Registry_GC\<close> show that the mark phase
    computes reachability, that a sweep keeps exactly what is live, leaves no dangling tag, never
    orphans a child or referrer, adopts what it has not seen before, and reports exactly the dead blobs.
  \<^item> \<^verbatim>\<open>Registry_Http\<close>, \<^verbatim>\<open>Registry_Manifests\<close> (\<^verbatim>\<open>manifest.go\<close>), \<^verbatim>\<open>Registry_Blobs\<close> (\<^verbatim>\<open>blobs.go\<close>, \<^verbatim>\<open>verify.go\<close>),
    \<^verbatim>\<open>Registry_Server\<close> (\<^verbatim>\<open>registry.go\<close>): every handler and the dispatcher, with all error replies.  A
    pushed manifest or a chunked upload is read back unchanged, failing requests change nothing, indexes
    keep their children, tag pages are sorted and complete, ranges are exact, and after any sequence of
    requests everything is stored and served under its own digest.  \<^verbatim>\<open>Registry_Demo\<close> and
    \<^verbatim>\<open>Registry_Witnesses\<close> hold concrete registries.

  \<^bold>\<open>Compact streams.\<close>  \<^verbatim>\<open>Compact_Format\<close>, \<^verbatim>\<open>Compact_Writer\<close> (\<^verbatim>\<open>writer.go\<close>), \<^verbatim>\<open>Compact_Inspect\<close>
  (\<^verbatim>\<open>inspect.go\<close>) and \<^verbatim>\<open>Compact_Reader\<close> (\<^verbatim>\<open>reader.go\<close>) keep the integers of the format at their widths.
  \<^verbatim>\<open>Compact_Roundtrip\<close>, \<^verbatim>\<open>Compact_Stream\<close> and \<^verbatim>\<open>Compact_Props\<close> show that a file the writer closed is
  reconstructed to the original stream, that an accepted table is sorted, disjoint and free of
  wrap-around, and that the incremental reader, for every sequence of nonzero buffer sizes, agrees with the
  one-shot reconstruction when a stream that reports its end with its last bytes has inline bytes after the
  last reference; otherwise references are lost, as they are when the stream is cut short.  Zstandard and the
  gzip replay are parameters.

  \<^bold>\<open>Content manifests.\<close>  \<^verbatim>\<open>Content_Manifest\<close>: the export of a layer's hashes and their import.  Every
  nonempty section is read back as it was written; an empty one is read as a single empty item.

  \<^bold>\<open>Layer writer.\<close>  \<^verbatim>\<open>Tar_Header\<close> (\<^verbatim>\<open>tarmetadata.go\<close>), \<^verbatim>\<open>Tar_Observer\<close> (\<^verbatim>\<open>observer.go\<close>), \<^verbatim>\<open>Tarcas\<close>
  (\<^verbatim>\<open>tarcas.go\<close>, \<^verbatim>\<open>options.go\<close>, \<^verbatim>\<open>factory.go\<close>).  The state of the writer is the record \<open>cas\<close>; an operation
  takes it and returns it with a result, an error, or \<open>Hang\<close> where a loop of the code does not end.
  \<^verbatim>\<open>Tarcas_Entries\<close>, \<^verbatim>\<open>Tarcas_Layer\<close>, \<^verbatim>\<open>Tarcas_Dedup\<close> and \<^verbatim>\<open>Tarcas_Props\<close> show that unpacking the
  archive finds every requested file with its content and metadata whether it was deduplicated or not,
  that the compact stream beside the layer reconstructs it, that the text hashed for a file's metadata
  determines the metadata, exactly when writing an entry returns, and what goes wrong when a name is written
  twice.  The theorems on whole layers are for distinct names, for layers that keep the files (not \<open>CASOnly\<close>),
  without the deduplication of whole trees, and with bare headers that are not hard links (\<open>layer_run\<close>, \<open>op_ok\<close>);
  metadata is compared after normalization.  \<^verbatim>\<open>archive/tar\<close>'s encoding, SHA-256, the opened files and the walk
  of a directory are parameters (the record \<open>tarLib\<close>).  \<^verbatim>\<open>Digestfs\<close> (\<^verbatim>\<open>pkg/digestfs\<close>) is the cache of digests the
  files are opened through, with concurrent callers as a step relation; it proves the law \<open>digestfs_ok\<close> that the
  theorems assume, for files that do not change.

  \<^bold>\<open>Compressing appender.\<close>  \<^verbatim>\<open>Compress_Appender\<close> (\<^verbatim>\<open>compress.go\<close>): hashes, counters, and their resumption.

  \<^bold>\<open>Gzip index.\<close>  \<^verbatim>\<open>pkg/ztoc\<close> indexes a gzip layer so that reading can start in its middle.
  \<^verbatim>\<open>Inflate_Bits\<close>, \<^verbatim>\<open>Inflate_Huffman\<close>, \<^verbatim>\<open>Inflate_Window\<close> and \<^verbatim>\<open>Inflate\<close> (\<^verbatim>\<open>inflate.go\<close>) are the decoder as the code
  has it: a 64-bit accumulator, a circular window, count and symbol tables, checksums; every access
  to an array, a slice or the window that is out of range is the error \<open>ZPanic\<close>.  \<^verbatim>\<open>Inflate_Ref\<close> is a reference decoder over the list of the bits of the file,
  with the canonical Huffman code defined from the code lengths and the whole output as history.
  \<^verbatim>\<open>Inflate_Sim\<close> is the simulation between the two, for any callback that observes the boundaries of the
  blocks (the locale \<open>boundary_observer\<close>, interpreted by the recorder of \<^verbatim>\<open>Zinfo\<close>, \<^verbatim>\<open>zinfo.go\<close>).
  \<^verbatim>\<open>Zinfo_Resume\<close> and \<^verbatim>\<open>Zinfo_Props\<close> show that indexing agrees with the reference, that no input makes the
  decoder panic, that decoding resumes at every checkpoint, and that the checkpoints, after those at the start
  of the output, are more than a span apart and the spans cover what they say.
  Loops end because each iteration consumes input: the measure is the number of bits left.

  \<^bold>\<open>Ztoc files.\<close>  \<^verbatim>\<open>Flatbuffer\<close> (\<^verbatim>\<open>flatbuffer.go\<close>) is the builder, which fills its buffer from the end, aligns
  every value, doubles the buffer when it is full and shares equal vtables, and the reader; offsets are 32-bit
  words, a panic is \<open>None\<close>, and a slice is its bytes together with those up to its capacity.  \<^verbatim>\<open>Flatbuffer_Rep\<close>,
  \<^verbatim>\<open>Flatbuffer_Table\<close> and \<^verbatim>\<open>Flatbuffer_Read\<close> specify every operation by a triple \<open>fb_spec\<close>: it returns as long as
  the buffer stays below 4 GiB, adds at most a given number of bytes, keeps everything written before, and
  leaves a value, string, vector or table at the offset it returns, which the reader finds again.  \<^verbatim>\<open>Ztoc\<close>
  (\<^verbatim>\<open>ztoc.go\<close>, \<^verbatim>\<open>toc.go\<close>, \<^verbatim>\<open>build.go\<close>, \<^verbatim>\<open>marshal.go\<close>) builds the table of contents of a layer and writes and reads it;
  \<^verbatim>\<open>Ztoc_Marshal\<close>, \<^verbatim>\<open>Ztoc_Unmarshal\<close> and \<^verbatim>\<open>Ztoc_Props\<close> show that what is written is read back, that the entries
  of a built ztoc are those of the tar headers with their offsets, that writing never panics, and what a malformed file can make the reader
  return.  \<^verbatim>\<open>compress/gzip\<close>, \<^verbatim>\<open>archive/tar\<close>, the text form of a time, \<^verbatim>\<open>sort.Slice\<close> and SHA-256 are the
  fields of the record \<open>ztocLib\<close>.

  \<^bold>\<open>Mtree specifications.\<close>  \<^verbatim>\<open>Mtree\<close> (\<^verbatim>\<open>pkg/mtree/mtree.go\<close>, \<^verbatim>\<open>parse.go\<close>) renders the metadata of layers, entry by entry
  or as the file system left after applying them as OCI changesets.  The tree of the second layout is the
  datatype \<open>treeNode\<close>, whose missing map of children is Go's nil map.  \<^verbatim>\<open>Mtree_Tree\<close> has what its operations do to the
  map from paths to entries, for any invariant of the locale \<open>node_invariant\<close>; \<^verbatim>\<open>Mtree_Changeset\<close> interprets it
  twice, with the invariant that excludes panics and with the one that also says that files have no children, and
  shows that the tree implements the rules for entries, whiteouts and opaque whiteouts; \<^verbatim>\<open>Mtree_Props\<close> has the
  listing (for relative paths, and layers that do not replace a directory with contents by something else), the
  hard links, the absence of panics, and where the result is not what is meant: directories that were replaced
  reappear, paths with an escaped character are read back wrongly, links are resolved over all layers at once.
  \<^verbatim>\<open>go-mtree\<close>, \<^verbatim>\<open>govis\<close>, \<^verbatim>\<open>archive/tar\<close>, \<^verbatim>\<open>sort.Slice\<close> and SHA-256 are the fields of the record \<open>mtreeLib\<close>.

  \<^bold>\<open>Merkle hashes of trees.\<close>  \<^verbatim>\<open>Merkle\<close> (\<^verbatim>\<open>pkg/tree/merkle\<close>) hashes a tree artifact from its deepest directories up.
  \<^verbatim>\<open>Merkle_Walk\<close> has what the walk records, \<^verbatim>\<open>Merkle_Props\<close> the equality with the recursive hash, exactly when
  hashing fails, and that without collisions the hash determines the tree.

  \<^bold>\<open>Request slots.\<close>  \<^verbatim>\<open>Slot_Pool\<close> (\<^verbatim>\<open>concurrency.go\<close>): the critical sections under the mutex are atomic steps
  of the inductive relation \<open>pool_step\<close>; a send on a full channel, which would block with the mutex
  held, is \<open>None\<close>.  \<^verbatim>\<open>Slot_Pool_Sim\<close> is a simulation by an abstract first-in-first-out semaphore for every
  interleaving; \<^verbatim>\<open>Slot_Pool_Props\<close> has the bound on the requests in flight, the absence of deadlock
  and the service of a waiting request after a number of releases fixed by its position.  The counters
  are unbounded integers: they count requests of one process.

  \<^bold>\<open>Loops.\<close>  Loops whose end needs an argument (\<open>mark_loop\<close>, \<open>grantLocked\<close>, the readers) are functions
  with termination proofs; the loop over parent directories, which may run forever, is a partial
  function whose missing value becomes \<open>Hang\<close>, and the theorem says for which names that happens.

  \<^bold>\<open>Not modelled.\<close>  The blob directory of the registry, the command line programs under \<^verbatim>\<open>cmd\<close>, the
  services under \<^verbatim>\<open>pkg/serve\<close>, pushing and authentication (\<^verbatim>\<open>pkg/push\<close>, \<^verbatim>\<open>pkg/auth\<close>), \<^verbatim>\<open>pkg/deployvfs\<close>,
  \<^verbatim>\<open>pkg/cas\<close>, \<^verbatim>\<open>pkg/ocilayout\<close>, the streams of \<^verbatim>\<open>pkg/basemeta\<close> and the generated protocol buffers are I/O
  against files, processes and networks; \<^verbatim>\<open>pkg/go-erofs\<close>
  is a file system library carried in the tree.
\<close>

end
